(* ===== verification/Prelude.thy ===== *)
theory Prelude
  imports Main "HOL-Library.Word"
begin

text \<open>
  Shared vocabulary of the development: the machine integers of the C code, the
  outcome of a kernel routine that may call \<^verbatim>\<open>panic\<close>, cyclic address ranges,
  and the page arithmetic of \<^verbatim>\<open>kernel/src/mem/mem.h\<close>.
\<close>

unbundle bit_operations_syntax

section \<open>Machine integers\<close>

type_synonym u8 = "8 word"
type_synonym u16 = "16 word"
type_synonym u32 = "32 word"
type_synonym u64 = "64 word"

text \<open>Facts about address ranges and about page alignment, collected for the components.\<close>

named_theorems range_simps
named_theorems page_simps

section \<open>Outcomes: a routine returns, or panics and never returns\<close>

text \<open>
  \<^verbatim>\<open>panic\<close> (\<^verbatim>\<open>common/printf.c\<close>) disables interrupts, prints its argument and loops
  for ever: a call that panics has no result and no successor state.
\<close>

datatype 'a outcome = Ok 'a | Panic string

primrec obind :: "'a outcome \<Rightarrow> ('a \<Rightarrow> 'b outcome) \<Rightarrow> 'b outcome" where
  "obind (Ok x) f = f x"
| "obind (Panic e) f = Panic e"

primrec is_Ok :: "'a outcome \<Rightarrow> bool" where
  "is_Ok (Ok x) = True"
| "is_Ok (Panic e) = False"

text \<open>The same for routines that may also run forever, or block, which is \<open>None\<close>.\<close>

definition kbind :: "'a outcome option \<Rightarrow> ('a \<Rightarrow> 'b outcome option) \<Rightarrow> 'b outcome option" where
  "kbind m f = (case m of None \<Rightarrow> None | Some (Panic e) \<Rightarrow> Some (Panic e) | Some (Ok a) \<Rightarrow> f a)"

lemma kbind_simps [simp]:
  "kbind None f = None" "kbind (Some (Panic e)) f = Some (Panic e)" "kbind (Some (Ok a)) f = f a"
  by (simp_all add: kbind_def)

lemma kbind_Ok: "kbind m f = Some (Ok b) \<longleftrightarrow> (\<exists>a. m = Some (Ok a) \<and> f a = Some (Ok b))"
  by (auto simp: kbind_def split: option.splits outcome.splits)

lemma kbind_cong: "(\<And>a. m = Some (Ok a) \<Longrightarrow> f a = g a) \<Longrightarrow> kbind m f = kbind m g"
  by (auto simp: kbind_def split: option.splits outcome.splits)

lemma kbind_return [simp]: "kbind m (\<lambda>a. Some (Ok a)) = m"
  by (auto simp: kbind_def split: option.splits outcome.splits)

lemma kbind_assoc: "kbind (kbind m f) g = kbind m (\<lambda>a. kbind (f a) g)"
  by (auto simp: kbind_def split: option.splits outcome.splits)

lemma obind_eq_Ok [simp]: "obind r f = Ok y \<longleftrightarrow> (\<exists>x. r = Ok x \<and> f x = Ok y)"
  by (cases r) auto

lemma is_Ok_iff: "is_Ok r \<longleftrightarrow> (\<exists>x. r = Ok x)"
  by (cases r) auto

section \<open>Cyclic address ranges\<close>

text \<open>
  The \<open>n\<close> addresses from \<open>p\<close> on, modulo \<open>2 ^ 64\<close>, as pointer arithmetic reaches them.
\<close>

definition in_range :: "u64 \<Rightarrow> nat \<Rightarrow> u64 \<Rightarrow> bool" where
  "in_range p n a \<longleftrightarrow> unat (a - p) < n"

lemma in_range_0 [simp]: "\<not> in_range p 0 a"
  by (simp add: in_range_def)

lemma in_range_self [simp]: "0 < n \<Longrightarrow> in_range p n p"
  by (simp add: in_range_def)

lemma unat_lt_2p64: "unat (a :: u64) < 18446744073709551616"
  using unsigned_less [of a] by simp

lemma unat_of_nat_u64: "k < 2 ^ 64 \<Longrightarrow> unat (word_of_nat k :: u64) = k"
  by (simp add: unat_of_nat)

text \<open>Subtraction of addresses, with its wrap-around, in the natural numbers.\<close>

lemma unat_diff:
  "unat (a - b :: u64) =
     (if unat b \<le> unat a then unat a - unat b else unat a + 18446744073709551616 - unat b)"
  using unat_sub_if' [of a b] by simp

lemma in_range_Suc: "in_range p (Suc n) a \<longleftrightarrow> a = p \<or> in_range (p + 1) n a" if "n < 2 ^ 64"
proof (cases "a = p")
  case True
  then show ?thesis by simp
next
  case False
  then have nz: "a - p \<noteq> 0" by simp
  then have "unat (a - (p + 1)) = unat (a - p) - 1"
    using unat_minus_one [OF nz] by (simp add: diff_diff_eq)
  moreover have "0 < unat (a - p)" using nz by (simp add: unat_gt_0)
  ultimately show ?thesis
    using False by (auto simp: in_range_def)
qed

lemma in_range_add:
  assumes "k < n" "n \<le> 2 ^ 64"
  shows "in_range p n (p + of_nat k)"
  using assms by (simp add: in_range_def unat_of_nat)

lemma in_range_offset:
  assumes "in_range p n a"
  obtains k where "k < n" "a = p + of_nat k"
proof -
  have "a = p + of_nat (unat (a - p))" by simp
  then show ?thesis using assms that unfolding in_range_def by blast
qed

definition ranges_disjoint :: "u64 \<Rightarrow> nat \<Rightarrow> u64 \<Rightarrow> nat \<Rightarrow> bool" where
  "ranges_disjoint p n q k \<longleftrightarrow> n \<le> unat (q - p) \<and> k \<le> unat (p - q)"

lemma ranges_disjointD:
  assumes "ranges_disjoint p n q k" "in_range p n a"
  shows "\<not> in_range q k a"
  using assms unat_lt_2p64 [of a] unat_lt_2p64 [of p] unat_lt_2p64 [of q]
  unfolding ranges_disjoint_def in_range_def unat_diff
  by (auto split: if_splits)

lemma ranges_disjoint_sym: "ranges_disjoint p n q k \<Longrightarrow> ranges_disjoint q k p n"
  by (simp add: ranges_disjoint_def)

lemma in_range_mono: "in_range p n a \<Longrightarrow> n \<le> k \<Longrightarrow> in_range p k a"
  by (simp add: in_range_def)

text \<open>A sub-range of a range.\<close>

lemma in_range_sub:
  assumes "in_range (p + of_nat k) n a" "k + n \<le> m" "m \<le> 2 ^ 64"
  shows "in_range p m a"
proof (cases "n = 0")
  case True
  with assms show ?thesis by simp
next
  case False
  from assms(1) obtain j where j: "j < n" "a = p + of_nat k + of_nat j"
    by (rule in_range_offset)
  then have "a = p + of_nat (k + j)" by simp
  moreover have "k + j < m" using j assms by simp
  ultimately show ?thesis using in_range_add assms(3) by blast
qed

section \<open>Pages (\<^verbatim>\<open>mem.h\<close>, \<^verbatim>\<open>vmm.c\<close>)\<close>

text \<open>
  \<^verbatim>\<open>PAGE_SIZE\<close> is \<^verbatim>\<open>4096u\<close>, an \<^verbatim>\<open>unsigned int\<close>: the mask
  \<^verbatim>\<open>~(PAGE_SIZE - 1)\<close> is computed in 32 bits and zero-extended when it meets a 64-bit
  operand, so the rounding macros also clear bits 32 to 63. The definitions keep
  that conversion.
\<close>

definition PAGE_SIZE :: u64 where
  "PAGE_SIZE = 4096"

definition page_not_mask :: u64 where
  "page_not_mask = ucast (NOT (4096 - 1) :: u32)"

definition PAGE_ROUND_UP :: "u64 \<Rightarrow> u64" where
  "PAGE_ROUND_UP sz = (sz + PAGE_SIZE - 1) AND page_not_mask"

definition PAGE_ROUND_DOWN :: "u64 \<Rightarrow> u64" where
  "PAGE_ROUND_DOWN a = a AND page_not_mask"

definition V2P :: "u64 \<Rightarrow> u64 \<Rightarrow> u64" where
  "V2P hhdm ptr = ptr - hhdm"

definition P2V :: "u64 \<Rightarrow> u64 \<Rightarrow> u64" where
  "P2V hhdm ptr = ptr + hhdm"

lemma unat_ucast_up: "unat (ucast (w :: u32) :: u64) = unat w"
proof -
  have "unat w < 2 ^ 32" using unsigned_less [of w, where ?'a = nat] by simp
  then have "unat w < 2 ^ 64" by simp
  then show ?thesis by (simp add: unsigned_ucast_eq take_bit_nat_eq_self)
qed

lemma unat_ucast_byte: "unat (ucast (b :: u8) :: u64) = unat b"
proof -
  have "unat b < 2 ^ 8" using unsigned_less [of b, where ?'a = nat] by simp
  then have "unat b < 2 ^ 64" by simp
  then show ?thesis by (simp add: unsigned_ucast_eq take_bit_nat_eq_self)
qed

lemma unat_ucast_down: "unat (w :: u64) < 2 ^ 32 \<Longrightarrow> unat (ucast w :: u32) = unat w"
  by (simp add: unsigned_ucast_eq take_bit_nat_eq_self)

lemma V2P_P2V [simp]: "V2P h (P2V h p) = p" "P2V h (V2P h p) = p"
  by (simp_all add: V2P_def P2V_def)

definition page_aligned :: "u64 \<Rightarrow> bool" where
  "page_aligned a \<longleftrightarrow> a AND (PAGE_SIZE - 1) = 0"

lemma and_4095: "(a :: u64) AND 4095 = a mod 4096"
proof -
  have "a AND mask 12 = a mod 2 ^ 12"
    by (simp only: take_bit_eq_mask [symmetric] take_bit_eq_mod)
  then show ?thesis by (simp add: mask_eq_exp_minus_1)
qed

lemma page_aligned_mod: "page_aligned a \<longleftrightarrow> a mod PAGE_SIZE = 0"
  by (simp add: page_aligned_def PAGE_SIZE_def and_4095)

lemma page_aligned_unat: "page_aligned a \<longleftrightarrow> unat a mod 4096 = 0"
proof -
  have "unat (a mod 4096) = unat a mod 4096"
    by (simp add: unat_mod_distrib)
  then show ?thesis
    by (metis page_aligned_mod PAGE_SIZE_def unat_0_iff)
qed

lemma page_not_mask_eq: "page_not_mask = push_bit 12 (mask 20)"
  by (simp add: page_not_mask_def mask_eq_exp_minus_1)

lemma and_page_not_mask: "a AND page_not_mask = push_bit 12 (drop_bit 12 (take_bit 32 a))"
  unfolding page_not_mask_eq
  by (rule bit_word_eqI) (auto simp: bit_simps)

lemma unat_and_page_not_mask: "unat (a AND page_not_mask) = unat a mod 2 ^ 32 div 4096 * 4096"
proof -
  have "unat a mod 2 ^ 32 div 4096 * 4096 < 2 ^ 64"
    by (rule le_less_trans [of _ "unat a mod 2 ^ 32"]) (simp_all add: less_trans)
  then show ?thesis
    unfolding and_page_not_mask
    by (simp add: push_bit_eq_mult drop_bit_eq_div take_bit_eq_mod unat_word_ariths
        unat_div_distrib unat_mod_distrib mult.commute)
qed

lemma page_aligned_round [simp]: "page_aligned (PAGE_ROUND_DOWN a)" "page_aligned (PAGE_ROUND_UP a)"
  by (simp_all add: page_aligned_unat PAGE_ROUND_DOWN_def PAGE_ROUND_UP_def unat_and_page_not_mask)

lemma unat_PAGE_ROUND_DOWN: "unat a < 2 ^ 32 \<Longrightarrow> unat (PAGE_ROUND_DOWN a) = unat a div 4096 * 4096"
  by (simp add: PAGE_ROUND_DOWN_def unat_and_page_not_mask)

lemma unat_PAGE_ROUND_UP:
  assumes "unat a + 4095 < 2 ^ 32"
  shows "unat (PAGE_ROUND_UP a) = (unat a + 4095) div 4096 * 4096"
proof -
  have "unat (a + 4095) = unat a + 4095"
    using assms by (simp add: unat_word_ariths)
  then show ?thesis
    using assms by (simp add: PAGE_ROUND_UP_def PAGE_SIZE_def unat_and_page_not_mask add.commute)
qed

text \<open>Two different aligned pages do not overlap.\<close>

lemma page_aligned_obtain:
  assumes "page_aligned a"
  obtains k where "unat a = 4096 * k"
  using assms by (metis page_aligned_unat mod_0_imp_dvd dvdE)

lemma pages_disjoint:
  assumes "page_aligned p" "page_aligned q" "p \<noteq> q"
  shows "ranges_disjoint p 4096 q 4096"
proof -
  obtain i j where ij: "unat p = 4096 * i" "unat q = 4096 * j"
    using assms by (metis page_aligned_obtain)
  have "unat p \<noteq> unat q" using assms(3) by (metis word_unat_eq_iff)
  then have ne: "i \<noteq> j" using ij by simp
  have b: "4096 * i < 18446744073709551616" "4096 * j < 18446744073709551616"
    using ij unat_lt_2p64 by metis+
  show ?thesis
    unfolding ranges_disjoint_def unat_diff ij
    using ne b by auto
qed

text \<open>The page an address lies in.\<close>

definition page_of :: "u64 \<Rightarrow> u64" where
  "page_of a = a - (a AND 4095)"

lemma page_aligned_page_of [simp]: "page_aligned (page_of a)"
proof -
  have "unat (a mod 4096) \<le> unat a" by (simp add: unat_mod_distrib)
  then have "unat (page_of a) = unat a - unat a mod 4096"
    by (simp add: page_of_def and_4095 unat_diff unat_mod_distrib)
  then show ?thesis by (simp add: page_aligned_unat minus_mod_eq_mult_div)
qed

lemma in_range_page_of [simp]: "in_range (page_of a) 4096 a"
  by (simp add: in_range_def page_of_def and_4095 unat_mod_distrib)

lemma page_of_eq_iff:
  assumes "page_aligned p"
  shows "page_of a = p \<longleftrightarrow> in_range p 4096 a"
  using assms pages_disjoint ranges_disjointD in_range_page_of page_aligned_page_of by metis

end
