(* ===== verification/Memory.thy ===== *)
theory Memory
  imports Prelude
begin

text \<open>
  The byte-addressed memory the kernel works on. Every pointer of the C code is a
  64-bit address into it, and a 16-, 32- or 64-bit object is read and written as its
  little-endian bytes (x86-64). The loads and stores are the accesses the compiler emits
  for \<^verbatim>\<open>*p\<close> and \<^verbatim>\<open>*p = v\<close>; the lemmas are the frame facts the components use.
\<close>

type_synonym memory = "u64 \<Rightarrow> u8"

section \<open>Little-endian loads and stores\<close>

fun load_le :: "nat \<Rightarrow> memory \<Rightarrow> u64 \<Rightarrow> nat" where
  "load_le 0 m a = 0"
| "load_le (Suc n) m a = unat (m a) + 256 * load_le n m (a + 1)"

definition store_le :: "nat \<Rightarrow> memory \<Rightarrow> u64 \<Rightarrow> nat \<Rightarrow> memory" where
  "store_le n m a v =
     (\<lambda>x. if in_range a n x then word_of_nat (v div 256 ^ unat (x - a)) else m x)"

definition load16 :: "memory \<Rightarrow> u64 \<Rightarrow> u16" where
  "load16 m a = word_of_nat (load_le 2 m a)"

definition load32 :: "memory \<Rightarrow> u64 \<Rightarrow> u32" where
  "load32 m a = word_of_nat (load_le 4 m a)"

definition load64 :: "memory \<Rightarrow> u64 \<Rightarrow> u64" where
  "load64 m a = word_of_nat (load_le 8 m a)"

text \<open>Bytes stored from an address on.\<close>

definition store_bytes :: "memory \<Rightarrow> u64 \<Rightarrow> u8 list \<Rightarrow> memory" where
  "store_bytes m a xs = (\<lambda>x. if unat (x - a) < length xs then xs ! unat (x - a) else m x)"

definition store16 :: "memory \<Rightarrow> u64 \<Rightarrow> u16 \<Rightarrow> memory" where
  "store16 m a v = store_le 2 m a (unat v)"

definition store32 :: "memory \<Rightarrow> u64 \<Rightarrow> u32 \<Rightarrow> memory" where
  "store32 m a v = store_le 4 m a (unat v)"

definition store64 :: "memory \<Rightarrow> u64 \<Rightarrow> u64 \<Rightarrow> memory" where
  "store64 m a v = store_le 8 m a (unat v)"

lemmas load_defs = load16_def load32_def load64_def
lemmas store_defs = store16_def store32_def store64_def

section \<open>Reading back what was written\<close>

lemma load_le_cong:
  assumes "\<And>x. in_range a n x \<Longrightarrow> m x = m' x" "n \<le> 2 ^ 64"
  shows "load_le n m a = load_le n m' a"
  using assms
proof (induction n arbitrary: a)
  case 0
  then show ?case by simp
next
  case (Suc n)
  have n: "n < 2 ^ 64" using Suc.prems(2) by simp
  have "load_le n m (a + 1) = load_le n m' (a + 1)"
    using Suc.prems in_range_Suc [OF n] by (intro Suc.IH) auto
  moreover have "m a = m' a" using Suc.prems(1) by simp
  ultimately show ?case by simp
qed

lemma store_le_Suc:
  assumes "n < 2 ^ 64" "in_range (a + 1) n x"
  shows "store_le (Suc n) m a v x = store_le n m' (a + 1) (v div 256) x"
proof -
  have ne: "x \<noteq> a"
  proof
    assume "x = a"
    then have "a - (a + 1) = (-1 :: u64)" by simp
    with assms \<open>x = a\<close> have "unat (-1 :: u64) < n" by (simp add: in_range_def)
    moreover have "unat (-1 :: u64) = 18446744073709551615"
      by (simp add: unsigned_minus_1_eq_mask mask_eq_exp_minus_1)
    ultimately show False using assms(1) by simp
  qed
  then have nz: "x - a \<noteq> 0" by simp
  have eq: "unat (x - (a + 1)) = unat (x - a) - 1"
    using unat_minus_one [OF nz] by (simp add: diff_diff_eq)
  have pos: "0 < unat (x - a)" using nz by (simp add: unat_gt_0)
  have "v div 256 ^ unat (x - a) = v div 256 div 256 ^ unat (x - (a + 1))"
    unfolding eq by (metis pos div_mult2_eq power_eq_if less_numeral_extra(3))
  moreover have "in_range a (Suc n) x"
    using assms in_range_Suc by blast
  ultimately show ?thesis
    using assms(2) by (simp add: store_le_def)
qed

lemma load_store_le:
  assumes "n \<le> 2 ^ 64"
  shows "load_le n (store_le n m a v) a = v mod 256 ^ n"
  using assms
proof (induction n arbitrary: a v)
  case 0
  then show ?case by simp
next
  case (Suc n)
  have n: "n < 2 ^ 64" using Suc.prems by simp
  have "load_le n (store_le (Suc n) m a v) (a + 1) =
        load_le n (store_le n m (a + 1) (v div 256)) (a + 1)"
    using n store_le_Suc [OF n] by (intro load_le_cong) auto
  also have "\<dots> = v div 256 mod 256 ^ n"
    using Suc.IH n by simp
  finally have "load_le (Suc n) (store_le (Suc n) m a v) a =
        unat (word_of_nat v :: u8) + 256 * (v div 256 mod 256 ^ n)"
    by (simp add: store_le_def)
  also have "\<dots> = v mod 256 ^ Suc n"
    by (simp add: unat_of_nat mod_mult2_eq)
  finally show ?case .
qed

lemma load_store_le_other:
  assumes "ranges_disjoint a n b k" "n \<le> 2 ^ 64"
  shows "load_le n (store_le k m b v) a = load_le n m a"
  using assms ranges_disjointD [OF assms(1)]
  by (intro load_le_cong) (auto simp: store_le_def)

lemma load64_store64 [simp]: "load64 (store64 m a v) a = v"
proof -
  have "unat v < 18446744073709551616" by (rule unat_lt_2p64)
  then show ?thesis
    by (simp add: load64_def store64_def load_store_le)
qed

lemma load32_store32 [simp]: "load32 (store32 m a v) a = v"
proof -
  have "unat v < 4294967296" using unsigned_less [of v] by simp
  then show ?thesis
    by (simp add: load32_def store32_def load_store_le)
qed

lemma load16_store16 [simp]: "load16 (store16 m a v) a = v"
proof -
  have "unat v < 65536" using unsigned_less [of v] by simp
  then show ?thesis
    by (simp add: load16_def store16_def load_store_le)
qed

lemma store64_outside: "\<not> in_range a 8 x \<Longrightarrow> store64 m a v x = m x"
  by (simp add: store64_def store_le_def)

lemma store32_outside: "\<not> in_range a 4 x \<Longrightarrow> store32 m a v x = m x"
  by (simp add: store32_def store_le_def)

lemma store16_outside: "\<not> in_range a 2 x \<Longrightarrow> store16 m a v x = m x"
  by (simp add: store16_def store_le_def)

lemma load64_cong:
  "(\<And>x. in_range a 8 x \<Longrightarrow> m x = m' x) \<Longrightarrow> load64 m a = load64 m' a"
  unfolding load64_def by (subst load_le_cong [of a 8 m m']) auto

lemma load32_cong:
  "(\<And>x. in_range a 4 x \<Longrightarrow> m x = m' x) \<Longrightarrow> load32 m a = load32 m' a"
  unfolding load32_def by (subst load_le_cong [of a 4 m m']) auto

lemma load64_store64_other:
  "ranges_disjoint a 8 b 8 \<Longrightarrow> load64 (store64 m b v) a = load64 m a"
  by (simp add: load64_def store64_def load_store_le_other)

text \<open>Distinct 8-byte aligned words do not overlap.\<close>

lemma words_disjoint:
  assumes "unat a mod 8 = 0" "unat b mod 8 = 0" "a \<noteq> b"
  shows "ranges_disjoint a 8 b 8"
proof -
  obtain i j where ij: "unat a = 8 * i" "unat b = 8 * j"
    using assms by (metis mod_0_imp_dvd dvdE)
  have "unat a \<noteq> unat b" using assms(3) by (metis word_unat_eq_iff)
  then have ne: "i \<noteq> j" using ij by simp
  have b: "8 * i < 18446744073709551616" "8 * j < 18446744073709551616"
    using ij unat_lt_2p64 by metis+
  show ?thesis
    unfolding ranges_disjoint_def unat_diff ij using ne b by auto
qed

section \<open>Words inside a page\<close>

text \<open>Slot \<open>i\<close> of a page seen as 512 words: the address of \<^verbatim>\<open>table[i]\<close>.\<close>

definition slot :: "u64 \<Rightarrow> u64 \<Rightarrow> u64" where
  "slot p i = p + 8 * i"

lemma page_aligned_mod8: "unat p mod 8 = 0" if "page_aligned p"
proof -
  obtain k where "unat p = 4096 * k" using \<open>page_aligned p\<close> by (rule page_aligned_obtain)
  moreover have "(8 :: nat) dvd 4096 * k" by (rule dvd_mult2) simp
  ultimately show ?thesis by (metis dvd_imp_mod_0)
qed

lemma unat_slot:
  assumes "page_aligned p" "unat i < 512"
  shows "unat (slot p i) = unat p + 8 * unat i"
proof -
  obtain k where k: "unat p = 4096 * k" using assms(1) by (rule page_aligned_obtain)
  have "4096 * k < 18446744073709551616" using k unat_lt_2p64 by metis
  then have "4096 * k + 8 * unat i < 18446744073709551616" using assms(2) by simp
  then show ?thesis
    using k assms(2) by (simp add: slot_def unat_word_ariths)
qed

lemma slot_in_page:
  assumes "page_aligned p" "unat i < 512" "in_range (slot p i) 8 x"
  shows "in_range p 4096 x"
proof -
  have "slot p i = p + of_nat (8 * unat i)" by (simp add: slot_def)
  then have "in_range (p + of_nat (8 * unat i)) 8 x" using assms(3) by simp
  then show ?thesis
    by (rule in_range_sub) (use assms(2) in simp_all)
qed

end
