(* ===== verification/Clib.thy ===== *)
theory Clib
  imports Memory
begin

text \<open>
  The freestanding memory and string routines of \<^verbatim>\<open>kernel/src/common/lib.c\<close> (and their
  copies in \<^verbatim>\<open>libc/src/string.c\<close>), as the loops over memory the code has. Lengths are
  \<^verbatim>\<open>size_t\<close> values read as natural numbers below \<open>2 ^ 64\<close>. A loop that runs
  until it meets a NUL byte is a \<^theory_text>\<open>partial_function (option)\<close>: \<open>None\<close> is
  ``does not return''.
\<close>

section \<open>Copying\<close>

text \<open>The two byte loops: ascending and descending.\<close>

primrec copy_up :: "memory \<Rightarrow> u64 \<Rightarrow> u64 \<Rightarrow> nat \<Rightarrow> memory" where
  "copy_up m d s 0 = m"
| "copy_up m d s (Suc n) = copy_up (m(d := m s)) (d + 1) (s + 1) n"

primrec copy_down :: "memory \<Rightarrow> u64 \<Rightarrow> u64 \<Rightarrow> nat \<Rightarrow> memory" where
  "copy_down m d s 0 = m"
| "copy_down m d s (Suc n) = copy_down (m(d + of_nat n := m (s + of_nat n))) d s n"

definition memcpy :: "memory \<Rightarrow> u64 \<Rightarrow> u64 \<Rightarrow> nat \<Rightarrow> memory" where
  "memcpy m dest src n = copy_up m dest src n"

definition memmove :: "memory \<Rightarrow> u64 \<Rightarrow> u64 \<Rightarrow> nat \<Rightarrow> memory" where
  "memmove m dest src n =
     (if src > dest then copy_up m dest src n
      else if src < dest then copy_down m dest src n
      else m)"

text \<open>The memory in which the range at \<open>d\<close> holds what the range at \<open>s\<close> held before.\<close>

definition copied :: "memory \<Rightarrow> u64 \<Rightarrow> u64 \<Rightarrow> nat \<Rightarrow> memory" where
  "copied m d s n = (\<lambda>a. if in_range d n a then m (s + (a - d)) else m a)"

section \<open>Filling (the \<^verbatim>\<open>MEMSET_SRC\<close> family)\<close>

datatype ity = I8 | I16 | I32 | I64

fun size_of :: "ity \<Rightarrow> nat" where
  "size_of I8 = 1"
| "size_of I16 = 2"
| "size_of I32 = 4"
| "size_of I64 = 8"

text \<open>Conversion of a value to the signed type, and a store of it.\<close>

definition cast_ity :: "ity \<Rightarrow> int \<Rightarrow> int" where
  "cast_ity t v = signed_take_bit (8 * size_of t - 1) v"

definition store_ity :: "ity \<Rightarrow> memory \<Rightarrow> u64 \<Rightarrow> int \<Rightarrow> memory" where
  "store_ity t m a v = store_le (size_of t) m a (nat (v mod 256 ^ size_of t))"

primrec fill :: "ity \<Rightarrow> memory \<Rightarrow> u64 \<Rightarrow> int \<Rightarrow> nat \<Rightarrow> memory" where
  "fill t m p v 0 = m"
| "fill t m p v (Suc k) = fill t (store_ity t m p v) (p + of_nat (size_of t)) v k"

fun ity_rank :: "ity \<Rightarrow> nat \<Rightarrow> nat" where
  "ity_rank I8 len = (if 1 < len then 4 else 0)"
| "ity_rank I16 len = 1"
| "ity_rank I32 len = 2"
| "ity_rank I64 len = 3"

lemma rest_length: "(len :: nat) - len div k * k = len mod k"
  by (simp add: minus_div_mult_eq_mod)

function memset_ity :: "ity \<Rightarrow> memory \<Rightarrow> u64 \<Rightarrow> int \<Rightarrow> nat \<Rightarrow> memory" where
  "memset_ity t m p v len =
     (let size = len div size_of t in
      if t = I8 \<and> size > 1 \<and> v = 0 then memset_ity I64 m p v len
      else
        let m1 = fill t m p v size; md = len mod size_of t in
        if md = 0 then m1
        else
          let ip = size * size_of t; lr = len - ip in
          if md < 8 \<and> md \<ge> 4 then memset_ity I32 m1 (p + of_nat ip) (cast_ity I32 v) lr
          else if md < 4 \<and> md \<ge> 2 then memset_ity I16 m1 (p + of_nat ip) (cast_ity I16 v) lr
          else memset_ity I8 m1 (p + of_nat ip) (cast_ity I8 v) lr)"
  by pat_completeness auto

termination
  by (relation "measures [\<lambda>(t, m, p, v, len). len, \<lambda>(t, m, p, v, len). ity_rank t len]")
    (auto simp: rest_length split: if_splits, (case_tac t; simp; linarith?)+)

definition memset :: "memory \<Rightarrow> u64 \<Rightarrow> int \<Rightarrow> nat \<Rightarrow> memory" where
  "memset m buf val len = memset_ity I8 m buf (cast_ity I8 val) len"

text \<open>The memory in which every byte of the range holds \<open>b\<close>.\<close>

definition filled :: "memory \<Rightarrow> u64 \<Rightarrow> u8 \<Rightarrow> nat \<Rightarrow> memory" where
  "filled m p b n = (\<lambda>a. if in_range p n a then b else m a)"

section \<open>Comparing and NUL-terminated strings\<close>

primrec memcmp :: "memory \<Rightarrow> u64 \<Rightarrow> u64 \<Rightarrow> nat \<Rightarrow> int" where
  "memcmp m s1 s2 0 = 0"
| "memcmp m s1 s2 (Suc n) =
     (if m s1 \<noteq> m s2 then (if m s1 < m s2 then -1 else 1)
      else memcmp m (s1 + 1) (s2 + 1) n)"

partial_function (option) strlen_loop :: "memory \<Rightarrow> u64 \<Rightarrow> u64 \<Rightarrow> u64 option" where
  "strlen_loop m s n = (if m (s + n) = 0 then Some n else strlen_loop m s (n + 1))"

definition strlen :: "memory \<Rightarrow> u64 \<Rightarrow> u64 option" where
  "strlen m s = strlen_loop m s 0"

partial_function (option) strcpy :: "memory \<Rightarrow> u64 \<Rightarrow> u64 \<Rightarrow> memory option" where
  "strcpy m s t =
     (if m t = 0 then Some (m(s := m t)) else strcpy (m(s := m t)) (s + 1) (t + 1))"

definition byte_diff :: "u8 \<Rightarrow> u8 \<Rightarrow> int" where
  "byte_diff x y = int (unat x) - int (unat y)"

partial_function (option) strcmp :: "memory \<Rightarrow> u64 \<Rightarrow> u64 \<Rightarrow> int option" where
  "strcmp m p q =
     (if m p \<noteq> 0 \<and> m p = m q then strcmp m (p + 1) (q + 1)
      else Some (byte_diff (m p) (m q)))"

primrec strncmp :: "memory \<Rightarrow> u64 \<Rightarrow> u64 \<Rightarrow> nat \<Rightarrow> int" where
  "strncmp m s1 s2 0 = 0"
| "strncmp m s1 s2 (Suc n) =
     (if m s1 \<noteq> m s2 then byte_diff (m s1) (m s2)
      else if m s1 = 0 then 0
      else strncmp m (s1 + 1) (s2 + 1) n)"

text \<open>The string \<open>xs\<close> stands at \<open>p\<close>, with its terminating NUL.\<close>

primrec cstr_at :: "memory \<Rightarrow> u64 \<Rightarrow> u8 list \<Rightarrow> bool" where
  "cstr_at m p [] \<longleftrightarrow> m p = 0"
| "cstr_at m p (x # xs) \<longleftrightarrow> x \<noteq> 0 \<and> m p = x \<and> cstr_at m (p + 1) xs"

section \<open>Copying is right\<close>

lemma in_range_last:
  "in_range d (Suc n) a \<longleftrightarrow> in_range d n a \<or> a = d + of_nat n" if n: "n < 2 ^ 64"
proof -
  have "unat (a - d) = n \<longleftrightarrow> a = d + of_nat n"
  proof
    assume "unat (a - d) = n"
    moreover have "a = d + of_nat (unat (a - d))" by simp
    ultimately show "a = d + of_nat n" by simp
  next
    assume "a = d + of_nat n"
    then show "unat (a - d) = n" using n by (simp add: unat_of_nat)
  qed
  then show ?thesis
    by (auto simp: in_range_def less_Suc_eq)
qed

lemma copy_up_copied:
  assumes "\<And>i j. i < j \<Longrightarrow> j < n \<Longrightarrow> s + of_nat j \<noteq> d + of_nat i" "n \<le> 2 ^ 64"
  shows "copy_up m d s n = copied m d s n"
  using assms
proof (induction n arbitrary: m d s)
  case 0
  then show ?case by (simp add: copied_def)
next
  case (Suc n)
  have n: "n < 2 ^ 64" using Suc.prems(2) by simp
  have IH: "copy_up (m(d := m s)) (d + 1) (s + 1) n = copied (m(d := m s)) (d + 1) (s + 1) n"
  proof (rule Suc.IH)
    fix i j assume "i < j" "j < n"
    with Suc.prems(1) [of "Suc i" "Suc j"] show "s + 1 + of_nat j \<noteq> d + 1 + of_nat i"
      by (simp add: algebra_simps)
  qed (use n in simp)
  show ?case
  proof
    fix a
    show "copy_up m d s (Suc n) a = copied m d s (Suc n) a"
    proof (cases "in_range (d + 1) n a")
      case True
      then obtain k where k: "k < n" "a = d + 1 + of_nat k" by (rule in_range_offset)
      have "s + of_nat (Suc k) \<noteq> d"
        using Suc.prems(1) [of 0 "Suc k"] k by simp
      then have "s + (a - d) \<noteq> d" using k by (simp add: algebra_simps)
      moreover have "s + 1 + (a - (d + 1)) = s + (a - d)" by simp
      ultimately show ?thesis
        using True n by (simp add: IH copied_def in_range_Suc)
    next
      case False
      then show ?thesis using n by (simp add: IH copied_def in_range_Suc)
    qed
  qed
qed

lemma copy_down_copied:
  assumes "\<And>i j. j < i \<Longrightarrow> i < n \<Longrightarrow> s + of_nat j \<noteq> d + of_nat i" "n \<le> 2 ^ 64"
  shows "copy_down m d s n = copied m d s n"
  using assms
proof (induction n arbitrary: m)
  case 0
  then show ?case by (simp add: copied_def)
next
  case (Suc n)
  let ?m = "m(d + of_nat n := m (s + of_nat n))"
  have n: "n < 2 ^ 64" using Suc.prems(2) by simp
  have IH: "copy_down ?m d s n = copied ?m d s n"
    by (rule Suc.IH) (use Suc.prems in auto)
  show ?case
  proof
    fix a
    show "copy_down m d s (Suc n) a = copied m d s (Suc n) a"
    proof (cases "in_range d n a")
      case True
      then obtain k where k: "k < n" "a = d + of_nat k" by (rule in_range_offset)
      have "s + of_nat k \<noteq> d + of_nat n" using Suc.prems(1) [of k n] k by simp
      then have "s + (a - d) \<noteq> d + of_nat n" using k by simp
      then show ?thesis using True n by (simp add: IH copied_def in_range_last)
    next
      case False
      then show ?thesis using n by (auto simp: IH copied_def in_range_last)
    qed
  qed
qed

lemma no_wrap_offset:
  assumes "unat s + n \<le> 2 ^ 64" "j < n"
  shows "unat (s + of_nat j :: u64) = unat s + j"
  using assms by (simp add: unat_word_ariths unat_of_nat)

lemma memmove_copied:
  assumes "unat dest + n \<le> 2 ^ 64" "unat src + n \<le> 2 ^ 64"
  shows "memmove m dest src n = copied m dest src n"
proof -
  have n: "n \<le> 2 ^ 64" using assms by simp
  have ne: "src + of_nat j \<noteq> dest + of_nat i"
    if "i < n" "j < n" "unat src + j \<noteq> unat dest + i" for i j
    using that no_wrap_offset [OF assms(1)] no_wrap_offset [OF assms(2)] by metis
  consider (up) "dest < src" | (down) "src < dest" | (same) "src = dest"
    by (metis linorder_less_linear)
  then show ?thesis
  proof cases
    case up
    then have "unat dest < unat src" by (simp add: word_less_nat_alt)
    then show ?thesis
      using up n ne by (simp add: memmove_def copy_up_copied)
  next
    case down
    then have "unat src < unat dest" by (simp add: word_less_nat_alt)
    then show ?thesis
      using down n ne by (auto simp: memmove_def copy_down_copied)
  next
    case same
    then show ?thesis by (auto simp: memmove_def copied_def)
  qed
qed

lemma memcpy_copied:
  assumes "ranges_disjoint dest n src n" "n \<le> 2 ^ 64"
  shows "memcpy m dest src n = copied m dest src n"
  unfolding memcpy_def
proof (rule copy_up_copied [OF _ assms(2)])
  fix i j assume "i < j" "j < n"
  then have "in_range dest n (dest + of_nat i)" "in_range src n (src + of_nat j)"
    using assms(2) by (auto intro!: in_range_add)
  then show "src + of_nat j \<noteq> dest + of_nat i"
    using ranges_disjointD [OF assms(1)] by metis
qed

section \<open>Filling is right\<close>

lemma filled_0 [simp]: "filled m p b 0 = m"
  by (auto simp: filled_def)

lemma filled_filled:
  assumes "n + k \<le> 2 ^ 64"
  shows "filled (filled m p b n) (p + of_nat n) b k = filled m p b (n + k)"
  using assms
proof (induction k)
  case 0
  then show ?case by simp
next
  case (Suc k)
  have "in_range (p + of_nat n) (Suc k) a \<longleftrightarrow> in_range (p + of_nat n) k a \<or> a = p + of_nat (n + k)" for a
    using Suc.prems by (subst in_range_last) (auto simp: add.assoc)
  moreover have "in_range p (n + Suc k) a \<longleftrightarrow> in_range p (n + k) a \<or> a = p + of_nat (n + k)" for a
    using Suc.prems in_range_last [of "n + k" p a] by simp
  moreover have "filled (filled m p b n) (p + of_nat n) b k = filled m p b (n + k)"
    using Suc by simp
  ultimately show ?case
    unfolding filled_def fun_eq_iff by metis
qed

lemma store_ity_I8: "store_ity I8 m p v = filled m p (word_of_int v) 1"
proof
  fix a
  have "word_of_nat (nat (v mod 256)) = (word_of_int (v mod 256) :: u8)"
    by (metis Euclidean_Rings.pos_mod_sign nat_int_comparison(2) nat_0_le of_int_of_nat_eq zero_less_numeral)
  also have "\<dots> = word_of_int v"
    by (simp add: word_of_int_eq_iff take_bit_eq_mod)
  finally have "word_of_nat (nat (v mod 256)) = (word_of_int v :: u8)" .
  then show "store_ity I8 m p v a = filled m p (word_of_int v) 1 a"
    by (auto simp: store_ity_def store_le_def filled_def in_range_def)
qed

lemma store_ity_zero: "store_ity t m p 0 = filled m p 0 (size_of t)"
  by (auto simp: store_ity_def store_le_def filled_def fun_eq_iff)

lemma fill_filled:
  assumes "\<And>m p. store_ity t m p v = filled m p b (size_of t)" "k * size_of t \<le> 2 ^ 64"
  shows "fill t m p v k = filled m p b (k * size_of t)"
  using assms(2)
proof (induction k arbitrary: m p)
  case 0
  then show ?case by simp
next
  case (Suc k)
  then show ?case by (simp add: assms(1) filled_filled)
qed

lemma cast_ity_0 [simp]: "cast_ity t 0 = 0"
  by (simp add: cast_ity_def)

declare memset_ity.simps [simp del]

text \<open>
  Clearing, at any element type: the loop clears the whole elements and the tail call, at
  a narrower type, the rest.
\<close>

definition tail_ity :: "nat \<Rightarrow> ity" where
  "tail_ity md = (if md < 8 \<and> md \<ge> 4 then I32 else if md < 4 \<and> md \<ge> 2 then I16 else I8)"

lemma memset_ity_zero_step:
  assumes len: "len \<le> 2 ^ 64" and nt: "\<not> (t = I8 \<and> 1 < len)"
    and tail: "\<And>m p. len mod size_of t \<noteq> 0 \<Longrightarrow>
      memset_ity (tail_ity (len mod size_of t)) m p 0 (len mod size_of t) = filled m p 0 (len mod size_of t)"
  shows "memset_ity t m p 0 len = filled m p 0 len"
proof -
  let ?size = "len div size_of t" and ?md = "len mod size_of t"
  let ?m1 = "filled m p 0 (?size * size_of t)"
  have "?size * size_of t \<le> 2 ^ 64"
    using len by (metis div_times_less_eq_dividend le_trans)
  then have f: "fill t m p 0 ?size = ?m1"
    by (intro fill_filled) (simp_all add: store_ity_zero)
  have nt': "\<not> (t = I8 \<and> ?size > 1 \<and> (0 :: int) = 0)" using nt by auto
  have step: "memset_ity t m p 0 len =
      (if ?md = 0 then ?m1 else memset_ity (tail_ity ?md) ?m1 (p + of_nat (?size * size_of t)) 0 ?md)"
    unfolding memset_ity.simps [of t m p 0 len] Let_def if_not_P [OF nt'] f rest_length
      cast_ity_0 tail_ity_def by simp
  show ?thesis
  proof (cases "?md = 0")
    case True
    then have "?size * size_of t = len" by auto
    then show ?thesis using step True by simp
  next
    case False
    then have "memset_ity t m p 0 len = filled ?m1 (p + of_nat (?size * size_of t)) 0 ?md"
      using step tail by simp
    also have "\<dots> = filled m p 0 len"
      using len by (subst filled_filled) simp_all
    finally show ?thesis .
  qed
qed

lemma memset_I8_one: "memset_ity I8 m p 0 1 = filled m p 0 1"
  by (rule memset_ity_zero_step) simp_all

lemma tail_ity_cases:
  "4 \<le> k \<Longrightarrow> k < 8 \<Longrightarrow> tail_ity k = I32"
  "2 \<le> k \<Longrightarrow> k < 4 \<Longrightarrow> tail_ity k = I16"
  "tail_ity 1 = I8"
  by (simp_all add: tail_ity_def)

lemma memset_I16_zero:
  assumes "len \<le> 2 ^ 64"
  shows "memset_ity I16 m p 0 len = filled m p 0 len"
proof (rule memset_ity_zero_step [OF assms])
  fix m p assume "len mod size_of I16 \<noteq> 0"
  moreover define k where "k = len mod size_of I16"
  moreover have "k < 2" by (simp add: k_def)
  ultimately have "k = 1" by simp
  then show "memset_ity (tail_ity (len mod size_of I16)) m p 0 (len mod size_of I16) =
      filled m p 0 (len mod size_of I16)"
    unfolding k_def [symmetric] using memset_I8_one by (simp only: tail_ity_cases)
qed simp

lemma memset_I32_zero:
  assumes "len \<le> 2 ^ 64"
  shows "memset_ity I32 m p 0 len = filled m p 0 len"
proof (rule memset_ity_zero_step [OF assms])
  fix m p assume nz: "len mod size_of I32 \<noteq> 0"
  define k where "k = len mod size_of I32"
  have "k < 4" "k \<noteq> 0" using nz by (simp_all add: k_def)
  then consider "2 \<le> k" "k < 4" | "k = 1" by linarith
  then show "memset_ity (tail_ity (len mod size_of I32)) m p 0 (len mod size_of I32) =
      filled m p 0 (len mod size_of I32)"
    unfolding k_def [symmetric]
    by cases (simp_all only: tail_ity_cases memset_I8_one, simp add: memset_I16_zero)
qed simp

lemma memset_I64_zero:
  assumes "len \<le> 2 ^ 64"
  shows "memset_ity I64 m p 0 len = filled m p 0 len"
proof (rule memset_ity_zero_step [OF assms])
  fix m p assume nz: "len mod size_of I64 \<noteq> 0"
  define k where "k = len mod size_of I64"
  have "k < 8" "k \<noteq> 0" using nz by (simp_all add: k_def)
  then consider "4 \<le> k" "k < 8" | "2 \<le> k" "k < 4" | "k = 1" by linarith
  then show "memset_ity (tail_ity (len mod size_of I64)) m p 0 (len mod size_of I64) =
      filled m p 0 (len mod size_of I64)"
    unfolding k_def [symmetric]
    by cases (simp_all only: tail_ity_cases memset_I8_one, simp_all add: memset_I16_zero memset_I32_zero)
qed simp

lemma memset_I8_zero:
  assumes "len \<le> 2 ^ 64"
  shows "memset_ity I8 m p 0 len = filled m p 0 len"
proof (cases "1 < len")
  case True
  then have "memset_ity I8 m p 0 len = memset_ity I64 m p 0 len"
    unfolding memset_ity.simps [of I8 m p 0 len] Let_def by simp
  then show ?thesis using assms memset_I64_zero by simp
next
  case False
  show ?thesis
    by (rule memset_ity_zero_step [OF assms]) (use False in simp_all)
qed

lemma memset_filled:
  assumes "len \<le> 2 ^ 64"
  shows "memset m buf val len = filled m buf (word_of_int val) len"
proof -
  have w: "word_of_int (cast_ity I8 val) = (word_of_int val :: u8)"
    by (rule bit_word_eqI) (auto simp: cast_ity_def bit_simps)
  show ?thesis
  proof (cases "cast_ity I8 val = 0")
    case True
    then have "(word_of_int val :: u8) = 0" using w by simp
    then show ?thesis
      unfolding memset_def True using assms by (simp add: memset_I8_zero)
  next
    case False
    have "fill I8 m buf (cast_ity I8 val) len = filled m buf (word_of_int val) (len * size_of I8)"
      using assms w by (intro fill_filled) (simp_all add: store_ity_I8)
    then show ?thesis
      unfolding memset_def memset_ity.simps [of I8 m buf "cast_ity I8 val" len] Let_def
      using False by simp
  qed
qed

section \<open>Comparison and strings\<close>

lemma memcmp_zero_iff:
  assumes "n \<le> 2 ^ 64"
  shows "memcmp m p q n = 0 \<longleftrightarrow> (\<forall>i < n. m (p + of_nat i) = m (q + of_nat i))"
  using assms
proof (induction n arbitrary: p q)
  case 0
  then show ?case by simp
next
  case (Suc n)
  then have "memcmp m (p + 1) (q + 1) n = 0 \<longleftrightarrow>
      (\<forall>i < n. m (p + of_nat (Suc i)) = m (q + of_nat (Suc i)))"
    by (simp add: algebra_simps)
  then show ?case
    by (auto simp: less_Suc_eq_0_disj)
qed

lemma strlen_loop_cstr:
  "cstr_at m (p + n) xs \<Longrightarrow> strlen_loop m p n = Some (n + of_nat (length xs))"
proof (induction xs arbitrary: n)
  case Nil
  then show ?case by (simp add: strlen_loop.simps)
next
  case (Cons x xs)
  then have "strlen_loop m p (n + 1) = Some (n + 1 + of_nat (length xs))"
    by (intro Cons.IH) (simp add: add.assoc)
  with Cons.prems show ?case by (simp add: strlen_loop.simps [of m p n] algebra_simps)
qed

lemma strlen_cstr: "cstr_at m p xs \<Longrightarrow> strlen m p = Some (of_nat (length xs))"
  using strlen_loop_cstr [of m p 0 xs] by (simp add: strlen_def)

text \<open>Dictionary order on byte strings, a proper prefix coming first.\<close>

fun bytes_less :: "u8 list \<Rightarrow> u8 list \<Rightarrow> bool" where
  "bytes_less [] ys \<longleftrightarrow> ys \<noteq> []"
| "bytes_less (x # xs) [] \<longleftrightarrow> False"
| "bytes_less (x # xs) (y # ys) \<longleftrightarrow> x < y \<or> x = y \<and> bytes_less xs ys"

lemma byte_diff_sign [simp]:
  "byte_diff x y = 0 \<longleftrightarrow> x = y" "byte_diff x y < 0 \<longleftrightarrow> x < y"
  by (simp_all add: byte_diff_def word_less_alt word_uint_eq_iff)

lemma strcmp_cstr:
  assumes "cstr_at m p xs" "cstr_at m q ys"
  shows "\<exists>r. strcmp m p q = Some r \<and> (r = 0 \<longleftrightarrow> xs = ys) \<and> (r < 0 \<longleftrightarrow> bytes_less xs ys)"
  using assms
proof (induction xs ys arbitrary: p q rule: bytes_less.induct)
  case (1 ys)
  then show ?case by (cases ys) (auto simp: strcmp.simps [of m p q] word_gt_0)
next
  case (2 x xs)
  then show ?case by (auto simp: strcmp.simps [of m p q])
next
  case (3 x xs y ys)
  show ?case
  proof (cases "x = y")
    case True
    then show ?thesis
      using "3.prems" "3.IH" [of "p + 1" "q + 1"] by (simp add: strcmp.simps [of m p q])
  next
    case False
    then show ?thesis using "3.prems" by (auto simp: strcmp.simps [of m p q])
  qed
qed

lemma strncmp_cstr:
  assumes "cstr_at m p xs" "cstr_at m q ys"
  shows "strncmp m p q n = 0 \<longleftrightarrow> take n xs = take n ys"
  using assms
proof (induction n arbitrary: p q xs ys)
  case 0
  then show ?case by simp
next
  case (Suc n)
  show ?case
    using Suc.prems Suc.IH [of "p + 1" "tl xs" "q + 1" "tl ys"]
    by (cases xs; cases ys) auto
qed

lemma cstr_at_cong:
  assumes "\<And>a. in_range p (Suc (length xs)) a \<Longrightarrow> m a = m' a" "length xs < 2 ^ 64"
  shows "cstr_at m p xs \<longleftrightarrow> cstr_at m' p xs"
  using assms
proof (induction xs arbitrary: p)
  case Nil
  then show ?case by simp
next
  case (Cons x xs)
  have "cstr_at m (p + 1) xs \<longleftrightarrow> cstr_at m' (p + 1) xs"
    using Cons.prems in_range_Suc [of "Suc (length xs)" p]
    by (intro Cons.IH) auto
  moreover have "m p = m' p" using Cons.prems(1) by simp
  ultimately show ?case by simp
qed

text \<open>Copying a string to a place that does not overlap it.\<close>

lemma strcpy_cstr:
  assumes "cstr_at m t xs" "length xs < 2 ^ 64 - 1"
    "\<And>a. in_range s (Suc (length xs)) a \<Longrightarrow> \<not> in_range t (Suc (length xs)) a"
  shows "\<exists>m'. strcpy m s t = Some m' \<and> cstr_at m' s xs \<and>
    (\<forall>a. \<not> in_range s (Suc (length xs)) a \<longrightarrow> m' a = m a)"
  using assms
proof (induction xs arbitrary: m s t)
  case Nil
  then show ?case by (auto simp: strcpy.simps [of m s t] in_range_def)
next
  case (Cons x xs)
  let ?n = "Suc (length xs)"
  have n: "?n < 2 ^ 64" using Cons.prems(2) by simp
  have split: "in_range q (Suc ?n) a \<longleftrightarrow> a = q \<or> in_range (q + 1) ?n a" for q a
    using in_range_Suc [OF n] .
  let ?m = "m(s := m t)"
  have "cstr_at ?m (t + 1) xs"
  proof (subst cstr_at_cong [where m' = m])
    fix a assume "in_range (t + 1) (Suc (length xs)) a"
    then have "in_range t (Suc ?n) a" using split by blast
    then have "a \<noteq> s" using Cons.prems(3) by (metis in_range_self length_Cons zero_less_Suc)
    then show "?m a = m a" by simp
  qed (use Cons.prems in auto)
  moreover have "\<not> in_range (t + 1) ?n a" if "in_range (s + 1) ?n a" for a
    using that Cons.prems(3) split by (metis length_Cons)
  moreover have "length xs < 2 ^ 64 - 1" using Cons.prems(2) by simp
  ultimately obtain m' where m': "strcpy ?m (s + 1) (t + 1) = Some m'" "cstr_at m' (s + 1) xs"
    "\<And>a. \<not> in_range (s + 1) ?n a \<Longrightarrow> m' a = ?m a"
    using Cons.IH [of ?m "t + 1" "s + 1"] by blast
  have "\<not> in_range (s + 1) ?n s"
    using n in_range_last [of "2 ^ 64 - 1" "s + 1" s]
    by (auto simp: in_range_def unsigned_minus_1_eq_mask mask_eq_exp_minus_1)
  then have "m' s = x" using m'(3) [of s] Cons.prems(1) by simp
  moreover have "strcpy m s t = Some m'"
    using m'(1) Cons.prems(1) by (simp add: strcpy.simps [of m s t])
  moreover have "m' a = m a" if "\<not> in_range s (Suc ?n) a" for a
    using that m'(3) [of a] split by auto
  ultimately show ?case using m'(2) Cons.prems(1) by auto
qed

end
