(* ===== verification/Phys_Mem.thy ===== *)
theory Phys_Mem
  imports Clib
begin

text \<open>
  The physical page allocator, \<^verbatim>\<open>kernel/src/mem/mem.c\<close>. Freed pages form a singly linked
  list threaded through the pages themselves (the first eight bytes of a free page hold
  \<^verbatim>\<open>next\<close>), kept here in the byte memory as in the code; memory that was never handed
  out is a list of regions carved from the front. The nodes of the region list come from
  a static pool and are reachable only through that list, so the list is a HOL list.
  \<^verbatim>\<open>spinlock_lock\<close>/\<^verbatim>\<open>spinlock_unlock\<close> bracket each access on every path; the model is
  sequential and leaves the pair out. The build defines no \<^verbatim>\<open>DEBUG\<close>, so \<^verbatim>\<open>kfree\<close>
  does not poison.
\<close>

section \<open>State\<close>

record mem_region =
  phys_cur :: u64
  phys_end :: u64

record kmem =
  mem :: memory
  freepages :: u64
  regions :: "mem_region list"
  hhdm_offset :: u64
  phys_max_end :: u64
  mem_initialized :: bool
  static_region_pool_idx :: nat

definition STATIC_REGION_POOL_SIZE :: nat where
  "STATIC_REGION_POOL_SIZE = 32"

record memmap_entry =
  me_base :: u64
  me_length :: u64
  me_type :: u64

definition LIMINE_MEMMAP_USABLE :: u64 where
  "LIMINE_MEMMAP_USABLE = 0"

definition phys_addr_valid :: "kmem \<Rightarrow> u64 \<Rightarrow> bool" where
  "phys_addr_valid s pa \<longleftrightarrow> pa < phys_max_end s \<and> pa mod PAGE_SIZE = 0"

section \<open>Single pages\<close>

definition push_free_page :: "u64 \<Rightarrow> kmem \<Rightarrow> kmem" where
  "push_free_page page s = s\<lparr>mem := store64 (mem s) page (freepages s), freepages := page\<rparr>"

definition pop_free_page :: "kmem \<Rightarrow> u64 \<times> kmem" where
  "pop_free_page s =
     (if freepages s = 0 then (0, s)
      else (freepages s, s\<lparr>freepages := load64 (mem s) (freepages s)\<rparr>))"

definition kfree :: "u64 \<Rightarrow> kmem \<Rightarrow> kmem outcome" where
  "kfree page s =
     (if page = 0 then Ok s
      else if page AND (PAGE_SIZE - 1) \<noteq> 0 then Panic ''kfree: unaligned page''
      else if V2P (hhdm_offset s) page AND (PAGE_SIZE - 1) \<noteq> 0
        then Panic ''kfree: V2P produced unaligned phys''
      else Ok (push_free_page page s))"

text \<open>The walk over the region list: bump the first region that has a page left.\<close>

fun take_page :: "mem_region list \<Rightarrow> (u64 \<times> mem_region list) option" where
  "take_page [] = None"
| "take_page (r # rs) =
     (if phys_cur r < phys_end r then
        (let cur = phys_cur r + PAGE_SIZE
         in Some (phys_cur r, if cur \<ge> phys_end r then rs else r\<lparr>phys_cur := cur\<rparr> # rs))
      else map_option (\<lambda>(phys, rs'). (phys, r # rs')) (take_page rs))"

definition alloc_from_regions_for_page_cache :: "kmem \<Rightarrow> u64 \<times> kmem" where
  "alloc_from_regions_for_page_cache s =
     (case take_page (regions s) of
        None \<Rightarrow> (0, s)
      | Some (phys, rs) \<Rightarrow> (P2V (hhdm_offset s) phys, s\<lparr>regions := rs\<rparr>))"

definition kalloc :: "kmem \<Rightarrow> u64 \<times> kmem" where
  "kalloc s =
     (let (page, s1) = pop_free_page s in
      if page \<noteq> 0 then (page, s1\<lparr>mem := memset (mem s1) page 0 (unat PAGE_SIZE)\<rparr>)
      else
        let (page, s2) = alloc_from_regions_for_page_cache s1 in
        if page = 0 then (0, s2)
        else (page, s2\<lparr>mem := memset (mem s2) page 2 (unat PAGE_SIZE)\<rparr>))"

definition kalloc_for_page_cache :: "kmem \<Rightarrow> u64 \<times> kmem" where
  "kalloc_for_page_cache s =
     (let (page, s1) = pop_free_page s in
      if page \<noteq> 0 then (page, s1) else alloc_from_regions_for_page_cache s1)"

definition kcalloc :: "kmem \<Rightarrow> u64 \<times> kmem" where
  "kcalloc s =
     (let (page, s1) = pop_free_page s in
      if page \<noteq> 0 then (page, s1\<lparr>mem := memset (mem s1) page 0 (unat PAGE_SIZE)\<rparr>)
      else
        let (page, s2) = alloc_from_regions_for_page_cache s1 in
        if page = 0 then (0, s2)
        else (page, s2\<lparr>mem := memset (mem s2) page 0 (unat PAGE_SIZE)\<rparr>))"

section \<open>Initialisation\<close>

text \<open>
  The list of regions is a list of values, not of nodes in memory. A node taken from the page
  allocator therefore leaves the pool without being written; \<^verbatim>\<open>init_mem\<close>, the only caller, never
  reaches that branch, because it sets \<^verbatim>\<open>mem_initialized\<close> after its loop.
\<close>

definition append_region :: "u64 \<Rightarrow> u64 \<Rightarrow> kmem \<Rightarrow> int \<times> kmem" where
  "append_region phys_start phys_stop s =
     (if phys_start \<ge> phys_stop then (0, s)
      else
        let node = \<lparr>phys_cur = phys_start, phys_end = phys_stop\<rparr>;
            (r, s1) = (if mem_initialized s \<and> freepages s \<noteq> 0 then kalloc_for_page_cache s else (0, s))
        in if r = 0 then
             (if static_region_pool_idx s1 \<ge> STATIC_REGION_POOL_SIZE then (-1, s1)
              else (0, s1\<lparr>static_region_pool_idx := static_region_pool_idx s1 + 1,
                          regions := regions s1 @ [node]\<rparr>))
           else (0, s1\<lparr>regions := regions s1 @ [node]\<rparr>))"

text \<open>One turn of the loop over the memory map; a null entry pointer is \<open>None\<close>.\<close>

definition init_mem_entry :: "memmap_entry option \<Rightarrow> kmem \<Rightarrow> kmem outcome" where
  "init_mem_entry entry s =
     (case entry of None \<Rightarrow> Ok s | Some e \<Rightarrow>
        let s1 = (if me_base e + me_length e > phys_max_end s
                  then s\<lparr>phys_max_end := me_base e + me_length e\<rparr> else s)
        in if me_type e \<noteq> LIMINE_MEMMAP_USABLE then Ok s1
           else if me_length e < PAGE_SIZE then Ok s1
           else
             let aligned_base = (me_base e + PAGE_SIZE - 1) AND page_not_mask;
                 stop = (me_base e + me_length e) AND page_not_mask
             in if aligned_base \<ge> stop then Ok s1
                else
                  let (result, s2) = append_region aligned_base stop s1 in
                  if result \<noteq> 0
                    then Panic ''init_mem: failed to register memory region - increase STATIC_REGION_POOL_SIZE''
                  else Ok s2)"

primrec init_mem_loop :: "memmap_entry option list \<Rightarrow> kmem \<Rightarrow> kmem outcome" where
  "init_mem_loop [] s = Ok s"
| "init_mem_loop (e # es) s = obind (init_mem_entry e s) (init_mem_loop es)"

definition init_mem :: "u64 \<Rightarrow> memmap_entry option list option \<Rightarrow> kmem \<Rightarrow> kmem outcome" where
  "init_mem hhdm_offset_local memory_map s =
     (if mem_initialized s then Ok s
      else case memory_map of
          None \<Rightarrow> Panic ''init_mem: null memory_map''
        | Some entries \<Rightarrow>
            obind (init_mem_loop entries (s\<lparr>hhdm_offset := hhdm_offset_local\<rparr>))
              (\<lambda>s'. Ok (s'\<lparr>mem_initialized := True\<rparr>)))"

section \<open>Contiguous pages\<close>

fun take_pages :: "u64 \<Rightarrow> mem_region list \<Rightarrow> (u64 \<times> mem_region list) option" where
  "take_pages bytes_needed [] = None"
| "take_pages bytes_needed (r # rs) =
     (if phys_end r - phys_cur r \<ge> bytes_needed then
        (let cur = phys_cur r + bytes_needed
         in Some (phys_cur r, if cur \<ge> phys_end r then rs else r\<lparr>phys_cur := cur\<rparr> # rs))
      else map_option (\<lambda>(phys, rs'). (phys, r # rs')) (take_pages bytes_needed rs))"

definition alloc_contiguous_from_regions :: "u64 \<Rightarrow> kmem \<Rightarrow> u64 \<times> kmem" where
  "alloc_contiguous_from_regions num_pages s =
     (if num_pages = 0 then (0, s)
      else case take_pages (num_pages * PAGE_SIZE) (regions s) of
          None \<Rightarrow> (0, s)
        | Some (phys, rs) \<Rightarrow> (P2V (hhdm_offset s) phys, s\<lparr>regions := rs\<rparr>))"

text \<open>
  The inner loop of \<^verbatim>\<open>alloc_contiguous_from_freelist\<close>: from \<open>scan\<close> on, the next \<open>k\<close>
  list nodes must be the pages that follow \<open>base\<close> physically, starting with number \<open>i\<close>.
  The result is the last node of the block.
\<close>

primrec contig_scan :: "memory \<Rightarrow> u64 \<Rightarrow> u64 \<Rightarrow> u64 \<Rightarrow> u64 \<Rightarrow> nat \<Rightarrow> u64 option" where
  "contig_scan m h base i scan 0 = Some scan"
| "contig_scan m h base i scan (Suc k) =
     (if scan = 0 then Some scan
      else if load64 m scan = 0 then None
      else if base + i * PAGE_SIZE \<noteq> V2P h (load64 m scan) then None
      else contig_scan m h base (i + 1) (load64 m scan) k)"

text \<open>The outer loop; on a list that closes into a cycle it would not return (\<open>None\<close>).\<close>

partial_function (option) contig_search ::
    "memory \<Rightarrow> u64 \<Rightarrow> u64 \<Rightarrow> u64 \<Rightarrow> u64 \<Rightarrow> (u64 \<times> u64 \<times> u64) option option" where
  "contig_search m h num_pages prev it =
     (if it = 0 then Some None
      else if contig_scan m h (V2P h it) 1 it (unat num_pages - 1) \<notin> {None, Some 0}
        then Some (Some (prev, it, the (contig_scan m h (V2P h it) 1 it (unat num_pages - 1))))
      else contig_search m h num_pages it (load64 m it))"

definition alloc_contiguous_from_freelist :: "u64 \<Rightarrow> kmem \<Rightarrow> (u64 \<times> kmem) option" where
  "alloc_contiguous_from_freelist num_pages s =
     (if num_pages \<le> 1 then Some (0, s)
      else map_option
        (\<lambda>found. case found of
             None \<Rightarrow> (0, s)
           | Some (prev, it, scan) \<Rightarrow>
               (it, if prev \<noteq> 0 then s\<lparr>mem := store64 (mem s) prev (load64 (mem s) scan)\<rparr>
                    else s\<lparr>freepages := load64 (mem s) scan\<rparr>))
        (contig_search (mem s) (hhdm_offset s) num_pages 0 (freepages s)))"

definition kalloc_pages :: "u64 \<Rightarrow> kmem \<Rightarrow> (u64 \<times> kmem) option" where
  "kalloc_pages num_pages s =
     (if num_pages = 0 then Some (0, s)
      else if num_pages = 1 then Some (kalloc s)
      else map_option
        (\<lambda>(pages, s1).
           if pages \<noteq> 0 then
             (pages, s1\<lparr>mem := memset (mem s1) pages 2 (unat (num_pages * PAGE_SIZE))\<rparr>)
           else
             let (pages, s2) = alloc_contiguous_from_regions num_pages s1 in
             if pages \<noteq> 0 then
               (pages, s2\<lparr>mem := memset (mem s2) pages 2 (unat (num_pages * PAGE_SIZE))\<rparr>)
             else (0, s2))
        (alloc_contiguous_from_freelist num_pages s))"

text \<open>The loop of \<^verbatim>\<open>kfree_pages\<close>, with \<open>k\<close> pages left from number \<open>i\<close> on.\<close>

primrec kfree_loop :: "u64 \<Rightarrow> u64 \<Rightarrow> nat \<Rightarrow> kmem \<Rightarrow> kmem outcome" where
  "kfree_loop va i 0 s = Ok s"
| "kfree_loop va i (Suc k) s = obind (kfree (va + i * PAGE_SIZE) s) (kfree_loop va (i + 1) k)"

definition kfree_pages :: "u64 \<Rightarrow> u64 \<Rightarrow> kmem \<Rightarrow> kmem outcome" where
  "kfree_pages ptr num_pages s =
     (if ptr = 0 \<or> num_pages = 0 then Ok s
      else if ptr AND (PAGE_SIZE - 1) \<noteq> 0 then Panic ''kfree_pages: unaligned pointer''
      else kfree_loop ptr 0 (unat num_pages) s)"

section \<open>The free list in memory\<close>

text \<open>The list nodes from \<open>p\<close> on, up to the null pointer.\<close>

primrec flist :: "memory \<Rightarrow> u64 \<Rightarrow> u64 list \<Rightarrow> bool" where
  "flist m p [] \<longleftrightarrow> p = 0"
| "flist m p (x # xs) \<longleftrightarrow> p = x \<and> x \<noteq> 0 \<and> flist m (load64 m x) xs"

lemma flist_0 [simp]: "flist m 0 xs \<longleftrightarrow> xs = []"
  by (cases xs) auto

lemma flist_nonnull: "p \<noteq> 0 \<Longrightarrow> flist m p xs \<longleftrightarrow> (\<exists>ys. xs = p # ys \<and> flist m (load64 m p) ys)"
  by (cases xs) auto

lemma flist_unique: "flist m p xs \<Longrightarrow> flist m p ys \<Longrightarrow> xs = ys"
  by (induction xs arbitrary: p ys) (auto simp: flist_nonnull)

lemma flist_append: "flist m p (xs @ y # ys) \<Longrightarrow> flist m y (y # ys)"
  by (induction xs arbitrary: p) auto

lemma flist_distinct: "flist m p xs \<Longrightarrow> distinct xs"
proof (induction xs arbitrary: p)
  case Nil
  then show ?case by simp
next
  case (Cons x xs)
  have "x \<notin> set xs"
  proof
    assume "x \<in> set xs"
    then obtain us vs where "xs = us @ x # vs" by (metis split_list)
    then have "flist m x (x # vs)" using Cons.prems flist_append [of m p "x # us"] by simp
    moreover have "flist m x (x # xs)" using Cons.prems by simp
    ultimately have "x # vs = x # xs" using flist_unique by blast
    with \<open>xs = us @ x # vs\<close> show False by simp
  qed
  with Cons show ?case by auto
qed

lemma flist_nonzero: "flist m p xs \<Longrightarrow> 0 \<notin> set xs"
  by (induction xs arbitrary: p) auto

lemma flist_cong:
  "(\<And>x. x \<in> set xs \<Longrightarrow> load64 m x = load64 m' x) \<Longrightarrow> flist m p xs \<longleftrightarrow> flist m' p xs"
  by (induction xs arbitrary: p) auto

section \<open>The pool of free pages\<close>

definition free_list_pages :: "kmem \<Rightarrow> u64 set" where
  "free_list_pages s = {p. \<exists>xs. flist (mem s) (freepages s) xs \<and> p \<in> set xs}"

definition region_pages :: "u64 \<Rightarrow> mem_region \<Rightarrow> u64 set" where
  "region_pages h r = P2V h ` {pa. page_aligned pa \<and> phys_cur r \<le> pa \<and> pa < phys_end r}"

definition regions_pages :: "u64 \<Rightarrow> mem_region list \<Rightarrow> u64 set" where
  "regions_pages h rs = (\<Union>r \<in> set rs. region_pages h r)"

definition pool :: "kmem \<Rightarrow> u64 set" where
  "pool s = free_list_pages s \<union> regions_pages (hhdm_offset s) (regions s)"

definition region_ok :: "mem_region \<Rightarrow> bool" where
  "region_ok r \<longleftrightarrow> page_aligned (phys_cur r) \<and> page_aligned (phys_end r) \<and> phys_cur r < phys_end r"

primrec regions_ok :: "u64 \<Rightarrow> mem_region list \<Rightarrow> bool" where
  "regions_ok h [] \<longleftrightarrow> True"
| "regions_ok h (r # rs) \<longleftrightarrow>
     region_ok r \<and> region_pages h r \<inter> regions_pages h rs = {} \<and> regions_ok h rs"

text \<open>
  The invariant: the free list is a null-terminated list of aligned pages, the regions
  are aligned, non-empty and disjoint, and no page is free twice.
\<close>

definition phys_inv :: "kmem \<Rightarrow> bool" where
  "phys_inv s \<longleftrightarrow>
     (\<exists>xs. flist (mem s) (freepages s) xs \<and> (\<forall>x \<in> set xs. page_aligned x) \<and>
           set xs \<inter> regions_pages (hhdm_offset s) (regions s) = {}) \<and>
     page_aligned (hhdm_offset s) \<and>
     regions_ok (hhdm_offset s) (regions s) \<and>
     0 \<notin> regions_pages (hhdm_offset s) (regions s)"

lemma phys_invI:
  assumes "flist (mem s) (freepages s) xs" "\<forall>x \<in> set xs. page_aligned x"
    "set xs \<inter> regions_pages (hhdm_offset s) (regions s) = {}"
    "page_aligned (hhdm_offset s)" "regions_ok (hhdm_offset s) (regions s)"
    "0 \<notin> regions_pages (hhdm_offset s) (regions s)"
  shows "phys_inv s"
  using assms unfolding phys_inv_def by blast

lemma free_list_pages_flist: "flist (mem s) (freepages s) xs \<Longrightarrow> free_list_pages s = set xs"
  unfolding free_list_pages_def using flist_unique by blast

lemma regions_pages_simps [simp]:
  "regions_pages h [] = {}"
  "regions_pages h (r # rs) = region_pages h r \<union> regions_pages h rs"
  by (auto simp: regions_pages_def)

section \<open>Carving a region\<close>

lemma page_aligned_dvd: "page_aligned a \<longleftrightarrow> 4096 dvd unat a"
  by (simp add: page_aligned_unat dvd_eq_mod_eq_0)

lemma page_aligned_add: "page_aligned a \<Longrightarrow> page_aligned b \<Longrightarrow> page_aligned (a + b)"
  unfolding page_aligned_dvd unat_word_ariths(1) by (rule dvd_mod) simp_all

lemma page_aligned_P2V: "page_aligned h \<Longrightarrow> page_aligned p \<Longrightarrow> page_aligned (P2V h p)"
  by (simp add: P2V_def page_aligned_add)

lemma aligned_next:
  assumes "page_aligned a" "page_aligned b" "a < b"
  shows "unat (a + 4096) = unat a + 4096" "a + 4096 \<le> b" "page_aligned (a + 4096)"
proof -
  obtain i j where ij: "unat a = 4096 * i" "unat b = 4096 * j"
    using assms by (metis page_aligned_obtain)
  have "i < j" using assms(3) ij by (simp add: word_less_nat_alt)
  moreover have "4096 * j < 18446744073709551616" using ij unat_lt_2p64 by metis
  ultimately show u: "unat (a + 4096) = unat a + 4096"
    using ij by (simp add: unat_word_ariths)
  show "a + 4096 \<le> b"
    using \<open>i < j\<close> ij u by (simp add: word_le_nat_alt)
  show "page_aligned (a + 4096)"
    using u ij by (simp add: page_aligned_unat)
qed

lemma aligned_from:
  assumes "page_aligned a" "page_aligned b" "a < b" "page_aligned p" "p < b"
  shows "a \<le> p \<longleftrightarrow> p = a \<or> a + 4096 \<le> p"
proof
  assume "a \<le> p"
  then consider "p = a" | "a < p" by fastforce
  then show "p = a \<or> a + 4096 \<le> p"
    using aligned_next(2) assms by cases auto
next
  assume "p = a \<or> a + 4096 \<le> p"
  then show "a \<le> p"
    using aligned_next(1) [OF assms(1-3)] by (auto simp: word_le_nat_alt)
qed

lemma region_pages_carve:
  assumes "region_ok r"
  shows "region_pages h r =
      insert (P2V h (phys_cur r)) (region_pages h (r\<lparr>phys_cur := phys_cur r + 4096\<rparr>))"
    and "P2V h (phys_cur r) \<notin> region_pages h (r\<lparr>phys_cur := phys_cur r + 4096\<rparr>)"
proof -
  let ?c = "phys_cur r"
  have a: "page_aligned ?c" "page_aligned (phys_end r)" "?c < phys_end r"
    using assms by (auto simp: region_ok_def)
  have "{pa. page_aligned pa \<and> ?c \<le> pa \<and> pa < phys_end r} =
      insert ?c {pa. page_aligned pa \<and> ?c + 4096 \<le> pa \<and> pa < phys_end r}"
    using aligned_from [OF a] a by auto
  then show "region_pages h r =
      insert (P2V h ?c) (region_pages h (r\<lparr>phys_cur := ?c + 4096\<rparr>))"
    by (simp add: region_pages_def)
  have "\<not> ?c + 4096 \<le> ?c"
    using aligned_next(1) [OF a] by (simp add: word_le_nat_alt)
  then show "P2V h ?c \<notin> region_pages h (r\<lparr>phys_cur := ?c + 4096\<rparr>)"
    by (auto simp: region_pages_def P2V_def)
qed

lemma region_pages_exhausted:
  "phys_end r \<le> phys_cur r \<Longrightarrow> region_pages h r = {}"
  by (auto simp: region_pages_def)

lemma take_page_spec:
  assumes "regions_ok h rs" "take_page rs = Some (phys, rs')"
  shows "page_aligned phys \<and> P2V h phys \<in> regions_pages h rs \<and>
    regions_pages h rs' = regions_pages h rs - {P2V h phys} \<and> regions_ok h rs'"
proof -
  obtain r ts where rs: "rs = r # ts" using assms(2) by (cases rs) auto
  have ok: "region_ok r" "region_pages h r \<inter> regions_pages h ts = {}" "regions_ok h ts"
    using assms(1) rs by auto
  let ?r = "r\<lparr>phys_cur := phys_cur r + 4096\<rparr>"
  have phys: "phys = phys_cur r"
    and rs': "rs' = (if phys_end r \<le> phys_cur r + 4096 then ts else ?r # ts)"
    using assms(2) ok(1) rs by (auto simp: region_ok_def Let_def PAGE_SIZE_def)
  note carve = region_pages_carve [OF ok(1), of h]
  have al: "page_aligned (phys_cur r)" "page_aligned (phys_end r)" "phys_cur r < phys_end r"
    using ok(1) by (auto simp: region_ok_def)
  show ?thesis
  proof (cases "phys_end r \<le> phys_cur r + 4096")
    case True
    then have "region_pages h ?r = {}" by (simp add: region_pages_exhausted)
    with carve True al show ?thesis using ok rs' phys rs by auto
  next
    case False
    then have "region_ok ?r" using aligned_next(3) [OF al] al by (simp add: region_ok_def)
    with carve False al show ?thesis using ok rs' phys rs by auto
  qed
qed

lemma take_page_None:
  "regions_ok h rs \<Longrightarrow> take_page rs = None \<Longrightarrow> rs = []"
  by (cases rs) (auto simp: region_ok_def Let_def)

section \<open>What a page allocation promises\<close>

text \<open>
  The page \<open>p\<close> was free, is free no longer, and nothing outside it has changed.
\<close>

definition alloc_ok :: "kmem \<Rightarrow> u64 \<Rightarrow> kmem \<Rightarrow> bool" where
  "alloc_ok s p s' \<longleftrightarrow>
     p \<noteq> 0 \<and> p \<in> pool s \<and> page_aligned p \<and> phys_inv s' \<and> pool s' = pool s - {p} \<and>
     hhdm_offset s' = hhdm_offset s \<and> phys_max_end s' = phys_max_end s \<and>
     (\<forall>a. \<not> in_range p 4096 a \<longrightarrow> mem s' a = mem s a)"

lemma load64_other_page:
  assumes "page_aligned p" "page_aligned q" "p \<noteq> q" "\<And>a. \<not> in_range p 4096 a \<Longrightarrow> m' a = m a"
  shows "load64 m' q = load64 m q"
proof (rule load64_cong)
  fix x assume "in_range q 8 x"
  then have "in_range q 4096 x" by (rule in_range_mono) simp
  then have "\<not> in_range p 4096 x"
    using ranges_disjointD pages_disjoint assms(1-3) by metis
  then show "m' x = m x" by (rule assms(4))
qed

text \<open>Changing a page that is not free keeps the pool and the invariant.\<close>

lemma phys_inv_free_list:
  assumes "phys_inv s"
  obtains xs where "flist (mem s) (freepages s) xs" "free_list_pages s = set xs"
    "\<forall>x \<in> set xs. page_aligned x"
    "set xs \<inter> regions_pages (hhdm_offset s) (regions s) = {}"
  using assms free_list_pages_flist unfolding phys_inv_def by metis

lemma mem_write_flist:
  assumes "flist (mem s) p0 xs" "\<forall>x \<in> set xs. page_aligned x"
    "page_aligned p" "p \<notin> set xs" "\<And>a. \<not> in_range p 4096 a \<Longrightarrow> m a = mem s a"
  shows "flist m p0 xs"
proof -
  have "load64 m x = load64 (mem s) x" if "x \<in> set xs" for x
    using that assms load64_other_page [of p x m "mem s"] by metis
  then show ?thesis using assms(1) flist_cong [of xs m "mem s"] by blast
qed

lemma mem_write_pool:
  assumes "phys_inv s" "page_aligned p" "p \<notin> pool s" "\<And>a. \<not> in_range p 4096 a \<Longrightarrow> m a = mem s a"
  shows "phys_inv (s\<lparr>mem := m\<rparr>)" "pool (s\<lparr>mem := m\<rparr>) = pool s"
proof -
  from assms(1) obtain xs where xs: "flist (mem s) (freepages s) xs" "free_list_pages s = set xs"
    "\<forall>x \<in> set xs. page_aligned x" "set xs \<inter> regions_pages (hhdm_offset s) (regions s) = {}"
    by (rule phys_inv_free_list)
  have "p \<notin> set xs" using assms(3) xs(2) by (auto simp: pool_def)
  then have m: "flist m (freepages s) xs"
    using mem_write_flist [OF xs(1) xs(3) assms(2) _ assms(4)] by blast
  then show "phys_inv (s\<lparr>mem := m\<rparr>)"
    using assms(1) xs unfolding phys_inv_def by auto
  show "pool (s\<lparr>mem := m\<rparr>) = pool s"
    using free_list_pages_flist [of "s\<lparr>mem := m\<rparr>" xs] m xs(2) by (simp add: pool_def)
qed

lemma alloc_ok_write:
  assumes "alloc_ok s p s1" "\<And>a. \<not> in_range p 4096 a \<Longrightarrow> m a = mem s1 a"
  shows "alloc_ok s p (s1\<lparr>mem := m\<rparr>)"
proof -
  have "phys_inv s1" "page_aligned p" "p \<notin> pool s1"
    using assms(1) by (auto simp: alloc_ok_def)
  then have "phys_inv (s1\<lparr>mem := m\<rparr>)" "pool (s1\<lparr>mem := m\<rparr>) = pool s1"
    using mem_write_pool assms(2) by blast+
  then show ?thesis using assms by (simp add: alloc_ok_def)
qed

lemma memset_page: "memset m p v (unat PAGE_SIZE) = filled m p (word_of_int v) 4096"
  by (simp add: PAGE_SIZE_def memset_filled)

lemma alloc_ok_memset:
  "alloc_ok s p s1 \<Longrightarrow> alloc_ok s p (s1\<lparr>mem := memset (mem s1) p v (unat PAGE_SIZE)\<rparr>)"
  by (erule alloc_ok_write) (simp add: memset_page filled_def)

section \<open>The single-page operations\<close>

lemma pop_free_page_ok:
  assumes "phys_inv s" "freepages s \<noteq> 0" "pop_free_page s = (p, s')"
  shows "alloc_ok s p s' \<and> mem s' = mem s"
proof -
  from assms(1) obtain xs where xs: "flist (mem s) (freepages s) xs" "free_list_pages s = set xs"
    "\<forall>x \<in> set xs. page_aligned x" "set xs \<inter> regions_pages (hhdm_offset s) (regions s) = {}"
    by (rule phys_inv_free_list)
  have p: "p = freepages s" "s' = s\<lparr>freepages := load64 (mem s) p\<rparr>"
    using assms(2,3) by (auto simp: pop_free_page_def)
  obtain ys where ys: "xs = p # ys" "flist (mem s) (load64 (mem s) p) ys"
    using xs(1) assms(2) p by (auto simp: flist_nonnull)
  then have "free_list_pages s' = set ys"
    using p by (intro free_list_pages_flist) simp
  moreover have "p \<notin> set ys" using flist_distinct [OF xs(1)] ys(1) by simp
  ultimately show ?thesis
    using assms(1,2) xs ys p unfolding alloc_ok_def phys_inv_def pool_def by auto
qed

lemma pop_free_page_empty:
  assumes "phys_inv s" "freepages s = 0"
  shows "pop_free_page s = (0, s)" "free_list_pages s = {}"
  using assms free_list_pages_flist [of s "[]"] by (simp_all add: pop_free_page_def)

lemma alloc_from_regions_ok:
  assumes "phys_inv s" "alloc_from_regions_for_page_cache s = (p, s')" "p \<noteq> 0"
  shows "alloc_ok s p s' \<and> mem s' = mem s"
proof -
  let ?h = "hhdm_offset s"
  obtain phys rs where rs: "take_page (regions s) = Some (phys, rs)"
    and p: "p = P2V ?h phys" and s': "s' = s\<lparr>regions := rs\<rparr>"
    using assms(2,3) by (auto simp: alloc_from_regions_for_page_cache_def split: option.splits)
  have ok: "regions_ok ?h (regions s)" "page_aligned ?h" using assms(1) by (auto simp: phys_inv_def)
  note tp = take_page_spec [OF ok(1) rs]
  have "page_aligned p"
    using tp ok(2) p page_aligned_P2V by blast
  moreover have "free_list_pages s' = free_list_pages s"
    by (simp add: s' free_list_pages_def)
  ultimately show ?thesis
    using assms(1,3) tp p s' free_list_pages_flist [of s]
    unfolding alloc_ok_def phys_inv_def pool_def by auto
qed

lemma alloc_from_regions_fail:
  assumes "phys_inv s" "alloc_from_regions_for_page_cache s = (0, s')"
  shows "s' = s \<and> regions_pages (hhdm_offset s) (regions s) = {}"
proof (cases "take_page (regions s)")
  case None
  then have "regions s = []" using assms(1) take_page_None by (auto simp: phys_inv_def)
  then show ?thesis using None assms(2) by (simp add: alloc_from_regions_for_page_cache_def)
next
  case (Some pr)
  obtain phys rs where pr: "pr = (phys, rs)" by (cases pr)
  have "regions_ok (hhdm_offset s) (regions s)" using assms(1) by (simp add: phys_inv_def)
  then have "P2V (hhdm_offset s) phys \<in> regions_pages (hhdm_offset s) (regions s)"
    using take_page_spec Some pr by blast
  then have "P2V (hhdm_offset s) phys \<noteq> 0" using assms(1) by (auto simp: phys_inv_def)
  then show ?thesis using Some pr assms(2) by (simp add: alloc_from_regions_for_page_cache_def)
qed

text \<open>
  The three allocators differ only in how they fill the page: by \<open>vf\<close> when it comes
  from the free list and by \<open>vr\<close> when it comes from a region.
\<close>

definition page_fill :: "int option \<Rightarrow> u64 \<Rightarrow> kmem \<Rightarrow> kmem" where
  "page_fill v p s =
     (case v of None \<Rightarrow> s | Some b \<Rightarrow> s\<lparr>mem := memset (mem s) p b (unat PAGE_SIZE)\<rparr>)"

definition alloc_with :: "int option \<Rightarrow> int option \<Rightarrow> kmem \<Rightarrow> u64 \<times> kmem" where
  "alloc_with vf vr s =
     (let (page, s1) = pop_free_page s in
      if page \<noteq> 0 then (page, page_fill vf page s1)
      else let (page, s2) = alloc_from_regions_for_page_cache s1 in
           if page = 0 then (0, s2) else (page, page_fill vr page s2))"

lemma alloc_with_variants:
  "kalloc = alloc_with (Some 0) (Some 2)"
  "kcalloc = alloc_with (Some 0) (Some 0)"
  "kalloc_for_page_cache = alloc_with None None"
  by (auto simp: fun_eq_iff kalloc_def kcalloc_def kalloc_for_page_cache_def alloc_with_def
      page_fill_def Let_def split: prod.splits)

lemma alloc_ok_fill: "alloc_ok s p s1 \<Longrightarrow> alloc_ok s p (page_fill v p s1)"
  by (auto simp: page_fill_def alloc_ok_memset split: option.splits)

lemma alloc_with_spec:
  assumes "phys_inv s" "alloc_with vf vr s = (p, s')"
  shows "if p = 0 then s' = s \<and> pool s = {} else
    alloc_ok s p s' \<and>
    (\<exists>s1. mem s1 = mem s \<and> s' = page_fill (if freepages s \<noteq> 0 then vf else vr) p s1)"
proof (cases "freepages s = 0")
  case False
  obtain q s1 where q: "pop_free_page s = (q, s1)" by force
  then have "alloc_ok s q s1 \<and> mem s1 = mem s" using pop_free_page_ok assms(1) False by blast
  moreover have "q \<noteq> 0" using calculation by (simp add: alloc_ok_def)
  ultimately show ?thesis
    using assms(2) q False by (auto simp: alloc_with_def intro: alloc_ok_fill)
next
  case True
  obtain q s2 where q: "alloc_from_regions_for_page_cache s = (q, s2)" by force
  note pop = pop_free_page_empty [OF assms(1) True]
  show ?thesis
  proof (cases "q = 0")
    case True
    then have "s2 = s \<and> regions_pages (hhdm_offset s) (regions s) = {}"
      using alloc_from_regions_fail assms(1) q by blast
    then show ?thesis
      using True pop q assms(2) by (simp add: alloc_with_def pool_def)
  next
    case False
    then have "alloc_ok s q s2 \<and> mem s2 = mem s"
      using alloc_from_regions_ok assms(1) q by blast
    then show ?thesis
      using False \<open>freepages s = 0\<close> pop q assms(2) by (auto simp: alloc_with_def intro: alloc_ok_fill)
  qed
qed

lemma kfree_spec:
  assumes "phys_inv s" "page_aligned p" "p \<noteq> 0" "p \<notin> pool s"
  shows "\<exists>s'. kfree p s = Ok s' \<and> phys_inv s' \<and> pool s' = insert p (pool s) \<and>
    hhdm_offset s' = hhdm_offset s \<and> (\<forall>a. \<not> in_range p 4096 a \<longrightarrow> mem s' a = mem s a)"
proof -
  from assms(1) obtain xs where xs: "flist (mem s) (freepages s) xs" "free_list_pages s = set xs"
    "\<forall>x \<in> set xs. page_aligned x" "set xs \<inter> regions_pages (hhdm_offset s) (regions s) = {}"
    by (rule phys_inv_free_list)
  let ?m = "store64 (mem s) p (freepages s)" and ?s = "push_free_page p s"
  have frame: "?m a = mem s a" if "\<not> in_range p 4096 a" for a
  proof (rule store64_outside)
    show "\<not> in_range p 8 a" using that in_range_mono [of p 8 a 4096] by auto
  qed
  have "p \<notin> set xs" using assms(4) xs(2) by (auto simp: pool_def)
  then have "flist ?m (freepages s) xs"
    using mem_write_flist [OF xs(1) xs(3) assms(2)] frame by blast
  then have fl: "flist (mem ?s) (freepages ?s) (p # xs)"
    using assms(3) by (simp add: push_free_page_def)
  have ok: "page_aligned (hhdm_offset s)" using assms(1) by (simp add: phys_inv_def)
  have "page_aligned (V2P (hhdm_offset s) p)"
    using assms(2) ok unfolding V2P_def page_aligned_dvd unat_sub_if'
    by (auto intro!: dvd_diff_nat dvd_add)
  then have "kfree p s = Ok ?s"
    using assms(2,3) by (simp add: kfree_def page_aligned_def)
  moreover have "pool ?s = insert p (pool s)"
    using free_list_pages_flist [OF fl] xs(2) by (auto simp: pool_def push_free_page_def)
  moreover have "phys_inv ?s"
    by (rule phys_invI [OF fl])
      (use assms xs in \<open>auto simp: phys_inv_def pool_def push_free_page_def\<close>)
  ultimately show ?thesis
    using frame by (auto simp: push_free_page_def)
qed

lemma kfree_unaligned: "\<not> page_aligned p \<Longrightarrow> kfree p s = Panic ''kfree: unaligned page''"
  by (auto simp: kfree_def page_aligned_def)

section \<open>The interface the rest of the kernel uses\<close>

locale page_allocator =
  fixes alloc :: "'s \<Rightarrow> u64 \<times> 's" and release :: "u64 \<Rightarrow> 's \<Rightarrow> 's outcome"
    and invar :: "'s \<Rightarrow> bool" and free_set :: "'s \<Rightarrow> u64 set" and bytes :: "'s \<Rightarrow> memory"
  assumes alloc_null: "invar s \<Longrightarrow> alloc s = (0, s') \<Longrightarrow> s' = s \<and> free_set s = {}"
    and alloc_page: "invar s \<Longrightarrow> alloc s = (p, s') \<Longrightarrow> p \<noteq> 0 \<Longrightarrow>
      p \<in> free_set s \<and> free_set s' = free_set s - {p} \<and> page_aligned p \<and> invar s'"
    and alloc_frame: "invar s \<Longrightarrow> alloc s = (p, s') \<Longrightarrow> p \<noteq> 0 \<Longrightarrow> \<not> in_range p 4096 a \<Longrightarrow>
      bytes s' a = bytes s a"
    and release_page: "invar s \<Longrightarrow> page_aligned p \<Longrightarrow> p \<noteq> 0 \<Longrightarrow> p \<notin> free_set s \<Longrightarrow>
      \<exists>s'. release p s = Ok s' \<and> invar s' \<and> free_set s' = insert p (free_set s)"
begin

text \<open>A client that allocates \<open>n\<close> pages in a row.\<close>

primrec alloc_many :: "nat \<Rightarrow> 's \<Rightarrow> u64 list \<times> 's" where
  "alloc_many 0 s = ([], s)"
| "alloc_many (Suc n) s =
     (let (p, s1) = alloc s; (ps, s2) = alloc_many n s1 in (p # ps, s2))"

lemma alloc_nonempty: "invar s \<Longrightarrow> free_set s \<noteq> {} \<Longrightarrow> alloc s = (p, s') \<Longrightarrow> p \<noteq> 0"
  using alloc_null by blast

lemma alloc_many_spec:
  assumes "invar s" "alloc_many n s = (ps, s')" "0 \<notin> set ps"
  shows "distinct ps \<and> length ps = n \<and> set ps \<subseteq> free_set s \<and> free_set s' = free_set s - set ps \<and>
    invar s' \<and> (\<forall>p \<in> set ps. page_aligned p)"
  using assms
proof (induction n arbitrary: s ps)
  case 0
  then show ?case by simp
next
  case (Suc n)
  obtain p s1 where p: "alloc s = (p, s1)" by force
  obtain qs where qs: "alloc_many n s1 = (qs, s')" "ps = p # qs"
    using Suc.prems(2) p by (auto split: prod.splits)
  have "p \<noteq> 0" "0 \<notin> set qs" using Suc.prems(3) qs(2) by auto
  with alloc_page [OF Suc.prems(1) p] Suc.IH [OF _ qs(1)] show ?case
    using qs(2) by auto
qed

lemma alloc_many_exhausts:
  assumes "invar s" "finite (free_set s)" "n \<le> card (free_set s)" "alloc_many n s = (ps, s')"
  shows "0 \<notin> set ps"
  using assms
proof (induction n arbitrary: s ps)
  case 0
  then show ?case by simp
next
  case (Suc n)
  obtain p s1 where p: "alloc s = (p, s1)" by force
  obtain qs where qs: "alloc_many n s1 = (qs, s')" "ps = p # qs"
    using Suc.prems(4) p by (auto split: prod.splits)
  have "free_set s \<noteq> {}" using Suc.prems(3) by auto
  then have nz: "p \<noteq> 0" using alloc_nonempty Suc.prems(1) p by blast
  note sp = alloc_page [OF Suc.prems(1) p nz]
  then have "n \<le> card (free_set s1)" using Suc.prems(2,3) by auto
  moreover have "finite (free_set s1)" using sp Suc.prems(2) by simp
  ultimately have "0 \<notin> set qs" using Suc.IH qs(1) sp by blast
  then show ?case using qs(2) nz by simp
qed

lemma release_then_alloc:
  assumes "invar s" "alloc s = (p, s1)" "p \<noteq> 0"
  shows "\<exists>s2. release p s1 = Ok s2 \<and> invar s2 \<and> free_set s2 = free_set s"
proof -
  have sp: "p \<in> free_set s" "free_set s1 = free_set s - {p}" "page_aligned p" "invar s1"
    using alloc_page [OF assms] by auto
  then obtain s2 where "release p s1 = Ok s2" "invar s2" "free_set s2 = insert p (free_set s1)"
    using release_page [of s1 p] assms(3) by blast
  with sp show ?thesis by (auto simp: insert_absorb)
qed

end

lemma page_allocator_alloc_with:
  "page_allocator (alloc_with vf vr) kfree phys_inv pool mem"
proof
  fix s s' assume "phys_inv s" "alloc_with vf vr s = (0, s')"
  then show "s' = s \<and> pool s = {}" using alloc_with_spec by force
next
  fix s p s' assume "phys_inv s" "alloc_with vf vr s = (p, s')" "p \<noteq> 0"
  then show "p \<in> pool s \<and> pool s' = pool s - {p} \<and> page_aligned p \<and> phys_inv s'"
    using alloc_with_spec by (force simp: alloc_ok_def)
next
  fix s p s' a assume "phys_inv s" "alloc_with vf vr s = (p, s')" "p \<noteq> 0" "\<not> in_range p 4096 a"
  then show "mem s' a = mem s a"
    using alloc_with_spec by (force simp: alloc_ok_def)
next
  fix s p assume "phys_inv s" "page_aligned p" "p \<noteq> 0" "p \<notin> pool s"
  then show "\<exists>s'. kfree p s = Ok s' \<and> phys_inv s' \<and> pool s' = insert p (pool s)"
    using kfree_spec by blast
qed

interpretation kalloc: page_allocator kalloc kfree phys_inv pool mem
  unfolding alloc_with_variants by (rule page_allocator_alloc_with)

interpretation kcalloc: page_allocator kcalloc kfree phys_inv pool mem
  unfolding alloc_with_variants by (rule page_allocator_alloc_with)

interpretation page_cache: page_allocator kalloc_for_page_cache kfree phys_inv pool mem
  unfolding alloc_with_variants by (rule page_allocator_alloc_with)

end
