(* ===== verification/Phys_Blocks.thy ===== *)
theory Phys_Blocks
  imports Phys_Mem
begin

text \<open>
  The multi-page side of \<^verbatim>\<open>mem.c\<close>: \<^verbatim>\<open>kalloc_pages\<close> finds a contiguous block in the
  free list or carves one from a region, \<^verbatim>\<open>kfree_pages\<close> gives the pages back one by one,
  and \<^verbatim>\<open>init_mem\<close> builds the regions from the boot loader's memory map.
\<close>

section \<open>Blocks of contiguous pages\<close>

definition block_pages :: "u64 \<Rightarrow> nat \<Rightarrow> u64 set" where
  "block_pages p n = (\<lambda>i. p + of_nat (4096 * i)) ` {..<n}"

lemma page_of_offset:
  assumes "page_aligned p"
  shows "page_of (p + of_nat k) = p + of_nat (4096 * (k div 4096))"
proof -
  have "page_aligned (of_nat (4096 * (k div 4096)) :: u64)"
    unfolding page_aligned_dvd unat_of_nat by (rule dvd_mod) simp_all
  then have al: "page_aligned (p + of_nat (4096 * (k div 4096)))"
    using assms by (rule page_aligned_add [rotated])
  have "p + of_nat k = p + of_nat (4096 * (k div 4096)) + of_nat (k mod 4096)"
    by (metis add.assoc mult_div_mod_eq of_nat_add)
  moreover have "in_range q 4096 (q + of_nat (k mod 4096))" for q
    by (rule in_range_add) simp_all
  ultimately have "in_range (p + of_nat (4096 * (k div 4096))) 4096 (p + of_nat k)"
    by metis
  then show ?thesis using page_of_eq_iff [OF al] by blast
qed

lemma block_range:
  assumes "page_aligned p" "in_range p (4096 * n) a"
  shows "page_of a \<in> block_pages p n"
proof -
  obtain k where k: "k < 4096 * n" "a = p + of_nat k"
    using assms(2) by (rule in_range_offset)
  then have "page_of a = p + of_nat (4096 * (k div 4096))"
    using page_of_offset [OF assms(1)] by simp
  moreover have "k div 4096 < n" using k(1) by (simp add: less_mult_imp_div_less mult.commute)
  ultimately show ?thesis unfolding block_pages_def by blast
qed

lemma block_aligned: "page_aligned p \<Longrightarrow> q \<in> block_pages p n \<Longrightarrow> page_aligned q"
proof -
  assume p: "page_aligned p" and "q \<in> block_pages p n"
  then obtain i where "q = p + of_nat (4096 * i)" by (auto simp: block_pages_def)
  moreover have "page_aligned (of_nat (4096 * i) :: u64)"
    unfolding page_aligned_dvd unat_of_nat by (rule dvd_mod) simp_all
  ultimately show "page_aligned q" using p page_aligned_add by simp
qed

lemma pool_aligned:
  assumes "phys_inv s" "x \<in> pool s"
  shows "page_aligned x" "x \<noteq> 0"
proof -
  from assms(1) obtain xs where xs: "flist (mem s) (freepages s) xs" "free_list_pages s = set xs"
    "\<forall>x \<in> set xs. page_aligned x" "set xs \<inter> regions_pages (hhdm_offset s) (regions s) = {}"
    by (rule phys_inv_free_list)
  have "page_aligned (hhdm_offset s)" using assms(1) by (simp add: phys_inv_def)
  then show "page_aligned x"
    using xs assms(2) page_aligned_P2V by (auto simp: pool_def regions_pages_def region_pages_def)
  show "x \<noteq> 0"
    using xs assms flist_nonzero by (auto simp: pool_def phys_inv_def)
qed

text \<open>Writing to pages that are not free keeps the allocator's state.\<close>

lemma mem_write_many:
  assumes "phys_inv s" "\<And>x a. x \<in> pool s \<Longrightarrow> in_range x 4096 a \<Longrightarrow> m a = mem s a"
  shows "phys_inv (s\<lparr>mem := m\<rparr>)" "pool (s\<lparr>mem := m\<rparr>) = pool s"
proof -
  from assms(1) obtain xs where xs: "flist (mem s) (freepages s) xs" "free_list_pages s = set xs"
    "\<forall>x \<in> set xs. page_aligned x" "set xs \<inter> regions_pages (hhdm_offset s) (regions s) = {}"
    by (rule phys_inv_free_list)
  have "load64 m x = load64 (mem s) x" if "x \<in> set xs" for x
  proof (rule load64_cong)
    fix a assume "in_range x 8 a"
    then have "in_range x 4096 a" by (rule in_range_mono) simp
    then show "m a = mem s a" using assms(2) that xs(2) by (auto simp: pool_def)
  qed
  then have m: "flist m (freepages s) xs" using xs(1) flist_cong [of xs m "mem s"] by blast
  then show "phys_inv (s\<lparr>mem := m\<rparr>)"
    using assms(1) xs unfolding phys_inv_def by auto
  show "pool (s\<lparr>mem := m\<rparr>) = pool s"
    using free_list_pages_flist [of "s\<lparr>mem := m\<rparr>" xs] m xs(2) by (simp add: pool_def)
qed

text \<open>What a multi-page allocation promises, before and after the block is filled.\<close>

definition block_ok :: "kmem \<Rightarrow> u64 \<Rightarrow> nat \<Rightarrow> kmem \<Rightarrow> bool" where
  "block_ok s p n s' \<longleftrightarrow>
     p \<noteq> 0 \<and> page_aligned p \<and> block_pages p n \<subseteq> pool s \<and> pool s' = pool s - block_pages p n \<and>
     phys_inv s' \<and> hhdm_offset s' = hhdm_offset s"

lemma block_ok_fill:
  assumes "block_ok s p n s1"
  shows "block_ok s p n (s1\<lparr>mem := filled (mem s1) p b (4096 * n)\<rparr>)"
proof -
  let ?m = "filled (mem s1) p b (4096 * n)"
  have s1: "phys_inv s1" "pool s1 = pool s - block_pages p n" "page_aligned p"
    using assms by (auto simp: block_ok_def)
  have "?m a = mem s1 a" if "x \<in> pool s1" "in_range x 4096 a" for x a
  proof -
    have "page_of a = x" using that page_of_eq_iff pool_aligned(1) [OF s1(1)] by blast
    then have "\<not> in_range p (4096 * n) a" using that(1) s1(2,3) block_range by blast
    then show ?thesis by (simp add: filled_def)
  qed
  then have "phys_inv (s1\<lparr>mem := ?m\<rparr>)" "pool (s1\<lparr>mem := ?m\<rparr>) = pool s1"
    using mem_write_many [OF s1(1)] by blast+
  then show ?thesis using assms by (simp add: block_ok_def)
qed

section \<open>A block from a region\<close>

lemma aligned_in_span:
  assumes "page_aligned c" "unat c + 4096 * n < 2 ^ 64"
  shows "{pa. page_aligned pa \<and> c \<le> pa \<and> pa < c + of_nat (4096 * n)} = block_pages c n"
proof -
  obtain i where i: "unat c = 4096 * i" using assms(1) by (rule page_aligned_obtain)
  have off: "unat (c + of_nat (4096 * k)) = 4096 * (i + k)" if "k \<le> n" for k
    using that assms(2) i by (simp add: unat_word_ariths unat_of_nat)
  show ?thesis
  proof safe
    fix pa assume pa: "page_aligned pa" "c \<le> pa" "pa < c + of_nat (4096 * n)"
    obtain j where j: "unat pa = 4096 * j" using pa(1) by (rule page_aligned_obtain)
    have ij: "i \<le> j" "j < i + n"
      using pa(2,3) off [of n] i j by (simp_all add: word_le_nat_alt word_less_nat_alt)
    then have "unat pa = unat (c + of_nat (4096 * (j - i)))"
      using off [of "j - i"] j by simp
    then have "pa = c + of_nat (4096 * (j - i))" by (simp add: word_unat_eq_iff)
    moreover have "j - i \<in> {..<n}" using ij by auto
    ultimately show "pa \<in> block_pages c n" unfolding block_pages_def by (rule image_eqI)
  next
    fix pa assume pa: "pa \<in> block_pages c n"
    then show "page_aligned pa" using block_aligned assms(1) by blast
    obtain k where k: "k < n" "pa = c + of_nat (4096 * k)" using pa by (auto simp: block_pages_def)
    then have "unat pa = 4096 * (i + k)" using off [of k] by simp
    then show "c \<le> pa" "pa < c + of_nat (4096 * n)"
      using k i off [of n] by (simp_all add: word_le_nat_alt word_less_nat_alt)
  qed
qed

lemma P2V_block: "P2V h ` block_pages c n = block_pages (P2V h c) n"
  by (auto simp: P2V_def block_pages_def image_image add.commute add.left_commute)

lemma region_carve_block:
  assumes "region_ok r" "0 < n" "n < 2 ^ 52" "of_nat (4096 * n) \<le> phys_end r - phys_cur r"
  defines "r' \<equiv> r\<lparr>phys_cur := phys_cur r + of_nat (4096 * n)\<rparr>"
  shows "region_pages h r = block_pages (P2V h (phys_cur r)) n \<union> region_pages h r'"
    and "block_pages (P2V h (phys_cur r)) n \<inter> region_pages h r' = {}"
    and "phys_cur r' < phys_end r \<Longrightarrow> region_ok r'"
proof -
  let ?c = "phys_cur r" and ?e = "phys_end r"
  have al: "page_aligned ?c" "page_aligned ?e" "?c < ?e" using assms(1) by (auto simp: region_ok_def)
  have u: "unat (of_nat (4096 * n) :: u64) = 4096 * n"
    by (rule unat_of_nat_u64) (use assms(3) in simp)
  have "unat ?c \<le> unat ?e" using al(3) by (simp add: word_less_nat_alt)
  then have le: "unat ?c + 4096 * n \<le> unat ?e"
    using assms(4) u by (simp add: word_le_nat_alt unat_diff)
  then have lt: "unat ?c + 4096 * n < 2 ^ 64" using unat_lt_2p64 [of ?e] by simp
  then have c': "unat (phys_cur r') = unat ?c + 4096 * n"
    using u by (simp add: r'_def unat_word_ariths)
  have split: "{pa. page_aligned pa \<and> ?c \<le> pa \<and> pa < ?e} =
      {pa. page_aligned pa \<and> ?c \<le> pa \<and> pa < phys_cur r'} \<union>
      {pa. page_aligned pa \<and> phys_cur r' \<le> pa \<and> pa < ?e}"
    using le c' by (auto simp: word_le_nat_alt word_less_nat_alt)
  have blk: "{pa. page_aligned pa \<and> ?c \<le> pa \<and> pa < phys_cur r'} = block_pages ?c n"
    unfolding r'_def using aligned_in_span [OF al(1) lt] by simp
  show "region_pages h r = block_pages (P2V h ?c) n \<union> region_pages h r'"
    unfolding region_pages_def split image_Un blk P2V_block by (simp add: r'_def)
  have "block_pages ?c n \<inter> {pa. page_aligned pa \<and> phys_cur r' \<le> pa \<and> pa < ?e} = {}"
    unfolding blk [symmetric] by auto
  moreover have "inj (P2V h)" by (simp add: inj_def P2V_def)
  ultimately show "block_pages (P2V h ?c) n \<inter> region_pages h r' = {}"
    unfolding region_pages_def P2V_block [symmetric]
    by (simp add: r'_def image_Int [symmetric])
  show "region_ok r'" if "phys_cur r' < ?e"
  proof -
    have "page_aligned (of_nat (4096 * n) :: u64)" using u by (simp add: page_aligned_dvd)
    then show ?thesis
      using al that page_aligned_add by (simp add: region_ok_def r'_def)
  qed
qed

section \<open>Regions\<close>

lemma take_pages_spec:
  assumes "regions_ok h rs" "0 < n" "n < 2 ^ 52" "take_pages (of_nat (4096 * n)) rs = Some (phys, rs')"
  shows "page_aligned phys \<and> block_pages (P2V h phys) n \<subseteq> regions_pages h rs \<and>
    regions_pages h rs' = regions_pages h rs - block_pages (P2V h phys) n \<and> regions_ok h rs'"
  using assms(1,4)
proof (induction rs arbitrary: rs')
  case Nil
  then show ?case by simp
next
  case (Cons r rs)
  let ?n = "of_nat (4096 * n) :: u64" and ?b = "block_pages (P2V h phys) n"
  have ok: "region_ok r" "region_pages h r \<inter> regions_pages h rs = {}" "regions_ok h rs"
    using Cons.prems(1) by auto
  show ?case
  proof (cases "?n \<le> phys_end r - phys_cur r")
    case True
    let ?r = "r\<lparr>phys_cur := phys_cur r + ?n\<rparr>"
    have phys: "phys = phys_cur r"
      and rs': "rs' = (if phys_end r \<le> phys_cur ?r then rs else ?r # rs)"
      using Cons.prems(2) True by (auto simp: Let_def)
    note carve = region_carve_block(1,2) [OF ok(1) assms(2,3) True, of h]
      region_carve_block(3) [OF ok(1) assms(2,3) True]
    have "phys_end ?r \<le> phys_cur ?r \<Longrightarrow> region_pages h ?r = {}"
      by (rule region_pages_exhausted)
    then show ?thesis
      using carve ok phys rs' by (auto simp: region_ok_def)
  next
    case False
    then obtain ts where ts: "take_pages ?n rs = Some (phys, ts)" "rs' = r # ts"
      using Cons.prems(2) by (auto simp: Let_def)
    with Cons.IH [OF ok(3) ts(1)] ok show ?thesis by auto
  qed
qed

lemma take_pages_None:
  assumes "take_pages (of_nat (4096 * n)) rs = None" "n < 2 ^ 52" "\<forall>r \<in> set rs. region_ok r"
  shows "\<forall>r \<in> set rs. unat (phys_end r) - unat (phys_cur r) < 4096 * n"
  using assms(1,3)
proof (induction rs)
  case (Cons r rs)
  have u: "unat (of_nat (4096 * n) :: u64) = 4096 * n"
    by (rule unat_of_nat_u64) (use assms(2) in simp)
  have "phys_cur r \<le> phys_end r" using Cons.prems(2) by (auto simp: region_ok_def intro: less_imp_le)
  then have "unat (phys_end r - phys_cur r) = unat (phys_end r) - unat (phys_cur r)"
    by (simp add: unat_diff word_le_nat_alt)
  moreover have "\<not> of_nat (4096 * n) \<le> phys_end r - phys_cur r" "take_pages (of_nat (4096 * n)) rs = None"
    using Cons.prems(1) by (auto simp: Let_def split: if_splits)
  ultimately show ?case using Cons.IH Cons.prems(2) u by (simp add: word_le_nat_alt)
qed simp

lemma regions_ok_each: "regions_ok h rs \<Longrightarrow> \<forall>r \<in> set rs. region_ok r"
  by (induction rs) auto

text \<open>
  There is no block of \<open>n\<close> pages to give: no run of \<open>n\<close> neighbours of the free list has
  consecutive ascending addresses, and every region has fewer than \<open>n\<close> pages left.
\<close>

definition no_run :: "kmem \<Rightarrow> nat \<Rightarrow> bool" where
  "no_run s n \<longleftrightarrow> (\<forall>q as cs.
     \<not> flist (mem s) (freepages s) (as @ map (\<lambda>j. q + of_nat (4096 * j)) [0..<n] @ cs))"

definition no_block :: "kmem \<Rightarrow> nat \<Rightarrow> bool" where
  "no_block s n \<longleftrightarrow> no_run s n \<and>
     (\<forall>r \<in> set (regions s). unat (phys_end r) - unat (phys_cur r) < 4096 * n)"

lemma alloc_contiguous_from_regions_ok:
  assumes "phys_inv s" "0 < n" "n < 2 ^ 52" "alloc_contiguous_from_regions (of_nat n) s = (p, s')"
  shows "if p = 0 then s' = s \<and> (\<forall>r \<in> set (regions s). unat (phys_end r) - unat (phys_cur r) < 4096 * n)
    else block_ok s p n s' \<and> mem s' = mem s"
proof -
  let ?h = "hhdm_offset s"
  have ok: "regions_ok ?h (regions s)" "page_aligned ?h" using assms(1) by (auto simp: phys_inv_def)
  have nz: "(of_nat n :: u64) \<noteq> 0"
  proof
    assume "(of_nat n :: u64) = 0"
    then have "unat (of_nat n :: u64) = 0" by simp
    then show False using assms(2,3) by (simp add: unat_of_nat_u64)
  qed
  have mul: "of_nat n * PAGE_SIZE = of_nat (4096 * n)" by (simp add: PAGE_SIZE_def)
  show ?thesis
  proof (cases "take_pages (of_nat (4096 * n)) (regions s)")
    case None
    then show ?thesis
      using assms(4) nz take_pages_None [OF None assms(3) regions_ok_each [OF ok(1)]]
      by (simp add: alloc_contiguous_from_regions_def mul)
  next
    case (Some pr)
    then obtain phys rs where rs: "take_pages (of_nat (4096 * n)) (regions s) = Some (phys, rs)"
      by (cases pr) auto
    note tp = take_pages_spec [OF ok(1) assms(2,3) rs]
    have p: "p = P2V ?h phys" "s' = s\<lparr>regions := rs\<rparr>"
      using rs assms(4) nz by (auto simp: alloc_contiguous_from_regions_def mul)
    have "P2V ?h phys \<in> block_pages (P2V ?h phys) n" using assms(2) by (force simp: block_pages_def)
    then have "p \<noteq> 0" using tp p(1) assms(1) by (auto simp: phys_inv_def)
    moreover have "free_list_pages s' = free_list_pages s" by (simp add: p(2) free_list_pages_def)
    moreover have "free_list_pages s \<inter> regions_pages ?h (regions s) = {}"
      using assms(1) by (metis phys_inv_free_list)
    ultimately show ?thesis
      using assms(1) tp p page_aligned_P2V [OF ok(2)]
      unfolding block_ok_def phys_inv_def pool_def by auto
  qed
qed

section \<open>A block from the free list\<close>

text \<open>The nodes the inner loop has passed are the pages that follow the base.\<close>

lemma contig_scan_block:
  assumes "flist m scan (scan # zs)" "contig_scan m h base i scan k = Some e"
  shows "\<exists>us vs. zs = us @ vs \<and> us = map (\<lambda>j. P2V h (base + (i + of_nat j) * PAGE_SIZE)) [0..<k] \<and>
    e = last (scan # us) \<and> flist m (load64 m e) vs"
  using assms
proof (induction k arbitrary: i scan zs)
  case 0
  then show ?case by simp
next
  case (Suc k)
  let ?n = "load64 m scan"
  have n: "?n \<noteq> 0" "base + i * PAGE_SIZE = V2P h ?n" "contig_scan m h base (i + 1) ?n k = Some e"
    using Suc.prems by (auto split: if_splits)
  obtain ws where ws: "zs = ?n # ws" "flist m ?n (?n # ws)"
    using Suc.prems(1) n(1) by (cases zs) auto
  from Suc.IH [OF ws(2) n(3)] obtain us vs where us: "ws = us @ vs"
    "us = map (\<lambda>j. P2V h (base + (i + 1 + of_nat j) * PAGE_SIZE)) [0..<k]"
    "e = last (?n # us)" "flist m (load64 m e) vs" by blast
  have "?n = P2V h (base + i * PAGE_SIZE)" using n(2) by simp
  then have "?n # us = map (\<lambda>j. P2V h (base + (i + of_nat j) * PAGE_SIZE)) [0..<Suc k]"
    unfolding us(2) by (simp add: upt_conv_Cons map_Suc_upt [symmetric] comp_def add.assoc
        del: upt_Suc)
  then show ?case using ws(1) us by (metis append_Cons last_ConsR list.distinct(1))
qed

text \<open>Conversely a block is not overlooked, neither by the inner loop nor by the outer one.\<close>

lemma contig_scan_complete:
  assumes "flist m scan (scan # map (\<lambda>j. P2V h (base + (i + of_nat j) * PAGE_SIZE)) [0..<k] @ vs)"
  shows "contig_scan m h base i scan k =
    Some (last (scan # map (\<lambda>j. P2V h (base + (i + of_nat j) * PAGE_SIZE)) [0..<k]))"
  using assms
proof (induction k arbitrary: i scan)
  case (Suc k)
  let ?n = "P2V h (base + i * PAGE_SIZE)"
  let ?us = "map (\<lambda>j. P2V h (base + (i + 1 + of_nat j) * PAGE_SIZE)) [0..<k]"
  have us: "map (\<lambda>j. P2V h (base + (i + of_nat j) * PAGE_SIZE)) [0..<Suc k] = ?n # ?us"
    by (simp add: upt_conv_Cons map_Suc_upt [symmetric] comp_def add.assoc del: upt_Suc)
  have fl: "scan \<noteq> 0" "load64 m scan = ?n" "?n \<noteq> 0" "flist m ?n (?n # ?us @ vs)"
    using Suc.prems unfolding us by auto
  have "contig_scan m h base i scan (Suc k) = contig_scan m h base (i + 1) ?n k"
    using fl by simp
  also have "\<dots> = Some (last (?n # ?us))" using Suc.IH [OF fl(4)] .
  finally show ?case unfolding us by simp
qed simp

lemma contig_search_complete:
  assumes "flist m it (as @ map (\<lambda>j. q + of_nat (4096 * j)) [0..<unat n] @ cs)" "2 \<le> unat n"
  shows "contig_search m h n prev it \<noteq> Some None"
  using assms(1)
proof (induction as arbitrary: it prev)
  case Nil
  let ?us = "map (\<lambda>j. P2V h (V2P h q + (1 + of_nat j) * PAGE_SIZE)) [0..<unat n - 1]"
  have us: "?us = map (\<lambda>j. q + of_nat (4096 * Suc j)) [0..<unat n - 1]"
    by (simp add: P2V_def V2P_def PAGE_SIZE_def algebra_simps)
  have "[0..<unat n] = 0 # map Suc [0..<unat n - 1]"
    using assms(2) by (simp add: upt_conv_Cons map_Suc_upt)
  then have "flist m it (q # ?us @ cs)" using Nil unfolding us by (simp add: comp_def)
  then have fl: "it = q" "q \<noteq> 0" "flist m q (q # ?us @ cs)" by auto
  then have "last (q # ?us) \<noteq> 0" using flist_nonzero [OF fl(3)] last_in_set [of "q # ?us"] by fastforce
  then show ?case
    using contig_scan_complete [OF fl(3)] fl(1,2) by (subst contig_search.simps) auto
next
  case (Cons a as)
  then have "it = a" "a \<noteq> 0" "flist m (load64 m a) (as @ map (\<lambda>j. q + of_nat (4096 * j)) [0..<unat n] @ cs)"
    by auto
  then show ?case using Cons.IH [of "load64 m a" a] by (subst contig_search.simps) auto
qed

text \<open>The outer loop ends on a null-terminated list, and what it finds is a block of the list.\<close>

lemma contig_search_spec:
  assumes "flist m it xs" "2 \<le> unat n"
  shows "\<exists>r. contig_search m h n prev it = Some r \<and>
    (\<forall>p q e. r = Some (p, q, e) \<longrightarrow>
      (\<exists>as bs cs. xs = as @ bs @ cs \<and> bs = map (\<lambda>j. q + of_nat (4096 * j)) [0..<unat n] \<and>
        p = (if as = [] then prev else last as) \<and> e = last bs \<and> flist m (load64 m e) cs))"
  using assms(1)
proof (induction xs arbitrary: it prev)
  case Nil
  then show ?case by (simp add: contig_search.simps)
next
  case (Cons x xs)
  then have it: "it = x" "x \<noteq> 0" "flist m (load64 m x) xs" by auto
  let ?sc = "contig_scan m h (V2P h it) 1 it (unat n - 1)"
  show ?case
  proof (cases "?sc \<in> {None, Some 0}")
    case True
    from Cons.IH [OF it(3), of x] obtain r where r: "contig_search m h n x (load64 m x) = Some r"
      "\<And>p q e. r = Some (p, q, e) \<Longrightarrow>
        \<exists>as bs cs. xs = as @ bs @ cs \<and> bs = map (\<lambda>j. q + of_nat (4096 * j)) [0..<unat n] \<and>
          p = (if as = [] then x else last as) \<and> e = last bs \<and> flist m (load64 m e) cs"
      by blast
    have "contig_search m h n prev it = Some r"
      by (subst contig_search.simps) (use True r(1) it in auto)
    moreover have "\<exists>as bs cs. x # xs = as @ bs @ cs \<and> bs = map (\<lambda>j. q + of_nat (4096 * j)) [0..<unat n] \<and>
          p = (if as = [] then prev else last as) \<and> e = last bs \<and> flist m (load64 m e) cs"
      if pqe: "r = Some (p, q, e)" for p q e
    proof -
      from r(2) [OF pqe] obtain as bs cs where "xs = as @ bs @ cs"
        "bs = map (\<lambda>j. q + of_nat (4096 * j)) [0..<unat n]" "p = (if as = [] then x else last as)"
        "e = last bs" "flist m (load64 m e) cs" by blast
      then show ?thesis
        by (intro exI [of _ "x # as"] exI [of _ bs] exI [of _ cs]) auto
    qed
    ultimately show ?thesis by blast
  next
    case False
    then obtain e where e: "?sc = Some e" "e \<noteq> 0" by auto
    have "flist m it (it # xs)" using it by simp
    from contig_scan_block [OF this e(1)] obtain us vs where us: "xs = us @ vs"
      "us = map (\<lambda>j. P2V h (V2P h it + (1 + of_nat j) * PAGE_SIZE)) [0..<unat n - 1]"
      "e = last (it # us)" "flist m (load64 m e) vs" by blast
    have "us = map (\<lambda>j. it + of_nat (4096 * Suc j)) [0..<unat n - 1]"
      unfolding us(2) by (simp add: P2V_def V2P_def PAGE_SIZE_def algebra_simps)
    moreover have "[0..<unat n] = 0 # map Suc [0..<unat n - 1]"
      using assms(2) by (simp add: upt_conv_Cons map_Suc_upt)
    ultimately have "it # us = map (\<lambda>j. it + of_nat (4096 * j)) [0..<unat n]"
      by (simp add: comp_def)
    moreover have "contig_search m h n prev it = Some (Some (prev, it, e))"
      by (subst contig_search.simps) (use e it in auto)
    moreover have "x # xs = [] @ (it # us) @ vs" using us(1) it(1) by simp
    ultimately show ?thesis using us(3,4) by (intro exI conjI) (assumption | auto)+
  qed
qed

lemma flist_remove_block:
  assumes "flist m p (as @ bs @ cs)" "bs \<noteq> []" "e = last bs" "\<forall>x \<in> set (as @ bs @ cs). page_aligned x"
  shows "if as = [] then flist m (load64 m e) cs
    else flist (store64 m (last as) (load64 m e)) p (as @ cs)"
proof -
  have e: "flist m (load64 m e) cs"
  proof -
    obtain us where "bs = us @ [e]" using assms(2,3) by (metis append_butlast_last_id)
    then have "flist m e (e # cs)" using assms(1) flist_append [of m p "as @ us" e cs] by simp
    then show ?thesis by simp
  qed
  show ?thesis
  proof (cases "as = []")
    case True
    then show ?thesis using e by simp
  next
    case False
    let ?l = "last as" and ?m = "store64 m (last as) (load64 m e)"
    have dist: "distinct (as @ bs @ cs)" using assms(1) by (rule flist_distinct)
    have same: "load64 ?m x = load64 m x" if "x \<in> set (as @ bs @ cs)" "x \<noteq> ?l" for x
    proof (rule load64_store64_other, rule words_disjoint)
      show "unat x mod 8 = 0" "unat ?l mod 8 = 0" "x \<noteq> ?l"
        using that assms(4) False by (auto intro: page_aligned_mod8)
    qed
    have "flist ?m q (bs' @ cs)" if "flist m q (bs' @ bs @ cs)" "bs' \<noteq> []" "last bs' = ?l"
        "distinct (bs' @ bs @ cs)" "set bs' \<subseteq> set as" for q bs'
      using that
    proof (induction bs' arbitrary: q)
      case Nil
      then show ?case by simp
    next
      case (Cons b bs')
      show ?case
      proof (cases "bs' = []")
        case True
        then have b: "b = ?l" using Cons.prems by simp
        have "flist ?m (load64 m e) cs"
          using e same dist False
          by (subst flist_cong [where m' = m]) (auto dest: last_in_set)
        then show ?thesis using True b Cons.prems by simp
      next
        case ne: False
        then have "last bs' = ?l" using Cons.prems(3) by simp
        then have "b \<noteq> ?l" using Cons.prems(4) ne by (metis append_Cons distinct.simps(2) Un_iff last_in_set set_append)
        then have "load64 ?m b = load64 m b" using same Cons.prems(5) by auto
        then show ?thesis using Cons ne \<open>last bs' = ?l\<close> by auto
      qed
    qed
    then show ?thesis using assms(1) False dist by auto
  qed
qed

lemma alloc_contiguous_from_freelist_ok:
  assumes "phys_inv s" "2 \<le> unat n"
  shows "\<exists>p s'. alloc_contiguous_from_freelist n s = Some (p, s') \<and>
    (if p = 0 then s' = s \<and> no_run s (unat n)
     else block_ok s p (unat n) s' \<and>
       (\<forall>a. (\<forall>x \<in> pool s. \<not> in_range x 4096 a) \<longrightarrow> mem s' a = mem s a))"
proof -
  from assms(1) obtain xs where xs: "flist (mem s) (freepages s) xs" "free_list_pages s = set xs"
    "\<forall>x \<in> set xs. page_aligned x" "set xs \<inter> regions_pages (hhdm_offset s) (regions s) = {}"
    by (rule phys_inv_free_list)
  have gt: "\<not> n \<le> 1" using assms(2) by (simp add: word_le_nat_alt)
  from contig_search_spec [OF xs(1) assms(2), of "hhdm_offset s" 0] obtain r where
    r: "contig_search (mem s) (hhdm_offset s) n 0 (freepages s) = Some r"
    "\<And>p q e. r = Some (p, q, e) \<Longrightarrow>
      \<exists>as bs cs. xs = as @ bs @ cs \<and> bs = map (\<lambda>j. q + of_nat (4096 * j)) [0..<unat n] \<and>
        p = (if as = [] then 0 else last as) \<and> e = last bs \<and> flist (mem s) (load64 (mem s) e) cs"
    by blast
  show ?thesis
  proof (cases r)
    case None
    then have "no_run s (unat n)"
      using r(1) contig_search_complete [OF _ assms(2)] by (auto simp: no_run_def)
    then show ?thesis using gt r(1) None by (simp add: alloc_contiguous_from_freelist_def)
  next
    case (Some t)
    obtain p q e where t: "t = (p, q, e)" by (cases t)
    from r(2) Some t obtain as bs cs where abc: "xs = as @ bs @ cs"
      "bs = map (\<lambda>j. q + of_nat (4096 * j)) [0..<unat n]" "p = (if as = [] then 0 else last as)"
      "e = last bs" by blast
    let ?s = "if p \<noteq> 0 then s\<lparr>mem := store64 (mem s) p (load64 (mem s) e)\<rparr>
       else s\<lparr>freepages := load64 (mem s) e\<rparr>"
    have res: "alloc_contiguous_from_freelist n s = Some (q, ?s)"
      using gt r(1) Some t by (simp add: alloc_contiguous_from_freelist_def)
    have ne: "bs \<noteq> []" using abc(2) assms(2) by auto
    have q: "q \<in> set bs"
      unfolding abc(2) using assms(2) by (auto simp: image_iff intro!: bexI [of _ 0])
    have blk: "set bs = block_pages q (unat n)"
      unfolding abc(2) block_pages_def by (auto simp: atLeast0LessThan)
    have "last as \<noteq> 0" if "as \<noteq> []"
      using that flist_nonzero [OF xs(1)] abc(1) by (metis Un_iff last_in_set set_append)
    then have fl: "flist (mem ?s) (freepages ?s) (as @ cs)"
      using flist_remove_block [of "mem s" "freepages s" as bs cs e] xs(1,3) abc(1,3,4) ne by auto
    have dist: "distinct (as @ bs @ cs)" using flist_distinct [OF xs(1)] abc(1) by simp
    have sub: "regions ?s = regions s" "hhdm_offset ?s = hhdm_offset s" by auto
    have pl: "pool ?s = pool s - block_pages q (unat n)"
      using free_list_pages_flist [OF fl] xs(2,4) abc(1) dist blk sub by (auto simp: pool_def)
    have "phys_inv ?s"
      by (rule phys_invI [OF fl]) (use assms(1) xs(3,4) abc(1) sub in \<open>auto simp: phys_inv_def\<close>)
    moreover have "q \<noteq> 0" "page_aligned q"
      using q xs(3) flist_nonzero [OF xs(1)] abc(1) by auto
    moreover have "block_pages q (unat n) \<subseteq> pool s"
      using blk xs(2) abc(1) by (auto simp: pool_def)
    moreover have "mem ?s a = mem s a" if "\<forall>x \<in> pool s. \<not> in_range x 4096 a" for a
    proof (cases "p = 0")
      case False
      then have "p \<in> set as" using abc(3) by (auto split: if_splits)
      then have "p \<in> pool s" using xs(2) abc(1) by (auto simp: pool_def)
      then have "\<not> in_range p 8 a" using that in_range_mono [of p 8 a 4096] by auto
      then show ?thesis by (simp add: store64_outside)
    qed simp
    ultimately show ?thesis
      using res pl sub by (auto simp: block_ok_def)
  qed
qed

section \<open>\<^verbatim>\<open>kalloc_pages\<close> and \<^verbatim>\<open>kfree_pages\<close>\<close>

definition frame_pool :: "kmem \<Rightarrow> kmem \<Rightarrow> bool" where
  "frame_pool s s' \<longleftrightarrow> (\<forall>a. (\<forall>x \<in> pool s. \<not> in_range x 4096 a) \<longrightarrow> mem s' a = mem s a)"

lemma frame_pool_fill:
  assumes "block_ok s p n s1" "frame_pool s s1"
  shows "frame_pool s (s1\<lparr>mem := filled (mem s1) p b (4096 * n)\<rparr>)"
  unfolding frame_pool_def
proof (intro allI impI)
  fix a assume a: "\<forall>x \<in> pool s. \<not> in_range x 4096 a"
  have "\<not> in_range p (4096 * n) a"
  proof
    assume "in_range p (4096 * n) a"
    then have "page_of a \<in> pool s" using block_range assms(1) by (auto simp: block_ok_def)
    then show False using a in_range_page_of by blast
  qed
  then show "mem (s1\<lparr>mem := filled (mem s1) p b (4096 * n)\<rparr>) a = mem s a"
    using assms(2) a by (simp add: filled_def frame_pool_def)
qed

lemma unat_pages_bytes: "unat (n :: u64) < 2 ^ 52 \<Longrightarrow> unat (n * PAGE_SIZE) = 4096 * unat n"
  by (simp add: PAGE_SIZE_def unat_word_ariths mult.commute)

lemma memset_block:
  "unat n < 2 ^ 52 \<Longrightarrow> memset m p v (unat (n * PAGE_SIZE)) = filled m p (word_of_int v) (4096 * unat n)"
  by (simp add: unat_pages_bytes memset_filled)

lemma kalloc_pages_many:
  assumes "phys_inv s" "2 \<le> unat n" "unat n < 2 ^ 52"
  shows "\<exists>p s'. kalloc_pages n s = Some (p, s') \<and>
    (if p = 0 then s' = s \<and> no_block s (unat n)
     else block_ok s p (unat n) s' \<and> frame_pool s s' \<and>
       (\<forall>a. in_range p (4096 * unat n) a \<longrightarrow> mem s' a = 2))"
proof -
  have nz: "n \<noteq> 0" "n \<noteq> 1" using assms(2) by auto
  let ?fill = "\<lambda>p s1. s1\<lparr>mem := filled (mem s1) p 2 (4096 * unat n)\<rparr>"
  have fill: "block_ok s p (unat n) (?fill p s1) \<and> frame_pool s (?fill p s1) \<and>
      (\<forall>a. in_range p (4096 * unat n) a \<longrightarrow> mem (?fill p s1) a = 2)"
    if "block_ok s p (unat n) s1" "frame_pool s s1" for p s1
    using that block_ok_fill frame_pool_fill by (auto simp: filled_def)
  from alloc_contiguous_from_freelist_ok [OF assms(1,2)] obtain p s1 where
    fl: "alloc_contiguous_from_freelist n s = Some (p, s1)"
    and ok: "if p = 0 then s1 = s \<and> no_run s (unat n) else block_ok s p (unat n) s1 \<and> frame_pool s s1"
    unfolding frame_pool_def by blast
  show ?thesis
  proof (cases "p = 0")
    case False
    then have "kalloc_pages n s = Some (p, ?fill p s1)"
      using fl nz assms(3) by (simp add: kalloc_pages_def memset_block)
    then show ?thesis using fill [of p s1] ok False by auto
  next
    case True
    obtain q s2 where q: "alloc_contiguous_from_regions n s = (q, s2)" by force
    have "alloc_contiguous_from_regions (of_nat (unat n)) s = (q, s2)" using q by simp
    then have rg: "if q = 0 then s2 = s \<and> (\<forall>r \<in> set (regions s). unat (phys_end r) - unat (phys_cur r) < 4096 * unat n)
        else block_ok s q (unat n) s2 \<and> mem s2 = mem s"
      using alloc_contiguous_from_regions_ok [OF assms(1) _ assms(3)] assms(2) by simp
    have "kalloc_pages n s = Some (if q = 0 then (0, s2) else (q, ?fill q s2))"
      using fl ok True q nz assms(3) by (simp add: kalloc_pages_def memset_block)
    moreover have "frame_pool s s2" if "q \<noteq> 0" using rg that by (simp add: frame_pool_def)
    ultimately show ?thesis using fill [of q s2] rg ok True by (cases "q = 0") (auto simp: no_block_def)
  qed
qed

lemma kalloc_pages_one: "kalloc_pages 1 s = Some (kalloc s)"
  by (simp add: kalloc_pages_def)

lemma block_pages_Suc: "block_pages p (Suc n) = insert p (block_pages (p + 4096) n)"
proof -
  have "block_pages (p + 4096) n = (\<lambda>i. p + of_nat (4096 * Suc i)) ` {..<n}"
    unfolding block_pages_def by (simp add: algebra_simps)
  then show ?thesis
    unfolding block_pages_def lessThan_Suc_eq_insert_0 by (simp add: image_image)
qed

lemma block_pages_fresh: "Suc n \<le> 2 ^ 52 \<Longrightarrow> p \<notin> block_pages (p + 4096) n"
proof
  assume n: "Suc n \<le> 2 ^ 52" and "p \<in> block_pages (p + 4096) n"
  then obtain i where i: "i < n" "p = p + 4096 + of_nat (4096 * i)" by (auto simp: block_pages_def)
  then have "p = p + of_nat (4096 * Suc i)" by (simp add: algebra_simps)
  then have "(of_nat (4096 * Suc i) :: u64) = 0" by (metis add_cancel_left_right)
  moreover have "unat (of_nat (4096 * Suc i) :: u64) = 4096 * Suc i"
    by (rule unat_of_nat_u64) (use i n in simp)
  ultimately show False by simp
qed

text \<open>Giving a block back: every page becomes free, and the list grows from the front.\<close>

lemma kfree_loop_ok:
  assumes "phys_inv s" "page_aligned (va + i * PAGE_SIZE)" "k \<le> 2 ^ 52"
    "block_pages (va + i * PAGE_SIZE) k \<inter> pool s = {}" "0 \<notin> block_pages (va + i * PAGE_SIZE) k"
    "flist (mem s) (freepages s) xs"
  shows "\<exists>s'. kfree_loop va i k s = Ok s' \<and> phys_inv s' \<and>
    pool s' = block_pages (va + i * PAGE_SIZE) k \<union> pool s \<and>
    flist (mem s') (freepages s') (rev (map (\<lambda>j. va + i * PAGE_SIZE + of_nat (4096 * j)) [0..<k]) @ xs)"
  using assms
proof (induction k arbitrary: i s xs)
  case 0
  then show ?case by (simp add: block_pages_def)
next
  case (Suc k)
  let ?p = "va + i * PAGE_SIZE"
  have p1: "va + (i + 1) * PAGE_SIZE = ?p + 4096" by (simp add: PAGE_SIZE_def algebra_simps)
  have p: "?p \<noteq> 0" "?p \<notin> pool s" using Suc.prems(4,5) by (auto simp: block_pages_Suc)
  obtain s1 where s1: "kfree ?p s = Ok s1" "phys_inv s1" "pool s1 = insert ?p (pool s)"
    using kfree_spec [OF Suc.prems(1,2) p] by blast
  have "s1 = push_free_page ?p s" using s1(1) p(1) by (auto simp: kfree_def split: if_splits)
  moreover have "flist (store64 (mem s) ?p (freepages s)) (freepages s) xs"
  proof (rule mem_write_flist [OF Suc.prems(6) _ Suc.prems(2)])
    have fp: "free_list_pages s = set xs" using free_list_pages_flist Suc.prems(6) by blast
    then show "\<forall>x \<in> set xs. page_aligned x" "?p \<notin> set xs"
      using pool_aligned(1) [OF Suc.prems(1)] p(2) by (auto simp: pool_def)
    fix a assume "\<not> in_range ?p 4096 a"
    then have "\<not> in_range ?p 8 a" using in_range_mono [of ?p 8 a 4096] by auto
    then show "store64 (mem s) ?p (freepages s) a = mem s a" by (rule store64_outside)
  qed
  ultimately have fl: "flist (mem s1) (freepages s1) (?p # xs)"
    using p(1) by (simp add: push_free_page_def)
  have al: "page_aligned (?p + 4096)" using Suc.prems(2)
    by (rule page_aligned_add) (simp add: page_aligned_unat)
  have "block_pages (?p + 4096) k \<inter> pool s1 = {}" "0 \<notin> block_pages (?p + 4096) k"
    using Suc.prems(3-5) s1(3) block_pages_fresh by (auto simp: block_pages_Suc)
  from Suc.IH [of s1 "i + 1" "?p # xs", unfolded p1, OF s1(2) al _ this fl] Suc.prems(3)
  obtain s' where s': "kfree_loop va (i + 1) k s1 = Ok s'" "phys_inv s'"
    "pool s' = block_pages (?p + 4096) k \<union> pool s1"
    "flist (mem s') (freepages s') (rev (map (\<lambda>j. ?p + 4096 + of_nat (4096 * j)) [0..<k]) @ ?p # xs)"
    by auto
  have "map (\<lambda>j. ?p + of_nat (4096 * j)) [0..<Suc k] =
      ?p # map (\<lambda>j. ?p + 4096 + of_nat (4096 * j)) [0..<k]"
    by (simp add: upt_conv_Cons map_Suc_upt [symmetric] comp_def algebra_simps del: upt_Suc)
  then have "rev (map (\<lambda>j. ?p + of_nat (4096 * j)) [0..<Suc k]) @ xs =
      rev (map (\<lambda>j. ?p + 4096 + of_nat (4096 * j)) [0..<k]) @ ?p # xs" by simp
  then show ?case
    using s' s1 by (simp add: block_pages_Suc del: upt_Suc)
qed

lemma kfree_pages_ok:
  assumes "phys_inv s" "page_aligned p" "p \<noteq> 0" "unat n \<le> 2 ^ 52"
    "block_pages p (unat n) \<inter> pool s = {}" "0 \<notin> block_pages p (unat n)" "flist (mem s) (freepages s) xs"
  shows "\<exists>s'. kfree_pages p n s = Ok s' \<and> phys_inv s' \<and> pool s' = block_pages p (unat n) \<union> pool s \<and>
    flist (mem s') (freepages s') (rev (map (\<lambda>j. p + of_nat (4096 * j)) [0..<unat n]) @ xs)"
proof (cases "n = 0")
  case True
  then show ?thesis using assms by (simp add: kfree_pages_def block_pages_def)
next
  case False
  have "kfree_pages p n s = kfree_loop p 0 (unat n) s"
    using assms(2,3) False by (simp add: kfree_pages_def page_aligned_def)
  then show ?thesis
    using kfree_loop_ok [of s p 0 "unat n" xs] assms by simp
qed

text \<open>A list whose pages descend has no ascending pair for the contiguous search to start from.\<close>

lemma descending_False: "q = p + (d + 4096) \<Longrightarrow> q + 4096 = p + d \<Longrightarrow> False" for q :: u64
  by (simp add: add.assoc)

lemma contig_search_descending:
  assumes "flist m it (rev (map (\<lambda>j. p + of_nat (4096 * j)) [0..<k]))" "2 \<le> unat n"
  shows "contig_search m h n prev it = Some None"
proof -
  let ?xs = "rev (map (\<lambda>j. p + of_nat (4096 * j)) [0..<k]) :: u64 list"
  from contig_search_spec [OF assms, of h prev] obtain r where r: "contig_search m h n prev it = Some r"
    "\<forall>p q e. r = Some (p, q, e) \<longrightarrow>
      (\<exists>as bs cs. ?xs = as @ bs @ cs \<and> bs = map (\<lambda>j. q + of_nat (4096 * j)) [0..<unat n] \<and>
        p = (if as = [] then prev else last as) \<and> e = last bs \<and> flist m (load64 m e) cs)" by blast
  show ?thesis
  proof (cases r)
    case None
    then show ?thesis using r(1) by simp
  next
    case (Some t)
    obtain a q e where "t = (a, q, e)" by (cases t)
    with r(2) Some obtain as bs cs where
      abc: "?xs = as @ bs @ cs" "bs = map (\<lambda>j. q + of_nat (4096 * j)) [0..<unat n]" by blast
    let ?i = "length as"
    have len: "length bs = unat n" "length ?xs = k" using abc(2) by auto
    have "k = ?i + unat n + length cs" using arg_cong [OF abc(1), of length] len by simp
    then have i: "?i + 1 < k" using assms(2) by simp
    have "?xs ! ?i = bs ! 0" "?xs ! (?i + 1) = bs ! 1"
      using abc(1) len(1) assms(2) by (simp_all add: nth_append)
    moreover have "?xs ! ?i = p + of_nat (4096 * (k - 1 - ?i))"
      "?xs ! (?i + 1) = p + of_nat (4096 * (k - 1 - ?i - 1))"
      using i by (simp_all add: rev_nth)
    moreover have "bs ! 0 = q" "bs ! 1 = q + 4096" using abc(2) assms(2) by simp_all
    moreover have "k - 1 - ?i = Suc (k - 1 - ?i - 1)" using i by simp
    ultimately have q: "q = p + of_nat (4096 * Suc (k - 1 - ?i - 1))"
      "q + 4096 = p + of_nat (4096 * (k - 1 - ?i - 1))" by metis+
    have "of_nat (4096 * Suc j) = (of_nat (4096 * j) + 4096 :: u64)" for j by simp
    with q have "q = p + (of_nat (4096 * (k - 1 - ?i - 1)) + 4096)" by simp
    then have False using descending_False q(2) by blast
    then show ?thesis by simp
  qed
qed

end
