(* ===== verification/Paging.thy ===== *)
theory Paging
  imports Phys_Blocks
begin

text \<open>
  \<^verbatim>\<open>kernel/src/mem/vmm.c\<close>: the four-level page tables. A page table is 512 eight-byte
  entries in the byte memory of the page allocator; the operations walk it, extend it with
  pages from \<^verbatim>\<open>kalloc\<close>, and install, read or remove leaf entries. TLB invalidation
  (\<^verbatim>\<open>invlpg\<close>) has no effect on this state.
\<close>

section \<open>Entries (\<^verbatim>\<open>vmm.h\<close>)\<close>

definition USERSPACE_VA_MAX :: u64 where "USERSPACE_VA_MAX = 0x400000000000"
definition USERSPACE_VA_MIN :: u64 where "USERSPACE_VA_MIN = 0x400000"
definition USER_STACK_SIZE :: u64 where "USER_STACK_SIZE = 0x8000"
definition USER_STACK_BOTTOM :: u64 where "USER_STACK_BOTTOM = USERSPACE_VA_MAX - USER_STACK_SIZE"
definition INTSTACK_SIZE :: u64 where "INTSTACK_SIZE = 0x8000"
definition INTSTACK_VIRTUAL_ADDRESS_BOTTOM :: u64 where
  "INTSTACK_VIRTUAL_ADDRESS_BOTTOM = USER_STACK_BOTTOM - PAGE_SIZE - INTSTACK_SIZE"
definition SYSCALLSTACK_SIZE :: u64 where "SYSCALLSTACK_SIZE = 0x8000"
definition SYSCALLSTACK_VIRTUAL_ADDRESS_BOTTOM :: u64 where
  "SYSCALLSTACK_VIRTUAL_ADDRESS_BOTTOM = INTSTACK_VIRTUAL_ADDRESS_BOTTOM - PAGE_SIZE - SYSCALLSTACK_SIZE"
definition KERNEL_STACK_SIZE :: u64 where "KERNEL_STACK_SIZE = 0x4000"
definition KERNEL_STACK_GUARD_SIZE :: u64 where "KERNEL_STACK_GUARD_SIZE = PAGE_SIZE"
definition KERNEL_STACK_TOTAL_SIZE :: u64 where
  "KERNEL_STACK_TOTAL_SIZE = KERNEL_STACK_SIZE + KERNEL_STACK_GUARD_SIZE"
definition KERNEL_VA_MIN :: u64 where "KERNEL_VA_MIN = 0x800000000000"
definition KERNEL_STACK_BASE :: u64 where "KERNEL_STACK_BASE = 0xFFFF900000000000"

definition PTE_P :: u64 where "PTE_P = 1"
definition PTE_W :: u64 where "PTE_W = 2"
definition PTE_U :: u64 where "PTE_U = 4"
definition PTE_PWT :: u64 where "PTE_PWT = 8"
definition PTE_PCD :: u64 where "PTE_PCD = 16"
definition PTE_PS :: u64 where "PTE_PS = 128"
definition PTE_XD :: u64 where "PTE_XD = 0x8000000000000000"
definition PTE_ADDR_MASK :: u64 where "PTE_ADDR_MASK = 0x000FFFFFFFFFF000"

definition PTE_SET_ADDR :: "u64 \<Rightarrow> u64" where
  "PTE_SET_ADDR addr = addr AND PTE_ADDR_MASK"

record pte_permissions =
  writable :: bool
  executable :: bool
  userspace :: bool

definition pte_follow :: "u64 \<Rightarrow> u64" where
  "pte_follow pte = pte AND PTE_ADDR_MASK"

definition pte_is_present :: "u64 \<Rightarrow> bool" where
  "pte_is_present pte \<longleftrightarrow> pte AND PTE_P \<noteq> 0"

definition pte_is_huge :: "u64 \<Rightarrow> bool" where
  "pte_is_huge pte \<longleftrightarrow> pte AND PTE_PS \<noteq> 0"

definition pte_is_user :: "u64 \<Rightarrow> bool" where
  "pte_is_user pte \<longleftrightarrow> pte AND PTE_U \<noteq> 0"

definition pte_is_writable :: "u64 \<Rightarrow> bool" where
  "pte_is_writable pte \<longleftrightarrow> pte AND PTE_W \<noteq> 0"

definition PTE_INDEX_FROM_VA :: "u64 \<Rightarrow> nat \<Rightarrow> u64" where
  "PTE_INDEX_FROM_VA va level = drop_bit (level * 9) (drop_bit 12 va) AND 511"

text \<open>The state: the page allocator, the kernel's own table and the next I/O address.\<close>

record vmm =
  km :: kmem
  kernel_pagetable :: u64
  io_memmap_current_address :: u64

definition vmm_init_kernel :: "u64 \<Rightarrow> vmm \<Rightarrow> vmm" where
  "vmm_init_kernel installed_pagetable v =
     v\<lparr>kernel_pagetable := P2V (hhdm_offset (km v)) installed_pagetable\<rparr>"

section \<open>Walking\<close>

text \<open>
  The loop over levels 3, 2, 1, with the entry flags of the tables it creates. The result is
  the address of the leaf entry, or the null pointer.
\<close>

fun walk_levels :: "u64 \<Rightarrow> nat \<Rightarrow> u64 \<Rightarrow> u64 \<Rightarrow> bool \<Rightarrow> kmem \<Rightarrow> u64 \<times> kmem" where
  "walk_levels flags 0 pagetable va alloc s = (slot pagetable (PTE_INDEX_FROM_VA va 0), s)"
| "walk_levels flags (Suc l) pagetable va alloc s =
     (let pte = slot pagetable (PTE_INDEX_FROM_VA va (Suc l)); entry = load64 (mem s) pte in
      if pte_is_present entry
        then walk_levels flags l (P2V (hhdm_offset s) (pte_follow entry)) va alloc s
      else if \<not> alloc then (0, s)
      else
        let (table, s1) = kalloc s in
        if table = 0 then (0, s1)
        else
          let s2 = s1\<lparr>mem := memset (mem s1) table 0 (unat PAGE_SIZE)\<rparr>;
              s3 = s2\<lparr>mem := store64 (mem s2) pte (flags OR PTE_SET_ADDR (V2P (hhdm_offset s2) table))\<rparr>
          in walk_levels flags l table va alloc s3)"

definition walk :: "u64 \<Rightarrow> u64 \<Rightarrow> bool \<Rightarrow> bool \<Rightarrow> kmem \<Rightarrow> (u64 \<times> kmem) outcome" where
  "walk pagetable va alloc io s =
     (if (\<not> io \<and> va \<ge> USERSPACE_VA_MAX) \<or> va < USERSPACE_VA_MIN then Panic ''walk''
      else Ok (walk_levels (PTE_P OR PTE_W OR PTE_U) 3 pagetable va alloc s))"

definition walk_kernel :: "u64 \<Rightarrow> u64 \<Rightarrow> bool \<Rightarrow> kmem \<Rightarrow> (u64 \<times> kmem) outcome" where
  "walk_kernel pagetable va alloc s =
     (if va < KERNEL_VA_MIN then Panic ''walk_kernel: va below kernel min''
      else Ok (walk_levels (PTE_P OR PTE_W) 3 pagetable va alloc s))"

definition vmm_walkaddr :: "u64 \<Rightarrow> u64 \<Rightarrow> bool \<Rightarrow> kmem \<Rightarrow> u64 outcome" where
  "vmm_walkaddr pagetable va user s =
     (if va \<ge> USERSPACE_VA_MAX then Ok 0
      else obind (walk pagetable va False False s) (\<lambda>(pte, s1).
        if pte = 0 then Ok 0
        else let entry = load64 (mem s1) pte in
             if \<not> pte_is_present entry then Ok 0
             else if pte_is_user entry \<noteq> user then Ok 0
             else Ok (pte_follow entry)))"

section \<open>Installing mappings\<close>

definition build_pte :: "pte_permissions \<Rightarrow> u64 \<Rightarrow> u64" where
  "build_pte perm pa =
     (let e = PTE_P OR PTE_SET_ADDR pa;
          e = (if writable perm then e OR PTE_W else e);
          e = (if \<not> executable perm then e OR PTE_XD else e)
      in if userspace perm then e OR PTE_U else e)"

definition build_kernel_pte :: "pte_permissions \<Rightarrow> u64 \<Rightarrow> u64" where
  "build_kernel_pte perm pa =
     (let e = PTE_P OR PTE_SET_ADDR pa;
          e = (if writable perm then e OR PTE_W else e)
      in if \<not> executable perm then e OR PTE_XD else e)"

definition write_entry :: "u64 \<Rightarrow> u64 \<Rightarrow> kmem \<Rightarrow> kmem" where
  "write_entry pte v s = s\<lparr>mem := store64 (mem s) pte v\<rparr>"

primrec map_kernel_loop ::
    "u64 \<Rightarrow> u64 \<Rightarrow> u64 \<Rightarrow> pte_permissions \<Rightarrow> u64 \<Rightarrow> nat \<Rightarrow> kmem \<Rightarrow> (int \<times> kmem) outcome" where
  "map_kernel_loop pagetable va pa perm i 0 s = Ok (0, s)"
| "map_kernel_loop pagetable va pa perm i (Suc k) s =
     obind (walk_kernel pagetable (va + i * PAGE_SIZE) True s) (\<lambda>(pte, s1).
       if pte = 0 then Ok (-1, s1)
       else if pte_is_present (load64 (mem s1) pte) then Panic ''vmm_map_kernel_pages: remap''
       else map_kernel_loop pagetable va pa perm (i + 1) k
              (write_entry pte (build_kernel_pte perm (pa + i * PAGE_SIZE)) s1))"

definition vmm_map_kernel_pages ::
    "u64 \<Rightarrow> u64 \<Rightarrow> u64 \<Rightarrow> u64 \<Rightarrow> pte_permissions \<Rightarrow> kmem \<Rightarrow> (int \<times> kmem) outcome" where
  "vmm_map_kernel_pages pagetable va pa sz perm s =
     (if va mod PAGE_SIZE \<noteq> 0 \<or> pa mod PAGE_SIZE \<noteq> 0 \<or> sz mod PAGE_SIZE \<noteq> 0
        then Panic ''vmm_map_kernel_pages: alignment''
      else map_kernel_loop pagetable va pa perm 0 (unat (sz div PAGE_SIZE)) s)"

definition vmm_init_lapic :: "u64 \<Rightarrow> vmm \<Rightarrow> vmm outcome" where
  "vmm_init_lapic lapic_addr v =
     obind (vmm_map_kernel_pages (kernel_pagetable v) (P2V (hhdm_offset (km v)) lapic_addr) lapic_addr
        0x1000 \<lparr>writable = True, executable = False, userspace = False\<rparr> (km v))
       (\<lambda>(_, s). Ok (v\<lparr>km := s\<rparr>))"

primrec map_loop ::
    "u64 \<Rightarrow> u64 \<Rightarrow> u64 \<Rightarrow> pte_permissions \<Rightarrow> u64 \<Rightarrow> nat \<Rightarrow> kmem \<Rightarrow> (int \<times> kmem) outcome" where
  "map_loop pagetable va pa perm i 0 s = Ok (0, s)"
| "map_loop pagetable va pa perm i (Suc k) s =
     obind (walk pagetable (va + i * PAGE_SIZE) True False s) (\<lambda>(pte, s1).
       if pte = 0 then Ok (-1, s1)
       else if pte_is_present (load64 (mem s1) pte) then Panic ''vmm_map_pages: remap''
       else map_loop pagetable va pa perm (i + 1) k
              (write_entry pte (build_pte perm (pa + i * PAGE_SIZE)) s1))"

definition vmm_map_pages ::
    "u64 \<Rightarrow> u64 \<Rightarrow> u64 \<Rightarrow> u64 \<Rightarrow> pte_permissions \<Rightarrow> kmem \<Rightarrow> (int \<times> kmem) outcome" where
  "vmm_map_pages pagetable va sz pa permissions s =
     (if pa mod PAGE_SIZE \<noteq> 0 then Panic ''vmm_map_pages: pa not aligned''
      else if va mod PAGE_SIZE \<noteq> 0 then Panic ''vmm_map_pages: va not aligned''
      else if sz mod PAGE_SIZE \<noteq> 0 then Panic ''vmm_map_pages: size not aligned''
      else if sz = 0 then Panic ''vmm_map_pages: size''
      else map_loop pagetable va pa permissions 0 (unat (sz div PAGE_SIZE)) s)"

primrec allocate_loop ::
    "u64 \<Rightarrow> u64 \<Rightarrow> pte_permissions \<Rightarrow> bool \<Rightarrow> u64 \<Rightarrow> nat \<Rightarrow> kmem \<Rightarrow> (int \<times> kmem) outcome" where
  "allocate_loop pagetable va perm clear i 0 s = Ok (0, s)"
| "allocate_loop pagetable va perm clear i (Suc k) s =
     (let (frame, s1) = (if clear then kcalloc s else kalloc s) in
      if frame = 0 then Ok (-1, s1)
      else obind (walk pagetable (va + i * PAGE_SIZE) True False s1) (\<lambda>(pte, s2).
        if pte = 0 then obind (kfree frame s2) (\<lambda>s3. Ok (-1, s3))
        else if pte_is_present (load64 (mem s2) pte) then Panic ''vmm_allocate: remap''
        else allocate_loop pagetable va perm clear (i + 1) k
               (write_entry pte (build_pte perm (V2P (hhdm_offset s2) frame)) s2)))"

definition vmm_allocate ::
    "u64 \<Rightarrow> u64 \<Rightarrow> u64 \<Rightarrow> pte_permissions \<Rightarrow> bool \<Rightarrow> kmem \<Rightarrow> (int \<times> kmem) outcome" where
  "vmm_allocate pagetable va sz permissions clear s =
     (if va mod PAGE_SIZE \<noteq> 0 then Panic ''vmm_allocate: va not aligned''
      else if sz mod PAGE_SIZE \<noteq> 0 then Panic ''vmm_allocate: size not aligned''
      else if sz = 0 then Panic ''vmm_allocate: size''
      else allocate_loop pagetable va permissions clear 0 (unat (sz div PAGE_SIZE)) s)"

primrec io_loop :: "u64 \<Rightarrow> u64 \<Rightarrow> u64 \<Rightarrow> u64 \<Rightarrow> nat \<Rightarrow> kmem \<Rightarrow> (bool \<times> kmem) outcome" where
  "io_loop pagetable va pa i 0 s = Ok (True, s)"
| "io_loop pagetable va pa i (Suc k) s =
     obind (walk pagetable (va + i * PAGE_SIZE) True True s) (\<lambda>(pte, s1).
       if pte = 0 then Ok (False, s1)
       else if pte_is_present (load64 (mem s1) pte) then Panic ''vmm_io_memmap: remap''
       else io_loop pagetable va pa (i + 1) k
              (write_entry pte (PTE_P OR PTE_W OR PTE_PWT OR PTE_PCD OR PTE_XD OR
                 PTE_SET_ADDR (pa + i * PAGE_SIZE)) s1))"

definition vmm_io_memmap :: "u64 \<Rightarrow> u64 \<Rightarrow> vmm \<Rightarrow> (u64 \<times> vmm) outcome" where
  "vmm_io_memmap pa sz v =
     (if pa mod PAGE_SIZE \<noteq> 0 then Panic ''vmm_io_memmap: pa not aligned''
      else if sz mod PAGE_SIZE \<noteq> 0 then Panic ''vmm_io_memmap: size not aligned''
      else if sz = 0 then Panic ''vmm_io_memmap: size''
      else
        let va = io_memmap_current_address v; v1 = v\<lparr>io_memmap_current_address := va + sz\<rparr> in
        obind (io_loop (kernel_pagetable v) va pa 0 (unat (sz div PAGE_SIZE)) (km v1))
          (\<lambda>(ok, s). Ok (if ok then va else 0, v1\<lparr>km := s\<rparr>)))"

definition vmm_map_physical :: "u64 \<Rightarrow> u64 \<Rightarrow> vmm \<Rightarrow> (u64 \<times> vmm) outcome" where
  "vmm_map_physical phys_start phys_stop v =
     (if phys_stop \<le> phys_start then Panic ''vmm_map_physical: invalid range''
      else
        let aligned_start = phys_start AND page_not_mask;
            offset = phys_start - aligned_start;
            sz = phys_stop - aligned_start;
            sz = (if sz mod PAGE_SIZE \<noteq> 0 then (sz + PAGE_SIZE - 1) AND page_not_mask else sz)
        in obind (vmm_io_memmap aligned_start sz v) (\<lambda>(va, v1). Ok (va + offset, v1)))"

end
