(* ===== verification/Page_Maps.thy ===== *)
theory Page_Maps
  imports Paging
begin

text \<open>
  The meaning of the page tables of \<^verbatim>\<open>vmm.c\<close>: \<open>translate\<close> gives the leaf entry of a virtual
  address, \<open>pt_inv\<close> says that the tables form a tree that owns its pages, and the lemmas show
  that the allocating walk extends the tree without changing any translation and that a
  write through the entry it returns changes the translation of that one page.
\<close>

section \<open>Indices and page numbers\<close>

text \<open>The index of level \<open>l\<close> and the page number above it, in the natural numbers.\<close>

definition va_index :: "u64 \<Rightarrow> nat \<Rightarrow> nat" where
  "va_index va l = unat va div 2 ^ (12 + 9 * l) mod 512"

definition vpn :: "u64 \<Rightarrow> nat \<Rightarrow> nat" where
  "vpn va l = unat va div 2 ^ (12 + 9 * l) mod 2 ^ (9 * (4 - l))"

lemma va_index_less [simp]: "va_index va l < 512"
  by (simp add: va_index_def)

lemma unat_PTE_INDEX [simp]: "unat (PTE_INDEX_FROM_VA va l) = va_index va l"
proof -
  have "(x :: u64) AND 511 = take_bit 9 x" for x
    by (simp add: take_bit_eq_mask mask_eq_exp_minus_1)
  then have "PTE_INDEX_FROM_VA va l = take_bit 9 (drop_bit (9 * l + 12) va)"
    by (simp add: PTE_INDEX_FROM_VA_def mult.commute)
  then have "unat (PTE_INDEX_FROM_VA va l) = take_bit 9 (drop_bit (9 * l + 12) (unat va))"
    by (simp only: unsigned_take_bit_eq unsigned_drop_bit_eq) (simp add: take_bit_nat_eq_self unat_lt_2p64)
  then show ?thesis by (simp add: va_index_def take_bit_eq_mod drop_bit_eq_div add.commute)
qed

lemma vpn_step: "l < 4 \<Longrightarrow> vpn va l = 512 * vpn va (Suc l) + va_index va l"
proof -
  assume l: "l < 4"
  let ?x = "unat va div 2 ^ (12 + 9 * l)"
  have "9 * (4 - l) = 9 + 9 * (4 - Suc l)" using l by simp
  then have "(2 :: nat) ^ (9 * (4 - l)) = 512 * 2 ^ (9 * (4 - Suc l))"
    by (simp only: power_add) simp
  then have "vpn va l = 512 * (?x div 512 mod 2 ^ (9 * (4 - Suc l))) + ?x mod 512"
    unfolding vpn_def by (simp only: mod_mult2_eq)
  moreover have "?x div 512 = unat va div 2 ^ (12 + 9 * Suc l)"
    by (simp add: div_mult2_eq [symmetric] power_add)
  ultimately show ?thesis by (simp add: vpn_def va_index_def)
qed

lemma vpn_4 [simp]: "vpn va 4 = 0"
  by (simp add: vpn_def)

lemma vpn_eq_step:
  assumes "l < 4" "vpn va l = vpn va' l"
  shows "vpn va (Suc l) = vpn va' (Suc l)" "va_index va l = va_index va' l"
proof -
  have "512 * vpn va (Suc l) + va_index va l = 512 * vpn va' (Suc l) + va_index va' l"
    using assms vpn_step by metis
  moreover have "x = y \<and> i = j" if "512 * x + i = 512 * y + j" "i < 512" "j < 512" for x y i j :: nat
  proof -
    have "(512 * x + i) div 512 = x" "(512 * y + j) div 512 = y"
      "(512 * x + i) mod 512 = i" "(512 * y + j) mod 512 = j" using that(2,3) by simp_all
    then show ?thesis using that(1) by metis
  qed
  ultimately show "vpn va (Suc l) = vpn va' (Suc l)" "va_index va l = va_index va' l"
    using va_index_less by blast+
qed

lemma PTE_INDEX_eq: "va_index va l = va_index va' l \<Longrightarrow> PTE_INDEX_FROM_VA va l = PTE_INDEX_FROM_VA va' l"
  by (simp add: word_unat_eq_iff)

section \<open>Entries in memory\<close>

lemma slot_inj:
  assumes "page_aligned p" "page_aligned q" "unat i < 512" "unat j < 512" "slot p i = slot q j"
  shows "p = q \<and> i = j"
proof -
  have "in_range p 4096 (slot p i)" "in_range q 4096 (slot q j)"
    using assms slot_in_page by (metis in_range_self zero_less_numeral)+
  then have "p = q" using assms page_of_eq_iff by metis
  moreover have "unat p + 8 * unat i = unat p + 8 * unat j"
    using assms \<open>p = q\<close> unat_slot by metis
  ultimately show ?thesis by (simp add: word_unat_eq_iff)
qed

lemma slot_mod8: "page_aligned p \<Longrightarrow> unat i < 512 \<Longrightarrow> unat (slot p i) mod 8 = 0"
  using page_aligned_mod8 [of p] by (simp add: unat_slot)

lemma entry_other:
  assumes "page_aligned p" "page_aligned q" "unat i < 512" "unat j < 512" "p \<noteq> q \<or> i \<noteq> j"
  shows "load64 (store64 m (slot q j) v) (slot p i) = load64 m (slot p i)"
proof (rule load64_store64_other, rule words_disjoint)
  show "slot p i \<noteq> slot q j" using slot_inj assms by blast
qed (use assms slot_mod8 in auto)

lemma entry_page:
  assumes "page_aligned p" "unat i < 512" "\<And>a. in_range p 4096 a \<Longrightarrow> m a = m' a"
  shows "load64 m (slot p i) = load64 m' (slot p i)"
  by (rule load64_cong) (use assms slot_in_page in blast)

lemma page_of_slot: "page_aligned p \<Longrightarrow> unat i < 512 \<Longrightarrow> in_range (slot p i) 8 a \<Longrightarrow> page_of a = p"
  using slot_in_page page_of_eq_iff by blast

lemma slot_nonzero: "page_aligned p \<Longrightarrow> unat i < 512 \<Longrightarrow> p \<noteq> 0 \<Longrightarrow> slot p i \<noteq> 0"
  using unat_slot [of p i] by (auto simp: word_unat_eq_iff)

lemma load64_filled_zero: 
  assumes "page_aligned p" "unat i < 512"
  shows "load64 (filled m p 0 4096) (slot p i) = 0"
proof -
  have "load64 (filled m p 0 4096) (slot p i) = load64 (\<lambda>_. 0) (slot p i)"
    by (rule entry_page [OF assms]) (simp add: filled_def)
  also have "\<dots> = 0"
  proof -
    have "load_le n (\<lambda>_. 0) a = 0" for n a by (induction n arbitrary: a) simp_all
    then show ?thesis by (simp add: load64_def)
  qed
  finally show ?thesis .
qed

lemma page_aligned_follow: "page_aligned (pte_follow e)"
  unfolding page_aligned_def pte_follow_def PTE_ADDR_MASK_def PAGE_SIZE_def
  by (simp add: and.assoc)

lemma pte_bits:
  "pte_is_present e \<longleftrightarrow> bit e 0" "pte_is_writable e \<longleftrightarrow> bit e 1" "pte_is_user e \<longleftrightarrow> bit e 2"
  using and_exp_eq_0_iff_not_bit [of e 0] and_exp_eq_0_iff_not_bit [of e 1] and_exp_eq_0_iff_not_bit [of e 2]
  by (simp_all add: pte_is_present_def pte_is_writable_def pte_is_user_def PTE_P_def PTE_W_def PTE_U_def
      del: bit_0)

lemma not_present_0 [simp]: "\<not> pte_is_present 0"
  by (simp add: pte_is_present_def)

section \<open>Translation\<close>

text \<open>
  The table of level 0 that the translation of an address reaches, and the present entry it
  finds there: what the processor (and \<^verbatim>\<open>walk\<close>) reads for the address.
\<close>

primrec pt_table :: "memory \<Rightarrow> u64 \<Rightarrow> nat \<Rightarrow> u64 \<Rightarrow> u64 \<Rightarrow> u64 option" where
  "pt_table m h 0 pt va = Some pt"
| "pt_table m h (Suc l) pt va =
     (let e = load64 m (slot pt (PTE_INDEX_FROM_VA va (Suc l))) in
      if pte_is_present e then pt_table m h l (P2V h (pte_follow e)) va else None)"

definition leaf_entry :: "memory \<Rightarrow> u64 \<Rightarrow> u64 \<Rightarrow> u64 option" where
  "leaf_entry m va p =
     (let e = load64 m (slot p (PTE_INDEX_FROM_VA va 0)) in if pte_is_present e then Some e else None)"

definition pt_lookup :: "memory \<Rightarrow> u64 \<Rightarrow> nat \<Rightarrow> u64 \<Rightarrow> u64 \<Rightarrow> u64 option" where
  "pt_lookup m h l pt va = Option.bind (pt_table m h l pt va) (leaf_entry m va)"

definition translate :: "kmem \<Rightarrow> u64 \<Rightarrow> u64 \<Rightarrow> u64 option" where
  "translate s root va = pt_lookup (mem s) (hhdm_offset s) 3 root va"

lemma pt_lookup_simps [simp]:
  "pt_lookup m h 0 pt va = leaf_entry m va pt"
  "pt_lookup m h (Suc l) pt va =
     (let e = load64 m (slot pt (PTE_INDEX_FROM_VA va (Suc l))) in
      if pte_is_present e then pt_lookup m h l (P2V h (pte_follow e)) va else None)"
  by (simp_all add: pt_lookup_def Let_def)

text \<open>
  The tables form a tree: \<open>own p = Some (l, n)\<close> says that the page \<open>p\<close> is the table of level
  \<open>l\<close> for the addresses whose page number above that level is \<open>n\<close>. No table is free.
\<close>

definition pt_inv :: "(u64 \<Rightarrow> (nat \<times> nat) option) \<Rightarrow> kmem \<Rightarrow> u64 \<Rightarrow> bool" where
  "pt_inv own s root \<longleftrightarrow> own root = Some (3, 0) \<and>
     (\<forall>p l n. own p = Some (l, n) \<longrightarrow> page_aligned p \<and> p \<noteq> 0 \<and> p \<notin> pool s \<and>
        (\<forall>k i. l = Suc k \<longrightarrow> unat i < 512 \<longrightarrow> pte_is_present (load64 (mem s) (slot p i)) \<longrightarrow>
           own (P2V (hhdm_offset s) (pte_follow (load64 (mem s) (slot p i)))) = Some (k, 512 * n + unat i)))"

text \<open>Free pages have physical addresses that a page table entry can hold.\<close>

definition pool_addressable :: "kmem \<Rightarrow> bool" where
  "pool_addressable s \<longleftrightarrow> (\<forall>x \<in> pool s. PTE_SET_ADDR (V2P (hhdm_offset s) x) = V2P (hhdm_offset s) x)"

lemma pt_invD:
  assumes "pt_inv own s root" "own p = Some (l, n)"
  shows "page_aligned p" "p \<noteq> 0" "p \<notin> pool s"
    "l = Suc k \<Longrightarrow> unat i < 512 \<Longrightarrow> pte_is_present (load64 (mem s) (slot p i)) \<Longrightarrow>
      own (P2V (hhdm_offset s) (pte_follow (load64 (mem s) (slot p i)))) = Some (k, 512 * n + unat i)"
  using assms unfolding pt_inv_def by blast+

lemma pt_inv_next:
  assumes "pt_inv own s root" "own p = Some (Suc l, vpn va (Suc (Suc l)))" "l < 3"
    "e = load64 (mem s) (slot p (PTE_INDEX_FROM_VA va (Suc l)))" "pte_is_present e"
  shows "own (P2V (hhdm_offset s) (pte_follow e)) = Some (l, vpn va (Suc l))"
proof -
  have "vpn va (Suc l) = 512 * vpn va (Suc (Suc l)) + va_index va (Suc l)"
    using assms(3) by (intro vpn_step) simp
  then show ?thesis
    using pt_invD(4) [OF assms(1,2), of l "PTE_INDEX_FROM_VA va (Suc l)"] assms(4,5) by simp
qed

lemma pt_table_own:
  assumes "pt_inv own s root" "own p = Some (l, vpn va (Suc l))" "l \<le> 3"
    "pt_table (mem s) (hhdm_offset s) l p va = Some q"
  shows "own q = Some (0, vpn va 1)"
  using assms(2-4)
proof (induction l arbitrary: p)
  case 0
  then show ?case by simp
next
  case (Suc l)
  then show ?case
    using pt_inv_next [OF assms(1) Suc.prems(1) _ refl] by (auto simp: Let_def split: if_splits)
qed

lemma pt_inv_root: "pt_inv own s root \<Longrightarrow> own root = Some (3, vpn va (Suc 3))"
  by (simp add: pt_inv_def)

text \<open>Addresses of the same page reach the same entries.\<close>

lemma pt_table_cong:
  assumes "vpn va 1 = vpn va' 1" "l \<le> 3"
  shows "pt_table m h l p va = pt_table m h l p va'"
proof -
  have step: "vpn va (Suc k) = vpn va' (Suc k)" if "k < 4" for k
    using that
  proof (induction k)
    case 0
    then show ?case using assms(1) by simp
  next
    case (Suc k)
    then show ?case using vpn_eq_step(1) [of "Suc k" va va'] by simp
  qed
  have "PTE_INDEX_FROM_VA va (Suc k) = PTE_INDEX_FROM_VA va' (Suc k)" if "Suc k \<le> 3" for k
    using that step [of k] vpn_eq_step(2) [of "Suc k" va va'] by (intro PTE_INDEX_eq) simp
  then show ?thesis
    using assms(2) by (induction l arbitrary: p) (simp_all add: Let_def)
qed

section \<open>The walk\<close>

lemma walk_noalloc:
  "walk_levels flags l pt va False s =
     (case pt_table (mem s) (hhdm_offset s) l pt va of None \<Rightarrow> 0
      | Some p \<Rightarrow> slot p (PTE_INDEX_FROM_VA va 0), s)"
  by (induction l arbitrary: pt) (simp_all add: Let_def)

lemma walk_present:
  "pt_table (mem s) (hhdm_offset s) l pt va = Some p \<Longrightarrow>
   walk_levels flags l pt va alloc s = (slot p (PTE_INDEX_FROM_VA va 0), s)"
  by (induction l arbitrary: pt) (auto simp: Let_def split: if_splits)

text \<open>Linking a fresh, zeroed table into an empty slot changes no translation.\<close>

definition link_table :: "u64 \<Rightarrow> u64 \<Rightarrow> u64 \<Rightarrow> kmem \<Rightarrow> kmem" where
  "link_table flags pte t s1 =
     (let s2 = s1\<lparr>mem := memset (mem s1) t 0 (unat PAGE_SIZE)\<rparr>
      in s2\<lparr>mem := store64 (mem s2) pte (flags OR PTE_SET_ADDR (V2P (hhdm_offset s2) t))\<rparr>)"

definition table_flags :: "u64 \<Rightarrow> bool" where
  "table_flags f \<longleftrightarrow> f \<in> {PTE_P OR PTE_W OR PTE_U, PTE_P OR PTE_W}"

lemma flags_or_addr:
  assumes "table_flags f"
  shows "pte_is_present (f OR PTE_SET_ADDR a)" "pte_follow (f OR PTE_SET_ADDR a) = PTE_SET_ADDR a"
proof -
  have f: "f = 7 \<or> f = 3" using assms by (auto simp: table_flags_def PTE_P_def PTE_W_def PTE_U_def)
  then show "pte_is_present (f OR PTE_SET_ADDR a)"
    by (auto simp: pte_bits(1) bit_or_iff simp del: bit_0)
  have "f AND PTE_ADDR_MASK = 0" using f by (auto simp: PTE_ADDR_MASK_def)
  then show "pte_follow (f OR PTE_SET_ADDR a) = PTE_SET_ADDR a"
    by (simp add: pte_follow_def PTE_SET_ADDR_def bit.conj_disj_distrib2 and.assoc)
qed

lemma link_table_step:
  assumes "pt_inv own s root" "phys_inv s" "pool_addressable s" "table_flags flags"
    "own p = Some (Suc l, n)" "unat i < 512" "\<not> pte_is_present (load64 (mem s) (slot p i))"
    "kalloc s = (t, s1)" "t \<noteq> 0"
  defines "s' \<equiv> link_table flags (slot p i) t s1" and "own' \<equiv> own(t \<mapsto> (l, 512 * n + unat i))"
  shows "pt_inv own' s' root" "phys_inv s'" "pool s' = pool s - {t}" "hhdm_offset s' = hhdm_offset s"
    "\<And>a. page_of a \<noteq> t \<Longrightarrow> page_of a \<noteq> p \<Longrightarrow> mem s' a = mem s a"
    "\<And>q j. page_aligned q \<Longrightarrow> unat j < 512 \<Longrightarrow> q \<noteq> t \<Longrightarrow> q \<noteq> p \<or> j \<noteq> i \<Longrightarrow>
      load64 (mem s') (slot q j) = load64 (mem s) (slot q j)"
    "\<And>j. unat j < 512 \<Longrightarrow> load64 (mem s') (slot t j) = 0"
    "pte_is_present (load64 (mem s') (slot p i))" "P2V (hhdm_offset s) (pte_follow (load64 (mem s') (slot p i))) = t"
    "t \<notin> dom own" "t \<in> pool s"
proof -
  note p = pt_invD [OF assms(1,5)]
  have a: "alloc_ok s t s1" using alloc_with_spec [OF assms(2), of "Some 0" "Some 2" t s1] assms(8,9)
    by (simp add: alloc_with_variants)
  then have t: "t \<in> pool s" "page_aligned t" "hhdm_offset s1 = hhdm_offset s" "pool s1 = pool s - {t}"
    by (auto simp: alloc_ok_def)
  have ne: "p \<noteq> t" using p(3) t(1) by blast
  let ?m0 = "filled (mem s1) t 0 4096"
  let ?e = "flags OR PTE_SET_ADDR (V2P (hhdm_offset s) t)"
  have s': "s' = s1\<lparr>mem := store64 ?m0 (slot p i) ?e\<rparr>"
    unfolding s'_def link_table_def using t(3) by (simp add: memset_page)
  have m0: "?m0 a = mem s a" if "page_of a \<noteq> t" for a
    using that a t(2) page_of_eq_iff by (auto simp: filled_def alloc_ok_def)
  have ms: "mem s' a = ?m0 a" if "page_of a \<noteq> p" for a
  proof -
    have "\<not> in_range (slot p i) 8 a" using that p(1) assms(6) page_of_slot by blast
    then show ?thesis by (simp add: s' store64_outside)
  qed
  show fr: "mem s' a = mem s a" if "page_of a \<noteq> t" "page_of a \<noteq> p" for a
    using that m0 ms by metis
  show t0: "t \<in> pool s" "t \<notin> dom own" using t(1) pt_invD(3) [OF assms(1), of t] by auto
  have "p \<notin> pool s1" using p(3) t(4) by simp
  moreover have "phys_inv (s1\<lparr>mem := ?m0\<rparr>)" "pool (s1\<lparr>mem := ?m0\<rparr>) = pool s1"
    using alloc_ok_write [OF a, of ?m0] a by (auto simp: filled_def alloc_ok_def)
  ultimately have "phys_inv (s1\<lparr>mem := ?m0\<rparr>\<lparr>mem := mem s'\<rparr>) \<and> pool (s1\<lparr>mem := ?m0\<rparr>\<lparr>mem := mem s'\<rparr>) = pool s1"
    using mem_write_pool [of "s1\<lparr>mem := ?m0\<rparr>" p "mem s'"] p(1) ms page_of_eq_iff [OF p(1)] by auto
  then show inv: "phys_inv s'" "pool s' = pool s - {t}" using t(4) by (auto simp: s')
  show h: "hhdm_offset s' = hhdm_offset s" by (simp add: s' t(3))
  show other: "load64 (mem s') (slot q j) = load64 (mem s) (slot q j)"
    if "page_aligned q" "unat j < 512" "q \<noteq> t" "q \<noteq> p \<or> j \<noteq> i" for q j
  proof -
    have "load64 (mem s') (slot q j) = load64 ?m0 (slot q j)"
      using entry_other [OF that(1) p(1) that(2) assms(6) that(4)] by (simp add: s')
    also have "\<dots> = load64 (mem s) (slot q j)"
      by (rule entry_page [OF that(1,2)]) (use m0 that(1,3) page_of_eq_iff in metis)
    finally show ?thesis .
  qed
  show zero: "load64 (mem s') (slot t j) = 0" if "unat j < 512" for j
    using that t(2) p(1) assms(6) ne by (simp add: s' entry_other load64_filled_zero)
  have e: "load64 (mem s') (slot p i) = ?e" by (simp add: s')
  have "PTE_SET_ADDR (V2P (hhdm_offset s) t) = V2P (hhdm_offset s) t"
    using assms(3) t(1) by (simp add: pool_addressable_def)
  then show tgt: "pte_is_present (load64 (mem s') (slot p i))"
    "P2V (hhdm_offset s) (pte_follow (load64 (mem s') (slot p i))) = t"
    using flags_or_addr [OF assms(4)] e by (metis V2P_P2V(2))+
  show "pt_inv own' s' root"
    unfolding pt_inv_def
  proof (intro conjI allI impI)
    have "own root = Some (3, 0)" using assms(1) by (simp add: pt_inv_def)
    then show "own' root = Some (3, 0)" using t0(2) by (auto simp: own'_def)
  next
    fix q k c assume q: "own' q = Some (k, c)"
    show "page_aligned q" "q \<noteq> 0" "q \<notin> pool s'"
      using q t(2) assms(9) inv(2) pt_invD(1-3) [OF assms(1), of q] by (auto simp: own'_def split: if_splits)
    fix k' j assume k: "k = Suc k'" and j: "unat j < 512"
      and pres: "pte_is_present (load64 (mem s') (slot q j))"
    have "q \<noteq> t" using zero j pres by auto
    then have oq: "own q = Some (k, c)" using q by (simp add: own'_def)
    show "own' (P2V (hhdm_offset s') (pte_follow (load64 (mem s') (slot q j)))) = Some (k', 512 * c + unat j)"
    proof (cases "q = p \<and> j = i")
      case True
      then show ?thesis using tgt oq assms(5) k h by (simp add: own'_def)
    next
      case False
      have "load64 (mem s') (slot q j) = load64 (mem s) (slot q j)"
        using other pt_invD(1) [OF assms(1) oq] j \<open>q \<noteq> t\<close> False by blast
      moreover have "own x = Some (k', 512 * c + unat j) \<Longrightarrow> x \<noteq> t" for x using t0(2) by auto
      ultimately show ?thesis
        using pt_invD(4) [OF assms(1) oq k j] pres h by (simp add: own'_def)
    qed
  qed
qed

text \<open>A table of zeros maps nothing.\<close>

lemma pt_lookup_zero:
  assumes "\<forall>j. unat j < 512 \<longrightarrow> load64 m (slot t j) = 0"
  shows "pt_lookup m h l t va = None"
  using assms by (cases l) (simp_all add: leaf_entry_def)

lemma link_table_translate:
  assumes "pt_inv own s root" "phys_inv s" "pool_addressable s" "table_flags flags"
    "own p = Some (Suc l, n)" "unat i < 512" "\<not> pte_is_present (load64 (mem s) (slot p i))"
    "kalloc s = (t, s1)" "t \<noteq> 0"
  shows "translate (link_table flags (slot p i) t s1) root va = translate s root va"
proof -
  let ?s = "link_table flags (slot p i) t s1"
  note st = link_table_step [OF assms]
  have "pt_lookup (mem ?s) (hhdm_offset ?s) k q va = pt_lookup (mem s) (hhdm_offset s) k q va"
    if "own q = Some (k, vpn va (Suc k))" "k \<le> 3" for k q
    using that
  proof (induction k arbitrary: q)
    case 0
    have "q \<noteq> t" "q \<noteq> p" using 0 st(10) assms(5) by auto
    then show ?case using st(6) [of q "PTE_INDEX_FROM_VA va 0"] pt_invD(1) [OF assms(1) 0(1)]
      by (simp add: leaf_entry_def)
  next
    case (Suc k)
    let ?i = "PTE_INDEX_FROM_VA va (Suc k)"
    have q: "q \<noteq> t" "page_aligned q" using Suc.prems st(10) pt_invD(1) [OF assms(1)] by auto
    show ?case
    proof (cases "q = p \<and> ?i = i")
      case True
      then have "pt_lookup (mem ?s) (hhdm_offset ?s) (Suc k) q va = pt_lookup (mem ?s) (hhdm_offset ?s) k t va"
        using st(4,8,9) by simp
      moreover have "pt_lookup (mem ?s) (hhdm_offset ?s) k t va = None"
        using pt_lookup_zero st(7) by blast
      moreover have "pt_lookup (mem s) (hhdm_offset s) (Suc k) q va = None"
        using True assms(7) by simp
      ultimately show ?thesis by (simp only:)
    next
      case False
      then have e: "load64 (mem ?s) (slot q ?i) = load64 (mem s) (slot q ?i)"
        using st(6) q by simp
      then show ?thesis
        using Suc.IH pt_inv_next [OF assms(1) Suc.prems(1) _ refl] Suc.prems(2) st(4)
        by (simp add: Let_def)
    qed
  qed
  then show ?thesis using pt_inv_root [OF assms(1)] unfolding translate_def by simp
qed

text \<open>What a change of the tables keeps: every translation, the invariants, and foreign bytes.\<close>

definition tables_grow :: "(u64 \<Rightarrow> (nat \<times> nat) option) \<Rightarrow> kmem \<Rightarrow> u64 \<Rightarrow> (u64 \<Rightarrow> (nat \<times> nat) option) \<Rightarrow> kmem \<Rightarrow> bool"
  where
  "tables_grow own s root own' s' \<longleftrightarrow>
     pt_inv own' s' root \<and> phys_inv s' \<and> pool s' \<subseteq> pool s \<and> hhdm_offset s' = hhdm_offset s \<and> own \<subseteq>\<^sub>m own' \<and>
     dom own' - dom own \<subseteq> pool s - pool s' \<and> pool s - pool s' \<subseteq> dom own' \<and>
     (\<forall>a. page_of a \<notin> dom own' \<longrightarrow> mem s' a = mem s a) \<and>
     (\<forall>q \<in> dom own. \<forall>j. unat j < 512 \<longrightarrow> pte_is_present (load64 (mem s) (slot q j)) \<longrightarrow>
        load64 (mem s') (slot q j) = load64 (mem s) (slot q j))"

lemma tables_growD:
  assumes "tables_grow own s root own' s'"
  shows "pt_inv own' s' root" "phys_inv s'" "pool s' \<subseteq> pool s" "hhdm_offset s' = hhdm_offset s"
    "own \<subseteq>\<^sub>m own'" "dom own \<subseteq> dom own'" "page_of a \<notin> dom own' \<Longrightarrow> mem s' a = mem s a"
    "q \<in> dom own \<Longrightarrow> unat j < 512 \<Longrightarrow> pte_is_present (load64 (mem s) (slot q j)) \<Longrightarrow>
      load64 (mem s') (slot q j) = load64 (mem s) (slot q j)"
    "dom own' - dom own \<subseteq> pool s - pool s'" "pool s - pool s' \<subseteq> dom own'"
  using assms map_le_implies_dom_le unfolding tables_grow_def by blast+

lemma tables_grow_refl: "pt_inv own s root \<Longrightarrow> phys_inv s \<Longrightarrow> tables_grow own s root own s"
  by (simp add: tables_grow_def)

lemma tables_grow_trans:
  assumes g1: "tables_grow own s root own1 s1" and g2: "tables_grow own1 s1 root own2 s2"
  shows "tables_grow own s root own2 s2"
proof -
  note d1 = tables_growD [OF g1] and d2 = tables_growD [OF g2]
  have "load64 (mem s2) (slot q j) = load64 (mem s) (slot q j)"
    if "q \<in> dom own" "unat j < 512" "pte_is_present (load64 (mem s) (slot q j))" for q j
  proof -
    have "load64 (mem s1) (slot q j) = load64 (mem s) (slot q j)" using d1(8) that by blast
    moreover have "q \<in> dom own1" using d1(6) that by blast
    ultimately show ?thesis using d2(8) [of q j] that by simp
  qed
  moreover have "mem s2 a = mem s a" if "page_of a \<notin> dom own2" for a
  proof -
    have "page_of a \<notin> dom own1" using that d2(6) by blast
    then show ?thesis using d1(7) [of a] d2(7) [OF that] by simp
  qed
  moreover have "own \<subseteq>\<^sub>m own2" using d1(5) d2(5) by (rule map_le_trans)
  moreover have "dom own2 - dom own \<subseteq> pool s - pool s2" "pool s - pool s2 \<subseteq> dom own2" "pool s2 \<subseteq> pool s"
    using d1(3,6,9,10) d2(3,6,9,10) by blast+
  ultimately show ?thesis
    using d1(4) d2(1,2,4) unfolding tables_grow_def by simp
qed

lemma link_table_grow:
  assumes "pt_inv own s root" "phys_inv s" "pool_addressable s" "table_flags flags"
    "own p = Some (Suc l, n)" "unat i < 512" "\<not> pte_is_present (load64 (mem s) (slot p i))"
    "kalloc s = (t, s1)" "t \<noteq> 0"
  shows "tables_grow own s root (own(t \<mapsto> (l, 512 * n + unat i))) (link_table flags (slot p i) t s1)"
proof -
  note st = link_table_step [OF assms]
  have "load64 (mem (link_table flags (slot p i) t s1)) (slot q j) = load64 (mem s) (slot q j)"
    if "q \<in> dom own" "unat j < 512" "pte_is_present (load64 (mem s) (slot q j))" for q j
  proof (rule st(6))
    show "page_aligned q" "q \<noteq> t" using that(1) pt_invD(1) [OF assms(1)] st(10) by auto
    show "q \<noteq> p \<or> j \<noteq> i" using that(3) assms(7) by auto
  qed (rule that(2))
  moreover have "mem (link_table flags (slot p i) t s1) a = mem s a"
    if "page_of a \<notin> dom (own(t \<mapsto> (l, 512 * n + unat i)))" for a
    using that st(5) assms(5) by auto
  moreover have "own \<subseteq>\<^sub>m own(t \<mapsto> (l, 512 * n + unat i))"
    using st(10) by (auto simp: map_le_def)
  ultimately show ?thesis
    using st unfolding tables_grow_def by auto
qed

lemma pool_addressable_mono:
  "pool_addressable s \<Longrightarrow> pool s' \<subseteq> pool s \<Longrightarrow> hhdm_offset s' = hhdm_offset s \<Longrightarrow> pool_addressable s'"
  by (auto simp: pool_addressable_def)

lemma walk_alloc:
  assumes "pt_inv own s root" "phys_inv s" "pool_addressable s" "table_flags flags"
    "own p = Some (l, vpn va (Suc l))" "l \<le> 3" "walk_levels flags l p va True s = (a, s')"
  shows "\<exists>own'. tables_grow own s root own' s' \<and> (\<forall>va'. translate s' root va' = translate s root va') \<and>
    (if a = 0 then pool s' = {}
     else \<exists>q. pt_table (mem s') (hhdm_offset s') l p va = Some q \<and> a = slot q (PTE_INDEX_FROM_VA va 0))"
  using assms(1-3,5-7)
proof (induction l arbitrary: own s p)
  case 0
  then have "a \<noteq> 0" using pt_invD(1,2) [OF 0(1) 0(4)] slot_nonzero by auto
  then show ?case using 0 by (intro exI [of _ own]) (auto simp: tables_grow_def)
next
  case (Suc l)
  let ?i = "PTE_INDEX_FROM_VA va (Suc l)" and ?e = "load64 (mem s) (slot p (PTE_INDEX_FROM_VA va (Suc l)))"
  show ?case
  proof (cases "pte_is_present ?e")
    case True
    then have "own (P2V (hhdm_offset s) (pte_follow ?e)) = Some (l, vpn va (Suc l))"
      using pt_inv_next [OF Suc.prems(1,4) _ refl] Suc.prems(5) by simp
    moreover have "walk_levels flags l (P2V (hhdm_offset s) (pte_follow ?e)) va True s = (a, s')"
      using Suc.prems(6) True by (simp add: Let_def)
    ultimately obtain own' where o: "tables_grow own s root own' s'"
      "\<forall>va'. translate s' root va' = translate s root va'"
      "if a = 0 then pool s' = {} else \<exists>q. pt_table (mem s') (hhdm_offset s') l
         (P2V (hhdm_offset s) (pte_follow ?e)) va = Some q \<and> a = slot q (PTE_INDEX_FROM_VA va 0)"
      using Suc.IH [OF Suc.prems(1-3)] Suc.prems(5) by (metis Suc_leD)
    have "load64 (mem s') (slot p ?i) = ?e" "hhdm_offset s' = hhdm_offset s"
      using tables_growD(8) [OF o(1), of p ?i] tables_growD(4) [OF o(1)] True Suc.prems(4) by (simp_all add: domI)
    then show ?thesis using o True by (intro exI [of _ own']) (auto simp: Let_def)
  next
    case False
    obtain t s1 where t: "kalloc s = (t, s1)" by force
    show ?thesis
    proof (cases "t = 0")
      case True
      then have "s1 = s \<and> pool s = {}" using kalloc.alloc_null [OF Suc.prems(2)] t by blast
      then show ?thesis using True False t Suc.prems tables_grow_refl
        by (intro exI [of _ own]) (auto simp: Let_def)
    next
      case nz: False
      let ?s = "link_table flags (slot p ?i) t s1" and ?own = "own(t \<mapsto> (l, vpn va (Suc l)))"
      have idx: "unat ?i < 512" by simp
      have v: "vpn va (Suc l) = 512 * vpn va (Suc (Suc l)) + unat ?i"
        using vpn_step [of "Suc l" va] Suc.prems(5) by simp
      note h = Suc.prems(1-3) assms(4) Suc.prems(4) idx False t nz
      note st = link_table_step [OF h] and gr = link_table_grow [OF h] and tr = link_table_translate [OF h]
      have "walk_levels flags l t va True ?s = (a, s')"
        using Suc.prems(6) False t nz by (simp add: Let_def link_table_def)
      moreover have "?own t = Some (l, vpn va (Suc l))" by simp
      moreover have "pool_addressable ?s" using pool_addressable_mono [OF Suc.prems(3)] st(3,4) by simp
      ultimately obtain own' where o: "tables_grow ?own ?s root own' s'"
        "\<forall>va'. translate s' root va' = translate ?s root va'"
        "if a = 0 then pool s' = {} else \<exists>q. pt_table (mem s') (hhdm_offset s') l t va = Some q \<and>
           a = slot q (PTE_INDEX_FROM_VA va 0)"
        using Suc.IH [of ?own ?s t] st(1,2) v Suc.prems(5) by (metis Suc_leD)
      have "p \<in> dom ?own" using Suc.prems(4) by auto
      then have "load64 (mem s') (slot p ?i) = load64 (mem ?s) (slot p ?i)" "hhdm_offset s' = hhdm_offset s"
        using tables_growD(4,8) [OF o(1)] st(4,8) idx by metis+
      moreover have "tables_grow own s root own' s'"
        using tables_grow_trans gr o(1) v by metis
      ultimately show ?thesis
        using o tr st(8,9) by (intro exI [of _ own']) (auto simp: Let_def)
    qed
  qed
qed

text \<open>A walk takes at most one page for each level below the root, and one that fails found fewer.\<close>

lemma walk_alloc_count:
  assumes "pt_inv own s root" "phys_inv s" "pool_addressable s" "table_flags flags"
    "own p = Some (l, vpn va (Suc l))" "l \<le> 3" "walk_levels flags l p va True s = (a, s')"
  shows "if a = 0 then card (pool s) < l else card (pool s) \<le> card (pool s') + l"
  using assms(1-3,5-7)
proof (induction l arbitrary: own s p)
  case 0
  then have "a \<noteq> 0" using pt_invD(1,2) [OF 0(1) 0(4)] slot_nonzero by auto
  then show ?case using 0 by simp
next
  case (Suc l)
  let ?i = "PTE_INDEX_FROM_VA va (Suc l)" and ?e = "load64 (mem s) (slot p (PTE_INDEX_FROM_VA va (Suc l)))"
  show ?case
  proof (cases "pte_is_present ?e")
    case True
    then have "own (P2V (hhdm_offset s) (pte_follow ?e)) = Some (l, vpn va (Suc l))"
      using pt_inv_next [OF Suc.prems(1,4) _ refl] Suc.prems(5) by simp
    moreover have "walk_levels flags l (P2V (hhdm_offset s) (pte_follow ?e)) va True s = (a, s')"
      using Suc.prems(6) True by (simp add: Let_def)
    ultimately have "if a = 0 then card (pool s) < l else card (pool s) \<le> card (pool s') + l"
      using Suc.IH [OF Suc.prems(1-3)] Suc.prems(5) by (metis Suc_leD)
    then show ?thesis by (auto split: if_splits)
  next
    case False
    obtain t s1 where t: "kalloc s = (t, s1)" by force
    show ?thesis
    proof (cases "t = 0")
      case True
      then have "pool s = {}" using kalloc.alloc_null [OF Suc.prems(2)] t by blast
      then show ?thesis using True False t Suc.prems(6) by (auto simp: Let_def)
    next
      case nz: False
      let ?s = "link_table flags (slot p ?i) t s1" and ?own = "own(t \<mapsto> (l, vpn va (Suc l)))"
      have idx: "unat ?i < 512" by simp
      have v: "vpn va (Suc l) = 512 * vpn va (Suc (Suc l)) + unat ?i"
        using vpn_step [of "Suc l" va] Suc.prems(5) by simp
      note h = Suc.prems(1-3) assms(4) Suc.prems(4) idx False t nz
      note st = link_table_step [OF h]
      have w: "walk_levels flags l t va True ?s = (a, s')"
        using Suc.prems(6) False t nz by (simp add: Let_def link_table_def)
      have ad: "pool_addressable ?s" using pool_addressable_mono [OF Suc.prems(3)] st(3,4) by simp
      have "if a = 0 then card (pool ?s) < l else card (pool ?s) \<le> card (pool s') + l"
        using Suc.IH [of ?own ?s t] st(1,2) v w ad Suc.prems(5) by (metis Suc_leD fun_upd_same)
      moreover have "card (pool s) \<le> Suc (card (pool ?s))" unfolding st(3) by (simp add: card_Diff_singleton_if) arith
      ultimately show ?thesis by (auto split: if_splits)
    qed
  qed
qed

section \<open>Writing a leaf entry\<close>

lemma vpn_table_index: "vpn va 0 = vpn va' 0 \<longleftrightarrow> vpn va 1 = vpn va' 1 \<and> va_index va 0 = va_index va' 0"
proof
  assume "vpn va 0 = vpn va' 0"
  then show "vpn va 1 = vpn va' 1 \<and> va_index va 0 = va_index va' 0"
    using vpn_eq_step [of 0 va va'] by simp
next
  assume "vpn va 1 = vpn va' 1 \<and> va_index va 0 = va_index va' 0"
  then show "vpn va 0 = vpn va' 0" using vpn_step [of 0 va] vpn_step [of 0 va'] by simp
qed

lemma leaf_write:
  fixes v :: u64
  assumes "pt_inv own s root" "phys_inv s" "pt_table (mem s) (hhdm_offset s) 3 root va = Some p"
  defines "s' \<equiv> write_entry (slot p (PTE_INDEX_FROM_VA va 0)) v s"
  shows "pt_inv own s' root" "phys_inv s'" "pool s' = pool s" "hhdm_offset s' = hhdm_offset s"
    "translate s' root va' = (if vpn va' 0 = vpn va 0 then (if pte_is_present v then Some v else None)
       else translate s root va')"
    "page_of a \<notin> dom own \<Longrightarrow> mem s' a = mem s a"
proof -
  let ?i = "PTE_INDEX_FROM_VA va 0"
  have op: "own p = Some (0, vpn va 1)"
    using pt_table_own [OF assms(1) pt_inv_root [OF assms(1)] _ assms(3)] by simp
  note p = pt_invD [OF assms(1) op]
  have m: "mem s' = store64 (mem s) (slot p ?i) v" "s' = s\<lparr>mem := mem s'\<rparr>"
    by (simp_all add: s'_def write_entry_def)
  have fr: "mem s' a = mem s a" if "page_of a \<noteq> p" for a
  proof -
    have "\<not> in_range (slot p ?i) 8 a" using that p(1) page_of_slot [of p ?i a] by auto
    then show ?thesis by (simp add: m(1) store64_outside)
  qed
  then show "page_of a \<notin> dom own \<Longrightarrow> mem s' a = mem s a" using op by (metis domI)
  have "\<And>a. \<not> in_range p 4096 a \<Longrightarrow> mem s' a = mem s a" using fr page_of_eq_iff [OF p(1)] by blast
  then show inv: "phys_inv s'" "pool s' = pool s"
    using mem_write_pool [OF assms(2) p(1,3)] m(2) by metis+
  show h: "hhdm_offset s' = hhdm_offset s" by (simp add: s'_def write_entry_def)
  have other: "load64 (mem s') (slot q j) = load64 (mem s) (slot q j)"
    if "page_aligned q" "unat j < 512" "q \<noteq> p \<or> j \<noteq> ?i" for q j
    unfolding m(1) by (rule entry_other) (use that p(1) in auto)
  have upper: "load64 (mem s') (slot q j) = load64 (mem s) (slot q j)"
    if "own q = Some (Suc k, n)" "unat j < 512" for q j k n
    using that op pt_invD(1) [OF assms(1) that(1)] by (intro other) auto
  show "pt_inv own s' root"
    using assms(1) upper unfolding pt_inv_def inv(2) h by metis
  have tab: "pt_table (mem s') (hhdm_offset s') k q va' = pt_table (mem s) (hhdm_offset s) k q va'"
    if "own q = Some (k, vpn va' (Suc k))" "k \<le> 3" for k q
    using that
  proof (induction k arbitrary: q)
    case (Suc k)
    then show ?case
      using upper [OF Suc.prems(1), of "PTE_INDEX_FROM_VA va' (Suc k)"]
        pt_inv_next [OF assms(1) Suc.prems(1) _ refl] h by (simp add: Let_def)
  qed simp
  then have tr: "translate s' root va' = Option.bind (pt_table (mem s) (hhdm_offset s) 3 root va') (leaf_entry (mem s') va')"
    using pt_inv_root [OF assms(1)] by (simp add: translate_def pt_lookup_def)
  show "translate s' root va' = (if vpn va' 0 = vpn va 0 then (if pte_is_present v then Some v else None)
       else translate s root va')"
  proof (cases "vpn va' 0 = vpn va 0")
    case True
    then have v: "vpn va' 1 = vpn va 1" "va_index va' 0 = va_index va 0"
      using vpn_table_index by blast+
    have "pt_table (mem s) (hhdm_offset s) 3 root va' = Some p" "PTE_INDEX_FROM_VA va' 0 = ?i"
      using assms(3) pt_table_cong [OF v(1), of 3] PTE_INDEX_eq [OF v(2)] by simp_all
    then show ?thesis using True tr by (simp add: leaf_entry_def m(1) Let_def)
  next
    case False
    have "leaf_entry (mem s') va' q = leaf_entry (mem s) va' q"
      if q: "pt_table (mem s) (hhdm_offset s) 3 root va' = Some q" for q
    proof -
      have oq: "own q = Some (0, vpn va' 1)"
        using pt_table_own [OF assms(1) pt_inv_root [OF assms(1)] _ q] by simp
      have "q \<noteq> p \<or> PTE_INDEX_FROM_VA va' 0 \<noteq> ?i"
      proof (rule ccontr)
        assume "\<not> (q \<noteq> p \<or> PTE_INDEX_FROM_VA va' 0 \<noteq> ?i)"
        then have "vpn va' 1 = vpn va 1" "va_index va' 0 = va_index va 0"
          using oq op by (simp, metis unat_PTE_INDEX)
        then show False using False vpn_table_index by blast
      qed
      then show ?thesis using other [of q "PTE_INDEX_FROM_VA va' 0"] pt_invD(1) [OF assms(1) oq]
        by (simp add: leaf_entry_def)
    qed
    then show ?thesis using False tr
      by (cases "pt_table (mem s) (hhdm_offset s) 3 root va'") (simp_all add: translate_def pt_lookup_def)
  qed
qed

section \<open>Mapping pages\<close>

text \<open>One step of the mapping loops: the walk, then the entry.\<close>

lemma pt_table_translate:
  "pt_table (mem s) (hhdm_offset s) 3 root va = Some p \<Longrightarrow>
   translate s root va = (let e = load64 (mem s) (slot p (PTE_INDEX_FROM_VA va 0)) in
     if pte_is_present e then Some e else None)"
  by (simp add: translate_def pt_lookup_def leaf_entry_def)

lemma map_one:
  assumes "pt_inv own s root" "phys_inv s" "pool_addressable s" "table_flags flags"
    "walk_levels flags 3 root va True s = (a, s1)" "a \<noteq> 0" "pte_is_present v"
  defines "s2 \<equiv> write_entry a v s1"
  shows "pte_is_present (load64 (mem s1) a) \<longleftrightarrow> translate s root va \<noteq> None"
    "\<exists>own'. pt_inv own' s2 root \<and> own \<subseteq>\<^sub>m own' \<and> dom own' \<subseteq> dom own \<union> (pool s - pool s2) \<and>
      pool s - pool s2 \<subseteq> dom own' \<and> (\<forall>a. page_of a \<notin> dom own' \<longrightarrow> mem s2 a = mem s a)"
    "phys_inv s2" "pool s2 \<subseteq> pool s" "hhdm_offset s2 = hhdm_offset s"
    "translate s2 root va' = (if vpn va' 0 = vpn va 0 then Some v else translate s root va')" "pool s2 = pool s1"
proof -
  from walk_alloc [OF assms(1-4) pt_inv_root [OF assms(1)] _ assms(5)] assms(6)
  obtain own' q where w: "tables_grow own s root own' s1" "\<And>va'. translate s1 root va' = translate s root va'"
    "pt_table (mem s1) (hhdm_offset s1) 3 root va = Some q" "a = slot q (PTE_INDEX_FROM_VA va 0)"
    by auto
  note g = tables_growD [OF w(1)]
  note lw = leaf_write [OF g(1,2) w(3), where v = v, folded w(4), folded s2_def]
  show "pte_is_present (load64 (mem s1) a) \<longleftrightarrow> translate s root va \<noteq> None"
    using pt_table_translate [OF w(3)] w(2) [of va] w(4) by (auto simp: Let_def)
  show "phys_inv s2" "pool s2 \<subseteq> pool s" "hhdm_offset s2 = hhdm_offset s" using lw(2-4) g(3,4) by auto
  have "mem s2 a = mem s a" if "page_of a \<notin> dom own'" for a
    using lw(6) [OF that] g(7) [OF that] by simp
  then show "\<exists>own'. pt_inv own' s2 root \<and> own \<subseteq>\<^sub>m own' \<and> dom own' \<subseteq> dom own \<union> (pool s - pool s2) \<and>
      pool s - pool s2 \<subseteq> dom own' \<and> (\<forall>a. page_of a \<notin> dom own' \<longrightarrow> mem s2 a = mem s a)"
    using lw(1,3) g(5,9,10) by (intro exI [of _ own']) auto
  show "translate s2 root va' = (if vpn va' 0 = vpn va 0 then Some v else translate s root va')"
    using lw(5) w(2) assms(7) by simp
  show "pool s2 = pool s1" using lw(3) .
qed

section \<open>The mapping loops\<close>

text \<open>
  The three mapping loops of \<^verbatim>\<open>vmm.c\<close> install a list of entries one after the other; \<open>None\<close>
  stands for the remap panic.
\<close>

primrec install :: "u64 \<Rightarrow> u64 \<Rightarrow> (u64 \<times> u64) list \<Rightarrow> kmem \<Rightarrow> (int \<times> kmem) option" where
  "install flags root [] s = Some (0, s)"
| "install flags root (x # xs) s =
     (let (a, s1) = walk_levels flags 3 root (fst x) True s in
      if a = 0 then Some (-1, s1)
      else if pte_is_present (load64 (mem s1) a) then None
      else install flags root xs (write_entry a (snd x) s1))"

definition page_entries :: "(u64 \<times> u64) list \<Rightarrow> nat \<Rightarrow> u64 option" where
  "page_entries xs = map_of (map (\<lambda>(va, e). (vpn va 0, e)) xs)"

definition override :: "(u64 \<times> u64) list \<Rightarrow> (u64 \<Rightarrow> u64 option) \<Rightarrow> u64 \<Rightarrow> u64 option" where
  "override xs f va = (case page_entries xs (vpn va 0) of Some e \<Rightarrow> Some e | None \<Rightarrow> f va)"

definition run_entries :: "u64 \<Rightarrow> (u64 \<Rightarrow> u64) \<Rightarrow> u64 \<Rightarrow> nat \<Rightarrow> (u64 \<times> u64) list" where
  "run_entries va ent i k = map (\<lambda>j. (va + (i + of_nat j) * PAGE_SIZE, ent (i + of_nat j))) [0..<k]"

lemma run_entries_simps [simp]:
  "run_entries va ent i 0 = []"
  "run_entries va ent i (Suc k) = (va + i * PAGE_SIZE, ent i) # run_entries va ent (i + 1) k"
  by (simp_all add: run_entries_def upt_conv_Cons map_Suc_upt [symmetric] comp_def add.assoc del: upt_Suc)

lemma map_loop_install:
  assumes "\<forall>x \<in> set (run_entries va (\<lambda>i. build_pte perm (pa + i * PAGE_SIZE)) i k).
    USERSPACE_VA_MIN \<le> fst x \<and> fst x < USERSPACE_VA_MAX"
  shows "map_loop root va pa perm i k s =
    (case install (PTE_P OR PTE_W OR PTE_U) root (run_entries va (\<lambda>i. build_pte perm (pa + i * PAGE_SIZE)) i k) s of
       None \<Rightarrow> Panic ''vmm_map_pages: remap'' | Some r \<Rightarrow> Ok r)"
  using assms
  by (induction k arbitrary: i s) (auto simp: walk_def not_le not_less Let_def split: prod.split)

lemma map_kernel_loop_install:
  assumes "\<forall>x \<in> set (run_entries va (\<lambda>i. build_kernel_pte perm (pa + i * PAGE_SIZE)) i k). KERNEL_VA_MIN \<le> fst x"
  shows "map_kernel_loop root va pa perm i k s =
    (case install (PTE_P OR PTE_W) root (run_entries va (\<lambda>i. build_kernel_pte perm (pa + i * PAGE_SIZE)) i k) s of
       None \<Rightarrow> Panic ''vmm_map_kernel_pages: remap'' | Some r \<Rightarrow> Ok r)"
  using assms
  by (induction k arbitrary: i s) (auto simp: walk_kernel_def not_le not_less Let_def split: prod.split)

text \<open>
  The result of mapping \<open>xs\<close>: the entries of a prefix of \<open>xs\<close> are installed, all of them when
  the result is 0; otherwise the result is -1 and memory is exhausted: there were fewer than three
  free pages (tables) for each entry. Nothing else is
  translated differently, and only tables and pages taken from the pool are written.
\<close>

definition map_result ::
    "(u64 \<Rightarrow> (nat \<times> nat) option) \<Rightarrow> kmem \<Rightarrow> u64 \<Rightarrow> (u64 \<times> u64) list \<Rightarrow> int \<Rightarrow> kmem \<Rightarrow> bool" where
  "map_result own s root xs r s' \<longleftrightarrow> (\<exists>own' n.
    pt_inv own' s' root \<and> own \<subseteq>\<^sub>m own' \<and> dom own' \<subseteq> dom own \<union> (pool s - pool s') \<and> pool s - pool s' \<subseteq> dom own' \<and>
    (\<forall>a. page_of a \<notin> dom own' \<longrightarrow> mem s' a = mem s a) \<and>
    phys_inv s' \<and> pool s' \<subseteq> pool s \<and> hhdm_offset s' = hhdm_offset s \<and>
    (\<forall>va. translate s' root va = override (take n xs) (translate s root) va) \<and>
    (if r = 0 then n = length xs else r = -1 \<and> n < length xs \<and> pool s' = {} \<and> card (pool s) < 3 * length xs))"

lemma install_spec:
  assumes "pt_inv own s root" "phys_inv s" "pool_addressable s" "table_flags flags"
    "\<forall>x \<in> set xs. pte_is_present (snd x) \<and> translate s root (fst x) = None"
    "distinct (map (\<lambda>x. vpn (fst x) 0) xs)"
  shows "\<exists>r s'. install flags root xs s = Some (r, s') \<and> map_result own s root xs r s'"
  unfolding map_result_def
  using assms(1-3,5,6)
proof (induction xs arbitrary: s own)
  case Nil
  have "override [] f va = f va" for f va by (simp add: override_def page_entries_def)
  then show ?case using Nil by auto
next
  case (Cons x xs)
  obtain va e where x: "x = (va, e)" by (cases x)
  obtain a s1 where w: "walk_levels flags 3 root va True s = (a, s1)" by force
  from walk_alloc [OF Cons.prems(1-3) assms(4) pt_inv_root [OF Cons.prems(1)] _ w] obtain own1 where
    g1: "tables_grow own s root own1 s1" and t1: "\<And>va'. translate s1 root va' = translate s root va'"
    and a1: "a = 0 \<Longrightarrow> pool s1 = {}" by auto
  have cnt: "if a = 0 then card (pool s) < 3 else card (pool s) \<le> card (pool s1) + 3"
    by (rule walk_alloc_count [OF Cons.prems(1-3) assms(4) pt_inv_root [OF Cons.prems(1)] _ w]) simp
  show ?case
  proof (cases "a = 0")
    case True
    show ?thesis
      using True w x a1 t1 cnt tables_growD [OF g1]
      by (intro exI [of _ "-1"] exI [of _ s1] conjI exI [of _ own1] exI [of _ 0])
        (auto simp: override_def page_entries_def)
  next
    case False
    have pe: "pte_is_present e" using Cons.prems(4) x by simp
    let ?s2 = "write_entry a e s1"
    note m = map_one [OF Cons.prems(1-3) assms(4) w False pe]
    from m(2) obtain own2 where o2: "pt_inv own2 ?s2 root" "own \<subseteq>\<^sub>m own2"
      "dom own2 \<subseteq> dom own \<union> (pool s - pool ?s2)" "pool s - pool ?s2 \<subseteq> dom own2"
      "\<forall>a. page_of a \<notin> dom own2 \<longrightarrow> mem ?s2 a = mem s a" by blast
    have none: "\<not> pte_is_present (load64 (mem s1) a)" using m(1) Cons.prems(4) x by simp
    have "pool_addressable ?s2" using pool_addressable_mono [OF Cons.prems(3) m(4,5)] .
    moreover have "\<forall>x \<in> set xs. pte_is_present (snd x) \<and> translate ?s2 root (fst x) = None"
    proof
      fix y assume y: "y \<in> set xs"
      then have "vpn (fst y) 0 \<noteq> vpn va 0" using Cons.prems(5) x by force
      then show "pte_is_present (snd y) \<and> translate ?s2 root (fst y) = None"
        using m(6) Cons.prems(4) y by simp
    qed
    ultimately obtain r s' own' n where IH: "install flags root xs ?s2 = Some (r, s')"
      "pt_inv own' s' root" "own2 \<subseteq>\<^sub>m own'" "dom own' \<subseteq> dom own2 \<union> (pool ?s2 - pool s')"
      "pool ?s2 - pool s' \<subseteq> dom own'"
      "\<forall>a. page_of a \<notin> dom own' \<longrightarrow> mem s' a = mem ?s2 a" "phys_inv s'" "pool s' \<subseteq> pool ?s2"
      "hhdm_offset s' = hhdm_offset ?s2"
      "\<forall>va. translate s' root va = override (take n xs) (translate ?s2 root) va"
      "if r = 0 then n = length xs else r = -1 \<and> n < length xs \<and> pool s' = {} \<and> card (pool ?s2) < 3 * length xs"
      using Cons.IH [OF o2(1) m(3)] Cons.prems(5) by auto
    have d: "dom own2 \<subseteq> dom own'" using IH(3) map_le_implies_dom_le by blast
    have tr: "translate s' root va' = override (take (Suc n) (x # xs)) (translate s root) va'" for va'
    proof -
      have "page_entries (take n xs) (vpn va 0) = None"
        using Cons.prems(5) x set_take_subset [of n xs]
        by (force simp: page_entries_def map_of_eq_None_iff)
      then show ?thesis
        using IH(10) m(6) [of va'] x by (auto simp: override_def page_entries_def split: option.splits)
    qed
    have "install flags root (x # xs) s = Some (r, s')" using x w False none IH(1) by simp
    moreover have "\<forall>a. page_of a \<notin> dom own' \<longrightarrow> mem s' a = mem s a" using IH(6) o2(5) d by (metis subsetD)
    moreover have "own \<subseteq>\<^sub>m own'" using o2(2) IH(3) by (rule map_le_trans)
    moreover have "dom own' \<subseteq> dom own \<union> (pool s - pool s')" "pool s - pool s' \<subseteq> dom own'" "pool s' \<subseteq> pool s"
      using o2(3,4) IH(4,5,8) d m(4) by blast+
    ultimately show ?thesis
      using IH(2,7,9,11) m(5,7) tr cnt False
      by (intro exI [of _ r] exI [of _ s'] conjI exI [of _ own'] exI [of _ "Suc n"]) auto
  qed
qed

end
