(* ===== verification/User_Space.thy ===== *)
theory User_Space
  imports Paging
begin

text \<open>
  The address-space operations of \<^verbatim>\<open>vmm.c\<close> on top of the walk: creating and freeing the
  table of a user program, \<^verbatim>\<open>sbrk\<close>, copying into another address space, kernel stacks and
  the checks of user pointers. A loop that need not end is a partial function: \<open>None\<close> means
  that it does not return.
\<close>

section \<open>Copying and freeing tables\<close>

text \<open>The loop of \<^verbatim>\<open>copy_pagetable\<close>; the first argument is the call for the level below.\<close>

primrec copy_loop ::
    "(u64 \<Rightarrow> u64 \<Rightarrow> kmem \<Rightarrow> (int \<times> kmem) outcome) \<Rightarrow> u64 \<Rightarrow> u64 \<Rightarrow> nat list \<Rightarrow> kmem \<Rightarrow>
     (int \<times> kmem) outcome" where
  "copy_loop inner dst src [] s = Ok (0, s)"
| "copy_loop inner dst src (i # is) s =
     (let pte_src = load64 (mem s) (slot src (of_nat i)) in
      if pte_is_present pte_src \<and> \<not> pte_is_huge pte_src then
        let (dst_inner, s1) = kalloc s in
        if dst_inner = 0 then Ok (1, s1)
        else
          let s2 = s1\<lparr>mem := memset (mem s1) dst_inner 0 (unat PAGE_SIZE)\<rparr>;
              src_inner = P2V (hhdm_offset s2) (pte_follow pte_src)
          in obind (inner dst_inner src_inner s2) (\<lambda>(r, s3).
               if r \<noteq> 0 then obind (kfree dst_inner s3) (\<lambda>s4. Ok (1, s4))
               else
                 let e = PTE_P OR PTE_SET_ADDR (V2P (hhdm_offset s3) dst_inner);
                     e = (if pte_is_writable pte_src then e OR PTE_W else e);
                     e = (if pte_is_user pte_src then e OR PTE_U else e);
                     e = (if pte_src AND PTE_XD \<noteq> 0 then e OR PTE_XD else e)
                 in copy_loop inner dst src is (write_entry (slot dst (of_nat i)) e s3))
      else copy_loop inner dst src is s)"

primrec copy_pagetable :: "nat \<Rightarrow> u64 \<Rightarrow> u64 \<Rightarrow> kmem \<Rightarrow> (int \<times> kmem) outcome" where
  "copy_pagetable 0 dst src s = Ok (0, s\<lparr>mem := memcpy (mem s) dst src (unat PAGE_SIZE)\<rparr>)"
| "copy_pagetable (Suc level) dst src s =
     copy_loop (copy_pagetable level) dst src [0..<512]
       (s\<lparr>mem := memcpy (mem s) dst src (unat PAGE_SIZE)\<rparr>)"

text \<open>The \<^verbatim>\<open>failed\<close> label of \<^verbatim>\<open>vmm_user_pagetable_new\<close>: give back the blocks that were taken.\<close>

primrec release_blocks :: "(u64 \<times> u64) list \<Rightarrow> kmem \<Rightarrow> kmem outcome" where
  "release_blocks [] s = Ok s"
| "release_blocks (b # bs) s =
     (if fst b \<noteq> 0 then obind (kfree_pages (fst b) (snd b) s) (release_blocks bs)
      else release_blocks bs s)"

definition map_stacks :: "u64 \<Rightarrow> u64 \<Rightarrow> u64 \<Rightarrow> u64 \<Rightarrow> kmem \<Rightarrow> kmem outcome" where
  "map_stacks pagetable user_stack int_stack syscall_stack s =
     obind (vmm_map_pages pagetable USER_STACK_BOTTOM USER_STACK_SIZE (V2P (hhdm_offset s) user_stack)
         \<lparr>writable = True, executable = False, userspace = True\<rparr> s) (\<lambda>(_, s1).
     obind (vmm_map_pages pagetable INTSTACK_VIRTUAL_ADDRESS_BOTTOM INTSTACK_SIZE
         (V2P (hhdm_offset s1) int_stack)
         \<lparr>writable = True, executable = False, userspace = False\<rparr> s1) (\<lambda>(_, s2).
     obind (vmm_map_pages pagetable SYSCALLSTACK_VIRTUAL_ADDRESS_BOTTOM SYSCALLSTACK_SIZE
         (V2P (hhdm_offset s2) syscall_stack)
         \<lparr>writable = True, executable = False, userspace = False\<rparr> s2) (\<lambda>(_, s3). Ok s3)))"

definition vmm_user_pagetable_new :: "vmm \<Rightarrow> (u64 \<times> vmm) outcome option" where
  "vmm_user_pagetable_new v =
     (let (pagetable, s0) = kcalloc (km v);
          user_pages = USER_STACK_SIZE div PAGE_SIZE;
          int_pages = INTSTACK_SIZE div PAGE_SIZE;
          syscall_pages = SYSCALLSTACK_SIZE div PAGE_SIZE;
          failed = (\<lambda>us is ss s. Some (obind (release_blocks [(us, user_pages), (is, int_pages), (ss, syscall_pages)] s)
             (\<lambda>s'. Ok (0, v\<lparr>km := s'\<rparr>))))
      in
      if pagetable = 0 then Some (Ok (0, v\<lparr>km := s0\<rparr>))
      else
        case copy_pagetable 3 pagetable (kernel_pagetable v)
               (s0\<lparr>mem := memset (mem s0) pagetable 0 (unat PAGE_SIZE)\<rparr>) of
          Panic e \<Rightarrow> Some (Panic e)
        | Ok (r, s1) \<Rightarrow>
            if r \<noteq> 0 then Some (Ok (0, v\<lparr>km := s1\<rparr>))
            else Option.bind (kalloc_pages user_pages s1) (\<lambda>(user_stack, s2).
              if user_stack = 0 then failed 0 0 0 s2
              else Option.bind (kalloc_pages int_pages s2) (\<lambda>(int_stack, s3).
                if int_stack = 0 then failed user_stack 0 0 s3
                else Option.bind (kalloc_pages syscall_pages s3) (\<lambda>(syscall_stack, s4).
                  if syscall_stack = 0 then failed user_stack int_stack 0 s4
                  else Some (obind (map_stacks pagetable user_stack int_stack syscall_stack s4)
                    (\<lambda>s5. Ok (pagetable, v\<lparr>km := s5\<rparr>)))))))"

text \<open>A loop over the 512 entries of a table that stops only when a call panics.\<close>

primrec ofold :: "('a \<Rightarrow> 's \<Rightarrow> 's outcome) \<Rightarrow> 'a list \<Rightarrow> 's \<Rightarrow> 's outcome" where
  "ofold f [] s = Ok s"
| "ofold f (x # xs) s = obind (f x s) (ofold f xs)"

definition free_leaf :: "u64 \<Rightarrow> nat \<Rightarrow> kmem \<Rightarrow> kmem outcome" where
  "free_leaf pagetable i s =
     (let leaf_pte = load64 (mem s) (slot pagetable (of_nat i)) in
      if \<not> pte_is_present leaf_pte then Ok s
      else
        let frame_pa = pte_follow leaf_pte in
        obind (if phys_addr_valid s frame_pa then kfree (P2V (hhdm_offset s) frame_pa) s else Ok s)
          (\<lambda>s1. Ok (write_entry (slot pagetable (of_nat i)) 0 s1)))"

definition free_entry :: "(u64 \<Rightarrow> u64 \<Rightarrow> kmem \<Rightarrow> kmem outcome) \<Rightarrow> nat \<Rightarrow> u64 \<Rightarrow> u64 \<Rightarrow> nat \<Rightarrow> kmem \<Rightarrow> kmem outcome"
  where
  "free_entry inner level pagetable initial_va i s =
     (let pte = load64 (mem s) (slot pagetable (of_nat i));
          low = initial_va OR push_bit (level * 9 + 12) (of_nat i);
          high = initial_va OR push_bit (level * 9 + 12) (of_nat i + 1);
          child_pa = pte_follow pte in
      if \<not> pte_is_present pte then Ok s
      else if (high \<ge> USERSPACE_VA_MAX \<and> low \<ge> USERSPACE_VA_MAX) \<or>
              (high < USERSPACE_VA_MIN \<and> low < USERSPACE_VA_MIN) then Ok s
      else if pte_is_huge pte then Ok s
      else if \<not> phys_addr_valid s child_pa then Ok (write_entry (slot pagetable (of_nat i)) 0 s)
      else obind (inner (P2V (hhdm_offset s) child_pa) low s)
             (\<lambda>s1. Ok (write_entry (slot pagetable (of_nat i)) 0 s1)))"

primrec vmm_user_pagetable_free_recursive :: "nat \<Rightarrow> u64 \<Rightarrow> u64 \<Rightarrow> kmem \<Rightarrow> kmem outcome" where
  "vmm_user_pagetable_free_recursive 0 pagetable initial_va s =
     obind (ofold (free_leaf pagetable) [0..<512] s) (kfree pagetable)"
| "vmm_user_pagetable_free_recursive (Suc l) pagetable initial_va s =
     obind (ofold (free_entry (vmm_user_pagetable_free_recursive l) (Suc l) pagetable initial_va) [0..<512] s)
       (kfree pagetable)"

definition vmm_user_pagetable_free :: "u64 \<Rightarrow> kmem \<Rightarrow> kmem outcome" where
  "vmm_user_pagetable_free pagetable s = vmm_user_pagetable_free_recursive 3 pagetable 0 s"

section \<open>\<^verbatim>\<open>sbrk\<close>\<close>

partial_function (option) sbrk_allocate_loop :: "u64 \<Rightarrow> u64 \<Rightarrow> u64 \<Rightarrow> kmem \<Rightarrow> kmem outcome option" where
  "sbrk_allocate_loop pagetable cur new_sbrk s =
     (if \<not> cur < new_sbrk then Some (Ok s)
      else case vmm_allocate pagetable cur PAGE_SIZE
                  \<lparr>writable = True, executable = False, userspace = True\<rparr> True s of
          Panic e \<Rightarrow> Some (Panic e)
        | Ok (r, s1) \<Rightarrow>
            if r < 0 then Some (Panic ''sbrk: OOM'')
            else sbrk_allocate_loop pagetable (cur + PAGE_SIZE) new_sbrk s1)"

definition vmm_user_sbrk_allocate :: "u64 \<Rightarrow> u64 \<Rightarrow> u64 \<Rightarrow> kmem \<Rightarrow> (u64 \<times> kmem) outcome option" where
  "vmm_user_sbrk_allocate pagetable old_sbrk delta s =
     (let new_sbrk = old_sbrk + delta in
      map_option (\<lambda>r. obind r (\<lambda>s1. Ok (new_sbrk, s1)))
        (sbrk_allocate_loop pagetable (PAGE_ROUND_UP old_sbrk) new_sbrk s))"

partial_function (option) sbrk_deallocate_loop :: "u64 \<Rightarrow> u64 \<Rightarrow> u64 \<Rightarrow> kmem \<Rightarrow> kmem outcome option" where
  "sbrk_deallocate_loop pagetable cur new_sbrk s =
     (if \<not> cur > new_sbrk then Some (Ok s)
      else case walk pagetable cur False False s of
          Panic e \<Rightarrow> Some (Panic e)
        | Ok (pte, s1) \<Rightarrow>
            if pte = 0 then Some (Panic ''vmm_user_sbrk_deallocate: non-existant page'')
            else
              let pa = pte_follow (load64 (mem s1) pte) in
              case kfree (P2V (hhdm_offset s1) pa) (write_entry pte 0 s1) of
                Panic e \<Rightarrow> Some (Panic e)
              | Ok s2 \<Rightarrow> sbrk_deallocate_loop pagetable (cur - PAGE_SIZE) new_sbrk s2)"

definition vmm_user_sbrk_deallocate :: "u64 \<Rightarrow> u64 \<Rightarrow> u64 \<Rightarrow> kmem \<Rightarrow> (u64 \<times> kmem) outcome option" where
  "vmm_user_sbrk_deallocate pagetable old_sbrk delta s =
     (let new_sbrk = old_sbrk - delta in
      map_option (\<lambda>r. obind r (\<lambda>s1. Ok (new_sbrk, s1)))
        (sbrk_deallocate_loop pagetable (PAGE_ROUND_DOWN old_sbrk) new_sbrk s))"

section \<open>Copying into an address space\<close>

partial_function (option) vmm_memcpy ::
    "u64 \<Rightarrow> u64 \<Rightarrow> u64 \<Rightarrow> u64 \<Rightarrow> bool \<Rightarrow> kmem \<Rightarrow> (int \<times> kmem) outcome option" where
  "vmm_memcpy pagetable dst source len user s =
     (if \<not> len > 0 then Some (Ok (0, s))
      else
        let va0 = PAGE_ROUND_DOWN dst in
        if va0 \<ge> USERSPACE_VA_MAX \<or> va0 < USERSPACE_VA_MIN then Some (Ok (-1, s))
        else case walk pagetable va0 False False s of
            Panic e \<Rightarrow> Some (Panic e)
          | Ok (pte, s1) \<Rightarrow>
              let entry = load64 (mem s1) pte in
              if pte = 0 \<or> \<not> pte_is_present entry \<or> pte_is_user entry \<noteq> user \<or> \<not> pte_is_writable entry
                then Some (Ok (-1, s1))
              else
                let pa0 = P2V (hhdm_offset s1) (pte_follow entry);
                    n = PAGE_SIZE - (dst - va0);
                    n = (if n > len then len else n)
                in vmm_memcpy pagetable (va0 + PAGE_SIZE) (source + n) (len - n) user
                     (s1\<lparr>mem := memmove (mem s1) (pa0 + (dst - va0)) source (unat n)\<rparr>))"

text \<open>\<^verbatim>\<open>zero_buffer\<close> is the address of the page-sized array on the kernel stack.\<close>

partial_function (option) zero_loop ::
    "u64 \<Rightarrow> u64 \<Rightarrow> u64 \<Rightarrow> u64 \<Rightarrow> kmem \<Rightarrow> (int \<times> kmem) outcome option" where
  "zero_loop pagetable zero_buffer vaddr stop s =
     (if \<not> vaddr < stop then Some (Ok (0, s))
      else
        let to_write = (if stop - vaddr > PAGE_SIZE then PAGE_SIZE else stop - vaddr) in
        case vmm_memcpy pagetable vaddr zero_buffer to_write True s of
          None \<Rightarrow> None
        | Some (Panic e) \<Rightarrow> Some (Panic e)
        | Some (Ok (r, s1)) \<Rightarrow>
            if r < 0 then Some (Ok (-1, s1))
            else zero_loop pagetable zero_buffer (vaddr + to_write) stop s1)"

definition vmm_zero :: "u64 \<Rightarrow> u64 \<Rightarrow> u64 \<Rightarrow> u64 \<Rightarrow> kmem \<Rightarrow> (int \<times> kmem) outcome option" where
  "vmm_zero zero_buffer pagetable vaddr len s =
     zero_loop pagetable zero_buffer vaddr (vaddr + len)
       (s\<lparr>mem := filled (mem s) zero_buffer 0 (unat PAGE_SIZE)\<rparr>)"

section \<open>Kernel stacks\<close>

partial_function (option) stack_pages_loop :: "u64 \<Rightarrow> u64 \<Rightarrow> u64 \<Rightarrow> kmem \<Rightarrow> kmem outcome option" where
  "stack_pages_loop pagetable stack_va remaining s =
     (if remaining = 0 then Some (Ok s)
      else
        let (proc_page, s1) = kalloc_for_page_cache s in
        if proc_page = 0 then Some (Panic ''vmm_allocate_proc_kernel_stack: out of memory for stack pages'')
        else case vmm_map_kernel_pages pagetable (stack_va + (KERNEL_STACK_SIZE - remaining))
                    (V2P (hhdm_offset s1) proc_page) PAGE_SIZE
                    \<lparr>writable = True, executable = False, userspace = False\<rparr> s1 of
            Panic e \<Rightarrow> Some (Panic e)
          | Ok (r, s2) \<Rightarrow>
              if r < 0 then Some (Panic ''vmm_allocate_proc_kernel_stack: failed to map stack page'')
              else stack_pages_loop pagetable stack_va (remaining - PAGE_SIZE) s2)"

definition vmm_allocate_proc_kernel_stack :: "u64 \<Rightarrow> vmm \<Rightarrow> (u64 \<times> vmm) outcome option" where
  "vmm_allocate_proc_kernel_stack i v =
     (let kernel_va = KERNEL_STACK_BASE + i * KERNEL_STACK_TOTAL_SIZE;
          stack_va = kernel_va + KERNEL_STACK_GUARD_SIZE in
      case walk_kernel (kernel_pagetable v) kernel_va True (km v) of
        Panic e \<Rightarrow> Some (Panic e)
      | Ok (guard_pte, s1) \<Rightarrow>
          if guard_pte = 0 then Some (Panic ''vmm_allocate_proc_kernel_stack: failed to allocate guard page PTE'')
          else
            let (guard_page, s2) = kalloc_for_page_cache s1 in
            if guard_page = 0 then Some (Panic ''vmm_allocate_proc_kernel_stack: out of memory for guard page'')
            else
              map_option (\<lambda>r. obind r (\<lambda>s4. Ok (stack_va + KERNEL_STACK_SIZE, v\<lparr>km := s4\<rparr>)))
                (stack_pages_loop (kernel_pagetable v) stack_va KERNEL_STACK_SIZE
                   (write_entry guard_pte (PTE_SET_ADDR (V2P (hhdm_offset s2) guard_page)) s2)))"

partial_function (option) free_stack_loop :: "u64 \<Rightarrow> u64 \<Rightarrow> u64 \<Rightarrow> kmem \<Rightarrow> kmem outcome option" where
  "free_stack_loop pagetable stack_va remaining s =
     (if remaining = 0 then Some (Ok s)
      else
        let va = stack_va + (KERNEL_STACK_SIZE - remaining) in
        case walk_kernel pagetable va False s of
          Panic e \<Rightarrow> Some (Panic e)
        | Ok (pte, s1) \<Rightarrow>
            if pte = 0 \<or> \<not> pte_is_present (load64 (mem s1) pte)
              then Some (Panic ''vmm_free_proc_kernel_stack: missing PTE for stack page'')
            else
              let pa = pte_follow (load64 (mem s1) pte) in
              case kfree (P2V (hhdm_offset s1) pa) (write_entry pte 0 s1) of
                Panic e \<Rightarrow> Some (Panic e)
              | Ok s2 \<Rightarrow> free_stack_loop pagetable stack_va (remaining - PAGE_SIZE) s2)"

definition vmm_free_proc_kernel_stack :: "u64 \<Rightarrow> vmm \<Rightarrow> vmm outcome option" where
  "vmm_free_proc_kernel_stack i v =
     (let kernel_va = KERNEL_STACK_BASE + i * KERNEL_STACK_TOTAL_SIZE;
          stack_va = kernel_va + KERNEL_STACK_GUARD_SIZE in
      case obind (walk_kernel (kernel_pagetable v) kernel_va False (km v)) (\<lambda>(guard_pte, s1).
             if guard_pte = 0 then Ok s1
             else kfree (P2V (hhdm_offset s1) (pte_follow (load64 (mem s1) guard_pte)))
                    (write_entry guard_pte 0 s1)) of
        Panic e \<Rightarrow> Some (Panic e)
      | Ok s2 \<Rightarrow>
          map_option (\<lambda>r. obind r (\<lambda>s3. Ok (v\<lparr>km := s3\<rparr>)))
            (free_stack_loop (kernel_pagetable v) stack_va KERNEL_STACK_SIZE s2))"

section \<open>Checking user pointers\<close>

definition page_access :: "u64 \<Rightarrow> u64 \<Rightarrow> bool \<Rightarrow> kmem \<Rightarrow> bool outcome" where
  "page_access pagetable va writable_ptr s =
     obind (walk pagetable va False False s) (\<lambda>(pte, s1).
       let entry = load64 (mem s1) pte in
       if pte = 0 then Ok False
       else if \<not> pte_is_present entry then Ok False
       else if \<not> pte_is_user entry then Ok False
       else if writable_ptr \<and> \<not> pte_is_writable entry then Ok False
       else Ok True)"

partial_function (option) validate_loop :: "u64 \<Rightarrow> u64 \<Rightarrow> u64 \<Rightarrow> bool \<Rightarrow> kmem \<Rightarrow> bool outcome option" where
  "validate_loop pagetable va page_end writable_ptr s =
     (if \<not> va < page_end then Some (Ok True)
      else case page_access pagetable va writable_ptr s of
          Panic e \<Rightarrow> Some (Panic e)
        | Ok ok \<Rightarrow>
            if \<not> ok then Some (Ok False)
            else validate_loop pagetable (va + PAGE_SIZE) page_end writable_ptr s)"

definition vmm_validate_user_ptr :: "u64 \<Rightarrow> u64 \<Rightarrow> u64 \<Rightarrow> bool \<Rightarrow> kmem \<Rightarrow> bool outcome option" where
  "vmm_validate_user_ptr pagetable ptr len writable_ptr s =
     (let start = ptr; stop = start + len in
      if ptr = 0 \<or> len = 0 then Some (Ok False)
      else if stop < start then Some (Ok False)
      else if start \<ge> USERSPACE_VA_MAX \<or> stop > USERSPACE_VA_MAX then Some (Ok False)
      else if start < USERSPACE_VA_MIN then Some (Ok False)
      else validate_loop pagetable (PAGE_ROUND_DOWN start) (PAGE_ROUND_UP stop) writable_ptr s)"

partial_function (option) copy_string_loop ::
    "u64 \<Rightarrow> u64 \<Rightarrow> u64 \<Rightarrow> u64 \<Rightarrow> u64 \<Rightarrow> u64 \<Rightarrow> bool \<Rightarrow> kmem \<Rightarrow> (int \<times> kmem) outcome option" where
  "copy_string_loop pagetable user_addr kernel_buf max_len ncopied current_page valid s =
     (if \<not> ncopied < max_len - 1 then
        Some (Ok (-1, s\<lparr>mem := (mem s)(kernel_buf + (max_len - 1) := 0)\<rparr>))
      else
        let va = user_addr + ncopied;
            valid' = (if PAGE_ROUND_DOWN va \<noteq> current_page then False else valid);
            page' = (if PAGE_ROUND_DOWN va \<noteq> current_page then PAGE_ROUND_DOWN va else current_page)
        in case (if valid' then Ok True else page_access pagetable page' False s) of
             Panic e \<Rightarrow> Some (Panic e)
           | Ok ok \<Rightarrow>
               if \<not> ok then Some (Ok (-1, s))
               else case vmm_walkaddr pagetable va True s of
                   Panic e \<Rightarrow> Some (Panic e)
                 | Ok pa \<Rightarrow>
                     if pa = 0 then Some (Ok (-1, s))
                     else
                       let c = mem s (P2V (hhdm_offset s) pa);
                           s1 = s\<lparr>mem := (mem s)(kernel_buf + ncopied := c)\<rparr>
                       in if c = 0 then Some (Ok (sint (ucast ncopied :: 32 word), s1))
                          else copy_string_loop pagetable user_addr kernel_buf max_len (ncopied + 1) page' True s1)"

definition vmm_copy_user_string :: "u64 \<Rightarrow> u64 \<Rightarrow> u64 \<Rightarrow> u64 \<Rightarrow> kmem \<Rightarrow> (int \<times> kmem) outcome option" where
  "vmm_copy_user_string pagetable user_str kernel_buf max_len s =
     (if user_str = 0 \<or> kernel_buf = 0 \<or> max_len = 0 then Some (Ok (-1, s))
      else if user_str \<ge> USERSPACE_VA_MAX \<or> user_str < USERSPACE_VA_MIN then Some (Ok (-1, s))
      else copy_string_loop pagetable user_str kernel_buf max_len 0 (PAGE_ROUND_DOWN user_str) False s)"

end
