(* ===== verification/Page_Alloc.thy ===== *)
theory Page_Alloc
  imports Page_Maps User_Space
begin

text \<open>
  What \<^verbatim>\<open>vmm_map_pages\<close> and \<^verbatim>\<open>vmm_allocate\<close> do to the translation of an address space:
  runs of consecutive user pages, the bits of the entries they build, and the results of
  the two loops, successful or out of memory.
\<close>

section \<open>Runs of user pages\<close>

definition user_run :: "u64 \<Rightarrow> nat \<Rightarrow> bool" where
  "user_run va k \<longleftrightarrow> page_aligned va \<and> USERSPACE_VA_MIN \<le> va \<and> unat va + 4096 * k \<le> 2 ^ 46"

lemma vpn_low: "unat va < 2 ^ 48 \<Longrightarrow> vpn va 0 = unat va div 4096"
  by (simp add: vpn_def)

lemma user_run_unat:
  assumes "user_run va k" "j < k"
  shows "unat (va + of_nat j * PAGE_SIZE) = unat va + 4096 * j"
    "vpn (va + of_nat j * PAGE_SIZE) 0 = unat va div 4096 + j"
    "USERSPACE_VA_MIN \<le> va + of_nat j * PAGE_SIZE" "va + of_nat j * PAGE_SIZE < USERSPACE_VA_MAX"
proof -
  have u: "unat va + 4096 * j < 2 ^ 46" using assms by (simp add: user_run_def)
  have j: "unat (of_nat j * PAGE_SIZE) = 4096 * j"
    using u by (simp add: PAGE_SIZE_def unat_word_ariths unat_of_nat mult.commute)
  show e: "unat (va + of_nat j * PAGE_SIZE) = unat va + 4096 * j"
    using u j by (simp add: unat_word_ariths(1))
  obtain n where "unat va = 4096 * n" using assms(1) page_aligned_obtain unfolding user_run_def by metis
  then show "vpn (va + of_nat j * PAGE_SIZE) 0 = unat va div 4096 + j"
    using u e by (subst vpn_low) simp_all
  show "USERSPACE_VA_MIN \<le> va + of_nat j * PAGE_SIZE" "va + of_nat j * PAGE_SIZE < USERSPACE_VA_MAX"
    using assms(1) u e by (simp_all add: user_run_def USERSPACE_VA_MIN_def USERSPACE_VA_MAX_def
        word_le_nat_alt word_less_nat_alt)
qed

lemma user_run_entries:
  assumes "user_run va k"
  shows "\<forall>x \<in> set (run_entries va ent 0 k). USERSPACE_VA_MIN \<le> fst x \<and> fst x < USERSPACE_VA_MAX"
    "distinct (map (\<lambda>x. vpn (fst x) 0) (run_entries va ent 0 k))"
    "page_entries (run_entries va ent 0 k) n =
       (if unat va div 4096 \<le> n \<and> n < unat va div 4096 + k then Some (ent (of_nat (n - unat va div 4096))) else None)"
proof -
  show "\<forall>x \<in> set (run_entries va ent 0 k). USERSPACE_VA_MIN \<le> fst x \<and> fst x < USERSPACE_VA_MAX"
    using user_run_unat(3,4) [OF assms] by (auto simp: run_entries_def)
  have "map (\<lambda>x. vpn (fst x) 0) (run_entries va ent 0 k) = map (\<lambda>j. unat va div 4096 + j) [0..<k]"
    using user_run_unat(2) [OF assms] by (simp add: run_entries_def)
  then show "distinct (map (\<lambda>x. vpn (fst x) 0) (run_entries va ent 0 k))"
    by (simp add: distinct_map inj_on_def)
  let ?b = "unat va div 4096"
  have "page_entries (run_entries va ent 0 k) = map_of (map (\<lambda>j. (?b + j, ent (of_nat j))) [0..<k])"
    using user_run_unat(2) [OF assms] unfolding page_entries_def run_entries_def
    by (intro arg_cong [of _ _ map_of]) simp
  moreover have "map_of (map (\<lambda>j. (b + j, ent (of_nat j))) [0..<k]) n =
      (if b \<le> n \<and> n < b + k then Some (ent (of_nat (n - b))) else None)" for b
    by (induction k) (auto simp: map_add_def not_less)
  ultimately show "page_entries (run_entries va ent 0 k) n =
       (if ?b \<le> n \<and> n < ?b + k then Some (ent (of_nat (n - ?b))) else None)" by simp
qed

lemma pte_exp: "PTE_P = 2 ^ 0" "PTE_W = 2 ^ 1" "PTE_U = 2 ^ 2" "PTE_XD = 2 ^ 63"
  "PTE_ADDR_MASK = push_bit 12 (mask 40)"
  by (simp_all add: PTE_P_def PTE_W_def PTE_U_def PTE_XD_def PTE_ADDR_MASK_def mask_eq_exp_minus_1)

lemma bit_SET_ADDR: "bit (PTE_SET_ADDR pa) n \<longleftrightarrow> bit pa n \<and> 12 \<le> n \<and> n < 52"
  unfolding PTE_SET_ADDR_def pte_exp by (auto simp: bit_simps dest: bit_imp_le_length)

lemma bit_PTE: "bit PTE_P n \<longleftrightarrow> n = 0" "bit PTE_W n \<longleftrightarrow> n = 1" "bit PTE_U n \<longleftrightarrow> n = 2" "bit PTE_XD n \<longleftrightarrow> n = 63"
  by (simp_all only: pte_exp bit_exp_iff) auto

lemma bit_build_pte:
  "bit (build_pte perm pa) n \<longleftrightarrow> n = 0 \<or> bit (PTE_SET_ADDR pa) n \<or> n = 1 \<and> writable perm \<or>
     n = 63 \<and> \<not> executable perm \<or> n = 2 \<and> userspace perm"
  by (auto simp: build_pte_def Let_def bit_or_iff bit_PTE)

lemma build_pte_bits:
  "pte_is_present (build_pte perm pa)" "pte_is_writable (build_pte perm pa) \<longleftrightarrow> writable perm"
  "pte_is_user (build_pte perm pa) \<longleftrightarrow> userspace perm"
  "pte_follow (build_pte perm pa) = PTE_SET_ADDR pa"
proof -
  show "pte_is_present (build_pte perm pa)" "pte_is_writable (build_pte perm pa) \<longleftrightarrow> writable perm"
    "pte_is_user (build_pte perm pa) \<longleftrightarrow> userspace perm"
    by (simp_all only: pte_bits bit_build_pte bit_SET_ADDR) simp_all
  show "pte_follow (build_pte perm pa) = PTE_SET_ADDR pa"
    by (rule bit_word_eqI) (auto simp: pte_follow_def pte_exp(5) bit_and_iff bit_build_pte bit_SET_ADDR bit_simps)
qed

section \<open>Reading translations\<close>

lemma walk_read:
  assumes "pt_inv own s root" "USERSPACE_VA_MIN \<le> va" "va < USERSPACE_VA_MAX"
  obtains pte where "walk root va False False s = Ok (pte, s)"
    "translate s root va = (if pte = 0 \<or> \<not> pte_is_present (load64 (mem s) pte) then None else Some (load64 (mem s) pte))"
proof (cases "pt_table (mem s) (hhdm_offset s) 3 root va")
  case None
  then have "walk root va False False s = Ok (0, s)" "translate s root va = None"
    using assms(2,3) by (simp_all add: walk_def walk_noalloc translate_def pt_lookup_def not_le not_less)
  then show ?thesis using that by simp
next
  case (Some p)
  let ?pte = "slot p (PTE_INDEX_FROM_VA va 0)"
  have "own p = Some (0, vpn va 1)"
    using pt_table_own [OF assms(1) pt_inv_root [OF assms(1)] _ Some] by simp
  then have "?pte \<noteq> 0" using pt_invD(1,2) [OF assms(1)] slot_nonzero by simp
  moreover have "walk root va False False s = Ok (?pte, s)"
    using assms(2,3) Some by (simp add: walk_def walk_noalloc not_le not_less)
  ultimately show ?thesis using that pt_table_translate [OF Some] by (auto simp: Let_def)
qed

lemma map_pages_run:
  assumes "pt_inv own s root" "phys_inv s" "pool_addressable s"
    "page_aligned pa" "sz mod PAGE_SIZE = 0" "sz \<noteq> 0" "user_run va (unat sz div 4096)"
    "\<forall>j < unat sz div 4096. translate s root (va + of_nat j * PAGE_SIZE) = None"
  shows "\<exists>r s'. vmm_map_pages root va sz pa perm s = Ok (r, s') \<and> map_result own s root
    (run_entries va (\<lambda>i. build_pte perm (pa + i * PAGE_SIZE)) 0 (unat sz div 4096)) r s'"
proof -
  let ?k = "unat sz div 4096" and ?ent = "\<lambda>i. build_pte perm (pa + i * PAGE_SIZE)"
  let ?xs = "run_entries va ?ent 0 ?k"
  note ru = user_run_entries [OF assms(7), of ?ent]
  have "unat (sz div PAGE_SIZE) = ?k" by (simp add: PAGE_SIZE_def unat_div_distrib)
  then have "vmm_map_pages root va sz pa perm s = map_loop root va pa perm 0 ?k s"
    using assms(4-7) by (simp add: vmm_map_pages_def user_run_def page_aligned_mod)
  also have "\<dots> = (case install (PTE_P OR PTE_W OR PTE_U) root ?xs s of
       None \<Rightarrow> Panic ''vmm_map_pages: remap'' | Some r \<Rightarrow> Ok r)"
    by (rule map_loop_install [OF ru(1)])
  finally have eq: "vmm_map_pages root va sz pa perm s = \<dots>" .
  have "\<forall>x \<in> set ?xs. pte_is_present (snd x) \<and> translate s root (fst x) = None"
    using assms(8) build_pte_bits(1) by (auto simp: run_entries_def)
  from install_spec [OF assms(1-3) _ this ru(2), of "PTE_P OR PTE_W OR PTE_U"] eq
  show ?thesis by (auto simp: table_flags_def)
qed

section \<open>Allocating pages\<close>

text \<open>Changes outside the tables keep the tables and every translation.\<close>

lemma tables_unchanged:
  assumes "pt_inv own s root" "pool s' \<inter> dom own = {}" "hhdm_offset s' = hhdm_offset s"
    "\<forall>a. page_of a \<in> dom own \<longrightarrow> mem s' a = mem s a"
  shows "pt_inv own s' root" "translate s' root va = translate s root va"
proof -
  have e: "load64 (mem s') (slot p i) = load64 (mem s) (slot p i)" if "own p = Some x" "unat i < 512" for p i x
  proof (rule entry_page)
    show "page_aligned p" using pt_invD(1) [OF assms(1)] that(1) by (cases x) auto
    then show "mem s' a = mem s a" if "in_range p 4096 a" for a
      using that assms(4) \<open>own p = Some x\<close> page_of_eq_iff by (metis domI)
  qed (rule that(2))
  show "pt_inv own s' root"
    unfolding pt_inv_def
  proof (intro conjI allI impI)
    show "own root = Some (3, 0)" using assms(1) by (simp add: pt_inv_def)
  next
    fix p l n assume p: "own p = Some (l, n)"
    show "page_aligned p" "p \<noteq> 0" "p \<notin> pool s'" using pt_invD(1,2) [OF assms(1) p] assms(2) p by auto
    fix k i assume "l = Suc k" "unat i < 512" "pte_is_present (load64 (mem s') (slot p i))"
    then show "own (P2V (hhdm_offset s') (pte_follow (load64 (mem s') (slot p i)))) = Some (k, 512 * n + unat i)"
      using pt_invD(4) [OF assms(1) p] e [OF p] assms(3) by simp
  qed
  have "pt_lookup (mem s') (hhdm_offset s') k q va = pt_lookup (mem s) (hhdm_offset s) k q va"
    if "own q = Some (k, vpn va (Suc k))" "k \<le> 3" for k q
    using that
  proof (induction k arbitrary: q)
    case 0
    then show ?case using e [of q] by (simp add: leaf_entry_def)
  next
    case (Suc k)
    then show ?case using e [OF Suc.prems(1), of "PTE_INDEX_FROM_VA va (Suc k)"] assms(3)
        pt_inv_next [OF assms(1) Suc.prems(1) _ refl] by (simp add: Let_def)
  qed
  then show "translate s' root va = translate s root va"
    using pt_inv_root [OF assms(1)] unfolding translate_def by simp
qed

lemma tables_alloc:
  assumes "pt_inv own s root" "alloc_ok s f s1"
  shows "pt_inv own s1 root" "translate s1 root va = translate s root va"
proof -
  have d: "pool s \<inter> dom own = {}" using pt_invD(3) [OF assms(1)] by auto
  have f: "f \<in> pool s" "page_aligned f" "pool s1 \<subseteq> pool s" "hhdm_offset s1 = hhdm_offset s"
    using assms(2) by (auto simp: alloc_ok_def)
  have "mem s1 a = mem s a" if "page_of a \<in> dom own" for a
  proof -
    have "page_of a \<noteq> f" using that d f(1) by blast
    then have "\<not> in_range f 4096 a" using page_of_eq_iff [OF f(2)] by blast
    then show ?thesis using assms(2) by (simp add: alloc_ok_def)
  qed
  then have c: "pool s1 \<inter> dom own = {}" "hhdm_offset s1 = hhdm_offset s"
    "\<forall>a. page_of a \<in> dom own \<longrightarrow> mem s1 a = mem s a" using d f by blast+
  show "pt_inv own s1 root" "translate s1 root va = translate s root va"
    using tables_unchanged [OF assms(1) c] by blast+
qed

primrec frame_entries :: "u64 \<Rightarrow> pte_permissions \<Rightarrow> u64 \<Rightarrow> u64 \<Rightarrow> u64 list \<Rightarrow> (u64 \<times> u64) list" where
  "frame_entries va perm h i [] = []"
| "frame_entries va perm h i (f # fs) =
     (va + i * PAGE_SIZE, build_pte perm (V2P h f)) # frame_entries va perm h (i + 1) fs"

text \<open>
  The result of \<^verbatim>\<open>vmm_allocate\<close>: the pages of a prefix of the range, all of it when the
  result is 0, are mapped to distinct frames taken from the pool and cleared when asked. Each page
  costs its frame and at most three tables, so with four free pages for every page of the range
  the allocation succeeds.
\<close>

definition alloc_result :: "(u64 \<Rightarrow> (nat \<times> nat) option) \<Rightarrow> kmem \<Rightarrow> u64 \<Rightarrow> u64 \<Rightarrow> pte_permissions \<Rightarrow> bool \<Rightarrow>
    u64 \<Rightarrow> nat \<Rightarrow> int \<Rightarrow> kmem \<Rightarrow> bool" where
  "alloc_result own s root va perm clear i k r s' \<longleftrightarrow> (\<exists>own' fs.
    pt_inv own' s' root \<and> own \<subseteq>\<^sub>m own' \<and> dom own' \<subseteq> dom own \<union> pool s \<and>
    phys_inv s' \<and> pool s' \<subseteq> pool s \<and> hhdm_offset s' = hhdm_offset s \<and>
    distinct fs \<and> set fs \<subseteq> pool s \<and> set fs \<inter> (pool s' \<union> dom own') = {} \<and>
    (\<forall>a. page_of a \<notin> dom own' \<union> pool s \<longrightarrow> mem s' a = mem s a) \<and>
    (clear \<longrightarrow> (\<forall>a. page_of a \<in> set fs \<longrightarrow> mem s' a = 0)) \<and>
    (\<forall>va'. translate s' root va' =
       override (frame_entries va perm (hhdm_offset s) i fs) (translate s root) va') \<and>
    (if r = 0 then length fs = k \<and> card (pool s) \<le> card (pool s') + 4 * k
     else r = -1 \<and> length fs < k \<and> (\<exists>x. pool s' \<subseteq> {x}) \<and> card (pool s) < 4 * k))"

lemma kcalloc_or_kalloc:
  assumes "phys_inv s" "(if clear then kcalloc s else kalloc s) = (f, s1)"
  shows "if f = 0 then s1 = s \<and> pool s = {} else alloc_ok s f s1 \<and> (clear \<longrightarrow> (\<forall>a. page_of a = f \<longrightarrow> mem s1 a = 0))"
proof -
  let ?v = "if clear then Some 0 else Some 2"
  have eq: "alloc_with (Some 0) ?v s = (f, s1)" using assms(2) by (simp add: alloc_with_variants split: if_splits)
  have a: "if f = 0 then s1 = s \<and> pool s = {} else alloc_ok s f s1 \<and>
    (\<exists>s0. mem s0 = mem s \<and> s1 = page_fill (if freepages s \<noteq> 0 then Some 0 else ?v) f s0)"
    by (rule alloc_with_spec [OF assms(1) eq])
  show ?thesis
  proof (cases "f = 0")
    case False
    then have ok: "alloc_ok s f s1" using a by simp
    have "mem s1 a = 0" if "clear" "page_of a = f" for a
    proof -
      obtain s0 where "s1 = page_fill (Some 0) f s0" using a False \<open>clear\<close> by (auto split: if_splits)
      moreover have "page_aligned f" using ok by (simp add: alloc_ok_def)
      ultimately show ?thesis using that(2) page_of_eq_iff [of f a]
        by (simp add: page_fill_def memset_page filled_def)
    qed
    then show ?thesis using ok False by simp
  qed (use a in simp)
qed

lemma override_Nil [simp]: "override [] f = f"
  by (simp add: override_def page_entries_def fun_eq_iff)

lemma override_Cons:
  assumes "page_entries xs (vpn va 0) = None" "\<forall>va'. g va' = (if vpn va' 0 = vpn va 0 then Some e else f va')"
  shows "override xs g va' = override ((va, e) # xs) f va'"
  using assms by (auto simp: override_def page_entries_def split: option.splits)

lemma frame_entries_fresh:
  assumes "\<forall>j. 0 < j \<and> j \<le> length fs \<longrightarrow> vpn (va + (i + of_nat j) * PAGE_SIZE) 0 \<noteq> n"
  shows "page_entries (frame_entries va perm h (i + 1) fs) n = None"
  using assms
proof (induction fs arbitrary: i)
  case Nil
  then show ?case by (simp add: page_entries_def)
next
  case (Cons f fs)
  have "vpn (va + (i + 1) * PAGE_SIZE) 0 \<noteq> n" using Cons.prems [rule_format, of 1] by simp
  moreover have "\<forall>j. 0 < j \<and> j \<le> length fs \<longrightarrow> vpn (va + (i + 1 + of_nat j) * PAGE_SIZE) 0 \<noteq> n"
  proof (intro allI impI)
    fix j assume "0 < j \<and> j \<le> length fs"
    then show "vpn (va + (i + 1 + of_nat j) * PAGE_SIZE) 0 \<noteq> n"
      using Cons.prems [rule_format, of "Suc j"] by (simp add: add.assoc)
  qed
  ultimately show ?case using Cons.IH [of "i + 1"] by (simp add: page_entries_def)
qed

text \<open>One page of the loop: a frame is taken, the walk succeeds and the entry is written.\<close>

lemma allocate_one:
  assumes "pt_inv own s root" "phys_inv s" "pool_addressable s" "alloc_ok s f s1"
    "translate s root va = None" "walk_levels (PTE_P OR PTE_W OR PTE_U) 3 root va True s1 = (a, s2)"
  shows "if a = 0 then \<exists>s3. kfree f s2 = Ok s3 \<and> alloc_result own s root base perm clear i (Suc k) (-1) s3
    else \<not> pte_is_present (load64 (mem s2) a) \<and> (\<exists>own'.
      let s3 = write_entry a (build_pte perm (V2P (hhdm_offset s2) f)) s2 in
      pt_inv own' s3 root \<and> own \<subseteq>\<^sub>m own' \<and> dom own' \<subseteq> dom own \<union> (pool s1 - pool s3) \<and> f \<notin> dom own' \<union> pool s3 \<and>
      phys_inv s3 \<and> pool s3 \<subseteq> pool s1 \<and> hhdm_offset s3 = hhdm_offset s \<and>
      card (pool s) \<le> card (pool s3) + 4 \<and> (\<forall>a. page_of a \<notin> dom own' \<longrightarrow> mem s3 a = mem s1 a) \<and>
      (\<forall>va'. translate s3 root va' =
        (if vpn va' 0 = vpn va 0 then Some (build_pte perm (V2P (hhdm_offset s) f)) else translate s root va')))"
proof -
  let ?fl = "PTE_P OR PTE_W OR PTE_U"
  note t1 = tables_alloc [OF assms(1,4)]
  have f: "f \<noteq> 0" "f \<in> pool s" "page_aligned f" "phys_inv s1" "pool s1 = pool s - {f}" "hhdm_offset s1 = hhdm_offset s"
    using assms(4) by (auto simp: alloc_ok_def)
  have fl: "table_flags ?fl" by (simp add: table_flags_def)
  have ad: "pool_addressable s1" using pool_addressable_mono [OF assms(3)] f(5,6) by blast
  have fd: "f \<notin> dom own" using pt_invD(3) [OF assms(1)] f(2) by auto
  have cnt: "if a = 0 then card (pool s1) < 3 else card (pool s1) \<le> card (pool s2) + 3"
    by (rule walk_alloc_count [OF t1(1) f(4) ad fl pt_inv_root [OF t1(1)] _ assms(6)]) simp
  have cf: "card (pool s) = Suc (card (pool s1))" using f(2,5) by (metis card_Suc_Diff1 finite)
  show ?thesis
  proof (cases "a = 0")
    case True
    from walk_alloc [OF t1(1) f(4) ad fl pt_inv_root [OF t1(1)] _ assms(6)] True obtain own' where
      g: "tables_grow own s1 root own' s2" and tr: "\<And>va'. translate s2 root va' = translate s1 root va'"
      and e: "pool s2 = {}" by auto
    note g = tables_growD [OF g]
    obtain s3 where s3: "kfree f s2 = Ok s3" "phys_inv s3" "pool s3 = {f}" "hhdm_offset s3 = hhdm_offset s2"
      "\<And>a. \<not> in_range f 4096 a \<Longrightarrow> mem s3 a = mem s2 a"
      using kfree_spec [OF g(2) f(3,1)] e by auto
    have fo: "f \<notin> dom own'" using g(9) fd f(5) by blast
    have m3: "mem s3 a = mem s2 a" if "page_of a \<noteq> f" for a
      using that s3(5) page_of_eq_iff [OF f(3)] by blast
    have c: "pool s3 \<inter> dom own' = {}" "hhdm_offset s3 = hhdm_offset s2"
      "\<forall>a. page_of a \<in> dom own' \<longrightarrow> mem s3 a = mem s2 a"
      using fo s3(3,4) m3 by (simp, simp, metis)
    note u = tables_unchanged [OF g(1) c]
    have "mem s3 a = mem s a" if "page_of a \<notin> dom own' \<union> pool s" for a
    proof -
      have "page_of a \<noteq> f" using that f(2) by blast
      then have "\<not> in_range f 4096 a" using page_of_eq_iff [OF f(3)] by blast
      then have "mem s1 a = mem s a" using assms(4) by (simp add: alloc_ok_def)
      then show ?thesis using m3 [OF \<open>page_of a \<noteq> f\<close>] g(7) [of a] that by simp
    qed
    moreover have "dom own' \<subseteq> dom own \<union> pool s" using g(9) f(5) by blast
    ultimately have "alloc_result own s root base perm clear i (Suc k) (-1) s3"
      unfolding alloc_result_def using u t1(2) tr s3 g(4,5) f(2,6) cnt cf True
      by (intro exI [of _ own'] exI [of _ "[]"]) auto
    then show ?thesis using True s3(1) by auto
  next
    case False
    let ?e = "build_pte perm (V2P (hhdm_offset s2) f)"
    note m = map_one [OF t1(1) f(4) ad fl assms(6) False build_pte_bits(1) [of perm "V2P (hhdm_offset s2) f"]]
    from m(2) obtain own' where o: "pt_inv own' (write_entry a ?e s2) root" "own \<subseteq>\<^sub>m own'"
      "dom own' \<subseteq> dom own \<union> (pool s1 - pool (write_entry a ?e s2))"
      "\<forall>x. page_of x \<notin> dom own' \<longrightarrow> mem (write_entry a ?e s2) x = mem s1 x" by blast
    have h: "hhdm_offset s2 = hhdm_offset s" using m(5) f(6) by (simp add: write_entry_def)
    have "\<not> pte_is_present (load64 (mem s2) a)" using m(1) t1(2) assms(5) by simp
    moreover have "f \<notin> dom own' \<union> pool (write_entry a ?e s2)" using o(3) fd f(5) m(4) by blast
    moreover have "pool (write_entry a ?e s2) = pool s2" using m(7) .
    ultimately show ?thesis
      using False o m(3-6) f(6) h t1(2) cnt cf by (auto simp: Let_def)
  qed
qed

lemma allocate_loop_spec:
  assumes "pt_inv own s root" "phys_inv s" "pool_addressable s"
    "\<forall>j < k. USERSPACE_VA_MIN \<le> va + (i + of_nat j) * PAGE_SIZE \<and> va + (i + of_nat j) * PAGE_SIZE < USERSPACE_VA_MAX \<and>
       translate s root (va + (i + of_nat j) * PAGE_SIZE) = None"
    "\<forall>j < k. \<forall>j' < k. j \<noteq> j' \<longrightarrow> vpn (va + (i + of_nat j) * PAGE_SIZE) 0 \<noteq> vpn (va + (i + of_nat j') * PAGE_SIZE) 0"
  shows "\<exists>r s'. allocate_loop root va perm clear i k s = Ok (r, s') \<and> alloc_result own s root va perm clear i k r s'"
  using assms
proof (induction k arbitrary: i s own)
  case 0
  then show ?case
    by (auto simp: alloc_result_def intro!: exI [of _ own] exI [of _ "[]"])
next
  case (Suc k)
  let ?va = "va + i * PAGE_SIZE"
  have va: "USERSPACE_VA_MIN \<le> ?va" "?va < USERSPACE_VA_MAX" "translate s root ?va = None"
    using Suc.prems(4) [rule_format, of 0] by auto
  obtain f s1 where f: "(if clear then kcalloc s else kalloc s) = (f, s1)" by force
  note ka = kcalloc_or_kalloc [OF Suc.prems(2) f]
  show ?case
  proof (cases "f = 0")
    case True
    then have "s1 = s" "pool s = {}" using ka by auto
    then show ?thesis using f True Suc.prems(1,2)
      by (auto simp: alloc_result_def intro!: exI [of _ own] exI [of _ "[]"])
  next
    case fnz: False
    then have ok: "alloc_ok s f s1" and clr: "clear \<Longrightarrow> page_of a = f \<Longrightarrow> mem s1 a = 0" for a using ka by auto
    obtain a s2 where w: "walk_levels (PTE_P OR PTE_W OR PTE_U) 3 root ?va True s1 = (a, s2)" by force
    then have wk: "walk root ?va True False s1 = Ok (a, s2)"
      using va by (simp add: walk_def not_le not_less)
    have eq: "allocate_loop root va perm clear i (Suc k) s =
       (if a = 0 then obind (kfree f s2) (\<lambda>s3. Ok (-1, s3))
        else if pte_is_present (load64 (mem s2) a) then Panic ''vmm_allocate: remap''
        else allocate_loop root va perm clear (i + 1) k (write_entry a (build_pte perm (V2P (hhdm_offset s2) f)) s2))"
      using f fnz wk by simp
    show ?thesis
    proof (cases "a = 0")
      case True
      have "\<exists>s3. kfree f s2 = Ok s3 \<and> alloc_result own s root va perm clear i (Suc k) (-1) s3"
        using allocate_one [OF Suc.prems(1-3) ok va(3) w, where base = va and clear = clear and i = i and k = k
          and perm = perm] True by simp
      then show ?thesis using eq True by auto
    next
      case False
      let ?s3 = "write_entry a (build_pte perm (V2P (hhdm_offset s2) f)) s2"
      from allocate_one [OF Suc.prems(1-3) ok va(3) w, where perm = perm] False obtain own' where
        o: "\<not> pte_is_present (load64 (mem s2) a)" "pt_inv own' ?s3 root" "own \<subseteq>\<^sub>m own'"
        "dom own' \<subseteq> dom own \<union> (pool s1 - pool ?s3)" "f \<notin> dom own' \<union> pool ?s3" "phys_inv ?s3"
        "pool ?s3 \<subseteq> pool s1" "hhdm_offset ?s3 = hhdm_offset s"
        "\<forall>a. page_of a \<notin> dom own' \<longrightarrow> mem ?s3 a = mem s1 a"
        "\<forall>va'. translate ?s3 root va' = (if vpn va' 0 = vpn ?va 0 then Some (build_pte perm (V2P (hhdm_offset s) f))
           else translate s root va')" "card (pool s) \<le> card (pool ?s3) + 4" unfolding Let_def by auto
      have ps: "f \<in> pool s" "pool s1 = pool s - {f}" "page_aligned f" using ok by (auto simp: alloc_ok_def)
      have shift: "i + 1 + of_nat j = i + of_nat (Suc j)" for j by (simp add: add.assoc)
      have c4: "\<forall>j < k. USERSPACE_VA_MIN \<le> va + (i + 1 + of_nat j) * PAGE_SIZE \<and>
          va + (i + 1 + of_nat j) * PAGE_SIZE < USERSPACE_VA_MAX \<and>
          translate ?s3 root (va + (i + 1 + of_nat j) * PAGE_SIZE) = None"
      proof (intro allI impI)
        fix j assume "j < k"
        then show "USERSPACE_VA_MIN \<le> va + (i + 1 + of_nat j) * PAGE_SIZE \<and>
          va + (i + 1 + of_nat j) * PAGE_SIZE < USERSPACE_VA_MAX \<and>
          translate ?s3 root (va + (i + 1 + of_nat j) * PAGE_SIZE) = None"
          using Suc.prems(4) [rule_format, of "Suc j"] Suc.prems(5) [rule_format, of "Suc j" 0] o(10)
          unfolding shift by simp
      qed
      have c5: "\<forall>j < k. \<forall>j' < k. j \<noteq> j' \<longrightarrow>
          vpn (va + (i + 1 + of_nat j) * PAGE_SIZE) 0 \<noteq> vpn (va + (i + 1 + of_nat j') * PAGE_SIZE) 0"
        unfolding shift using Suc.prems(5) by (metis Suc_less_eq nat.inject)
      have "pool_addressable ?s3" using pool_addressable_mono [OF Suc.prems(3)] o(7,8) ps by blast
      from Suc.IH [OF o(2,6) this c4 c5] obtain r s' where r: "allocate_loop root va perm clear (i + 1) k ?s3 = Ok (r, s')"
        "alloc_result own' ?s3 root va perm clear (i + 1) k r s'" by blast
      from r(2) obtain own2 fs where R: "pt_inv own2 s' root" "own' \<subseteq>\<^sub>m own2" "dom own2 \<subseteq> dom own' \<union> pool ?s3"
        "phys_inv s'" "pool s' \<subseteq> pool ?s3" "hhdm_offset s' = hhdm_offset ?s3" "distinct fs" "set fs \<subseteq> pool ?s3"
        "set fs \<inter> (pool s' \<union> dom own2) = {}" "\<forall>a. page_of a \<notin> dom own2 \<union> pool ?s3 \<longrightarrow> mem s' a = mem ?s3 a"
        "clear \<longrightarrow> (\<forall>a. page_of a \<in> set fs \<longrightarrow> mem s' a = 0)"
        "\<forall>va'. translate s' root va' =
          override (frame_entries va perm (hhdm_offset ?s3) (i + 1) fs) (translate ?s3 root) va'"
        "if r = 0 then length fs = k \<and> card (pool ?s3) \<le> card (pool s') + 4 * k
         else r = -1 \<and> length fs < k \<and> (\<exists>x. pool s' \<subseteq> {x}) \<and> card (pool ?s3) < 4 * k"
        unfolding alloc_result_def by blast
      have d: "dom own' \<subseteq> dom own2" using R(2) map_le_implies_dom_le by blast
      have len: "length fs \<le> k" using R(13) by (auto split: if_splits)
      have s1m: "mem s1 a = mem s a" if "page_of a \<noteq> f" for a
        using that ok page_of_eq_iff [OF ps(3)] by (auto simp: alloc_ok_def)
      have "page_entries (frame_entries va perm (hhdm_offset s) (i + 1) fs) (vpn ?va 0) = None"
        by (rule frame_entries_fresh)
          (use len Suc.prems(5) [rule_format, where j' = 0] in \<open>auto simp: Suc_le_eq [symmetric]\<close>)
      then have tr: "\<forall>va'. translate s' root va' =
          override (frame_entries va perm (hhdm_offset s) i (f # fs)) (translate s root) va'"
        using override_Cons [OF _ o(10)] R(12) o(8) by simp
      have fr: "\<forall>a. page_of a \<notin> dom own2 \<union> pool s \<longrightarrow> mem s' a = mem s a"
      proof (intro allI impI)
        fix a assume a: "page_of a \<notin> dom own2 \<union> pool s"
        then have "page_of a \<notin> dom own2 \<union> pool ?s3" "page_of a \<notin> dom own'" "page_of a \<noteq> f"
          using o(7) ps d by blast+
        then show "mem s' a = mem s a" using R(10) o(9) s1m by metis
      qed
      have cl: "clear \<longrightarrow> (\<forall>a. page_of a \<in> set (f # fs) \<longrightarrow> mem s' a = 0)"
      proof (intro impI allI)
        fix a assume c: "clear" and a: "page_of a \<in> set (f # fs)"
        have "mem s' a = 0" if "page_of a = f"
        proof -
          have "f \<notin> dom own2 \<union> pool ?s3" "f \<notin> dom own'" using o(5) R(3) by blast+
          then show ?thesis using R(10) o(9) clr [OF c that] that by metis
        qed
        then show "mem s' a = 0" using a R(11) c by auto
      qed
      have "alloc_result own s root va perm clear i (Suc k) r s'"
        unfolding alloc_result_def
      proof (intro exI [of _ own2] exI [of _ "f # fs"] conjI)
        show "own \<subseteq>\<^sub>m own2" using o(3) R(2) by (rule map_le_trans)
        show "dom own2 \<subseteq> dom own \<union> pool s" using R(3) o(4,7) ps(2) by blast
        show "pool s' \<subseteq> pool s" "hhdm_offset s' = hhdm_offset s" using R(5,6) o(7,8) ps(2) by auto
        show "distinct (f # fs)" using R(7,8) o(5) by auto
        show "set (f # fs) \<subseteq> pool s" using R(8) o(7) ps by auto
        have "f \<notin> pool s' \<union> dom own2" using R(3,5) o(5) by blast
        then show "set (f # fs) \<inter> (pool s' \<union> dom own2) = {}" using R(9) by auto
        show "if r = 0 then length (f # fs) = Suc k \<and> card (pool s) \<le> card (pool s') + 4 * Suc k
          else r = - 1 \<and> length (f # fs) < Suc k \<and> (\<exists>x. pool s' \<subseteq> {x}) \<and> card (pool s) < 4 * Suc k"
          using R(13) o(11) by (auto split: if_splits)
      qed (use R(1,4) tr fr cl in blast)+
      then show ?thesis using eq False o(1) r(1) by simp
    qed
  qed
qed

end
