(* ===== verification/Phys_Boot.thy ===== *)
theory Phys_Boot
  imports Phys_Blocks
begin

text \<open>
  Boot: \<^verbatim>\<open>init_mem\<close> turns the boot loader's memory map into the list of regions the page
  allocators carve from. The reference reading of an entry is in natural numbers
  (\<open>entry_pages\<close>: the whole pages inside it); below 4 GB the code computes exactly that.
\<close>

section \<open>Memory map entries\<close>

definition entry_low :: "memmap_entry \<Rightarrow> bool" where
  "entry_low e \<longleftrightarrow> unat (me_base e) + unat (me_length e) < 2 ^ 32"

definition entry_pages :: "memmap_entry \<Rightarrow> u64 set" where
  "entry_pages e = {pa. page_aligned pa \<and> unat (me_base e) \<le> unat pa \<and>
     unat pa + 4096 \<le> unat (me_base e) + unat (me_length e)}"

definition usable :: "memmap_entry \<Rightarrow> bool" where
  "usable e \<longleftrightarrow> me_type e = LIMINE_MEMMAP_USABLE \<and>
     (unat (me_base e) + 4095) div 4096 < (unat (me_base e) + unat (me_length e)) div 4096"

definition usable_entries :: "memmap_entry option list \<Rightarrow> memmap_entry list" where
  "usable_entries es = filter usable (List.map_filter id es)"

definition entry_region :: "memmap_entry \<Rightarrow> mem_region" where
  "entry_region e = \<lparr>phys_cur = of_nat ((unat (me_base e) + 4095) div 4096 * 4096),
     phys_end = of_nat ((unat (me_base e) + unat (me_length e)) div 4096 * 4096)\<rparr>"

definition boot_state :: "kmem \<Rightarrow> bool" where
  "boot_state s \<longleftrightarrow> freepages s = 0 \<and> regions s = [] \<and> static_region_pool_idx s = 0 \<and> \<not> mem_initialized s"

lemma phys_max_end_self [simp]: "s\<lparr>phys_max_end := phys_max_end s\<rparr> = s"
  by (cases s) simp

lemma usable_entries_simps [simp]:
  "usable_entries [] = []"
  "usable_entries (None # es) = usable_entries es"
  "usable_entries (Some e # es) = (if usable e then e # usable_entries es else usable_entries es)"
  by (simp_all add: usable_entries_def map_filter_simps)

lemma entry_rounding:
  assumes "entry_low e" "4096 \<le> unat (me_length e)"
  shows "unat ((me_base e + PAGE_SIZE - 1) AND page_not_mask) = (unat (me_base e) + 4095) div 4096 * 4096"
    "unat ((me_base e + me_length e) AND page_not_mask) =
      (unat (me_base e) + unat (me_length e)) div 4096 * 4096"
proof -
  show "unat ((me_base e + PAGE_SIZE - 1) AND page_not_mask) = (unat (me_base e) + 4095) div 4096 * 4096"
    using unat_PAGE_ROUND_UP [of "me_base e"] assms by (simp add: entry_low_def PAGE_ROUND_UP_def)
  have "unat (me_base e + me_length e) = unat (me_base e) + unat (me_length e)"
    using assms(1) by (simp add: entry_low_def unat_word_ariths)
  then show "unat ((me_base e + me_length e) AND page_not_mask) =
      (unat (me_base e) + unat (me_length e)) div 4096 * 4096"
    using unat_PAGE_ROUND_DOWN [of "me_base e + me_length e"] assms
    by (simp add: entry_low_def PAGE_ROUND_DOWN_def)
qed

lemma entry_region_unat:
  assumes "entry_low e" "usable e"
  shows "unat (phys_cur (entry_region e)) = (unat (me_base e) + 4095) div 4096 * 4096"
    "unat (phys_end (entry_region e)) = (unat (me_base e) + unat (me_length e)) div 4096 * 4096"
proof -
  have "(unat (me_base e) + unat (me_length e)) div 4096 * 4096 < 2 ^ 32"
    using assms(1) unfolding entry_low_def
    by (rule le_less_trans [rotated]) simp
  moreover have "(unat (me_base e) + 4095) div 4096 * 4096 <
      (unat (me_base e) + unat (me_length e)) div 4096 * 4096"
    using assms(2) by (simp add: usable_def)
  moreover have "(2 :: nat) ^ 32 < 2 ^ 64" by simp
  ultimately have lt: "(unat (me_base e) + unat (me_length e)) div 4096 * 4096 < 2 ^ 64"
    "(unat (me_base e) + 4095) div 4096 * 4096 < 2 ^ 64" by (blast intro: less_trans)+
  show "unat (phys_end (entry_region e)) = (unat (me_base e) + unat (me_length e)) div 4096 * 4096"
    "unat (phys_cur (entry_region e)) = (unat (me_base e) + 4095) div 4096 * 4096"
    unfolding entry_region_def mem_region.simps by (simp_all only: lt [THEN unat_of_nat_u64])
qed

text \<open>One entry: a usable one takes a slot of the static pool, or the kernel panics.\<close>

lemma init_mem_entry_spec:
  assumes "entry_low e" "\<not> mem_initialized s"
  shows "\<exists>m. init_mem_entry (Some e) s =
    (if \<not> usable e then Ok (s\<lparr>phys_max_end := m\<rparr>)
     else if static_region_pool_idx s < 32
       then Ok (s\<lparr>phys_max_end := m, static_region_pool_idx := static_region_pool_idx s + 1,
         regions := regions s @ [entry_region e]\<rparr>)
     else Panic ''init_mem: failed to register memory region - increase STATIC_REGION_POOL_SIZE'')"
proof -
  let ?b = "me_base e" and ?l = "me_length e"
  let ?m = "if ?b + ?l > phys_max_end s then ?b + ?l else phys_max_end s"
  let ?s = "s\<lparr>phys_max_end := ?m\<rparr>"
  have s1: "(if ?b + ?l > phys_max_end s then s\<lparr>phys_max_end := ?b + ?l\<rparr> else s) = s\<lparr>phys_max_end := ?m\<rparr>"
    by simp
  consider (type) "me_type e \<noteq> LIMINE_MEMMAP_USABLE" | (short) "?l < PAGE_SIZE"
    | (long) "me_type e = LIMINE_MEMMAP_USABLE" "\<not> ?l < PAGE_SIZE" by blast
  then show ?thesis
  proof cases
    case type
    then have "\<not> usable e" by (simp add: usable_def)
    then show ?thesis using type unfolding init_mem_entry_def option.case s1 Let_def by (intro exI [of _ ?m]) simp
  next
    case short
    then have "unat ?l < 4096" by (simp add: PAGE_SIZE_def word_less_nat_alt)
    then have "\<not> usable e" by (simp add: usable_def div_le_mono not_less)
    then show ?thesis using short unfolding init_mem_entry_def option.case s1 Let_def by (intro exI [of _ ?m]) simp
  next
    case long
    then have l: "4096 \<le> unat ?l" by (simp add: PAGE_SIZE_def word_less_nat_alt)
    let ?ab = "(?b + PAGE_SIZE - 1) AND page_not_mask" and ?st = "(?b + ?l) AND page_not_mask"
    note r = entry_rounding [OF assms(1) l]
    have us: "usable e \<longleftrightarrow> ?ab < ?st"
      using long(1) r by (simp add: usable_def word_less_nat_alt)
    have reg: "\<lparr>phys_cur = ?ab, phys_end = ?st\<rparr> = entry_region e" if "usable e"
    proof -
      have "?ab = phys_cur (entry_region e)" "?st = phys_end (entry_region e)"
        using r entry_region_unat [OF assms(1) that] by (simp_all add: word_unat_eq_iff)
      then show ?thesis by simp
    qed
    show ?thesis
      unfolding init_mem_entry_def s1 option.case Let_def append_region_def
      using long us reg assms(2)
      by (intro exI [of _ ?m]) (auto simp: STATIC_REGION_POOL_SIZE_def not_le not_less)
  qed
qed

lemma init_mem_loop_spec:
  assumes "\<forall>e. Some e \<in> set es \<longrightarrow> entry_low e" "\<not> mem_initialized s" "static_region_pool_idx s \<le> 32"
  shows "\<exists>m. init_mem_loop es s =
    (if static_region_pool_idx s + length (usable_entries es) \<le> 32
     then Ok (s\<lparr>phys_max_end := m,
       static_region_pool_idx := static_region_pool_idx s + length (usable_entries es),
       regions := regions s @ map entry_region (usable_entries es)\<rparr>)
     else Panic ''init_mem: failed to register memory region - increase STATIC_REGION_POOL_SIZE'')"
  using assms
proof (induction es arbitrary: s)
  case Nil
  then show ?case by (auto intro: exI [of _ "phys_max_end s"])
next
  case (Cons x es)
  show ?case
  proof (cases x)
    case None
    then have "init_mem_loop (x # es) s = init_mem_loop es s" "usable_entries (x # es) = usable_entries es"
      by (simp_all add: init_mem_entry_def)
    moreover have "\<forall>e. Some e \<in> set es \<longrightarrow> entry_low e" using Cons.prems(1) by simp
    ultimately show ?thesis using Cons.IH [OF _ Cons.prems(2,3)] by presburger
  next
    case (Some e)
    have low: "entry_low e" using Cons.prems(1) Some by simp
    from init_mem_entry_spec [OF low Cons.prems(2)] obtain m where m: "init_mem_entry (Some e) s =
      (if \<not> usable e then Ok (s\<lparr>phys_max_end := m\<rparr>)
       else if static_region_pool_idx s < 32
         then Ok (s\<lparr>phys_max_end := m, static_region_pool_idx := static_region_pool_idx s + 1,
           regions := regions s @ [entry_region e]\<rparr>)
       else Panic ''init_mem: failed to register memory region - increase STATIC_REGION_POOL_SIZE'')"
      by blast
    let ?s = "if usable e then s\<lparr>phys_max_end := m, static_region_pool_idx := static_region_pool_idx s + 1,
           regions := regions s @ [entry_region e]\<rparr> else s\<lparr>phys_max_end := m\<rparr>"
    show ?thesis
    proof (cases "usable e \<and> \<not> static_region_pool_idx s < 32")
      case True
      then show ?thesis using m Some by simp
    next
      case False
      have "\<not> mem_initialized ?s" "static_region_pool_idx ?s \<le> 32" "\<forall>e. Some e \<in> set es \<longrightarrow> entry_low e"
        using Cons.prems False by auto
      from Cons.IH [OF this(3,1,2)] m Some False show ?thesis
        by (cases "usable e") auto
    qed
  qed
qed

section \<open>The pool after boot\<close>

lemma entry_region_pages:
  assumes "entry_low e" "usable e"
  shows "region_pages h (entry_region e) = P2V h ` entry_pages e" "region_ok (entry_region e)"
proof -
  note u = entry_region_unat [OF assms]
  have "phys_cur (entry_region e) \<le> pa \<and> pa < phys_end (entry_region e) \<longleftrightarrow>
      unat (me_base e) \<le> unat pa \<and> unat pa + 4096 \<le> unat (me_base e) + unat (me_length e)"
    if pa: "page_aligned pa" for pa
  proof -
    obtain k where k: "unat pa = 4096 * k" using pa by (rule page_aligned_obtain)
    have up: "(b + 4095) div 4096 * 4096 \<le> 4096 * k \<longleftrightarrow> b \<le> 4096 * k" for b :: nat
      using div_less_iff_less_mult [of 4096 "b + 4095" "Suc k"] by auto
    have dn: "4096 * k < c div 4096 * 4096 \<longleftrightarrow> 4096 * k + 4096 \<le> c" for c :: nat
      using less_eq_div_iff_mult_less_eq [of 4096 "Suc k" c] by (auto simp: Suc_le_eq)
    show ?thesis unfolding word_le_nat_alt word_less_nat_alt u k up dn by (rule refl)
  qed
  then show "region_pages h (entry_region e) = P2V h ` entry_pages e"
    unfolding region_pages_def entry_pages_def by (metis (no_types, lifting) Collect_cong)
  show "region_ok (entry_region e)"
    using assms(2) u unfolding region_ok_def
    by (simp add: page_aligned_unat word_less_nat_alt usable_def)
qed

primrec entries_disjoint :: "memmap_entry list \<Rightarrow> bool" where
  "entries_disjoint [] \<longleftrightarrow> True"
| "entries_disjoint (e # es) \<longleftrightarrow> (\<forall>f \<in> set es.
     unat (me_base e) + unat (me_length e) \<le> unat (me_base f) \<or>
     unat (me_base f) + unat (me_length f) \<le> unat (me_base e)) \<and> entries_disjoint es"

lemma entry_regions_ok:
  assumes "\<forall>e \<in> set us. entry_low e \<and> usable e" "entries_disjoint us"
  shows "regions_ok h (map entry_region us) \<and>
    regions_pages h (map entry_region us) = P2V h ` (\<Union>e \<in> set us. entry_pages e)"
  using assms
proof (induction us)
  case Nil
  then show ?case by simp
next
  case (Cons e us)
  then have "entry_pages e \<inter> (\<Union>e \<in> set us. entry_pages e) = {}"
    by (fastforce simp: entry_pages_def)
  moreover have "inj (P2V h)" by (simp add: inj_def P2V_def)
  ultimately have "P2V h ` entry_pages e \<inter> P2V h ` (\<Union>e \<in> set us. entry_pages e) = {}"
    by (simp only: image_Int [symmetric] image_empty)
  then show ?case
    using Cons entry_region_pages [of e] by (simp add: image_Un)
qed

end
