(* ===== verification/Phys_Props.thy ===== *)
theory Phys_Props
  imports Phys_Boot
begin

text \<open>
  The properties of \<^verbatim>\<open>kernel/src/mem/mem.c\<close>, each with an instance on a small machine.
\<close>

section \<open>Sample states\<close>

text \<open>
  A machine with eight usable pages at physical \<open>0x1000\<close>, mapped at \<open>2\<^sup>4\<^sup>7\<close>, and the state
  before \<^verbatim>\<open>init_mem\<close>.
\<close>

definition sample_kmem :: kmem where
  "sample_kmem = \<lparr>mem = (\<lambda>_. 0), freepages = 0,
     regions = [\<lparr>phys_cur = 0x1000, phys_end = 0x9000\<rparr>], hhdm_offset = 0x800000000000,
     phys_max_end = 0x9000, mem_initialized = True, static_region_pool_idx = 1\<rparr>"

definition boot_kmem :: kmem where
  "boot_kmem = \<lparr>mem = (\<lambda>_. 0), freepages = 0, regions = [], hhdm_offset = 0,
     phys_max_end = 0, mem_initialized = False, static_region_pool_idx = 0\<rparr>"

definition sample_entry :: memmap_entry where
  "sample_entry = \<lparr>me_base = 0x1000, me_length = 0x8000, me_type = LIMINE_MEMMAP_USABLE\<rparr>"

lemma sample_region_pages:
  "region_pages 0x800000000000 \<lparr>phys_cur = 0x1000, phys_end = 0x9000\<rparr> = block_pages 0x800000001000 8"
proof -
  have "{pa :: u64. page_aligned pa \<and> 0x1000 \<le> pa \<and> pa < 0x1000 + of_nat (4096 * 8)} = block_pages 0x1000 8"
    by (rule aligned_in_span) (simp_all add: page_aligned_def PAGE_SIZE_def)
  then have "region_pages 0x800000000000 \<lparr>phys_cur = 0x1000, phys_end = 0x9000\<rparr> =
      P2V 0x800000000000 ` block_pages 0x1000 8"
    by (simp add: region_pages_def)
  also have "\<dots> = block_pages 0x800000001000 8" unfolding P2V_block by (simp add: P2V_def)
  finally show ?thesis .
qed

lemma block_pages_numeral:
  "block_pages p (numeral k) = insert p (block_pages (p + 4096) (pred_numeral k))"
  by (simp add: numeral_eq_Suc block_pages_Suc)

lemma block_pages_0 [simp]: "block_pages p 0 = {}"
  by (simp add: block_pages_def)

lemmas block_pages_eval = block_pages_numeral block_pages_Suc

lemma sample_kmem_inv [simp]: "phys_inv sample_kmem"
  by (rule phys_invI [of _ "[]"])
    (simp_all add: sample_kmem_def sample_region_pages block_pages_eval region_ok_def page_aligned_def PAGE_SIZE_def)

lemma sample_kmem_pool: "pool sample_kmem = block_pages 0x800000001000 8"
  using free_list_pages_flist [of sample_kmem "[]"]
  by (simp add: pool_def sample_kmem_def sample_region_pages)

lemma sample_kmem_kalloc:
  "\<exists>s'. kalloc sample_kmem = (0x800000001000, s')"
  by (simp add: kalloc_def sample_kmem_def pop_free_page_def alloc_from_regions_for_page_cache_def
      Let_def PAGE_SIZE_def P2V_def)

section \<open>Single pages\<close>

text \<open>
  C1: \<^verbatim>\<open>kalloc\<close> keeps the allocator's invariant; it returns the null pointer only when no page
  is free, and otherwise a free, aligned page that is taken out of the pool, with every other
  byte of memory as it was. A page of the free list is filled with zero and a page of a region
  with two: the comments at \<^verbatim>\<open>mem.c:223\<close>, \<^verbatim>\<open>vmm.c:338\<close> and \<^verbatim>\<open>vmm.c:360\<close> promise two
  for both, which the code at \<^verbatim>\<open>mem.c:230\<close> does not do.
\<close>

theorem kalloc_correct:
  assumes "phys_inv s" "kalloc s = (p, s')"
  shows "if p = 0 then s' = s \<and> pool s = {}
    else p \<in> pool s \<and> page_aligned p \<and> phys_inv s' \<and> pool s' = pool s - {p} \<and>
      (\<forall>a. mem s' a = (if in_range p 4096 a then (if freepages s \<noteq> 0 then 0 else 2) else mem s a))"
proof -
  have a: "if p = 0 then s' = s \<and> pool s = {} else alloc_ok s p s' \<and>
    (\<exists>s1. mem s1 = mem s \<and> s' = page_fill (if freepages s \<noteq> 0 then Some 0 else Some 2) p s1)"
    using alloc_with_spec [of s "Some 0" "Some 2"] assms by (simp add: alloc_with_variants)
  show ?thesis
  proof (cases "p = 0")
    case False
    with a obtain s1 where "mem s1 = mem s" "s' = page_fill (if freepages s \<noteq> 0 then Some 0 else Some 2) p s1"
      by auto
    then have "mem s' = filled (mem s) p (if freepages s \<noteq> 0 then 0 else 2) 4096"
      by (auto simp: page_fill_def memset_page)
    then show ?thesis using a False by (auto simp: alloc_ok_def filled_def)
  qed (use a in simp)
qed

theorem kalloc_correct_witness:
  "\<exists>s'. kalloc sample_kmem = (0x800000001000, s') \<and> phys_inv s' \<and>
     pool s' = block_pages 0x800000002000 7 \<and> mem s' 0x800000001fff = 2"
proof -
  obtain s' where s': "kalloc sample_kmem = (0x800000001000, s')" using sample_kmem_kalloc by blast
  have "pool sample_kmem - {0x800000001000} = block_pages 0x800000002000 7"
    using block_pages_Suc [of "0x800000001000" 7] block_pages_fresh [of 7 "0x800000001000"]
    by (simp add: sample_kmem_pool)
  moreover have "in_range 0x800000001000 4096 0x800000001fff" "freepages sample_kmem = 0"
    by (simp_all add: in_range_def sample_kmem_def)
  ultimately show ?thesis using kalloc_correct [OF sample_kmem_inv s'] s' by simp
qed

text \<open>
  C2: allocating as many pages as are free yields that many distinct pages, exactly the
  pool, and never the null pointer before.
\<close>

theorem kalloc_exhaustive:
  assumes "phys_inv s" "finite (pool s)" "kalloc.alloc_many (card (pool s)) s = (ps, s')"
  shows "distinct ps \<and> set ps = pool s \<and> pool s' = {} \<and> fst (kalloc s') = 0"
proof -
  have nz: "0 \<notin> set ps" using kalloc.alloc_many_exhausts [OF assms(1,2) _ assms(3)] by simp
  note sp = kalloc.alloc_many_spec [OF assms(1,3) nz]
  then have "card (set ps) = card (pool s)" using distinct_card by metis
  then have eq: "set ps = pool s" using sp assms(2) card_subset_eq by blast
  have "p = 0" if "kalloc s' = (p, t)" for p t
    using kalloc.alloc_page [of s' p t] sp eq that by auto
  then show ?thesis using sp eq by (metis Diff_cancel prod.collapse)
qed

theorem kalloc_exhaustive_witness:
  "\<exists>ps s'. kalloc.alloc_many 8 sample_kmem = (ps, s') \<and> distinct ps \<and> set ps = block_pages 0x800000001000 8"
proof -
  have "card (pool sample_kmem) = 8" "finite (pool sample_kmem)"
    by (simp_all add: sample_kmem_pool block_pages_eval)
  moreover obtain ps s' where "kalloc.alloc_many 8 sample_kmem = (ps, s')" by force
  ultimately show ?thesis
    using kalloc_exhaustive [OF sample_kmem_inv, of ps s'] by (auto simp: sample_kmem_pool)
qed

text \<open>
  C3: freeing the page \<^verbatim>\<open>kalloc\<close> returned never panics and restores the set of free pages.
\<close>

theorem kalloc_kfree:
  assumes "phys_inv s" "kalloc s = (p, s1)" "p \<noteq> 0"
  shows "\<exists>s2. kfree p s1 = Ok s2 \<and> phys_inv s2 \<and> pool s2 = pool s"
  using kalloc.release_then_alloc [OF assms] .

theorem kalloc_kfree_witness:
  "\<exists>s1 s2. kalloc sample_kmem = (0x800000001000, s1) \<and> kfree 0x800000001000 s1 = Ok s2 \<and>
     pool s2 = block_pages 0x800000001000 8"
proof -
  obtain s1 where s1: "kalloc sample_kmem = (0x800000001000, s1)" using sample_kmem_kalloc by blast
  then show ?thesis using kalloc_kfree [OF sample_kmem_inv s1] by (auto simp: sample_kmem_pool)
qed

section \<open>Blocks\<close>

text \<open>
  C4: \<^verbatim>\<open>kalloc_pages\<close> for at least two and fewer than \<open>2\<^sup>5\<^sup>2\<close> pages returns (its list
  searches end) and keeps the invariant. It yields an aligned block of free pages that leave the
  pool, filled with two, no byte outside the pool changed; the null pointer, with nothing changed,
  only when there is no such block: no run of that many consecutive pages stands in the free list,
  and every region has fewer pages left.
\<close>

theorem kalloc_pages_correct:
  assumes "phys_inv s" "2 \<le> unat n" "unat n < 2 ^ 52"
  shows "\<exists>p s'. kalloc_pages n s = Some (p, s') \<and>
    (if p = 0 then s' = s \<and> no_block s (unat n)
     else page_aligned p \<and> block_pages p (unat n) \<subseteq> pool s \<and>
       pool s' = pool s - block_pages p (unat n) \<and> phys_inv s' \<and>
       (\<forall>a. in_range p (4096 * unat n) a \<longrightarrow> mem s' a = 2) \<and>
       (\<forall>a. page_of a \<notin> pool s \<longrightarrow> mem s' a = mem s a))"
proof -
  from kalloc_pages_many [OF assms] obtain p s' where "kalloc_pages n s = Some (p, s')"
    "if p = 0 then s' = s \<and> no_block s (unat n) else block_ok s p (unat n) s' \<and> frame_pool s s' \<and>
       (\<forall>a. in_range p (4096 * unat n) a \<longrightarrow> mem s' a = 2)" by blast
  moreover have "mem s' a = mem s a" if "frame_pool s s'" "page_of a \<notin> pool s" for a
    using that pool_aligned(1) [OF assms(1)] page_of_eq_iff unfolding frame_pool_def by metis
  ultimately show ?thesis by (auto simp: block_ok_def)
qed

theorem kalloc_pages_correct_witness:
  "\<exists>p s'. kalloc_pages 8 sample_kmem = Some (p, s') \<and> p \<noteq> 0 \<and> phys_inv s' \<and>
     block_pages p 8 \<subseteq> block_pages 0x800000001000 8 \<and>
     pool s' = block_pages 0x800000001000 8 - block_pages p 8 \<and> mem s' p = 2"
proof -
  have "\<not> no_block sample_kmem 8" by (simp add: no_block_def sample_kmem_def)
  moreover have "in_range p 32768 p" for p by (simp add: in_range_def)
  ultimately show ?thesis
    using kalloc_pages_correct [OF sample_kmem_inv, where n = 8]
    by (auto simp: sample_kmem_pool split: if_splits)
qed

text \<open>
  C5: \<^verbatim>\<open>kfree_pages\<close> on an aligned block none of whose pages is free puts all of them
  back into the pool without a panic.
\<close>

theorem kfree_pages_correct:
  assumes "phys_inv s" "page_aligned p" "p \<noteq> 0" "unat n \<le> 2 ^ 52"
    "block_pages p (unat n) \<inter> pool s = {}" "0 \<notin> block_pages p (unat n)"
  shows "\<exists>s'. kfree_pages p n s = Ok s' \<and> phys_inv s' \<and> pool s' = block_pages p (unat n) \<union> pool s"
proof -
  from assms(1) obtain xs where "flist (mem s) (freepages s) xs" by (rule phys_inv_free_list)
  then show ?thesis using kfree_pages_ok [OF assms] by blast
qed

theorem kfree_pages_correct_witness:
  "\<exists>s'. kfree_pages 0x800000010000 2 sample_kmem = Ok s' \<and> phys_inv s' \<and>
     0x800000011000 \<in> pool s'"
  using kfree_pages_correct [OF sample_kmem_inv, where p = "0x800000010000" and n = 2]
  by (simp add: page_aligned_def PAGE_SIZE_def sample_kmem_pool block_pages_eval) auto

text \<open>
  The pages of a block go back in ascending order, so the free list holds them
  descending, and the contiguous search, which wants them ascending, does not find the block
  it was given: with nothing else free, the same request from the list now fails.
\<close>

theorem kfree_pages_not_reusable:
  assumes "phys_inv s" "pool s = {}" "page_aligned p" "p \<noteq> 0" "2 \<le> unat n" "unat n \<le> 2 ^ 52"
    "0 \<notin> block_pages p (unat n)"
  shows "\<exists>s'. kfree_pages p n s = Ok s' \<and> pool s' = block_pages p (unat n) \<and>
    alloc_contiguous_from_freelist n s' = Some (0, s')"
proof -
  from assms(1) obtain xs where xs: "flist (mem s) (freepages s) xs" "free_list_pages s = set xs"
    by (rule phys_inv_free_list)
  then have "flist (mem s) (freepages s) []" using assms(2) by (auto simp: pool_def)
  from kfree_pages_ok [OF assms(1,3,4,6) _ assms(7) this] assms(2) obtain s' where
    s': "kfree_pages p n s = Ok s'" "pool s' = block_pages p (unat n)"
    "flist (mem s') (freepages s') (rev (map (\<lambda>j. p + of_nat (4096 * j)) [0..<unat n]))" by auto
  have "\<not> n \<le> 1" using assms(5) by (simp add: word_le_nat_alt)
  then have "alloc_contiguous_from_freelist n s' = Some (0, s')"
    using contig_search_descending [OF s'(3) assms(5)] by (simp add: alloc_contiguous_from_freelist_def)
  then show ?thesis using s' by blast
qed

definition full_kmem :: kmem where
  "full_kmem = boot_kmem\<lparr>hhdm_offset := 0x800000000000, mem_initialized := True\<rparr>"

theorem kfree_pages_not_reusable_witness:
  "\<exists>s'. kfree_pages 0x800000010000 2 full_kmem = Ok s' \<and>
     pool s' = block_pages 0x800000010000 2 \<and> alloc_contiguous_from_freelist 2 s' = Some (0, s')"
proof -
  have fl: "flist (mem full_kmem) (freepages full_kmem) []" by (simp add: full_kmem_def boot_kmem_def)
  have "phys_inv full_kmem"
    by (rule phys_invI [OF fl]) (simp_all add: full_kmem_def boot_kmem_def page_aligned_def PAGE_SIZE_def)
  moreover have "pool full_kmem = {}"
    using free_list_pages_flist [OF fl] by (simp add: pool_def full_kmem_def boot_kmem_def)
  ultimately show ?thesis
    using kfree_pages_not_reusable [of full_kmem "0x800000010000" 2]
    by (simp add: page_aligned_def PAGE_SIZE_def block_pages_eval)
qed

section \<open>Boot\<close>

text \<open>
  C6: from a memory map below 4 GB whose usable entries do not overlap and are at most
  32, \<^verbatim>\<open>init_mem\<close> succeeds, establishes the allocator's invariant and makes exactly the
  whole pages inside the usable entries free, writing no memory.
\<close>

theorem init_mem_ok:
  assumes "boot_state s" "page_aligned h" "h \<noteq> 0" "unat h + 2 ^ 32 \<le> 2 ^ 64"
    "\<forall>e. Some e \<in> set es \<longrightarrow> entry_low e" "entries_disjoint (usable_entries es)"
    "length (usable_entries es) \<le> 32"
  shows "\<exists>s'. init_mem h (Some es) s = Ok s' \<and> phys_inv s' \<and> mem_initialized s' \<and> mem s' = mem s \<and>
    pool s' = P2V h ` (\<Union>e \<in> set (usable_entries es). entry_pages e)"
proof -
  let ?us = "usable_entries es"
  have us: "\<forall>e \<in> set ?us. entry_low e \<and> usable e"
    using assms(5) by (auto simp: usable_entries_def map_filter_def)
  note ok = entry_regions_ok [OF us assms(6), of h]
  have b: "freepages s = 0" "regions s = []" "static_region_pool_idx s = 0" "\<not> mem_initialized s"
    using assms(1) by (auto simp: boot_state_def)
  obtain m where "init_mem_loop es (s\<lparr>hhdm_offset := h\<rparr>) = Ok (s\<lparr>hhdm_offset := h, phys_max_end := m,
       static_region_pool_idx := length ?us, regions := map entry_region ?us\<rparr>)"
    using init_mem_loop_spec [OF assms(5), of "s\<lparr>hhdm_offset := h\<rparr>"] b assms(7) by auto
  then have res: "init_mem h (Some es) s = Ok (s\<lparr>hhdm_offset := h, phys_max_end := m,
      static_region_pool_idx := length ?us, regions := map entry_region ?us, mem_initialized := True\<rparr>)"
      (is "_ = Ok ?s")
    using b by (simp add: init_mem_def)
  have nz: "P2V h pa \<noteq> 0" if "e \<in> set ?us" "pa \<in> entry_pages e" for e pa
  proof -
    have "unat pa + unat h < 2 ^ 64" "0 < unat h"
      using that us assms(3,4) by (auto simp: entry_low_def entry_pages_def unat_gt_0)
    then have "unat (P2V h pa) = unat pa + unat h" by (simp add: P2V_def unat_word_ariths)
    then show ?thesis using \<open>0 < unat h\<close> by auto
  qed
  have fl: "flist (mem ?s) (freepages ?s) []" using b by simp
  have "phys_inv ?s"
    by (rule phys_invI [OF fl]) (use ok nz assms(2) in auto)
  moreover have "pool ?s = P2V h ` (\<Union>e \<in> set ?us. entry_pages e)"
    using ok free_list_pages_flist [OF fl] by (simp add: pool_def)
  ultimately show ?thesis using res by simp
qed

theorem init_mem_ok_witness:
  "\<exists>s'. init_mem 0x800000000000 (Some [None, Some sample_entry]) boot_kmem = Ok s' \<and> phys_inv s' \<and>
     pool s' = P2V 0x800000000000 ` entry_pages sample_entry"
proof -
  have u: "usable_entries [None, Some sample_entry] = [sample_entry]"
    by (simp add: sample_entry_def usable_def)
  show ?thesis
    using init_mem_ok [where s = boot_kmem and h = "0x800000000000" and es = "[None, Some sample_entry]", unfolded u]
    by (simp add: boot_state_def boot_kmem_def page_aligned_def PAGE_SIZE_def entry_low_def sample_entry_def) blast
qed

text \<open>
  With more than 32 usable entries \<^verbatim>\<open>init_mem\<close> panics.
\<close>

theorem init_mem_too_many:
  assumes "boot_state s" "\<forall>e. Some e \<in> set es \<longrightarrow> entry_low e" "32 < length (usable_entries es)"
  shows "init_mem h (Some es) s =
    Panic ''init_mem: failed to register memory region - increase STATIC_REGION_POOL_SIZE''"
  using init_mem_loop_spec [OF assms(2), where s = "s\<lparr>hhdm_offset := h\<rparr>"] assms(1,3)
  by (auto simp: boot_state_def init_mem_def)

theorem init_mem_too_many_witness:
  "init_mem 0 (Some (replicate 33 (Some sample_entry))) boot_kmem =
     Panic ''init_mem: failed to register memory region - increase STATIC_REGION_POOL_SIZE''"
proof (rule init_mem_too_many)
  have "usable_entries (replicate n (Some sample_entry)) = replicate n sample_entry" for n
    by (induction n) (simp_all add: sample_entry_def usable_def)
  then show "32 < length (usable_entries (replicate 33 (Some sample_entry)))" by simp
qed (auto simp: boot_state_def boot_kmem_def entry_low_def sample_entry_def)

text \<open>
  The page masks are 32 bits wide, so usable memory at 4 GB is registered as the
  region of the same length at physical address zero, which the boot loader did not report.
\<close>

theorem init_mem_high:
  assumes "boot_state s"
  shows "\<exists>s'. init_mem h (Some [Some \<lparr>me_base = 0x100000000, me_length = 0x100000,
      me_type = LIMINE_MEMMAP_USABLE\<rparr>]) s = Ok s' \<and> regions s' = [\<lparr>phys_cur = 0, phys_end = 0x100000\<rparr>]"
  using assms
  by (simp add: init_mem_def init_mem_entry_def append_region_def boot_state_def PAGE_SIZE_def
      page_not_mask_def STATIC_REGION_POOL_SIZE_def Let_def)

theorem init_mem_high_witness:
  "\<exists>s'. init_mem 0x800000000000 (Some [Some \<lparr>me_base = 0x100000000, me_length = 0x100000,
      me_type = LIMINE_MEMMAP_USABLE\<rparr>]) boot_kmem = Ok s' \<and> regions s' = [\<lparr>phys_cur = 0, phys_end = 0x100000\<rparr>]"
  by (rule init_mem_high) (simp add: boot_state_def boot_kmem_def)

end
