(* ===== verification/Page_Props.thy ===== *)
theory Page_Props
  imports Page_Alloc Phys_Props
begin

text \<open>
  The properties of \<^verbatim>\<open>kernel/src/mem/vmm.c\<close>, stated on the translation of an address space,
  each with an instance on a small concrete space.
\<close>

section \<open>A sample address space\<close>

definition sample_space :: kmem where
  "sample_space = sample_kmem\<lparr>regions := [\<lparr>phys_cur = 0x2000, phys_end = 0xa000\<rparr>], phys_max_end := 0xa000\<rparr>"

definition sample_root :: u64 where
  "sample_root = 0x800000001000"

definition sample_own :: "u64 \<Rightarrow> (nat \<times> nat) option" where
  "sample_own = [sample_root \<mapsto> (3, 0)]"

lemma load64_zero [simp]: "load64 (\<lambda>_. 0) a = 0"
proof -
  have "load_le n (\<lambda>_. 0) a = 0" for n a by (induction n arbitrary: a) simp_all
  then show ?thesis by (simp add: load64_def)
qed

lemma sample_space_regions:
  "regions_pages 0x800000000000 [\<lparr>phys_cur = 0x2000, phys_end = 0xa000\<rparr>] = block_pages 0x800000002000 8"
proof -
  have "{pa :: u64. page_aligned pa \<and> 0x2000 \<le> pa \<and> pa < 0x2000 + of_nat (4096 * 8)} = block_pages 0x2000 8"
    by (rule aligned_in_span) (simp_all add: page_aligned_def PAGE_SIZE_def)
  then have "region_pages 0x800000000000 \<lparr>phys_cur = 0x2000, phys_end = 0xa000\<rparr> =
      P2V 0x800000000000 ` block_pages 0x2000 8"
    by (simp add: region_pages_def)
  then show ?thesis unfolding P2V_block by (simp add: P2V_def)
qed

lemma sample_space_simps [simp]:
  "mem sample_space = (\<lambda>_. 0)" "hhdm_offset sample_space = 0x800000000000" "freepages sample_space = 0"
  by (simp_all add: sample_space_def sample_kmem_def)

lemma sample_space_pool: "pool sample_space = block_pages 0x800000002000 8"
proof -
  have "regions sample_space = [\<lparr>phys_cur = 0x2000, phys_end = 0xa000\<rparr>]"
    by (simp add: sample_space_def)
  moreover have "free_list_pages sample_space = {}" using free_list_pages_flist [of sample_space "[]"] by simp
  ultimately show ?thesis unfolding pool_def sample_space_simps by (simp only: sample_space_regions) simp
qed

lemma sample_space_card: "card (pool sample_space) = 8"
  by (simp add: sample_space_pool block_pages_eval)

lemma sample_space_inv [simp]: "phys_inv sample_space"
proof (rule phys_invI [of _ "[]"])
  have r: "regions sample_space = [\<lparr>phys_cur = 0x2000, phys_end = 0xa000\<rparr>]"
    by (simp add: sample_space_def)
  show "0 \<notin> regions_pages (hhdm_offset sample_space) (regions sample_space)"
    unfolding r sample_space_simps sample_space_regions by (simp add: block_pages_eval)
  show "regions_ok (hhdm_offset sample_space) (regions sample_space)"
    unfolding r by (simp add: region_ok_def page_aligned_def PAGE_SIZE_def)
qed (simp_all add: page_aligned_def PAGE_SIZE_def)

lemma sample_space_tables [simp]: "pt_inv sample_own sample_space sample_root"
  unfolding pt_inv_def sample_space_pool
  by (auto simp: sample_own_def sample_root_def page_aligned_def PAGE_SIZE_def block_pages_eval split: if_splits)

lemma sample_space_addressable [simp]: "pool_addressable sample_space"
  unfolding pool_addressable_def sample_space_pool sample_space_simps
  by (simp add: block_pages_eval V2P_def PTE_SET_ADDR_def PTE_ADDR_MASK_def)

lemma sample_space_translate [simp]: "translate sample_space sample_root va = None"
  by (simp add: translate_def pt_lookup_def numeral_3_eq_3)

definition user_rw :: pte_permissions where
  "user_rw = \<lparr>writable = True, executable = False, userspace = True\<rparr>"

section \<open>Mapping\<close>

text \<open>
  C7: \<^verbatim>\<open>vmm_map_pages\<close> on an unmapped, aligned user range either runs out of memory, never
  with three free pages (tables) for each page of the range, or maps page \<open>n\<close> of the range to physical page \<open>n\<close> with the requested permissions and leaves
  every other translation of the address space as it was; it never panics there, keeps the
  invariants of tables and allocator, and writes only tables and pages it took.
\<close>

theorem vmm_map_pages_correct:
  assumes "pt_inv own s root" "phys_inv s" "pool_addressable s"
    "page_aligned pa" "sz mod PAGE_SIZE = 0" "sz \<noteq> 0" "user_run va (unat sz div 4096)"
    "\<forall>j < unat sz div 4096. translate s root (va + of_nat j * PAGE_SIZE) = None"
  shows "\<exists>r s' own'. vmm_map_pages root va sz pa perm s = Ok (r, s') \<and>
    pt_inv own' s' root \<and> phys_inv s' \<and> (\<forall>a. page_of a \<notin> dom own \<union> pool s \<longrightarrow> mem s' a = mem s a) \<and>
    (r = -1 \<and> pool s' = {} \<and> card (pool s) < 3 * (unat sz div 4096) \<or>
     r = 0 \<and> (\<forall>va'. translate s' root va' =
       (let b = unat va div 4096; n = vpn va' 0 in
        if b \<le> n \<and> n < b + unat sz div 4096 then Some (build_pte perm (pa + of_nat (n - b) * PAGE_SIZE))
        else translate s root va')))"
proof -
  let ?xs = "run_entries va (\<lambda>i. build_pte perm (pa + i * PAGE_SIZE)) 0 (unat sz div 4096)"
  from map_pages_run [OF assms] obtain r s' where r: "vmm_map_pages root va sz pa perm s = Ok (r, s')"
    "map_result own s root ?xs r s'" by blast
  from r(2) obtain own' n where m: "pt_inv own' s' root" "dom own' \<subseteq> dom own \<union> (pool s - pool s')"
    "\<forall>a. page_of a \<notin> dom own' \<longrightarrow> mem s' a = mem s a" "phys_inv s'"
    "\<forall>va. translate s' root va = override (take n ?xs) (translate s root) va"
    "if r = 0 then n = length ?xs else r = -1 \<and> n < length ?xs \<and> pool s' = {} \<and> card (pool s) < 3 * length ?xs"
    unfolding map_result_def by blast
  have "\<forall>va'. translate s' root va' =
       (let b = unat va div 4096; n = vpn va' 0 in
        if b \<le> n \<and> n < b + unat sz div 4096 then Some (build_pte perm (pa + of_nat (n - b) * PAGE_SIZE))
        else translate s root va')" if "r = 0"
    using m(5,6) that user_run_entries(3) [OF assms(7)] by (simp add: override_def Let_def)
  moreover have "\<forall>a. page_of a \<notin> dom own \<union> pool s \<longrightarrow> mem s' a = mem s a" using m(2,3) by blast
  moreover have "length ?xs = unat sz div 4096" by (simp add: run_entries_def)
  ultimately show ?thesis using r(1) m(1,4,6) by (metis (no_types, lifting))
qed

theorem vmm_map_pages_correct_witness:
  "\<exists>s' own'. vmm_map_pages sample_root 0x400000 0x2000 0x5000 user_rw sample_space = Ok (0, s') \<and>
     pt_inv own' s' sample_root \<and> translate s' sample_root 0x401234 = Some (build_pte user_rw 0x6000)"
proof -
  have "user_run 0x400000 2" by (simp add: user_run_def page_aligned_def PAGE_SIZE_def USERSPACE_VA_MIN_def)
  then obtain r s' own' where r: "vmm_map_pages sample_root 0x400000 0x2000 0x5000 user_rw sample_space = Ok (r, s')"
    "pt_inv own' s' sample_root"
    "r = -1 \<and> card (pool sample_space) < 3 * 2 \<or> r = 0 \<and> (\<forall>va'. translate s' sample_root va' =
       (let b = unat (0x400000 :: u64) div 4096; n = vpn va' 0 in
        if b \<le> n \<and> n < b + 2 then Some (build_pte user_rw (0x5000 + of_nat (n - b) * PAGE_SIZE))
        else translate sample_space sample_root va'))"
    using vmm_map_pages_correct [OF sample_space_tables sample_space_inv sample_space_addressable,
      where pa = "0x5000" and sz = "0x2000" and va = "0x400000" and perm = user_rw]
    by (auto simp: page_aligned_def PAGE_SIZE_def)
  moreover from this have "r = 0" by (simp add: sample_space_card)
  ultimately show ?thesis by (auto simp: vpn_def PAGE_SIZE_def Let_def)
qed

lemma vmm_walkaddr_spec:
  assumes "pt_inv own s root" "USERSPACE_VA_MIN \<le> va" "va < USERSPACE_VA_MAX"
  shows "vmm_walkaddr root va user s =
    Ok (case translate s root va of None \<Rightarrow> 0
        | Some e \<Rightarrow> if pte_is_user e = user then pte_follow e else 0)"
proof -
  from walk_read [OF assms] obtain pte where "walk root va False False s = Ok (pte, s)"
    "translate s root va = (if pte = 0 \<or> \<not> pte_is_present (load64 (mem s) pte) then None else Some (load64 (mem s) pte))" .
  then show ?thesis using assms(3) by (auto simp: vmm_walkaddr_def not_le [symmetric] Let_def)
qed

text \<open>
  \<^verbatim>\<open>vmm_walkaddr\<close> on a user address returns the physical page of its translation
  when there is one and its user bit is the one asked for, and zero otherwise.
\<close>

theorem vmm_walkaddr_correct:
  assumes "pt_inv own s root" "USERSPACE_VA_MIN \<le> va" "va < USERSPACE_VA_MAX"
  shows "vmm_walkaddr root va user s =
    Ok (case translate s root va of None \<Rightarrow> 0
        | Some e \<Rightarrow> if pte_is_user e = user then pte_follow e else 0)"
  using assms by (rule vmm_walkaddr_spec)

theorem vmm_walkaddr_correct_witness: "vmm_walkaddr sample_root 0x400000 True sample_space = Ok 0"
  using vmm_walkaddr_correct [OF sample_space_tables, of "0x400000" True]
  by (simp add: USERSPACE_VA_MIN_def USERSPACE_VA_MAX_def)

lemma allocate_run:
  assumes "pt_inv own s root" "phys_inv s" "pool_addressable s" "sz mod PAGE_SIZE = 0" "sz \<noteq> 0"
    "user_run va (unat sz div 4096)" "\<forall>j < unat sz div 4096. translate s root (va + of_nat j * PAGE_SIZE) = None"
  shows "\<exists>r s'. vmm_allocate root va sz perm clear s = Ok (r, s') \<and>
    alloc_result own s root va perm clear 0 (unat sz div 4096) r s'"
proof -
  let ?k = "unat sz div 4096"
  have "unat (sz div PAGE_SIZE) = ?k" by (simp add: PAGE_SIZE_def unat_div_distrib)
  then have "vmm_allocate root va sz perm clear s = allocate_loop root va perm clear 0 ?k s"
    using assms(4-6) by (simp add: vmm_allocate_def user_run_def page_aligned_mod)
  then show ?thesis
    using allocate_loop_spec [OF assms(1-3), of ?k va 0 perm clear] user_run_unat [OF assms(6)] assms(7)
    by simp
qed

lemma frame_entries_nth:
  "i < length fs \<Longrightarrow> frame_entries va perm h c fs ! i =
     (va + (c + of_nat i) * PAGE_SIZE, build_pte perm (V2P h (fs ! i)))"
proof (induction fs arbitrary: i c)
  case (Cons f fs)
  then show ?case by (cases i) (simp_all add: add.assoc)
qed simp

lemma length_frame_entries [simp]: "length (frame_entries va perm h c fs) = length fs"
  by (induction fs arbitrary: c) simp_all

lemma frame_entries_run:
  "frame_entries va perm h 0 fs =
     run_entries va (\<lambda>i. build_pte perm (V2P h (fs ! unat i))) 0 (length fs)" if "length fs < 2 ^ 64"
proof (rule nth_equalityI)
  fix i assume "i < length (frame_entries va perm h 0 fs)"
  then show "frame_entries va perm h 0 fs ! i =
      run_entries va (\<lambda>i. build_pte perm (V2P h (fs ! unat i))) 0 (length fs) ! i"
    using that by (simp add: frame_entries_nth run_entries_def unat_of_nat_u64)
qed (simp add: run_entries_def)

lemma vmm_allocate_spec:
  assumes "pt_inv own s root" "phys_inv s" "pool_addressable s" "sz mod PAGE_SIZE = 0" "sz \<noteq> 0"
    "user_run va (unat sz div 4096)" "\<forall>j < unat sz div 4096. translate s root (va + of_nat j * PAGE_SIZE) = None"
  shows "\<exists>r s' own' fs. vmm_allocate root va sz perm clear s = Ok (r, s') \<and>
    dom own' \<subseteq> dom own \<union> pool s \<and> pool s' \<subseteq> pool s \<and> hhdm_offset s' = hhdm_offset s \<and>
    pt_inv own' s' root \<and> phys_inv s' \<and> (\<forall>a. page_of a \<notin> dom own \<union> pool s \<longrightarrow> mem s' a = mem s a) \<and>
    distinct fs \<and> set fs \<subseteq> pool s - pool s' - dom own' \<and>
    (clear \<longrightarrow> (\<forall>a. page_of a \<in> set fs \<longrightarrow> mem s' a = 0)) \<and>
    (r = -1 \<and> (\<exists>x. pool s' \<subseteq> {x}) \<and> card (pool s) < 4 * (unat sz div 4096) \<or>
     r = 0 \<and> card (pool s) \<le> card (pool s') + 4 * (unat sz div 4096) \<and> length fs = unat sz div 4096 \<and> (\<forall>va'. translate s' root va' =
       (let b = unat va div 4096; n = vpn va' 0 in
        if b \<le> n \<and> n < b + length fs then Some (build_pte perm (V2P (hhdm_offset s) (fs ! (n - b))))
        else translate s root va')))"
proof -
  let ?k = "unat sz div 4096"
  from allocate_run [OF assms] obtain r s' where r: "vmm_allocate root va sz perm clear s = Ok (r, s')"
    "alloc_result own s root va perm clear 0 ?k r s'" by blast
  from r(2) obtain own' fs where R: "pt_inv own' s' root" "dom own' \<subseteq> dom own \<union> pool s" "phys_inv s'"
    "distinct fs" "set fs \<subseteq> pool s" "set fs \<inter> (pool s' \<union> dom own') = {}"
    "\<forall>a. page_of a \<notin> dom own' \<union> pool s \<longrightarrow> mem s' a = mem s a"
    "clear \<longrightarrow> (\<forall>a. page_of a \<in> set fs \<longrightarrow> mem s' a = 0)"
    "\<forall>va'. translate s' root va' = override (frame_entries va perm (hhdm_offset s) 0 fs) (translate s root) va'"
    "if r = 0 then length fs = ?k \<and> card (pool s) \<le> card (pool s') + 4 * ?k
     else r = -1 \<and> length fs < ?k \<and> (\<exists>x. pool s' \<subseteq> {x}) \<and> card (pool s) < 4 * ?k"
    "pool s' \<subseteq> pool s" "hhdm_offset s' = hhdm_offset s"
    unfolding alloc_result_def by blast
  have "?k < 2 ^ 64" using unat_lt_2p64 [of sz] by simp
  then have len: "length fs < 2 ^ 64" "length fs \<le> ?k" using R(10) by (auto split: if_splits)
  have run: "user_run va (length fs)" using assms(6) len(2) by (simp add: user_run_def)
  have un: "unat (of_nat (n - b) :: u64) = n - b" if "n < b + length fs" for n b
    by (rule unat_of_nat_u64) (use that len(1) in linarith)
  have tr: "\<forall>va'. translate s' root va' = (let b = unat va div 4096; n = vpn va' 0 in
        if b \<le> n \<and> n < b + length fs then Some (build_pte perm (V2P (hhdm_offset s) (fs ! (n - b))))
        else translate s root va')"
    using R(9) user_run_entries(3) [OF run] un unfolding frame_entries_run [OF len(1)]
    by (simp add: override_def Let_def del: of_nat_diff)
  have "\<forall>a. page_of a \<notin> dom own \<union> pool s \<longrightarrow> mem s' a = mem s a" using R(2,7) by blast
  moreover have "set fs \<subseteq> pool s - pool s' - dom own'" using R(5,6) by blast
  ultimately show ?thesis
    using r(1) R(1-4,8,10-12) tr
    by (intro exI [of _ r] exI [of _ s'] exI [of _ own'] exI [of _ fs]) (auto split: if_splits)
qed

text \<open>
  C8: \<^verbatim>\<open>vmm_allocate\<close> on an unmapped, aligned user range either reports that memory is
  exhausted, never with four free pages for each page of the range, or maps every page of the range to a frame of its own: the frames are distinct,
  were free, are tables of nothing, carry the requested permissions and are zero when
  \<^verbatim>\<open>clear\<close> is set. No other translation and no byte outside tables and frames changes.
\<close>

theorem vmm_allocate_correct:
  assumes "pt_inv own s root" "phys_inv s" "pool_addressable s" "sz mod PAGE_SIZE = 0" "sz \<noteq> 0"
    "user_run va (unat sz div 4096)" "\<forall>j < unat sz div 4096. translate s root (va + of_nat j * PAGE_SIZE) = None"
  shows "\<exists>r s' own' fs. vmm_allocate root va sz perm clear s = Ok (r, s') \<and>
    pt_inv own' s' root \<and> phys_inv s' \<and> (\<forall>a. page_of a \<notin> dom own \<union> pool s \<longrightarrow> mem s' a = mem s a) \<and>
    distinct fs \<and> set fs \<subseteq> pool s - pool s' - dom own' \<and>
    (clear \<longrightarrow> (\<forall>a. page_of a \<in> set fs \<longrightarrow> mem s' a = 0)) \<and>
    (r = -1 \<and> (\<exists>x. pool s' \<subseteq> {x}) \<and> card (pool s) < 4 * (unat sz div 4096) \<or>
     r = 0 \<and> length fs = unat sz div 4096 \<and> (\<forall>va'. translate s' root va' =
       (let b = unat va div 4096; n = vpn va' 0 in
        if b \<le> n \<and> n < b + length fs then Some (build_pte perm (V2P (hhdm_offset s) (fs ! (n - b))))
        else translate s root va')))"
  using vmm_allocate_spec [OF assms, of perm clear] by blast

theorem vmm_allocate_correct_witness:
  "\<exists>s' own' fs. vmm_allocate sample_root 0x400000 0x1000 user_rw True sample_space = Ok (0, s') \<and>
     pt_inv own' s' sample_root \<and> length fs = 1 \<and>
     translate s' sample_root 0x400abc = Some (build_pte user_rw (V2P 0x800000000000 (fs ! 0)))"
proof -
  have c: "(0x1000 :: u64) mod PAGE_SIZE = 0" "(0x1000 :: u64) \<noteq> 0" "user_run 0x400000 (unat (0x1000 :: u64) div 4096)"
    by (simp_all add: user_run_def page_aligned_def PAGE_SIZE_def USERSPACE_VA_MIN_def)
  from vmm_allocate_correct [OF sample_space_tables sample_space_inv sample_space_addressable c,
      where perm = user_rw and clear = True]
  obtain r s' own' fs where r: "vmm_allocate sample_root 0x400000 0x1000 user_rw True sample_space = Ok (r, s')"
    "pt_inv own' s' sample_root"
    "r = -1 \<and> card (pool sample_space) < 4 * (unat (0x1000 :: u64) div 4096) \<or>
     r = 0 \<and> length fs = unat (0x1000 :: u64) div 4096 \<and> (\<forall>va'. translate s' sample_root va' =
       (let b = unat (0x400000 :: u64) div 4096; n = vpn va' 0 in
        if b \<le> n \<and> n < b + length fs then Some (build_pte user_rw (V2P (hhdm_offset sample_space) (fs ! (n - b))))
        else translate sample_space sample_root va'))"
    using sample_space_translate by blast
  then show ?thesis
    using sample_space_card by (intro exI [of _ s'] exI [of _ own'] exI [of _ fs]) (auto simp: vpn_def)
qed

section \<open>\<^verbatim>\<open>sbrk\<close>\<close>

text \<open>The address space after the heap has grown by the pages from \<open>cur\<close> on, with frames \<open>fs\<close>.\<close>

definition heap_grown :: "(u64 \<Rightarrow> (nat \<times> nat) option) \<Rightarrow> kmem \<Rightarrow> u64 \<Rightarrow> u64 \<Rightarrow> u64 list \<Rightarrow>
    (u64 \<Rightarrow> (nat \<times> nat) option) \<Rightarrow> kmem \<Rightarrow> bool" where
  "heap_grown own s root cur fs own' s' \<longleftrightarrow>
     pt_inv own' s' root \<and> phys_inv s' \<and> pool s' \<subseteq> pool s \<and> hhdm_offset s' = hhdm_offset s \<and>
     dom own' \<subseteq> dom own \<union> pool s \<and> own \<subseteq>\<^sub>m own' \<and>
     distinct fs \<and> set fs \<subseteq> pool s \<and> set fs \<inter> (pool s' \<union> dom own') = {} \<and>
     (\<forall>a. page_of a \<in> set fs \<longrightarrow> mem s' a = 0) \<and>
     (\<forall>a. page_of a \<notin> dom own' \<union> pool s \<longrightarrow> mem s' a = mem s a) \<and>
     (\<forall>va'. translate s' root va' =
       override (frame_entries cur user_rw (hhdm_offset s) 0 fs) (translate s root) va')"

lemma heap_grown_one:
  assumes "alloc_result own s root va user_rw True 0 1 0 s'"
  obtains f own' where "heap_grown own s root va [f] own' s'"
proof -
  from assms obtain own' fs where R: "pt_inv own' s' root" "own \<subseteq>\<^sub>m own'" "dom own' \<subseteq> dom own \<union> pool s"
    "phys_inv s'" "pool s' \<subseteq> pool s" "hhdm_offset s' = hhdm_offset s" "distinct fs" "set fs \<subseteq> pool s"
    "set fs \<inter> (pool s' \<union> dom own') = {}" "\<forall>a. page_of a \<notin> dom own' \<union> pool s \<longrightarrow> mem s' a = mem s a"
    "\<forall>a. page_of a \<in> set fs \<longrightarrow> mem s' a = 0"
    "\<forall>va'. translate s' root va' = override (frame_entries va user_rw (hhdm_offset s) 0 fs) (translate s root) va'"
    "length fs = 1" unfolding alloc_result_def by auto
  then obtain f where "fs = [f]" by (auto simp: length_Suc_conv)
  then show ?thesis using R that [of f own'] unfolding heap_grown_def by blast
qed

lemma frame_entries_shift:
  "frame_entries (va + PAGE_SIZE) perm h i fs = frame_entries va perm h (i + 1) fs"
  by (induction fs arbitrary: i) (simp_all add: algebra_simps)

lemma heap_grown_Cons:
  assumes "heap_grown own s root cur [f] own1 s1" "heap_grown own1 s1 root (cur + PAGE_SIZE) fs own2 s2"
    "user_run cur (Suc (length fs))"
  shows "heap_grown own s root cur (f # fs) own2 s2"
proof -
  have a: "pool s1 \<subseteq> pool s" "hhdm_offset s1 = hhdm_offset s" "dom own1 \<subseteq> dom own \<union> pool s" "own \<subseteq>\<^sub>m own1"
    "f \<in> pool s" "f \<notin> pool s1 \<union> dom own1" "\<And>a. page_of a = f \<Longrightarrow> mem s1 a = 0"
    "\<And>a. page_of a \<notin> dom own1 \<union> pool s \<Longrightarrow> mem s1 a = mem s a"
    "\<And>va'. translate s1 root va' = override (frame_entries cur user_rw (hhdm_offset s) 0 [f]) (translate s root) va'"
    using assms(1) unfolding heap_grown_def by auto
  have b: "pt_inv own2 s2 root" "phys_inv s2" "pool s2 \<subseteq> pool s1" "hhdm_offset s2 = hhdm_offset s1"
    "dom own2 \<subseteq> dom own1 \<union> pool s1" "own1 \<subseteq>\<^sub>m own2" "distinct fs" "set fs \<subseteq> pool s1"
    "set fs \<inter> (pool s2 \<union> dom own2) = {}" "\<And>a. page_of a \<in> set fs \<Longrightarrow> mem s2 a = 0"
    "\<And>a. page_of a \<notin> dom own2 \<union> pool s1 \<Longrightarrow> mem s2 a = mem s1 a"
    "\<And>va'. translate s2 root va' =
       override (frame_entries (cur + PAGE_SIZE) user_rw (hhdm_offset s1) 0 fs) (translate s1 root) va'"
    using assms(2) unfolding heap_grown_def by auto
  have d: "dom own1 \<subseteq> dom own2" using b(6) map_le_implies_dom_le by blast
  have f2: "f \<notin> pool s2 \<union> dom own2" "f \<notin> dom own2 \<union> pool s1" using a(6) b(3,5) by blast+
  have z: "mem s2 a = 0" if "page_of a \<in> set (f # fs)" for a
  proof (cases "page_of a = f")
    case True
    then show ?thesis using a(7) b(11) [of a] f2(2) by simp
  next
    case False
    then show ?thesis using b(10) that by simp
  qed
  have fr: "mem s2 x = mem s x" if "page_of x \<notin> dom own2 \<union> pool s" for x
  proof -
    have "page_of x \<notin> dom own2 \<union> pool s1" "page_of x \<notin> dom own1 \<union> pool s" using that a(1) d by blast+
    then show ?thesis using a(8) b(11) by metis
  qed
  have fresh: "page_entries (frame_entries cur user_rw (hhdm_offset s) (0 + 1) fs) (vpn cur 0) = None"
  proof (rule frame_entries_fresh, intro allI impI)
    fix j assume "0 < j \<and> j \<le> length fs"
    then show "vpn (cur + (0 + of_nat j) * PAGE_SIZE) 0 \<noteq> vpn cur 0"
      using user_run_unat(2) [OF assms(3), of j] user_run_unat(2) [OF assms(3), of 0] by simp
  qed
  have one: "\<forall>va'. translate s1 root va' =
      (if vpn va' 0 = vpn cur 0 then Some (build_pte user_rw (V2P (hhdm_offset s) f)) else translate s root va')"
    using a(9) by (auto simp: override_def page_entries_def)
  have tr: "translate s2 root va' = override (frame_entries cur user_rw (hhdm_offset s) 0 (f # fs)) (translate s root) va'"
    for va' using b(12) override_Cons [OF _ one] fresh a(2) by (simp add: frame_entries_shift)
  have "own \<subseteq>\<^sub>m own2" using a(4) b(6) by (rule map_le_trans)
  moreover have "dom own2 \<subseteq> dom own \<union> pool s" using a(1,3) b(5) by blast
  moreover have "pool s2 \<subseteq> pool s" "distinct (f # fs)" "set (f # fs) \<subseteq> pool s"
    using a(1,5,6) b(3,7,8) by auto
  moreover have "set (f # fs) \<inter> (pool s2 \<union> dom own2) = {}" using f2(1) b(9) by auto
  ultimately show ?thesis
    unfolding heap_grown_def using b(1,2,4) a(2) z fr tr by auto
qed

lemma sbrk_allocate_loop_spec:
  assumes "pt_inv own s root" "phys_inv s" "pool_addressable s" "user_run cur k"
    "\<forall>j < k. translate s root (cur + of_nat j * PAGE_SIZE) = None"
    "unat new_sbrk \<le> unat cur + 4096 * k" "k = 0 \<or> unat cur + 4096 * (k - 1) < unat new_sbrk"
  shows "sbrk_allocate_loop root cur new_sbrk s = Some (Panic ''sbrk: OOM'') \<and> card (pool s) < 4 * k \<or>
    (\<exists>s' own' fs. sbrk_allocate_loop root cur new_sbrk s = Some (Ok s') \<and> length fs = k \<and>
       heap_grown own s root cur fs own' s')"
  using assms
proof (induction k arbitrary: cur s own)
  case 0
  then have "\<not> cur < new_sbrk" by (simp add: word_less_nat_alt)
  moreover have "heap_grown own s root cur [] own s" using 0 by (simp add: heap_grown_def)
  ultimately show ?case by (subst (2) sbrk_allocate_loop.simps) auto
next
  case (Suc k)
  have lt: "cur < new_sbrk" using Suc.prems(7) by (simp add: word_less_nat_alt)
  have one: "user_run cur (unat PAGE_SIZE div 4096)" "PAGE_SIZE mod PAGE_SIZE = 0" "PAGE_SIZE \<noteq> 0"
    using Suc.prems(4) by (simp_all add: user_run_def PAGE_SIZE_def)
  have un: "\<forall>j < unat PAGE_SIZE div 4096. translate s root (cur + of_nat j * PAGE_SIZE) = None"
    using Suc.prems(5) [rule_format, of 0] by (simp add: PAGE_SIZE_def)
  from allocate_run [OF Suc.prems(1-3) one(2,3,1) un, of user_rw True] obtain r s1 where
    r: "vmm_allocate root cur PAGE_SIZE user_rw True s = Ok (r, s1)"
    "alloc_result own s root cur user_rw True 0 1 r s1" by (auto simp: PAGE_SIZE_def)
  show ?case
  proof (cases "r = 0")
    case False
    then have "r = -1" "card (pool s) < 4" using r(2) by (auto simp: alloc_result_def)
    then show ?thesis
      using lt r(1) by (subst sbrk_allocate_loop.simps) (simp add: user_rw_def)
  next
    case True
    then obtain f own1 where g: "heap_grown own s root cur [f] own1 s1" using r(2) heap_grown_one by blast
    then have g': "pt_inv own1 s1 root" "phys_inv s1" "pool s1 \<subseteq> pool s" "hhdm_offset s1 = hhdm_offset s"
      "\<And>va'. translate s1 root va' = override (frame_entries cur user_rw (hhdm_offset s) 0 [f]) (translate s root) va'"
      by (auto simp: heap_grown_def)
    have eq: "sbrk_allocate_loop root cur new_sbrk s = sbrk_allocate_loop root (cur + PAGE_SIZE) new_sbrk s1"
      using lt r(1) True by (subst sbrk_allocate_loop.simps) (simp add: user_rw_def)
    have cur': "unat (cur + PAGE_SIZE) = unat cur + 4096"
      using Suc.prems(4) by (simp add: user_run_def PAGE_SIZE_def unat_word_ariths)
    have run: "user_run (cur + PAGE_SIZE) k"
      using Suc.prems(4) cur' by (simp add: user_run_def page_aligned_unat word_le_nat_alt)
    have sh: "cur + PAGE_SIZE + of_nat j * PAGE_SIZE = cur + of_nat (Suc j) * PAGE_SIZE" for j
      by (simp add: algebra_simps)
    have un1: "\<forall>j < k. translate s1 root (cur + PAGE_SIZE + of_nat j * PAGE_SIZE) = None"
    proof (intro allI impI)
      fix j assume j: "j < k"
      have "vpn (cur + of_nat (Suc j) * PAGE_SIZE) 0 \<noteq> vpn cur 0"
        using user_run_unat(2) [OF Suc.prems(4), of "Suc j"] user_run_unat(2) [OF Suc.prems(4), of 0] j by simp
      then show "translate s1 root (cur + PAGE_SIZE + of_nat j * PAGE_SIZE) = None"
        using Suc.prems(5) [rule_format, of "Suc j"] j unfolding sh g'(5) by (simp add: override_def page_entries_def)
    qed
    have "pool_addressable s1" using pool_addressable_mono [OF Suc.prems(3) g'(3,4)] .
    note IH = Suc.IH [OF g'(1,2) this run un1]
    have "card (pool s) \<le> card (pool s1) + 4" using r(2) True by (auto simp: alloc_result_def)
    then have cnt: "card (pool s1) < 4 * k \<Longrightarrow> card (pool s) < 4 * Suc k" by simp
    have "unat new_sbrk \<le> unat (cur + PAGE_SIZE) + 4096 * k" using Suc.prems(6) cur' by simp
    moreover have "k = 0 \<or> unat (cur + PAGE_SIZE) + 4096 * (k - 1) < unat new_sbrk"
      using Suc.prems(7) cur' by (cases k) auto
    ultimately show ?thesis
      using IH eq cnt heap_grown_Cons [OF g] Suc.prems(4) by (metis length_Cons)
  qed
qed

lemma ceil_bounds: "x \<le> 4096 * ((x + 4095) div 4096)" "4096 * ((x + 4095) div 4096) < x + 4096" for x :: nat
  using mult_div_mod_eq [of 4096 "x + 4095"] mod_less_divisor [of 4096 "x + 4095"] by linarith+

text \<open>
  C9: growing the heap below 4 GB: \<^verbatim>\<open>vmm_user_sbrk_allocate\<close> returns; it panics only when memory
  runs out, never with four free pages (a frame and three tables) for each page to map, and
  otherwise yields the new break with every page from the rounded-up old break
  to the new one mapped to a zeroed frame of its own, user-accessible and writable, all
  other translations and all foreign bytes unchanged.
\<close>

theorem vmm_user_sbrk_allocate_correct:
  fixes old_sbrk :: u64 and delta :: u64
  assumes "pt_inv own s root" "phys_inv s" "pool_addressable s" "USERSPACE_VA_MIN \<le> old_sbrk"
    "unat old_sbrk + unat delta + 4096 < 2 ^ 32"
  defines "b \<equiv> (unat old_sbrk + 4095) div 4096"
    and "k \<equiv> (unat old_sbrk + unat delta + 4095) div 4096 - (unat old_sbrk + 4095) div 4096"
  assumes "\<forall>j < k. translate s root (of_nat (4096 * (b + j))) = None"
  shows "vmm_user_sbrk_allocate root old_sbrk delta s = Some (Panic ''sbrk: OOM'') \<and> card (pool s) < 4 * k \<or>
    (\<exists>s' own' fs. vmm_user_sbrk_allocate root old_sbrk delta s = Some (Ok (old_sbrk + delta, s')) \<and>
       pt_inv own' s' root \<and> phys_inv s' \<and> distinct fs \<and> set fs \<subseteq> pool s - pool s' - dom own' \<and> length fs = k \<and>
       (\<forall>a. page_of a \<in> set fs \<longrightarrow> mem s' a = 0) \<and>
       (\<forall>a. page_of a \<notin> dom own \<union> pool s \<longrightarrow> mem s' a = mem s a) \<and>
       (\<forall>va'. translate s' root va' =
         (let n = vpn va' 0 in
          if b \<le> n \<and> n < b + k then Some (build_pte user_rw (V2P (hhdm_offset s) (fs ! (n - b))))
          else translate s root va')))"
proof -
  let ?cur = "PAGE_ROUND_UP old_sbrk" and ?new = "old_sbrk + delta"
  have cur: "unat ?cur = 4096 * b"
    using unat_PAGE_ROUND_UP [of old_sbrk] assms(5) by (simp add: b_def)
  have new: "unat ?new = unat old_sbrk + unat delta" using assms(5) by (simp add: unat_word_ariths)
  have bk: "unat old_sbrk \<le> 4096 * b" "4096 * b + 4096 * k \<le> unat old_sbrk + unat delta + 4095"
    "unat old_sbrk + unat delta \<le> 4096 * b + 4096 * k"
    "k = 0 \<or> 4096 * b + 4096 * (k - 1) < unat old_sbrk + unat delta"
  proof -
    let ?c = "(unat old_sbrk + unat delta + 4095) div 4096"
    have c: "unat old_sbrk \<le> 4096 * b" "4096 * ?c \<le> unat old_sbrk + unat delta + 4095"
      "unat old_sbrk + unat delta \<le> 4096 * ?c" "4096 * ?c < unat old_sbrk + unat delta + 4096"
      using ceil_bounds [of "unat old_sbrk"] ceil_bounds [of "unat old_sbrk + unat delta"] by (simp_all add: b_def)
    have "b \<le> ?c" unfolding b_def by (rule div_le_mono) simp
    then have "4096 * b + 4096 * k = 4096 * ?c" by (simp add: k_def b_def [symmetric] diff_mult_distrib2)
    then show "unat old_sbrk \<le> 4096 * b" "4096 * b + 4096 * k \<le> unat old_sbrk + unat delta + 4095"
      "unat old_sbrk + unat delta \<le> 4096 * b + 4096 * k"
      "k = 0 \<or> 4096 * b + 4096 * (k - 1) < unat old_sbrk + unat delta"
      using c by (simp_all, cases k, simp_all)
  qed
  have run: "user_run ?cur k"
    using cur bk(1,2) assms(4,5) by (simp add: user_run_def word_le_nat_alt)
  have va: "?cur + of_nat j * PAGE_SIZE = of_nat (4096 * (b + j))" if "j < k" for j
  proof -
    have "unat (of_nat (4096 * (b + j)) :: u64) = 4096 * (b + j)"
      by (rule unat_of_nat_u64) (use that bk(2) assms(5) in simp)
    then show ?thesis using user_run_unat(1) [OF run that] cur by (simp add: word_unat_eq_iff)
  qed
  have un: "\<forall>j < k. translate s root (?cur + of_nat j * PAGE_SIZE) = None" using assms(8) va by simp
  have bd: "unat ?new \<le> unat ?cur + 4096 * k" "k = 0 \<or> unat ?cur + 4096 * (k - 1) < unat ?new"
    using bk(3,4) new cur by simp_all
  from sbrk_allocate_loop_spec [OF assms(1-3) run un bd] show ?thesis
  proof (elim disjE exE conjE)
    assume "sbrk_allocate_loop root ?cur ?new s = Some (Panic ''sbrk: OOM'')" "card (pool s) < 4 * k"
    then show ?thesis by (simp add: vmm_user_sbrk_allocate_def)
  next
    fix s' own' fs assume l: "sbrk_allocate_loop root ?cur ?new s = Some (Ok s')" "length fs = k"
      and g: "heap_grown own s root ?cur fs own' s'"
    have len: "length fs < 2 ^ 64" using l(2) bk(2) assms(5) by simp
    have un: "unat (of_nat (n - b) :: u64) = n - b" if "n < b + k" for n
      by (rule unat_of_nat_u64) (use that l(2) len in linarith)
    have "unat ?cur div 4096 = b" using cur by simp
    then have "\<forall>va'. translate s' root va' = (let n = vpn va' 0 in
          if b \<le> n \<and> n < b + k then Some (build_pte user_rw (V2P (hhdm_offset s) (fs ! (n - b))))
          else translate s root va')"
      using g user_run_entries(3) [OF run] un l(2) unfolding heap_grown_def frame_entries_run [OF len]
      by (simp add: override_def Let_def del: of_nat_diff)
    moreover have "\<forall>a. page_of a \<notin> dom own \<union> pool s \<longrightarrow> mem s' a = mem s a"
      using g unfolding heap_grown_def by blast
    moreover have "set fs \<subseteq> pool s - pool s' - dom own'" using g unfolding heap_grown_def by blast
    ultimately show ?thesis
      using g l unfolding heap_grown_def vmm_user_sbrk_allocate_def by auto
  qed
qed

theorem vmm_user_sbrk_allocate_correct_witness:
  "\<exists>s' fs. vmm_user_sbrk_allocate sample_root 0x400010 0x1000 sample_space = Some (Ok (0x401010, s')) \<and>
     length fs = 1 \<and> translate s' sample_root 0x401000 = Some (build_pte user_rw (V2P 0x800000000000 (fs ! 0)))"
proof -
  have c: "USERSPACE_VA_MIN \<le> (0x400010 :: u64)" "unat (0x400010 :: u64) + unat (0x1000 :: u64) + 4096 < 2 ^ 32"
    by (simp_all add: USERSPACE_VA_MIN_def)
  have un: "\<forall>j < k. translate sample_space sample_root (of_nat (4096 * (b + j))) = None" for k b :: nat by simp
  note th = vmm_user_sbrk_allocate_correct [OF sample_space_tables sample_space_inv sample_space_addressable c un]
  have v: "vpn 0x401000 0 = 0x401" by (simp add: vpn_def)
  show ?thesis using th
  proof (elim disjE exE conjE)
    fix s' and own' :: "u64 \<Rightarrow> (nat \<times> nat) option" and fs
    assume "vmm_user_sbrk_allocate sample_root 0x400010 0x1000 sample_space = Some (Ok (0x400010 + 0x1000, s'))"
      "length fs = (unat (0x400010 :: u64) + unat (0x1000 :: u64) + 4095) div 4096 - (unat (0x400010 :: u64) + 4095) div 4096"
      "\<forall>va'. translate s' sample_root va' = (let n = vpn va' 0 in
          if (unat (0x400010 :: u64) + 4095) div 4096 \<le> n \<and>
             n < (unat (0x400010 :: u64) + 4095) div 4096 +
               ((unat (0x400010 :: u64) + unat (0x1000 :: u64) + 4095) div 4096 - (unat (0x400010 :: u64) + 4095) div 4096)
          then Some (build_pte user_rw (V2P (hhdm_offset sample_space) (fs ! (n - (unat (0x400010 :: u64) + 4095) div 4096))))
          else translate sample_space sample_root va')"
    then show ?thesis using v by (intro exI [of _ s'] exI [of _ fs]) (simp add: Let_def)
  qed (use sample_space_card in simp_all)
qed

text \<open>
  Shrinking a heap whose break is page-aligned: \<^verbatim>\<open>vmm_user_sbrk_deallocate\<close> looks at the
  page the old break points to, which is not part of the heap. Where that page is unmapped
  but its table exists, shrinking by one page maps and unmaps nothing and instead puts the
  page of physical address zero on the free list.
\<close>

theorem vmm_user_sbrk_deallocate_frees_zero:
  assumes "pt_inv own s root" "phys_inv s" "page_aligned old_sbrk" "unat old_sbrk < 2 ^ 32"
    "USERSPACE_VA_MIN + PAGE_SIZE \<le> old_sbrk" "pt_table (mem s) (hhdm_offset s) 3 root old_sbrk = Some t"
    "load64 (mem s) (slot t (PTE_INDEX_FROM_VA old_sbrk 0)) = 0"
    "P2V (hhdm_offset s) 0 \<notin> pool s \<union> dom own" "hhdm_offset s \<noteq> 0"
  shows "\<exists>s'. vmm_user_sbrk_deallocate root old_sbrk PAGE_SIZE s = Some (Ok (old_sbrk - PAGE_SIZE, s')) \<and>
    pool s' = insert (P2V (hhdm_offset s) 0) (pool s) \<and> (\<forall>va. translate s' root va = translate s root va)"
proof -
  let ?pte = "slot t (PTE_INDEX_FROM_VA old_sbrk 0)" and ?z = "P2V (hhdm_offset s) 0"
  have rd: "PAGE_ROUND_DOWN old_sbrk = old_sbrk"
  proof -
    obtain n where "unat old_sbrk = 4096 * n" using assms(3) by (rule page_aligned_obtain)
    then show ?thesis using unat_PAGE_ROUND_DOWN [OF assms(4)] by (simp add: word_unat_eq_iff)
  qed
  have le: "unat USERSPACE_VA_MIN + 4096 \<le> unat old_sbrk" "unat PAGE_SIZE = 4096"
    using assms(5) by (simp_all add: word_le_nat_alt USERSPACE_VA_MIN_def PAGE_SIZE_def)
  then have sub: "unat (old_sbrk - PAGE_SIZE) = unat old_sbrk - 4096" by (simp add: unat_diff)
  have gt: "old_sbrk - PAGE_SIZE < old_sbrk" using sub le by (simp add: word_less_nat_alt)
  have ot: "own t = Some (0, vpn old_sbrk 1)"
    using pt_table_own [OF assms(1) pt_inv_root [OF assms(1)] _ assms(6)] by simp
  have nz: "?pte \<noteq> 0" using pt_invD(1,2) [OF assms(1) ot] slot_nonzero by simp
  have rng: "\<not> USERSPACE_VA_MAX \<le> old_sbrk" "\<not> old_sbrk < USERSPACE_VA_MIN"
    using assms(4) le by (simp_all add: word_le_nat_alt word_less_nat_alt USERSPACE_VA_MAX_def)
  have w: "walk root old_sbrk False False s = Ok (?pte, s)"
    using rng assms(6) by (simp add: walk_def walk_noalloc)
  let ?s1 = "write_entry ?pte 0 s"
  note lw = leaf_write [OF assms(1,2,6), of 0]
  have tr1: "translate ?s1 root va = translate s root va" for va
  proof (cases "vpn va 0 = vpn old_sbrk 0")
    case True
    then have v: "vpn va 1 = vpn old_sbrk 1" "va_index va 0 = va_index old_sbrk 0" using vpn_table_index by blast+
    then have "pt_table (mem s) (hhdm_offset s) 3 root va = Some t" "PTE_INDEX_FROM_VA va 0 = PTE_INDEX_FROM_VA old_sbrk 0"
      using assms(6) pt_table_cong [OF v(1), of 3] PTE_INDEX_eq [OF v(2)] by simp_all
    then have "translate s root va = None" using assms(7) by (simp add: translate_def pt_lookup_def leaf_entry_def)
    then show ?thesis using lw(5) True by simp
  next
    case False
    then show ?thesis using lw(5) by simp
  qed
  have zal: "page_aligned ?z" "?z \<noteq> 0" using assms(2,9) by (simp_all add: phys_inv_def P2V_def)
  from kfree_spec [OF lw(2) zal] assms(8) lw(3) obtain s2 where s2: "kfree ?z ?s1 = Ok s2"
    "pool s2 = insert ?z (pool s)" "hhdm_offset s2 = hhdm_offset ?s1"
    "\<And>a. \<not> in_range ?z 4096 a \<Longrightarrow> mem s2 a = mem ?s1 a" by auto
  have "mem s2 a = mem ?s1 a" if "page_of a \<in> dom own" for a
    using that assms(8) s2(4) page_of_eq_iff [OF zal(1)] by (metis UnCI)
  then have c: "\<forall>a. page_of a \<in> dom own \<longrightarrow> mem s2 a = mem ?s1 a" by blast
  have "pool s2 \<inter> dom own = {}" using s2(2) assms(8) pt_invD(3) [OF assms(1)] by auto
  note un = tables_unchanged(2) [OF lw(1) this s2(3) c]
  have "sbrk_deallocate_loop root old_sbrk (old_sbrk - PAGE_SIZE) s = Some (Ok s2)"
  proof -
    have z: "pte_follow 0 = 0" by (simp add: pte_follow_def)
    have "sbrk_deallocate_loop root (old_sbrk - PAGE_SIZE) (old_sbrk - PAGE_SIZE) s2 = Some (Ok s2)"
      by (subst sbrk_deallocate_loop.simps) simp
    with gt w nz assms(7) s2(1) z show ?thesis
      by (simp add: sbrk_deallocate_loop.simps [of root old_sbrk])
  qed
  then show ?thesis
    using rd s2(2) un tr1 by (simp add: vmm_user_sbrk_deallocate_def)
qed

text \<open>
  A space with one user page: the tables are the pages \<open>0x1000\<close> to \<open>0x4000\<close> of physical
  memory, and virtual page \<open>0x400000\<close> is mapped to the frame \<open>0x5000\<close>.
\<close>

definition heap_space :: kmem where
  "heap_space = sample_kmem\<lparr>regions := [\<lparr>phys_cur = 0x6000, phys_end = 0x9000\<rparr>],
     mem := store64 (store64 (store64 (store64 (\<lambda>_. 0) (slot 0x800000001000 0) 0x2007)
       (slot 0x800000002000 0) 0x3007) (slot 0x800000003000 2) 0x4007) (slot 0x800000004000 0) 0x5007\<rparr>"

definition heap_own :: "u64 \<Rightarrow> (nat \<times> nat) option" where
  "heap_own = [0x800000001000 \<mapsto> (3, 0), 0x800000002000 \<mapsto> (2, 0), 0x800000003000 \<mapsto> (1, 0), 0x800000004000 \<mapsto> (0, 2)]"

lemma load_store_slot:
  assumes "page_aligned p" "page_aligned q" "unat i < 512" "unat j < 512"
  shows "load64 (store64 m (slot q j) v) (slot p i) = (if p = q \<and> i = j then v else load64 m (slot p i))"
  using assms entry_other by auto

lemma heap_entry:
  assumes "page_aligned p" "unat i < 512"
  shows "load64 (mem heap_space) (slot p i) =
    (if p = 0x800000004000 \<and> i = 0 then 0x5007 else if p = 0x800000003000 \<and> i = 2 then 0x4007
     else if p = 0x800000002000 \<and> i = 0 then 0x3007 else if p = 0x800000001000 \<and> i = 0 then 0x2007 else 0)"
  using assms by (simp add: heap_space_def load_store_slot page_aligned_def PAGE_SIZE_def)

lemma heap_space_simps [simp]:
  "hhdm_offset heap_space = 0x800000000000" "freepages heap_space = 0"
  "regions heap_space = [\<lparr>phys_cur = 0x6000, phys_end = 0x9000\<rparr>]"
  by (simp_all add: heap_space_def sample_kmem_def)

lemma heap_space_regions:
  "regions_pages 0x800000000000 [\<lparr>phys_cur = 0x6000, phys_end = 0x9000\<rparr>] = block_pages 0x800000006000 3"
proof -
  have "{pa :: u64. page_aligned pa \<and> 0x6000 \<le> pa \<and> pa < 0x6000 + of_nat (4096 * 3)} = block_pages 0x6000 3"
    by (rule aligned_in_span) (simp_all add: page_aligned_def PAGE_SIZE_def)
  then have "region_pages 0x800000000000 \<lparr>phys_cur = 0x6000, phys_end = 0x9000\<rparr> =
      P2V 0x800000000000 ` block_pages 0x6000 3"
    by (simp add: region_pages_def)
  then show ?thesis unfolding P2V_block by (simp add: P2V_def)
qed

lemma heap_space_pool: "pool heap_space = {0x800000006000, 0x800000007000, 0x800000008000}"
  using free_list_pages_flist [of heap_space "[]"]
  unfolding pool_def heap_space_simps heap_space_regions by (simp add: block_pages_eval)

lemma heap_space_inv [simp]: "phys_inv heap_space"
proof (rule phys_invI [of _ "[]"])
  show "0 \<notin> regions_pages (hhdm_offset heap_space) (regions heap_space)"
    unfolding heap_space_simps heap_space_regions by (simp add: block_pages_eval)
qed (simp_all add: region_ok_def page_aligned_def PAGE_SIZE_def)

lemma heap_space_tables [simp]: "pt_inv heap_own heap_space 0x800000001000"
  unfolding pt_inv_def
proof (intro conjI allI impI)
  fix p l n assume p: "heap_own p = Some (l, n)"
  show al: "page_aligned p" and "p \<noteq> 0" "p \<notin> pool heap_space"
    using p unfolding heap_space_pool
    by (auto simp: heap_own_def page_aligned_def PAGE_SIZE_def split: if_splits)
  fix k i assume k: "l = Suc k" and i: "unat i < 512" and e: "pte_is_present (load64 (mem heap_space) (slot p i))"
  show "heap_own (P2V (hhdm_offset heap_space) (pte_follow (load64 (mem heap_space) (slot p i)))) = Some (k, 512 * n + unat i)"
    using p k e heap_entry [OF al i]
    by (auto simp: heap_own_def P2V_def pte_follow_def PTE_ADDR_MASK_def split: if_splits)
qed (simp add: heap_own_def)

lemma heap_space_table:
  "pt_table (mem heap_space) 0x800000000000 3 0x800000001000 va = Some 0x800000004000"
  if "vpn va 1 = 2"
proof -
  have "512 * vpn va 2 + va_index va 1 = 2" "vpn va 2 = 512 * vpn va 3 + va_index va 2"
    "vpn va 3 = 512 * vpn va 4 + va_index va 3"
    using that vpn_step [of 1 va, unfolded Suc_1] vpn_step [of 2 va] vpn_step [of 3 va] by simp_all
  then have s: "262144 * va_index va 3 + 512 * va_index va 2 + va_index va 1 = 2" by simp
  then have "va_index va 3 = 0" "va_index va 2 = 0" by linarith+
  with s have "va_index va 1 = 2" "va_index va 2 = 0" "va_index va 3 = 0" by simp_all
  then have "PTE_INDEX_FROM_VA va 1 = 2" "PTE_INDEX_FROM_VA va 2 = 0" "PTE_INDEX_FROM_VA va 3 = 0"
    by (simp_all add: word_unat_eq_iff)
  then have i: "PTE_INDEX_FROM_VA va (Suc 0) = 2" "PTE_INDEX_FROM_VA va (Suc (Suc 0)) = 0"
    "PTE_INDEX_FROM_VA va (Suc (Suc (Suc 0))) = 0"
    by (simp_all add: numeral_2_eq_2 numeral_3_eq_3)
  have al: "page_aligned 0x800000001000" "page_aligned 0x800000002000" "page_aligned 0x800000003000"
    by (simp_all add: page_aligned_def PAGE_SIZE_def)
  show ?thesis
    by (simp add: numeral_3_eq_3 i heap_entry al pte_is_present_def PTE_P_def pte_follow_def PTE_ADDR_MASK_def P2V_def)
qed

theorem vmm_user_sbrk_deallocate_frees_zero_witness:
  "\<exists>s'. vmm_user_sbrk_deallocate 0x800000001000 0x401000 PAGE_SIZE heap_space = Some (Ok (0x400000, s')) \<and>
     pool s' = {0x800000000000, 0x800000006000, 0x800000007000, 0x800000008000}"
proof -
  have v: "vpn 0x401000 1 = 2" "PTE_INDEX_FROM_VA 0x401000 0 = 1"
    by (simp_all add: vpn_def PTE_INDEX_FROM_VA_def)
  have t: "pt_table (mem heap_space) (hhdm_offset heap_space) 3 0x800000001000 0x401000 = Some 0x800000004000"
    using heap_space_table [OF v(1)] by simp
  have al: "page_aligned 0x800000004000" by (simp add: page_aligned_def PAGE_SIZE_def)
  have e: "load64 (mem heap_space) (slot 0x800000004000 (PTE_INDEX_FROM_VA 0x401000 0)) = 0"
    unfolding v(2) using heap_entry [OF al, of 1] by simp
  have z: "P2V (hhdm_offset heap_space) 0 \<notin> pool heap_space \<union> dom heap_own"
    by (auto simp: P2V_def heap_space_pool heap_own_def)
  show ?thesis
    using vmm_user_sbrk_deallocate_frees_zero [OF heap_space_tables heap_space_inv _ _ _ t e z]
    by (auto simp: page_aligned_def PAGE_SIZE_def USERSPACE_VA_MIN_def heap_space_pool P2V_def)
qed

section \<open>Checking user pointers\<close>

definition accessible :: "kmem \<Rightarrow> u64 \<Rightarrow> bool \<Rightarrow> u64 \<Rightarrow> bool" where
  "accessible s root w va \<longleftrightarrow>
     (case translate s root va of None \<Rightarrow> False | Some e \<Rightarrow> pte_is_user e \<and> (w \<longrightarrow> pte_is_writable e))"

lemma translate_cong: "vpn va 0 = vpn va' 0 \<Longrightarrow> translate s root va = translate s root va'"
proof -
  assume "vpn va 0 = vpn va' 0"
  then have v: "vpn va 1 = vpn va' 1" "va_index va 0 = va_index va' 0" using vpn_table_index by blast+
  show ?thesis
    unfolding translate_def pt_lookup_def pt_table_cong [OF v(1), of 3, simplified] leaf_entry_def
      PTE_INDEX_eq [OF v(2)] ..
qed

lemma unat_round_arg: "unat e + 4095 < 2 ^ 64 \<Longrightarrow> unat (e + PAGE_SIZE - 1) = unat e + 4095"
proof -
  assume "unat e + 4095 < 2 ^ 64"
  then have "unat (e + 4095) = unat e + 4095" by (simp add: unat_word_ariths)
  moreover have "e + PAGE_SIZE - 1 = e + 4095" by (simp add: PAGE_SIZE_def)
  ultimately show ?thesis by (simp only:)
qed

lemma page_access_spec:
  assumes "pt_inv own s root" "USERSPACE_VA_MIN \<le> va" "va < USERSPACE_VA_MAX"
  shows "page_access root va w s = Ok (accessible s root w va)"
proof -
  from walk_read [OF assms] obtain pte where "walk root va False False s = Ok (pte, s)"
    "translate s root va = (if pte = 0 \<or> \<not> pte_is_present (load64 (mem s) pte) then None else Some (load64 (mem s) pte))" .
  then show ?thesis by (auto simp: page_access_def accessible_def Let_def)
qed

lemma validate_loop_spec:
  assumes "pt_inv own s root" "user_run va k" "unat page_end = unat va + 4096 * k"
  shows "validate_loop root va page_end w s =
    Some (Ok (\<forall>j < k. accessible s root w (va + of_nat j * PAGE_SIZE)))"
  using assms(2,3)
proof (induction k arbitrary: va)
  case 0
  then show ?case by (subst validate_loop.simps) (simp add: word_less_nat_alt)
next
  case (Suc k)
  have lt: "va < page_end" using Suc.prems(2) by (simp add: word_less_nat_alt)
  have acc: "page_access root va w s = Ok (accessible s root w va)"
    by (rule page_access_spec [OF assms(1)]) (use user_run_unat(3,4) [OF Suc.prems(1), of 0] in simp_all)
  have va': "unat (va + PAGE_SIZE) = unat va + 4096"
    using Suc.prems(1) by (simp add: user_run_def PAGE_SIZE_def unat_word_ariths)
  have run: "user_run (va + PAGE_SIZE) k"
    using Suc.prems(1) va' by (simp add: user_run_def page_aligned_unat word_le_nat_alt)
  have sh: "va + PAGE_SIZE + of_nat j * PAGE_SIZE = va + of_nat (Suc j) * PAGE_SIZE" for j
    by (simp add: algebra_simps)
  have "(\<forall>j < Suc k. accessible s root w (va + of_nat j * PAGE_SIZE)) \<longleftrightarrow>
      accessible s root w va \<and> (\<forall>j < k. accessible s root w (va + PAGE_SIZE + of_nat j * PAGE_SIZE))"
    unfolding sh by (metis add.right_neutral gr0_implies_Suc mult_zero_left nat.inject not_less_eq of_nat_0 zero_less_Suc bot_nat_0.not_eq_extremum)
  moreover have "validate_loop root (va + PAGE_SIZE) page_end w s =
      Some (Ok (\<forall>j < k. accessible s root w (va + PAGE_SIZE + of_nat j * PAGE_SIZE)))"
    using Suc.IH [OF run] Suc.prems(2) va' by simp
  ultimately show ?case
    using lt acc by (subst validate_loop.simps) simp
qed

text \<open>
  C10: below 4 GB \<^verbatim>\<open>vmm_validate_user_ptr\<close> returns true exactly when the range is not empty,
  lies in user space and every byte of it is mapped for user access (and writable when
  asked).
\<close>

theorem vmm_validate_user_ptr_correct:
  assumes "pt_inv own s root" "unat ptr + unat len + 4096 < 2 ^ 32"
  shows "vmm_validate_user_ptr root ptr len w s =
    Some (Ok (len \<noteq> 0 \<and> USERSPACE_VA_MIN \<le> ptr \<and>
      (\<forall>va. ptr \<le> va \<and> va < ptr + len \<longrightarrow> accessible s root w va)))"
proof (cases "len \<noteq> 0 \<and> USERSPACE_VA_MIN \<le> ptr")
  case False
  then show ?thesis
    using assms(2) by (auto simp: vmm_validate_user_ptr_def Let_def not_le)
next
  case True
  let ?e = "ptr + len" and ?a = "PAGE_ROUND_DOWN ptr" and ?b = "PAGE_ROUND_UP (ptr + len)"
  have e: "unat ?e = unat ptr + unat len" using assms(2) by (simp add: unat_word_ariths)
  have a: "unat ?a = 4096 * (unat ptr div 4096)" using unat_PAGE_ROUND_DOWN [of ptr] assms(2) by simp
  have b: "unat ?b = 4096 * ((unat ptr + unat len + 4095) div 4096)"
    using unat_PAGE_ROUND_UP [of ?e] assms(2) e by simp
  let ?p = "unat ptr div 4096" and ?q = "(unat ptr + unat len + 4095) div 4096"
  have pq: "?p \<le> ?q" by (rule div_le_mono) simp
  have lo: "unat USERSPACE_VA_MIN \<le> 4096 * ?p"
  proof -
    have "4194304 \<le> unat ptr" using True by (simp add: word_le_nat_alt USERSPACE_VA_MIN_def)
    then have "4194304 div 4096 \<le> ?p" by (rule div_le_mono)
    then show ?thesis by (simp add: USERSPACE_VA_MIN_def)
  qed
  have hi: "4096 * ?q < 2 ^ 32" using ceil_bounds(2) [of "unat ptr + unat len"] assms(2) by simp
  have run: "user_run ?a (?q - ?p)"
    using a lo hi pq by (simp add: user_run_def word_le_nat_alt diff_mult_distrib2)
  have "vmm_validate_user_ptr root ptr len w s = validate_loop root ?a ?b w s"
  proof -
    have "ptr \<noteq> 0" "\<not> ?e < ptr" "\<not> USERSPACE_VA_MAX \<le> ptr" "\<not> USERSPACE_VA_MAX < ?e" "\<not> ptr < USERSPACE_VA_MIN"
      using True e assms(2) by (auto simp: word_le_nat_alt word_less_nat_alt USERSPACE_VA_MIN_def USERSPACE_VA_MAX_def)
    then show ?thesis using True by (simp add: vmm_validate_user_ptr_def Let_def)
  qed
  also have "\<dots> = Some (Ok (\<forall>j < ?q - ?p. accessible s root w (?a + of_nat j * PAGE_SIZE)))"
    by (rule validate_loop_spec [OF assms(1) run]) (use a b pq in \<open>simp add: diff_mult_distrib2\<close>)
  also have "(\<forall>j < ?q - ?p. accessible s root w (?a + of_nat j * PAGE_SIZE)) \<longleftrightarrow>
      (\<forall>va. ptr \<le> va \<and> va < ?e \<longrightarrow> accessible s root w va)" (is "?L \<longleftrightarrow> ?R")
  proof
    assume L: ?L
    show ?R
    proof (intro allI impI)
      fix va assume va: "ptr \<le> va \<and> va < ?e"
      then have u: "unat ptr \<le> unat va" "unat va < unat ptr + unat len"
        using e by (simp_all add: word_le_nat_alt word_less_nat_alt)
      let ?j = "unat va div 4096 - ?p"
      have "?p \<le> unat va div 4096" using u(1) by (rule div_le_mono)
      moreover have "4096 * (unat va div 4096) < 4096 * ?q"
        using u(2) ceil_bounds(1) [of "unat ptr + unat len"] by (meson le_less_trans less_le_trans times_div_less_eq_dividend)
      ultimately have j: "?j < ?q - ?p" "?p + ?j = unat va div 4096" by (simp_all add: diff_less_mono)
      have "vpn (?a + of_nat ?j * PAGE_SIZE) 0 = vpn va 0"
        using user_run_unat(2) [OF run j(1)] a j(2) u(2) assms(2) vpn_low [of va] by simp
      then show "accessible s root w va"
        using L j(1) translate_cong [of "?a + of_nat ?j * PAGE_SIZE" va s root] by (auto simp: accessible_def)
    qed
  next
    assume R: ?R
    show ?L
    proof (intro allI impI)
      fix j assume j: "j < ?q - ?p"
      let ?pg = "?a + of_nat j * PAGE_SIZE" and ?va = "if j = 0 then ptr else ?a + of_nat j * PAGE_SIZE"
      have pg: "unat ?pg = 4096 * (?p + j)" "vpn ?pg 0 = ?p + j"
        using user_run_unat(1,2) [OF run j] a by simp_all
      have up: "4096 * (?p + j) < unat ptr + unat len"
      proof -
        have "?p + j + 1 \<le> ?q" using j by simp
        then have "4096 * (?p + j) + 4096 \<le> 4096 * ?q" by simp
        then show ?thesis using ceil_bounds(2) [of "unat ptr + unat len"] by linarith
      qed
      have lo: "unat ptr < 4096 * (?p + 1)" by (simp add: div_less_iff_less_mult [symmetric] mult.commute)
      have "ptr \<le> ?va \<and> ?va < ?e"
      proof (cases "j = 0")
        case True
        have "0 < unat len" using \<open>len \<noteq> 0 \<and> _\<close> by (simp add: word_neq_0_conv unat_gt_0)
        then show ?thesis using True e by (simp add: word_less_nat_alt)
      next
        case False
        then have "4096 * (?p + 1) \<le> 4096 * (?p + j)" by simp
        then have "unat ptr \<le> unat ?pg" "unat ?pg < unat ?e" using lo up pg(1) e by linarith+
        then show ?thesis using False by (simp add: word_le_nat_alt word_less_nat_alt)
      qed
      then have "accessible s root w ?va" using R by blast
      moreover have "vpn ptr 0 = ?p" using vpn_low [of ptr] assms(2) by simp
      ultimately show "accessible s root w ?pg"
        using translate_cong [of ptr ?pg s root] pg(2) by (auto simp: accessible_def split: if_splits)
    qed
  qed
  finally show ?thesis using True by simp
qed

theorem vmm_validate_user_ptr_correct_witness:
  "vmm_validate_user_ptr 0x800000001000 0x400ff0 0x10 True heap_space = Some (Ok True) \<and>
   vmm_validate_user_ptr 0x800000001000 0x400ff0 0x20 True heap_space = Some (Ok False)"
proof -
  have t: "accessible heap_space 0x800000001000 True va \<longleftrightarrow> vpn va 0 = 1024" if "vpn va 1 = 2" for va
  proof -
    have "vpn va 0 = 1024 \<longleftrightarrow> va_index va 0 = 0" using vpn_step [of 0 va] that by simp
    also have "\<dots> \<longleftrightarrow> PTE_INDEX_FROM_VA va 0 = 0" by (simp add: word_unat_eq_iff)
    finally show ?thesis
      using heap_space_table [OF that] heap_entry [of "0x800000004000" "PTE_INDEX_FROM_VA va 0"]
      by (simp add: accessible_def translate_def pt_lookup_def leaf_entry_def page_aligned_def PAGE_SIZE_def
          pte_is_present_def pte_is_user_def pte_is_writable_def PTE_P_def PTE_U_def PTE_W_def)
  qed
  have "accessible heap_space 0x800000001000 True va" if "0x400ff0 \<le> va \<and> va < 0x400ff0 + 0x10" for va
  proof -
    have u: "0x400ff0 \<le> unat va" "unat va < 0x401000" using that by (simp_all add: word_le_nat_alt word_less_nat_alt)
    then have "unat va div 4096 = 1024" "unat va div 2097152 = 2" by (intro div_nat_eqI; simp)+
    then show ?thesis using u by (subst t) (simp_all add: vpn_def)
  qed
  moreover have "\<not> accessible heap_space 0x800000001000 True 0x401000"
    by (subst t) (simp_all add: vpn_def)
  then have "\<not> (\<forall>va. 0x400ff0 \<le> va \<and> va < 0x400ff0 + 0x20 \<longrightarrow> accessible heap_space 0x800000001000 True va)"
    by (auto intro!: exI [of _ "0x401000"])
  ultimately show ?thesis
    using vmm_validate_user_ptr_correct [OF heap_space_tables, of "0x400ff0" "0x10" True]
      vmm_validate_user_ptr_correct [OF heap_space_tables, of "0x400ff0" "0x20" True]
    by (auto simp: USERSPACE_VA_MIN_def)
qed

text \<open>
  Above 4 GB the rounding macros drop the upper half of the addresses. A user range
  that ends at a multiple of 4 GB is accepted with no check at all, whatever the page
  table says.
\<close>

theorem vmm_validate_user_ptr_unchecked:
  assumes "USERSPACE_VA_MIN \<le> ptr" "len \<noteq> 0" "unat ptr + unat len \<le> 2 ^ 46" "(unat ptr + unat len) mod 2 ^ 32 = 0"
  shows "vmm_validate_user_ptr root ptr len w s = Some (Ok True)"
proof -
  let ?e = "ptr + len"
  have e: "unat ?e = unat ptr + unat len" using assms(3) by (simp add: unat_word_ariths)
  have "unat (?e + PAGE_SIZE - 1) = unat ptr + unat len + 4095"
    using unat_round_arg [of ?e] e assms(3) by simp
  then have "unat (PAGE_ROUND_UP ?e) = (unat ptr + unat len + 4095) mod 2 ^ 32 div 4096 * 4096"
    by (simp add: PAGE_ROUND_UP_def unat_and_page_not_mask)
  also have "(unat ptr + unat len + 4095) mod 2 ^ 32 = 4095"
    using mod_add_left_eq [of "unat ptr + unat len" "2 ^ 32" 4095] assms(4) by simp
  finally have up: "PAGE_ROUND_UP ?e = 0" by (simp add: word_unat_eq_iff)
  have "0 < unat len" using assms(2) by (simp add: word_neq_0_conv unat_gt_0)
  then have "ptr \<noteq> 0" "\<not> ?e < ptr" "\<not> USERSPACE_VA_MAX \<le> ptr" "\<not> USERSPACE_VA_MAX < ?e" "\<not> ptr < USERSPACE_VA_MIN"
    using assms(1,3) e by (auto simp: word_le_nat_alt word_less_nat_alt USERSPACE_VA_MIN_def USERSPACE_VA_MAX_def)
  then show ?thesis
    using assms(2) up by (simp add: vmm_validate_user_ptr_def Let_def validate_loop.simps)
qed

theorem vmm_validate_user_ptr_unchecked_witness:
  "vmm_validate_user_ptr sample_root 0x3ffffffff000 0x1000 True sample_space = Some (Ok True) \<and>
   translate sample_space sample_root 0x3ffffffff000 = None"
  using vmm_validate_user_ptr_unchecked [of "0x3ffffffff000" "0x1000" sample_root True sample_space]
  by (simp add: USERSPACE_VA_MIN_def)

text \<open>
  A user pointer just above 4 GB makes the check panic the kernel: the rounded start
  falls below the user window, where \<^verbatim>\<open>walk\<close> panics.
\<close>

theorem vmm_validate_user_ptr_panics:
  assumes "2 ^ 32 \<le> unat ptr" "unat ptr + unat len < 2 ^ 46" "0 < unat len"
    "unat ptr mod 2 ^ 32 + unat len + 4096 < 2 ^ 32" "unat ptr mod 2 ^ 32 < 2 ^ 22"
  shows "vmm_validate_user_ptr root ptr len w s = Some (Panic ''walk'')"
proof -
  let ?e = "ptr + len" and ?r = "unat ptr mod 2 ^ 32"
  have e: "unat ?e = unat ptr + unat len" using assms(2) by (simp add: unat_word_ariths)
  have dn: "unat (PAGE_ROUND_DOWN ptr) = ?r div 4096 * 4096"
    by (simp add: PAGE_ROUND_DOWN_def unat_and_page_not_mask)
  have "unat (?e + PAGE_SIZE - 1) = unat ptr + unat len + 4095"
    using unat_round_arg [of ?e] e assms(2) by simp
  then have "unat (PAGE_ROUND_UP ?e) = (unat ptr + unat len + 4095) mod 2 ^ 32 div 4096 * 4096"
    by (simp add: PAGE_ROUND_UP_def unat_and_page_not_mask)
  also have "(unat ptr + unat len + 4095) mod 2 ^ 32 = ?r + unat len + 4095"
  proof -
    have "(unat ptr + (unat len + 4095)) mod 2 ^ 32 = (?r + (unat len + 4095)) mod 2 ^ 32"
      by (simp only: mod_add_left_eq)
    then show ?thesis using assms(4) by (simp add: add.assoc)
  qed
  finally have up: "unat (PAGE_ROUND_UP ?e) = (?r + unat len + 4095) div 4096 * 4096" .
  have "?r div 4096 < (?r + unat len + 4095) div 4096"
    using assms(3) by (simp add: div_less_iff_less_mult less_eq_div_iff_mult_less_eq Suc_le_eq [symmetric])
  then have lt: "PAGE_ROUND_DOWN ptr < PAGE_ROUND_UP ?e" using dn up by (simp add: word_less_nat_alt)
  have "?r div 4096 * 4096 \<le> ?r" by simp
  then have low: "PAGE_ROUND_DOWN ptr < USERSPACE_VA_MIN"
    using dn assms(5) by (simp add: word_less_nat_alt USERSPACE_VA_MIN_def)
  have "ptr \<noteq> 0" "len \<noteq> 0" "\<not> ?e < ptr" "\<not> USERSPACE_VA_MAX \<le> ptr" "\<not> USERSPACE_VA_MAX < ?e" "\<not> ptr < USERSPACE_VA_MIN"
    using assms(1-3) e by (auto simp: word_le_nat_alt word_less_nat_alt USERSPACE_VA_MIN_def USERSPACE_VA_MAX_def)
  then show ?thesis
    using lt low by (simp add: vmm_validate_user_ptr_def Let_def validate_loop.simps page_access_def walk_def)
qed

theorem vmm_validate_user_ptr_panics_witness:
  "vmm_validate_user_ptr sample_root 0x100000000 1 False sample_space = Some (Panic ''walk'')"
  by (rule vmm_validate_user_ptr_panics) simp_all

section \<open>Strings from user space\<close>

text \<open>The part of the state the copy loop relies on: one mapped page \<open>p\<close> with its entry \<open>e\<close>.\<close>

definition one_page :: "(u64 \<Rightarrow> (nat \<times> nat) option) \<Rightarrow> u64 \<Rightarrow> u64 \<Rightarrow> u64 \<Rightarrow> u64 \<Rightarrow> u64 set \<Rightarrow> kmem \<Rightarrow> bool" where
  "one_page own root p e h A s \<longleftrightarrow> pt_inv own s root \<and> phys_inv s \<and> translate s root p = Some e \<and>
     hhdm_offset s = h \<and> pool s = A"

lemma one_page_write:
  assumes "one_page own root p e h A s" "page_of x \<notin> dom own \<union> A"
  shows "one_page own root p e h A (s\<lparr>mem := (mem s)(x := v)\<rparr>)"
proof -
  let ?s = "s\<lparr>mem := (mem s)(x := v)\<rparr>"
  have o: "pt_inv own s root" "phys_inv s" "pool s = A" "translate s root p = Some e"
    using assms(1) by (auto simp: one_page_def)
  have fr: "((mem s)(x := v)) a = mem s a" if "page_of a \<noteq> page_of x" for a using that by auto
  have "\<not> in_range (page_of x) 4096 a \<Longrightarrow> ((mem s)(x := v)) a = mem s a" for a
    using fr page_of_eq_iff [of "page_of x" a] by auto
  then have w: "phys_inv ?s" "pool ?s = pool s"
    using mem_write_pool [OF o(2), of "page_of x" "(mem s)(x := v)"] assms(2) o(3) by auto
  have "pool ?s \<inter> dom own = {}" using w(2) pt_invD(3) [OF o(1)] by auto
  moreover have "\<forall>a. page_of a \<in> dom own \<longrightarrow> mem ?s a = mem s a" using assms(2) by auto
  ultimately have "pt_inv own ?s root" "translate ?s root p = translate s root p"
    using tables_unchanged [OF o(1), of ?s] by simp_all
  then show ?thesis using assms(1) w by (simp add: one_page_def)
qed

lemma copy_string_loop_page:
  assumes "one_page own root p e h A s" "page_aligned p" "USERSPACE_VA_MIN \<le> p" "unat p < 2 ^ 32"
    "pte_is_user e" "pte_follow e \<noteq> 0" "mem s (P2V h (pte_follow e)) = b" "b \<noteq> 0"
    "ofs + n \<le> 4096" "ofs < 4096" "\<forall>i \<le> n. page_of (kernel_buf + of_nat i) \<notin> dom own \<union> A \<and>
       kernel_buf + of_nat i \<noteq> P2V h (pte_follow e)" "c \<le> n"
  shows "copy_string_loop root (p + of_nat ofs) kernel_buf (of_nat (n + 1)) (of_nat c) p v s =
    Some (Ok (-1, s\<lparr>mem := \<lambda>x. if x = kernel_buf + of_nat n then 0
      else if \<exists>i. c \<le> i \<and> i < n \<and> x = kernel_buf + of_nat i then b else mem s x\<rparr>))"
  using assms(1,7,12)
proof (induction "n - c" arbitrary: c v s)
  case 0
  then have c: "c = n" by simp
  have "(\<lambda>x. if x = kernel_buf + of_nat n then 0
      else if \<exists>i. c \<le> i \<and> i < n \<and> x = kernel_buf + of_nat i then b else mem s x) =
     (mem s)(kernel_buf + of_nat n := 0)" by (auto simp: fun_eq_iff c)
  then show ?case unfolding c by (subst copy_string_loop.simps) (simp add: fun_upd_def)
next
  case (Suc r)
  have c: "c < n" using Suc.hyps(2) by simp
  let ?va = "p + of_nat ofs + of_nat c" and ?s1 = "s\<lparr>mem := (mem s)(kernel_buf + of_nat c := b)\<rparr>"
  obtain q where q: "unat p = 4096 * q" using assms(2) by (rule page_aligned_obtain)
  have oc: "ofs + c < 4096" using assms(9) c by simp
  have "?va = p + of_nat (ofs + c)" by (simp add: add.assoc)
  then have va: "unat ?va = 4096 * q + (ofs + c)"
    using q oc assms(4) by (simp add: unat_word_ariths unat_of_nat)
  have va32: "unat ?va < 2 ^ 32" using va q oc assms(4) by simp
  have rd: "PAGE_ROUND_DOWN ?va = p"
    using unat_PAGE_ROUND_DOWN [OF va32] va q oc by (simp add: word_unat_eq_iff)
  have tr: "translate s root ?va = Some e"
  proof -
    have "vpn ?va 0 = vpn p 0" using va va32 q oc assms(4) by (simp add: vpn_low)
    then show ?thesis using translate_cong Suc.prems(1) by (metis one_page_def)
  qed
  have rng: "USERSPACE_VA_MIN \<le> ?va" "?va < USERSPACE_VA_MAX" "p < USERSPACE_VA_MAX"
    using va va32 q assms(3,4) by (simp_all add: word_le_nat_alt word_less_nat_alt USERSPACE_VA_MIN_def USERSPACE_VA_MAX_def)
  have o: "pt_inv own s root" "hhdm_offset s = h" "translate s root p = Some e"
    using Suc.prems(1) by (auto simp: one_page_def)
  have acc: "page_access root p False s = Ok True"
    using page_access_spec [OF o(1) assms(3) rng(3)] o(3) assms(5) by (simp add: accessible_def)
  have wa: "vmm_walkaddr root ?va True s = Ok (pte_follow e)"
  proof -
    from walk_read [OF o(1) rng(1,2)] obtain pte where "walk root ?va False False s = Ok (pte, s)"
      "translate s root ?va = (if pte = 0 \<or> \<not> pte_is_present (load64 (mem s) pte) then None else Some (load64 (mem s) pte))" .
    then show ?thesis using tr rng(2) assms(5) by (auto simp: vmm_walkaddr_def not_le [symmetric] Let_def split: if_splits)
  qed
  have n: "n < 2 ^ 64 - 1" using assms(9) by simp
  have lt: "(of_nat c :: u64) < of_nat (n + 1) - 1"
  proof -
    have "(of_nat (n + 1) - 1 :: u64) = of_nat n" by simp
    moreover have "(of_nat c :: u64) < of_nat n"
      using c n by (simp add: word_less_nat_alt unat_of_nat_u64)
    ultimately show ?thesis by simp
  qed
  have buf: "page_of (kernel_buf + of_nat c) \<notin> dom own \<union> A" "kernel_buf + of_nat c \<noteq> P2V h (pte_follow e)"
    using assms(11) c by auto
  have IH: "copy_string_loop root (p + of_nat ofs) kernel_buf (of_nat (n + 1)) (of_nat (Suc c)) p True ?s1 =
    Some (Ok (-1, ?s1\<lparr>mem := \<lambda>x. if x = kernel_buf + of_nat n then 0
      else if \<exists>i. Suc c \<le> i \<and> i < n \<and> x = kernel_buf + of_nat i then b else mem ?s1 x\<rparr>))"
    by (rule Suc.hyps(1)) (use Suc.hyps(2) c one_page_write [OF Suc.prems(1) buf(1), of b] Suc.prems(2) buf(2) in auto)
  have fin: "?s1\<lparr>mem := \<lambda>x. if x = kernel_buf + of_nat n then 0
      else if \<exists>i. Suc c \<le> i \<and> i < n \<and> x = kernel_buf + of_nat i then b else mem ?s1 x\<rparr> =
    s\<lparr>mem := \<lambda>x. if x = kernel_buf + of_nat n then 0
      else if \<exists>i. c \<le> i \<and> i < n \<and> x = kernel_buf + of_nat i then b else mem s x\<rparr>"
  proof -
    have "(\<exists>i. c \<le> i \<and> i < n \<and> x = kernel_buf + of_nat i) \<longleftrightarrow>
        x = kernel_buf + of_nat c \<or> (\<exists>i. Suc c \<le> i \<and> i < n \<and> x = kernel_buf + of_nat i)" for x
      using c by (metis Suc_le_eq le_eq_less_or_eq le_refl)
    then have "(\<lambda>x. if x = kernel_buf + of_nat n then 0
        else if \<exists>i. Suc c \<le> i \<and> i < n \<and> x = kernel_buf + of_nat i then b else mem ?s1 x) =
      (\<lambda>x. if x = kernel_buf + of_nat n then 0
        else if \<exists>i. c \<le> i \<and> i < n \<and> x = kernel_buf + of_nat i then b else mem s x)"
      by (intro ext) auto
    moreover have "?s1\<lparr>mem := m\<rparr> = s\<lparr>mem := m\<rparr>" for m by simp
    ultimately show ?thesis by (simp only:)
  qed
  have one: "copy_string_loop root (p + of_nat ofs) kernel_buf (of_nat (n + 1)) (of_nat c) p v s =
      copy_string_loop root (p + of_nat ofs) kernel_buf (of_nat (n + 1)) (of_nat (Suc c)) p True ?s1"
    by (subst copy_string_loop.simps)
      (use lt rd acc wa o(2) assms(6,8) Suc.prems(2) in \<open>simp add: Let_def add.commute\<close>)
  show ?case using one IH unfolding fin by (simp only:)
qed

text \<open>
  \<^verbatim>\<open>vmm_copy_user_string\<close> reads every character at the start of the page instead of at the
  character's own offset: when the first byte of the page is not zero the buffer is filled
  with that byte and the call reports a truncated string, whatever the string is.
\<close>

theorem vmm_copy_user_string_repeats:
  assumes "pt_inv own s root" "phys_inv s" "page_aligned p" "USERSPACE_VA_MIN \<le> p" "unat p < 2 ^ 32"
    "translate s root p = Some e" "pte_is_user e" "pte_follow e \<noteq> 0" "mem s (P2V (hhdm_offset s) (pte_follow e)) \<noteq> 0"
    "ofs + n \<le> 4096" "ofs < 4096" "kernel_buf \<noteq> 0"
    "\<forall>i \<le> n. page_of (kernel_buf + of_nat i) \<notin> dom own \<union> pool s \<and>
       kernel_buf + of_nat i \<noteq> P2V (hhdm_offset s) (pte_follow e)"
  shows "\<exists>s'. vmm_copy_user_string root (p + of_nat ofs) kernel_buf (of_nat (n + 1)) s = Some (Ok (-1, s')) \<and>
    (\<forall>i < n. mem s' (kernel_buf + of_nat i) = mem s (P2V (hhdm_offset s) (pte_follow e))) \<and>
    mem s' (kernel_buf + of_nat n) = 0"
proof -
  let ?b = "mem s (P2V (hhdm_offset s) (pte_follow e))" and ?u = "p + of_nat ofs :: u64"
  obtain q where q: "unat p = 4096 * q" using assms(3) by (rule page_aligned_obtain)
  have u: "unat ?u = unat p + ofs" using assms(5,11) by (simp add: unat_word_ariths unat_of_nat)
  have "unat ?u < 2 ^ 32" using u q assms(5,11) by simp
  then have rd: "PAGE_ROUND_DOWN ?u = p"
    using unat_PAGE_ROUND_DOWN [of ?u] u q assms(11) by (simp add: word_unat_eq_iff)
  have "?u \<noteq> 0" "\<not> USERSPACE_VA_MAX \<le> ?u" "\<not> ?u < USERSPACE_VA_MIN"
    using u assms(4,5,11) by (auto simp: word_le_nat_alt word_less_nat_alt USERSPACE_VA_MIN_def USERSPACE_VA_MAX_def
        word_unat_eq_iff)
  moreover have "(of_nat (n + 1) :: u64) \<noteq> 0"
  proof -
    have "unat (of_nat (n + 1) :: u64) = n + 1" by (rule unat_of_nat_u64) (use assms(10) in simp)
    then show ?thesis by (metis unat_0 add_is_0 one_neq_zero)
  qed
  ultimately have "vmm_copy_user_string root ?u kernel_buf (of_nat (n + 1)) s =
      copy_string_loop root ?u kernel_buf (of_nat (n + 1)) (of_nat 0) p False s"
    using assms(12) rd by (simp add: vmm_copy_user_string_def)
  moreover have "one_page own root p e (hhdm_offset s) (pool s) s"
    using assms(1,2,6) by (simp add: one_page_def)
  note copy_string_loop_page [OF this assms(3-5,7,8) refl assms(9-11,13), of 0]
  moreover have "kernel_buf + of_nat i \<noteq> kernel_buf + of_nat n" if "i < n" for i
  proof -
    have "unat (of_nat i :: u64) \<noteq> unat (of_nat n :: u64)" using that assms(10) by (simp add: unat_of_nat_u64)
    then show ?thesis by (metis add_left_cancel)
  qed
  ultimately show ?thesis by (auto simp: del: of_nat_add)
qed

definition string_space :: kmem where
  "string_space = heap_space\<lparr>mem := (mem heap_space)(0x800000005000 := 7)\<rparr>"

theorem vmm_copy_user_string_repeats_witness:
  "\<exists>s'. vmm_copy_user_string 0x800000001000 0x400010 0x800000020000 4 string_space = Some (Ok (-1, s')) \<and>
     mem s' 0x800000020002 = 7 \<and> mem string_space 0x800000005010 = 0"
proof -
  have pg: "page_of 0x800000005000 = 0x800000005000" by (simp add: page_of_def)
  have o: "one_page heap_own 0x800000001000 0x400000 0x5007 0x800000000000 (pool heap_space) heap_space"
  proof -
    have "vpn 0x400000 1 = 2" "PTE_INDEX_FROM_VA 0x400000 0 = 0" by (simp_all add: vpn_def PTE_INDEX_FROM_VA_def)
    then have "translate heap_space 0x800000001000 0x400000 = Some 0x5007"
      using heap_space_table [of "0x400000"] heap_entry [of "0x800000004000" 0]
      by (simp add: translate_def pt_lookup_def leaf_entry_def page_aligned_def PAGE_SIZE_def pte_is_present_def PTE_P_def)
    then show ?thesis by (simp add: one_page_def)
  qed
  have st: "one_page heap_own 0x800000001000 0x400000 0x5007 0x800000000000 (pool heap_space) string_space"
    unfolding string_space_def
    by (rule one_page_write [OF o]) (simp add: pg heap_space_pool heap_own_def)
  then have s: "pt_inv heap_own string_space 0x800000001000" "phys_inv string_space"
    "translate string_space 0x800000001000 0x400000 = Some 0x5007" "hhdm_offset string_space = 0x800000000000"
    "pool string_space = pool heap_space" by (auto simp: one_page_def)
  have f: "P2V 0x800000000000 (pte_follow 0x5007) = 0x800000005000" "mem string_space 0x800000005000 = 7"
    by (simp_all add: P2V_def pte_follow_def PTE_ADDR_MASK_def string_space_def)
  have k: "\<forall>i \<le> 3. page_of (0x800000020000 + of_nat i) \<notin> dom heap_own \<union> pool string_space \<and>
       0x800000020000 + of_nat i \<noteq> P2V (hhdm_offset string_space) (pte_follow 0x5007)"
    unfolding s(4,5) f heap_space_pool by (auto simp: le_Suc_eq numeral_3_eq_3 page_of_def heap_own_def)
  have "\<exists>s'. vmm_copy_user_string 0x800000001000 (0x400000 + of_nat 16) 0x800000020000 (of_nat (3 + 1)) string_space =
      Some (Ok (-1, s')) \<and> (\<forall>i < 3. mem s' (0x800000020000 + of_nat i) = 7) \<and> mem s' (0x800000020000 + of_nat 3) = 0"
    using vmm_copy_user_string_repeats [OF s(1,2) _ _ _ s(3), of 16 3, OF _ _ _ _ _ _ _ _ _ k] f s(4)
    by (simp add: page_aligned_def PAGE_SIZE_def USERSPACE_VA_MIN_def pte_is_user_def PTE_U_def pte_follow_def PTE_ADDR_MASK_def)
  then obtain s' where "vmm_copy_user_string 0x800000001000 0x400010 0x800000020000 4 string_space = Some (Ok (-1, s'))"
    "\<forall>i < (3 :: nat). mem s' (0x800000020000 + of_nat i) = 7" by auto
  moreover have "mem string_space 0x800000005010 = 0"
    by (simp add: string_space_def heap_space_def store64_outside in_range_def slot_def)
  ultimately show ?thesis by (auto dest: spec [of _ 2])
qed

end
