(* ===== verification/Spinlock.thy ===== *)
theory Spinlock
  imports Prelude
begin

text \<open>
  \<^verbatim>\<open>kernel/src/common/spinlock.c\<close>: the test-and-set lock with its nested interrupt disabling
  and its holder check. The routines are first translated one by one; their interleaving on
  several processors is then a step relation whose steps are the memory accesses of
  \<^verbatim>\<open>spinlock_lock\<close> and \<^verbatim>\<open>spinlock_unlock\<close> in program order.
\<close>

section \<open>State and sequential routines\<close>

record spinlock =
  locked :: u32
  holding_cpu :: u32

text \<open>
  The part of a processor the lock uses: the interrupt flag and \<^verbatim>\<open>interrupt_enable_stack\<close> of
  \<^verbatim>\<open>struct cpu_local_data\<close>.
\<close>

record cpu_intr =
  interrupts_enabled :: bool
  depth :: u16
  was_enabled :: bool

definition save_and_disable_interrupts :: "cpu_intr \<Rightarrow> cpu_intr" where
  "save_and_disable_interrupts c =
     (let interrupts_were_enabled = interrupts_enabled c;
          c1 = c\<lparr>interrupts_enabled := False\<rparr>;
          c2 = (if depth c1 = 0 then c1\<lparr>was_enabled := interrupts_were_enabled\<rparr> else c1)
      in c2\<lparr>depth := depth c2 + 1\<rparr>)"

definition restore_interrupts :: "cpu_intr \<Rightarrow> cpu_intr" where
  "restore_interrupts c =
     (let c1 = c\<lparr>depth := depth c - 1\<rparr>
      in if depth c1 = 0 \<and> was_enabled c1 then c1\<lparr>interrupts_enabled := True\<rparr> else c1)"

definition this_cpu_holding_lock :: "u32 \<Rightarrow> spinlock \<Rightarrow> cpu_intr \<Rightarrow> bool \<times> cpu_intr" where
  "this_cpu_holding_lock me lock c =
     (let c1 = save_and_disable_interrupts c;
          result = (locked lock \<noteq> 0 \<and> holding_cpu lock = me)
      in (result, restore_interrupts c1))"

text \<open>
  \<^verbatim>\<open>spinlock_lock\<close> on one processor with nobody else running: \<open>None\<close> is the loop that never
  gets the lock.
\<close>

definition spinlock_lock :: "bool \<Rightarrow> u32 \<Rightarrow> spinlock \<times> cpu_intr \<Rightarrow> (spinlock \<times> cpu_intr) outcome option" where
  "spinlock_lock spinlocks_enabled me st =
     (if \<not> spinlocks_enabled then Some (Ok st)
      else
        let (lock, c) = st; c1 = save_and_disable_interrupts c;
            (held, c2) = this_cpu_holding_lock me lock c1
        in if held then Some (Panic ''deadlock'')
           else if locked lock \<noteq> 0 then None
           else Some (Ok (lock\<lparr>locked := 1, holding_cpu := me\<rparr>, c2)))"

definition spinlock_unlock :: "bool \<Rightarrow> u32 \<Rightarrow> spinlock \<times> cpu_intr \<Rightarrow> (spinlock \<times> cpu_intr) outcome" where
  "spinlock_unlock spinlocks_enabled me st =
     (if \<not> spinlocks_enabled then Ok st
      else
        let (lock, c) = st; (held, c1) = this_cpu_holding_lock me lock c
        in if \<not> held then Panic ''cpu not holding lock''
           else Ok (lock\<lparr>holding_cpu := 0, locked := 0\<rparr>, restore_interrupts c1))"

definition spinlock_locked :: "spinlock \<Rightarrow> bool" where
  "spinlock_locked lock \<longleftrightarrow> locked lock \<noteq> 0"

section \<open>Interleavings\<close>

text \<open>
  Where a processor is: outside, at the two reads of the holder check, in the test-and-set
  loop, owner before it has recorded itself, in the critical section, past the holder check of
  the unlock, past the clearing of \<^verbatim>\<open>holding_cpu\<close>, past the release, or stopped by a panic.
  The steps are those with \<^verbatim>\<open>spinlocks_enabled\<close> set, as it is from the end of the boot on
  (\<^verbatim>\<open>kernel.c\<close> sets it right before it starts the scheduler); while it is clear both routines return at once, which \<open>spinlock_lock\<close> and
  \<open>spinlock_unlock\<close> above model, and nothing excludes anything.
\<close>

datatype pc = Out | Check1 | Check2 | Spin | Owner | Crit | Rel1 | Rel2 | Rest | Stopped string

record system =
  lock :: spinlock
  cpus :: "u32 \<Rightarrow> cpu_intr"
  at :: "u32 \<Rightarrow> pc"

definition goto :: "u32 \<Rightarrow> pc \<Rightarrow> system \<Rightarrow> system" where
  "goto c p s = s\<lparr>at := (at s)(c := p)\<rparr>"

definition on_cpu :: "u32 \<Rightarrow> (cpu_intr \<Rightarrow> cpu_intr) \<Rightarrow> system \<Rightarrow> system" where
  "on_cpu c f s = s\<lparr>cpus := (cpus s)(c := f (cpus s c))\<rparr>"

inductive step :: "system \<Rightarrow> system \<Rightarrow> bool" where
  enter: "at s c = Out \<Longrightarrow>
     step s (goto c Check1 (on_cpu c (\<lambda>x. save_and_disable_interrupts (save_and_disable_interrupts x)) s))"
| check_free: "at s c = Check1 \<Longrightarrow> locked (lock s) = 0 \<Longrightarrow>
     step s (goto c Spin (on_cpu c restore_interrupts s))"
| check_taken: "at s c = Check1 \<Longrightarrow> locked (lock s) \<noteq> 0 \<Longrightarrow> step s (goto c Check2 s)"
| check_other: "at s c = Check2 \<Longrightarrow> holding_cpu (lock s) \<noteq> c \<Longrightarrow>
     step s (goto c Spin (on_cpu c restore_interrupts s))"
| check_panic: "at s c = Check2 \<Longrightarrow> holding_cpu (lock s) = c \<Longrightarrow> step s (goto c (Stopped ''deadlock'') s)"
| spin: "at s c = Spin \<Longrightarrow> locked (lock s) \<noteq> 0 \<Longrightarrow> step s (s\<lparr>lock := (lock s)\<lparr>locked := 1\<rparr>\<rparr>)"
| acquire: "at s c = Spin \<Longrightarrow> locked (lock s) = 0 \<Longrightarrow>
     step s (goto c Owner (s\<lparr>lock := (lock s)\<lparr>locked := 1\<rparr>\<rparr>))"
| record_owner: "at s c = Owner \<Longrightarrow> step s (goto c Crit (s\<lparr>lock := (lock s)\<lparr>holding_cpu := c\<rparr>\<rparr>))"
| leave: "at s c = Crit \<Longrightarrow> locked (lock s) \<noteq> 0 \<Longrightarrow> holding_cpu (lock s) = c \<Longrightarrow>
     step s (goto c Rel1 (on_cpu c (\<lambda>x. restore_interrupts (save_and_disable_interrupts x)) s))"
| leave_panic: "at s c = Crit \<Longrightarrow> \<not> (locked (lock s) \<noteq> 0 \<and> holding_cpu (lock s) = c) \<Longrightarrow>
     step s (goto c (Stopped ''cpu not holding lock'') s)"
| clear_owner: "at s c = Rel1 \<Longrightarrow> step s (goto c Rel2 (s\<lparr>lock := (lock s)\<lparr>holding_cpu := 0\<rparr>\<rparr>))"
| release: "at s c = Rel2 \<Longrightarrow> step s (goto c Rest (s\<lparr>lock := (lock s)\<lparr>locked := 0\<rparr>\<rparr>))"
| restore: "at s c = Rest \<Longrightarrow> step s (goto c Out (on_cpu c restore_interrupts s))"

inductive_cases stepE: "step s s'"

text \<open>At boot the lock is zero and every processor is outside with an empty interrupt stack.\<close>

definition initial :: "system \<Rightarrow> bool" where
  "initial s \<longleftrightarrow> lock s = \<lparr>locked = 0, holding_cpu = 0\<rparr> \<and> (\<forall>c. at s c = Out \<and> depth (cpus s c) = 0)"

inductive reachable :: "system \<Rightarrow> bool" where
  start: "initial s \<Longrightarrow> reachable s"
| steps: "reachable s \<Longrightarrow> step s s' \<Longrightarrow> reachable s'"

section \<open>The invariant\<close>

definition owns :: "pc \<Rightarrow> bool" where
  "owns p \<longleftrightarrow> p \<in> {Owner, Crit, Rel1, Rel2}"

definition recorded :: "pc \<Rightarrow> bool" where
  "recorded p \<longleftrightarrow> p \<in> {Crit, Rel1}"

definition lock_inv :: "system \<Rightarrow> bool" where
  "lock_inv s \<longleftrightarrow>
     (\<forall>c d. owns (at s c) \<longrightarrow> owns (at s d) \<longrightarrow> c = d) \<and>
     (locked (lock s) \<noteq> 0 \<longleftrightarrow> (\<exists>c. owns (at s c))) \<and>
     (\<forall>c. recorded (at s c) \<longrightarrow> holding_cpu (lock s) = c) \<and>
     (holding_cpu (lock s) \<noteq> 0 \<longrightarrow> recorded (at s (holding_cpu (lock s)))) \<and>
     (\<forall>c e. at s c = Stopped e \<longrightarrow> c = 0 \<and> e = ''deadlock'')"

text \<open>The interrupt stack of a processor, given where it is.\<close>

fun intr_ok :: "pc \<Rightarrow> cpu_intr \<Rightarrow> bool" where
  "intr_ok Out c = (depth c = 0)"
| "intr_ok Check1 c = (depth c = 2 \<and> \<not> interrupts_enabled c)"
| "intr_ok Check2 c = (depth c = 2 \<and> \<not> interrupts_enabled c)"
| "intr_ok (Stopped e) c = (\<not> interrupts_enabled c)"
| "intr_ok p c = (depth c = 1 \<and> \<not> interrupts_enabled c)"

lemmas lock_simps = goto_def on_cpu_def owns_def recorded_def

lemma initial_inv: "initial s \<Longrightarrow> lock_inv s \<and> (\<forall>c. intr_ok (at s c) (cpus s c))"
  by (simp add: initial_def lock_inv_def owns_def recorded_def)

text \<open>A move of processor \<open>d\<close> that leaves the others alone.\<close>

lemma intr_move:
  assumes "\<forall>c. intr_ok (at s c) (cpus s c)" "at s' = (at s)(d := p)" "cpus s' = (cpus s)(d := x)" "intr_ok p x"
  shows "intr_ok (at s' c) (cpus s' c)"
  using assms by simp

lemma step_intr_ok:
  assumes "step s s'" "\<forall>c. intr_ok (at s c) (cpus s c)"
  shows "intr_ok (at s' c) (cpus s' c)"
proof -
  have ok: "intr_ok (at s d) (cpus s d)" for d using assms(2) by blast
  note move = intr_move [OF assms(2), of s']
  show ?thesis
    using assms(1)
  proof cases
    case (enter d)
    then show ?thesis using ok [of d]
      by (intro move [of d Check1 "save_and_disable_interrupts (save_and_disable_interrupts (cpus s d))"])
        (simp_all add: lock_simps save_and_disable_interrupts_def Let_def)
  next
    case (check_free d)
    then show ?thesis using ok [of d]
      by (intro move [of d Spin "restore_interrupts (cpus s d)"]) (simp_all add: lock_simps restore_interrupts_def)
  next
    case (check_taken d)
    then show ?thesis using ok [of d] by (intro move [of d Check2 "cpus s d"]) (simp_all add: lock_simps)
  next
    case (check_other d)
    then show ?thesis using ok [of d]
      by (intro move [of d Spin "restore_interrupts (cpus s d)"]) (simp_all add: lock_simps restore_interrupts_def)
  next
    case (check_panic d)
    then show ?thesis using ok [of d] by (intro move [of d "Stopped ''deadlock''" "cpus s d"]) (simp_all add: lock_simps)
  next
    case (spin d)
    then show ?thesis using ok [of c] by simp
  next
    case (acquire d)
    then show ?thesis using ok [of d] by (intro move [of d Owner "cpus s d"]) (simp_all add: lock_simps)
  next
    case (record_owner d)
    then show ?thesis using ok [of d] by (intro move [of d Crit "cpus s d"]) (simp_all add: lock_simps)
  next
    case (leave d)
    let ?x = "restore_interrupts (save_and_disable_interrupts (cpus s d))"
    have "intr_ok Rel1 ?x"
      using ok [of d] leave(2) by (simp add: save_and_disable_interrupts_def restore_interrupts_def Let_def)
    moreover have "at s' = (at s)(d := Rel1)" "cpus s' = (cpus s)(d := ?x)" using leave(1) by (simp_all add: lock_simps)
    ultimately show ?thesis by (intro move)
  next
    case (leave_panic d)
    then show ?thesis using ok [of d]
      by (intro move [of d "Stopped ''cpu not holding lock''" "cpus s d"]) (simp_all add: lock_simps)
  next
    case (clear_owner d)
    then show ?thesis using ok [of d] by (intro move [of d Rel2 "cpus s d"]) (simp_all add: lock_simps)
  next
    case (release d)
    then show ?thesis using ok [of d] by (intro move [of d Rest "cpus s d"]) (simp_all add: lock_simps)
  next
    case (restore d)
    then show ?thesis using ok [of d]
      by (intro move [of d Out "restore_interrupts (cpus s d)"]) (simp_all add: lock_simps restore_interrupts_def Let_def)
  qed
qed

lemma lock_invD:
  assumes "lock_inv s"
  shows "owns (at s c) \<Longrightarrow> owns (at s d) \<Longrightarrow> c = d" "locked (lock s) \<noteq> 0 \<longleftrightarrow> (\<exists>c. owns (at s c))"
    "recorded (at s c) \<Longrightarrow> holding_cpu (lock s) = c"
    "holding_cpu (lock s) \<noteq> 0 \<Longrightarrow> recorded (at s (holding_cpu (lock s)))"
    "at s c = Stopped e \<Longrightarrow> c = 0 \<and> e = ''deadlock''"
  using assms unfolding lock_inv_def by blast+

lemma recorded_owns: "recorded p \<Longrightarrow> owns p"
  by (auto simp: recorded_def owns_def)

lemma inv_move:
  assumes "lock_inv s" "lock s' = lock s" "at s' = (at s)(d := p)" "owns p \<longleftrightarrow> owns (at s d)"
    "recorded p \<longleftrightarrow> recorded (at s d)" "\<And>e. p = Stopped e \<Longrightarrow> d = 0 \<and> e = ''deadlock''"
  shows "lock_inv s'"
proof -
  have o: "owns (at s' c) \<longleftrightarrow> owns (at s c)" "recorded (at s' c) \<longleftrightarrow> recorded (at s c)" for c
    using assms(3-5) by auto
  have "at s' c = Stopped e \<Longrightarrow> c = 0 \<and> e = ''deadlock''" for c e
    using assms(3,6) lock_invD(5) [OF assms(1), of c e] by (cases "c = d") auto
  then show ?thesis
    using lock_invD(1-4) [OF assms(1)] unfolding lock_inv_def o assms(2) by blast
qed

lemma lock_inv_cong:
  assumes "at s' = at s" "holding_cpu (lock s') = holding_cpu (lock s)"
    "(locked (lock s') \<noteq> 0) = (locked (lock s) \<noteq> 0)"
  shows "lock_inv s' \<longleftrightarrow> lock_inv s"
  unfolding lock_inv_def assms ..

lemma lock_inv_owned:
  assumes "\<And>c. owns (at s c) \<longleftrightarrow> c = d" "\<And>c. recorded (at s c) \<longleftrightarrow> c = d \<and> R"
    "holding_cpu (lock s) = (if R then d else 0)" "locked (lock s) \<noteq> 0"
    "\<And>c e. at s c = Stopped e \<Longrightarrow> c = 0 \<and> e = ''deadlock''"
  shows "lock_inv s"
proof -
  have "\<forall>c d. owns (at s c) \<longrightarrow> owns (at s d) \<longrightarrow> c = d" "\<exists>c. owns (at s c)" using assms(1) by simp_all
  moreover have "\<forall>c. recorded (at s c) \<longrightarrow> holding_cpu (lock s) = c"
    "holding_cpu (lock s) \<noteq> 0 \<longrightarrow> recorded (at s (holding_cpu (lock s)))" using assms(2,3) by simp_all
  ultimately show ?thesis using assms(4,5) unfolding lock_inv_def by blast
qed

lemma lock_inv_free:
  assumes "\<And>c. \<not> owns (at s c)" "holding_cpu (lock s) = 0" "locked (lock s) = 0"
    "\<And>c e. at s c = Stopped e \<Longrightarrow> c = 0 \<and> e = ''deadlock''"
  shows "lock_inv s"
proof -
  have "\<not> recorded (at s c)" for c using assms(1) recorded_owns by blast
  then show ?thesis using assms unfolding lock_inv_def by blast
qed

lemma step_lock_inv:
  assumes "step s s'" "lock_inv s"
  shows "lock_inv s'"
proof -
  note inv = lock_invD [OF assms(2)] and move = inv_move [OF assms(2), of s']
  show ?thesis
    using assms(1)
  proof cases
    case (enter d)
    then show ?thesis by (intro move [of d Check1]) (simp_all add: lock_simps)
  next
    case (check_free d)
    then show ?thesis by (intro move [of d Spin]) (simp_all add: lock_simps)
  next
    case (check_taken d)
    then show ?thesis by (intro move [of d Check2]) (simp_all add: lock_simps)
  next
    case (check_other d)
    then show ?thesis by (intro move [of d Spin]) (simp_all add: lock_simps)
  next
    case (check_panic d)
    have "d = 0"
    proof (rule ccontr)
      assume "d \<noteq> 0"
      then have "recorded (at s d)" using inv(4) check_panic(3) by simp
      then show False using check_panic(2) by (simp add: recorded_def)
    qed
    then show ?thesis using check_panic by (intro move [of d "Stopped ''deadlock''"]) (simp_all add: lock_simps)
  next
    case (spin d)
    have "at s' = at s" "holding_cpu (lock s') = holding_cpu (lock s)"
      "(locked (lock s') \<noteq> 0) = (locked (lock s) \<noteq> 0)" using spin by simp_all
    then show ?thesis using assms(2) lock_inv_cong by blast
  next
    case (acquire d)
    have none: "\<not> owns (at s c)" for c using inv(2) acquire(3) by blast
    then have h: "holding_cpu (lock s) = 0" "\<And>c. \<not> recorded (at s c)" using inv(4) recorded_owns by blast+
    have o: "owns (at s' c) \<longleftrightarrow> c = d" "\<not> recorded (at s' c)" for c
      using acquire none h(2) by (auto simp: goto_def owns_def recorded_def)
    have "at s' c = Stopped e \<Longrightarrow> c = 0 \<and> e = ''deadlock''" for c e
      using acquire inv(5) [of c e] by (auto simp: goto_def split: if_splits)
    moreover have "holding_cpu (lock s') = 0" "locked (lock s') \<noteq> 0" using acquire h by (simp_all add: goto_def)
    ultimately show ?thesis using o by (intro lock_inv_owned [of s' d False]) simp_all
  next
    case (record_owner d)
    have "owns (at s d)" using record_owner by (simp add: owns_def)
    then have only: "owns (at s c) \<longleftrightarrow> c = d" for c using inv(1) by blast
    have o: "owns (at s' c) \<longleftrightarrow> c = d" "recorded (at s' c) \<longleftrightarrow> c = d" for c
    proof -
      have "at s' c = (if c = d then Crit else at s c)" using record_owner by (simp add: goto_def)
      moreover have "owns Crit = True" "recorded Crit = True" by (simp_all add: owns_def recorded_def)
      ultimately show "owns (at s' c) \<longleftrightarrow> c = d" "recorded (at s' c) \<longleftrightarrow> c = d"
        using only [of c] recorded_owns [of "at s c"] by (auto split: if_splits)
    qed
    have "at s' c = Stopped e \<Longrightarrow> c = 0 \<and> e = ''deadlock''" for c e
      using record_owner inv(5) [of c e] by (auto simp: goto_def split: if_splits)
    moreover have "locked (lock s) \<noteq> 0" using inv(2) \<open>owns (at s d)\<close> by blast
    then have "holding_cpu (lock s') = d" "locked (lock s') \<noteq> 0" using record_owner by (simp_all add: goto_def)
    ultimately show ?thesis using o by (intro lock_inv_owned [of s' d True]) simp_all
  next
    case (leave d)
    then show ?thesis by (intro move [of d Rel1]) (simp_all add: lock_simps)
  next
    case (leave_panic d)
    have "owns (at s d)" "recorded (at s d)" using leave_panic by (simp_all add: owns_def recorded_def)
    then have "locked (lock s) \<noteq> 0" "holding_cpu (lock s) = d" using inv(2,3) by blast+
    then show ?thesis using leave_panic(3) by blast
  next
    case (clear_owner d)
    have "owns (at s d)" using clear_owner by (simp add: owns_def)
    then have only: "owns (at s c) \<longleftrightarrow> c = d" for c using inv(1) by blast
    have o: "owns (at s' c) \<longleftrightarrow> c = d" "\<not> recorded (at s' c)" for c
    proof -
      have "at s' c = (if c = d then Rel2 else at s c)" using clear_owner by (simp add: goto_def)
      moreover have "owns Rel2 = True" "recorded Rel2 = False" by (simp_all add: owns_def recorded_def)
      ultimately show "owns (at s' c) \<longleftrightarrow> c = d" "\<not> recorded (at s' c)"
        using only [of c] recorded_owns [of "at s c"] by (auto split: if_splits)
    qed
    have "at s' c = Stopped e \<Longrightarrow> c = 0 \<and> e = ''deadlock''" for c e
      using clear_owner inv(5) [of c e] by (auto simp: goto_def split: if_splits)
    moreover have "locked (lock s) \<noteq> 0" using inv(2) \<open>owns (at s d)\<close> by blast
    then have "holding_cpu (lock s') = 0" "locked (lock s') \<noteq> 0" using clear_owner by (simp_all add: goto_def)
    ultimately show ?thesis using o by (intro lock_inv_owned [of s' d False]) simp_all
  next
    case (release d)
    have od: "owns (at s d)" "\<not> recorded (at s d)" using release by (simp_all add: owns_def recorded_def)
    then have only: "owns (at s c) \<longleftrightarrow> c = d" for c using inv(1) by blast
    then have h: "holding_cpu (lock s) = 0" using inv(4) od(2) recorded_owns by metis
    have o: "\<not> owns (at s' c)" "\<not> recorded (at s' c)" for c
    proof -
      have "at s' c = (if c = d then Rest else at s c)" using release by (simp add: goto_def)
      moreover have "owns Rest = False" "recorded Rest = False" by (simp_all add: owns_def recorded_def)
      ultimately show "\<not> owns (at s' c)" "\<not> recorded (at s' c)"
        using only [of c] recorded_owns [of "at s c"] by (auto split: if_splits)
    qed
    have "at s' c = Stopped e \<Longrightarrow> c = 0 \<and> e = ''deadlock''" for c e
      using release inv(5) [of c e] by (auto simp: goto_def split: if_splits)
    moreover have "holding_cpu (lock s') = 0" "locked (lock s') = 0" using release h by (simp_all add: goto_def)
    ultimately show ?thesis using o by (intro lock_inv_free) simp_all
  next
    case (restore d)
    then show ?thesis by (intro move [of d Out]) (simp_all add: lock_simps)
  qed
qed

lemma reachable_inv: "reachable s \<Longrightarrow> lock_inv s \<and> (\<forall>c. intr_ok (at s c) (cpus s c))"
  by (induction rule: reachable.induct) (use initial_inv step_lock_inv step_intr_ok in blast)+

section \<open>Properties\<close>

text \<open>
  C11: mutual exclusion and interrupts: in every reachable state at most one processor is
  between acquiring and releasing the lock, a processor in its critical section has
  interrupts disabled and is the recorded holder, and the check of \<^verbatim>\<open>spinlock_unlock\<close> never
  fails.
\<close>

theorem spinlock_mutual_exclusion:
  assumes "reachable s"
  shows "(owns (at s c) \<and> owns (at s d) \<longrightarrow> c = d) \<and>
    (at s c = Crit \<longrightarrow> \<not> interrupts_enabled (cpus s c) \<and> holding_cpu (lock s) = c \<and> locked (lock s) \<noteq> 0) \<and>
    at s c \<noteq> Stopped ''cpu not holding lock''"
proof -
  note inv = reachable_inv [OF assms]
  have "at s c = Crit \<Longrightarrow> owns (at s c) \<and> recorded (at s c)" by (simp add: owns_def recorded_def)
  moreover have "at s c = Crit \<Longrightarrow> \<not> interrupts_enabled (cpus s c)"
    using inv by (metis intr_ok.simps(7))
  moreover have "at s c \<noteq> Stopped ''cpu not holding lock''" using lock_invD(5) [of s c "''cpu not holding lock''"] inv by auto
  ultimately show ?thesis using inv lock_invD(1-3) by blast
qed

definition race0 :: system where
  "race0 = \<lparr>lock = \<lparr>locked = 0, holding_cpu = 0\<rparr>,
     cpus = (\<lambda>_. \<lparr>interrupts_enabled = True, depth = 0, was_enabled = False\<rparr>), at = (\<lambda>_. Out)\<rparr>"

lemma reach_race0: "reachable race0"
  by (rule reachable.start) (simp add: initial_def race0_def)

lemma reach_owner1: "\<exists>s. reachable s \<and> at s 1 = Owner \<and> at s 0 = Out \<and> lock s = \<lparr>locked = 1, holding_cpu = 0\<rparr>"
proof -
  let ?s1 = "goto 1 Check1 (on_cpu 1 (\<lambda>x. save_and_disable_interrupts (save_and_disable_interrupts x)) race0)"
  let ?s2 = "goto 1 Spin (on_cpu 1 restore_interrupts ?s1)"
  let ?s3 = "goto 1 Owner (?s2\<lparr>lock := (lock ?s2)\<lparr>locked := 1\<rparr>\<rparr>)"
  have "reachable ?s1" by (rule reachable.steps [OF reach_race0 step.enter]) (simp add: race0_def)
  then have "reachable ?s2" by (rule reachable.steps [OF _ step.check_free]) (simp_all add: race0_def goto_def on_cpu_def)
  then have "reachable ?s3" by (rule reachable.steps [OF _ step.acquire]) (simp_all add: race0_def goto_def on_cpu_def)
  moreover have "at ?s3 1 = Owner" "at ?s3 0 = Out" "lock ?s3 = \<lparr>locked = 1, holding_cpu = 0\<rparr>"
    by (simp_all add: goto_def on_cpu_def race0_def)
  ultimately show ?thesis by blast
qed

text \<open>
  A run: processor 1 has taken the lock but not yet stored its number, \<^verbatim>\<open>holding_cpu\<close> is
  still 0, and processor 0, which holds nothing, finds itself to be the holder and panics
  with \<^verbatim>\<open>deadlock\<close>. No other processor can be stopped this way.
\<close>

theorem spinlock_false_deadlock:
  "(\<exists>s. reachable s \<and> at s 0 = Stopped ''deadlock'' \<and> at s 1 = Owner) \<and>
   (\<forall>s c e. reachable s \<and> at s c = Stopped e \<longrightarrow> c = 0)"
proof
  obtain s where s: "reachable s" "at s 1 = Owner" "at s 0 = Out" "lock s = \<lparr>locked = 1, holding_cpu = 0\<rparr>"
    using reach_owner1 by blast
  let ?s1 = "goto 0 Check1 (on_cpu 0 (\<lambda>x. save_and_disable_interrupts (save_and_disable_interrupts x)) s)"
  let ?s2 = "goto 0 Check2 ?s1" let ?s3 = "goto 0 (Stopped ''deadlock'') ?s2"
  have "reachable ?s1" by (rule reachable.steps [OF s(1) step.enter]) (rule s(3))
  then have "reachable ?s2" by (rule reachable.steps [OF _ step.check_taken]) (simp_all add: s goto_def on_cpu_def)
  then have "reachable ?s3" by (rule reachable.steps [OF _ step.check_panic]) (simp_all add: s goto_def on_cpu_def)
  moreover have "at ?s3 0 = Stopped ''deadlock''" "at ?s3 1 = Owner" by (simp_all add: s goto_def on_cpu_def)
  ultimately show "\<exists>s. reachable s \<and> at s 0 = Stopped ''deadlock'' \<and> at s 1 = Owner" by blast
next
  show "\<forall>s c e. reachable s \<and> at s c = Stopped e \<longrightarrow> c = 0"
    using reachable_inv lock_invD(5) by blast
qed

theorem spinlock_mutual_exclusion_witness:
  "reachable race0 \<and> at race0 0 \<noteq> Stopped ''cpu not holding lock''"
  using spinlock_mutual_exclusion [OF reach_race0, of 0 1] reach_race0 by blast

theorem spinlock_false_deadlock_witness: "\<exists>s. reachable s \<and> at s 0 = Stopped ''deadlock'' \<and> at s 1 = Owner"
  using spinlock_false_deadlock by blast

text \<open>
  On one processor, locking a free lock and unlocking it again restores the lock and the
  interrupt state, at any nesting depth below the counter's limit.
\<close>

theorem spinlock_lock_unlock:
  assumes "locked l = 0" "holding_cpu l = 0" "depth c = 0 \<or> \<not> interrupts_enabled c" "depth c < 0xfffe"
  shows "\<exists>l1 c1. spinlock_lock en me (l, c) = Some (Ok (l1, c1)) \<and> (en \<longrightarrow> \<not> interrupts_enabled c1) \<and>
    (\<exists>c2. spinlock_unlock en me (l1, c1) = Ok (l, c2) \<and> depth c2 = depth c \<and>
      interrupts_enabled c2 = interrupts_enabled c)"
proof (cases en)
  case False
  then show ?thesis by (simp add: spinlock_lock_def spinlock_unlock_def)
next
  case True
  let ?c1 = "save_and_disable_interrupts c"
  have nest: "restore_interrupts (save_and_disable_interrupts x) = x"
    if "depth x \<noteq> 0" "\<not> interrupts_enabled x" for x
    using that by (cases x) (simp add: save_and_disable_interrupts_def restore_interrupts_def Let_def)
  have ne: "depth c + 1 \<noteq> 0"
    using assms(4) by (auto simp: word_less_nat_alt word_unat_eq_iff unat_word_ariths)
  have c1: "depth ?c1 \<noteq> 0" "\<not> interrupts_enabled ?c1"
    using ne by (simp_all add: save_and_disable_interrupts_def Let_def)
  have "spinlock_lock en me (l, c) = Some (Ok (l\<lparr>locked := 1, holding_cpu := me\<rparr>, ?c1))"
    using True assms(1) nest [OF c1] by (simp add: spinlock_lock_def this_cpu_holding_lock_def Let_def)
  moreover have "spinlock_unlock en me (l\<lparr>locked := 1, holding_cpu := me\<rparr>, ?c1) = Ok (l, restore_interrupts ?c1)"
    using True assms(1,2) nest [OF c1] by (cases l) (simp add: spinlock_unlock_def this_cpu_holding_lock_def Let_def)
  moreover have "depth (restore_interrupts ?c1) = depth c"
    "interrupts_enabled (restore_interrupts ?c1) = interrupts_enabled c"
    using assms(3) by (auto simp: save_and_disable_interrupts_def restore_interrupts_def Let_def)
  ultimately show ?thesis using c1 by blast
qed

theorem spinlock_lock_unlock_witness:
  "\<exists>l1 c1. spinlock_lock True 3 (\<lparr>locked = 0, holding_cpu = 0\<rparr>,
      \<lparr>interrupts_enabled = True, depth = 0, was_enabled = False\<rparr>) = Some (Ok (l1, c1)) \<and> \<not> interrupts_enabled c1"
  using spinlock_lock_unlock [of "\<lparr>locked = 0, holding_cpu = 0\<rparr>"
      "\<lparr>interrupts_enabled = True, depth = 0, was_enabled = False\<rparr>" True 3] by auto

end
