(* ===== verification/Scheduler.thy ===== *)
theory Scheduler
  imports User_Space Spinlock
begin

text \<open>
  \<^verbatim>\<open>kernel/src/userspace/scheduler.c\<close> and \<^verbatim>\<open>scheduler.h\<close>: the run queue of doubly linked
  priority lists, the priority and time-slice arithmetic, and the scheduler loop split at the
  context switch. Processes are records found through their address; \<^verbatim>\<open>&p->sched\<close> and
  \<^verbatim>\<open>container_of\<close> are the identity on that address. Process locks are the spinlocks of the theory
  \<open>Spinlock\<close>, found through their address; the lock of the run queue, which every operation
  takes and releases, is left out. Time (\<^verbatim>\<open>rtc_now\<close>) is an argument.
\<close>

section \<open>Processes and run queues\<close>

datatype process_state = UNUSED | USED | SLEEPING | RUNNABLE | RUNNING | EXITED

record sched_entity =
  vruntime :: u64
  exec_start :: u64
  sum_exec_runtime :: u64
  last_timeslice :: u64
  static_priority :: u8
  dynamic_priority :: u8
  nice :: int
  flags :: u32
  sleep_time :: u64
  last_ran :: u64
  sleep_avg :: u32
  se_next :: u64
  se_prev :: u64
  runqueue_prio :: u8
  in_runqueue :: bool

definition zero_entity :: sched_entity where
  "zero_entity = \<lparr>vruntime = 0, exec_start = 0, sum_exec_runtime = 0, last_timeslice = 0, static_priority = 0,
     dynamic_priority = 0, nice = 0, flags = 0, sleep_time = 0, last_ran = 0, sleep_avg = 0, se_next = 0, se_prev = 0,
     runqueue_prio = 0, in_runqueue = False\<rparr>"

text \<open>
  An open file (\<^verbatim>\<open>fs/file.h\<close>): the union \<^verbatim>\<open>structures\<close> is the inode for \<open>FD_INODE\<close> and the device
  number for \<open>FD_DEVICE\<close>.
\<close>

datatype fd_type = FD_EMPTY | FD_INODE | FD_DEVICE

record process_file =
  fd_kind :: fd_type
  fd_inode :: u64
  fd_device :: int
  fd_offset :: u32
  readble :: bool
  writable :: bool

definition empty_file :: process_file where
  "empty_file = \<lparr>fd_kind = FD_EMPTY, fd_inode = 0, fd_device = 0, fd_offset = 0, readble = False, writable = False\<rparr>"

text \<open>
  Of the processor context only the registers that the C code sets are kept; the others and the saved
  floating point image are only handled by the context switch in assembly.
\<close>

record cpu_context =
  ctx_rsp :: u64
  ctx_rip :: u64
  ctx_rflags :: u64

record process =
  kernel_stack_top :: u64
  kernel_stack_base :: u64
  pid :: u64
  orig_i :: u64
  cur_i :: u64
  pagetable :: u64
  open_files :: "process_file list"
  initial_data_segment :: u64
  current_sbrk :: u64
  working_directory :: u64
  ctx :: cpu_context
  waiting_channel :: u64
  exit_status :: int
  state :: process_state
  stack_canary :: u64
  sched :: sched_entity

record runqueue =
  queue_heads :: "u8 \<Rightarrow> u64"
  queue_tails :: "u8 \<Rightarrow> u64"
  queue_sizes :: "u8 \<Rightarrow> u32"
  total_runnable :: u32
  clock :: u64
  curr :: u64
  total_weight :: u64
  min_vruntime :: u64

record sched_stats =
  total_switches :: u64
  total_preemptions :: u64
  total_yields :: u64
  total_timer_ticks :: u64
  idle_time :: u64

text \<open>
  The globals of \<^verbatim>\<open>scheduler.c\<close> and \<^verbatim>\<open>proc.c\<close> with the per-processor process pointers and the
  memory manager the scheduler calls when it reclaims a process.
\<close>

record kernel =
  procs :: "u64 \<Rightarrow> process"
  rq :: runqueue
  stats :: sched_stats
  processes :: "nat \<Rightarrow> u64"
  process_count :: u64
  process_min_index :: u64
  next_pid :: u64
  running_process :: u64
  last_running_process :: u64
  vm :: vmm
  locks :: "u64 \<Rightarrow> spinlock"
  spinlocks_enabled :: bool
  cpuid :: u32
  cpu :: cpu_intr

definition SCHED_PRIORITY_LEVELS :: u8 where "SCHED_PRIORITY_LEVELS = 8"
definition SCHED_MIN_TIMESLICE_US :: u64 where "SCHED_MIN_TIMESLICE_US = 2000"
definition SCHED_MAX_TIMESLICE_US :: u64 where "SCHED_MAX_TIMESLICE_US = 16000"
definition PRIO_RT_MAX :: u8 where "PRIO_RT_MAX = 2"
definition PRIO_NORMAL_MIN :: u8 where "PRIO_NORMAL_MIN = 3"
definition PRIO_IDLE_MAX :: u8 where "PRIO_IDLE_MAX = 7"
definition SCHED_FLAG_RT :: u32 where "SCHED_FLAG_RT = 1"
definition SCHED_FLAG_INTERACTIVE :: u32 where "SCHED_FLAG_INTERACTIVE = 2"
definition SCHED_FLAG_CPU_BOUND :: u32 where "SCHED_FLAG_CPU_BOUND = 4"
definition MAX_PROCESSES :: nat where "MAX_PROCESSES = 64"
definition MAX_OPEN_FILES :: nat where "MAX_OPEN_FILES = 8"

definition upd_proc :: "u64 \<Rightarrow> (process \<Rightarrow> process) \<Rightarrow> kernel \<Rightarrow> kernel" where
  "upd_proc p f s = s\<lparr>procs := (procs s)(p := f (procs s p))\<rparr>"

definition upd_se :: "u64 \<Rightarrow> (sched_entity \<Rightarrow> sched_entity) \<Rightarrow> kernel \<Rightarrow> kernel" where
  "upd_se p f s = upd_proc p (\<lambda>x. x\<lparr>sched := f (sched x)\<rparr>) s"

definition upd_rq :: "(runqueue \<Rightarrow> runqueue) \<Rightarrow> kernel \<Rightarrow> kernel" where
  "upd_rq f s = s\<lparr>rq := f (rq s)\<rparr>"

definition upd_stats :: "(sched_stats \<Rightarrow> sched_stats) \<Rightarrow> kernel \<Rightarrow> kernel" where
  "upd_stats f s = s\<lparr>stats := f (stats s)\<rparr>"

abbreviation se_of :: "kernel \<Rightarrow> u64 \<Rightarrow> sched_entity" where
  "se_of s p \<equiv> sched (procs s p)"

section \<open>Weights, priorities, time slices\<close>

text \<open>The table has eight entries; a priority beyond it would read outside the array.\<close>

definition prio_weights :: "u64 list" where
  "prio_weights = [88761, 71755, 56483, 46273, 36291, 29154, 23254, 15000]"

definition sched_entity_weight :: "sched_entity \<Rightarrow> u64" where
  "sched_entity_weight se = prio_weights ! unat (dynamic_priority se)"

definition sched_check_interactive :: "sched_entity \<Rightarrow> sched_entity" where
  "sched_check_interactive se =
     (if sleep_time se > 0 \<and> sum_exec_runtime se > 0 then
        let ratio = (sleep_time se * 100) div sum_exec_runtime se in
        if ratio > 150 then se\<lparr>flags := flags se OR SCHED_FLAG_INTERACTIVE\<rparr>
        else if ratio < 50 then
          se\<lparr>flags := (flags se OR SCHED_FLAG_CPU_BOUND) AND NOT SCHED_FLAG_INTERACTIVE\<rparr>
        else se
      else se)"

text \<open>C division of a signed integer truncates towards zero.\<close>

definition c_div :: "int \<Rightarrow> int \<Rightarrow> int" where
  "c_div a b = sgn a * sgn b * (\<bar>a\<bar> div \<bar>b\<bar>)"

definition sched_update_priority :: "sched_entity \<Rightarrow> sched_entity" where
  "sched_update_priority se =
     (if flags se AND SCHED_FLAG_RT \<noteq> 0 then se
      else
        let base = int (unat (static_priority se));
            adjustment = (if flags se AND SCHED_FLAG_INTERACTIVE \<noteq> 0 then -1 else 0);
            adjustment = (if flags se AND SCHED_FLAG_CPU_BOUND \<noteq> 0 then 1 else adjustment);
            adjustment = adjustment + c_div (nice se) 4;
            new_prio = base + adjustment;
            new_prio = (if new_prio < 3 then 3 else new_prio);
            new_prio = (if new_prio > 7 then 7 else new_prio)
        in se\<lparr>dynamic_priority := word_of_int new_prio\<rparr>)"

definition sched_compute_timeslice :: "kernel \<Rightarrow> sched_entity \<Rightarrow> u64" where
  "sched_compute_timeslice s se =
     (if flags se AND SCHED_FLAG_RT \<noteq> 0 then SCHED_MAX_TIMESLICE_US
      else
        let weight = sched_entity_weight se; tw = total_weight (rq s) in
        if tw = 0 then SCHED_MAX_TIMESLICE_US
        else
          let timeslice = (SCHED_MAX_TIMESLICE_US * weight) div tw;
              timeslice = (if timeslice < SCHED_MIN_TIMESLICE_US then SCHED_MIN_TIMESLICE_US else timeslice);
              timeslice = (if timeslice > SCHED_MAX_TIMESLICE_US then SCHED_MAX_TIMESLICE_US else timeslice)
          in if flags se AND SCHED_FLAG_INTERACTIVE \<noteq> 0 then (timeslice * 3) div 2 else timeslice)"

definition sched_update_vruntime :: "u64 \<Rightarrow> u64 \<Rightarrow> kernel \<Rightarrow> kernel" where
  "sched_update_vruntime p delta_us s =
     (let weight = sched_entity_weight (se_of s p);
          vdelta = (delta_us * 1024) div weight;
          s1 = upd_se p (\<lambda>se. se\<lparr>vruntime := vruntime se + vdelta,
                 sum_exec_runtime := sum_exec_runtime se + delta_us\<rparr>) s
      in if vruntime (se_of s1 p) < min_vruntime (rq s1)
         then upd_rq (\<lambda>q. q\<lparr>min_vruntime := vruntime (se_of s1 p)\<rparr>) s1 else s1)"

section \<open>The queues\<close>

definition sched_enqueue :: "u64 \<Rightarrow> kernel \<Rightarrow> kernel" where
  "sched_enqueue p s =
     (let prio = dynamic_priority (se_of s p);
          prio = (if prio \<ge> SCHED_PRIORITY_LEVELS then SCHED_PRIORITY_LEVELS - 1 else prio);
          t = queue_tails (rq s) prio;
          s1 = upd_se p (\<lambda>se. se\<lparr>se_next := 0, se_prev := t, runqueue_prio := prio, in_runqueue := True\<rparr>) s;
          s2 = (if t \<noteq> 0 then upd_se t (\<lambda>se. se\<lparr>se_next := p\<rparr>) s1
                else upd_rq (\<lambda>q. q\<lparr>queue_heads := (queue_heads q)(prio := p)\<rparr>) s1)
      in upd_rq (\<lambda>q. q\<lparr>queue_tails := (queue_tails q)(prio := p),
           queue_sizes := (queue_sizes q)(prio := queue_sizes q prio + 1),
           total_runnable := total_runnable q + 1,
           total_weight := total_weight q + sched_entity_weight (se_of s2 p)\<rparr>) s2)"

definition sched_dequeue :: "u64 \<Rightarrow> kernel \<Rightarrow> kernel" where
  "sched_dequeue p s =
     (let prio = runqueue_prio (se_of s p) in
      if prio \<ge> SCHED_PRIORITY_LEVELS then s
      else
        let s1 = (if se_prev (se_of s p) \<noteq> 0
                  then upd_se (se_prev (se_of s p)) (\<lambda>se. se\<lparr>se_next := se_next (se_of s p)\<rparr>) s
                  else upd_rq (\<lambda>q. q\<lparr>queue_heads := (queue_heads q)(prio := se_next (se_of s p))\<rparr>) s);
            s2 = (if se_next (se_of s1 p) \<noteq> 0
                  then upd_se (se_next (se_of s1 p)) (\<lambda>se. se\<lparr>se_prev := se_prev (se_of s1 p)\<rparr>) s1
                  else upd_rq (\<lambda>q. q\<lparr>queue_tails := (queue_tails q)(prio := se_prev (se_of s1 p))\<rparr>) s1);
            s3 = upd_se p (\<lambda>se. se\<lparr>se_next := 0, se_prev := 0, in_runqueue := False\<rparr>) s2
        in upd_rq (\<lambda>q. q\<lparr>queue_sizes := (queue_sizes q)(prio := queue_sizes q prio - 1),
             total_runnable := total_runnable q - 1,
             total_weight := total_weight q - sched_entity_weight (se_of s3 p)\<rparr>) s3)"

text \<open>The search for the least virtual runtime; a cyclic list would not end.\<close>

partial_function (option) min_search :: "kernel \<Rightarrow> u64 \<Rightarrow> u64 \<Rightarrow> u64 \<Rightarrow> u64 option" where
  "min_search s se best least =
     (if se = 0 then Some best
      else if vruntime (se_of s se) < least
        then min_search s (se_next (se_of s se)) se (vruntime (se_of s se))
      else min_search s (se_next (se_of s se)) best least)"

primrec pick_from :: "kernel \<Rightarrow> u8 list \<Rightarrow> u64 option" where
  "pick_from s [] = Some 0"
| "pick_from s (prio # ps) =
     (let se = queue_heads (rq s) prio in
      if se = 0 then pick_from s ps
      else if prio \<le> PRIO_RT_MAX then Some se
      else min_search s (se_next (se_of s se)) se (vruntime (se_of s se)))"

definition sched_pick_next :: "kernel \<Rightarrow> u64 option" where
  "sched_pick_next s = pick_from s [0, 1, 2, 3, 4, 5, 6, 7]"

section \<open>Operations on processes\<close>

definition sched_fork :: "u64 \<Rightarrow> kernel \<Rightarrow> kernel" where
  "sched_fork p s =
     (let s1 = upd_se p (\<lambda>_. zero_entity\<lparr>static_priority := PRIO_NORMAL_MIN,
                 dynamic_priority := PRIO_NORMAL_MIN, nice := 0, vruntime := min_vruntime (rq s)\<rparr>) s
      in upd_se p (\<lambda>se. se\<lparr>last_timeslice := sched_compute_timeslice s1 se\<rparr>) s1)"

definition sched_sleep :: "u64 \<Rightarrow> u64 \<Rightarrow> u64 \<Rightarrow> kernel \<Rightarrow> kernel" where
  "sched_sleep now p wchan s =
     (let s1 = upd_se p (\<lambda>se. if last_ran se > 0 then
                 let sleep_duration = now - last_ran se
                 in se\<lparr>sleep_time := sleep_time se + sleep_duration,
                       sleep_avg := ucast ((ucast (sleep_avg se * 7) + sleep_duration) div 8)\<rparr>
               else se) s;
          s2 = sched_dequeue p s1;
          s3 = upd_proc p (\<lambda>x. x\<lparr>state := SLEEPING, waiting_channel := wchan\<rparr>) s2
      in upd_se p sched_check_interactive s3)"

definition sched_wakeup :: "u64 \<Rightarrow> kernel \<Rightarrow> kernel" where
  "sched_wakeup p s =
     (if state (procs s p) \<noteq> SLEEPING \<and> state (procs s p) \<noteq> USED then s
      else
        let s1 = upd_proc p (\<lambda>x. x\<lparr>state := RUNNABLE, waiting_channel := 0\<rparr>) s;
            s2 = upd_se p (\<lambda>se. se\<lparr>se_next := 0, se_prev := 0\<rparr>) s1
        in sched_enqueue p (upd_se p sched_update_priority s2))"

definition requeue :: "u64 \<Rightarrow> kernel \<Rightarrow> kernel" where
  "requeue p s =
     (if state (procs s p) = RUNNABLE \<and> in_runqueue (se_of s p) then sched_enqueue p (sched_dequeue p s) else s)"

definition sched_set_priority :: "u64 \<Rightarrow> u8 \<Rightarrow> kernel \<Rightarrow> kernel" where
  "sched_set_priority p prio s =
     (if prio \<ge> SCHED_PRIORITY_LEVELS then s
      else requeue p (upd_se p (\<lambda>se.
        (if prio \<le> PRIO_RT_MAX then se\<lparr>flags := flags se OR SCHED_FLAG_RT\<rparr>
         else se\<lparr>flags := flags se AND NOT SCHED_FLAG_RT\<rparr>)
        \<lparr>static_priority := prio, dynamic_priority := prio\<rparr>) s))"

definition sched_nice :: "u64 \<Rightarrow> int \<Rightarrow> kernel \<Rightarrow> kernel" where
  "sched_nice p n s =
     (let n = (if n < -20 then -20 else n); n = (if n > 19 then 19 else n)
      in requeue p (upd_se p (\<lambda>se. sched_update_priority (se\<lparr>nice := n\<rparr>)) s))"

section \<open>Process locks\<close>

text \<open>
  \<^verbatim>\<open>condvar_lock\<close> and \<^verbatim>\<open>condvar_unlock\<close> (\<^verbatim>\<open>common/condvar.c\<close>) on the lock at an address; the member
  \<^verbatim>\<open>lock\<close> of \<^verbatim>\<open>struct process\<close> is at offset 944. \<open>None\<close> is a lock that never comes free.
\<close>

definition proc_lock :: "u64 \<Rightarrow> u64" where
  "proc_lock p = p + 944"

definition condvar_lock :: "u64 \<Rightarrow> kernel \<Rightarrow> kernel outcome option" where
  "condvar_lock cond s =
     map_option (\<lambda>r. obind r (\<lambda>(l, c). Ok (s\<lparr>locks := (locks s)(cond := l), cpu := c\<rparr>)))
       (spinlock_lock (spinlocks_enabled s) (cpuid s) (locks s cond, cpu s))"

definition condvar_unlock :: "u64 \<Rightarrow> kernel \<Rightarrow> kernel outcome" where
  "condvar_unlock cond s =
     obind (spinlock_unlock (spinlocks_enabled s) (cpuid s) (locks s cond, cpu s))
       (\<lambda>(l, c). Ok (s\<lparr>locks := (locks s)(cond := l), cpu := c\<rparr>))"

section \<open>The timer\<close>

text \<open>
  \<^verbatim>\<open>scheduler_switch_back\<close> (\<^verbatim>\<open>proc.c\<close>) leaves for the scheduler unless its checks panic.
\<close>

definition scheduler_switch_back :: "kernel \<Rightarrow> kernel outcome" where
  "scheduler_switch_back s =
     (if \<not> spinlock_locked (locks s (proc_lock (running_process s))) then Panic ''scheduler_switch_back: not locked''
      else if state (procs s (running_process s)) = RUNNING then Panic ''scheduler_switch_back: RUNNING''
      else Ok s)"

definition scheduler_preempt :: "kernel \<Rightarrow> kernel outcome" where
  "scheduler_preempt s =
     (let c = curr (rq s) in
      if c = 0 then Ok s
      else scheduler_switch_back
             (if state (procs s c) = RUNNING then upd_proc c (\<lambda>x. x\<lparr>state := RUNNABLE\<rparr>) s else s))"

definition scheduler_tick :: "u64 \<Rightarrow> kernel \<Rightarrow> kernel outcome" where
  "scheduler_tick now s =
     (let s1 = upd_stats (\<lambda>t. t\<lparr>total_timer_ticks := total_timer_ticks t + 1\<rparr>) s; c = curr (rq s1) in
      if c = 0 \<or> state (procs s1 c) \<noteq> RUNNING then Ok s1
      else
        let s2 = (if exec_start (se_of s1 c) > 0
                  then upd_se c (\<lambda>se. se\<lparr>exec_start := now\<rparr>)
                         (sched_update_vruntime c (now - exec_start (se_of s1 c)) s1)
                  else s1)
        in if now - last_ran (se_of s2 c) \<ge> last_timeslice (se_of s2 c)
           then scheduler_preempt (upd_stats (\<lambda>t. t\<lparr>total_preemptions := total_preemptions t + 1\<rparr>) s2)
           else Ok s2)"

definition scheduler_yield :: "kernel \<Rightarrow> kernel outcome option" where
  "scheduler_yield s =
     (let s1 = upd_stats (\<lambda>t. t\<lparr>total_yields := total_yields t + 1\<rparr>) s; c = running_process s1 in
      if c = 0 then Some (Ok s1)
      else kbind (condvar_lock (proc_lock c) s1) (\<lambda>s2.
        Some (scheduler_switch_back (upd_proc c (\<lambda>x. x\<lparr>state := RUNNABLE\<rparr>) s2))))"

definition sched_timer_handler :: "u64 \<Rightarrow> u64 \<Rightarrow> kernel \<Rightarrow> kernel outcome" where
  "sched_timer_handler now now' s = scheduler_tick now' (upd_rq (\<lambda>q. q\<lparr>clock := now\<rparr>) s)"

section \<open>The scheduler loop\<close>

text \<open>Closing the gap that the process at index \<open>i\<close> leaves in the table; \<open>k\<close> slots remain.\<close>

primrec coelesce_loop :: "nat \<Rightarrow> nat \<Rightarrow> kernel \<Rightarrow> kernel" where
  "coelesce_loop j 0 s = s"
| "coelesce_loop j (Suc k) s =
     (let p = processes s j in
      if p \<noteq> 0 then
        coelesce_loop (Suc j) k
          (upd_proc p (\<lambda>x. x\<lparr>cur_i := of_nat (j - 1)\<rparr>) (s\<lparr>processes := (processes s)(j - 1 := p, j := 0)\<rparr>))
      else s)"

definition coelesce_processes :: "nat \<Rightarrow> kernel \<Rightarrow> kernel" where
  "coelesce_processes i s =
     (let s1 = coelesce_loop (i + 1) (unat (process_count s) - (i + 1)) s;
          s2 = (if process_min_index s1 > of_nat i then s1\<lparr>process_min_index := of_nat i\<rparr> else s1)
      in s2\<lparr>process_count := process_count s2 - 1\<rparr>)"

text \<open>Giving back what an exited process owns, then its table slot.\<close>

definition release_process :: "u64 \<Rightarrow> kernel \<Rightarrow> kernel outcome option" where
  "release_process p s =
     Option.bind (vmm_free_proc_kernel_stack (orig_i (procs s p)) (vm s)) (\<lambda>r. Some (
       obind r (\<lambda>v1.
       obind (vmm_user_pagetable_free (pagetable (procs s p)) (km v1)) (\<lambda>k1.
       let s1 = upd_proc p (\<lambda>x. x\<lparr>state := UNUSED, pid := 0\<rparr>) (s\<lparr>vm := v1\<lparr>km := k1\<rparr>\<rparr>);
           s2 = (if last_running_process s1 = p then s1\<lparr>last_running_process := 0\<rparr> else s1)
       in obind (kfree p k1) (\<lambda>k2. Ok (s2\<lparr>vm := v1\<lparr>km := k2\<rparr>\<rparr>))))))"

definition reclaim_process :: "nat \<Rightarrow> u64 \<Rightarrow> kernel \<Rightarrow> kernel outcome option" where
  "reclaim_process i p s =
     map_option (\<lambda>r. obind r (\<lambda>s1. Ok (coelesce_processes i (s1\<lparr>processes := (processes s1)(i := 0)\<rparr>))))
       (release_process p s)"

primrec rebuild_loop :: "nat \<Rightarrow> nat \<Rightarrow> kernel \<Rightarrow> kernel" where
  "rebuild_loop i 0 s = s"
| "rebuild_loop i (Suc k) s =
     (let p = processes s i in
      rebuild_loop (Suc i) k
        (if p \<noteq> 0 \<and> state (procs s p) = RUNNABLE \<and> \<not> in_runqueue (se_of s p)
         then sched_enqueue p (upd_se p (\<lambda>se. se\<lparr>se_next := 0, se_prev := 0\<rparr>) s) else s))"

partial_function (option) reclaim_loop :: "nat \<Rightarrow> bool \<Rightarrow> kernel \<Rightarrow> (bool \<times> kernel) outcome option" where
  "reclaim_loop i any s =
     (if \<not> i < unat (process_count s) then Some (Ok (any, s))
      else
        let p = processes s i in
        if p \<noteq> 0 \<and> state (procs s p) = EXITED then
          (case reclaim_process i p s of
             None \<Rightarrow> None
           | Some (Panic e) \<Rightarrow> Some (Panic e)
           | Some (Ok s1) \<Rightarrow> reclaim_loop i True s1)
        else reclaim_loop (Suc i) any s)"

datatype sched_action = Again | Idle | Shutdown | Switch u64

text \<open>
  One turn of the loop up to the context switch. \<open>Again\<close> is a \<^verbatim>\<open>continue\<close>, \<open>Idle\<close> the wait for an
  interrupt, \<open>Shutdown\<close> the call of \<^verbatim>\<open>system_shutdown\<close>, \<open>Switch p\<close> the entry of process \<open>p\<close>.
\<close>

definition scheduler_idle :: "kernel \<Rightarrow> (sched_action \<times> kernel) outcome option" where
  "scheduler_idle s =
     (let s1 = rebuild_loop 0 (unat (process_count s)) s in
      if total_runnable (rq s1) > 0 then Some (Ok (Again, s1))
      else map_option (\<lambda>r. obind r (\<lambda>(any, s2).
        if any then Ok (Again, s2)
        else
          let s3 = upd_stats (\<lambda>t. t\<lparr>idle_time := idle_time t + 1\<rparr>) s2;
              all_done = (\<forall>i < unat (process_count s3).
                            \<not> (processes s3 i \<noteq> 0 \<and> state (procs s3 (processes s3 i)) \<noteq> UNUSED))
          in Ok (if all_done then Shutdown else Idle, s3)))
        (reclaim_loop 0 False s1))"

definition scheduler_dispatch :: "u64 \<Rightarrow> u64 \<Rightarrow> kernel \<Rightarrow> kernel" where
  "scheduler_dispatch now p s =
     (let s1 = sched_dequeue p s;
          s2 = upd_proc p (\<lambda>x. x\<lparr>state := RUNNING\<rparr>) (upd_rq (\<lambda>q. q\<lparr>curr := p\<rparr>) s1);
          s3 = upd_se p (\<lambda>se. se\<lparr>exec_start := now, last_ran := now\<rparr>) s2;
          s4 = upd_se p (\<lambda>se. se\<lparr>last_timeslice := sched_compute_timeslice s3 se\<rparr>) s3;
          s5 = s4\<lparr>running_process := p, last_running_process := p\<rparr>
      in upd_stats (\<lambda>t. t\<lparr>total_switches := total_switches t + 1\<rparr>) s5)"

definition scheduler_turn :: "u64 \<Rightarrow> kernel \<Rightarrow> (sched_action \<times> kernel) outcome option" where
  "scheduler_turn now s =
     (if total_runnable (rq s) = 0 then scheduler_idle s
      else Option.bind (sched_pick_next s) (\<lambda>p.
        if p = 0 then Some (Ok (Again, s))
        else map_option (\<lambda>r. obind r (\<lambda>s1. Ok (Switch p, s1)))
               (condvar_lock (proc_lock p) (scheduler_dispatch now p s))))"

text \<open>
  From the label \<^verbatim>\<open>resume_scheduler\<close> on, back from process \<open>p\<close>: its lock is released, its time
  accounted for, and it is queued again, left asleep or taken apart.
\<close>

definition scheduler_account :: "u64 \<Rightarrow> u64 \<Rightarrow> kernel \<Rightarrow> kernel outcome option" where
  "scheduler_account now p s =
     (let s1 = sched_update_vruntime p (now - exec_start (se_of s p)) s;
          s2 = upd_se p (\<lambda>se. sched_update_priority (sched_check_interactive se)) s1;
          finish = (\<lambda>s'. upd_rq (\<lambda>q. q\<lparr>curr := 0\<rparr>) s'\<lparr>running_process := 0\<rparr>)
      in case state (procs s2 p) of
           RUNNABLE \<Rightarrow> Some (Ok (finish (sched_enqueue p s2)))
         | SLEEPING \<Rightarrow> Some (Ok (finish s2))
         | EXITED \<Rightarrow> map_option (\<lambda>r. obind r (\<lambda>s3.
             let idx = unat (cur_i (procs s3 p)) in
             Ok (finish (coelesce_processes idx (s3\<lparr>processes := (processes s3)(idx := 0)\<rparr>)))))
             (release_process p s2)
         | RUNNING \<Rightarrow> Some (Ok (finish s2))
         | _ \<Rightarrow> Some (Ok (finish (sched_enqueue p (upd_proc p (\<lambda>x. x\<lparr>state := RUNNABLE\<rparr>) s2)))))"

definition scheduler_resume :: "u64 \<Rightarrow> u64 \<Rightarrow> kernel \<Rightarrow> kernel outcome option" where
  "scheduler_resume now p s = kbind (Some (condvar_unlock (proc_lock p) s)) (scheduler_account now p)"

definition sched_get_stats :: "kernel \<Rightarrow> sched_stats" where
  "sched_get_stats s = stats s"

end
