(* ===== verification/Run_Queue.thy ===== *)
theory Run_Queue
  imports Scheduler
begin

text \<open>
  The queues of \<^verbatim>\<open>scheduler.c\<close> as lists: the links of the entities form the doubly linked segments
  the heads and tails point to, \<^verbatim>\<open>sched_enqueue\<close> appends, \<^verbatim>\<open>sched_dequeue\<close> removes, and
  \<^verbatim>\<open>sched_pick_next\<close> chooses a member by the rule of its priority.
\<close>

section \<open>Doubly linked segments\<close>

text \<open>The entities \<open>xs\<close> linked in order, with \<open>pv\<close> before the first and \<open>nx\<close> after the last.\<close>

primrec lseg :: "(u64 \<Rightarrow> sched_entity) \<Rightarrow> u64 \<Rightarrow> u64 list \<Rightarrow> u64 \<Rightarrow> bool" where
  "lseg f pv [] nx \<longleftrightarrow> True"
| "lseg f pv (x # xs) nx \<longleftrightarrow> se_prev (f x) = pv \<and> se_next (f x) = (if xs = [] then nx else hd xs) \<and> lseg f x xs nx"

definition hd0 :: "u64 list \<Rightarrow> u64" where
  "hd0 xs = (if xs = [] then 0 else hd xs)"

definition last0 :: "u64 list \<Rightarrow> u64" where
  "last0 xs = (if xs = [] then 0 else last xs)"

lemma hd0_simps [simp]: "hd0 [] = 0" "hd0 (x # xs) = x"
  by (simp_all add: hd0_def)

lemma last0_simps [simp]: "last0 [] = 0" "last0 (xs @ [x]) = x"
  by (simp_all add: last0_def)

lemma last0_eq_0: "0 \<notin> set xs \<Longrightarrow> last0 xs = 0 \<longleftrightarrow> xs = []"
  using last_in_set [of xs] by (auto simp: last0_def simp del: last_in_set)

lemma hd0_eq_0: "0 \<notin> set xs \<Longrightarrow> hd0 xs = 0 \<longleftrightarrow> xs = []"
  by (cases xs) auto

lemma last0_neq: "p \<notin> set xs \<Longrightarrow> p \<noteq> 0 \<Longrightarrow> last0 xs \<noteq> p"
  using last_in_set [of xs] by (auto simp: last0_def simp del: last_in_set)

lemma last0_Cons: "last0 (x # xs) = (if xs = [] then x else last0 xs)"
  by (simp add: last0_def)

lemma hd0_append: "hd0 (xs @ ys) = (if xs = [] then hd0 ys else hd0 xs)"
  by (simp add: hd0_def)

lemma last0_append: "last0 (xs @ ys) = (if ys = [] then last0 xs else last0 ys)"
  by (simp add: last0_def)

lemma lseg_append:
  "lseg f pv (xs @ ys) nx \<longleftrightarrow>
     lseg f pv xs (if ys = [] then nx else hd ys) \<and> lseg f (if xs = [] then pv else last xs) ys nx"
  by (induction xs arbitrary: pv) auto

lemma lseg_cong:
  assumes "\<And>x. x \<in> set xs \<Longrightarrow> se_prev (f x) = se_prev (g x) \<and> se_next (f x) = se_next (g x)"
  shows "lseg f pv xs nx \<longleftrightarrow> lseg g pv xs nx"
  using assms by (induction xs arbitrary: pv) auto

text \<open>Changing the last forward link or the first backward link.\<close>

lemma lseg_set_next:
  assumes "lseg f pv xs nx" "distinct xs" "xs \<noteq> []"
    "\<And>x. x \<in> set xs \<Longrightarrow> se_prev (g x) = se_prev (f x) \<and> (x \<noteq> last xs \<longrightarrow> se_next (g x) = se_next (f x))"
    "se_next (g (last xs)) = nx'"
  shows "lseg g pv xs nx'"
  using assms
proof (induction xs arbitrary: pv)
  case (Cons x xs)
  show ?case
  proof (cases "xs = []")
    case False
    then have "x \<noteq> last xs" using Cons.prems(2) by auto
    then show ?thesis using Cons False by simp
  qed (use Cons.prems in simp)
qed simp

lemma lseg_set_prev:
  assumes "lseg f pv (x # xs) nx" "x \<notin> set xs" "se_prev (g x) = pv'" "se_next (g x) = se_next (f x)"
    "\<And>y. y \<in> set xs \<Longrightarrow> se_prev (g y) = se_prev (f y) \<and> se_next (g y) = se_next (f y)"
  shows "lseg g pv' (x # xs) nx"
  using assms lseg_cong [of xs f g x nx] by simp

section \<open>The run queue invariant\<close>

definition prios :: "u8 list" where
  "prios = [0, 1, 2, 3, 4, 5, 6, 7]"

lemma prios_less: "prio \<in> set prios \<longleftrightarrow> prio < SCHED_PRIORITY_LEVELS"
proof
  assume "prio < SCHED_PRIORITY_LEVELS"
  then have "unat prio < 8" by (simp add: SCHED_PRIORITY_LEVELS_def word_less_nat_alt)
  then have "unat prio \<in> {0, 1, 2, 3, 4, 5, 6, 7}" by auto
  then have "prio \<in> word_of_nat ` {0, 1, 2, 3, 4, 5, 6, 7}" 
    by (rule image_eqI [rotated]) simp
  then show "prio \<in> set prios" by (simp add: prios_def)
qed (auto simp: prios_def SCHED_PRIORITY_LEVELS_def)

definition queue_ok :: "kernel \<Rightarrow> u8 \<Rightarrow> u64 list \<Rightarrow> bool" where
  "queue_ok s prio xs \<longleftrightarrow>
     queue_heads (rq s) prio = hd0 xs \<and> queue_tails (rq s) prio = last0 xs \<and> lseg (se_of s) 0 xs 0 \<and>
     distinct xs \<and> 0 \<notin> set xs \<and> (\<forall>x \<in> set xs. in_runqueue (se_of s x) \<and> runqueue_prio (se_of s x) = prio) \<and>
     queue_sizes (rq s) prio = of_nat (length xs)"

text \<open>\<open>qs\<close> gives the contents of the eight queues.\<close>

definition rq_inv :: "kernel \<Rightarrow> (u8 \<Rightarrow> u64 list) \<Rightarrow> bool" where
  "rq_inv s qs \<longleftrightarrow>
     (\<forall>prio \<in> set prios. queue_ok s prio (qs prio)) \<and>
     (\<forall>p. p \<noteq> 0 \<longrightarrow> in_runqueue (se_of s p) \<longrightarrow>
        runqueue_prio (se_of s p) \<in> set prios \<and> p \<in> set (qs (runqueue_prio (se_of s p)))) \<and>
     total_runnable (rq s) = of_nat (sum_list (map (\<lambda>prio. length (qs prio)) prios))"

lemma upd_simps [simp]:
  "procs (upd_proc p f s) = (procs s)(p := f (procs s p))" "rq (upd_proc p f s) = rq s"
  "se_of (upd_se p g s) q = (if q = p then g (se_of s p) else se_of s q)" "rq (upd_se p g s) = rq s"
  "procs (upd_rq h s) = procs s" "rq (upd_rq h s) = h (rq s)"
  "procs (upd_stats k s) = procs s" "rq (upd_stats k s) = rq s"
  by (simp_all add: upd_proc_def upd_se_def upd_rq_def upd_stats_def)

lemma se_of_upd [simp]: "se_of (upd_proc p f s) q = (if q = p then sched (f (procs s p)) else se_of s q)"
  by simp

lemma queue_okD:
  assumes "queue_ok s prio xs"
  shows "queue_heads (rq s) prio = hd0 xs" "queue_tails (rq s) prio = last0 xs" "lseg (se_of s) 0 xs 0"
    "distinct xs" "0 \<notin> set xs" "x \<in> set xs \<Longrightarrow> in_runqueue (se_of s x)" "x \<in> set xs \<Longrightarrow> runqueue_prio (se_of s x) = prio"
    "queue_sizes (rq s) prio = of_nat (length xs)"
  using assms by (auto simp: queue_ok_def)

text \<open>A queue is untouched by changes to entities outside it.\<close>

lemma queue_ok_frame:
  assumes "queue_ok s prio xs" "\<And>x. x \<in> set xs \<Longrightarrow> se_of s' x = se_of s x"
    "queue_heads (rq s') prio = queue_heads (rq s) prio" "queue_tails (rq s') prio = queue_tails (rq s) prio"
    "queue_sizes (rq s') prio = queue_sizes (rq s) prio"
  shows "queue_ok s' prio xs"
  using assms lseg_cong [of xs "se_of s'" "se_of s" 0 0] by (auto simp: queue_ok_def)

section \<open>Enqueue\<close>

definition enq_prio :: "kernel \<Rightarrow> u64 \<Rightarrow> u8" where
  "enq_prio s p = (if dynamic_priority (se_of s p) \<ge> SCHED_PRIORITY_LEVELS then 7 else dynamic_priority (se_of s p))"

lemma enq_prio_in [simp]: "enq_prio s p \<in> set prios"
  by (auto simp: enq_prio_def prios_less SCHED_PRIORITY_LEVELS_def)

text \<open>The effect of \<open>sched_enqueue\<close>, component by component.\<close>

lemma sched_enqueue_effect:
  defines "prio \<equiv> \<lambda>s p. enq_prio s p" and "t \<equiv> \<lambda>s p. queue_tails (rq s) (enq_prio s p)"
  shows sched_enqueue_se: "t s p \<noteq> p \<Longrightarrow> se_of (sched_enqueue p s) x =
      (if x = p then (se_of s p)\<lparr>se_next := 0, se_prev := t s p, runqueue_prio := prio s p, in_runqueue := True\<rparr>
       else if x = t s p \<and> t s p \<noteq> 0 then (se_of s x)\<lparr>se_next := p\<rparr> else se_of s x)"
    and sched_enqueue_heads: "queue_heads (rq (sched_enqueue p s)) =
      (if t s p = 0 then (queue_heads (rq s))(prio s p := p) else queue_heads (rq s))"
    and sched_enqueue_tails: "queue_tails (rq (sched_enqueue p s)) = (queue_tails (rq s))(prio s p := p)"
    and sched_enqueue_sizes: "queue_sizes (rq (sched_enqueue p s)) =
      (queue_sizes (rq s))(prio s p := queue_sizes (rq s) (prio s p) + 1)"
    and sched_enqueue_total: "total_runnable (rq (sched_enqueue p s)) = total_runnable (rq s) + 1"
proof -
  have pr: "(if SCHED_PRIORITY_LEVELS \<le> dynamic_priority (se_of s p) then SCHED_PRIORITY_LEVELS - 1
      else dynamic_priority (se_of s p)) = enq_prio s p"
    by (simp add: enq_prio_def SCHED_PRIORITY_LEVELS_def)
  note d = sched_enqueue_def Let_def pr assms
  show "t s p \<noteq> p \<Longrightarrow> se_of (sched_enqueue p s) x =
      (if x = p then (se_of s p)\<lparr>se_next := 0, se_prev := t s p, runqueue_prio := prio s p, in_runqueue := True\<rparr>
       else if x = t s p \<and> t s p \<noteq> 0 then (se_of s x)\<lparr>se_next := p\<rparr> else se_of s x)"
    by (cases "t s p = 0"; cases "x = p") (simp_all add: d)
  show "queue_heads (rq (sched_enqueue p s)) =
      (if t s p = 0 then (queue_heads (rq s))(prio s p := p) else queue_heads (rq s))"
    "queue_tails (rq (sched_enqueue p s)) = (queue_tails (rq s))(prio s p := p)"
    "queue_sizes (rq (sched_enqueue p s)) = (queue_sizes (rq s))(prio s p := queue_sizes (rq s) (prio s p) + 1)"
    "total_runnable (rq (sched_enqueue p s)) = total_runnable (rq s) + 1"
    by (cases "t s p = 0"; simp add: d)+
qed

lemmas sched_enqueue_rq = sched_enqueue_heads sched_enqueue_tails sched_enqueue_sizes sched_enqueue_total

lemma enqueue_queue:
  assumes "queue_ok s prio xs" "prio = enq_prio s p" "p \<notin> set xs" "p \<noteq> 0"
  shows "queue_ok (sched_enqueue p s) prio (xs @ [p])"
proof -
  note q = queue_okD [OF assms(1)]
  let ?s = "sched_enqueue p s" and ?t = "last0 xs"
  note t = last0_eq_0 [OF q(5)] last0_neq [OF assms(3,4)]
  have se: "se_of ?s x = (if x = p then (se_of s p)\<lparr>se_next := 0, se_prev := ?t, runqueue_prio := prio, in_runqueue := True\<rparr>
      else if x = ?t \<and> xs \<noteq> [] then (se_of s x)\<lparr>se_next := p\<rparr> else se_of s x)" for x
    using sched_enqueue_se [of s p x] t(1,2) q(2) unfolding assms(2) by simp
  have rq: "queue_heads (rq ?s) prio = (if xs = [] then p else hd0 xs)" "queue_tails (rq ?s) prio = p"
    "queue_sizes (rq ?s) prio = queue_sizes (rq s) prio + 1"
    using t(1) q(1,2) unfolding assms(2) by (simp_all add: sched_enqueue_rq)
  have seg: "lseg (se_of ?s) 0 xs p"
  proof (cases "xs = []")
    case False
    show ?thesis
      by (rule lseg_set_next [OF q(3,4) False]) (use se t(2) False assms(3) in \<open>auto simp: last0_def\<close>)
  qed simp
  have "lseg (se_of ?s) 0 (xs @ [p]) 0"
    using seg se [of p] by (auto simp: lseg_append last0_def)
  moreover have "in_runqueue (se_of ?s x)" "runqueue_prio (se_of ?s x) = prio" if "x \<in> set (xs @ [p])" for x
    using that q(6,7) se by auto
  ultimately show ?thesis
    using rq q(4,5,8) assms(3,4) by (auto simp: queue_ok_def hd0_def)
qed

lemma enqueue_other:
  assumes "queue_ok s prio xs" "prio \<noteq> enq_prio s p" "p \<notin> set xs" "queue_tails (rq s) (enq_prio s p) \<notin> set xs"
    "queue_tails (rq s) (enq_prio s p) \<noteq> p"
  shows "queue_ok (sched_enqueue p s) prio xs"
proof (rule queue_ok_frame [OF assms(1)])
  fix x assume "x \<in> set xs"
  then have "x \<noteq> p" "x \<noteq> queue_tails (rq s) (enq_prio s p)" using assms(3,4) by auto
  then show "se_of (sched_enqueue p s) x = se_of s x" using sched_enqueue_se [OF assms(5)] by simp
qed (use assms(2) in \<open>simp_all add: sched_enqueue_rq\<close>)

lemma sum_prios_upd:
  assumes "prio \<in> set prios"
  shows "sum_list (map (\<lambda>i. f ((g(prio := x)) i)) prios) + f (g prio) = sum_list (map (\<lambda>i. f (g i)) prios) + (f x :: nat)"
  using assms by (auto simp: prios_def)

lemma rq_invD:
  assumes "rq_inv s qs"
  shows "prio \<in> set prios \<Longrightarrow> queue_ok s prio (qs prio)"
    "p \<noteq> 0 \<Longrightarrow> in_runqueue (se_of s p) \<Longrightarrow> runqueue_prio (se_of s p) \<in> set prios \<and> p \<in> set (qs (runqueue_prio (se_of s p)))"
    "total_runnable (rq s) = of_nat (sum_list (map (\<lambda>prio. length (qs prio)) prios))"
  using assms unfolding rq_inv_def by simp_all

lemma rq_invI:
  assumes "\<And>prio. prio \<in> set prios \<Longrightarrow> queue_ok s prio (qs prio)"
    "\<And>p. p \<noteq> 0 \<Longrightarrow> in_runqueue (se_of s p) \<Longrightarrow>
       runqueue_prio (se_of s p) \<in> set prios \<and> p \<in> set (qs (runqueue_prio (se_of s p)))"
    "total_runnable (rq s) = of_nat (sum_list (map (\<lambda>prio. length (qs prio)) prios))"
  shows "rq_inv s qs"
  using assms by (simp add: rq_inv_def)

lemma rq_inv_not_queued:
  assumes "rq_inv s qs" "\<not> in_runqueue (se_of s p)" "prio \<in> set prios"
  shows "p \<notin> set (qs prio)"
  using queue_okD(6) [OF rq_invD(1) [OF assms(1,3)]] assms(2) by blast

lemma rq_inv_disjoint:
  assumes "rq_inv s qs" "prio \<in> set prios" "prio' \<in> set prios" "x \<in> set (qs prio)" "x \<in> set (qs prio')"
  shows "prio = prio'"
  using queue_okD(7) [OF rq_invD(1) [OF assms(1,2)] assms(4)] queue_okD(7) [OF rq_invD(1) [OF assms(1,3)] assms(5)] by simp

lemma sched_enqueue_rq_inv:
  assumes "rq_inv s qs" "\<not> in_runqueue (se_of s p)" "p \<noteq> 0"
  shows "rq_inv (sched_enqueue p s) (qs(enq_prio s p := qs (enq_prio s p) @ [p]))"
proof -
  let ?s = "sched_enqueue p s" and ?pr = "enq_prio s p" and ?qs = "qs(enq_prio s p := qs (enq_prio s p) @ [p])"
  note qp = queue_okD [OF rq_invD(1) [OF assms(1) enq_prio_in [of s p]]]
  have nin: "p \<notin> set (qs prio)" if "prio \<in> set prios" for prio
    using rq_inv_not_queued [OF assms(1,2) that] .
  have tp: "queue_tails (rq s) ?pr \<noteq> p"
    using qp(2) last0_neq [OF nin [OF enq_prio_in] assms(3)] by simp
  have ok: "queue_ok ?s prio (?qs prio)" if prio: "prio \<in> set prios" for prio
  proof (cases "prio = ?pr")
    case True
    then show ?thesis using enqueue_queue [OF rq_invD(1) [OF assms(1) prio] _ nin [OF prio] assms(3)] by simp
  next
    case False
    have "queue_tails (rq s) ?pr \<notin> set (qs prio)"
    proof (cases "qs ?pr = []")
      case True
      then show ?thesis using qp(2) queue_okD(5) [OF rq_invD(1) [OF assms(1) prio]] by simp
    next
      case ne: False
      then have "queue_tails (rq s) ?pr \<in> set (qs ?pr)" using qp(2) by (simp add: last0_def)
      then show ?thesis using rq_inv_disjoint [OF assms(1) prio enq_prio_in] False by blast
    qed
    then show ?thesis using enqueue_other [OF rq_invD(1) [OF assms(1) prio] False nin [OF prio] _ tp] False by simp
  qed
  have bk: "runqueue_prio (se_of ?s x) \<in> set prios \<and> x \<in> set (?qs (runqueue_prio (se_of ?s x)))"
    if "x \<noteq> 0" "in_runqueue (se_of ?s x)" for x
  proof (cases "x = p")
    case True
    have "runqueue_prio (se_of ?s p) = ?pr"
      using queue_okD(7) [OF ok, of ?pr p] by simp
    then show ?thesis using True by simp
  next
    case False
    have "in_runqueue (se_of ?s x) = in_runqueue (se_of s x)" "runqueue_prio (se_of ?s x) = runqueue_prio (se_of s x)"
      using False sched_enqueue_se [OF tp] by simp_all
    then show ?thesis using rq_invD(2) [OF assms(1) that(1)] that(2) by auto
  qed
  have tr: "total_runnable (rq ?s) = of_nat (sum_list (map (\<lambda>prio. length (?qs prio)) prios))"
  proof -
    have "sum_list (map (\<lambda>prio. length (?qs prio)) prios) = sum_list (map (\<lambda>prio. length (qs prio)) prios) + 1"
      using sum_prios_upd [OF enq_prio_in, of length qs s p "qs ?pr @ [p]"] by simp
    then show ?thesis using rq_invD(3) [OF assms(1)] by (simp add: sched_enqueue_total)
  qed
  show ?thesis by (rule rq_invI [OF ok bk tr])
qed

section \<open>Dequeue\<close>

lemma sched_dequeue_eq:
  assumes "runqueue_prio (se_of s p) = prio" "prio < SCHED_PRIORITY_LEVELS"
    "se_prev (se_of s p) = pv" "se_next (se_of s p) = nx" "pv \<noteq> p" "nx \<noteq> p" "pv = nx \<longrightarrow> pv = 0"
  shows "sched_dequeue p s = 
     (let s1 = (if pv \<noteq> 0 then upd_se pv (\<lambda>se. se\<lparr>se_next := nx\<rparr>) s
                  else upd_rq (\<lambda>q. q\<lparr>queue_heads := (queue_heads q)(prio := nx)\<rparr>) s);
            s2 = (if nx \<noteq> 0
                  then upd_se nx (\<lambda>se. se\<lparr>se_prev := pv\<rparr>) s1
                  else upd_rq (\<lambda>q. q\<lparr>queue_tails := (queue_tails q)(prio := pv)\<rparr>) s1);
            s3 = upd_se p (\<lambda>se. se\<lparr>se_next := 0, se_prev := 0, in_runqueue := False\<rparr>) s2
        in upd_rq (\<lambda>q. q\<lparr>queue_sizes := (queue_sizes q)(prio := queue_sizes q prio - 1),
             total_runnable := total_runnable q - 1,
             total_weight := total_weight q - sched_entity_weight (se_of s p)\<rparr>) s3)"
proof -
  have pr: "(SCHED_PRIORITY_LEVELS \<le> prio) = False" using assms(2) by simp
  have p: "(p = pv) = False" "(p = nx) = False" using assms(5,6) by auto
  show ?thesis unfolding sched_dequeue_def Let_def assms(1,3,4) pr
   by (simp add: p assms(3,4,5,6) sched_entity_weight_def)
qed

lemma sched_dequeue_effect:
  assumes "runqueue_prio (se_of s p) = prio" "prio < SCHED_PRIORITY_LEVELS"
    "se_prev (se_of s p) = pv" "se_next (se_of s p) = nx" "pv \<noteq> p" "nx \<noteq> p" "pv = nx \<longrightarrow> pv = 0"
  shows sched_dequeue_se: "se_of (sched_dequeue p s) x =
      (if x = p then (se_of s p)\<lparr>se_next := 0, se_prev := 0, in_runqueue := False\<rparr>
       else if x = pv \<and> pv \<noteq> 0 then (se_of s x)\<lparr>se_next := nx\<rparr>
       else if x = nx \<and> nx \<noteq> 0 then (se_of s x)\<lparr>se_prev := pv\<rparr> else se_of s x)"
    and sched_dequeue_heads: "queue_heads (rq (sched_dequeue p s)) =
      (if pv = 0 then (queue_heads (rq s))(prio := nx) else queue_heads (rq s))"
    and sched_dequeue_tails: "queue_tails (rq (sched_dequeue p s)) =
      (if nx = 0 then (queue_tails (rq s))(prio := pv) else queue_tails (rq s))"
    and sched_dequeue_sizes: "queue_sizes (rq (sched_dequeue p s)) =
      (queue_sizes (rq s))(prio := queue_sizes (rq s) prio - 1)"
    and sched_dequeue_total: "total_runnable (rq (sched_dequeue p s)) = total_runnable (rq s) - 1"
  unfolding sched_dequeue_eq [OF assms] Let_def using assms(5-7) by auto

lemmas sched_dequeue_rq = sched_dequeue_heads sched_dequeue_tails sched_dequeue_sizes sched_dequeue_total

lemma lseg_split:
  assumes "lseg f 0 (as @ [p] @ bs) 0"
  shows "se_prev (f p) = last0 as" "se_next (f p) = hd0 bs"
    "lseg f 0 as p" "lseg f p bs 0"
  using assms by (auto simp: lseg_append last0_def hd0_def)

lemma lseg_join:
  assumes "lseg f 0 as (hd0 bs)" "lseg f (last0 as) bs 0"
  shows "lseg f 0 (as @ bs) 0"
  using assms by (auto simp: lseg_append last0_def hd0_def)

lemma dequeue_links:
  assumes q: "queue_ok s prio (as @ [p] @ bs)" and prio: "prio \<in> set prios"
  shows "runqueue_prio (se_of s p) = prio" "prio < SCHED_PRIORITY_LEVELS" "se_prev (se_of s p) = last0 as"
  "se_next (se_of s p) = hd0 bs" "last0 as \<noteq> p" "hd0 bs \<noteq> p" "last0 as = hd0 bs \<longrightarrow> last0 as = 0"
proof -
  note i = queue_okD [OF q]
  show "last0 as \<noteq> p" "hd0 bs \<noteq> p" using i(4,5) last0_neq [of p as] by (cases bs; auto)+
  show "last0 as = hd0 bs \<longrightarrow> last0 as = 0"
    using i(4) last0_neq [of "hd bs" as] by (cases bs) auto
qed (use queue_okD [OF q] lseg_split [OF queue_okD(3) [OF q]] prio in \<open>auto simp: prios_less\<close>)

lemma dequeue_queue:
  assumes q: "queue_ok s prio (as @ [p] @ bs)" and prio: "prio \<in> set prios"
  shows "queue_ok (sched_dequeue p s) prio (as @ bs)"
proof -
  note dequeue_se = sched_dequeue_se [OF dequeue_links [OF q prio]]
    and dequeue_rq = sched_dequeue_rq [OF dequeue_links [OF q prio]]
  note i = queue_okD [OF q] and l = lseg_split [OF queue_okD(3) [OF q]]
  let ?f = "se_of (sched_dequeue p s)"
  have z: "0 \<notin> set as" "0 \<notin> set bs" using i(5) by auto
  have hl: "hd0 bs \<notin> set as" "last0 as \<notin> set bs"
    using i(4) z last_in_set [of as] by (auto simp: hd0_def last0_def simp del: last_in_set)
  have "lseg ?f 0 as (hd0 bs)"
  proof (cases "as = []")
    case False
    show ?thesis
      by (rule lseg_set_next [OF l(3) _ False]) (use i(4) False z hl last0_eq_0 [OF z(1)] in \<open>auto simp: dequeue_se last0_def\<close>)
  qed simp
  moreover have "lseg ?f (last0 as) bs 0"
  proof (cases bs)
    case (Cons b cs)
    show ?thesis unfolding Cons
      by (rule lseg_set_prev [OF l(4) [unfolded Cons]]) (use i(4) z hl Cons in \<open>auto simp: dequeue_se\<close>)
  qed simp
  ultimately have "lseg ?f 0 (as @ bs) 0" by (rule lseg_join)
  moreover have "in_runqueue (?f x)" "runqueue_prio (?f x) = prio" if "x \<in> set (as @ bs)" for x
    using that i(4,6,7) by (auto simp: dequeue_se)
  moreover have "queue_heads (rq (sched_dequeue p s)) prio = hd0 (as @ bs)"
    "queue_tails (rq (sched_dequeue p s)) prio = last0 (as @ bs)"
    using i(1,2) by (simp_all add: dequeue_rq hd0_append last0_append last0_Cons last0_eq_0 [OF z(1)] hd0_eq_0 [OF z(2)])
  ultimately show ?thesis using i(4,5,8) by (auto simp: queue_ok_def dequeue_rq)
qed

lemma dequeue_other:
  assumes q: "queue_ok s prio (as @ [p] @ bs)" and prio: "prio \<in> set prios"
    and o: "queue_ok s prio' xs" "prio' \<noteq> prio" "set xs \<inter> set (as @ [p] @ bs) = {}"
  shows "queue_ok (sched_dequeue p s) prio' xs"
proof (rule queue_ok_frame [OF o(1)])
  fix x assume x: "x \<in> set xs"
  then have "x \<noteq> 0" using queue_okD(5) [OF o(1)] by auto
  moreover have "as \<noteq> [] \<Longrightarrow> x \<noteq> last as" "bs \<noteq> [] \<Longrightarrow> x \<noteq> hd bs" "x \<noteq> p"
    using x o(3) last_in_set [of as] hd_in_set [of bs] by (auto simp del: last_in_set hd_in_set)
  ultimately have "x \<noteq> p" "x \<noteq> last0 as" "x \<noteq> hd0 bs" by (auto simp: last0_def hd0_def)
  then show "se_of (sched_dequeue p s) x = se_of s x"
    by (simp add: sched_dequeue_se [OF dequeue_links [OF q prio]])
qed (use o(2) in \<open>simp_all add: sched_dequeue_rq [OF dequeue_links [OF q prio]]\<close>)

lemma sched_dequeue_rq_inv:
  assumes inv: "rq_inv s qs" and prio: "prio \<in> set prios" and qs: "qs prio = as @ [p] @ bs"
  shows "rq_inv (sched_dequeue p s) (qs(prio := as @ bs))"
proof (rule rq_invI)
  note q = rq_invD(1) [OF inv prio, unfolded qs]
  note se = sched_dequeue_se [OF dequeue_links [OF q prio]]
  fix prio' assume prio': "prio' \<in> set prios"
  show "queue_ok (sched_dequeue p s) prio' ((qs(prio := as @ bs)) prio')"
  proof (cases "prio' = prio")
    case True
    then show ?thesis using dequeue_queue [OF q prio] by simp
  next
    case False
    have "set (qs prio') \<inter> set (as @ [p] @ bs) = {}"
      using rq_inv_disjoint [OF inv prio' prio] False unfolding qs by blast
    then show ?thesis using dequeue_other [OF q prio rq_invD(1) [OF inv prio'] False] False by simp
  qed
next
  note q = rq_invD(1) [OF inv prio, unfolded qs]
  fix x assume x: "x \<noteq> 0" "in_runqueue (se_of (sched_dequeue p s) x)"
  have xp: "x \<noteq> p" using x(2) by (auto simp: sched_dequeue_se [OF dequeue_links [OF q prio]])
  then have "in_runqueue (se_of s x)" "runqueue_prio (se_of (sched_dequeue p s) x) = runqueue_prio (se_of s x)"
    using x(2) by (auto simp: sched_dequeue_se [OF dequeue_links [OF q prio]] split: if_splits)
  then show "runqueue_prio (se_of (sched_dequeue p s) x) \<in> set prios \<and>
      x \<in> set ((qs(prio := as @ bs)) (runqueue_prio (se_of (sched_dequeue p s) x)))"
    using rq_invD(2) [OF inv x(1)] xp qs by auto
next
  note q = rq_invD(1) [OF inv prio, unfolded qs]
  have "sum_list (map (\<lambda>i. length (qs i)) prios) = sum_list (map (\<lambda>i. length ((qs(prio := as @ bs)) i)) prios) + 1"
    using sum_prios_upd [OF prio, of length qs "as @ bs"] unfolding qs by simp
  then show "total_runnable (rq (sched_dequeue p s)) =
      of_nat (sum_list (map (\<lambda>i. length ((qs(prio := as @ bs)) i)) prios))"
    using rq_invD(3) [OF inv] by (simp add: sched_dequeue_total [OF dequeue_links [OF q prio]])
qed

section \<open>Picking the next process\<close>

lemma min_search_spec:
  assumes "lseg (se_of s) pv xs 0" "0 \<notin> set xs" "least = vruntime (se_of s best)"
  shows "\<exists>r. min_search s (hd0 xs) best least = Some r \<and> r \<in> set (best # xs) \<and>
    (\<forall>x \<in> set (best # xs). vruntime (se_of s r) \<le> vruntime (se_of s x))"
  using assms
proof (induction xs arbitrary: pv best least)
  case Nil
  then show ?case by (simp add: min_search.simps)
next
  case (Cons x xs)
  have nx: "se_next (se_of s x) = hd0 xs" and seg: "lseg (se_of s) x xs 0" and z: "0 \<notin> set xs" "x \<noteq> 0"
    using Cons.prems by (auto simp: hd0_def)
  note m = min_search.simps [of s x best least]
  show ?case
  proof (cases "vruntime (se_of s x) < least")
    case True
    then show ?thesis using Cons.IH [OF seg z(1) refl, of x] nx z Cons.prems(3) m by fastforce
  next
    case False
    then show ?thesis using Cons.IH [OF seg z(1) Cons.prems(3)] nx z Cons.prems(3) m by fastforce
  qed
qed

text \<open>
  What \<^verbatim>\<open>sched_pick_next\<close> promises of its result over the contents of the queues: a member of the
  non-empty queue of least number, the oldest one of a real-time queue and one of least virtual
  runtime of any other.
\<close>

definition chosen :: "kernel \<Rightarrow> u64 list \<Rightarrow> u8 \<Rightarrow> u64 \<Rightarrow> bool" where
  "chosen s xs prio p \<longleftrightarrow> p \<in> set xs \<and>
     (if prio \<le> PRIO_RT_MAX then p = hd xs
      else \<forall>x \<in> set xs. vruntime (se_of s p) \<le> vruntime (se_of s x))"

definition picked :: "kernel \<Rightarrow> (u8 \<Rightarrow> u64 list) \<Rightarrow> u64 \<Rightarrow> bool" where
  "picked s qs p \<longleftrightarrow>
     (if \<forall>prio \<in> set prios. qs prio = [] then p = 0
      else \<exists>prio \<in> set prios. (\<forall>i \<in> set prios. i < prio \<longrightarrow> qs i = []) \<and> chosen s (qs prio) prio p)"

lemma chosen_ne: "chosen s xs prio p \<Longrightarrow> xs \<noteq> []"
  by (auto simp: chosen_def)

lemma pick_from_queue:
  assumes "queue_ok s prio (x # xs)"
  shows "\<exists>p. pick_from s (prio # ps) = Some p \<and> chosen s (x # xs) prio p"
proof -
  note q = queue_okD [OF assms]
  have h: "queue_heads (rq s) prio = x" "x \<noteq> 0" "0 \<notin> set xs" "se_next (se_of s x) = hd0 xs" "lseg (se_of s) x xs 0"
    using q(1,3,5) by (auto simp: hd0_def)
  show ?thesis using min_search_spec [OF h(5,3) refl, of x] h by (auto simp: Let_def chosen_def)
qed

lemma pick_from_spec:
  assumes "\<forall>prio \<in> set ps. queue_ok s prio (qs prio)"
  shows "(\<forall>prio \<in> set ps. qs prio = []) \<and> pick_from s ps = Some 0 \<or>
    (\<exists>p us prio js. pick_from s ps = Some p \<and> ps = us @ prio # js \<and> (\<forall>i \<in> set us. qs i = []) \<and> chosen s (qs prio) prio p)"
  using assms
proof (induction ps)
  case (Cons prio ps)
  have ok: "queue_ok s prio (qs prio)" using Cons.prems by simp
  show ?case
  proof (cases "qs prio")
    case Nil
    then have e: "pick_from s (prio # ps) = pick_from s ps" using queue_okD(1) [OF ok] by simp
    consider "\<forall>prio \<in> set ps. qs prio = []" "pick_from s ps = Some 0"
      | p us pr js where "pick_from s ps = Some p" "ps = us @ pr # js" "\<forall>i \<in> set us. qs i = []" "chosen s (qs pr) pr p"
      using Cons by auto
    then show ?thesis
    proof cases
      case 1
      then show ?thesis using e Nil by simp
    next
      case 2
      then have "prio # ps = (prio # us) @ pr # js" "\<forall>i \<in> set (prio # us). qs i = []" using Nil by auto
      then show ?thesis using e 2 by metis
    qed
  next
    case (Cons x xs)
    then show ?thesis using pick_from_queue [of s prio x xs ps] ok by (metis append_Nil empty_iff empty_set)
  qed
qed simp

lemma prios_split_less:
  assumes "prios = us @ prio # js" "i \<in> set prios" "i < prio"
  shows "i \<in> set us"
proof -
  have "sorted_wrt (<) prios" by (simp add: prios_def)
  then have "sorted_wrt (<) (us @ prio # js)" "i \<in> set (us @ prio # js)" using assms(1,2) by simp_all
  then show ?thesis using assms(3) by (auto simp: sorted_wrt_append)
qed

lemma sched_pick_next_picked:
  assumes "rq_inv s qs"
  shows "\<exists>p. sched_pick_next s = Some p \<and> picked s qs p"
proof -
  have q: "\<forall>prio \<in> set prios. queue_ok s prio (qs prio)" using rq_invD(1) [OF assms] by blast
  have e: "sched_pick_next s = pick_from s prios" by (simp only: sched_pick_next_def prios_def)
  from pick_from_spec [OF q] show ?thesis
  proof (elim disjE exE conjE)
    fix p us prio js
    assume a: "pick_from s prios = Some p" "prios = us @ prio # js" "\<forall>i \<in> set us. qs i = []" "chosen s (qs prio) prio p"
    have "prio \<in> set prios" unfolding a(2) by simp
    moreover have "\<forall>i \<in> set prios. i < prio \<longrightarrow> qs i = []" using prios_split_less [OF a(2)] a(3) by blast
    ultimately have "picked s qs p" using a(4) chosen_ne [OF a(4)] unfolding picked_def by auto
    then show ?thesis using a(1) e by simp
  qed (simp add: e picked_def)
qed

section \<open>The total weight\<close>

definition queued_weight :: "kernel \<Rightarrow> (u8 \<Rightarrow> u64 list) \<Rightarrow> u64" where
  "queued_weight s qs = sum_list (map (\<lambda>prio. sum_list (map (\<lambda>p. sched_entity_weight (se_of s p)) (qs prio))) prios)"

definition weight_inv :: "kernel \<Rightarrow> (u8 \<Rightarrow> u64 list) \<Rightarrow> bool" where
  "weight_inv s qs \<longleftrightarrow> total_weight (rq s) = queued_weight s qs"

lemma sched_enqueue_dynamic [simp]: "dynamic_priority (se_of (sched_enqueue p s) x) = dynamic_priority (se_of s x)"
  by (simp add: sched_enqueue_def Let_def)

lemma sched_dequeue_dynamic [simp]: "dynamic_priority (se_of (sched_dequeue p s) x) = dynamic_priority (se_of s x)"
  by (simp add: sched_dequeue_def Let_def)

lemma sched_entity_weight_cong: "dynamic_priority a = dynamic_priority b \<Longrightarrow> sched_entity_weight a = sched_entity_weight b"
  by (simp add: sched_entity_weight_def)

lemma sched_enqueue_weight: "total_weight (rq (sched_enqueue p s)) = total_weight (rq s) + sched_entity_weight (se_of s p)"
  by (simp add: sched_enqueue_def Let_def sched_entity_weight_def)

lemma sched_dequeue_weight:
  assumes "runqueue_prio (se_of s p) < SCHED_PRIORITY_LEVELS"
  shows "total_weight (rq (sched_dequeue p s)) = total_weight (rq s) - sched_entity_weight (se_of s p)"
proof -
  have "(SCHED_PRIORITY_LEVELS \<le> runqueue_prio (se_of s p)) = False" using assms by simp
  then show ?thesis by (simp add: sched_dequeue_def Let_def sched_entity_weight_def)
qed

lemma sum_list_prios_upd:
  assumes "prio \<in> set prios"
  shows "sum_list (map (\<lambda>i. f ((g(prio := x)) i)) prios) + f (g prio) = sum_list (map (\<lambda>i. f (g i)) prios) + (f x :: 'a :: comm_monoid_add)"
proof -
  have "distinct prios" by (simp add: prios_def)
  then have e: "sum_list (map h prios) = h prio + sum h (set prios - {prio})" for h :: "u8 \<Rightarrow> 'a"
    using assms by (simp add: sum_list_distinct_conv_sum_set sum.remove)
  have "sum (\<lambda>i. f ((g(prio := x)) i)) (set prios - {prio}) = sum (\<lambda>i. f (g i)) (set prios - {prio})"
    by (rule sum.cong) auto
  then show ?thesis using e [of "\<lambda>i. f ((g(prio := x)) i)"] e [of "\<lambda>i. f (g i)"] by (simp add: ac_simps)
qed

lemma queued_weight_cong:
  assumes "\<And>x. dynamic_priority (se_of s' x) = dynamic_priority (se_of s x)"
  shows "queued_weight s' qs = queued_weight s qs"
  by (simp add: queued_weight_def sched_entity_weight_def assms)

lemma queued_weight_upd:
  assumes "prio \<in> set prios"
  shows "queued_weight s (qs(prio := xs)) + sum_list (map (\<lambda>p. sched_entity_weight (se_of s p)) (qs prio)) =
    queued_weight s qs + sum_list (map (\<lambda>p. sched_entity_weight (se_of s p)) xs)"
  using sum_list_prios_upd [OF assms, of "\<lambda>xs. sum_list (map (\<lambda>p. sched_entity_weight (se_of s p)) xs)" qs xs]
  by (simp add: queued_weight_def)

lemma sched_enqueue_weight_inv:
  assumes "weight_inv s qs"
  shows "weight_inv (sched_enqueue p s) (qs(enq_prio s p := qs (enq_prio s p) @ [p]))"
proof -
  have "queued_weight (sched_enqueue p s) (qs(enq_prio s p := qs (enq_prio s p) @ [p])) = queued_weight s qs + sched_entity_weight (se_of s p)"
    using queued_weight_upd [OF enq_prio_in, of s qs s p "qs (enq_prio s p) @ [p]"] queued_weight_cong [of "sched_enqueue p s" s]
    by (simp add: algebra_simps)
  then show ?thesis using assms by (simp add: weight_inv_def sched_enqueue_weight)
qed

lemma sched_dequeue_weight_inv:
  assumes "rq_inv s qs" "weight_inv s qs" "prio \<in> set prios" "qs prio = as @ [p] @ bs"
  shows "weight_inv (sched_dequeue p s) (qs(prio := as @ bs))"
proof -
  have p: "runqueue_prio (se_of s p) < SCHED_PRIORITY_LEVELS"
    using queue_okD(7) [OF rq_invD(1) [OF assms(1,3)], of p] assms(3,4) by (simp add: prios_less)
  have "queued_weight (sched_dequeue p s) (qs(prio := as @ bs)) = queued_weight s qs - sched_entity_weight (se_of s p)"
    using queued_weight_upd [OF assms(3), of s qs "as @ bs"] queued_weight_cong [of "sched_dequeue p s" s]
    by (simp add: algebra_simps assms(4))
  then show ?thesis using assms by (simp add: weight_inv_def sched_dequeue_weight [OF p])
qed

section \<open>The interface of the queues\<close>

text \<open>What the scheduler relies on: the contents of the queues and how each operation changes them.\<close>

locale ready_queues =
  fixes holds :: "'s \<Rightarrow> (u8 \<Rightarrow> u64 list) \<Rightarrow> bool"
    and enq :: "u64 \<Rightarrow> 's \<Rightarrow> 's" and deq :: "u64 \<Rightarrow> 's \<Rightarrow> 's"
    and pick :: "'s \<Rightarrow> u64 option"
    and queued :: "'s \<Rightarrow> u64 \<Rightarrow> bool" and bucket :: "'s \<Rightarrow> u64 \<Rightarrow> u8" and ok :: "'s \<Rightarrow> (u8 \<Rightarrow> u64 list) \<Rightarrow> u64 \<Rightarrow> bool"
  assumes enq_law: "holds s qs \<Longrightarrow> \<not> queued s p \<Longrightarrow> p \<noteq> 0 \<Longrightarrow> holds (enq p s) (qs(bucket s p := qs (bucket s p) @ [p]))"
    and deq_law: "holds s qs \<Longrightarrow> prio \<in> set prios \<Longrightarrow> qs prio = as @ [p] @ bs \<Longrightarrow>
      holds (deq p s) (qs(prio := as @ bs)) \<and> \<not> queued (deq p s) p \<and> bucket (deq p s) p = bucket s p"
    and members: "holds s qs \<Longrightarrow> prio \<in> set prios \<Longrightarrow> distinct (qs prio) \<and> 0 \<notin> set (qs prio)"
    and pick_law: "holds s qs \<Longrightarrow> \<exists>p. pick s = Some p \<and> ok s qs p"
    and ok_member: "ok s qs p \<Longrightarrow> p \<noteq> 0 \<Longrightarrow> \<exists>prio \<in> set prios. p \<in> set (qs prio)"
    and bucket_in: "bucket s p \<in> set prios"
begin

lemma deq_remove1:
  assumes "holds s qs" "prio \<in> set prios" "p \<in> set (qs prio)"
  shows "holds (deq p s) (qs(prio := remove1 p (qs prio)))" "\<not> queued (deq p s) p" "bucket (deq p s) p = bucket s p"
proof -
  obtain as bs where e: "qs prio = as @ [p] @ bs" using split_list [OF assms(3)] by auto
  then have "remove1 p (qs prio) = as @ bs" using members [OF assms(1,2)] by (simp add: remove1_append)
  then show "holds (deq p s) (qs(prio := remove1 p (qs prio)))" "\<not> queued (deq p s) p" "bucket (deq p s) p = bucket s p"
    using deq_law [OF assms(1,2) e] by simp_all
qed

text \<open>Removing a process and queueing it again moves it to the end of the queue of its bucket.\<close>

lemma requeue_law:
  assumes "holds s qs" "prio \<in> set prios" "p \<in> set (qs prio)"
  shows "holds (enq p (deq p s)) ((qs(prio := remove1 p (qs prio)))
    (bucket s p := (qs(prio := remove1 p (qs prio))) (bucket s p) @ [p]))"
proof -
  have "p \<noteq> 0" using members [OF assms(1,2)] assms(3) by auto
  then show ?thesis using enq_law [OF deq_remove1(1,2) [OF assms]] deq_remove1(3) [OF assms] by simp
qed

text \<open>A turn of a scheduler: whatever is picked can be taken off its queue.\<close>

lemma pick_deq:
  assumes "holds s qs"
  obtains "pick s = Some 0" | p prio where "pick s = Some p" "p \<noteq> 0" "ok s qs p" "prio \<in> set prios" "p \<in> set (qs prio)"
    "holds (deq p s) (qs(prio := remove1 p (qs prio)))" "\<not> queued (deq p s) p"
  using pick_law [OF assms] ok_member deq_remove1 [OF assms] by metis

end

definition sched_holds :: "kernel \<Rightarrow> (u8 \<Rightarrow> u64 list) \<Rightarrow> bool" where
  "sched_holds s qs \<longleftrightarrow> rq_inv s qs \<and> weight_inv s qs"

lemma picked_member:
  assumes "picked s qs p" "p \<noteq> 0"
  shows "\<exists>prio \<in> set prios. p \<in> set (qs prio)"
  using assms by (auto simp: picked_def chosen_def split: if_splits)

lemma sched_dequeue_not_queued:
  assumes "rq_inv s qs" "prio \<in> set prios" "qs prio = as @ [p] @ bs"
  shows "\<not> in_runqueue (se_of (sched_dequeue p s) p)"
  by (simp add: sched_dequeue_se [OF dequeue_links [OF rq_invD(1) [OF assms(1,2), unfolded assms(3)] assms(2)]])

interpretation rqs: ready_queues sched_holds sched_enqueue sched_dequeue sched_pick_next
  "\<lambda>s p. in_runqueue (se_of s p)" enq_prio picked
proof unfold_locales
  fix s qs p assume "sched_holds s qs" "\<not> in_runqueue (se_of s p)" "p \<noteq> (0::u64)"
  then show "sched_holds (sched_enqueue p s) (qs(enq_prio s p := qs (enq_prio s p) @ [p]))"
    by (simp add: sched_holds_def sched_enqueue_rq_inv sched_enqueue_weight_inv)
next
  fix s qs prio as p bs assume a: "sched_holds s qs" "prio \<in> set prios" "qs prio = as @ [p] @ bs"
  then have "rq_inv s qs" "weight_inv s qs" by (simp_all add: sched_holds_def)
  note d = sched_dequeue_rq_inv [OF this(1) a(2,3)] sched_dequeue_weight_inv [OF this a(2,3)]
    sched_dequeue_not_queued [OF this(1) a(2,3)]
  show "sched_holds (sched_dequeue p s) (qs(prio := as @ bs)) \<and> \<not> in_runqueue (se_of (sched_dequeue p s) p) \<and>
      enq_prio (sched_dequeue p s) p = enq_prio s p"
    using d by (simp add: sched_holds_def enq_prio_def)
next
  fix s qs prio assume "sched_holds s qs" "prio \<in> set prios"
  then show "distinct (qs prio) \<and> 0 \<notin> set (qs prio)"
    using queue_okD(4,5) [OF rq_invD(1)] by (auto simp: sched_holds_def)
qed (auto simp: sched_holds_def sched_pick_next_picked picked_member)

end
