(* ===== verification/Proc.thy ===== *)
theory Proc
  imports Scheduler
begin

text \<open>
  \<^verbatim>\<open>kernel/src/userspace/proc.c\<close> and \<^verbatim>\<open>common/condvar.c\<close>: the process table, waiting and waking,
  exit, the program break and the stack canary. A system call that blocks is split at the switch
  to the scheduler: the part before it and the part after it are definitions of their own.
  A \<^verbatim>\<open>struct process\<close> lives in one page of the page allocator, whose contents are the record.
\<close>

section \<open>The process table\<close>

definition zero_process :: process where
  "zero_process = \<lparr>kernel_stack_top = 0, kernel_stack_base = 0, pid = 0, orig_i = 0, cur_i = 0, pagetable = 0,
     open_files = replicate MAX_OPEN_FILES empty_file, initial_data_segment = 0, current_sbrk = 0,
     working_directory = 0, ctx = \<lparr>ctx_rsp = 0, ctx_rip = 0, ctx_rflags = 0\<rparr>, waiting_channel = 0, exit_status = 0, state = UNUSED, stack_canary = 0,
     sched = zero_entity\<rparr>"

definition get_next_pid :: "kernel \<Rightarrow> u64 \<times> kernel" where
  "get_next_pid s = (next_pid s, s\<lparr>next_pid := next_pid s + 1\<rparr>)"

text \<open>
  The slot \<open>i\<close> if it is free (0 otherwise). Without a page the \<^verbatim>\<open>memset\<close> of the null pointer
  faults.
\<close>

definition is_valid_process_init :: "nat \<Rightarrow> kernel \<Rightarrow> (u64 \<times> kernel) outcome option" where
  "is_valid_process_init i s =
     (if processes s i \<noteq> 0 then Some (Ok (0, s))
      else
        let (proc, k1) = kalloc (km (vm s)) in
        if proc = 0 then Some (Panic ''page fault'')
        else
          let s1 = s\<lparr>vm := (vm s)\<lparr>km := k1\<rparr>, processes := (processes s)(i := proc)\<rparr>;
              (new_pid, s2) = get_next_pid s1;
              s3 = upd_proc proc (\<lambda>_. zero_process\<lparr>orig_i := of_nat i, cur_i := of_nat i, state := USED,
                     pid := new_pid, exit_status := -1\<rparr>) (s2\<lparr>locks := (locks s2)(proc_lock proc := \<lparr>locked = 0, holding_cpu = 0\<rparr>)\<rparr>)
          in kbind (vmm_user_pagetable_new (vm s3)) (\<lambda>(pt, v1).
               if pt = 0 then Some (Panic ''out of memory'')
               else Some (Ok (proc, upd_proc proc (\<lambda>x. x\<lparr>pagetable := pt, current_sbrk := 0, initial_data_segment := 0\<rparr>)
                      (s3\<lparr>vm := v1\<rparr>)))))"

text \<open>The second range of \<^verbatim>\<open>proc_allocate\<close>: the first free slot from \<open>i\<close> on; \<open>k\<close> slots remain.\<close>

primrec init_process_range :: "nat \<Rightarrow> nat \<Rightarrow> kernel \<Rightarrow> (u64 \<times> kernel) outcome option" where
  "init_process_range i 0 s = Some (Ok (0, s))"
| "init_process_range i (Suc k) s =
     kbind (is_valid_process_init i s) (\<lambda>(proc, s1).
       if proc \<noteq> 0 then Some (Ok (proc, s1)) else init_process_range (Suc i) k s1)"

text \<open>The first free slot from \<open>i\<close> on becomes the new lower bound.\<close>

primrec next_free_slot :: "nat \<Rightarrow> nat \<Rightarrow> kernel \<Rightarrow> nat option" where
  "next_free_slot i 0 s = None"
| "next_free_slot i (Suc k) s = (if processes s i = 0 then Some i else next_free_slot (Suc i) k s)"

definition proc_allocate :: "kernel \<Rightarrow> (u64 \<times> kernel) outcome option" where
  "proc_allocate s =
     kbind (is_valid_process_init 0 s) (\<lambda>(proc, s1).
     kbind (if proc \<noteq> 0 then Some (Ok (proc, s1))
            else init_process_range (unat (process_min_index s1)) (MAX_PROCESSES - unat (process_min_index s1)) s1) (\<lambda>(proc, s2).
       if proc = 0 then Some (Ok (0, s2))
       else
         let oi = orig_i (procs s2 proc);
             s3 = (if oi = process_count s2 then s2\<lparr>process_count := process_count s2 + 1\<rparr> else s2)
         in case next_free_slot (unat oi + 1) (MAX_PROCESSES - (unat oi + 1)) s3 of
              None \<Rightarrow> Some (Panic ''hit process limit - 1'')
            | Some i \<Rightarrow> Some (Ok (proc, s3\<lparr>process_min_index := of_nat i\<rparr>))))"

section \<open>Waiting and waking\<close>

primrec wakeup_loop :: "u64 \<Rightarrow> bool \<Rightarrow> nat \<Rightarrow> nat \<Rightarrow> kernel \<Rightarrow> kernel outcome option" where
  "wakeup_loop chan everyone i 0 s = Some (Ok s)"
| "wakeup_loop chan everyone i (Suc k) s =
     (let p = processes s i in
      if p = 0 \<or> running_process s = p then wakeup_loop chan everyone (Suc i) k s
      else kbind (condvar_lock (proc_lock p) s) (\<lambda>s1.
        let hit = (state (procs s1 p) = SLEEPING \<and> waiting_channel (procs s1 p) = chan);
            s2 = (if hit then sched_wakeup p s1 else s1)
        in kbind (Some (condvar_unlock (proc_lock p) s2)) (\<lambda>s3.
             if hit \<and> \<not> everyone then Some (Ok s3) else wakeup_loop chan everyone (Suc i) k s3)))"

definition proc_wakeup :: "u64 \<Rightarrow> bool \<Rightarrow> kernel \<Rightarrow> kernel outcome option" where
  "proc_wakeup chan everyone s = wakeup_loop chan everyone 0 MAX_PROCESSES s"

definition condvar_notify :: "u64 \<Rightarrow> kernel \<Rightarrow> kernel outcome option" where
  "condvar_notify cond = proc_wakeup cond False"

definition condvar_notify_all :: "u64 \<Rightarrow> kernel \<Rightarrow> kernel outcome option" where
  "condvar_notify_all cond = proc_wakeup cond True"

text \<open>\<^verbatim>\<open>condvar_wait\<close> up to the switch to the scheduler, and from there on.\<close>

definition condvar_wait_enter :: "u64 \<Rightarrow> u64 \<Rightarrow> kernel \<Rightarrow> kernel outcome option" where
  "condvar_wait_enter now cond s =
     (let proc = running_process s in
      if proc = 0 then Some (Panic ''condvar_wait: proc'')
      else kbind (condvar_lock (proc_lock proc) s) (\<lambda>s1.
           kbind (Some (condvar_unlock cond s1)) (\<lambda>s2.
             Some (scheduler_switch_back (sched_sleep now proc cond s2)))))"

definition condvar_wait_leave :: "u64 \<Rightarrow> u64 \<Rightarrow> kernel \<Rightarrow> kernel outcome option" where
  "condvar_wait_leave proc cond s = kbind (Some (condvar_unlock (proc_lock proc) s)) (condvar_lock cond)"

section \<open>Files, exit and wait\<close>

definition first_empty :: "process_file list \<Rightarrow> nat option" where
  "first_empty fs = (case filter (\<lambda>i. fd_kind (fs ! i) = FD_EMPTY) [0..<length fs] of [] \<Rightarrow> None | i # _ \<Rightarrow> Some i)"

definition proc_allocate_fd :: "kernel \<Rightarrow> int outcome" where
  "proc_allocate_fd s =
     (if running_process s = 0 then Panic ''proc_allocate_fd: no process''
      else Ok (case first_empty (open_files (procs s (running_process s))) of None \<Rightarrow> -1 | Some i \<Rightarrow> int i))"

text \<open>
  Closing the files of an exiting process; \<open>close\<close> is \<^verbatim>\<open>fs_close\<close> of an inode. The descriptors of
  devices are left as they are.
\<close>

definition close_files :: "(u64 \<Rightarrow> kernel \<Rightarrow> kernel) \<Rightarrow> u64 \<Rightarrow> kernel \<Rightarrow> kernel" where
  "close_files close p s =
     fold (\<lambda>i s1. let f = open_files (procs s1 p) ! i in
             if fd_kind f = FD_INODE
             then upd_proc p (\<lambda>x. x\<lparr>open_files := (open_files x)[i := (open_files x ! i)\<lparr>fd_kind := FD_EMPTY\<rparr>]\<rparr>)
                    (close (fd_inode f) s1)
             else s1) [0..<MAX_OPEN_FILES] s"

definition proc_exit :: "(u64 \<Rightarrow> kernel \<Rightarrow> kernel) \<Rightarrow> int \<Rightarrow> kernel \<Rightarrow> kernel outcome option" where
  "proc_exit close exit_code s =
     (let proc = running_process s; s1 = close_files close proc s in
      if \<not> spinlock_locked (locks s1 (proc_lock proc)) then Some (Panic ''proc should be locked'')
      else kbind (condvar_notify_all (proc_lock proc) (upd_proc proc (\<lambda>x. x\<lparr>exit_status := exit_code\<rparr>) s1)) (\<lambda>s2.
        Some (scheduler_switch_back (upd_proc proc (\<lambda>x. x\<lparr>state := EXITED\<rparr>) s2))))"

primrec wait_search :: "u64 \<Rightarrow> nat \<Rightarrow> nat \<Rightarrow> kernel \<Rightarrow> (u64 \<times> kernel) outcome option" where
  "wait_search target i 0 s = Some (Ok (0, s))"
| "wait_search target i (Suc k) s =
     (let p = processes s i in
      if p = 0 then wait_search target (Suc i) k s
      else kbind (condvar_lock (proc_lock p) s) (\<lambda>s1.
        if pid (procs s1 p) = target then Some (Ok (p, s1))
        else kbind (Some (condvar_unlock (proc_lock p) s1)) (wait_search target (Suc i) k)))"

text \<open>
  One test of the loop of \<^verbatim>\<open>proc_wait\<close> on the process found: the exit status, or \<open>Inr\<close> the state in
  which the caller has gone to sleep.
\<close>

definition proc_wait_test :: "u64 \<Rightarrow> u64 \<Rightarrow> kernel \<Rightarrow> ((int \<times> kernel) + kernel) outcome option" where
  "proc_wait_test now target s =
     (if state (procs s target) \<noteq> EXITED
      then kbind (condvar_wait_enter now (proc_lock target) s) (\<lambda>s1. Some (Ok (Inr s1)))
      else kbind (Some (condvar_unlock (proc_lock target) s)) (\<lambda>s1.
             Some (Ok (Inl (exit_status (procs s target), s1)))))"

definition proc_wait :: "u64 \<Rightarrow> u64 \<Rightarrow> kernel \<Rightarrow> ((int \<times> kernel) + kernel) outcome option" where
  "proc_wait now target_pid s =
     kbind (wait_search target_pid 0 MAX_PROCESSES s) (\<lambda>(target, s1).
       if target = 0 then Some (Ok (Inl (-1, s1))) else proc_wait_test now target s1)"

section \<open>The program break\<close>

definition proc_sbrk :: "u64 \<Rightarrow> kernel \<Rightarrow> (u64 \<times> kernel) outcome option" where
  "proc_sbrk how_much s =
     (let p = running_process s; before = current_sbrk (procs s p);
          put = (\<lambda>(brk, k). Some (Ok (before, upd_proc p (\<lambda>x. x\<lparr>current_sbrk := brk\<rparr>) (s\<lparr>vm := (vm s)\<lparr>km := k\<rparr>\<rparr>))))
      in if 0 < sint how_much then
           kbind (vmm_user_sbrk_allocate (pagetable (procs s p)) before how_much (km (vm s))) put
         else if sint how_much < 0 then
           let how_much = (if initial_data_segment (procs s p) \<le> before + how_much
                           then initial_data_segment (procs s p) - before else how_much)
           in kbind (vmm_user_sbrk_deallocate (pagetable (procs s p)) before (- how_much) (km (vm s))) put
         else Some (Ok (before, s)))"

section \<open>Sleeping\<close>

text \<open>
  \<^verbatim>\<open>sys_sleep\<close>: the lock is taken first; while the target time has not come the process is made
  runnable and the scheduler entered (\<open>Inr\<close>), otherwise the lock is released (\<open>Inl\<close>).
\<close>

definition sys_sleep_test :: "u64 \<Rightarrow> u64 \<Rightarrow> kernel \<Rightarrow> (kernel + kernel) outcome option" where
  "sys_sleep_test wakeup now s =
     (if wakeup > now
      then kbind (Some (scheduler_switch_back (upd_proc (running_process s) (\<lambda>x. x\<lparr>state := RUNNABLE\<rparr>) s)))
             (\<lambda>s1. Some (Ok (Inr s1)))
      else kbind (Some (condvar_unlock (proc_lock (running_process s)) s)) (\<lambda>s1. Some (Ok (Inl s1))))"

definition sys_sleep :: "u64 \<Rightarrow> u64 \<Rightarrow> u64 \<Rightarrow> kernel \<Rightarrow> (kernel + kernel) outcome option" where
  "sys_sleep msec now now' s =
     kbind (condvar_lock (proc_lock (running_process s)) s) (sys_sleep_test (now + msec) now')"

section \<open>The stack canary\<close>

definition STACK_CANARY_MAGIC :: u64 where "STACK_CANARY_MAGIC = 0xDEADBEEFCAFEBABE"

definition proc_init_stack_canary :: "u64 \<Rightarrow> u64 \<Rightarrow> kernel \<Rightarrow> kernel" where
  "proc_init_stack_canary tsc p s =
     (let c = STACK_CANARY_MAGIC XOR tsc XOR pid (procs s p);
          s1 = upd_proc p (\<lambda>x. x\<lparr>stack_canary := c\<rparr>) s; k = km (vm s1)
      in s1\<lparr>vm := (vm s1)\<lparr>km := k\<lparr>mem := store64 (mem k) (kernel_stack_base (procs s1 p)) c\<rparr>\<rparr>\<rparr>)"

definition proc_check_stack_canary :: "u64 \<Rightarrow> kernel \<Rightarrow> unit outcome" where
  "proc_check_stack_canary p s =
     (if load64 (mem (km (vm s))) (kernel_stack_base (procs s p)) \<noteq> stack_canary (procs s p)
      then Panic ''Stack corruption detected'' else Ok ())"

end
