(* ===== verification/Sched_Props.thy ===== *)
theory Sched_Props
  imports Run_Queue Proc Phys_Props
begin

text \<open>
  Properties of the scheduler: the queue operations, a turn of the loop and the way back, the timer
  tick, the process locks, the bounds of the arithmetic, and where the code leaves the invariants.
\<close>

section \<open>Arithmetic\<close>

lemma sched_update_priority_range:
  assumes "flags se AND SCHED_FLAG_RT = 0"
  shows "PRIO_NORMAL_MIN \<le> dynamic_priority (sched_update_priority se)"
    "dynamic_priority (sched_update_priority se) \<le> PRIO_IDLE_MAX"
proof -
  have w: "3 \<le> (word_of_int n :: u8) \<and> (word_of_int n :: u8) \<le> 7" if "3 \<le> n" "n \<le> 7" for n :: int
    using that by (simp add: word_le_def unsigned_of_int take_bit_int_eq_self)
  define n where "n = int (unat (static_priority se)) + ((if flags se AND SCHED_FLAG_CPU_BOUND \<noteq> 0 then 1
      else if flags se AND SCHED_FLAG_INTERACTIVE \<noteq> 0 then -1 else 0) + c_div (nice se) 4)"
  have "dynamic_priority (sched_update_priority se) = word_of_int (if (if n < 3 then 3 else n) > 7 then 7 else if n < 3 then 3 else n)"
    using assms by (simp add: sched_update_priority_def Let_def n_def)
  then show "PRIO_NORMAL_MIN \<le> dynamic_priority (sched_update_priority se)"
    "dynamic_priority (sched_update_priority se) \<le> PRIO_IDLE_MAX"
    using w [of "if (if n < 3 then 3 else n) > 7 then 7 else if n < 3 then 3 else n"]
    by (simp_all add: PRIO_NORMAL_MIN_def PRIO_IDLE_MAX_def)
qed

lemma boosted_slice:
  fixes t :: u64
  assumes "2000 \<le> t" "t \<le> 16000"
  shows "2000 \<le> (t * 3) div 2 \<and> (t * 3) div 2 \<le> 24000"
proof -
  have u: "2000 \<le> unat t" "unat t \<le> 16000" using assms by (simp_all add: word_le_nat_alt)
  have "unat (t * 3) = unat t * 3" using u(2) by (subst unat_mult_lem [THEN iffD1]) simp_all
  then have "unat ((t * 3) div 2) = unat t * 3 div 2" by (simp add: unat_div)
  then show ?thesis using u by (simp add: word_le_nat_alt) linarith
qed

lemma sched_compute_timeslice_range:
  "SCHED_MIN_TIMESLICE_US \<le> sched_compute_timeslice s se \<and> sched_compute_timeslice s se \<le> 24000"
proof -
  define t where "t = (SCHED_MAX_TIMESLICE_US * sched_entity_weight se) div total_weight (rq s)"
  define c where "c = (if (if t < 2000 then 2000 else t) > 16000 then 16000 else if t < 2000 then 2000 else t)"
  have "2000 \<le> c" "c \<le> 16000" by (auto simp: c_def)
  then have "2000 \<le> c \<and> c \<le> 24000" using order_trans [of c "16000" 24000] by simp
  moreover have "sched_compute_timeslice s se = 16000 \<or> sched_compute_timeslice s se = c \<or>
      sched_compute_timeslice s se = (c * 3) div 2"
    by (auto simp: sched_compute_timeslice_def Let_def t_def c_def SCHED_MAX_TIMESLICE_US_def SCHED_MIN_TIMESLICE_US_def)
  ultimately show ?thesis using boosted_slice [OF \<open>2000 \<le> c\<close> \<open>c \<le> 16000\<close>]
    by (auto simp: SCHED_MIN_TIMESLICE_US_def)
qed

text \<open>
  The priority of a process that is not real-time is always recomputed into the range of the
  normal and idle priorities, and a time slice lies between 2 and 24 milliseconds, above 16 only
  for interactive processes.
\<close>

theorem sched_bounds:
  "(flags se AND SCHED_FLAG_RT = 0 \<longrightarrow> PRIO_NORMAL_MIN \<le> dynamic_priority (sched_update_priority se) \<and>
      dynamic_priority (sched_update_priority se) \<le> PRIO_IDLE_MAX) \<and>
   SCHED_MIN_TIMESLICE_US \<le> sched_compute_timeslice s se \<and> sched_compute_timeslice s se \<le> 24000 \<and>
   (flags se AND SCHED_FLAG_INTERACTIVE = 0 \<longrightarrow> sched_compute_timeslice s se \<le> SCHED_MAX_TIMESLICE_US)"
  using sched_update_priority_range sched_compute_timeslice_range
  by (auto simp: sched_compute_timeslice_def Let_def)

section \<open>Framing\<close>

text \<open>The queues do not see a change that leaves the queued entities and the queue fields alone.\<close>

lemma queue_fields_frame:
  assumes "sched_holds s qs"
    and q: "\<And>x. in_runqueue (se_of s x) \<Longrightarrow> se_of s' x = se_of s x"
    and n: "\<And>x. in_runqueue (se_of s' x) = in_runqueue (se_of s x)"
    and r: "queue_heads (rq s') = queue_heads (rq s)" "queue_tails (rq s') = queue_tails (rq s)"
      "queue_sizes (rq s') = queue_sizes (rq s)" "total_runnable (rq s') = total_runnable (rq s)"
      "total_weight (rq s') = total_weight (rq s)"
  shows "sched_holds s' qs"
proof -
  have inv: "rq_inv s qs" "weight_inv s qs" using assms(1) by (simp_all add: sched_holds_def)
  have m: "se_of s' x = se_of s x" if "x \<in> set (qs prio)" "prio \<in> set prios" for x prio
    using q queue_okD(6) [OF rq_invD(1) [OF inv(1) that(2)] that(1)] by simp
  have "rq_inv s' qs"
  proof (rule rq_invI)
    fix prio assume p: "prio \<in> set prios"
    show "queue_ok s' prio (qs prio)"
      by (rule queue_ok_frame [OF rq_invD(1) [OF inv(1) p]]) (simp_all add: m [OF _ p] r)
  next
    fix p :: u64 assume "p \<noteq> 0" "in_runqueue (se_of s' p)"
    then show "runqueue_prio (se_of s' p) \<in> set prios \<and> p \<in> set (qs (runqueue_prio (se_of s' p)))"
      using rq_invD(2) [OF inv(1), of p] n [of p] q [of p] by simp
  qed (use rq_invD(3) [OF inv(1)] r in simp)
  moreover have "queued_weight s' qs = queued_weight s qs"
    unfolding queued_weight_def by (intro arg_cong [where f = sum_list] map_cong refl) (simp_all add: m)
  then have "weight_inv s' qs" using inv(2) r by (simp add: weight_inv_def)
  ultimately show ?thesis by (simp add: sched_holds_def)
qed

lemma empty_queues:
  assumes "queue_heads (rq s) = (\<lambda>_. 0)" "queue_tails (rq s) = (\<lambda>_. 0)" "queue_sizes (rq s) = (\<lambda>_. 0)"
    "total_runnable (rq s) = 0" "total_weight (rq s) = 0" "\<And>x. \<not> in_runqueue (se_of s x)"
  shows "sched_holds s (\<lambda>_. [])"
  using assms by (simp add: sched_holds_def rq_inv_def queue_ok_def weight_inv_def queued_weight_def hd0_def last0_def)

text \<open>
  C12: over the contents of the eight queues \<^verbatim>\<open>sched_enqueue\<close> appends a process to the queue of its
  priority, \<^verbatim>\<open>sched_dequeue\<close> removes it wherever it stands, and \<^verbatim>\<open>sched_pick_next\<close> ends with a
  process of the best non-empty queue, or with none when all are empty; the links, sizes, count and
  total weight stay those of the contents.
\<close>

theorem run_queue_operations:
  assumes "sched_holds s qs" "p \<noteq> 0"
  shows "(\<not> in_runqueue (se_of s p) \<longrightarrow>
      sched_holds (sched_enqueue p s) (qs(enq_prio s p := qs (enq_prio s p) @ [p]))) \<and>
    (\<forall>prio \<in> set prios. p \<in> set (qs prio) \<longrightarrow>
      sched_holds (sched_dequeue p s) (qs(prio := remove1 p (qs prio))) \<and> \<not> in_runqueue (se_of (sched_dequeue p s) p)) \<and>
    (\<exists>r. sched_pick_next s = Some r \<and> picked s qs r)"
  using rqs.enq_law [OF assms(1) _ assms(2)] rqs.deq_remove1(1,2) [OF assms(1)] rqs.pick_law [OF assms(1)] by blast

section \<open>Locks\<close>

definition lock_free :: "kernel \<Rightarrow> u64 \<Rightarrow> bool" where
  "lock_free s p \<longleftrightarrow> locked (locks s (proc_lock p)) = 0"

definition lock_mine :: "kernel \<Rightarrow> u64 \<Rightarrow> bool" where
  "lock_mine s p \<longleftrightarrow> locked (locks s (proc_lock p)) \<noteq> 0 \<and> holding_cpu (locks s (proc_lock p)) = cpuid s"

lemma spinlock_set:
  "(l :: spinlock)\<lparr>locked := a, holding_cpu := b\<rparr> = \<lparr>locked = a, holding_cpu = b\<rparr>"
  "l\<lparr>holding_cpu := b, locked := a\<rparr> = \<lparr>locked = a, holding_cpu = b\<rparr>"
  by (cases l; simp)+

lemma condvar_lock_free:
  assumes "lock_free s p"
  shows "\<exists>l c. condvar_lock (proc_lock p) s = Some (Ok (s\<lparr>locks := (locks s)(proc_lock p := l), cpu := c\<rparr>)) \<and>
    (spinlocks_enabled s \<longrightarrow> l = \<lparr>locked = 1, holding_cpu = cpuid s\<rparr>)"
proof (cases "spinlocks_enabled s")
  case True
  then show ?thesis using assms
    by (auto simp: condvar_lock_def spinlock_lock_def lock_free_def this_cpu_holding_lock_def Let_def spinlock_set)
next
  case False
  have "condvar_lock (proc_lock p) s = Some (Ok (s\<lparr>locks := (locks s)(proc_lock p := locks s (proc_lock p)), cpu := cpu s\<rparr>))"
    using False by (simp add: condvar_lock_def spinlock_lock_def)
  then show ?thesis using False by blast
qed

lemma condvar_lock_mine:
  assumes "lock_mine s p" "spinlocks_enabled s"
  shows "condvar_lock (proc_lock p) s = Some (Panic ''deadlock'')"
  using assms by (simp add: condvar_lock_def spinlock_lock_def lock_mine_def this_cpu_holding_lock_def Let_def)

lemma condvar_lock_held:
  assumes "condvar_lock (proc_lock p) s = Some (Ok s')" "spinlocks_enabled s"
  shows "lock_mine s' p" "spinlocks_enabled s'" "running_process s' = running_process s"
  using assms by (auto simp: condvar_lock_def spinlock_lock_def lock_mine_def Let_def split: prod.splits if_splits)

lemma condvar_unlock_mine:
  assumes "lock_mine s p" "spinlocks_enabled s"
  shows "\<exists>c. condvar_unlock (proc_lock p) s = Ok (s\<lparr>locks := (locks s)(proc_lock p := \<lparr>locked = 0, holding_cpu = 0\<rparr>), cpu := c\<rparr>)"
  using assms by (auto simp: condvar_unlock_def spinlock_unlock_def lock_mine_def this_cpu_holding_lock_def Let_def spinlock_set)

section \<open>A turn of the scheduler\<close>

lemma scheduler_dispatch_effect:
  fixes now :: u64
  assumes "sched_holds s qs" "prio \<in> set prios" "p \<in> set (qs prio)"
  defines "s' \<equiv> scheduler_dispatch now p s"
  shows "sched_holds s' (qs(prio := remove1 p (qs prio)))" "state (procs s' p) = RUNNING" "curr (rq s') = p"
    "running_process s' = p" "exec_start (se_of s' p) = now" "last_ran (se_of s' p) = now"
    "2000 \<le> last_timeslice (se_of s' p) \<and> last_timeslice (se_of s' p) \<le> 24000"
    "\<not> in_runqueue (se_of s' p)" "locks s' = locks s" "spinlocks_enabled s' = spinlocks_enabled s" "cpuid s' = cpuid s"
proof -
  note d = rqs.deq_remove1 [OF assms(1-3)]
  note defs = s'_def scheduler_dispatch_def Let_def upd_stats_def
  have l: "locks (sched_dequeue p s) = locks s" "spinlocks_enabled (sched_dequeue p s) = spinlocks_enabled s"
    "cpuid (sched_dequeue p s) = cpuid s"
    by (simp_all add: sched_dequeue_def Let_def upd_se_def upd_proc_def upd_rq_def)
  show "sched_holds s' (qs(prio := remove1 p (qs prio)))"
  proof (rule queue_fields_frame [OF d(1)])
    fix x
    show "in_runqueue (se_of (sched_dequeue p s) x) \<Longrightarrow> se_of s' x = se_of (sched_dequeue p s) x"
      using d(2) by (cases "x = p") (simp_all add: defs)
    show "in_runqueue (se_of s' x) = in_runqueue (se_of (sched_dequeue p s) x)"
      by (cases "x = p") (simp_all add: defs)
  qed (simp_all add: defs)
  show "state (procs s' p) = RUNNING" "curr (rq s') = p" "running_process s' = p" "exec_start (se_of s' p) = now"
    "last_ran (se_of s' p) = now" "\<not> in_runqueue (se_of s' p)"
    "2000 \<le> last_timeslice (se_of s' p) \<and> last_timeslice (se_of s' p) \<le> 24000"
    using d(2) sched_compute_timeslice_range by (simp_all add: defs upd_se_def SCHED_MIN_TIMESLICE_US_def)
  show "locks s' = locks s" "spinlocks_enabled s' = spinlocks_enabled s" "cpuid s' = cpuid s"
    using l by (simp_all add: defs upd_se_def upd_proc_def upd_rq_def)
qed

lemma queues_not_empty:
  assumes "sched_holds s qs" "total_runnable (rq s) \<noteq> 0"
  shows "\<not> (\<forall>prio \<in> set prios. qs prio = [])"
proof
  assume "\<forall>prio \<in> set prios. qs prio = []"
  then have "map (\<lambda>prio. length (qs prio)) prios = map (\<lambda>_. 0) prios" by simp
  then have "sum_list (map (\<lambda>prio. length (qs prio)) prios) = 0" by (simp only: sum_list_triv mult_0_right)
  then have "total_runnable (rq s) = of_nat 0" using rq_invD(3) [of s qs] assms(1) by (simp only: sched_holds_def)
  then show False using assms(2) by simp
qed

lemma scheduler_turn_switch:
  assumes "sched_holds s qs" "total_runnable (rq s) \<noteq> 0" "\<forall>prio \<in> set prios. \<forall>p \<in> set (qs prio). lock_free s p"
  shows "\<exists>p prio s'. scheduler_turn now s = Some (Ok (Switch p, s')) \<and> prio \<in> set prios \<and> chosen s (qs prio) prio p \<and>
    (\<forall>i \<in> set prios. i < prio \<longrightarrow> qs i = []) \<and> sched_holds s' (qs(prio := remove1 p (qs prio))) \<and>
    state (procs s' p) = RUNNING \<and> curr (rq s') = p \<and> running_process s' = p \<and>
    2000 \<le> last_timeslice (se_of s' p) \<and> last_timeslice (se_of s' p) \<le> 24000 \<and>
    (spinlocks_enabled s \<longrightarrow> lock_mine s' p)"
proof -
  obtain p where p: "sched_pick_next s = Some p" "picked s qs p" using rqs.pick_law [OF assms(1)] by blast
  then obtain prio where prio: "prio \<in> set prios" "chosen s (qs prio) prio p" "\<forall>i \<in> set prios. i < prio \<longrightarrow> qs i = []"
    using queues_not_empty [OF assms(1,2)] by (auto simp: picked_def split: if_splits)
  then have m: "p \<in> set (qs prio)" by (simp add: chosen_def)
  then have p0: "p \<noteq> 0" using rqs.members [OF assms(1) prio(1)] by auto
  let ?d = "scheduler_dispatch now p s"
  note e = scheduler_dispatch_effect [OF assms(1) prio(1) m, of now]
  have "lock_free ?d p" using assms(3) prio(1) m e(9) by (simp add: lock_free_def)
  then obtain l c where lc: "condvar_lock (proc_lock p) ?d = Some (Ok (?d\<lparr>locks := (locks ?d)(proc_lock p := l), cpu := c\<rparr>))"
    "spinlocks_enabled ?d \<longrightarrow> l = \<lparr>locked = 1, holding_cpu = cpuid ?d\<rparr>"
    using condvar_lock_free by blast
  let ?s = "?d\<lparr>locks := (locks ?d)(proc_lock p := l), cpu := c\<rparr>"
  have t: "scheduler_turn now s = Some (Ok (Switch p, ?s))"
    using assms(2) p(1) p0 lc(1) by (simp add: scheduler_turn_def)
  have h: "sched_holds ?s (qs(prio := remove1 p (qs prio)))"
    by (rule queue_fields_frame [OF e(1)]) simp_all
  have "spinlocks_enabled s \<longrightarrow> lock_mine ?s p" using lc(2) e(10) by (simp add: lock_mine_def)
  then show ?thesis using t h prio e(2-7) by (intro exI [of _ p] exI [of _ prio] exI [of _ ?s] conjI) simp_all
qed

text \<open>
  C13: with a runnable process the scheduler takes a process of the best non-empty queue off it,
  chosen by the rule of that queue, and enters it with its lock held, the other queues unchanged
  and a time slice between 2 and 24 milliseconds.
\<close>

theorem scheduler_turn_dispatches:
  assumes "sched_holds s qs" "total_runnable (rq s) \<noteq> 0" "\<forall>prio \<in> set prios. \<forall>p \<in> set (qs prio). lock_free s p"
  shows "\<exists>p prio s'. scheduler_turn now s = Some (Ok (Switch p, s')) \<and> prio \<in> set prios \<and> chosen s (qs prio) prio p \<and>
    (\<forall>i \<in> set prios. i < prio \<longrightarrow> qs i = []) \<and> sched_holds s' (qs(prio := remove1 p (qs prio))) \<and>
    state (procs s' p) = RUNNING \<and> curr (rq s') = p \<and> running_process s' = p \<and>
    2000 \<le> last_timeslice (se_of s' p) \<and> last_timeslice (se_of s' p) \<le> 24000 \<and>
    (spinlocks_enabled s \<longrightarrow> lock_mine s' p)"
  using scheduler_turn_switch [OF assms] .

section \<open>Back in the scheduler\<close>

lemma not_queued_frame:
  assumes "sched_holds s qs" "\<not> in_runqueue (se_of s p)" "procs s' = (procs s)(p := x)" "\<not> in_runqueue (sched x)"
    "queue_heads (rq s') = queue_heads (rq s)" "queue_tails (rq s') = queue_tails (rq s)"
    "queue_sizes (rq s') = queue_sizes (rq s)" "total_runnable (rq s') = total_runnable (rq s)"
    "total_weight (rq s') = total_weight (rq s)"
  shows "sched_holds s' qs"
proof (rule queue_fields_frame [OF assms(1)])
  fix y
  show "in_runqueue (se_of s y) \<Longrightarrow> se_of s' y = se_of s y" using assms(2,3) by (cases "y = p") simp_all
  show "in_runqueue (se_of s' y) = in_runqueue (se_of s y)" using assms(2-4) by (cases "y = p") simp_all
qed (fact assms)+

lemma upd_se_procs: "procs (upd_se p f s) = (procs s)(p := (procs s p)\<lparr>sched := f (se_of s p)\<rparr>)"
  by (simp add: upd_se_def)

lemma sched_check_interactive_queue [simp]: "in_runqueue (sched_check_interactive se) = in_runqueue se"
  "vruntime (sched_check_interactive se) = vruntime se"
  by (simp_all add: sched_check_interactive_def Let_def)

lemma sched_update_priority_queue [simp]: "in_runqueue (sched_update_priority se) = in_runqueue se"
  "vruntime (sched_update_priority se) = vruntime se"
  by (simp_all add: sched_update_priority_def Let_def)

lemma sched_update_vruntime_effect:
  shows "procs (sched_update_vruntime p d s) = (procs s)(p := (procs s p)\<lparr>sched := (se_of s p)
      \<lparr>vruntime := vruntime (se_of s p) + (d * 1024) div sched_entity_weight (se_of s p),
        sum_exec_runtime := sum_exec_runtime (se_of s p) + d\<rparr>\<rparr>)"
    "\<exists>m. rq (sched_update_vruntime p d s) = (rq s)\<lparr>min_vruntime := m\<rparr> \<and> m \<le> min_vruntime (rq s)"
  by (auto simp: sched_update_vruntime_def Let_def upd_se_procs intro: exI [of _ "min_vruntime (rq s)"])

text \<open>
  C14: a process that comes back runnable has its lock released and is queued at the end of the
  queue of its new priority, with the time it used added to its virtual runtime.
\<close>

theorem scheduler_resume_requeues:
  assumes "sched_holds s qs" "p \<noteq> 0" "\<not> in_runqueue (se_of s p)" "state (procs s p) = RUNNABLE"
    "spinlocks_enabled s" "lock_mine s p"
  shows "\<exists>s'. scheduler_resume now p s = Some (Ok s') \<and>
    sched_holds s' (qs(enq_prio s' p := qs (enq_prio s' p) @ [p])) \<and> state (procs s' p) = RUNNABLE \<and>
    vruntime (se_of s' p) = vruntime (se_of s p) + ((now - exec_start (se_of s p)) * 1024) div sched_entity_weight (se_of s p) \<and>
    curr (rq s') = 0 \<and> running_process s' = 0 \<and> lock_free s' p"
proof -
  obtain c where u: "condvar_unlock (proc_lock p) s =
      Ok (s\<lparr>locks := (locks s)(proc_lock p := \<lparr>locked = 0, holding_cpu = 0\<rparr>), cpu := c\<rparr>)"
    using condvar_unlock_mine [OF assms(6,5)] by blast
  let ?s = "s\<lparr>locks := (locks s)(proc_lock p := \<lparr>locked = 0, holding_cpu = 0\<rparr>), cpu := c\<rparr>"
  let ?v = "sched_update_vruntime p (now - exec_start (se_of s p)) ?s"
  let ?u = "upd_se p (\<lambda>se. sched_update_priority (sched_check_interactive se)) ?v"
  let ?e = "sched_enqueue p ?u"
  let ?f = "upd_rq (\<lambda>q. q\<lparr>curr := 0\<rparr>) ?e\<lparr>running_process := 0\<rparr>"
  note v = sched_update_vruntime_effect [of p "now - exec_start (se_of s p)" ?s]
  obtain m where m: "rq ?v = (rq s)\<lparr>min_vruntime := m\<rparr>" using v(2) by auto
  have pu: "procs ?u = (procs s)(p := (procs s p)\<lparr>sched := sched_update_priority (sched_check_interactive ((se_of s p)
      \<lparr>vruntime := vruntime (se_of s p) + ((now - exec_start (se_of s p)) * 1024) div sched_entity_weight (se_of s p),
        sum_exec_runtime := sum_exec_runtime (se_of s p) + (now - exec_start (se_of s p))\<rparr>))\<rparr>)"
    using v(1) by (simp add: upd_se_procs)
  have hu: "sched_holds ?u qs"
    by (rule not_queued_frame [OF assms(1,3) pu]) (use assms(3) m in simp_all)
  have nq: "\<not> in_runqueue (se_of ?u p)" using assms(3) pu by simp
  have he: "sched_holds ?e (qs(enq_prio ?u p := qs (enq_prio ?u p) @ [p]))"
    by (rule rqs.enq_law [OF hu nq assms(2)])
  have hf: "sched_holds ?f (qs(enq_prio ?u p := qs (enq_prio ?u p) @ [p]))"
    by (rule queue_fields_frame [OF he]) simp_all
  have eq: "enq_prio ?f p = enq_prio ?u p" by (simp add: enq_prio_def)
  have st: "state (procs ?u p) = RUNNABLE" using pu assms(4) by simp
  have r: "scheduler_resume now p s = Some (Ok ?f)"
    using u st by (simp add: scheduler_resume_def scheduler_account_def Let_def)
  have pe: "state (procs ?e p) = RUNNABLE" "vruntime (se_of ?e p) = vruntime (se_of ?u p)" "locks ?e = locks ?u"
    using st by (simp_all add: sched_enqueue_def Let_def upd_se_def upd_proc_def upd_rq_def)
  have "locks ?u = locks ?s" by (simp add: sched_update_vruntime_def Let_def upd_se_def upd_proc_def upd_rq_def)
  then have "lock_free ?f p" using pe(3) by (simp add: lock_free_def upd_rq_def)
  then show ?thesis using r hf eq pe(1,2) pu by (intro exI [of _ ?f] conjI) (simp_all add: upd_rq_def)
qed

section \<open>The timer and the process lock\<close>

text \<open>
  A timer tick charges the running process and, once its time slice is used up, makes it
  runnable and leaves for the scheduler; the queues are untouched.
\<close>

theorem scheduler_tick_preempts:
  assumes "curr (rq s) = p" "running_process s = p" "p \<noteq> 0" "state (procs s p) = RUNNING" "lock_mine s p"
    "sched_holds s qs" "\<not> in_runqueue (se_of s p)"
  shows "\<exists>s'. scheduler_tick now s = Ok s' \<and>
    state (procs s' p) = (if now - last_ran (se_of s p) \<ge> last_timeslice (se_of s p) then RUNNABLE else RUNNING) \<and>
    sched_holds s' qs \<and> lock_mine s' p"
proof -
  define s1 where "s1 = upd_stats (\<lambda>t. t\<lparr>total_timer_ticks := total_timer_ticks t + 1\<rparr>) s"
  define s2 where "s2 = (if exec_start (se_of s1 p) > 0 then upd_se p (\<lambda>se. se\<lparr>exec_start := now\<rparr>)
      (sched_update_vruntime p (now - exec_start (se_of s1 p)) s1) else s1)"
  define s3 where "s3 = upd_stats (\<lambda>t. t\<lparr>total_preemptions := total_preemptions t + 1\<rparr>) s2"
  define s4 where "s4 = upd_proc p (\<lambda>x. x\<lparr>state := RUNNABLE\<rparr>) s3"
  note v = sched_update_vruntime_effect [of p "now - exec_start (se_of s1 p)" s1]
  have r1: "procs s1 = procs s" "rq s1 = rq s" "locks s1 = locks s" "cpuid s1 = cpuid s" "running_process s1 = running_process s"
    by (simp_all add: s1_def upd_stats_def)
  obtain x m where x: "procs s2 = (procs s)(p := x)" "state x = RUNNING" "last_ran (sched x) = last_ran (se_of s p)"
    "last_timeslice (sched x) = last_timeslice (se_of s p)" "\<not> in_runqueue (sched x)" "rq s2 = (rq s)\<lparr>min_vruntime := m\<rparr>"
  proof (cases "exec_start (se_of s1 p) > 0")
    case True
    then show ?thesis using that [OF _ _ _ _ _ ] v r1 assms(4,7) by (auto simp: s2_def upd_se_procs)
  next
    case False
    then show ?thesis using that [of "procs s p" "min_vruntime (rq s)"] r1 assms(4,7) by (simp add: s2_def)
  qed
  have l2: "locks s2 = locks s" "cpuid s2 = cpuid s" "running_process s2 = running_process s"
    using r1 by (simp_all add: s2_def sched_update_vruntime_def Let_def upd_se_def upd_proc_def upd_rq_def)
  have l3: "locks s3 = locks s" "cpuid s3 = cpuid s" "running_process s3 = p" "rq s3 = rq s2" "procs s3 = procs s2"
    using l2 assms(2) by (simp_all add: s3_def upd_stats_def)
  have l4: "locks s4 = locks s" "running_process s4 = p" "cpuid s4 = cpuid s" using l3 by (simp_all add: s4_def upd_proc_def)
  have pre: "scheduler_preempt s3 = Ok s4"
    using assms(1,3,5) l3(4,5) l4 x(1,2,6)
    by (simp add: scheduler_preempt_def s4_def [symmetric] scheduler_switch_back_def spinlock_locked_def lock_mine_def)
       (simp add: s4_def)
  have tick: "scheduler_tick now s = (if now - last_ran (se_of s p) \<ge> last_timeslice (se_of s p) then Ok s4 else Ok s2)"
    unfolding scheduler_tick_def Let_def s1_def [symmetric] r1(2) assms(1) s2_def [symmetric] s3_def [symmetric]
    using assms(3,4) r1(1) x(1,3,4) pre by simp
  have h2: "sched_holds s2 qs"
    by (rule not_queued_frame [OF assms(6,7) x(1,5)]) (simp_all add: x(6))
  have h4: "sched_holds s4 qs"
    by (rule not_queued_frame [OF h2, of p _ "x\<lparr>state := RUNNABLE\<rparr>"]) (use x in \<open>simp_all add: s4_def s3_def upd_stats_def\<close>)
  have "lock_mine s2 p" "lock_mine s4 p"
    using assms(5) l2 l4 by (simp_all add: lock_mine_def)
  then show ?thesis using tick h2 h4 x(1,2) by (simp add: s4_def)
qed

lemma scheduler_idle_no_switch: "scheduler_idle s \<noteq> Some (Ok (Switch p, s'))"
  by (auto simp: scheduler_idle_def Let_def split: if_splits)

text \<open>
  C15: the scheduler enters a process with its lock held; any attempt of that process to block
  takes the same lock again and panics.
\<close>

theorem running_process_cannot_block:
  assumes "scheduler_turn now s = Some (Ok (Switch p, s'))" "spinlocks_enabled s" "p \<noteq> 0"
  shows "condvar_wait_enter t cond s' = Some (Panic ''deadlock'') \<and>
    scheduler_yield s' = Some (Panic ''deadlock'') \<and> sys_sleep msec t t' s' = Some (Panic ''deadlock'')"
proof -
  have e: "spinlocks_enabled (scheduler_dispatch now q s) = spinlocks_enabled s"
    "running_process (scheduler_dispatch now q s) = q" for q
    by (simp_all add: scheduler_dispatch_def sched_dequeue_def Let_def upd_stats_def upd_se_def upd_proc_def upd_rq_def)
  have "total_runnable (rq s) \<noteq> 0"
    using assms(1) scheduler_idle_no_switch [of s p s'] by (auto simp: scheduler_turn_def)
  then have c: "condvar_lock (proc_lock p) (scheduler_dispatch now p s) = Some (Ok s')"
    using assms(1) by (auto simp: scheduler_turn_def bind_eq_Some_conv split: if_splits)
  note h = condvar_lock_held [OF c]
  have "condvar_lock (proc_lock p) s' = Some (Panic ''deadlock'')" "running_process s' = p"
    using condvar_lock_mine h e assms(2) by simp_all
  moreover have "condvar_lock (proc_lock p) (upd_stats f s') = Some (Panic ''deadlock'')" for f
    using condvar_lock_mine [of "upd_stats f s'" p] h e assms(2) by (simp add: upd_stats_def lock_mine_def)
  ultimately show ?thesis using assms(3)
    by (simp add: condvar_wait_enter_def scheduler_yield_def sys_sleep_def Let_def) (simp add: upd_stats_def)
qed

section \<open>Dequeueing a process that is not queued\<close>

lemma sched_dequeue_unqueued:
  assumes "runqueue_prio (se_of s p) = prio" "prio \<in> set prios" "se_prev (se_of s p) = 0" "se_next (se_of s p) = 0" "p \<noteq> 0"
  shows "queue_heads (rq (sched_dequeue p s)) = (queue_heads (rq s))(prio := 0)"
    "queue_tails (rq (sched_dequeue p s)) = (queue_tails (rq s))(prio := 0)"
    "total_runnable (rq (sched_dequeue p s)) = total_runnable (rq s) - 1"
    "x \<noteq> p \<Longrightarrow> se_of (sched_dequeue p s) x = se_of s x"
  using sched_dequeue_effect [OF assms(1) _ assms(3,4)] assms(2,5) by (simp_all add: prios_less)

text \<open>
  \<^verbatim>\<open>sched_sleep\<close> takes the calling process off a queue it is not on any more. The queue of its
  priority is emptied while its members stay marked as queued, and the count of runnable processes
  is one too low.
\<close>

theorem sched_sleep_loses_queue:
  assumes "sched_holds s qs" "prio \<in> set prios" "\<not> in_runqueue (se_of s p)" "runqueue_prio (se_of s p) = prio"
    "se_prev (se_of s p) = 0" "se_next (se_of s p) = 0" "p \<noteq> 0"
  shows "queue_heads (rq (sched_sleep now p chan s)) prio = 0 \<and> queue_tails (rq (sched_sleep now p chan s)) prio = 0 \<and>
    total_runnable (rq (sched_sleep now p chan s)) = total_runnable (rq s) - 1 \<and>
    (\<forall>x \<in> set (qs prio). in_runqueue (se_of (sched_sleep now p chan s) x))"
proof -
  define f :: "sched_entity \<Rightarrow> sched_entity" where "f = (\<lambda>se. if last_ran se > 0 then let sleep_duration = now - last_ran se
      in se\<lparr>sleep_time := sleep_time se + sleep_duration,
            sleep_avg := ucast ((ucast (sleep_avg se * 7) + sleep_duration) div 8)\<rparr> else se)"
  let ?s = "upd_se p f s"
  have f: "runqueue_prio (se_of ?s p) = prio" "se_prev (se_of ?s p) = 0" "se_next (se_of ?s p) = 0"
    using assms(4-6) by (simp_all add: f_def Let_def)
  note d = sched_dequeue_unqueued [OF f(1) assms(2) f(2,3) assms(7)]
  have "rq_inv s qs" using assms(1) by (simp add: sched_holds_def)
  from queue_okD(6) [OF rq_invD(1) [OF this assms(2)]]
  have m: "x \<noteq> p" "in_runqueue (se_of s x)" if "x \<in> set (qs prio)" for x
    using that assms(3) by blast+
  have e: "sched_sleep now p chan s = upd_se p sched_check_interactive (upd_proc p
      (\<lambda>x. x\<lparr>state := SLEEPING, waiting_channel := chan\<rparr>) (sched_dequeue p ?s))"
    unfolding sched_sleep_def f_def Let_def ..
  show ?thesis unfolding e using d(1-3) m d(4) by simp
qed

section \<open>Changing the priority of a queued process\<close>

lemma rq_inv_links:
  assumes "rq_inv s qs" "rq s' = rq s"
    "\<And>x. se_next (se_of s' x) = se_next (se_of s x) \<and> se_prev (se_of s' x) = se_prev (se_of s x) \<and>
       in_runqueue (se_of s' x) = in_runqueue (se_of s x) \<and> runqueue_prio (se_of s' x) = runqueue_prio (se_of s x)"
  shows "rq_inv s' qs"
proof (rule rq_invI)
  fix prio assume "prio \<in> set prios"
  from rq_invD(1) [OF assms(1) this] show "queue_ok s' prio (qs prio)"
    using lseg_cong [of "qs prio" "se_of s'" "se_of s" 0 0] by (simp add: queue_ok_def assms(2,3))
qed (use assms rq_invD(2,3) [OF assms(1)] in simp_all)

lemma weight_of_member:
  assumes "prio \<in> set prios" "p \<in> set (qs prio)"
  shows "queued_weight s qs = queued_weight s (qs(prio := remove1 p (qs prio))) + sched_entity_weight (se_of s p)"
  using queued_weight_upd [OF assms(1), of s qs "remove1 p (qs prio)"]
    sum_list_map_remove1 [OF assms(2), of "\<lambda>p. sched_entity_weight (se_of s p)"]
  by (simp add: algebra_simps)

lemma weight_of_others:
  assumes "\<And>prio x. prio \<in> set prios \<Longrightarrow> x \<in> set (qs prio) \<Longrightarrow> dynamic_priority (se_of s' x) = dynamic_priority (se_of s x)"
  shows "queued_weight s' qs = queued_weight s qs"
  unfolding queued_weight_def sched_entity_weight_def
  by (intro arg_cong [where f = sum_list] map_cong refl) (simp_all add: assms)

text \<open>
  \<^verbatim>\<open>sched_set_priority\<close> moves a queued process to the end of the queue of its new priority, but
  leaves the total weight as it was: it is off by the difference of the two weights.
\<close>

theorem sched_set_priority_weight:
  assumes "sched_holds s qs" "old \<in> set prios" "p \<in> set (qs old)" "prio < SCHED_PRIORITY_LEVELS" "state (procs s p) = RUNNABLE"
  shows "\<exists>qs'. rq_inv (sched_set_priority p prio s) qs' \<and>
    qs' = (let qs1 = qs(old := remove1 p (qs old)) in qs1(prio := qs1 prio @ [p])) \<and>
    total_weight (rq (sched_set_priority p prio s)) = total_weight (rq s) \<and>
    queued_weight (sched_set_priority p prio s) qs' = total_weight (rq s)
      - sched_entity_weight (se_of s p) + prio_weights ! unat prio"
proof -
  define f :: "sched_entity \<Rightarrow> sched_entity" where "f = (\<lambda>se. (if prio \<le> PRIO_RT_MAX then se\<lparr>flags := flags se OR SCHED_FLAG_RT\<rparr>
         else se\<lparr>flags := flags se AND NOT SCHED_FLAG_RT\<rparr>)\<lparr>static_priority := prio, dynamic_priority := prio\<rparr>)"
  let ?s = "upd_se p f s" and ?q1 = "qs(old := remove1 p (qs old))"
  let ?q2 = "?q1(prio := ?q1 prio @ [p])"
  have inv: "rq_inv s qs" "weight_inv s qs" using assms(1) by (simp_all add: sched_holds_def)
  have fs: "se_next (f se) = se_next se" "se_prev (f se) = se_prev se" "in_runqueue (f se) = in_runqueue se"
    "runqueue_prio (f se) = runqueue_prio se" "dynamic_priority (f se) = prio" for se by (simp_all add: f_def)
  note q = queue_okD [OF rq_invD(1) [OF inv(1) assms(2)]]
  have i1: "rq_inv ?s qs" by (rule rq_inv_links [OF inv(1)]) (simp_all add: fs)
  obtain as bs where ab: "qs old = as @ [p] @ bs" "remove1 p (qs old) = as @ bs"
    using split_list [OF assms(3)] q(4) by (auto simp: remove1_append)
  have i2: "rq_inv (sched_dequeue p ?s) ?q1" using sched_dequeue_rq_inv [OF i1 assms(2) ab(1)] by (simp add: ab(2))
  have p0: "p \<noteq> 0" using q(5) assms(3) by auto
  have b: "enq_prio (sched_dequeue p ?s) p = prio" using assms(4) leD by (auto simp: enq_prio_def fs)
  have nq: "\<not> in_runqueue (se_of (sched_dequeue p ?s) p)" using sched_dequeue_not_queued [OF i1 assms(2) ab(1)] .
  have i3: "rq_inv (sched_enqueue p (sched_dequeue p ?s)) ?q2"
    using sched_enqueue_rq_inv [OF i2 nq p0] by (simp only: b)
  have e: "sched_set_priority p prio s = sched_enqueue p (sched_dequeue p ?s)"
    using assms(4,5) q(6) [OF assms(3)] by (simp add: sched_set_priority_def requeue_def fs not_le f_def [symmetric] upd_se_procs)
  have rp: "runqueue_prio (se_of ?s p) < SCHED_PRIORITY_LEVELS"
    using q(7) [OF assms(3)] assms(2) by (simp add: fs prios_less)
  have tw: "total_weight (rq (sched_set_priority p prio s)) = total_weight (rq s)"
    unfolding e sched_enqueue_weight sched_dequeue_weight [OF rp] by (simp add: sched_entity_weight_def)
  have np: "p \<notin> set (?q1 i)" if "i \<in> set prios" for i
    using rq_inv_not_queued [OF i2 nq that] .
  have "queued_weight ?s ?q1 = queued_weight s ?q1"
    by (rule weight_of_others) (use np in \<open>metis upd_simps(3)\<close>)
  moreover have "queued_weight ?s ?q2 = queued_weight ?s ?q1 + prio_weights ! unat prio"
    using queued_weight_upd [of prio ?s ?q1 "?q1 prio @ [p]"] assms(4)
    by (simp add: prios_less sched_entity_weight_def fs algebra_simps)
  moreover have "queued_weight (sched_set_priority p prio s) ?q2 = queued_weight ?s ?q2"
    unfolding e by (rule queued_weight_cong) simp
  ultimately have "queued_weight (sched_set_priority p prio s) ?q2 = total_weight (rq s)
      - sched_entity_weight (se_of s p) + prio_weights ! unat prio"
    using weight_of_member [of old p qs s, OF assms(2,3)] inv(2) by (simp add: weight_inv_def)
  then show ?thesis using i3 e tw by (simp add: Let_def)
qed

section \<open>Virtual time\<close>

text \<open>
  The least virtual runtime never grows, and a process forked while it is 0, as it is at
  boot, starts with virtual runtime 0 however long the others have run.
\<close>

theorem sched_min_vruntime_never_grows:
  "min_vruntime (rq (sched_update_vruntime p d s)) \<le> min_vruntime (rq s) \<and>
   (min_vruntime (rq s) = 0 \<longrightarrow> vruntime (se_of (sched_fork q (sched_update_vruntime p d s)) q) = 0)"
proof -
  obtain m where m: "rq (sched_update_vruntime p d s) = (rq s)\<lparr>min_vruntime := m\<rparr>" "m \<le> min_vruntime (rq s)"
    using sched_update_vruntime_effect(2) by blast
  then show ?thesis using word_le_0_iff by (auto simp: sched_fork_def Let_def)
qed

section \<open>A concrete kernel\<close>

definition some_proc :: "nat \<Rightarrow> u8 \<Rightarrow> u64 \<Rightarrow> process" where
  "some_proc i prio v = zero_process\<lparr>pid := of_nat (Suc i), orig_i := of_nat i, cur_i := of_nat i, state := RUNNABLE,
     sched := zero_entity\<lparr>static_priority := prio, dynamic_priority := prio, vruntime := v, exec_start := 100, last_ran := 100,
       last_timeslice := 2000\<rparr>\<rparr>"

text \<open>Three processes, none of them queued.\<close>

definition three_procs :: kernel where
  "three_procs = \<lparr>procs = (\<lambda>_. zero_process)(0x10000 := some_proc 0 3 7, 0x11000 := some_proc 1 3 5, 0x12000 := some_proc 2 3 9),
     rq = \<lparr>queue_heads = \<lambda>_. 0, queue_tails = \<lambda>_. 0, queue_sizes = \<lambda>_. 0, total_runnable = 0, clock = 0, curr = 0,
       total_weight = 0, min_vruntime = 0\<rparr>,
     stats = \<lparr>total_switches = 0, total_preemptions = 0, total_yields = 0, total_timer_ticks = 0, idle_time = 0\<rparr>,
     processes = (\<lambda>_. 0)(0 := 0x10000, 1 := 0x11000, 2 := 0x12000), process_count = 3, process_min_index = 3, next_pid = 4,
     running_process = 0, last_running_process = 0,
     vm = \<lparr>km = sample_kmem, kernel_pagetable = 0, io_memmap_current_address = 0\<rparr>,
     locks = \<lambda>_. \<lparr>locked = 0, holding_cpu = 0\<rparr>, spinlocks_enabled = True, cpuid = 0,
     cpu = \<lparr>interrupts_enabled = False, depth = 0, was_enabled = False\<rparr>\<rparr>"

text \<open>The first two of them in their queue.\<close>

definition two_queued :: kernel where
  "two_queued = sched_enqueue 0x11000 (sched_enqueue 0x10000 three_procs)"

definition two_queues :: "u8 \<Rightarrow> u64 list" where
  "two_queues = (\<lambda>_. [])(3 := [0x10000, 0x11000])"

lemmas queue_defs = sched_enqueue_def Let_def three_procs_def some_proc_def zero_process_def zero_entity_def
  SCHED_PRIORITY_LEVELS_def enq_prio_def

lemma three_procs_holds: "sched_holds three_procs (\<lambda>_. [])"
  by (rule empty_queues) (simp_all add: three_procs_def some_proc_def zero_process_def zero_entity_def)

lemma two_queued_holds: "sched_holds two_queued two_queues"
proof -
  have 1: "\<not> in_runqueue (se_of three_procs 0x10000)" "enq_prio three_procs 0x10000 = 3"
    by (simp_all add: queue_defs)
  have 2: "\<not> in_runqueue (se_of (sched_enqueue 0x10000 three_procs) 0x11000)"
    "enq_prio (sched_enqueue 0x10000 three_procs) 0x11000 = 3"
    by (simp_all add: queue_defs)
  show ?thesis
    using rqs.enq_law [OF rqs.enq_law [OF three_procs_holds 1(1)] 2(1)] by (simp add: 1(2) 2(2) two_queued_def two_queues_def)
qed

text \<open>The third process as the scheduler entered it, running or about to give up the processor.\<close>

definition third_in :: "process_state \<Rightarrow> kernel" where
  "third_in st = (let s = two_queued in
     s\<lparr>procs := (procs s)(0x12000 := (procs s 0x12000)\<lparr>state := st, sched := (se_of s 0x12000)\<lparr>runqueue_prio := 3\<rparr>\<rparr>),
       rq := (rq s)\<lparr>curr := 0x12000\<rparr>, running_process := 0x12000,
       locks := (locks s)(proc_lock 0x12000 := \<lparr>locked = 1, holding_cpu = 0\<rparr>)\<rparr>)"

lemma two_queued_third: "se_of two_queued 0x12000 = sched (some_proc 2 3 9)"
  by (simp add: two_queued_def queue_defs)

lemma two_queued_fields:
  "locks two_queued = (\<lambda>_. \<lparr>locked = 0, holding_cpu = 0\<rparr>)" "spinlocks_enabled two_queued" "cpuid two_queued = 0"
  "total_runnable (rq two_queued) = 2" "min_vruntime (rq two_queued) = 0"
  by (simp_all add: two_queued_def queue_defs upd_se_def upd_proc_def upd_rq_def)

lemma third_in_holds: "sched_holds (third_in st) two_queues"
  by (rule not_queued_frame [OF two_queued_holds, of "0x12000" _ "(procs two_queued 0x12000)\<lparr>state := st,
        sched := (se_of two_queued 0x12000)\<lparr>runqueue_prio := 3\<rparr>\<rparr>"])
    (simp_all add: two_queued_third third_in_def Let_def some_proc_def zero_entity_def)

lemma third_in_fields:
  "\<not> in_runqueue (se_of (third_in st) 0x12000)" "state (procs (third_in st) 0x12000) = st" "lock_mine (third_in st) 0x12000"
  "curr (rq (third_in st)) = 0x12000" "running_process (third_in st) = 0x12000" "spinlocks_enabled (third_in st)"
  "runqueue_prio (se_of (third_in st) 0x12000) = 3" "se_prev (se_of (third_in st) 0x12000) = 0"
  "se_next (se_of (third_in st) 0x12000) = 0"
  using two_queued_third two_queued_fields by (simp_all add: third_in_def Let_def lock_mine_def some_proc_def zero_entity_def)

lemma two_queued_free: "\<forall>prio \<in> set prios. \<forall>p \<in> set (two_queues prio). lock_free two_queued p"
  by (simp add: lock_free_def two_queued_fields)

section \<open>Witnesses\<close>

theorem scheduler_turn_dispatches_witness:
  "sched_holds two_queued two_queues \<and> (\<exists>p prio s'. scheduler_turn 5 two_queued = Some (Ok (Switch p, s')) \<and>
     chosen two_queued (two_queues prio) prio p \<and> state (procs s' p) = RUNNING)"
  using two_queued_holds scheduler_turn_dispatches [OF two_queued_holds _ two_queued_free, of 5] two_queued_fields(4) by auto

theorem scheduler_resume_requeues_witness:
  "\<exists>s'. scheduler_resume 200 0x12000 (third_in RUNNABLE) = Some (Ok s') \<and> lock_free s' 0x12000"
  using scheduler_resume_requeues [OF third_in_holds _ third_in_fields(1,2,6,3), of 200] by auto

theorem scheduler_tick_preempts_witness:
  "\<exists>s'. scheduler_tick 9000 (third_in RUNNING) = Ok s' \<and> sched_holds s' two_queues"
  using scheduler_tick_preempts [OF third_in_fields(4,5) _ third_in_fields(2,3) third_in_holds third_in_fields(1), of 9000] by auto

theorem running_process_cannot_block_witness:
  "\<exists>p s'. scheduler_turn 5 two_queued = Some (Ok (Switch p, s')) \<and> scheduler_yield s' = Some (Panic ''deadlock'')"
proof -
  obtain p prio s' where t: "scheduler_turn 5 two_queued = Some (Ok (Switch p, s'))" "p \<in> set (two_queues prio)"
    using scheduler_turn_switch [OF two_queued_holds _ two_queued_free, of 5] two_queued_fields(4) by (auto simp: chosen_def)
  then have "p \<noteq> 0" by (auto simp: two_queues_def split: if_splits)
  then show ?thesis using running_process_cannot_block [OF t(1) two_queued_fields(2)] t(1) by blast
qed

theorem sched_sleep_loses_queue_witness:
  "queue_heads (rq (sched_sleep 300 0x12000 0x9000 (third_in RUNNING))) 3 = 0 \<and> two_queues 3 = [0x10000, 0x11000]"
  using sched_sleep_loses_queue [OF third_in_holds _ third_in_fields(1,7,8,9), of 300 "0x9000" RUNNING]
  by (simp add: prios_def two_queues_def)

theorem sched_set_priority_weight_witness:
  "total_weight (rq (sched_set_priority 0x10000 5 two_queued)) = total_weight (rq two_queued)"
proof -
  have "state (procs two_queued 0x10000) = RUNNABLE" by (simp add: two_queued_def queue_defs upd_se_procs)
  then show ?thesis
    using sched_set_priority_weight [OF two_queued_holds, of 3 "0x10000" 5]
    by (simp add: prios_def two_queues_def SCHED_PRIORITY_LEVELS_def)
qed

theorem sched_min_vruntime_never_grows_witness:
  "vruntime (se_of (sched_fork 0x10000 (sched_update_vruntime 0x11000 50 two_queued)) 0x10000) = 0"
  using sched_min_vruntime_never_grows [of "0x11000" 50 two_queued "0x10000"] two_queued_fields(5) by simp

theorem run_queue_operations_witness:
  "sched_holds (sched_dequeue 0x10000 two_queued) (two_queues(3 := [0x11000]))"
  using run_queue_operations [OF two_queued_holds, of "0x10000"] by (simp add: two_queues_def prios_def)

theorem sched_bounds_witness:
  "dynamic_priority (sched_update_priority (zero_entity\<lparr>static_priority := 7, nice := 19\<rparr>)) \<le> PRIO_IDLE_MAX"
  using sched_bounds [of "zero_entity\<lparr>static_priority := 7, nice := 19\<rparr>"] by (simp add: zero_entity_def)

end
