(* ===== verification/Proc_Table.thy ===== *)
theory Proc_Table
  imports Sched_Props
begin

text \<open>
  The process table of \<^verbatim>\<open>proc.c\<close> and \<^verbatim>\<open>scheduler.c\<close>: allocation of a slot, closing the gap an
  exited process leaves, waking the waiters of a condition variable, and the program break.
\<close>

section \<open>The table as a list\<close>

definition table_inv :: "kernel \<Rightarrow> u64 list \<Rightarrow> bool" where
  "table_inv s ps \<longleftrightarrow> length ps \<le> MAX_PROCESSES \<and> process_count s = of_nat (length ps) \<and>
     processes s = (\<lambda>i. if i < length ps then ps ! i else 0) \<and> 0 \<notin> set ps \<and> distinct ps \<and>
     (\<forall>i < length ps. cur_i (procs s (ps ! i)) = of_nat i) \<and> unat (process_min_index s) \<le> length ps"

lemma coelesce_loop_shift:
  assumes "\<And>m. m < length ts \<Longrightarrow> processes s (Suc j + m) = ts ! m" "0 \<notin> set ts" "distinct ts"
    "s' = coelesce_loop (Suc j) (length ts) s"
  shows "processes s' = (\<lambda>x. if j \<le> x \<and> x < j + length ts then ts ! (x - j) else if x = j + length ts \<and> ts \<noteq> [] then 0 else processes s x) \<and>
    (\<forall>m < length ts. cur_i (procs s' (ts ! m)) = of_nat (j + m)) \<and> (\<forall>x. x \<notin> set ts \<longrightarrow> procs s' x = procs s x) \<and>
    (\<forall>x. orig_i (procs s' x) = orig_i (procs s x)) \<and> process_count s' = process_count s \<and> process_min_index s' = process_min_index s"
  using assms
proof (induction ts arbitrary: j s)
  case (Cons t ts)
  let ?s = "upd_proc t (\<lambda>x. x\<lparr>cur_i := of_nat j\<rparr>) (s\<lparr>processes := (processes s)(j := t, Suc j := 0)\<rparr>)"
  have t: "processes s (Suc j) = t" "t \<noteq> 0" "t \<notin> set ts" "0 \<notin> set ts" "distinct ts" using Cons.prems(1) [of 0] Cons.prems(2,3) by auto
  have u: "s' = coelesce_loop (Suc (Suc j)) (length ts) ?s"
    using t Cons.prems(4) by (simp add: Let_def)
  have f: "processes ?s = (processes s)(j := t, Suc j := 0)" "process_count ?s = process_count s"
    "process_min_index ?s = process_min_index s" by (simp_all add: upd_proc_def)
  have p: "processes ?s (Suc (Suc j) + m) = ts ! m" if "m < length ts" for m
    using Cons.prems(1) [of "Suc m"] that f by simp
  from Cons.IH [of ?s "Suc j", OF p t(4,5) u] have I:
    "processes s' = (\<lambda>x. if Suc j \<le> x \<and> x < Suc j + length ts then ts ! (x - Suc j)
      else if x = Suc j + length ts \<and> ts \<noteq> [] then 0 else processes ?s x)"
    "\<And>m. m < length ts \<Longrightarrow> cur_i (procs s' (ts ! m)) = of_nat (Suc j + m)" "\<And>x. x \<notin> set ts \<Longrightarrow> procs s' x = procs ?s x"
    "\<And>x. orig_i (procs s' x) = orig_i (procs ?s x)" "process_count s' = process_count s" "process_min_index s' = process_min_index s"
    using f by simp_all
  have "processes s' = (\<lambda>x. if j \<le> x \<and> x < j + length (t # ts) then (t # ts) ! (x - j)
      else if x = j + length (t # ts) \<and> t # ts \<noteq> [] then 0 else processes s x)"
    unfolding I(1) f by (rule ext) (auto simp: nth_Cons')
  moreover have "cur_i (procs s' ((t # ts) ! m)) = of_nat (j + m)" if "m < length (t # ts)" for m
    using I(2) [of "m - 1"] I(3) [OF t(3)] that by (cases m) simp_all
  moreover have "procs s' x = procs s x" if "x \<notin> set (t # ts)" for x using I(3) [of x] that by simp
  moreover have "orig_i (procs s' x) = orig_i (procs s x)" for x unfolding I(4) by simp
  ultimately show ?case using I(5,6) by blast
qed (auto simp: fun_eq_iff)

lemma small_index: "i \<le> MAX_PROCESSES \<Longrightarrow> unat (of_nat i :: u64) = i"
  by (rule unat_of_nat_u64) (simp add: MAX_PROCESSES_def)

lemma table_invD:
  assumes "table_inv s ps"
  shows "length ps \<le> MAX_PROCESSES" "unat (process_count s) = length ps" "process_count s = of_nat (length ps)"
    "processes s i = (if i < length ps then ps ! i else 0)" "0 \<notin> set ps" "distinct ps"
    "i < length ps \<Longrightarrow> cur_i (procs s (ps ! i)) = of_nat i" "unat (process_min_index s) \<le> length ps"
  using assms small_index by (auto simp: table_inv_def)

text \<open>Giving up the slot \<open>i\<close> as the scheduler does.\<close>

definition drop_slot :: "nat \<Rightarrow> kernel \<Rightarrow> kernel" where
  "drop_slot i s = coelesce_processes i (s\<lparr>processes := (processes s)(i := 0)\<rparr>)"

lemma drop_slot_table:
  assumes t: "table_inv s ps" and i: "i < length ps"
  shows "table_inv (drop_slot i s) (take i ps @ drop (Suc i) ps)"
    and "orig_i (procs (drop_slot i s) x) = orig_i (procs s x)"
proof -
  note T = table_invD [OF t]
  let ?ts = "drop (Suc i) ps" and ?ps = "take i ps @ drop (Suc i) ps"
  define s0 where "s0 = s\<lparr>processes := (processes s)(i := 0)\<rparr>"
  define s1 where "s1 = coelesce_loop (Suc i) (length ?ts) s0"
  have p0: "processes s0 (Suc i + m) = ?ts ! m" if "m < length ?ts" for m
    using that T(4) [of "Suc i + m"] by (auto simp: s0_def)
  have z: "0 \<notin> set ?ts" "distinct ?ts" using T(5,6) by (auto dest: in_set_dropD)
  from coelesce_loop_shift [OF p0 z s1_def] have L:
    "processes s1 = (\<lambda>x. if i \<le> x \<and> x < i + length ?ts then ?ts ! (x - i) else if x = i + length ?ts \<and> ?ts \<noteq> [] then 0 else processes s0 x)"
    "\<And>m. m < length ?ts \<Longrightarrow> cur_i (procs s1 (?ts ! m)) = of_nat (i + m)" "\<And>x. x \<notin> set ?ts \<Longrightarrow> procs s1 x = procs s0 x"
    "\<And>x. orig_i (procs s1 x) = orig_i (procs s0 x)" "process_count s1 = process_count s0" "process_min_index s1 = process_min_index s0"
    by simp_all
  have c: "unat (process_count s0) - (i + 1) = length ?ts" using T(2) by (simp add: s0_def)
  have d: "drop_slot i s = (let s2 = (if process_min_index s1 > of_nat i then s1\<lparr>process_min_index := of_nat i\<rparr> else s1)
      in s2\<lparr>process_count := process_count s2 - 1\<rparr>)"
    unfolding drop_slot_def coelesce_processes_def s0_def [symmetric] c unfolding s1_def by (simp add: Let_def)
  have pr: "processes s1 = (\<lambda>x. if x < length ?ps then ?ps ! x else 0)"
    using i by (auto simp: L(1) s0_def T(4) nth_append fun_eq_iff min_def)
  have cur: "cur_i (procs s1 (?ps ! m)) = of_nat m" if m: "m < length ?ps" for m
  proof (cases "m < i")
    case True
    then have "ps ! m \<notin> set ?ts" using T(6) i by (auto simp: in_set_conv_nth distinct_conv_nth)
    then show ?thesis using L(3) T(7) [of m] True i by (simp add: nth_append s0_def)
  next
    case False
    then show ?thesis using L(2) [of "m - i"] m i by (simp add: nth_append)
  qed
  have cnt: "process_count s1 - 1 = of_nat (length ?ps)" using T(3) L(5) i by (simp add: s0_def of_nat_diff)
  have mi: "unat (if process_min_index s1 > of_nat i then of_nat i else process_min_index s1) \<le> length ?ps"
    using T(8) i small_index [of i] T(1) by (auto simp: L(6) s0_def word_less_nat_alt not_less)
  have set: "0 \<notin> set ?ps" "distinct ?ps" using T(5,6) set_take_disj_set_drop_if_distinct [of ps i "Suc i"]
    by (auto dest: in_set_dropD in_set_takeD)
  show "table_inv (drop_slot i s) ?ps"
    using T(1) pr cur cnt mi set i by (auto simp: table_inv_def d Let_def split: if_splits)
  show "orig_i (procs (drop_slot i s) x) = orig_i (procs s x)"
    using L(4) [of x] by (simp add: d Let_def s0_def)
qed

section \<open>Allocating a slot\<close>

lemma is_valid_taken: "processes s i \<noteq> 0 \<Longrightarrow> is_valid_process_init i s = Some (Ok (0, s))"
  by (simp add: is_valid_process_init_def)

lemma is_valid_fresh:
  assumes "processes s i = 0" "is_valid_process_init i s = Some (Ok (p, s1))"
  shows "p \<noteq> 0" "processes s1 = (processes s)(i := p)" "process_count s1 = process_count s"
    "orig_i (procs s1 p) = of_nat i" "cur_i (procs s1 p) = of_nat i" "state (procs s1 p) = USED" "pid (procs s1 p) = next_pid s"
    "x \<noteq> p \<Longrightarrow> procs s1 x = procs s x"
  using assms by (auto simp: is_valid_process_init_def Let_def get_next_pid_def upd_proc_def kbind_Ok split: if_splits prod.splits)

lemma init_process_range_first:
  assumes "table_inv s ps" "i \<le> length ps" "length ps < i + k"
  shows "init_process_range i k s = is_valid_process_init (length ps) s"
  using assms(2,3)
proof (induction k arbitrary: i)
  case (Suc k)
  note T = table_invD [OF assms(1)]
  show ?case
  proof (cases "i < length ps")
    case True
    then have "processes s i \<noteq> 0" using T(4) [of i] T(5) nth_mem [OF True] by metis
    then show ?thesis using Suc True by (simp add: is_valid_taken)
  next
    case False
    then have i: "i = length ps" using Suc.prems by simp
    have z: "processes s i = 0" using T(4) [of i] i by simp
    have "kbind (is_valid_process_init i s) (\<lambda>(proc, s1). if proc \<noteq> 0 then Some (Ok (proc, s1)) else init_process_range (Suc i) k s1)
        = kbind (is_valid_process_init i s) (\<lambda>a. Some (Ok a))"
      by (rule kbind_cong) (use is_valid_fresh(1) [OF z] in auto)
    then show ?thesis unfolding kbind_return i by simp
  qed
qed simp

lemma proc_allocate_table:
  assumes "table_inv s ps" "length ps < MAX_PROCESSES"
  shows "proc_allocate s = kbind (is_valid_process_init (length ps) s) (\<lambda>(p, s1).
    if length ps + 1 = MAX_PROCESSES then Some (Panic ''hit process limit - 1'')
    else Some (Ok (p, s1\<lparr>process_count := of_nat (length ps + 1), process_min_index := of_nat (length ps + 1)\<rparr>)))"
proof -
  note T = table_invD [OF assms(1)]
  let ?n = "length ps"
  have first: "kbind (is_valid_process_init 0 s) (\<lambda>(proc, s1). if proc \<noteq> 0 then Some (Ok (proc, s1))
      else init_process_range (unat (process_min_index s1)) (MAX_PROCESSES - unat (process_min_index s1)) s1)
      = is_valid_process_init ?n s"
  proof (cases "ps = []")
    case True
    then have z: "processes s 0 = 0" using T(4) [of 0] by simp
    have "kbind (is_valid_process_init 0 s) (\<lambda>(proc, s1). if proc \<noteq> 0 then Some (Ok (proc, s1))
      else init_process_range (unat (process_min_index s1)) (MAX_PROCESSES - unat (process_min_index s1)) s1)
      = kbind (is_valid_process_init 0 s) (\<lambda>a. Some (Ok a))"
      by (rule kbind_cong) (use is_valid_fresh(1) [OF z] in auto)
    then show ?thesis unfolding kbind_return using True by simp
  next
    case False
    then have "processes s 0 \<noteq> 0" using T(4) [of 0] T(5) by (cases ps) auto
    then show ?thesis
      using init_process_range_first [OF assms(1) T(8), of "MAX_PROCESSES - unat (process_min_index s)"] T(8) assms(2)
      by (simp add: is_valid_taken)
  qed
  have z: "processes s ?n = 0" using T(4) [of ?n] by simp
  have small: "unat (of_nat ?n :: u64) = ?n" using small_index assms(2) by simp
  have last: "(if p = 0 then Some (Ok (0, s2))
       else let oi = orig_i (procs s2 p);
             s3 = (if oi = process_count s2 then s2\<lparr>process_count := process_count s2 + 1\<rparr> else s2)
         in case next_free_slot (unat oi + 1) (MAX_PROCESSES - (unat oi + 1)) s3 of
              None \<Rightarrow> Some (Panic ''hit process limit - 1'')
            | Some i \<Rightarrow> Some (Ok (p, s3\<lparr>process_min_index := of_nat i\<rparr>)))
     = (if ?n + 1 = MAX_PROCESSES then Some (Panic ''hit process limit - 1'')
        else Some (Ok (p, s2\<lparr>process_count := of_nat (?n + 1), process_min_index := of_nat (?n + 1)\<rparr>)))"
    if "is_valid_process_init ?n s = Some (Ok (p, s2))" for p s2
  proof -
    note F = is_valid_fresh [OF z that]
    have nf: "next_free_slot (Suc ?n) k (s2\<lparr>process_count := c\<rparr>) = (case k of 0 \<Rightarrow> None | Suc _ \<Rightarrow> Some (Suc ?n))" for k c
      using F(2) T(4) [of "Suc ?n"] by (cases k) simp_all
    show ?thesis
      using F(1,3,4) T(3) small assms(2) nf by (auto simp: Let_def nat.case_eq_if)
  qed
  have "proc_allocate s = kbind (kbind (is_valid_process_init 0 s) (\<lambda>(proc, s1). if proc \<noteq> 0 then Some (Ok (proc, s1))
      else init_process_range (unat (process_min_index s1)) (MAX_PROCESSES - unat (process_min_index s1)) s1))
      (\<lambda>(p, s2). if p = 0 then Some (Ok (0, s2))
       else let oi = orig_i (procs s2 p);
             s3 = (if oi = process_count s2 then s2\<lparr>process_count := process_count s2 + 1\<rparr> else s2)
         in case next_free_slot (unat oi + 1) (MAX_PROCESSES - (unat oi + 1)) s3 of
              None \<Rightarrow> Some (Panic ''hit process limit - 1'')
            | Some i \<Rightarrow> Some (Ok (p, s3\<lparr>process_min_index := of_nat i\<rparr>)))"
    unfolding proc_allocate_def kbind_assoc by (rule kbind_cong) auto
  then show ?thesis unfolding first using last by (auto intro!: kbind_cong)
qed

text \<open>
  A new process always goes to the slot right after the live ones, and the table never
  holds more than 63 processes: the allocation of the last slot panics.
\<close>

theorem proc_allocate_slot:
  assumes "table_inv s ps" "length ps < MAX_PROCESSES"
  shows "proc_allocate s = kbind (is_valid_process_init (length ps) s) (\<lambda>(p, s1).
    if length ps + 1 = MAX_PROCESSES then Some (Panic ''hit process limit - 1'')
    else Some (Ok (p, s1\<lparr>process_count := of_nat (length ps + 1), process_min_index := of_nat (length ps + 1)\<rparr>)))"
  by (rule proc_allocate_table [OF assms])

section \<open>Waking sleepers\<close>

lemma sched_wakeup_effect:
  assumes "sched_holds s qs" "state (procs s p) = SLEEPING" "\<not> in_runqueue (se_of s p)" "p \<noteq> 0"
  shows "\<exists>qs'. sched_holds (sched_wakeup p s) qs'"
    and "state (procs (sched_wakeup p s) x) = (if x = p then RUNNABLE else state (procs s x))"
    and "waiting_channel (procs (sched_wakeup p s) x) = (if x = p then 0 else waiting_channel (procs s x))"
    and "in_runqueue (se_of (sched_wakeup p s) x) = (x = p \<or> in_runqueue (se_of s x))"
    and "processes (sched_wakeup p s) = processes s" "running_process (sched_wakeup p s) = running_process s"
    and "locks (sched_wakeup p s) = locks s" "spinlocks_enabled (sched_wakeup p s) = spinlocks_enabled s"
    and "cpuid (sched_wakeup p s) = cpuid s"
proof -
  let ?u = "upd_se p sched_update_priority (upd_se p (\<lambda>se. se\<lparr>se_next := 0, se_prev := 0\<rparr>)
      (upd_proc p (\<lambda>x. x\<lparr>state := RUNNABLE, waiting_channel := 0\<rparr>) s))"
  have e: "sched_wakeup p s = sched_enqueue p ?u" using assms(2) by (simp add: sched_wakeup_def Let_def)
  have pu: "procs ?u = (procs s)(p := (procs s p)\<lparr>state := RUNNABLE, waiting_channel := 0,
      sched := sched_update_priority ((se_of s p)\<lparr>se_next := 0, se_prev := 0\<rparr>)\<rparr>)"
    by (simp add: upd_se_procs)
  have hu: "sched_holds ?u qs"
    by (rule not_queued_frame [OF assms(1,3) pu]) (use assms(3) in simp_all)
  have nq: "\<not> in_runqueue (se_of ?u p)" using assms(3) pu by simp
  then show "\<exists>qs'. sched_holds (sched_wakeup p s) qs'" unfolding e using rqs.enq_law [OF hu _ assms(4)] by blast
  show "state (procs (sched_wakeup p s) x) = (if x = p then RUNNABLE else state (procs s x))"
    "waiting_channel (procs (sched_wakeup p s) x) = (if x = p then 0 else waiting_channel (procs s x))"
    "in_runqueue (se_of (sched_wakeup p s) x) = (x = p \<or> in_runqueue (se_of s x))"
    unfolding e by (auto simp: sched_enqueue_def Let_def upd_se_procs)
  show "processes (sched_wakeup p s) = processes s" "running_process (sched_wakeup p s) = running_process s"
    "locks (sched_wakeup p s) = locks s" "spinlocks_enabled (sched_wakeup p s) = spinlocks_enabled s"
    "cpuid (sched_wakeup p s) = cpuid s"
    unfolding e by (auto simp: sched_enqueue_def Let_def upd_se_def upd_proc_def upd_rq_def)
qed

definition waits_on :: "u64 \<Rightarrow> kernel \<Rightarrow> u64 \<Rightarrow> bool" where
  "waits_on chan s p \<longleftrightarrow> state (procs s p) = SLEEPING \<and> waiting_channel (procs s p) = chan"

text \<open>What waking the waiters of a channel among the processes \<open>ps\<close> leaves behind.\<close>

definition woken :: "u64 \<Rightarrow> u64 set \<Rightarrow> kernel \<Rightarrow> kernel \<Rightarrow> bool" where
  "woken chan ps s s' \<longleftrightarrow> (\<exists>qs. sched_holds s' qs) \<and>
     (\<forall>p. state (procs s' p) = (if p \<in> ps \<and> waits_on chan s p then RUNNABLE else state (procs s p))) \<and>
     (\<forall>p. in_runqueue (se_of s' p) = (in_runqueue (se_of s p) \<or> p \<in> ps \<and> waits_on chan s p)) \<and>
     (\<forall>p. waiting_channel (procs s' p) = (if p \<in> ps \<and> waits_on chan s p then 0 else waiting_channel (procs s p))) \<and>
     processes s' = processes s \<and> running_process s' = running_process s \<and> spinlocks_enabled s' = spinlocks_enabled s \<and>
     (\<forall>p. lock_free s p \<longrightarrow> lock_free s' p)"

definition wakeable :: "kernel \<Rightarrow> bool" where
  "wakeable s \<longleftrightarrow> spinlocks_enabled s \<and> (\<exists>qs. sched_holds s qs) \<and> (\<forall>p. state (procs s p) = SLEEPING \<longrightarrow> \<not> in_runqueue (se_of s p)) \<and>
     (\<forall>i. processes s i \<noteq> 0 \<longrightarrow> processes s i \<noteq> running_process s \<longrightarrow> lock_free s (processes s i))"

lemma woken_refl: "wakeable s \<Longrightarrow> woken chan {} s s"
  by (simp add: woken_def wakeable_def)

lemma woken_trans:
  assumes "woken chan A s s'" "woken chan B s' s''"
  shows "woken chan (A \<union> B) s s''"
  using assms by (auto simp: woken_def waits_on_def)

lemma woken_wakeable: "wakeable s \<Longrightarrow> woken chan A s s' \<Longrightarrow> wakeable s'"
  by (auto simp: wakeable_def woken_def)

lemma wakeup_slot:
  assumes "wakeable s" "processes s i = p" "p \<noteq> 0" "p \<noteq> running_process s"
  shows "\<exists>s'. kbind (condvar_lock (proc_lock p) s) (\<lambda>s1.
        let hit = (state (procs s1 p) = SLEEPING \<and> waiting_channel (procs s1 p) = chan);
            s2 = (if hit then sched_wakeup p s1 else s1)
        in kbind (Some (condvar_unlock (proc_lock p) s2)) (\<lambda>s3. f hit s3)) = f (waits_on chan s p) s' \<and> woken chan {p} s s'"
proof -
  have en: "spinlocks_enabled s" and free: "lock_free s p" using assms by (auto simp: wakeable_def)
  obtain c where l: "condvar_lock (proc_lock p) s =
      Some (Ok (s\<lparr>locks := (locks s)(proc_lock p := \<lparr>locked = 1, holding_cpu = cpuid s\<rparr>), cpu := c\<rparr>))"
    using condvar_lock_free [OF free] en by auto
  define s1 where "s1 = s\<lparr>locks := (locks s)(proc_lock p := \<lparr>locked = 1, holding_cpu = cpuid s\<rparr>), cpu := c\<rparr>"
  define s2 where "s2 = (if waits_on chan s p then sched_wakeup p s1 else s1)"
  have e1: "procs s1 = procs s" "rq s1 = rq s" "processes s1 = processes s" "running_process s1 = running_process s"
    "spinlocks_enabled s1 = spinlocks_enabled s" "cpuid s1 = cpuid s" by (simp_all add: s1_def)
  have w1: "waits_on chan s1 p = waits_on chan s p" by (simp add: waits_on_def e1)
  have l1: "locks s1 = (locks s)(proc_lock p := \<lparr>locked = 1, holding_cpu = cpuid s\<rparr>)" by (simp add: s1_def)
  obtain qs where qs: "sched_holds s qs" using assms(1) by (auto simp: wakeable_def)
  have h1: "sched_holds s1 qs" by (rule queue_fields_frame [OF qs]) (simp_all add: e1)
  have nq: "state (procs s1 p) = SLEEPING" "\<not> in_runqueue (se_of s1 p)" if "waits_on chan s p"
    using that assms(1) by (auto simp: waits_on_def wakeable_def e1)
  note w = sched_wakeup_effect [OF h1 nq assms(3)]
  have e2: "locks s2 = locks s1" "spinlocks_enabled s2 = spinlocks_enabled s" "cpuid s2 = cpuid s"
    "processes s2 = processes s" "running_process s2 = running_process s"
    using w(5-9) e1 by (simp_all add: s2_def)
  have p2: "state (procs s2 x) = (if x = p \<and> waits_on chan s p then RUNNABLE else state (procs s x))"
    "waiting_channel (procs s2 x) = (if x = p \<and> waits_on chan s p then 0 else waiting_channel (procs s x))"
    "in_runqueue (se_of s2 x) = (x = p \<and> waits_on chan s p \<or> in_runqueue (se_of s x))" for x
    using w(2-4) e1 by (simp_all add: s2_def)
  obtain q2 where h2: "sched_holds s2 q2" using w(1) h1 by (cases "waits_on chan s p") (auto simp: s2_def)
  have m: "lock_mine s2 p" using e2 l1 by (simp add: lock_mine_def)
  obtain d where u: "condvar_unlock (proc_lock p) s2 = Ok (s2\<lparr>locks := (locks s2)(proc_lock p := \<lparr>locked = 0, holding_cpu = 0\<rparr>), cpu := d\<rparr>)"
    using condvar_unlock_mine [OF m] e2(2) en by auto
  define s3 where "s3 = s2\<lparr>locks := (locks s2)(proc_lock p := \<lparr>locked = 0, holding_cpu = 0\<rparr>), cpu := d\<rparr>"
  have h3: "sched_holds s3 q2" by (rule queue_fields_frame [OF h2]) (simp_all add: s3_def)
  have e3: "procs s3 = procs s2" "processes s3 = processes s" "running_process s3 = running_process s"
    "spinlocks_enabled s3 = spinlocks_enabled s" "locks s3 = (locks s)(proc_lock p := \<lparr>locked = 0, holding_cpu = 0\<rparr>)"
    using e2 l1 by (simp_all add: s3_def)
  have "woken chan {p} s s3"
    unfolding woken_def using h3 p2 e3 by (auto simp: lock_free_def)
  moreover have "kbind (condvar_lock (proc_lock p) s) (\<lambda>s1.
        let hit = (state (procs s1 p) = SLEEPING \<and> waiting_channel (procs s1 p) = chan);
            s2 = (if hit then sched_wakeup p s1 else s1)
        in kbind (Some (condvar_unlock (proc_lock p) s2)) (\<lambda>s3. f hit s3)) = f (waits_on chan s p) s3"
    unfolding l [folded s1_def] kbind_simps Let_def waits_on_def [symmetric] w1 s2_def [symmetric] u [folded s3_def] ..
  ultimately show ?thesis by blast
qed

lemma slots_Suc: "(\<exists>j. i \<le> j \<and> j < i + Suc k \<and> P j) \<longleftrightarrow> P i \<or> (\<exists>j. Suc i \<le> j \<and> j < Suc i + k \<and> P j)"
proof
  assume "\<exists>j. i \<le> j \<and> j < i + Suc k \<and> P j"
  then obtain j where "i \<le> j" "j < i + Suc k" "P j" by blast
  then show "P i \<or> (\<exists>j. Suc i \<le> j \<and> j < Suc i + k \<and> P j)" by (cases "j = i") auto
next
  assume "P i \<or> (\<exists>j. Suc i \<le> j \<and> j < Suc i + k \<and> P j)"
  then show "\<exists>j. i \<le> j \<and> j < i + Suc k \<and> P j" by (auto intro: exI [of _ i]) (metis Suc_leD add_Suc_right)
qed

lemma wakeup_loop_all:
  assumes "wakeable s"
  shows "\<exists>s'. wakeup_loop chan True i k s = Some (Ok s') \<and>
    woken chan {p. p \<noteq> 0 \<and> p \<noteq> running_process s \<and> (\<exists>j. i \<le> j \<and> j < i + k \<and> processes s j = p)} s s'"
  using assms
proof (induction k arbitrary: i s)
  case 0
  then have "woken chan {} s s" by (rule woken_refl)
  moreover have "{p. p \<noteq> 0 \<and> p \<noteq> running_process s \<and> (\<exists>j. i \<le> j \<and> j < i + 0 \<and> processes s j = p)} = {}" by auto
  ultimately show ?case by (metis wakeup_loop.simps(1))
next
  case (Suc k)
  let ?D = "\<lambda>i k s. {p. p \<noteq> 0 \<and> p \<noteq> running_process s \<and> (\<exists>j. i \<le> j \<and> j < i + k \<and> processes s j = p)}"
  let ?p = "processes s i"
  show ?case
  proof (cases "?p = 0 \<or> running_process s = ?p")
    case True
    then have "?D i (Suc k) s = ?D (Suc i) k s" unfolding slots_Suc by auto
    then show ?thesis using Suc.IH [OF Suc.prems, of "Suc i"] True by auto
  next
    case False
    let ?f = "\<lambda>hit s3. if hit \<and> \<not> True then Some (Ok s3) else wakeup_loop chan True (Suc i) k s3"
    obtain s1 where s1: "wakeup_loop chan True i (Suc k) s = wakeup_loop chan True (Suc i) k s1" "woken chan {?p} s s1"
      using wakeup_slot [OF Suc.prems refl, of i chan ?f] False by auto
    obtain s2 where s2: "wakeup_loop chan True (Suc i) k s1 = Some (Ok s2)" "woken chan (?D (Suc i) k s1) s1 s2"
      using Suc.IH [OF woken_wakeable [OF Suc.prems s1(2)]] by blast
    have eq: "?D (Suc i) k s1 = ?D (Suc i) k s" using s1(2) by (simp add: woken_def)
    have "?D i (Suc k) s = {?p} \<union> ?D (Suc i) k s" using False unfolding slots_Suc by auto
    then show ?thesis using s1(1) s2 woken_trans [OF s1(2) s2(2)] by (simp only: eq) blast
  qed
qed

text \<open>
  C17: \<^verbatim>\<open>condvar_notify_all\<close> returns with every process of the table that slept on the channel
  runnable and queued, and every other process as it was.
\<close>

theorem condvar_notify_all_wakes:
  assumes "table_inv s ps" "wakeable s"
  shows "\<exists>s'. condvar_notify_all chan s = Some (Ok s') \<and> woken chan (set ps - {running_process s}) s s'"
proof -
  note T = table_invD [OF assms(1)]
  have "{p. p \<noteq> 0 \<and> p \<noteq> running_process s \<and> (\<exists>j. 0 \<le> j \<and> j < 0 + MAX_PROCESSES \<and> processes s j = p)} = set ps - {running_process s}"
    using T(1,4,5) by (auto simp: in_set_conv_nth)
  then show ?thesis using wakeup_loop_all [OF assms(2), of chan 0 MAX_PROCESSES]
    by (simp add: condvar_notify_all_def proc_wakeup_def)
qed

text \<open>
  C16: taking an exited process out of the table closes the gap, keeps the order of the others and
  renumbers them.
\<close>

theorem coelesce_processes_correct:
  assumes "table_inv s ps" "i < length ps"
  shows "table_inv (coelesce_processes i (s\<lparr>processes := (processes s)(i := 0)\<rparr>)) (take i ps @ drop (Suc i) ps)"
  using drop_slot_table(1) [OF assms] by (simp add: drop_slot_def)

text \<open>
  \<^verbatim>\<open>orig_i\<close>, by which a process finds its kernel stack, is not unique. After an exit before the
  last slot the next process is created in the slot whose number is the \<^verbatim>\<open>orig_i\<close> of the live
  process that was last.
\<close>

theorem kernel_stack_index_reused:
  assumes "table_inv s ps" "i + 1 < length ps" "orig_i (procs s (last ps)) = of_nat (length ps - 1)"
    "s1 = coelesce_processes i (s\<lparr>processes := (processes s)(i := 0)\<rparr>)" "length ps < MAX_PROCESSES"
  shows "(\<exists>j. processes s1 j = last ps) \<and> orig_i (procs s1 (last ps)) = of_nat (length ps - 1) \<and>
    proc_allocate s1 = kbind (is_valid_process_init (length ps - 1) s1) (\<lambda>(p, s2).
      Some (Ok (p, s2\<lparr>process_count := of_nat (length ps), process_min_index := of_nat (length ps)\<rparr>))) \<and>
    (\<forall>p s2. is_valid_process_init (length ps - 1) s1 = Some (Ok (p, s2)) \<longrightarrow> orig_i (procs s2 p) = of_nat (length ps - 1))"
proof -
  let ?ps = "take i ps @ drop (Suc i) ps"
  have s1: "s1 = drop_slot i s" using assms(4) by (simp add: drop_slot_def)
  have i: "i < length ps" using assms(2) by simp
  note t = drop_slot_table(1) [OF assms(1) i] and T = table_invD [OF drop_slot_table(1) [OF assms(1) i]]
  have len: "length ?ps = length ps - 1" "length ps - 1 + 1 = length ps" using i by simp_all
  have "?ps ! (length ps - 2) = last ps" using assms(2) by (cases ps) (auto simp: nth_append last_conv_nth min_def)
  then have "processes s1 (length ps - 2) = last ps" using T(4) [of "length ps - 2"] len(1) assms(2) unfolding s1 by auto
  moreover have "proc_allocate s1 = kbind (is_valid_process_init (length ps - 1) s1) (\<lambda>(p, s2).
      Some (Ok (p, s2\<lparr>process_count := of_nat (length ps), process_min_index := of_nat (length ps)\<rparr>)))"
    using proc_allocate_table [OF t, folded s1, unfolded len] assms(5) i by auto
  moreover have z: "processes s1 (length ps - 1) = 0" using T(4) [of "length ps - 1"] len(1) unfolding s1 by simp
  ultimately show ?thesis using drop_slot_table(2) [OF assms(1) i] assms(3) is_valid_fresh(4) [OF z] s1 by auto
qed

section \<open>The program break\<close>

text \<open>
  The guard of a shrinking \<^verbatim>\<open>sbrk\<close> is the wrong way round. A request that stays above the
  initial data segment always gives up the whole heap, whatever its amount; one that reaches below
  it is carried out as it stands.
\<close>

theorem proc_sbrk_shrink:
  assumes "p = running_process s" "brk = current_sbrk (procs s p)" "ini = initial_data_segment (procs s p)" "sint how_much < 0"
  shows "proc_sbrk how_much s =
    kbind (vmm_user_sbrk_deallocate (pagetable (procs s p)) brk
        (if ini \<le> brk + how_much then brk - ini else - how_much) (km (vm s)))
      (\<lambda>(b, k). Some (Ok (brk, upd_proc p (\<lambda>x. x\<lparr>current_sbrk := b\<rparr>) (s\<lparr>vm := (vm s)\<lparr>km := k\<rparr>\<rparr>))))"
  using assms by (simp add: proc_sbrk_def Let_def)

section \<open>Witnesses\<close>

lemma three_procs_table: "table_inv three_procs [0x10000, 0x11000, 0x12000]"
  by (auto simp: table_inv_def three_procs_def some_proc_def zero_process_def MAX_PROCESSES_def fun_eq_iff nth_Cons' less_Suc_eq)

lemma three_procs_orig: "orig_i (procs three_procs 0x12000) = 2"
  by (simp add: three_procs_def some_proc_def)

text \<open>The first process asleep on the channel \<open>0x9000\<close>.\<close>

definition one_asleep :: kernel where
  "one_asleep = upd_proc 0x10000 (\<lambda>x. x\<lparr>state := SLEEPING, waiting_channel := 0x9000\<rparr>) three_procs"

lemma three_procs_fields:
  "\<not> in_runqueue (se_of three_procs x)" "locks three_procs = (\<lambda>_. \<lparr>locked = 0, holding_cpu = 0\<rparr>)" "spinlocks_enabled three_procs"
  "running_process three_procs = 0" "processes three_procs = (\<lambda>_. 0)(0 := 0x10000, 1 := 0x11000, 2 := 0x12000)"
  by (simp_all add: three_procs_def some_proc_def zero_process_def zero_entity_def)

lemma one_asleep_holds: "sched_holds one_asleep (\<lambda>_. [])"
  by (rule not_queued_frame [OF three_procs_holds three_procs_fields(1), where p = "0x10000" and
        x = "(procs three_procs 0x10000)\<lparr>state := SLEEPING, waiting_channel := 0x9000\<rparr>"])
    (simp_all add: one_asleep_def three_procs_fields(1))

lemma one_asleep_wakeable: "wakeable one_asleep"
  using one_asleep_holds three_procs_fields by (auto simp: wakeable_def lock_free_def one_asleep_def upd_proc_def)

lemma one_asleep_table: "table_inv one_asleep [0x10000, 0x11000, 0x12000]"
  using three_procs_table by (auto simp: table_inv_def one_asleep_def upd_proc_def)

theorem condvar_notify_all_wakes_witness:
  "\<exists>s'. condvar_notify_all 0x9000 one_asleep = Some (Ok s') \<and> state (procs s' 0x10000) = RUNNABLE"
proof -
  obtain s' where "condvar_notify_all 0x9000 one_asleep = Some (Ok s')"
    "woken 0x9000 (set [0x10000, 0x11000, 0x12000] - {running_process one_asleep}) one_asleep s'"
    using condvar_notify_all_wakes [OF one_asleep_table one_asleep_wakeable, of "0x9000"] by blast
  then show ?thesis
    using three_procs_fields(4) by (auto simp: woken_def waits_on_def one_asleep_def upd_proc_def)
qed

theorem coelesce_processes_correct_witness:
  "table_inv (coelesce_processes 0 (three_procs\<lparr>processes := (processes three_procs)(0 := 0)\<rparr>)) [0x11000, 0x12000]"
  using coelesce_processes_correct [OF three_procs_table, of 0] by simp

theorem proc_allocate_slot_witness:
  "proc_allocate three_procs = kbind (is_valid_process_init 3 three_procs) (\<lambda>(p, s1).
     Some (Ok (p, s1\<lparr>process_count := 4, process_min_index := 4\<rparr>)))"
  using proc_allocate_slot [OF three_procs_table] by (simp add: MAX_PROCESSES_def numeral_3_eq_3)

theorem kernel_stack_index_reused_witness:
  "orig_i (procs (coelesce_processes 0 (three_procs\<lparr>processes := (processes three_procs)(0 := 0)\<rparr>)) 0x12000) = 2 \<and>
   proc_allocate (coelesce_processes 0 (three_procs\<lparr>processes := (processes three_procs)(0 := 0)\<rparr>)) =
     kbind (is_valid_process_init 2 (coelesce_processes 0 (three_procs\<lparr>processes := (processes three_procs)(0 := 0)\<rparr>)))
       (\<lambda>(p, s2). Some (Ok (p, s2\<lparr>process_count := 3, process_min_index := 3\<rparr>)))"
  using kernel_stack_index_reused [OF three_procs_table, of 0, OF _ _ refl] three_procs_orig by (simp add: numeral_2_eq_2 MAX_PROCESSES_def)

text \<open>A heap of 16 bytes above the data segment, of which 4 are given back: all 16 go.\<close>

definition small_heap :: kernel where
  "small_heap = three_procs\<lparr>running_process := 0x10000,
     procs := (procs three_procs)(0x10000 := (some_proc 0 3 7)\<lparr>initial_data_segment := 0x500000, current_sbrk := 0x500010\<rparr>)\<rparr>"

theorem proc_sbrk_shrink_witness:
  "proc_sbrk (- 4) small_heap = kbind (vmm_user_sbrk_deallocate 0 0x500010 16 (km (vm small_heap)))
     (\<lambda>(b, k). Some (Ok (0x500010, upd_proc 0x10000 (\<lambda>x. x\<lparr>current_sbrk := b\<rparr>) (small_heap\<lparr>vm := (vm small_heap)\<lparr>km := k\<rparr>\<rparr>))))"
proof -
  have f: "running_process small_heap = 0x10000" "current_sbrk (procs small_heap 0x10000) = 0x500010"
    "initial_data_segment (procs small_heap 0x10000) = 0x500000" "pagetable (procs small_heap 0x10000) = 0"
    by (simp_all add: small_heap_def some_proc_def zero_process_def)
  show ?thesis
    using proc_sbrk_shrink [OF f(1,2,3) [symmetric], of "- 4"] by (simp add: f(4))
qed

end
