(* ===== verification/Dzfs.thy ===== *)
theory Dzfs
  imports Memory
begin

text \<open>
  \<^verbatim>\<open>kernel/src/fs/dzfs.c\<close>: the on-disk file system. A block is its bytes at the addresses 0 to
  4095; the members of \<^verbatim>\<open>union dzFSBlock\<close> are read and written at their offsets:
  superblock: magic 0, version 4, blocks 8;
  header: type 0, name 1 to 255, creation_date 256;
  file: size 264, indirect_block 268, direct_blocks 272;
  folder: parent 264, content_dnodes 268.
  The block device is the record of function pointers the file system is given; its state has a
  type of its own, so the definitions hold for every device. A C string is the list of its bytes
  without the terminating 0.
\<close>

section \<open>Blocks and devices\<close>

type_synonym block = memory

text \<open>
  \<open>read_block\<close> gives \<open>None\<close> and \<open>write_block\<close> gives \<open>False\<close> where the C function returns 1.
\<close>

record 'd device =
  read_block :: "u32 \<Rightarrow> 'd \<Rightarrow> block option"
  write_block :: "u32 \<Rightarrow> block \<Rightarrow> 'd \<Rightarrow> bool \<times> 'd"
  total_blocks :: u32
  current_date :: u64

record dzFS =
  sb_version :: u32
  sb_blocks :: u32
  free_bitmap_blocks :: u32
  root_dnode :: u32

record dzFSStat =
  st_type :: u8
  st_name :: "u8 list"
  st_creation_date :: u64
  st_size :: u32
  st_parent :: u32
  st_dnode :: u32

definition DZFS_BLOCK_SIZE :: nat where "DZFS_BLOCK_SIZE = 4096"
definition DZFS_MAX_FILENAME :: nat where "DZFS_MAX_FILENAME = 254"
definition DZFS_DIRECT_BLOCKS :: nat where "DZFS_DIRECT_BLOCKS = 956"
definition DZFS_MAX_DIR_CONTENTS :: nat where "DZFS_MAX_DIR_CONTENTS = 957"
definition DZFS_INDIRECT_BLOCK_COUNT :: nat where "DZFS_INDIRECT_BLOCK_COUNT = 1024"
definition DZFS_MAX_FILESIZE :: nat where "DZFS_MAX_FILESIZE = 8110080"
definition DZFS_BITSET_COVERED_BLOCKS :: u32 where "DZFS_BITSET_COVERED_BLOCKS = 32768"
definition DZFS_ENTITY_FILE :: u8 where "DZFS_ENTITY_FILE = 1"
definition DZFS_ENTITY_FOLDER :: u8 where "DZFS_ENTITY_FOLDER = 2"
definition SUPERBLOCK_DNODE :: u32 where "SUPERBLOCK_DNODE = 1"
definition DZFS_VERSION :: u32 where "DZFS_VERSION = 1"
definition DZFS_MAGIC :: u32 where "DZFS_MAGIC = 0x53467A64"

definition DZFS_OK :: int where "DZFS_OK = 0"
definition DZFS_ERR_ARGUMENT :: int where "DZFS_ERR_ARGUMENT = -1"
definition DZFS_ERR_INIT_INVALID_FS :: int where "DZFS_ERR_INIT_INVALID_FS = -2"
definition DZFS_ERR_LIMIT :: int where "DZFS_ERR_LIMIT = -3"
definition DZFS_ERR_NOT_FOUND :: int where "DZFS_ERR_NOT_FOUND = -4"
definition DZFS_ERR_FULL :: int where "DZFS_ERR_FULL = -5"
definition DZFS_ERR_NOT_EMPTY :: int where "DZFS_ERR_NOT_EMPTY = -6"
definition DZFS_ERR_TOO_SMALL :: int where "DZFS_ERR_TOO_SMALL = -7"
definition DZFS_ERR_IO :: int where "DZFS_ERR_IO = -8"

definition zero_block :: block where
  "zero_block = (\<lambda>_. 0)"

abbreviation blk_type :: "block \<Rightarrow> u8" where "blk_type b \<equiv> b 0"
abbreviation blk_date :: "block \<Rightarrow> u64" where "blk_date b \<equiv> load64 b 256"
abbreviation file_size :: "block \<Rightarrow> u32" where "file_size b \<equiv> load32 b 264"
abbreviation file_indirect :: "block \<Rightarrow> u32" where "file_indirect b \<equiv> load32 b 268"
abbreviation folder_parent :: "block \<Rightarrow> u32" where "folder_parent b \<equiv> load32 b 264"

definition direct_slot :: "nat \<Rightarrow> u64" where "direct_slot i = 272 + 4 * of_nat i"
definition indirect_slot :: "nat \<Rightarrow> u64" where "indirect_slot i = 4 * of_nat i"
definition content_slot :: "int \<Rightarrow> u64" where "content_slot i = 268 + 4 * of_int i"

definition folder_content :: "block \<Rightarrow> nat \<Rightarrow> u32" where
  "folder_content b i = load32 b (content_slot (int i))"

text \<open>The bytes of a string and its terminator at an offset of a block.\<close>

definition put_bytes :: "block \<Rightarrow> nat \<Rightarrow> u8 list \<Rightarrow> block" where
  "put_bytes b off xs = (\<lambda>a. if off \<le> unat a \<and> unat a < off + length xs then xs ! (unat a - off) else b a)"

definition get_bytes :: "block \<Rightarrow> nat \<Rightarrow> nat \<Rightarrow> u8 list" where
  "get_bytes b off n = map (\<lambda>i. b (of_nat (off + i))) [0..<n]"

definition blk_name :: "block \<Rightarrow> u8 list" where
  "blk_name b = takeWhile (\<lambda>c. c \<noteq> 0) (get_bytes b 1 (DZFS_BLOCK_SIZE - 1))"

section \<open>Paths and bitmaps\<close>

definition path_next_part_len :: "u8 list \<Rightarrow> nat" where
  "path_next_part_len str = length (takeWhile (\<lambda>c. c \<noteq> 47) str)"

definition path_last_part :: "u8 list \<Rightarrow> bool" where
  "path_last_part str = (let n = path_next_part_len str in n = length str \<or> n + 1 = length str)"

definition string_prefix :: "u8 list \<Rightarrow> u8 list \<Rightarrow> bool" where
  "string_prefix str pre \<longleftrightarrow> take (length pre) str = pre"

definition bitmap_set :: "block \<Rightarrow> u32 \<Rightarrow> block" where
  "bitmap_set b index =
     (let c = unat index div 8; k = unat index mod 8 in
      if c \<ge> DZFS_BLOCK_SIZE then b else b(of_nat c := b (of_nat c) OR push_bit k 1))"

definition bitmap_clear :: "block \<Rightarrow> u32 \<Rightarrow> block" where
  "bitmap_clear b index =
     (let c = unat index div 8; k = unat index mod 8 in
      if c \<ge> DZFS_BLOCK_SIZE then b else b(of_nat c := b (of_nat c) AND NOT (push_bit k 1)))"

text \<open>The number of the lowest bit that is set (\<^verbatim>\<open>__builtin_ctz\<close> of a byte that is not 0).\<close>

definition ctz :: "u8 \<Rightarrow> nat" where
  "ctz x = length (takeWhile (\<lambda>k. \<not> bit x k) [0..<8])"

definition first_nonzero :: "block \<Rightarrow> nat option" where
  "first_nonzero b =
     (case filter (\<lambda>i. b (of_nat i) \<noteq> 0) [0..<DZFS_BLOCK_SIZE] of [] \<Rightarrow> None | i # _ \<Rightarrow> Some i)"

primrec alloc_scan :: "'d device \<Rightarrow> nat \<Rightarrow> nat \<Rightarrow> 'd \<Rightarrow> u32" where
  "alloc_scan dev fb 0 d = 0"
| "alloc_scan dev fb (Suc k) d =
     (case read_block dev (of_nat fb + 1 + 1) d of
        None \<Rightarrow> 0
      | Some b \<Rightarrow>
          let a = (case first_nonzero b of
                     None \<Rightarrow> 0
                   | Some i \<Rightarrow> of_nat fb * DZFS_BITSET_COVERED_BLOCKS + of_nat i * 8 + of_nat (ctz (b (of_nat i))))
          in if a \<noteq> 0 then a else alloc_scan dev (Suc fb) k d)"

definition bitmap_of :: "u32 \<Rightarrow> u32" where
  "bitmap_of dnode = dnode div 8 div 4096 + 1 + 1"

definition block_alloc :: "'d device \<Rightarrow> dzFS \<Rightarrow> 'd \<Rightarrow> u32 \<times> 'd" where
  "block_alloc dev fs d =
     (let a = alloc_scan dev 0 (unat (free_bitmap_blocks fs)) d in
      if a = 0 then (0, d)
      else case read_block dev (bitmap_of a) d of
             None \<Rightarrow> (0, d)
           | Some b \<Rightarrow>
               let (ok, d1) = write_block dev (bitmap_of a) (bitmap_clear b (a mod DZFS_BITSET_COVERED_BLOCKS)) d
               in if ok then (a, d1) else (0, d1))"

text \<open>The block a pointer names, allocated if it is 0; the result is also the new pointer.\<close>

definition get_or_allocate_block :: "'d device \<Rightarrow> dzFS \<Rightarrow> u32 \<Rightarrow> 'd \<Rightarrow> u32 \<times> 'd" where
  "get_or_allocate_block dev fs from d = (if from = 0 then block_alloc dev fs d else (from, d))"

definition block_free :: "'d device \<Rightarrow> u32 \<Rightarrow> 'd \<Rightarrow> 'd" where
  "block_free dev dnode d =
     (case read_block dev (bitmap_of dnode) d of
        None \<Rightarrow> d
      | Some b \<Rightarrow> snd (write_block dev (bitmap_of dnode) (bitmap_set b (dnode mod DZFS_BITSET_COVERED_BLOCKS)) d))"

section \<open>Folders\<close>

definition name_matches :: "block \<Rightarrow> u8 list \<Rightarrow> bool" where
  "name_matches b name \<longleftrightarrow> get_bytes b 1 (length name) = name \<and> b (of_nat (1 + length name)) = 0"

primrec lookup_loop :: "'d device \<Rightarrow> block \<Rightarrow> u8 list \<Rightarrow> nat list \<Rightarrow> 'd \<Rightarrow> u32 option" where
  "lookup_loop dev dir name [] d = Some 0"
| "lookup_loop dev dir name (i # is) d =
     (if folder_content dir i = 0 then Some 0
      else case read_block dev (folder_content dir i) d of
             None \<Rightarrow> None
           | Some b \<Rightarrow> if name_matches b name then Some (folder_content dir i) else lookup_loop dev dir name is d)"

definition folder_lookup_name :: "'d device \<Rightarrow> block \<Rightarrow> u8 list \<Rightarrow> 'd \<Rightarrow> u32" where
  "folder_lookup_name dev dir name d =
     (case lookup_loop dev dir name [0..<DZFS_MAX_DIR_CONTENTS] d of None \<Rightarrow> 0 | Some r \<Rightarrow> r)"

definition folder_content_count :: "block \<Rightarrow> nat" where
  "folder_content_count dir = length (takeWhile (\<lambda>i. folder_content dir i \<noteq> 0) [0..<DZFS_MAX_DIR_CONTENTS])"

definition content_index :: "block \<Rightarrow> u32 \<Rightarrow> nat option" where
  "content_index dir t =
     (case filter (\<lambda>i. folder_content dir i = t) [0..<DZFS_MAX_DIR_CONTENTS] of [] \<Rightarrow> None | i # _ \<Rightarrow> Some i)"

text \<open>\<open>None\<close> where the C function returns 1.\<close>

definition folder_remove_content :: "block \<Rightarrow> u32 \<Rightarrow> block option" where
  "folder_remove_content dir target_dnode =
     (case content_index dir target_dnode of
        None \<Rightarrow> None
      | Some i \<Rightarrow>
          let last_index = int (folder_content_count dir) - 1 in
          if last_index = 0 then Some (store32 dir (content_slot 0) 0)
          else if last_index = int i then Some (store32 dir (content_slot last_index) 0)
          else Some (store32 (store32 dir (content_slot (int i)) (load32 dir (content_slot last_index)))
                       (content_slot last_index) 0))"

text \<open>
  \<^verbatim>\<open>popcount\<close> has two bodies: the build defines no \<^verbatim>\<open>__DZOS__\<close>, so the compiler's bit count is used;
  \<open>popcount_loop\<close> is the other, a loop that clears the lowest bit that is set.
\<close>

lemma clear_lowest_less: "unat (a AND (a - 1)) < unat a" if "a \<noteq> (0 :: u32)"
proof -
  have "unat (a AND (a - 1)) \<le> unat (a - 1)"
    by (simp add: word_le_nat_alt [symmetric] word_and_le1)
  also have "\<dots> < unat a"
    using that by (simp add: unat_minus_one unat_gt_0)
  finally show ?thesis .
qed

function popcount_loop :: "u32 \<Rightarrow> u32 \<Rightarrow> u32" where
  "popcount_loop c a = (if a = 0 then c else popcount_loop (c + 1) (a AND (a - 1)))"
  by auto
termination
  by (relation "measure (\<lambda>(c, a). unat a)") (auto simp: clear_lowest_less)

declare popcount_loop.simps [simp del]

definition popcount :: "u32 \<Rightarrow> u32" where
  "popcount a = of_nat (length (filter (bit a) [0..<32]))"

section \<open>Making and opening a file system\<close>

primrec write_blocks :: "'d device \<Rightarrow> block \<Rightarrow> u32 list \<Rightarrow> 'd \<Rightarrow> bool \<times> 'd" where
  "write_blocks dev b [] d = (True, d)"
| "write_blocks dev b (i # is) d =
     (let (ok, d1) = write_block dev i b d in if ok then write_blocks dev b is d1 else (False, d1))"

definition superblock_block :: "u32 \<Rightarrow> block" where
  "superblock_block n = store32 (store32 (store32 zero_block 0 DZFS_MAGIC) 4 DZFS_VERSION) 8 n"

definition folder_block :: "u8 list \<Rightarrow> u64 \<Rightarrow> u32 \<Rightarrow> block" where
  "folder_block name date parent = store32 (store64 (put_bytes (zero_block(0 := DZFS_ENTITY_FOLDER)) 1 name) 256 date) 264 parent"

definition full_bitmap :: block where
  "full_bitmap = (\<lambda>a. if unat a < DZFS_BLOCK_SIZE then 255 else 0)"

definition first_bitmap :: "u32 \<Rightarrow> block" where
  "first_bitmap fbb = fold (\<lambda>i b. bitmap_clear b (of_nat i)) [0..<unat (fbb + 3)] full_bitmap"

definition last_bitmap :: "u32 \<Rightarrow> u32 \<Rightarrow> block" where
  "last_bitmap n fbb =
     fold (\<lambda>i b. bitmap_clear b (of_nat i)) (rev [unat n..<Suc (unat (DZFS_BITSET_COVERED_BLOCKS * fbb - 1))])
       (if fbb \<noteq> 1 then full_bitmap else first_bitmap fbb)"

definition dzfs_new :: "'d device \<Rightarrow> dzFS \<Rightarrow> 'd \<Rightarrow> int \<times> dzFS \<times> 'd" where
  "dzfs_new dev fs d =
     (let n = total_blocks dev in
      if n \<le> 4 then (DZFS_ERR_TOO_SMALL, fs, d)
      else
        let fs1 = fs\<lparr>sb_version := DZFS_VERSION, sb_blocks := n\<rparr>;
            (ok, d1) = write_block dev SUPERBLOCK_DNODE (superblock_block n) d in
        if \<not> ok then (DZFS_ERR_IO, fs1, d1)
        else
          let fbb = (n + DZFS_BITSET_COVERED_BLOCKS - 1) div DZFS_BITSET_COVERED_BLOCKS;
              fs2 = fs1\<lparr>free_bitmap_blocks := fbb\<rparr> in
          if n \<le> 3 + fbb then (DZFS_ERR_TOO_SMALL, fs2, d1)
          else
            let fs3 = fs2\<lparr>root_dnode := 1 + 1 + fbb\<rparr>;
                (ok2, d2) = write_blocks dev full_bitmap (map (\<lambda>i. 1 + 1 + of_nat i) [1..<unat (fbb - 1)]) d1 in
            if \<not> ok2 then (DZFS_ERR_IO, fs3, d2)
            else
              let (ok3, d3) = write_block dev 2 (first_bitmap fbb) d2 in
              if \<not> ok3 then (DZFS_ERR_IO, fs3, d3)
              else
                let (ok4, d4) = write_block dev (2 + fbb - 1) (last_bitmap n fbb) d3 in
                if \<not> ok4 then (DZFS_ERR_IO, fs3, d4)
                else
                  let (ok5, d5) = write_block dev (root_dnode fs3) (folder_block [47] (current_date dev) (root_dnode fs3)) d4
                  in (if ok5 then DZFS_OK else DZFS_ERR_IO, fs3, d5))"

definition dzfs_init :: "'d device \<Rightarrow> dzFS \<Rightarrow> 'd \<Rightarrow> int \<times> dzFS" where
  "dzfs_init dev fs d =
     (case read_block dev SUPERBLOCK_DNODE d of
        None \<Rightarrow> (DZFS_ERR_IO, fs)
      | Some b \<Rightarrow>
          if load32 b 0 \<noteq> DZFS_MAGIC then (DZFS_ERR_INIT_INVALID_FS, fs)
          else
            let n = load32 b 8; fbb = (n + DZFS_BITSET_COVERED_BLOCKS - 1) div DZFS_BITSET_COVERED_BLOCKS
            in (DZFS_OK, fs\<lparr>sb_version := load32 b 4, sb_blocks := n, free_bitmap_blocks := fbb, root_dnode := 1 + 1 + fbb\<rparr>))"

section \<open>Opening and creating files\<close>

definition DZFS_O_CREATE :: u32 where "DZFS_O_CREATE = 1"
definition DZFS_O_DIR :: u32 where "DZFS_O_DIR = 2"

definition go_up :: "block \<Rightarrow> u32 \<Rightarrow> u32" where
  "go_up b relative_to = (if folder_parent b \<noteq> 0 then folder_parent b else relative_to)"

lemma string_prefix_shorter:
  "string_prefix path pre \<Longrightarrow> pre \<noteq> [] \<Longrightarrow> length (drop (length pre) path) < length path"
  by (cases path; cases pre) (auto simp: string_prefix_def)

text \<open>The leading dots of a path: what is left of it and the folder reached, \<open>None\<close> if a read fails.\<close>

function dots_loop :: "'d device \<Rightarrow> 'd \<Rightarrow> u8 list \<Rightarrow> u32 \<Rightarrow> (u8 list \<times> u32) option" where
  "dots_loop dev d path relative_to =
     (if string_prefix path [46, 47] then dots_loop dev d (drop 2 path) relative_to
      else if string_prefix path [46, 46, 47] then
        (case read_block dev relative_to d of
           None \<Rightarrow> None
         | Some b \<Rightarrow> dots_loop dev d (drop 3 path) (go_up b relative_to))
      else if path = [46, 46] then
        (case read_block dev relative_to d of
           None \<Rightarrow> None
         | Some b \<Rightarrow> Some ([], go_up b relative_to))
      else Some (path, relative_to))"
  by auto
termination
  by (relation "measure (\<lambda>(dev, d, path, r). length path)")
     (auto dest: string_prefix_shorter)

declare dots_loop.simps [simp del]

definition new_dnode :: "u64 \<Rightarrow> u8 list \<Rightarrow> u32 \<Rightarrow> u32 \<Rightarrow> block" where
  "new_dnode date name flags parent =
     (let t = put_bytes (store64 zero_block 256 date) 1 (name @ [0]) in
      if flags AND DZFS_O_DIR \<noteq> 0 then store32 (t(0 := DZFS_ENTITY_FOLDER)) 264 parent
      else t(0 := DZFS_ENTITY_FILE))"

text \<open>
  The result is the return value, the values of \<^verbatim>\<open>*dnode\<close> and \<^verbatim>\<open>*parent_dnode\<close>, and the device.
  Creating an entry writes the parent before the new dnode.
\<close>

definition create_entry ::
  "'d device \<Rightarrow> dzFS \<Rightarrow> u32 \<Rightarrow> u8 list \<Rightarrow> u32 \<Rightarrow> block \<Rightarrow> u32 \<Rightarrow> u32 \<Rightarrow> 'd \<Rightarrow> int \<times> u32 \<times> u32 \<times> 'd" where
  "create_entry dev fs flags name cur cur_block dn pn d =
     (let folder_size = folder_content_count cur_block in
      if folder_size = DZFS_MAX_DIR_CONTENTS then (DZFS_ERR_LIMIT, dn, pn, d)
      else
        let (a, d1) = block_alloc dev fs d in
        if a = 0 then (DZFS_ERR_FULL, a, pn, d1)
        else
          let (ok, d2) = write_block dev cur (store32 cur_block (content_slot (int folder_size)) a) d1 in
          if \<not> ok then (DZFS_ERR_IO, a, cur, d2)
          else
            let (ok2, d3) = write_block dev a (new_dnode (current_date dev) name flags cur) d2
            in (if ok2 then DZFS_OK else DZFS_ERR_IO, a, cur, d3))"

lemma path_rest_shorter:
  "\<not> path_last_part path \<Longrightarrow> length (drop (path_next_part_len path + 1) path) < length path"
  by (cases path) (auto simp: path_last_part_def path_next_part_len_def Let_def)

function traverse ::
  "'d device \<Rightarrow> dzFS \<Rightarrow> u32 \<Rightarrow> u8 list \<Rightarrow> u32 \<Rightarrow> block \<Rightarrow> u32 \<Rightarrow> u32 \<Rightarrow> 'd \<Rightarrow> int \<times> u32 \<times> u32 \<times> 'd" where
  "traverse dev fs flags path cur cur_block dn pn d =
     (let n = path_next_part_len path in
      case lookup_loop dev cur_block (take n path) [0..<DZFS_MAX_DIR_CONTENTS] d of
        None \<Rightarrow> (DZFS_ERR_IO, dn, pn, d)
      | Some r \<Rightarrow>
          if flags AND DZFS_O_CREATE \<noteq> 0 \<and> r = 0 then
            (if path_last_part path then create_entry dev fs flags (take n path) cur cur_block dn pn d
             else (DZFS_ERR_NOT_FOUND, dn, pn, d))
          else if r = 0 then (DZFS_ERR_NOT_FOUND, dn, pn, d)
          else if path_last_part path then (DZFS_OK, r, cur, d)
          else
            case read_block dev r d of
              None \<Rightarrow> (DZFS_ERR_IO, dn, pn, d)
            | Some b \<Rightarrow>
                if blk_type b \<noteq> DZFS_ENTITY_FOLDER then (DZFS_ERR_NOT_FOUND, dn, pn, d)
                else traverse dev fs flags (drop (n + 1) path) r b dn pn d)"
  by auto
termination
  by (relation "measure (\<lambda>(dev, fs, flags, path, cur, b, dn, pn, d). length path)")
     (use path_rest_shorter in auto)

declare traverse.simps [simp del]

text \<open>The part of \<^verbatim>\<open>dzfs_open_relative\<close> after the test for an absolute path.\<close>

definition open_from ::
  "'d device \<Rightarrow> dzFS \<Rightarrow> u8 list \<Rightarrow> u32 \<Rightarrow> u32 \<Rightarrow> u32 \<Rightarrow> u32 \<Rightarrow> 'd \<Rightarrow> int \<times> u32 \<times> u32 \<times> 'd" where
  "open_from dev fs path relative_to dn pn flags d =
     (if relative_to = 0 then (DZFS_ERR_ARGUMENT, dn, pn, d)
      else if read_block dev relative_to d = None then (DZFS_ERR_IO, dn, relative_to, d)
      else
        case dots_loop dev d path relative_to of
          None \<Rightarrow> (DZFS_ERR_IO, dn, relative_to, d)
        | Some (path', rel) \<Rightarrow>
            if path' = [] \<or> path' = [46] then
              (case read_block dev rel d of
                 None \<Rightarrow> (DZFS_ERR_IO, rel, relative_to, d)
               | Some b \<Rightarrow> (DZFS_OK, rel, folder_parent b, d))
            else
              (case read_block dev rel d of
                 None \<Rightarrow> (DZFS_ERR_IO, dn, relative_to, d)
               | Some b \<Rightarrow> traverse dev fs flags path' rel b dn relative_to d))"

function dzfs_open_absolute ::
  "'d device \<Rightarrow> dzFS \<Rightarrow> u8 list \<Rightarrow> u32 \<Rightarrow> u32 \<Rightarrow> u32 \<Rightarrow> 'd \<Rightarrow> int \<times> u32 \<times> u32 \<times> 'd"
  and dzfs_open_relative ::
  "'d device \<Rightarrow> dzFS \<Rightarrow> u8 list \<Rightarrow> u32 \<Rightarrow> u32 \<Rightarrow> u32 \<Rightarrow> u32 \<Rightarrow> 'd \<Rightarrow> int \<times> u32 \<times> u32 \<times> 'd" where
  "dzfs_open_absolute dev fs path dn pn flags d =
     (if path = [] \<or> hd path \<noteq> 47 then (DZFS_ERR_ARGUMENT, dn, pn, d)
      else if path = [47] then (DZFS_OK, root_dnode fs, root_dnode fs, d)
      else dzfs_open_relative dev fs (tl path) (root_dnode fs) dn pn flags d)"
| "dzfs_open_relative dev fs path relative_to dn pn flags d =
     (if path \<noteq> [] \<and> hd path = 47 then dzfs_open_absolute dev fs path dn pn flags d
      else open_from dev fs path relative_to dn pn flags d)"
  by pat_completeness auto
termination
  by (relation "measure (\<lambda>x. case x of
        Inl (dev, fs, path, dn, pn, flags, d) \<Rightarrow> 2 * length path
      | Inr (dev, fs, path, r, dn, pn, flags, d) \<Rightarrow> 2 * length path + 1)")
     (auto simp: neq_Nil_conv)

declare dzfs_open_absolute.simps [simp del] dzfs_open_relative.simps [simp del]

section \<open>Writing and reading files\<close>

text \<open>
  Sizes and offsets are below \<open>2 ^ 64\<close>; the sum of the limit check wraps. The memory blocks are
  the dnode, the data block and the indirect block; \<^verbatim>\<open>allocate_mem_block\<close> gives them filled with
  zeros. \<open>slot_block\<close> is the block the code takes for a block of the file, with the dnode and the
  indirect block it has updated.
\<close>

definition slot_block :: "'d device \<Rightarrow> dzFS \<Rightarrow> block \<Rightarrow> block \<Rightarrow> nat \<Rightarrow> 'd \<Rightarrow> u32 \<times> block \<times> block \<times> 'd" where
  "slot_block dev fs db ib i d =
     (if i \<ge> DZFS_DIRECT_BLOCKS then
        let (ind, d1) = (if file_indirect db = 0 then block_alloc dev fs d else (file_indirect db, d));
            db1 = store32 db 268 ind in
        if ind = 0 then (0, db1, ib, d1)
        else
          let j = i - DZFS_DIRECT_BLOCKS;
              (c, d2) = get_or_allocate_block dev fs (load32 ib (indirect_slot j)) d1
          in (c, db1, store32 ib (indirect_slot j) c, d2)
      else
        let (c, d1) = get_or_allocate_block dev fs (load32 db (direct_slot i)) d
        in (c, store32 db (direct_slot i) c, ib, d1))"

function write_loop ::
  "'d device \<Rightarrow> dzFS \<Rightarrow> block \<Rightarrow> block \<Rightarrow> block \<Rightarrow> u8 list \<Rightarrow> nat \<Rightarrow> 'd \<Rightarrow> int \<times> block \<times> block \<times> 'd" where
  "write_loop dev fs db data_block ib data off d =
     (if data = [] then (DZFS_OK, db, ib, d)
      else
        let (c, db1, ib1, d1) = slot_block dev fs db ib (off div DZFS_BLOCK_SIZE) d;
            raw = off mod DZFS_BLOCK_SIZE in
        if c = 0 then (DZFS_ERR_FULL, db1, ib1, d1)
        else
          case (if off > 0 then read_block dev c d1 else Some data_block) of
            None \<Rightarrow> (DZFS_ERR_IO, db1, ib1, d1)
          | Some old \<Rightarrow>
              let to_copy = min (DZFS_BLOCK_SIZE - raw) (length data);
                  new = put_bytes old raw (take to_copy data);
                  (ok, d2) = write_block dev c new d1 in
              if \<not> ok then (DZFS_ERR_IO, db1, ib1, d2)
              else write_loop dev fs db1 new ib1 (drop to_copy data) (off + to_copy) d2)"
  by auto
termination
  by (relation "measure (\<lambda>(dev, fs, db, b, ib, data, off, d). length data)")
     (auto simp: DZFS_BLOCK_SIZE_def)

declare write_loop.simps [simp del]

text \<open>The indirect block if the file has one, \<open>None\<close> if it cannot be read.\<close>

definition read_indirect :: "'d device \<Rightarrow> block \<Rightarrow> 'd \<Rightarrow> block option" where
  "read_indirect dev db d =
     (if file_indirect db \<noteq> 0 then read_block dev (file_indirect db) d else Some zero_block)"

definition dzfs_write :: "'d device \<Rightarrow> dzFS \<Rightarrow> u32 \<Rightarrow> u8 list \<Rightarrow> nat \<Rightarrow> 'd \<Rightarrow> int \<times> 'd" where
  "dzfs_write dev fs dnode data off d =
     (case read_block dev dnode d of
        None \<Rightarrow> (DZFS_ERR_IO, d)
      | Some db \<Rightarrow>
          if blk_type db \<noteq> DZFS_ENTITY_FILE then (DZFS_ERR_ARGUMENT, d)
          else if (length data + off) mod 2 ^ 64 > DZFS_MAX_FILESIZE then (DZFS_ERR_LIMIT, d)
          else if off > unat (file_size db) then (DZFS_ERR_ARGUMENT, d)
          else
            case read_indirect dev db d of
              None \<Rightarrow> (DZFS_ERR_IO, d)
            | Some ib \<Rightarrow>
                let (r, db1, ib1, d1) = write_loop dev fs db zero_block ib data off d in
                if r \<noteq> DZFS_OK then (r, d1)
                else
                  let (ok, d2) = (if file_indirect db1 \<noteq> 0 then write_block dev (file_indirect db1) ib1 d1
                                  else (True, d1)) in
                  if \<not> ok then (DZFS_ERR_IO, d2)
                  else
                    let (ok2, d3) = write_block dev dnode
                          (store32 db1 264 (file_size db1 + of_nat (length data))) d2
                    in (if ok2 then DZFS_OK else DZFS_ERR_IO, d3))"

definition content_block :: "block \<Rightarrow> block \<Rightarrow> nat \<Rightarrow> u32" where
  "content_block db ib i =
     (if i \<ge> DZFS_DIRECT_BLOCKS then load32 ib (indirect_slot (i - DZFS_DIRECT_BLOCKS))
      else load32 db (direct_slot i))"

text \<open>The bytes put into the buffer, \<open>None\<close> if a read fails.\<close>

function read_loop :: "'d device \<Rightarrow> block \<Rightarrow> block \<Rightarrow> nat \<Rightarrow> nat \<Rightarrow> 'd \<Rightarrow> u8 list option" where
  "read_loop dev db ib to_read off d =
     (if to_read = 0 then Some []
      else
        let raw = off mod DZFS_BLOCK_SIZE;
            to_copy = min (DZFS_BLOCK_SIZE - raw) to_read in
        case read_block dev (content_block db ib (off div DZFS_BLOCK_SIZE)) d of
          None \<Rightarrow> None
        | Some b \<Rightarrow> map_option (append (get_bytes b raw to_copy)) (read_loop dev db ib (to_read - to_copy) (off + to_copy) d))"
  by auto
termination
  by (relation "measure (\<lambda>(dev, db, ib, n, off, d). n)") (auto simp: DZFS_BLOCK_SIZE_def)

declare read_loop.simps [simp del]

text \<open>
  The number of bytes goes through an \<^verbatim>\<open>int\<close>: a value of \<open>2 ^ 31\<close> or more is negative there and
  nothing is read. The result is the return value and, when it is not an error, the bytes.
\<close>

definition int_count :: "nat \<Rightarrow> nat" where
  "int_count n = (let k = n mod 2 ^ 32 in if k < 2 ^ 31 then k else 0)"

definition dzfs_read :: "'d device \<Rightarrow> u32 \<Rightarrow> nat \<Rightarrow> nat \<Rightarrow> 'd \<Rightarrow> int \<times> u8 list" where
  "dzfs_read dev dnode sz off d =
     (case read_block dev dnode d of
        None \<Rightarrow> (DZFS_ERR_IO, [])
      | Some db \<Rightarrow>
          if blk_type db \<noteq> DZFS_ENTITY_FILE then (DZFS_ERR_ARGUMENT, [])
          else
            case read_indirect dev db d of
              None \<Rightarrow> (DZFS_ERR_IO, [])
            | Some ib \<Rightarrow>
                if off \<ge> unat (file_size db) then (0, [])
                else
                  case read_loop dev db ib (int_count (min (unat (file_size db) - off) sz)) off d of
                    None \<Rightarrow> (DZFS_ERR_IO, [])
                  | Some xs \<Rightarrow> (int (length xs), xs))"

section \<open>Folders, deletion and moving\<close>

definition dzfs_stat :: "'d device \<Rightarrow> u32 \<Rightarrow> dzFSStat \<Rightarrow> 'd \<Rightarrow> int \<times> dzFSStat" where
  "dzfs_stat dev dnode stat d =
     (case read_block dev dnode d of
        None \<Rightarrow> (DZFS_ERR_IO, stat\<lparr>st_dnode := dnode\<rparr>)
      | Some b \<Rightarrow>
          let s = \<lparr>st_type = blk_type b, st_name = get_bytes b 1 (DZFS_MAX_FILENAME + 1),
                   st_creation_date = blk_date b, st_size = 0, st_parent = 0, st_dnode = dnode\<rparr> in
          if blk_type b = DZFS_ENTITY_FILE then (DZFS_OK, s\<lparr>st_size := file_size b\<rparr>)
          else if blk_type b = DZFS_ENTITY_FOLDER then
            (DZFS_OK, s\<lparr>st_parent := folder_parent b, st_size := of_nat (folder_content_count b)\<rparr>)
          else (DZFS_ERR_ARGUMENT, s))"

definition dzfs_read_dir :: "'d device \<Rightarrow> u32 \<Rightarrow> dzFSStat \<Rightarrow> nat \<Rightarrow> 'd \<Rightarrow> int \<times> dzFSStat" where
  "dzfs_read_dir dev dnode stat off d =
     (case read_block dev dnode d of
        None \<Rightarrow> (DZFS_ERR_IO, stat)
      | Some b \<Rightarrow>
          if blk_type b \<noteq> DZFS_ENTITY_FOLDER then (DZFS_ERR_ARGUMENT, stat)
          else if off \<ge> DZFS_MAX_DIR_CONTENTS then (DZFS_ERR_LIMIT, stat)
          else if folder_content b off = 0 then (DZFS_ERR_LIMIT, stat)
          else dzfs_stat dev (folder_content b off) stat d)"

definition file_data_blocks :: "block \<Rightarrow> u32 list" where
  "file_data_blocks db = takeWhile (\<lambda>c. c \<noteq> 0) (map (\<lambda>i. load32 db (direct_slot i)) [0..<DZFS_DIRECT_BLOCKS])"

definition indirect_data_blocks :: "block \<Rightarrow> u32 list" where
  "indirect_data_blocks ib =
     takeWhile (\<lambda>c. c \<noteq> 0) (map (\<lambda>i. load32 ib (indirect_slot i)) [0..<DZFS_INDIRECT_BLOCK_COUNT])"

definition free_all :: "'d device \<Rightarrow> u32 list \<Rightarrow> 'd \<Rightarrow> 'd" where
  "free_all dev bs d = fold (block_free dev) bs d"

text \<open>The \<^verbatim>\<open>switch\<close> on the type of the entity that is deleted.\<close>

definition delete_entity :: "'d device \<Rightarrow> block \<Rightarrow> 'd \<Rightarrow> int \<times> 'd" where
  "delete_entity dev b d =
     (if blk_type b = DZFS_ENTITY_FILE then
        (if file_indirect b \<noteq> 0 then
           case read_block dev (file_indirect b) d of
             None \<Rightarrow> (DZFS_ERR_IO, d)
           | Some ib \<Rightarrow> (DZFS_OK, free_all dev (file_data_blocks b) (free_all dev (indirect_data_blocks ib) d))
         else (DZFS_OK, free_all dev (file_data_blocks b) d))
      else if blk_type b = DZFS_ENTITY_FOLDER then
        (if \<exists>i \<in> {0..<DZFS_MAX_DIR_CONTENTS}. folder_content b i \<noteq> 0 then (DZFS_ERR_NOT_EMPTY, d) else (DZFS_OK, d))
      else (DZFS_ERR_ARGUMENT, d))"

definition dzfs_delete :: "'d device \<Rightarrow> dzFS \<Rightarrow> u32 \<Rightarrow> u32 \<Rightarrow> 'd \<Rightarrow> int \<times> 'd" where
  "dzfs_delete dev fs dnode parent d =
     (if dnode = root_dnode fs then (DZFS_ERR_ARGUMENT, d)
      else
        case read_block dev dnode d of
          None \<Rightarrow> (DZFS_ERR_IO, d)
        | Some b \<Rightarrow>
            let (r, d1) = delete_entity dev b d in
            if r \<noteq> DZFS_OK then (r, d1)
            else
              case read_block dev parent d1 of
                None \<Rightarrow> (DZFS_ERR_IO, d1)
              | Some p \<Rightarrow>
                  if blk_type p \<noteq> DZFS_ENTITY_FOLDER then (DZFS_ERR_ARGUMENT, d1)
                  else
                    case folder_remove_content p dnode of
                      None \<Rightarrow> (DZFS_ERR_ARGUMENT, d1)
                    | Some p' \<Rightarrow>
                        let (ok, d2) = write_block dev parent p' d1 in
                        if ok then (DZFS_OK, block_free dev dnode d2) else (DZFS_ERR_IO, d2))"

text \<open>The end of \<^verbatim>\<open>dzfs_move\<close>: the entry leaves its old folder, and a renamed dnode is written.\<close>

definition leave_folder :: "'d device \<Rightarrow> u32 \<Rightarrow> block \<Rightarrow> u32 \<Rightarrow> bool \<Rightarrow> 'd \<Rightarrow> int \<times> 'd" where
  "leave_folder dev dnode file old_parent renamed d =
     (case read_block dev old_parent d of
        None \<Rightarrow> (DZFS_ERR_IO, d)
      | Some p \<Rightarrow>
          if blk_type p \<noteq> DZFS_ENTITY_FOLDER then (DZFS_ERR_ARGUMENT, d)
          else
            case folder_remove_content p dnode of
              None \<Rightarrow> (DZFS_ERR_ARGUMENT, d)
            | Some p' \<Rightarrow>
                let (ok, d1) = write_block dev old_parent p' d in
                if \<not> ok then (DZFS_ERR_IO, d1)
                else if renamed then
                  let (ok2, d2) = write_block dev dnode file d1 in (if ok2 then DZFS_OK else DZFS_ERR_IO, d2)
                else (DZFS_OK, d1))"

definition enter_folder :: "'d device \<Rightarrow> u32 \<Rightarrow> u32 \<Rightarrow> block \<Rightarrow> 'd \<Rightarrow> int \<times> 'd" where
  "enter_folder dev dnode new_parent p d =
     (let n = folder_content_count p in
      if n = DZFS_MAX_DIR_CONTENTS then (DZFS_ERR_LIMIT, d)
      else
        let (ok, d1) = write_block dev new_parent (store32 p (content_slot (int n)) dnode) d
        in (if ok then DZFS_OK else DZFS_ERR_IO, d1))"

definition replace_target :: "'d device \<Rightarrow> dzFS \<Rightarrow> u32 \<Rightarrow> u32 \<Rightarrow> block \<Rightarrow> 'd \<Rightarrow> int \<times> block \<times> 'd" where
  "replace_target dev fs target new_parent p d =
     (if target = 0 then (DZFS_OK, p, d)
      else
        let (r, d1) = dzfs_delete dev fs target new_parent d in
        if r \<noteq> DZFS_OK then (r, p, d1)
        else case read_block dev new_parent d1 of None \<Rightarrow> (DZFS_ERR_IO, p, d1) | Some p' \<Rightarrow> (DZFS_OK, p', d1))"

definition dzfs_move ::
  "'d device \<Rightarrow> dzFS \<Rightarrow> u32 \<Rightarrow> u32 \<Rightarrow> u32 \<Rightarrow> u8 list option \<Rightarrow> 'd \<Rightarrow> int \<times> 'd" where
  "dzfs_move dev fs dnode old_parent new_parent new_name d =
     (if old_parent = new_parent \<and> new_name = None then (DZFS_OK, d)
      else
        case read_block dev dnode d of
          None \<Rightarrow> (DZFS_ERR_IO, d)
        | Some file \<Rightarrow>
            if old_parent = new_parent \<and> new_name = Some (blk_name file) then (DZFS_OK, d)
            else
              case read_block dev new_parent d of
                None \<Rightarrow> (DZFS_ERR_IO, d)
              | Some p \<Rightarrow>
                  if blk_type p \<noteq> DZFS_ENTITY_FOLDER then (DZFS_ERR_ARGUMENT, d)
                  else if (case new_name of None \<Rightarrow> False | Some name \<Rightarrow> length name > DZFS_MAX_FILENAME)
                  then (DZFS_ERR_LIMIT, d)
                  else
                    let file1 = (case new_name of None \<Rightarrow> file | Some name \<Rightarrow> put_bytes file 1 (name @ [0]));
                        target = folder_lookup_name dev p (blk_name file1) d;
                        (r, p1, d1) = replace_target dev fs target new_parent p d in
                    if r \<noteq> DZFS_OK then (r, d1)
                    else
                      let (r2, d2) = enter_folder dev dnode new_parent p1 d1 in
                      if r2 \<noteq> DZFS_OK then (r2, d2)
                      else leave_folder dev dnode file1 old_parent (new_name \<noteq> None) d2)"

primrec free_blocks_loop :: "'d device \<Rightarrow> nat list \<Rightarrow> u32 \<Rightarrow> 'd \<Rightarrow> u32" where
  "free_blocks_loop dev [] n d = n"
| "free_blocks_loop dev (i # is) n d =
     (case read_block dev (of_nat i + 2) d of
        None \<Rightarrow> free_blocks_loop dev is n d
      | Some b \<Rightarrow> free_blocks_loop dev is (fold (\<lambda>j k. k + popcount (ucast (b (of_nat j)))) [0..<DZFS_BLOCK_SIZE] n) d)"

definition dzfs_free_blocks :: "'d device \<Rightarrow> dzFS \<Rightarrow> 'd \<Rightarrow> u32" where
  "dzfs_free_blocks dev fs d = free_blocks_loop dev [0..<unat (free_bitmap_blocks fs)] 0 d"

end
