(* ===== verification/Fs.thy ===== *)
theory Fs
  imports Dzfs
begin

text \<open>
  \<^verbatim>\<open>kernel/src/fs/fs.c\<close>: the file system of the kernel. The state holds the mounted \<^verbatim>\<open>main_filesystem\<close>,
  the table of inodes in memory and the device. A pointer to the inode in slot \<open>i\<close> of the table is the
  number \<open>i + 1\<close>, and NULL is 0. The inode locks are held for the length of a call only and leave no trace, so they
  are left out. A use of a NULL inode pointer, which C does not define, is a panic here. The contents of a caller's
  buffer are an argument of a write and part of the result of a read.
\<close>

section \<open>The block device\<close>

text \<open>The NVMe driver and the clock, which \<^verbatim>\<open>fs.c\<close> calls, are parameters: sectors from an address on.\<close>

record 'd nvme =
  nvme_block_size :: nat
  nvme_read :: "nat \<Rightarrow> nat \<Rightarrow> 'd \<Rightarrow> u8 list"
  nvme_write :: "nat \<Rightarrow> nat \<Rightarrow> u8 list \<Rightarrow> 'd \<Rightarrow> 'd"
  rtc_now :: u64

definition PARTITION_OFFSET :: nat where "PARTITION_OFFSET = 133120"
definition PARTITION_SIZE :: nat where "PARTITION_SIZE = 204766 - PARTITION_OFFSET"

definition block_sectors :: "'d nvme \<Rightarrow> nat" where
  "block_sectors nv = DZFS_BLOCK_SIZE div nvme_block_size nv"

definition block_lba :: "'d nvme \<Rightarrow> u32 \<Rightarrow> nat" where
  "block_lba nv block_index = PARTITION_OFFSET + unat block_index * block_sectors nv"

definition main_device :: "'d nvme \<Rightarrow> 'd device" where
  "main_device nv =
     \<lparr>read_block = (\<lambda>k d. Some (put_bytes zero_block 0 (nvme_read nv (block_lba nv k) (block_sectors nv) d))),
      write_block = (\<lambda>k b d. (True, nvme_write nv (block_lba nv k) (block_sectors nv) (get_bytes b 0 DZFS_BLOCK_SIZE) d)),
      total_blocks = of_nat (PARTITION_SIZE div DZFS_BLOCK_SIZE),
      current_date = rtc_now nv\<rparr>"

section \<open>Inodes\<close>

datatype inode_type = INODE_EMPTY | INODE_FILE | INODE_DIRECTORY

record fs_inode =
  i_type :: inode_type
  i_dnode :: u32
  i_parent_dnode :: u32
  i_size :: u32
  i_refs :: u32

definition MAX_INODES :: nat where "MAX_INODES = 64"

record 'd fs_state =
  main_filesystem :: dzFS
  inodes :: "fs_inode list"
  disk :: 'd

definition inode_at :: "'d fs_state \<Rightarrow> u64 \<Rightarrow> fs_inode" where
  "inode_at st p = inodes st ! (unat p - 1)"

definition upd_inode :: "nat \<Rightarrow> (fs_inode \<Rightarrow> fs_inode) \<Rightarrow> 'd fs_state \<Rightarrow> 'd fs_state" where
  "upd_inode i f st = st\<lparr>inodes := (inodes st)[i := f (inodes st ! i)]\<rparr>"

definition inode_ptr :: "nat \<Rightarrow> u64" where
  "inode_ptr i = of_nat (i + 1)"

text \<open>The search of \<^verbatim>\<open>fs_open\<close>: the inode of the dnode and the last empty one seen before it.\<close>

fun scan_inodes :: "fs_inode list \<Rightarrow> nat \<Rightarrow> u32 \<Rightarrow> nat option \<Rightarrow> nat option \<times> nat option" where
  "scan_inodes [] i dnode free = (None, free)"
| "scan_inodes (n # ns) i dnode free =
     (if i_type n = INODE_EMPTY then scan_inodes ns (Suc i) dnode (Some i)
      else if i_dnode n = dnode then (Some i, free)
      else scan_inodes ns (Suc i) dnode free)"

definition zero_stat :: dzFSStat where
  "zero_stat = \<lparr>st_type = 0, st_name = [], st_creation_date = 0, st_size = 0, st_parent = 0, st_dnode = 0\<rparr>"

definition fill_inode :: "'d device \<Rightarrow> nat \<Rightarrow> u32 \<Rightarrow> u32 \<Rightarrow> 'd fs_state \<Rightarrow> (u64 \<times> 'd fs_state) outcome" where
  "fill_inode dev i dnode parent st =
     (let (r, stat) = dzfs_stat dev dnode zero_stat (disk st) in
      if r \<noteq> DZFS_OK then Panic ''fs_open stat failed''
      else if st_type stat = DZFS_ENTITY_FILE then
        Ok (inode_ptr i, upd_inode i (\<lambda>_. \<lparr>i_type = INODE_FILE, i_dnode = dnode, i_parent_dnode = parent, i_size = st_size stat, i_refs = 1\<rparr>) st)
      else if st_type stat = DZFS_ENTITY_FOLDER then
        Ok (inode_ptr i, upd_inode i (\<lambda>_. \<lparr>i_type = INODE_DIRECTORY, i_dnode = dnode, i_parent_dnode = parent, i_size = st_size stat, i_refs = 1\<rparr>) st)
      else Panic ''open: invalid dnode type'')"

definition fs_open :: "'d device \<Rightarrow> u8 list \<Rightarrow> u64 \<Rightarrow> u32 \<Rightarrow> 'd fs_state \<Rightarrow> (u64 \<times> 'd fs_state) outcome" where
  "fs_open dev path relative_to flags st =
     (let rel = (if relative_to = 0 then root_dnode (main_filesystem st) else i_dnode (inode_at st relative_to));
          (r, dnode, parent, d1) = dzfs_open_relative dev (main_filesystem st) path rel 0 0 flags (disk st);
          st1 = st\<lparr>disk := d1\<rparr> in
      if r \<noteq> DZFS_OK then Ok (0, st1)
      else
        case scan_inodes (inodes st1) 0 dnode None of
          (Some i, _) \<Rightarrow> Ok (inode_ptr i, upd_inode i (\<lambda>n. n\<lparr>i_refs := i_refs n + 1\<rparr>) st1)
        | (None, Some i) \<Rightarrow> fill_inode dev i dnode parent st1
        | (None, None) \<Rightarrow> Ok (0, st1))"

definition fs_dup :: "u64 \<Rightarrow> 'd fs_state \<Rightarrow> 'd fs_state" where
  "fs_dup p st = upd_inode (unat p - 1) (\<lambda>n. n\<lparr>i_refs := i_refs n + 1\<rparr>) st"

definition drop_ref :: "fs_inode \<Rightarrow> fs_inode" where
  "drop_ref n =
     (if i_refs n - 1 = 0 then \<lparr>i_type = INODE_EMPTY, i_dnode = 0, i_parent_dnode = 0, i_size = 0, i_refs = 0\<rparr>
      else n\<lparr>i_refs := i_refs n - 1\<rparr>)"

definition fs_close :: "u64 \<Rightarrow> 'd fs_state \<Rightarrow> 'd fs_state" where
  "fs_close p st = upd_inode (unat p - 1) drop_ref st"

section \<open>Reading, writing and folders\<close>

text \<open>Sizes and offsets are below \<open>2 ^ 64\<close>; the new size of the inode is cut to 32 bits.\<close>

definition fs_write :: "'d device \<Rightarrow> u64 \<Rightarrow> u8 list \<Rightarrow> nat \<Rightarrow> 'd fs_state \<Rightarrow> int \<times> 'd fs_state" where
  "fs_write dev p buffer off st =
     (let (r, d1) = dzfs_write dev (main_filesystem st) (i_dnode (inode_at st p)) buffer off (disk st);
          st1 = st\<lparr>disk := d1\<rparr> in
      if r \<noteq> DZFS_OK then (-1, st1)
      else
        let stop = (off + length buffer) mod 2 ^ 64;
            st2 = (if stop > unat (i_size (inode_at st p)) then upd_inode (unat p - 1) (\<lambda>n. n\<lparr>i_size := of_nat stop\<rparr>) st1 else st1)
        in (sint (of_nat (length buffer) :: u32), st2))"

definition fs_read :: "'d device \<Rightarrow> u64 \<Rightarrow> nat \<Rightarrow> nat \<Rightarrow> 'd fs_state \<Rightarrow> int \<times> u8 list" where
  "fs_read dev p len off st =
     (let (r, xs) = dzfs_read dev (i_dnode (inode_at st p)) len off (disk st) in (if r < 0 then (-1, xs) else (r, xs)))"

definition fs_rename :: "u8 list \<Rightarrow> u8 list \<Rightarrow> u64 \<Rightarrow> 'd fs_state \<Rightarrow> (int \<times> 'd fs_state) outcome" where
  "fs_rename old_path new_path relative_to st = Panic ''NOT IMPLEMENTED''"

definition fs_delete :: "'d device \<Rightarrow> u8 list \<Rightarrow> u64 \<Rightarrow> 'd fs_state \<Rightarrow> (int \<times> 'd fs_state) outcome" where
  "fs_delete dev path relative_to st =
     (if relative_to = 0 then Panic ''NULL inode''
      else
        let (r, dnode, parent, d1) = dzfs_open_relative dev (main_filesystem st) path (i_dnode (inode_at st relative_to)) 0 0 0 (disk st) in
        if r \<noteq> DZFS_OK then Ok (-1, st\<lparr>disk := d1\<rparr>)
        else
          let (r2, d2) = dzfs_delete dev (main_filesystem st) dnode parent d1
          in Ok (if r2 \<noteq> DZFS_OK then -1 else 0, st\<lparr>disk := d2\<rparr>))"

definition fs_mkdir :: "'d device \<Rightarrow> u8 list \<Rightarrow> u64 \<Rightarrow> 'd fs_state \<Rightarrow> (int \<times> 'd fs_state) outcome" where
  "fs_mkdir dev directory relative_to st =
     (if relative_to = 0 then Panic ''NULL inode''
      else
        let (r, dnode, parent, d1) = dzfs_open_relative dev (main_filesystem st) directory (i_dnode (inode_at st relative_to)) 0 0
               (DZFS_O_CREATE OR DZFS_O_DIR) (disk st)
        in Ok (if r \<noteq> DZFS_OK then -1 else 0, st\<lparr>disk := d1\<rparr>))"

text \<open>
  An entry of the buffer of \<^verbatim>\<open>fs_readdir\<close>: \<^verbatim>\<open>struct dirent\<close> takes 16 bytes with its padding. The entries are
  those written to the buffer, in order; the result is the return value and the entries.
\<close>

record dirent =
  de_creation_date :: u64
  de_size :: u32
  de_type :: u8
  de_name :: "u8 list"

definition DT_DIR :: u8 where "DT_DIR = 1"
definition DT_FILE :: u8 where "DT_FILE = 2"

definition dirent_of :: "dzFSStat \<Rightarrow> dirent outcome" where
  "dirent_of stat =
     (let name = takeWhile (\<lambda>c. c \<noteq> 0) (st_name stat) in
      if st_type stat = DZFS_ENTITY_FILE
      then Ok \<lparr>de_creation_date = st_creation_date stat, de_size = st_size stat, de_type = DT_FILE, de_name = name\<rparr>
      else if st_type stat = DZFS_ENTITY_FOLDER
      then Ok \<lparr>de_creation_date = st_creation_date stat, de_size = st_size stat, de_type = DT_DIR, de_name = name\<rparr>
      else Panic ''fs_readdir: invalid type'')"

lemma read_dir_in_range: "fst (dzfs_read_dir dev dnode stat off d) = DZFS_OK \<Longrightarrow> off < 957"
  by (auto simp: dzfs_read_dir_def DZFS_MAX_DIR_CONTENTS_def DZFS_OK_def DZFS_ERR_IO_def DZFS_ERR_ARGUMENT_def
      DZFS_ERR_LIMIT_def split: option.splits if_splits)

function readdir_loop :: "'d device \<Rightarrow> u32 \<Rightarrow> nat \<Rightarrow> nat \<Rightarrow> dirent list \<Rightarrow> 'd \<Rightarrow> (int \<times> dirent list) outcome" where
  "readdir_loop dev dnode len off es d =
     (let (r, stat) = dzfs_read_dir dev dnode zero_stat off d in
      if r = DZFS_ERR_LIMIT then Ok (int (length es), es)
      else if r \<noteq> DZFS_OK then Ok (-2, es)
      else
        let need = 16 + length (takeWhile (\<lambda>c. c \<noteq> 0) (st_name stat)) in
        if need \<ge> len then Ok (int (length es), es)
        else
          case dirent_of stat of
            Panic e \<Rightarrow> Panic e
          | Ok e \<Rightarrow> readdir_loop dev dnode (len - need) (Suc off) (es @ [e]) d)"
  by auto
termination
proof (relation "measure (\<lambda>(dev, dnode, len, off, es, d). 957 - off)")
  fix dev :: "'d device" and dnode len off es d x r stat need e
  assume "x = dzfs_read_dir dev dnode zero_stat off d" "(r, stat) = x" "\<not> r \<noteq> DZFS_OK"
  then have "off < 957" by (intro read_dir_in_range [of dev dnode zero_stat off d]) (metis fst_conv)
  then show "((dev, dnode, len - need, Suc off, es @ [e], d), dev, dnode, len, off, es, d)
      \<in> measure (\<lambda>(dev, dnode, len, off, es, d). 957 - off)" by simp
qed simp

declare readdir_loop.simps [simp del]

definition fs_readdir :: "'d device \<Rightarrow> u64 \<Rightarrow> nat \<Rightarrow> int \<Rightarrow> 'd fs_state \<Rightarrow> (int \<times> dirent list) outcome" where
  "fs_readdir dev p len off st =
     (if i_type (inode_at st p) \<noteq> INODE_DIRECTORY then Ok (-1, [])
      else readdir_loop dev (i_dnode (inode_at st p)) len (nat (off mod 2 ^ 64)) [] (disk st))"

section \<open>Mounting\<close>

text \<open>The program written to the disk at boot and its path are generated by the build: parameters.\<close>

definition fs_ensure_userspace_prog :: "'d device \<Rightarrow> u8 list \<Rightarrow> u8 list \<Rightarrow> dzFS \<Rightarrow> 'd \<Rightarrow> 'd" where
  "fs_ensure_userspace_prog dev prog path fs d =
     (let (ret, dnode, pnode, d1) = dzfs_open_absolute dev fs path 0 0 DZFS_O_CREATE d
      in snd (dzfs_write dev fs dnode prog 0 d1))"

definition fs_init :: "'d nvme \<Rightarrow> u8 list \<Rightarrow> u8 list \<Rightarrow> 'd fs_state \<Rightarrow> 'd fs_state outcome" where
  "fs_init nv prog path st =
     (let dev = main_device nv in
      if DZFS_BLOCK_SIZE mod nvme_block_size nv \<noteq> 0 then Panic ''fs/nvme indivisible block size''
      else
        let finish = (\<lambda>fs d. Ok (st\<lparr>main_filesystem := fs, disk := fs_ensure_userspace_prog dev prog path fs d\<rparr>));
            (r, fs1) = dzfs_init dev (main_filesystem st) (disk st) in
        if r = DZFS_OK then finish fs1 (disk st)
        else
          let (r2, fs2, d2) = dzfs_new dev fs1 (disk st) in
          if r2 \<noteq> DZFS_OK then Panic ''fs: unable to create filesystem''
          else
            let (r3, fs3) = dzfs_init dev fs2 d2 in
            if r3 \<noteq> DZFS_OK then Panic ''fs: bad filesystem'' else finish fs3 d2)"

end
