(* ===== verification/Kmalloc.thy ===== *)
theory Kmalloc
  imports Phys_Blocks
begin

text \<open>
  \<^verbatim>\<open>kernel/src/mem/kmalloc.c\<close>: the kernel heap over the page allocator. Page headers, allocation
  headers, bitmaps and index stacks are read and written in the byte memory at the offsets the C
  structures give them:
  \<^verbatim>\<open>mixed_page_hdr\<close> (16 bytes): magic 0, used_bytes 4, free_offset 8, pad 12;
  \<^verbatim>\<open>alloc_hdr\<close> (4 bytes): size 0, magic_check 2;
  \<^verbatim>\<open>slab_hdr\<close> (24 bytes): next 0, obj_size 8, capacity 10, free_count 12, class_idx 14, magic 16, top 20;
  \<^verbatim>\<open>arena_hdr\<close> (24 bytes): next 0, magic 8, obj_size 12, capacity 14, used_count 16, pad 18;
  \<^verbatim>\<open>km_large_hdr\<close> (16 bytes): magic 0, pages 4, pad0 8, pad1 12.
  The locks of the heap are left out: every operation holds them from start to end.
\<close>

section \<open>State and arithmetic\<close>

record heap =
  hk :: kmem
  mixed_page_head :: u64
  arena_head :: u64
  km_bins :: "nat \<Rightarrow> u64"

definition KM_ALIGN :: u64 where "KM_ALIGN = 16"
definition KM_MIN_CLASS :: u32 where "KM_MIN_CLASS = 16"
definition KM_MAX_SMALL :: u64 where "KM_MAX_SMALL = 2048"
definition KM_NUM_BINS :: nat where "KM_NUM_BINS = 8"
definition KM_MAGIC_SMALL :: u32 where "KM_MAGIC_SMALL = 0xC0FFEE11"
definition KM_MAGIC_LARGE :: u32 where "KM_MAGIC_LARGE = 0xC0FFEE22"
definition KM_MAGIC_ARENA :: u32 where "KM_MAGIC_ARENA = 0xC0FFEE33"
definition KM_MAGIC_MIXED :: u32 where "KM_MAGIC_MIXED = 0xC0FFEE44"
definition ALLOC_HDR_MAGIC :: u16 where "ALLOC_HDR_MAGIC = 0xBEEF"
definition MIXED_PAGE_START :: u32 where "MIXED_PAGE_START = 16"
definition MIXED_PAGE_MAX_USED :: u32 where "MIXED_PAGE_MAX_USED = 3840"

definition km_align_up :: "u64 \<Rightarrow> u64 \<Rightarrow> u64" where
  "km_align_up n a = (n + (a - 1)) AND NOT (a - 1)"

definition km_next_pow2_u32 :: "u32 \<Rightarrow> u32" where
  "km_next_pow2_u32 x =
     (let x = x - 1; x = x OR drop_bit 1 x; x = x OR drop_bit 2 x; x = x OR drop_bit 4 x;
          x = x OR drop_bit 8 x; x = x OR drop_bit 16 x
      in x + 1)"

definition km_clamp_u32 :: "u32 \<Rightarrow> u32 \<Rightarrow> u32 \<Rightarrow> u32" where
  "km_clamp_u32 v lo hi = (if v < lo then lo else if v > hi then hi else v)"

partial_function (option) class_search :: "u32 \<Rightarrow> nat \<Rightarrow> nat option" where
  "class_search s idx = (if push_bit idx 16 < s then class_search s (Suc idx) else Some idx)"

definition km_size_to_class_idx :: "u64 \<Rightarrow> nat option" where
  "km_size_to_class_idx n =
     (let need = km_clamp_u32 (ucast (km_align_up n KM_ALIGN)) KM_MIN_CLASS (ucast KM_MAX_SMALL)
      in class_search (km_next_pow2_u32 need) 0)"

definition km_class_idx_to_size :: "nat \<Rightarrow> u32" where
  "km_class_idx_to_size idx = push_bit idx 16"

definition page_base :: "u64 \<Rightarrow> u64" where
  "page_base p = p AND NOT (PAGE_SIZE - 1)"

definition upd_mem :: "(memory \<Rightarrow> memory) \<Rightarrow> heap \<Rightarrow> heap" where
  "upd_mem f h = h\<lparr>hk := (hk h)\<lparr>mem := f (mem (hk h))\<rparr>\<rparr>"

abbreviation hmem :: "heap \<Rightarrow> memory" where
  "hmem h \<equiv> mem (hk h)"

section \<open>Mixed pages\<close>

definition km_new_mixed_page :: "heap \<Rightarrow> u64 \<times> heap" where
  "km_new_mixed_page h =
     (let (page, k1) = kalloc (hk h); h1 = h\<lparr>hk := k1\<rparr> in
      if page = 0 then (0, h1)
      else (page, upd_mem (\<lambda>m. store32 (store32 (store32 (store32 m page KM_MAGIC_MIXED)
             (page + 4) MIXED_PAGE_START) (page + 8) MIXED_PAGE_START) (page + 12) 0) h1))"

text \<open>Taking \<open>total_needed\<close> bytes at the free offset of a page.\<close>

definition mixed_bump :: "u64 \<Rightarrow> u64 \<Rightarrow> u64 \<Rightarrow> heap \<Rightarrow> u64 \<times> heap" where
  "mixed_bump page sz total_needed h =
     (let free_offset = load32 (hmem h) (page + 8);
          ahdr = page + ucast free_offset;
          h1 = upd_mem (\<lambda>m. store16 (store16 m ahdr (ucast sz)) (ahdr + 2) ALLOC_HDR_MAGIC) h;
          h2 = upd_mem (\<lambda>m. store32 m (page + 8) (load32 m (page + 8) + ucast total_needed)) h1;
          h3 = upd_mem (\<lambda>m. store32 m (page + 4) (load32 m (page + 4) + ucast total_needed)) h2
      in (ahdr + 4, h3))"

text \<open>
  The search for a page with room: the next page is the one at the next address. \<open>None\<close> is a walk
  that does not end; \<open>Some 0\<close> is the end of the walk without a page.
\<close>

partial_function (option) mixed_search :: "memory \<Rightarrow> u64 \<Rightarrow> u64 \<Rightarrow> u64 option" where
  "mixed_search m total_needed page =
     (if page = 0 then Some 0
      else
        let free_offset = load32 m (page + 8); available = ucast (ucast PAGE_SIZE - free_offset :: u32) in
        if available \<ge> total_needed \<and> free_offset < MIXED_PAGE_MAX_USED then Some page
        else if (page + PAGE_SIZE) AND (PAGE_SIZE - 1) \<noteq> 0 then Some 0
        else mixed_search m total_needed (page + PAGE_SIZE))"

definition km_alloc_from_mixed_page_locked :: "u64 \<Rightarrow> heap \<Rightarrow> (u64 \<times> heap) option" where
  "km_alloc_from_mixed_page_locked sz h =
     (let aligned_size = km_align_up sz KM_ALIGN; total_needed = 4 + aligned_size in
      Option.bind (mixed_search (hmem h) total_needed (mixed_page_head h)) (\<lambda>page.
        if page \<noteq> 0 then Some (mixed_bump page sz total_needed h)
        else
          let (new_page, h1) = km_new_mixed_page h in
          if new_page = 0 then Some (0, h1)
          else Some (mixed_bump new_page sz total_needed (h1\<lparr>mixed_page_head := new_page\<rparr>))))"

definition km_free_from_mixed_page_locked :: "u64 \<Rightarrow> heap \<Rightarrow> heap" where
  "km_free_from_mixed_page_locked p h =
     (let ahdr = p - 4; page = page_base p in
      if load16 (hmem h) (ahdr + 2) \<noteq> ALLOC_HDR_MAGIC then h
      else if load32 (hmem h) page \<noteq> KM_MAGIC_MIXED then h
      else
        let h1 = upd_mem (\<lambda>m. store16 m (ahdr + 2) 0) h;
            freed_size = 4 + km_align_up (ucast (load16 (hmem h1) ahdr)) KM_ALIGN;
            used_bytes = load32 (hmem h1) (page + 4)
        in if ucast used_bytes \<ge> freed_size
           then upd_mem (\<lambda>m. store32 m (page + 4) (used_bytes - ucast freed_size)) h1 else h1)"

section \<open>Arenas\<close>

definition arena_objs_base :: "memory \<Rightarrow> u64 \<Rightarrow> u64" where
  "arena_objs_base m a = a + 24 + of_nat (((unat (load16 m (a + 14)) + 63) div 64) * 8)"

definition arena_obj_at :: "memory \<Rightarrow> u64 \<Rightarrow> u64 \<Rightarrow> u64" where
  "arena_obj_at m a idx = arena_objs_base m a + idx * KM_ALIGN"

definition km_new_arena :: "heap \<Rightarrow> u64 \<times> heap" where
  "km_new_arena h =
     (let (a, k1) = kalloc (hk h); h1 = h\<lparr>hk := k1\<rparr> in
      if a = 0 then (0, h1)
      else
        let avail = 4096 - 24; cap = (avail * 8) div (1 + 16 * 8);
            bitmap_size = ((cap + 63) div 64) * 8; obj_area = avail - bitmap_size;
            cap = obj_area div 16; bm_size = (cap + 63) div 64
        in (a, upd_mem (\<lambda>m.
              let m = store32 m (a + 8) KM_MAGIC_ARENA; m = store16 m (a + 12) 16; m = store64 m a 0;
                  m = store16 m (a + 14) (of_nat cap); m = store16 m (a + 16) 0; m = store16 m (a + 18) 0
              in fold (\<lambda>i m. store64 m (a + 24 + of_nat (8 * i)) 0) [0..<bm_size] m) h1))"

partial_function (option) arena_search :: "memory \<Rightarrow> u64 \<Rightarrow> u64 option" where
  "arena_search m a =
     (if a \<noteq> 0 \<and> load16 m (a + 16) \<ge> load16 m (a + 14) then arena_search m (load64 m a) else Some a)"

text \<open>The first clear bit below the capacity: words in order, bits in order.\<close>

definition arena_free_bit :: "memory \<Rightarrow> u64 \<Rightarrow> (nat \<times> nat) option" where
  "arena_free_bit m a =
     (let capacity = unat (load16 m (a + 14)); bm_size = (capacity + 63) div 64 in
      case filter (\<lambda>(i, b). load64 m (a + 24 + of_nat (8 * i)) \<noteq> - 1 \<and> i * 64 + b < capacity \<and>
                     \<not> bit (load64 m (a + 24 + of_nat (8 * i))) b)
             (concat (map (\<lambda>i. map (Pair i) [0..<64]) [0..<bm_size])) of
        [] \<Rightarrow> None
      | x # _ \<Rightarrow> Some x)"

definition km_alloc_from_arena_locked :: "heap \<Rightarrow> (u64 \<times> heap) option" where
  "km_alloc_from_arena_locked h =
     Option.bind (arena_search (hmem h) (arena_head h)) (\<lambda>a0.
       let (a, h1) = (if a0 \<noteq> 0 then (a0, h)
             else let (n, h1) = km_new_arena h
                  in if n = 0 then (0, h1)
                     else (n, (upd_mem (\<lambda>m. store64 m n (arena_head h1)) h1)\<lparr>arena_head := n\<rparr>))
       in if a = 0 then Some (0, h1)
          else case arena_free_bit (hmem h1) a of
                 None \<Rightarrow> Some (0, h1)
               | Some (i, b) \<Rightarrow>
                   let w = a + 24 + of_nat (8 * i);
                       h2 = upd_mem (\<lambda>m. store64 m w (load64 m w OR push_bit b 1)) h1;
                       h3 = upd_mem (\<lambda>m. store16 m (a + 16) (load16 m (a + 16) + 1)) h2
                   in Some (arena_obj_at (hmem h3) a (of_nat (i * 64 + b)), h3))"

definition km_free_to_arena_locked :: "u64 \<Rightarrow> u64 \<Rightarrow> heap \<Rightarrow> heap" where
  "km_free_to_arena_locked a ptr h =
     (let off = ptr - arena_objs_base (hmem h) a; idx = ucast (off div KM_ALIGN) :: u16 in
      if idx \<ge> load16 (hmem h) (a + 14) then h
      else
        let w = a + 24 + of_nat (8 * (unat idx div 64));
            h1 = upd_mem (\<lambda>m. store64 m w (load64 m w AND NOT (push_bit (unat idx mod 64) 1))) h
        in upd_mem (\<lambda>m. store16 m (a + 16) (load16 m (a + 16) - 1)) h1)"

section \<open>Slabs\<close>

definition slab_stack_slot :: "u64 \<Rightarrow> u16 \<Rightarrow> u64" where
  "slab_stack_slot s i = s + 24 + 2 * ucast i"

definition slab_objs_base :: "memory \<Rightarrow> u64 \<Rightarrow> u64" where
  "slab_objs_base m s = s + 24 + 2 * ucast (load16 m (s + 10))"

definition slab_obj_at :: "memory \<Rightarrow> u64 \<Rightarrow> u16 \<Rightarrow> u64" where
  "slab_obj_at m s idx = slab_objs_base m s + ucast idx * ucast (load16 m (s + 8))"

definition km_new_slab :: "nat \<Rightarrow> heap \<Rightarrow> u64 \<times> heap" where
  "km_new_slab class_idx h =
     (let (s, k1) = kalloc (hk h); h1 = h\<lparr>hk := k1\<rparr> in
      if s = 0 then (0, h1)
      else
        let obj_size = unat (km_class_idx_to_size class_idx); avail = 4096 - 24;
            cap = avail div (obj_size + 2); obj_area = 4096 - (24 + cap * 2); cap = obj_area div obj_size
        in (s, upd_mem (\<lambda>m.
              let m = store64 m s 0; m = store16 m (s + 8) (of_nat obj_size);
                  m = store16 m (s + 14) (of_nat class_idx); m = store32 m (s + 16) KM_MAGIC_SMALL;
                  m = store16 m (s + 10) (of_nat cap); m = store16 m (s + 12) (of_nat cap); m = store16 m (s + 20) (of_nat cap)
              in fold (\<lambda>i m. store16 m (slab_stack_slot s (of_nat i)) (of_nat (cap - 1 - i))) [0..<cap] m) h1))"

definition slab_pop :: "nat \<Rightarrow> u64 \<Rightarrow> heap \<Rightarrow> u64 \<times> heap" where
  "slab_pop b s h =
     (let top = load16 (hmem h) (s + 20) - 1;
          h1 = upd_mem (\<lambda>m. store16 m (s + 20) top) h;
          idx = load16 (hmem h1) (slab_stack_slot s top);
          h2 = upd_mem (\<lambda>m. store16 m (s + 12) (load16 m (s + 12) - 1)) h1;
          h3 = (if top = 0 then
                  let n = load64 (hmem h2) s; h4 = h2\<lparr>km_bins := (km_bins h2)(b := (if n \<noteq> 0 then n else s))\<rparr>
                  in if n \<noteq> 0 then upd_mem (\<lambda>m. store64 m s 0) h4 else h4
                else h2)
      in (slab_obj_at (hmem h3) s idx, h3))"

definition km_alloc_from_bin_locked :: "nat \<Rightarrow> nat \<Rightarrow> heap \<Rightarrow> u64 \<times> heap" where
  "km_alloc_from_bin_locked b class_idx h =
     (let fresh = (\<lambda>h. let (n, h1) = km_new_slab class_idx h in
                     if n = 0 then (0, h1)
                     else (n, (upd_mem (\<lambda>m. store64 m n 0) h1)\<lparr>km_bins := (km_bins h1)(b := n)\<rparr>));
          (s, h1) = (if km_bins h b = 0 then fresh h else (km_bins h b, h))
      in if s = 0 then (0, h1)
         else
           let (s2, h2) = (if load16 (hmem h1) (s + 20) = 0 then
                             let n = load64 (hmem h1) s in
                             if n = 0 then fresh h1 else (n, h1\<lparr>km_bins := (km_bins h1)(b := n)\<rparr>)
                           else (s, h1))
           in if s2 = 0 then (0, h2) else slab_pop b s2 h2)"

definition slab_index_of :: "memory \<Rightarrow> u64 \<Rightarrow> u64 \<Rightarrow> u16" where
  "slab_index_of m s ptr = ucast ((ptr - slab_objs_base m s) div ucast (load16 m (s + 8)))"

definition km_free_to_bin_locked :: "nat \<Rightarrow> u64 \<Rightarrow> u64 \<Rightarrow> heap \<Rightarrow> heap outcome" where
  "km_free_to_bin_locked b s ptr h =
     (let idx = slab_index_of (hmem h) s ptr; top = load16 (hmem h) (s + 20);
          h1 = upd_mem (\<lambda>m. store16 (store16 m (slab_stack_slot s top) idx) (s + 20) (top + 1)) h;
          h2 = upd_mem (\<lambda>m. store16 m (s + 12) (load16 m (s + 12) + 1)) h1;
          h3 = (if load16 (hmem h2) (s + 12) = 1
                then (upd_mem (\<lambda>m. store64 m s (km_bins h2 b)) h2)\<lparr>km_bins := (km_bins h2)(b := s)\<rparr> else h2)
      in if load16 (hmem h3) (s + 12) = load16 (hmem h3) (s + 10) then
           let h4 = (if km_bins h3 b = s then h3\<lparr>km_bins := (km_bins h3)(b := load64 (hmem h3) s)\<rparr> else h3)
           in obind (kfree s (hk h4)) (\<lambda>k. Ok (h4\<lparr>hk := k\<rparr>))
         else Ok h3)"

section \<open>The interface\<close>

definition kmalloc_init :: "heap \<Rightarrow> heap" where
  "kmalloc_init h = h\<lparr>km_bins := (\<lambda>i. if i < KM_NUM_BINS then 0 else km_bins h i), arena_head := 0, mixed_page_head := 0\<rparr>"

definition kmalloc :: "u64 \<Rightarrow> heap \<Rightarrow> (u64 \<times> heap) option" where
  "kmalloc n h =
     (let n = (if n = 0 then 1 else n) in
      if n \<le> KM_MAX_SMALL then km_alloc_from_mixed_page_locked n h
      else
        let need = km_align_up n KM_ALIGN; total = need + 16; pages = PAGE_ROUND_UP total div PAGE_SIZE in
        map_option (\<lambda>(base, k1).
          let h1 = h\<lparr>hk := k1\<rparr> in
          if base = 0 then (0, h1)
          else (base + 16, upd_mem (\<lambda>m. store32 (store32 (store32 (store32 m base KM_MAGIC_LARGE)
                  (base + 4) (ucast pages)) (base + 8) 0) (base + 12) 0) h1)) (kalloc_pages pages (hk h)))"

definition kcmalloc :: "u64 \<Rightarrow> heap \<Rightarrow> (u64 \<times> heap) option" where
  "kcmalloc n h =
     map_option (\<lambda>(ptr, h1). if ptr = 0 then (0, h1) else (ptr, upd_mem (\<lambda>m. memset m ptr 0 (unat n)) h1)) (kmalloc n h)"

definition kmfree :: "u64 \<Rightarrow> heap \<Rightarrow> heap outcome" where
  "kmfree p h =
     (if p = 0 then Ok h
      else
        let base = page_base p; magic = load32 (hmem h) base;
            free_page = (\<lambda>q. obind (kfree q (hk h)) (\<lambda>k. Ok (h\<lparr>hk := k\<rparr>))) in
        if magic = KM_MAGIC_MIXED then Ok (km_free_from_mixed_page_locked p h)
        else if magic = KM_MAGIC_ARENA then Ok (km_free_to_arena_locked base p h)
        else if magic = KM_MAGIC_SMALL then
          km_free_to_bin_locked (unat (load16 (hmem h) (base + 14))) base p h
        else if magic = KM_MAGIC_LARGE then
          (if load32 (hmem h) (p - 16) = KM_MAGIC_LARGE
           then obind (kfree_pages (p - 16) (ucast (load32 (hmem h) (p - 16 + 4))) (hk h)) (\<lambda>k. Ok (h\<lparr>hk := k\<rparr>))
           else free_page base)
        else free_page base)"

end
