(* ===== verification/Files.thy ===== *)
theory Files
  imports Fs Proc Kmalloc
begin

text \<open>
  \<^verbatim>\<open>kernel/src/fs/file.c\<close>, \<^verbatim>\<open>device.c\<close> and \<^verbatim>\<open>syscall.c\<close>: file descriptors and the system calls on them. The
  state puts together the kernel (processes, page tables), the file system, the heap and the state of the
  character devices. \<^verbatim>\<open>my_process()\<close> is \<open>running_process\<close>. The contents of a user's buffer are an argument of a
  write and part of the result of a read. System calls are made by a running process. An access to \<^verbatim>\<open>open_files\<close> past its end, which C does not
  define, is a panic here.
\<close>

section \<open>State\<close>

record ('d, 'e) sys_state =
  kern :: kernel
  fss :: "'d fs_state"
  pools :: heap
  hw :: 'e

text \<open>The heap works on the memory of the kernel.\<close>

definition heap_of :: "('d, 'e) sys_state \<Rightarrow> heap" where
  "heap_of s = (pools s)\<lparr>hk := km (vm (kern s))\<rparr>"

definition put_km :: "kmem \<Rightarrow> ('d, 'e) sys_state \<Rightarrow> ('d, 'e) sys_state" where
  "put_km k s = s\<lparr>kern := (kern s)\<lparr>vm := (vm (kern s))\<lparr>km := k\<rparr>\<rparr>\<rparr>"

definition put_heap :: "heap \<Rightarrow> ('d, 'e) sys_state \<Rightarrow> ('d, 'e) sys_state" where
  "put_heap h s = put_km (hk h) (s\<lparr>pools := h\<rparr>)"

definition me :: "('d, 'e) sys_state \<Rightarrow> process" where
  "me s = procs (kern s) (running_process (kern s))"

definition upd_me :: "(process \<Rightarrow> process) \<Rightarrow> ('d, 'e) sys_state \<Rightarrow> ('d, 'e) sys_state" where
  "upd_me f s = s\<lparr>kern := upd_proc (running_process (kern s)) f (kern s)\<rparr>"

definition file_of :: "('d, 'e) sys_state \<Rightarrow> int \<Rightarrow> process_file" where
  "file_of s fd = open_files (me s) ! nat fd"

definition upd_file :: "int \<Rightarrow> (process_file \<Rightarrow> process_file) \<Rightarrow> ('d, 'e) sys_state \<Rightarrow> ('d, 'e) sys_state" where
  "upd_file fd f s = upd_me (\<lambda>p. p\<lparr>open_files := (open_files p)[nat fd := f (open_files p ! nat fd)]\<rparr>) s"

section \<open>Files\<close>

definition O_WRONLY :: u32 where "O_WRONLY = 1"
definition O_RDWR :: u32 where "O_RDWR = 2"
definition O_CREAT :: u32 where "O_CREAT = 0x40"
definition O_TRUNC :: u32 where "O_TRUNC = 0x200"
definition O_APPEND :: u32 where "O_APPEND = 0x400"
definition O_DEVICE :: u32 where "O_DEVICE = 0x800"
definition O_DIR :: u32 where "O_DIR = 0x1000"

definition fs_flags :: "u32 \<Rightarrow> u32" where
  "fs_flags oflags = (if oflags AND O_CREAT \<noteq> 0 then DZFS_O_CREATE else 0) OR (if oflags AND O_DIR \<noteq> 0 then DZFS_O_DIR else 0)"

definition file_open :: "'d device \<Rightarrow> u8 list \<Rightarrow> u32 \<Rightarrow> ('d, 'e) sys_state \<Rightarrow> (int \<times> ('d, 'e) sys_state) outcome" where
  "file_open dev path oflags s =
     obind (proc_allocate_fd (kern s)) (\<lambda>fd.
       if fd = -1 then Ok (-1, s)
       else obind (fs_open dev path (working_directory (me s)) (fs_flags oflags) (fss s)) (\<lambda>(inode, st1).
         let s1 = s\<lparr>fss := st1\<rparr> in
         if inode = 0 then Ok (-1, s1)
         else Ok (fd, upd_file fd (\<lambda>f. f\<lparr>fd_kind := FD_INODE, fd_inode := inode, fd_offset := 0,
                readble := oflags AND O_WRONLY = 0, writable := oflags AND O_WRONLY \<noteq> 0 \<or> oflags AND O_RDWR \<noteq> 0\<rparr>) s1)))"

definition fd_valid :: "int \<Rightarrow> bool" where
  "fd_valid fd \<longleftrightarrow> 0 \<le> fd \<and> fd < int MAX_OPEN_FILES"

definition file_write :: "'d device \<Rightarrow> int \<Rightarrow> u8 list \<Rightarrow> ('d, 'e) sys_state \<Rightarrow> (int \<times> ('d, 'e) sys_state) outcome" where
  "file_write dev fd buffer s =
     (if running_process (kern s) = 0 then Panic ''file_write: no process''
      else if \<not> fd_valid fd \<or> \<not> writable (file_of s fd) \<or> fd_kind (file_of s fd) \<noteq> FD_INODE then Panic ''file_write: fd''
      else
        let (r, st1) = fs_write dev (fd_inode (file_of s fd)) buffer (unat (fd_offset (file_of s fd))) (fss s);
            s1 = s\<lparr>fss := st1\<rparr> in
        if r < 0 then Ok (r, s1)
        else Ok (r, upd_file fd (\<lambda>f. f\<lparr>fd_offset := fd_offset f + of_int r\<rparr>) s1))"

definition file_read :: "'d device \<Rightarrow> int \<Rightarrow> nat \<Rightarrow> ('d, 'e) sys_state \<Rightarrow> (int \<times> u8 list \<times> ('d, 'e) sys_state) outcome" where
  "file_read dev fd len s =
     (if running_process (kern s) = 0 then Panic ''file_read: no process''
      else if \<not> fd_valid fd \<or> \<not> readble (file_of s fd) \<or> fd_kind (file_of s fd) \<noteq> FD_INODE then Panic ''file_read: fd''
      else
        let (r, xs) = fs_read dev (fd_inode (file_of s fd)) len (unat (fd_offset (file_of s fd))) (fss s) in
        if r < 0 then Ok (r, xs, s)
        else Ok (r, xs, upd_file fd (\<lambda>f. f\<lparr>fd_offset := fd_offset f + of_int r\<rparr>) s))"

definition seek_target :: "u32 \<Rightarrow> u32 \<Rightarrow> int \<Rightarrow> int \<Rightarrow> u32 option" where
  "seek_target fsize cur off whence =
     (if whence = 0 then Some (of_int off)
      else if whence = 1 then Some (of_int (uint cur + off))
      else if whence = 2 then Some (fsize - of_int off)
      else None)"

definition file_seek :: "int \<Rightarrow> int \<Rightarrow> int \<Rightarrow> ('d, 'e) sys_state \<Rightarrow> (int \<times> ('d, 'e) sys_state) outcome" where
  "file_seek fd off whence s =
     (if running_process (kern s) = 0 then Panic ''file_seek: no process''
      else if \<not> fd_valid fd \<or> fd_kind (file_of s fd) \<noteq> FD_INODE then Panic ''file_seek: fd''
      else
        let fsize = i_size (inode_at (fss s) (fd_inode (file_of s fd))) in
        case seek_target fsize (fd_offset (file_of s fd)) off whence of
          None \<Rightarrow> Ok (-1, s)
        | Some t \<Rightarrow>
            let t' = (if t > fsize then fsize else t)
            in Ok (sint t', upd_file fd (\<lambda>f. f\<lparr>fd_offset := t'\<rparr>) s))"

section \<open>Character devices\<close>

text \<open>The routines of the serial port and of the framebuffer are parameters; \<open>None\<close> is a NULL pointer.\<close>

record 'e drivers =
  serial_read :: "nat \<Rightarrow> 'e \<Rightarrow> int \<times> u8 list \<times> 'e"
  serial_read_async :: "nat \<Rightarrow> 'e \<Rightarrow> int \<times> u8 list \<times> 'e"
  serial_write :: "u8 list \<Rightarrow> 'e \<Rightarrow> int \<times> 'e"
  fb_write :: "u8 list \<Rightarrow> 'e \<Rightarrow> int \<times> 'e"
  fb_control :: "int \<Rightarrow> u64 \<Rightarrow> 'e \<Rightarrow> int \<times> 'e"

record 'e char_device =
  cd_name :: "u8 list"
  cd_read :: "(nat \<Rightarrow> 'e \<Rightarrow> int \<times> u8 list \<times> 'e) option"
  cd_write :: "(u8 list \<Rightarrow> 'e \<Rightarrow> int \<times> 'e) option"
  cd_lseek :: "(int \<Rightarrow> int \<Rightarrow> 'e \<Rightarrow> int \<times> 'e) option"
  cd_control :: "(int \<Rightarrow> u64 \<Rightarrow> 'e \<Rightarrow> int \<times> 'e) option"

definition devices :: "'e drivers \<Rightarrow> 'e char_device list" where
  "devices drv =
     [\<lparr>cd_name = [115, 101, 114, 105, 97, 108], cd_read = Some (serial_read drv), cd_write = Some (serial_write drv),
       cd_lseek = None, cd_control = None\<rparr>,
      \<lparr>cd_name = [115, 101, 114, 105, 97, 108, 95, 97, 115, 121, 110, 99], cd_read = Some (serial_read_async drv),
       cd_write = Some (serial_write drv), cd_lseek = None, cd_control = None\<rparr>,
      \<lparr>cd_name = [102, 98], cd_read = None, cd_write = Some (fb_write drv), cd_lseek = None, cd_control = Some (fb_control drv)\<rparr>]"

definition device_index :: "'e drivers \<Rightarrow> u8 list \<Rightarrow> int" where
  "device_index drv name =
     (case filter (\<lambda>i. cd_name (devices drv ! i) = name) [0..<length (devices drv)] of [] \<Rightarrow> -1 | i # _ \<Rightarrow> int i)"

definition device_get :: "'e drivers \<Rightarrow> int \<Rightarrow> 'e char_device option" where
  "device_get drv index =
     (if index < 0 \<or> index \<ge> int (length (devices drv)) then None else Some (devices drv ! nat index))"

definition device_open :: "'e drivers \<Rightarrow> u8 list \<Rightarrow> ('d, 'e) sys_state \<Rightarrow> (int \<times> ('d, 'e) sys_state) outcome" where
  "device_open drv name s =
     (let i = device_index drv name in
      if i = -1 then Ok (-1, s)
      else obind (proc_allocate_fd (kern s)) (\<lambda>fd.
        if fd = -1 then Ok (-1, s)
        else Ok (fd, upd_file fd (\<lambda>f. f\<lparr>fd_kind := FD_DEVICE, fd_device := i, fd_offset := 0,
               readble := cd_read (devices drv ! nat i) \<noteq> None, writable := cd_write (devices drv ! nat i) \<noteq> None\<rparr>) s)))"

section \<open>Arguments of system calls\<close>

definition MAX_PATH_LENGTH :: nat where "MAX_PATH_LENGTH = 4096"

definition kfree_buf :: "u64 \<Rightarrow> ('d, 'e) sys_state \<Rightarrow> ('d, 'e) sys_state outcome" where
  "kfree_buf p s = obind (kmfree p (heap_of s)) (\<lambda>h. Ok (put_heap h s))"

definition validate_user_string :: "u64 \<Rightarrow> nat \<Rightarrow> ('d, 'e) sys_state \<Rightarrow> (u64 \<times> ('d, 'e) sys_state) outcome option" where
  "validate_user_string user_str max_len s =
     (if running_process (kern s) = 0 then Some (Ok (0, s))
      else
        case kmalloc (of_nat max_len) (heap_of s) of
          None \<Rightarrow> None
        | Some (buf, h1) \<Rightarrow>
            let s1 = put_heap h1 s in
            if buf = 0 then Some (Ok (0, s1))
            else kbind (vmm_copy_user_string (pagetable (me s1)) user_str buf (of_nat max_len) (km (vm (kern s1)))) (\<lambda>(r, k).
                   let s2 = put_km k s1 in
                   if r < 0 then Some (obind (kfree_buf buf s2) (\<lambda>s3. Ok (0, s3))) else Some (Ok (buf, s2))))"

definition validate_user :: "u64 \<Rightarrow> nat \<Rightarrow> bool \<Rightarrow> ('d, 'e) sys_state \<Rightarrow> bool outcome option" where
  "validate_user ptr len wr s =
     (if running_process (kern s) = 0 then Some (Ok False)
      else vmm_validate_user_ptr (pagetable (me s)) ptr (of_nat len) wr (km (vm (kern s))))"

text \<open>The string in a kernel buffer of \<^verbatim>\<open>MAX_PATH_LENGTH\<close> bytes.\<close>

definition kernel_string :: "('d, 'e) sys_state \<Rightarrow> u64 \<Rightarrow> u8 list" where
  "kernel_string s buf = takeWhile (\<lambda>c. c \<noteq> 0) (map (\<lambda>i. mem (km (vm (kern s))) (buf + of_nat i)) [0..<MAX_PATH_LENGTH])"

text \<open>A call on one path: the string is copied, the body runs on it, and the copy is freed.\<close>

definition with_path ::
  "u64 \<Rightarrow> (u8 list \<Rightarrow> ('d, 'e) sys_state \<Rightarrow> (int \<times> ('d, 'e) sys_state) outcome) \<Rightarrow> ('d, 'e) sys_state \<Rightarrow> (int \<times> ('d, 'e) sys_state) outcome option" where
  "with_path path body s =
     kbind (validate_user_string path MAX_PATH_LENGTH s) (\<lambda>(buf, s1).
       if buf = 0 then Some (Ok (-1, s1))
       else Some (obind (body (kernel_string s1 buf) s1) (\<lambda>(r, s2). obind (kfree_buf buf s2) (\<lambda>s3. Ok (r, s3)))))"

section \<open>System calls\<close>

definition O_ALL :: u32 where
  "O_ALL = O_WRONLY OR O_RDWR OR O_CREAT OR O_TRUNC OR O_APPEND OR O_DEVICE OR O_DIR"

definition sys_open :: "'d device \<Rightarrow> 'e drivers \<Rightarrow> u64 \<Rightarrow> u32 \<Rightarrow> ('d, 'e) sys_state \<Rightarrow> (int \<times> ('d, 'e) sys_state) outcome option" where
  "sys_open dev drv path oflags s =
     with_path path (\<lambda>p s1.
       if oflags AND NOT O_ALL \<noteq> 0 then Ok (-1, s1)
       else if oflags AND O_DEVICE \<noteq> 0 then device_open drv p s1
       else file_open dev p oflags s1) s"

definition fd_open :: "int \<Rightarrow> ('d, 'e) sys_state \<Rightarrow> bool" where
  "fd_open fd s \<longleftrightarrow> fd_valid fd \<and> fd_kind (file_of s fd) \<noteq> FD_EMPTY"

definition sys_read :: "'d device \<Rightarrow> 'e drivers \<Rightarrow> int \<Rightarrow> u64 \<Rightarrow> nat \<Rightarrow> ('d, 'e) sys_state \<Rightarrow> (int \<times> u8 list \<times> ('d, 'e) sys_state) outcome option" where
  "sys_read dev drv fd buffer len s =
     (if \<not> fd_open fd s then Some (Ok (-1, [], s))
      else kbind (validate_user buffer len True s) (\<lambda>ok.
        if \<not> ok then Some (Ok (-1, [], s))
        else if \<not> readble (file_of s fd) then Some (Ok (-1, [], s))
        else if fd_kind (file_of s fd) = FD_INODE then Some (file_read dev fd len s)
        else
          case device_get drv (fd_device (file_of s fd)) of
            None \<Rightarrow> Some (Ok (-1, [], s))
          | Some cd \<Rightarrow>
              (case cd_read cd of
                 None \<Rightarrow> Some (Panic ''NULL function'')
               | Some f \<Rightarrow> let (r, xs, e) = f len (hw s) in Some (Ok (r, xs, s\<lparr>hw := e\<rparr>)))))"

definition sys_write :: "'d device \<Rightarrow> 'e drivers \<Rightarrow> int \<Rightarrow> u64 \<Rightarrow> u8 list \<Rightarrow> ('d, 'e) sys_state \<Rightarrow> (int \<times> ('d, 'e) sys_state) outcome option" where
  "sys_write dev drv fd buffer data s =
     (if \<not> fd_open fd s then Some (Ok (-1, s))
      else kbind (validate_user buffer (length data) False s) (\<lambda>ok.
        if \<not> ok then Some (Ok (-1, s))
        else if \<not> writable (file_of s fd) then Some (Ok (-1, s))
        else if fd_kind (file_of s fd) = FD_INODE then Some (file_write dev fd data s)
        else
          case device_get drv (fd_device (file_of s fd)) of
            None \<Rightarrow> Some (Ok (-1, s))
          | Some cd \<Rightarrow>
              (case cd_write cd of
                 None \<Rightarrow> Some (Panic ''NULL function'')
               | Some f \<Rightarrow> let (r, e) = f data (hw s) in Some (Ok (r, s\<lparr>hw := e\<rparr>)))))"

text \<open>\<^verbatim>\<open>sys_close\<close> and \<^verbatim>\<open>sys_lseek\<close> compare the descriptor with \<^verbatim>\<open>>\<close>, so the first one past the end gets through.\<close>

definition sys_close :: "int \<Rightarrow> ('d, 'e) sys_state \<Rightarrow> (int \<times> ('d, 'e) sys_state) outcome" where
  "sys_close fd s =
     (if fd < 0 \<or> fd > int MAX_OPEN_FILES then Ok (-1, s)
      else if fd = int MAX_OPEN_FILES then Panic ''open_files out of range''
      else
        case fd_kind (file_of s fd) of
          FD_EMPTY \<Rightarrow> Ok (-1, s)
        | FD_INODE \<Rightarrow>
            Ok (0, upd_file fd (\<lambda>f. f\<lparr>fd_kind := FD_EMPTY, readble := False, writable := False, fd_inode := 0, fd_offset := 0\<rparr>)
                     (s\<lparr>fss := fs_close (fd_inode (file_of s fd)) (fss s)\<rparr>))
        | FD_DEVICE \<Rightarrow> Ok (0, s))"

definition sys_lseek :: "'e drivers \<Rightarrow> int \<Rightarrow> int \<Rightarrow> int \<Rightarrow> ('d, 'e) sys_state \<Rightarrow> (int \<times> ('d, 'e) sys_state) outcome" where
  "sys_lseek drv fd off whence s =
     (if fd < 0 \<or> fd > int MAX_OPEN_FILES then Ok (-1, s)
      else if fd = int MAX_OPEN_FILES then Panic ''open_files out of range''
      else
        case fd_kind (file_of s fd) of
          FD_EMPTY \<Rightarrow> Ok (-1, s)
        | FD_INODE \<Rightarrow> file_seek fd off whence s
        | FD_DEVICE \<Rightarrow>
            (case device_get drv (fd_device (file_of s fd)) of
               None \<Rightarrow> Ok (-1, s)
             | Some cd \<Rightarrow>
                 (case cd_lseek cd of
                    None \<Rightarrow> Ok (-1, s)
                  | Some f \<Rightarrow> let (r, e) = f off whence (hw s) in Ok (r, s\<lparr>hw := e\<rparr>))))"

definition sys_ioctl :: "'e drivers \<Rightarrow> int \<Rightarrow> int \<Rightarrow> u64 \<Rightarrow> ('d, 'e) sys_state \<Rightarrow> (int \<times> ('d, 'e) sys_state) outcome option" where
  "sys_ioctl drv fd command data s =
     (if \<not> fd_open fd s then Some (Ok (-1, s))
      else kbind (if data \<noteq> 0 then validate_user data 8 True s else Some (Ok True)) (\<lambda>ok.
        if \<not> ok then Some (Ok (-1, s))
        else if fd_kind (file_of s fd) = FD_INODE then Some (Ok (-1, s))
        else
          case device_get drv (fd_device (file_of s fd)) of
            None \<Rightarrow> Some (Ok (-1, s))
          | Some cd \<Rightarrow>
              (case cd_control cd of
                 None \<Rightarrow> Some (Ok (-1, s))
               | Some f \<Rightarrow> let (r, e) = f command data (hw s) in Some (Ok (r, s\<lparr>hw := e\<rparr>)))))"

definition sys_rename :: "u64 \<Rightarrow> u64 \<Rightarrow> ('d, 'e) sys_state \<Rightarrow> (int \<times> ('d, 'e) sys_state) outcome option" where
  "sys_rename old_path new_path s =
     kbind (validate_user_string old_path MAX_PATH_LENGTH s) (\<lambda>(old, s1).
       if old = 0 then Some (Ok (-1, s1))
       else kbind (validate_user_string new_path MAX_PATH_LENGTH s1) (\<lambda>(new, s2).
         if new = 0 then Some (obind (kfree_buf old s2) (\<lambda>s3. Ok (-1, s3)))
         else Some (obind (fs_rename (kernel_string s2 old) (kernel_string s2 new) (working_directory (me s2)) (fss s2))
                (\<lambda>(r, st). obind (kfree_buf old (s2\<lparr>fss := st\<rparr>)) (\<lambda>s3. obind (kfree_buf new s3) (\<lambda>s4. Ok (r, s4)))))))"

definition sys_unlink :: "'d device \<Rightarrow> u64 \<Rightarrow> ('d, 'e) sys_state \<Rightarrow> (int \<times> ('d, 'e) sys_state) outcome option" where
  "sys_unlink dev path s =
     with_path path (\<lambda>p s1. obind (fs_delete dev p (working_directory (me s1)) (fss s1)) (\<lambda>(r, st). Ok (r, s1\<lparr>fss := st\<rparr>))) s"

definition sys_mkdir :: "'d device \<Rightarrow> u64 \<Rightarrow> ('d, 'e) sys_state \<Rightarrow> (int \<times> ('d, 'e) sys_state) outcome option" where
  "sys_mkdir dev path s =
     with_path path (\<lambda>p s1. obind (fs_mkdir dev p (working_directory (me s1)) (fss s1)) (\<lambda>(r, st). Ok (r, s1\<lparr>fss := st\<rparr>))) s"

text \<open>\<^verbatim>\<open>sys_chdir\<close> frees its copy of the path before it looks at the result of \<^verbatim>\<open>fs_open\<close>.\<close>

definition sys_chdir :: "'d device \<Rightarrow> u64 \<Rightarrow> ('d, 'e) sys_state \<Rightarrow> (int \<times> ('d, 'e) sys_state) outcome option" where
  "sys_chdir dev directory s =
     kbind (validate_user_string directory MAX_PATH_LENGTH s) (\<lambda>(buf, s1).
       if buf = 0 then Some (Ok (-1, s1))
       else Some (obind (fs_open dev (kernel_string s1 buf) (working_directory (me s1)) DZFS_O_DIR (fss s1)) (\<lambda>(new, st).
         obind (kfree_buf buf (s1\<lparr>fss := st\<rparr>)) (\<lambda>s2.
           if new = 0 then Ok (-1, s2)
           else Ok (0, upd_me (\<lambda>p. p\<lparr>working_directory := new\<rparr>)
                         (s2\<lparr>fss := fs_close (working_directory (me s2)) (fss s2)\<rparr>))))))"

definition sys_readdir :: "'d device \<Rightarrow> int \<Rightarrow> u64 \<Rightarrow> nat \<Rightarrow> ('d, 'e) sys_state \<Rightarrow> (int \<times> dirent list \<times> ('d, 'e) sys_state) outcome option" where
  "sys_readdir dev fd buffer len s =
     (if running_process (kern s) = 0 \<or> \<not> fd_valid fd \<or> fd_kind (file_of s fd) \<noteq> FD_INODE then Some (Ok (-1, [], s))
      else kbind (validate_user buffer len True s) (\<lambda>ok.
        if \<not> ok then Some (Ok (-1, [], s))
        else Some (obind (fs_readdir dev (fd_inode (file_of s fd)) len (sint (fd_offset (file_of s fd))) (fss s)) (\<lambda>(r, es).
          if r \<le> 0 then Ok (r, es, s)
          else Ok (r, es, upd_file fd (\<lambda>f. f\<lparr>fd_offset := fd_offset f + of_int r\<rparr>) s)))))"

end
