(* ===== verification/Exec.thy ===== *)
theory Exec
  imports Files Page_Maps
begin

text \<open>
  \<^verbatim>\<open>kernel/src/userspace/exec.c\<close>: loading an ELF program into a new process. The functions work on the state of
  \<open>Files\<close>: processes, page tables, heap and file system. Reads into a local structure give the bytes, which \<open>elf_header\<close>
  and \<open>program_header\<close> decode; reads into a page are stores to the memory behind it. \<open>None\<close> is a loop that does not end.
\<close>

section \<open>Headers of the file\<close>

record ElfHeader =
  eh_magic :: u32
  eh_elf :: "u8 list"
  eh_type :: u16
  eh_machine :: u16
  eh_version :: u32
  eh_entry :: u64
  eh_phoff :: u64
  eh_shoff :: u64
  eh_flags :: u32
  eh_ehsize :: u16
  eh_phentsize :: u16
  eh_phnum :: u16
  eh_shentsize :: u16
  eh_shnum :: u16
  eh_shstrndx :: u16

definition elf_header :: "u8 list \<Rightarrow> ElfHeader" where
  "elf_header xs =
     (let b = put_bytes zero_block 0 xs in
      \<lparr>eh_magic = load32 b 0, eh_elf = get_bytes b 4 12, eh_type = load16 b 16, eh_machine = load16 b 18, eh_version = load32 b 20,
       eh_entry = load64 b 24, eh_phoff = load64 b 32, eh_shoff = load64 b 40, eh_flags = load32 b 48, eh_ehsize = load16 b 52,
       eh_phentsize = load16 b 54, eh_phnum = load16 b 56, eh_shentsize = load16 b 58, eh_shnum = load16 b 60, eh_shstrndx = load16 b 62\<rparr>)"

record ProgramHeader =
  ph_type :: u32
  ph_flags :: u32
  ph_off :: u64
  ph_vaddr :: u64
  ph_paddr :: u64
  ph_filesz :: u64
  ph_memsz :: u64
  ph_align :: u64

definition program_header :: "u8 list \<Rightarrow> ProgramHeader" where
  "program_header xs =
     (let b = put_bytes zero_block 0 xs in
      \<lparr>ph_type = load32 b 0, ph_flags = load32 b 4, ph_off = load64 b 8, ph_vaddr = load64 b 16, ph_paddr = load64 b 24,
       ph_filesz = load64 b 32, ph_memsz = load64 b 40, ph_align = load64 b 48\<rparr>)"

definition ELF_MAGIC :: u32 where "ELF_MAGIC = 0x464C457F"
definition ELF_PROG_LOAD :: u32 where "ELF_PROG_LOAD = 1"
definition ELF_ET_EXEC :: u16 where "ELF_ET_EXEC = 2"
definition ELF_ET_DYN :: u16 where "ELF_ET_DYN = 3"
definition USER_DEFAULT_LOAD_BASE :: u64 where "USER_DEFAULT_LOAD_BASE = 0x400000"
definition USER_STACK_TOP :: u64 where "USER_STACK_TOP = USERSPACE_VA_MAX"
definition MAX_ARGV :: nat where "MAX_ARGV = 32"

definition flags2perm :: "u32 \<Rightarrow> pte_permissions" where
  "flags2perm oflags = pte_permissions.make (oflags AND 2 \<noteq> 0) (oflags AND 1 \<noteq> 0) True"

section \<open>Loading a segment\<close>

definition segment_part :: "u64 \<Rightarrow> u32 \<Rightarrow> u64" where
  "segment_part va remaining =
     (let n_page = PAGE_SIZE - (va AND (PAGE_SIZE - 1)) in if ucast remaining < n_page then ucast remaining else n_page)"

lemma segment_part_bounds:
  assumes "0 < remaining"
  shows "0 < unat (segment_part va remaining)" "unat (segment_part va remaining) \<le> unat remaining"
    "unat (segment_part va remaining) + unat (va AND (PAGE_SIZE - 1)) \<le> 4096"
proof -
  define r where "r = (ucast remaining :: u64)"
  define po where "po = va AND (PAGE_SIZE - 1)"
  have po: "unat po < 4096"
  proof -
    have "po = va AND mask 12" by (simp add: po_def PAGE_SIZE_def mask_eq_exp_minus_1)
    then have "po = va mod 2 ^ 12" by (simp only: take_bit_eq_mask [symmetric] take_bit_eq_mod)
    then have "unat po = unat va mod 4096" by (simp add: unat_mod)
    then show ?thesis by simp
  qed
  have r: "unat r = unat remaining" by (simp add: r_def unat_ucast_up)
  have np: "unat (PAGE_SIZE - po) = 4096 - unat po" using po by (simp add: PAGE_SIZE_def unat_sub word_le_nat_alt)
  have s: "segment_part va remaining = (if r < PAGE_SIZE - po then r else PAGE_SIZE - po)"
    by (simp add: segment_part_def r_def po_def)
  have "0 < unat remaining" using assms by (simp add: word_less_nat_alt)
  then show "0 < unat (segment_part va remaining)" "unat (segment_part va remaining) \<le> unat remaining"
    "unat (segment_part va remaining) + unat (va AND (PAGE_SIZE - 1)) \<le> 4096"
    using po r np unfolding s po_def [symmetric] by (auto simp: word_less_nat_alt)
qed


text \<open>The loop of \<^verbatim>\<open>load_segment\<close>, with \<open>i\<close> bytes of the segment done.\<close>

function load_segment_from ::
  "'d device \<Rightarrow> 'd fs_state \<Rightarrow> u64 \<Rightarrow> u64 \<Rightarrow> u64 \<Rightarrow> u32 \<Rightarrow> u32 \<Rightarrow> u32 \<Rightarrow> kmem \<Rightarrow> (int \<times> kmem) outcome" where
  "load_segment_from dev st pt ip va off sz i k =
     (if \<not> i < sz then Ok (0, k)
      else
        let current_va = va + ucast i in
        case vmm_walkaddr pt current_va True k of
          Panic e \<Rightarrow> Panic e
        | Ok physical_address \<Rightarrow>
            if physical_address = 0 then Panic ''load_segment: address should exist''
            else
              let page_off = current_va AND (PAGE_SIZE - 1);
                  n = segment_part current_va (sz - i);
                  (r, xs) = fs_read dev ip (unat n) (unat (off + i)) st;
                  k1 = k\<lparr>mem := store_bytes (mem k) (P2V (hhdm_offset k) physical_address + page_off) xs\<rparr>
              in if r \<noteq> int (unat n) then Ok (-1, k1)
                 else load_segment_from dev st pt ip va off sz (i + ucast n) k1)"
  by auto
termination
proof (relation "measure (\<lambda>(dev, st, pt, ip, va, off, sz, i, k). unat sz - unat i)")
  fix dev :: "'d device" and st pt ip va off sz i k k' and n :: u64 and current_va :: u64
  assume lt: "\<not> \<not> (i :: u32) < sz" and n: "n = segment_part current_va (sz - i)"
  have d: "unat (sz - i) = unat sz - unat i" using lt by (simp add: unat_sub order_less_imp_le)
  have "0 < sz - i" using lt d by (simp add: word_less_nat_alt)
  note b = segment_part_bounds [OF this, of current_va]
  have "unat n < 2 ^ 32" using b(3) n by simp
  then have u: "unat (ucast n :: u32) = unat n" by (rule unat_ucast_down)
  have "unat i + unat n \<le> unat sz" using b(2) d lt n by (simp add: word_less_nat_alt)
  moreover have "unat sz < 2 ^ 32" using unsigned_less [of sz, where ?'a = nat] by simp
  ultimately have "unat (i + ucast n) = unat i + unat n" using u by (simp add: unat_word_ariths)
  then show "((dev, st, pt, ip, va, off, sz, i + ucast n, k'), dev, st, pt, ip, va, off, sz, i, k)
      \<in> measure (\<lambda>(dev, st, pt, ip, va, off, sz, i, k). unat sz - unat i)"
    using b(1) n lt by (simp add: word_less_nat_alt)
qed simp

declare load_segment_from.simps [simp del]

definition load_segment ::
  "'d device \<Rightarrow> 'd fs_state \<Rightarrow> u64 \<Rightarrow> u64 \<Rightarrow> u64 \<Rightarrow> u32 \<Rightarrow> u32 \<Rightarrow> kmem \<Rightarrow> (int \<times> kmem) outcome" where
  "load_segment dev st pt ip va off sz k = load_segment_from dev st pt ip va off sz 0 k"


section \<open>Loading the program\<close>

text \<open>
  What the functions use of the machine: the addresses of local variables on the kernel stack (a word that is
  copied to the user's stack, and the page-sized buffer of \<^verbatim>\<open>vmm_zero\<close>) and the time-stamp counter.
\<close>

record exec_env =
  local_word :: u64
  zero_buffer :: u64
  tsc :: u64

definition load_bias_of :: "ElfHeader \<Rightarrow> u64 option" where
  "load_bias_of elf =
     (if eh_type elf = ELF_ET_DYN then Some USER_DEFAULT_LOAD_BASE
      else if eh_type elf = ELF_ET_EXEC then
        Some (if eh_entry elf = 0 \<or> eh_entry elf < USERSPACE_VA_MIN \<or> eh_entry elf \<ge> USERSPACE_VA_MAX then USER_DEFAULT_LOAD_BASE else 0)
      else None)"

text \<open>
  One loadable segment: \<open>Inl\<close> is the jump to the error exit, \<open>Inr\<close> carries the end of the pages. The state is the memory.
\<close>

definition map_segment ::
  "exec_env \<Rightarrow> 'd device \<Rightarrow> 'd fs_state \<Rightarrow> u64 \<Rightarrow> u64 \<Rightarrow> u64 \<Rightarrow> ProgramHeader \<Rightarrow> kmem \<Rightarrow> ((unit + u64) \<times> kmem) outcome option" where
  "map_segment env dev st pt ip load_bias ph k =
     (if ph_memsz ph < ph_filesz ph then Some (Ok (Inl (), k))
      else
        let mapped_va = ph_vaddr ph + load_bias;
            map_start = mapped_va AND page_not_mask;
            map_offset = mapped_va - map_start;
            alloc_size = PAGE_ROUND_UP (map_offset + ph_memsz ph) in
        if map_start < USERSPACE_VA_MIN \<or> map_start + alloc_size > USERSPACE_VA_MAX then Some (Ok (Inl (), k))
        else kbind (Some (vmm_allocate pt map_start alloc_size (flags2perm (ph_flags ph)) False k)) (\<lambda>(r, k1).
          if r = -1 then Some (Ok (Inl (), k1))
          else kbind (if ph_filesz ph > 0
                      then Some (load_segment dev st pt ip (map_start + map_offset) (ucast (ph_off ph)) (ucast (ph_filesz ph)) k1)
                      else Some (Ok (0, k1))) (\<lambda>(r, k2).
            if r < 0 then Some (Ok (Inl (), k2))
            else kbind (if ph_memsz ph > ph_filesz ph
                        then vmm_zero (zero_buffer env) pt (map_start + map_offset + ph_filesz ph) (ph_memsz ph - ph_filesz ph) k2
                        else Some (Ok (0, k2))) (\<lambda>(r, k3).
              if r < 0 then Some (Ok (Inl (), k3)) else Some (Ok (Inr (map_start + alloc_size), k3))))))"

text \<open>
  The loop over the program headers, with the number of headers left, the offset of the next one and \<^verbatim>\<open>initial_data_segment\<close>;
  it tells whether all were loaded.
\<close>

primrec load_program ::
  "exec_env \<Rightarrow> 'd device \<Rightarrow> 'd fs_state \<Rightarrow> u64 \<Rightarrow> u64 \<Rightarrow> u64 \<Rightarrow> nat \<Rightarrow> u64 \<Rightarrow> u64 \<Rightarrow> kmem \<Rightarrow> (bool \<times> u64 \<times> kmem) outcome option" where
  "load_program env dev st pt ip load_bias 0 off ids k = Some (Ok (True, ids, k))"
| "load_program env dev st pt ip load_bias (Suc m) off ids k =
     (let (r, xs) = fs_read dev ip 56 (unat off) st in
      if r \<noteq> 56 then Some (Ok (False, ids, k))
      else if ph_type (program_header xs) \<noteq> ELF_PROG_LOAD then load_program env dev st pt ip load_bias m (off + 56) ids k
      else kbind (map_segment env dev st pt ip load_bias (program_header xs) k) (\<lambda>(e, k1).
        case e of
          Inl _ \<Rightarrow> Some (Ok (False, ids, k1))
        | Inr stop \<Rightarrow> load_program env dev st pt ip load_bias m (off + 56) (if ids > stop then ids else stop) k1))"

section \<open>The stack of the program\<close>

text \<open>The results of \<^verbatim>\<open>vmm_memcpy\<close> are not looked at. The environment is empty.\<close>

primrec copy_strings :: "u64 \<Rightarrow> u64 list \<Rightarrow> u64 \<Rightarrow> u64 list \<Rightarrow> kmem \<Rightarrow> (u64 \<times> u64 list \<times> kmem) outcome option" where
  "copy_strings pt [] sp ptrs k = Some (Ok (sp, ptrs, k))"
| "copy_strings pt (a # as) sp ptrs k =
     (case strlen (mem k) a of
        None \<Rightarrow> None
      | Some len \<Rightarrow>
          let sp1 = sp - (len + 1)
          in kbind (vmm_memcpy pt sp1 a (len + 1) True k) (\<lambda>(_, k1). copy_strings pt as sp1 (ptrs @ [sp1]) k1))"

definition push_word :: "exec_env \<Rightarrow> u64 \<Rightarrow> u64 \<Rightarrow> u64 \<times> kmem \<Rightarrow> (u64 \<times> kmem) outcome option" where
  "push_word env pt v = (\<lambda>(sp, k).
     let sp1 = sp - 8; k1 = k\<lparr>mem := store64 (mem k) (local_word env) v\<rparr>
     in kbind (vmm_memcpy pt sp1 (local_word env) 8 True k1) (\<lambda>(_, k2). Some (Ok (sp1, k2))))"

primrec push_words :: "exec_env \<Rightarrow> u64 \<Rightarrow> u64 list \<Rightarrow> u64 \<times> kmem \<Rightarrow> (u64 \<times> kmem) outcome option" where
  "push_words env pt [] x = Some (Ok x)"
| "push_words env pt (v # vs) x = kbind (push_word env pt v x) (push_words env pt vs)"

definition build_stack :: "exec_env \<Rightarrow> u64 \<Rightarrow> u64 list \<Rightarrow> kmem \<Rightarrow> (u64 \<times> kmem) outcome option" where
  "build_stack env pt args k =
     (let strings = takeWhile (\<lambda>a. a \<noteq> 0) (take MAX_ARGV args) in
      kbind (copy_strings pt strings USER_STACK_TOP [] k) (\<lambda>(sp, ptrs, k1).
      kbind (push_words env pt (0 # 0 # rev ptrs @ [of_nat (length ptrs)]) (sp, k1)) (\<lambda>(sp, k2).
      push_word env pt 0 (sp AND NOT 0xF, k2))))"

section \<open>Creating the process\<close>

definition stdio_file :: "int \<Rightarrow> bool \<Rightarrow> process_file \<Rightarrow> process_file" where
  "stdio_file serial_idx input f =
     f\<lparr>fd_kind := FD_DEVICE, fd_device := serial_idx, fd_offset := 0, readble := input, writable := \<not> input\<rparr>"

definition set_stdio :: "int \<Rightarrow> process \<Rightarrow> process" where
  "set_stdio serial_idx p =
     (let fs = open_files p in
      p\<lparr>open_files := fs[0 := stdio_file serial_idx True (fs ! 0), 1 := stdio_file serial_idx False (fs ! 1),
                         2 := stdio_file serial_idx False (fs ! 2)]\<rparr>)"

definition SERIAL_DEVICE_NAME :: "u8 list" where
  "SERIAL_DEVICE_NAME = [115, 101, 114, 105, 97, 108]"

definition upd_proc_of :: "u64 \<Rightarrow> (process \<Rightarrow> process) \<Rightarrow> ('d, 'e) sys_state \<Rightarrow> ('d, 'e) sys_state" where
  "upd_proc_of p f s = s\<lparr>kern := upd_proc p f (kern s)\<rparr>"

text \<open>The error exit of \<^verbatim>\<open>proc_exec\<close>; the process is 0 before it is allocated.\<close>

definition exec_bad :: "u64 \<Rightarrow> u64 \<Rightarrow> ('d, 'e) sys_state \<Rightarrow> (u64 \<times> ('d, 'e) sys_state) outcome option" where
  "exec_bad inode proc s =
     (let s1 = (if inode \<noteq> 0 then s\<lparr>fss := fs_close inode (fss s)\<rparr> else s) in
      if proc = 0 then Some (Ok (-1, s1))
      else Some (obind (vmm_user_pagetable_free (pagetable (procs (kern s1) proc)) (km (vm (kern s1)))) (\<lambda>k.
        Ok (-1, upd_proc_of proc (\<lambda>p. p\<lparr>state := UNUSED, pid := 0\<rparr>) (put_km k s1)))))"

text \<open>From the standard files on nothing fails any more but panics.\<close>

definition exec_finish ::
  "exec_env \<Rightarrow> 'd device \<Rightarrow> 'e drivers \<Rightarrow> u64 \<Rightarrow> u64 \<Rightarrow> u64 \<Rightarrow> u64 \<Rightarrow> u64 \<Rightarrow> ('d, 'e) sys_state \<Rightarrow> (u64 \<times> ('d, 'e) sys_state) outcome option" where
  "exec_finish env dev drv proc inode entry sp wd s =
     (let serial_idx = device_index drv SERIAL_DEVICE_NAME in
      if serial_idx = -1 then Some (Panic ''exec: no serial'')
      else
        let s1 = upd_proc_of proc (\<lambda>p. let top = PAGE_ROUND_UP (initial_data_segment p)
                   in (set_stdio serial_idx p)\<lparr>initial_data_segment := top, current_sbrk := top\<rparr>) s in
        kbind (vmm_allocate_proc_kernel_stack (cur_i (procs (kern s1) proc)) (vm (kern s1))) (\<lambda>(stack_top, v).
        let s2 = upd_proc_of proc (\<lambda>p. p\<lparr>kernel_stack_top := stack_top, kernel_stack_base := stack_top - KERNEL_STACK_SIZE,
                   ctx := \<lparr>ctx_rsp = sp, ctx_rip = entry, ctx_rflags = 0x202\<rparr>\<rparr>) (s1\<lparr>kern := (kern s1)\<lparr>vm := v\<rparr>\<rparr>);
            s3 = s2\<lparr>kern := proc_init_stack_canary (tsc env) proc (kern s2), fss := fs_close inode (fss s2)\<rparr> in
        kbind (if wd = 0 then Some (fs_open dev [47] 0 DZFS_O_DIR (fss s3)) else Some (Ok (wd, fs_dup wd (fss s3)))) (\<lambda>(wd1, st).
        if wd1 = 0 then Some (Panic ''exec: NULL working directory'')
        else
          let s4 = upd_proc_of proc (\<lambda>p. p\<lparr>working_directory := wd1\<rparr>) (s3\<lparr>fss := st\<rparr>);
              k1 = sched_nice proc 1 (sched_set_priority proc PRIO_NORMAL_MIN (sched_fork proc (kern s4)));
              k2 = sched_wakeup proc (upd_proc proc (\<lambda>p. p\<lparr>state := USED\<rparr>) k1)
          in Some (Ok (pid (procs k2 proc), s4\<lparr>kern := k2\<rparr>)))))"

definition proc_exec ::
  "exec_env \<Rightarrow> 'd device \<Rightarrow> 'e drivers \<Rightarrow> u8 list \<Rightarrow> u64 list \<Rightarrow> u64 \<Rightarrow> ('d, 'e) sys_state \<Rightarrow> (u64 \<times> ('d, 'e) sys_state) outcome option" where
  "proc_exec env dev drv path args wd s =
     kbind (Some (fs_open dev path wd 0 (fss s))) (\<lambda>(inode, st).
       let s1 = s\<lparr>fss := st\<rparr> in
       if inode = 0 then exec_bad 0 0 s1
       else
         let (r, xs) = fs_read dev inode 64 0 st; elf = elf_header xs in
         if r \<noteq> 64 \<or> eh_magic elf \<noteq> ELF_MAGIC then exec_bad inode 0 s1
         else kbind (proc_allocate (kern s1)) (\<lambda>(proc, kn).
           let s2 = s1\<lparr>kern := kn\<rparr>; pt = pagetable (procs kn proc) in
           if proc = 0 then exec_bad inode 0 s2
           else
             case load_bias_of elf of
               None \<Rightarrow> exec_bad inode proc s2
             | Some load_bias \<Rightarrow>
                 kbind (load_program env dev st pt inode load_bias (unat (eh_phnum elf)) (eh_phoff elf)
                          (initial_data_segment (procs kn proc)) (km (vm kn))) (\<lambda>(loaded, ids, k).
                 let s3 = upd_proc_of proc (\<lambda>p. p\<lparr>initial_data_segment := ids\<rparr>) (put_km k s2) in
                 if \<not> loaded then exec_bad inode proc s3
                 else kbind (build_stack env pt args (km (vm (kern s3)))) (\<lambda>(sp, k1).
                        exec_finish env dev drv proc inode (load_bias + eh_entry elf) sp wd (put_km k1 s3)))))"

section \<open>The system call\<close>

text \<open>
  \<^verbatim>\<open>args[i]\<close> is read through the page table of the process, which the processor is using; an address that
  does not translate is a page fault.
\<close>

definition user_byte :: "u64 \<Rightarrow> u64 \<Rightarrow> kmem \<Rightarrow> u8 option" where
  "user_byte pt va k =
     map_option (\<lambda>e. mem k (P2V (hhdm_offset k) (pte_follow e) + (va AND (PAGE_SIZE - 1)))) (translate k pt va)"

definition user_word :: "u64 \<Rightarrow> u64 \<Rightarrow> kmem \<Rightarrow> u64 outcome" where
  "user_word pt va k =
     (let bs = map (\<lambda>i. user_byte pt (va + of_nat i) k) [0..<8] in
      if None \<in> set bs then Panic ''page fault'' else Ok (load64 (store_bytes (\<lambda>_. 0) 0 (map the bs)) 0))"

primrec free_bufs :: "u64 list \<Rightarrow> ('d, 'e) sys_state \<Rightarrow> ('d, 'e) sys_state outcome" where
  "free_bufs [] s = Ok s"
| "free_bufs (b # bs) s = obind (kfree_buf b s) (free_bufs bs)"

text \<open>The loop over the arguments, with the number of turns left; the flag tells whether all could be copied.\<close>

primrec copy_args :: "nat \<Rightarrow> u64 \<Rightarrow> u64 list \<Rightarrow> ('d, 'e) sys_state \<Rightarrow> (bool \<times> u64 list \<times> ('d, 'e) sys_state) outcome option" where
  "copy_args 0 args bufs s = Some (Ok (True, bufs, s))"
| "copy_args (Suc m) args bufs s =
     kbind (Some (user_word (pagetable (me s)) args (km (vm (kern s))))) (\<lambda>arg.
       if arg = 0 then Some (Ok (True, bufs, s))
       else kbind (validate_user_string arg MAX_PATH_LENGTH s) (\<lambda>(buf, s1).
         if buf = 0 then Some (Ok (False, bufs, s1)) else copy_args m (args + 8) (bufs @ [buf]) s1))"

definition sys_exec ::
  "exec_env \<Rightarrow> 'd device \<Rightarrow> 'e drivers \<Rightarrow> u64 \<Rightarrow> u64 \<Rightarrow> ('d, 'e) sys_state \<Rightarrow> (u64 \<times> ('d, 'e) sys_state) outcome option" where
  "sys_exec env dev drv path args s =
     kbind (validate_user_string path MAX_PATH_LENGTH s) (\<lambda>(kernel_path, s1).
       if kernel_path = 0 then Some (Ok (-1, s1))
       else kbind (if args \<noteq> 0 then validate_user args (8 * MAX_ARGV) False s1 else Some (Ok True)) (\<lambda>ok.
         if \<not> ok then Some (obind (kfree_buf kernel_path s1) (\<lambda>s2. Ok (-1, s2)))
         else kbind (if args \<noteq> 0 then copy_args MAX_ARGV args [] s1 else Some (Ok (True, [], s1))) (\<lambda>(ok, bufs, s2).
           if \<not> ok then Some (obind (free_bufs bufs s2) (\<lambda>s3. obind (kfree_buf kernel_path s3) (\<lambda>s4. Ok (-1, s4))))
           else kbind (proc_exec env dev drv (kernel_string s2 kernel_path) (bufs @ replicate (MAX_ARGV - length bufs) 0)
                        (working_directory (me s2)) s2) (\<lambda>(r, s3).
                  Some (obind (kfree_buf kernel_path s3) (\<lambda>s4. obind (free_bufs bufs s4) (\<lambda>s5. Ok (r, s5))))))))"

end
