(* ===== verification/User_Memory.thy ===== *)
theory User_Memory
  imports Page_Props
begin

text \<open>
  Memory seen through page tables: the address behind a virtual address, ranges of user memory with frames of their own,
  and what a write to such a range does. The loops of \<^verbatim>\<open>vmm_memcpy\<close> and \<^verbatim>\<open>vmm_zero\<close> write page by page.
\<close>

section \<open>Ranges of user memory\<close>

definition user_addr :: "kmem \<Rightarrow> u64 \<Rightarrow> u64 \<Rightarrow> u64" where
  "user_addr k root va =
     (case translate k root va of None \<Rightarrow> 0 | Some e \<Rightarrow> P2V (hhdm_offset k) (pte_follow e) + (va AND 4095))"

text \<open>
  The \<open>n\<close> bytes from \<open>va\<close> on are user memory whose entries satisfy \<open>P\<close>, no two share a byte, and their frames are
  neither tables nor free.
\<close>

definition user_range :: "(u64 \<Rightarrow> (nat \<times> nat) option) \<Rightarrow> kmem \<Rightarrow> u64 \<Rightarrow> (u64 \<Rightarrow> bool) \<Rightarrow> u64 \<Rightarrow> nat \<Rightarrow> bool" where
  "user_range own k root P va n \<longleftrightarrow> pt_inv own k root \<and> phys_inv k \<and> USERSPACE_VA_MIN \<le> va \<and> unat va + n \<le> 2 ^ 46 \<and>
     (\<forall>j<n. \<exists>e. translate k root (va + of_nat j) = Some e \<and> pte_is_user e \<and> pte_follow e \<noteq> 0 \<and> P e \<and>
        page_of (user_addr k root (va + of_nat j)) \<notin> dom own \<union> pool k) \<and>
     inj_on (\<lambda>j. user_addr k root (va + of_nat j)) {..<n}"

definition user_written :: "kmem \<Rightarrow> u64 \<Rightarrow> u64 \<Rightarrow> u8 list \<Rightarrow> kmem \<Rightarrow> bool" where
  "user_written k root va xs k' \<longleftrightarrow> k' = k\<lparr>mem := mem k'\<rparr> \<and>
     (\<forall>j<length xs. mem k' (user_addr k root (va + of_nat j)) = xs ! j) \<and>
     (\<forall>x. (\<forall>j<length xs. x \<noteq> user_addr k root (va + of_nat j)) \<longrightarrow> mem k' x = mem k x)"

lemma user_rangeD:
  assumes "user_range own k root P va n"
  shows "pt_inv own k root" "phys_inv k" "USERSPACE_VA_MIN \<le> va" "unat va + n \<le> 2 ^ 46"
    "j < n \<Longrightarrow> \<exists>e. translate k root (va + of_nat j) = Some e \<and> pte_is_user e \<and> pte_follow e \<noteq> 0 \<and> P e \<and>
        user_addr k root (va + of_nat j) = P2V (hhdm_offset k) (pte_follow e) + ((va + of_nat j) AND 4095) \<and>
        page_of (user_addr k root (va + of_nat j)) \<notin> dom own \<union> pool k"
    "j < n \<Longrightarrow> i < n \<Longrightarrow> user_addr k root (va + of_nat j) = user_addr k root (va + of_nat i) \<Longrightarrow> j = i"
  using assms unfolding user_range_def user_addr_def inj_on_def by fastforce+

lemma user_va:
  assumes "user_range own k root P va n" "j \<le> n"
  shows "unat (va + of_nat j) = unat va + j"
proof -
  have "j < 2 ^ 64" using user_rangeD(4) [OF assms(1)] assms(2) by simp
  then show ?thesis using user_rangeD(4) [OF assms(1)] assms(2) by (simp add: unat_word_ariths unat_of_nat_u64)
qed

lemma user_va_bounds:
  assumes "user_range own k root P va n" "j < n"
  shows "USERSPACE_VA_MIN \<le> va + of_nat j" "va + of_nat j < USERSPACE_VA_MAX"
  using user_rangeD(3,4) [OF assms(1)] user_va [OF assms(1), of j] assms(2)
  by (simp_all add: word_le_nat_alt word_less_nat_alt USERSPACE_VA_MIN_def USERSPACE_VA_MAX_def)

lemma user_range_sub:
  assumes "user_range own k root P va n" "t \<le> n"
  shows "user_range own k root P (va + of_nat t) (n - t)"
proof -
  have va: "unat (va + of_nat t) = unat va + t" using user_va [OF assms] .
  have add: "va + of_nat t + of_nat j = va + of_nat (t + j)" for j :: nat by (simp add: add.assoc)
  have "USERSPACE_VA_MIN \<le> va + of_nat t" using user_rangeD(3) [OF assms(1)] va by (simp add: word_le_nat_alt)
  moreover have "inj_on (\<lambda>j. user_addr k root (va + of_nat t + of_nat j)) {..<n - t}"
    unfolding add
  proof (rule inj_onI)
    fix x y assume "x \<in> {..<n - t}" "y \<in> {..<n - t}" "user_addr k root (va + of_nat (t + x)) = user_addr k root (va + of_nat (t + y))"
    then have "t + x = t + y" using user_rangeD(6) [OF assms(1), of "t + x" "t + y"] by (simp del: of_nat_add)
    then show "x = y" by simp
  qed
  moreover have "\<forall>j<n - t. \<exists>e. translate k root (va + of_nat t + of_nat j) = Some e \<and> pte_is_user e \<and> pte_follow e \<noteq> 0 \<and> P e \<and>
        page_of (user_addr k root (va + of_nat t + of_nat j)) \<notin> dom own \<union> pool k"
    unfolding add using user_rangeD(5) [OF assms(1)] by (metis less_diff_conv add.commute)
  ultimately show ?thesis
    using user_rangeD(1,2,4) [OF assms(1)] va assms(2) unfolding user_range_def by auto
qed

lemma user_range_prefix: "user_range own k root P va n \<Longrightarrow> t \<le> n \<Longrightarrow> user_range own k root P va t"
  unfolding user_range_def inj_on_def by auto

text \<open>Writes outside the free pages keep the allocator.\<close>

lemma mem_writes_pool:
  assumes "phys_inv s" "\<And>a. page_of a \<in> pool s \<Longrightarrow> m a = mem s a"
  shows "phys_inv (s\<lparr>mem := m\<rparr>)" "pool (s\<lparr>mem := m\<rparr>) = pool s"
proof -
  from assms(1) obtain xs where xs: "flist (mem s) (freepages s) xs" "free_list_pages s = set xs"
    "\<forall>x \<in> set xs. page_aligned x" "set xs \<inter> regions_pages (hhdm_offset s) (regions s) = {}"
    by (rule phys_inv_free_list)
  have "load64 m x = load64 (mem s) x" if "x \<in> set xs" for x
  proof (rule load64_cong)
    fix a assume "in_range x 8 a"
    then have "in_range x 4096 a" by (rule in_range_mono) simp
    then have "page_of a = x" using page_of_eq_iff xs(3) that by blast
    then show "m a = mem s a" using assms(2) that xs(2) by (simp add: pool_def)
  qed
  then have m: "flist m (freepages s) xs" using xs(1) flist_cong [of xs m "mem s"] by blast
  then show "phys_inv (s\<lparr>mem := m\<rparr>)" using assms(1) xs unfolding phys_inv_def by auto
  show "pool (s\<lparr>mem := m\<rparr>) = pool s"
    using free_list_pages_flist [of "s\<lparr>mem := m\<rparr>" xs] m xs(2) by (simp add: pool_def)
qed

text \<open>Writes outside the tables and the free pages change no translation; writes to the range are such.\<close>

lemma outside_write_keeps:
  assumes "pt_inv own k root" "phys_inv k" "k' = k\<lparr>mem := mem k'\<rparr>" "\<forall>a. page_of a \<in> dom own \<union> pool k \<longrightarrow> mem k' a = mem k a"
  shows "pt_inv own k' root" "phys_inv k'" "pool k' = pool k" "translate k' root va' = translate k root va'"
    "user_addr k' root va' = user_addr k root va'" "user_range own k root P va n \<Longrightarrow> user_range own k' root P va n"
proof -
  have "phys_inv (k\<lparr>mem := mem k'\<rparr>)" "pool (k\<lparr>mem := mem k'\<rparr>) = pool k"
    using mem_writes_pool [OF assms(2), of "mem k'"] assms(4) by auto
  then show ph: "phys_inv k'" "pool k' = pool k" by (simp_all only: assms(3) [symmetric])
  have "hhdm_offset (k\<lparr>mem := mem k'\<rparr>) = hhdm_offset k" by simp
  then have h: "hhdm_offset k' = hhdm_offset k" by (simp only: assms(3) [symmetric])
  have "pool k' \<inter> dom own = {}" using ph(2) pt_invD(3) [OF assms(1)] by auto
  note u = tables_unchanged [OF assms(1) this h]
  show pt: "pt_inv own k' root" and tr: "translate k' root va' = translate k root va'" for va' using u assms(4) by auto
  show ua: "user_addr k' root va' = user_addr k root va'" for va' unfolding user_addr_def tr h ..
  show "user_range own k root P va n \<Longrightarrow> user_range own k' root P va n"
    unfolding user_range_def ua tr ph(2) by (simp add: pt ph(1))
qed

lemma user_written_keeps:
  assumes "user_range own k root P va n" "user_written k root va xs k'" "length xs \<le> n"
  shows "pt_inv own k' root" "phys_inv k'" "pool k' = pool k" "translate k' root va' = translate k root va'"
    "user_addr k' root va' = user_addr k root va'" "user_range own k root Q va2 m \<Longrightarrow> user_range own k' root Q va2 m"
proof -
  have k': "k' = k\<lparr>mem := mem k'\<rparr>" "\<And>x. (\<forall>j<length xs. x \<noteq> user_addr k root (va + of_nat j)) \<Longrightarrow> mem k' x = mem k x"
    using assms(2) unfolding user_written_def by blast+
  have same: "\<forall>a. page_of a \<in> dom own \<union> pool k \<longrightarrow> mem k' a = mem k a"
    using k'(2) user_rangeD(5) [OF assms(1)] assms(3) by (metis order_less_le_trans)
  note o = outside_write_keeps [OF user_rangeD(1,2) [OF assms(1)] k'(1) same]
  show "pt_inv own k' root" by (rule o(1))
  show "phys_inv k'" by (rule o(2))
  show "pool k' = pool k" by (rule o(3))
  show "translate k' root va' = translate k root va'" by (rule o(4))
  show "user_addr k' root va' = user_addr k root va'" by (rule o(5))
  show "user_range own k root Q va2 m \<Longrightarrow> user_range own k' root Q va2 m" by (rule o(6))
qed

lemma user_written_append:
  assumes "user_range own k root P va (length xs + length ys)" "user_written k root va xs k1"
    "user_written k1 root (va + of_nat (length xs)) ys k2"
  shows "user_written k root va (xs @ ys) k2"
proof -
  have le: "length xs \<le> length xs + length ys" by simp
  note keep = user_written_keeps [OF assms(1,2) le]
  have add: "va + of_nat (length xs) + of_nat j = va + of_nat (length xs + j)" for j :: nat by (simp add: add.assoc)
  have k1: "k1 = k\<lparr>mem := mem k1\<rparr>" "\<And>j. j < length xs \<Longrightarrow> mem k1 (user_addr k root (va + of_nat j)) = xs ! j"
    "\<And>x. (\<forall>j<length xs. x \<noteq> user_addr k root (va + of_nat j)) \<Longrightarrow> mem k1 x = mem k x"
    using assms(2) unfolding user_written_def by blast+
  have k2: "k2 = k1\<lparr>mem := mem k2\<rparr>" "\<And>j. j < length ys \<Longrightarrow> mem k2 (user_addr k root (va + of_nat (length xs + j))) = ys ! j"
    "\<And>x. (\<forall>j<length ys. x \<noteq> user_addr k root (va + of_nat (length xs + j))) \<Longrightarrow> mem k2 x = mem k1 x"
    using assms(3) unfolding user_written_def keep(5) add by blast+
  have "k2 = k\<lparr>mem := mem k2\<rparr>" using k1(1) k2(1) by (metis kmem.surjective kmem.update_convs(1))
  moreover have "mem k2 (user_addr k root (va + of_nat j)) = (xs @ ys) ! j" if "j < length (xs @ ys)" for j
  proof (cases "j < length xs")
    case True
    have "user_addr k root (va + of_nat j) \<noteq> user_addr k root (va + of_nat (length xs + i))" if "i < length ys" for i
      using user_rangeD(6) [OF assms(1), of j "length xs + i"] True that by (auto simp del: of_nat_add)
    then show ?thesis using k2(3) k1(2) True by (simp add: nth_append del: of_nat_add)
  next
    case False
    then show ?thesis using k2(2) [of "j - length xs"] that by (simp add: nth_append del: of_nat_add of_nat_diff)
  qed
  moreover have "mem k2 x = mem k x" if "\<forall>j<length (xs @ ys). x \<noteq> user_addr k root (va + of_nat j)" for x
  proof -
    have "\<forall>j<length ys. x \<noteq> user_addr k root (va + of_nat (length xs + j))" "\<forall>j<length xs. x \<noteq> user_addr k root (va + of_nat j)"
      using that by (simp_all del: of_nat_add)
    then show ?thesis using k2(3) k1(3) by simp
  qed
  ultimately show ?thesis unfolding user_written_def by blast
qed

text \<open>One page at a time.\<close>

lemma page_offset: "unat (a AND 4095 :: u64) = unat a mod 4096"
  by (simp add: and_4095 unat_mod_distrib)

lemma unat_plus_nat: "unat (a :: u64) + j < 2 ^ 64 \<Longrightarrow> unat (a + of_nat j) = unat a + j"
  by (simp add: unat_word_ariths unat_of_nat)

lemma page_steps: "x mod 4096 + j < 4096 \<Longrightarrow> (x + j) div 4096 = x div 4096 \<and> (x + j) mod 4096 = x mod 4096 + (j :: nat)"
proof -
  assume lt: "x mod 4096 + j < 4096"
  define q r where "q = x div 4096" and "r = x mod 4096"
  have x: "x = 4096 * q + r" by (simp add: q_def r_def)
  have "r + j < 4096" using lt by (simp add: r_def)
  then have "(4096 * q + (r + j)) div 4096 = q" "(4096 * q + (r + j)) mod 4096 = r + j" by simp_all
  then show ?thesis unfolding q_def [symmetric] r_def [symmetric] by (simp add: x add.assoc)
qed

lemma same_page:
  assumes "user_range own k root P va n" "j < n" "unat va mod 4096 + j < 4096"
  shows "translate k root (va + of_nat j) = translate k root va" "user_addr k root (va + of_nat j) = user_addr k root va + of_nat j"
proof -
  have va: "unat (va + of_nat j) = unat va + j" using user_va [OF assms(1)] assms(2) by simp
  have lt: "unat va + j < 2 ^ 48" using user_rangeD(4) [OF assms(1)] assms(2) by simp
  note st = page_steps [OF assms(3)]
  then have "vpn (va + of_nat j) 0 = vpn va 0" using va lt st by (simp add: vpn_low)
  then show tr: "translate k root (va + of_nat j) = translate k root va" by (rule translate_cong)
  have "0 < n" using assms(2) by simp
  then obtain e where e: "translate k root va = Some e" using user_rangeD(5) [OF assms(1), of 0] by auto
  have "unat ((va + of_nat j) AND 4095) = unat ((va AND 4095) + of_nat j)"
  proof -
    have "unat (va AND 4095) + j < 2 ^ 64" using assms(3) by (simp add: page_offset)
    then have "unat ((va AND 4095) + of_nat j) = unat va mod 4096 + j"
      by (simp only: unat_plus_nat page_offset)
    moreover have "(unat va + j) mod 4096 = unat va mod 4096 + j" using st by simp
    ultimately show ?thesis using va by (simp add: page_offset)
  qed
  then have "(va + of_nat j) AND 4095 = (va AND 4095) + of_nat j" by (simp only: word_unat_eq_iff)
  then show "user_addr k root (va + of_nat j) = user_addr k root va + of_nat j" using tr e by (simp add: user_addr_def add.assoc)
qed

lemma user_written_page:
  assumes "user_range own k root P va n" "length xs \<le> n" "unat va mod 4096 + length xs \<le> 4096"
  shows "user_written k root va xs (k\<lparr>mem := store_bytes (mem k) (user_addr k root va) xs\<rparr>)"
proof -
  have ad: "user_addr k root (va + of_nat j) = user_addr k root va + of_nat j" if "j < length xs" for j
    using same_page(2) [OF assms(1), of j] that assms(2,3) by simp
  have u: "unat (of_nat j :: u64) = j" if "j < length xs" for j
    using that assms(3) by (intro unat_of_nat_u64) simp
  have "mem k x = store_bytes (mem k) (user_addr k root va) xs x" if "\<forall>j<length xs. x \<noteq> user_addr k root va + of_nat j" for x
  proof (rule ccontr)
    assume "mem k x \<noteq> store_bytes (mem k) (user_addr k root va) xs x"
    then have "unat (x - user_addr k root va) < length xs" by (auto simp: store_bytes_def split: if_splits)
    then show False using that [rule_format, of "unat (x - user_addr k root va)"] by simp
  qed
  then show ?thesis
    unfolding user_written_def using ad u by (simp add: store_bytes_def)
qed

section \<open>Copying to user memory\<close>

lemma memmove_store:
  assumes "unat dest + n \<le> 2 ^ 64" "unat src + n \<le> 2 ^ 64" "length xs = n" "\<And>t. t < n \<Longrightarrow> m (src + of_nat t) = xs ! t"
  shows "memmove m dest src n = store_bytes m dest xs"
proof -
  have "m (src + (a - dest)) = xs ! unat (a - dest)" if "unat (a - dest) < n" for a
    using assms(4) [OF that] by simp
  then show ?thesis
    unfolding memmove_copied [OF assms(1,2)] copied_def store_bytes_def in_range_def using assms(3) by auto
qed

text \<open>The first page of a range of user memory below 4 GB, as the loops compute it.\<close>

lemma user_first_page:
  assumes "user_range own k root P va n" "0 < n" "unat va < 2 ^ 32"
  obtains e pte where "walk root (PAGE_ROUND_DOWN va) False False k = Ok (pte, k)" "pte \<noteq> 0" "load64 (mem k) pte = e"
    "pte_is_present e" "pte_is_user e" "P e" "USERSPACE_VA_MIN \<le> PAGE_ROUND_DOWN va" "PAGE_ROUND_DOWN va < USERSPACE_VA_MAX"
    "P2V (hhdm_offset k) (pte_follow e) + (va - PAGE_ROUND_DOWN va) = user_addr k root va"
    "unat (va - PAGE_ROUND_DOWN va) = unat va mod 4096" "unat (user_addr k root va) + (4096 - unat va mod 4096) \<le> 2 ^ 64"
proof -
  define va0 where "va0 = PAGE_ROUND_DOWN va"
  have va0: "unat va0 = unat va div 4096 * 4096" using unat_PAGE_ROUND_DOWN [OF assms(3)] by (simp add: va0_def)
  have bd: "0x400000 \<le> unat va" "unat va < 2 ^ 46"
    using user_rangeD(3,4) [OF assms(1)] assms(2) by (simp_all add: word_le_nat_alt USERSPACE_VA_MIN_def)
  have "unat va div 4096 * 4096 \<le> unat va" by (simp add: div_times_less_eq_dividend)
  then have b0: "unat va0 < 2 ^ 46" using bd(2) va0 by simp
  have "1024 \<le> unat va div 4096" using div_le_mono [OF bd(1), of 4096] by simp
  then have b1: "0x400000 \<le> unat va0" unfolding va0 by simp
  have rng: "USERSPACE_VA_MIN \<le> va0" "va0 < USERSPACE_VA_MAX"
    using b0 b1 by (simp_all add: word_le_nat_alt word_less_nat_alt USERSPACE_VA_MIN_def USERSPACE_VA_MAX_def)
  have "vpn va0 0 = vpn va 0" using va0 bd b0 by (simp add: vpn_low)
  then have tr: "translate k root va0 = translate k root va" by (rule translate_cong)
  obtain e where e: "translate k root va = Some e" "pte_is_user e" "P e" "user_addr k root va = P2V (hhdm_offset k) (pte_follow e) + (va AND 4095)"
    using user_rangeD(5) [OF assms(1,2)] by auto
  from walk_read [OF user_rangeD(1) [OF assms(1)] rng] obtain pte where pte: "walk root va0 False False k = Ok (pte, k)"
    "translate k root va0 = (if pte = 0 \<or> \<not> pte_is_present (load64 (mem k) pte) then None else Some (load64 (mem k) pte))" .
  have ent: "pte \<noteq> 0" "load64 (mem k) pte = e" "pte_is_present e" using pte(2) tr e(1) by (auto split: if_splits)
  have off: "unat (va - va0) = unat va mod 4096"
    using va0 by (simp add: unat_diff minus_div_mult_eq_mod)
  then have lo: "va - va0 = va AND 4095" by (simp add: word_unat_eq_iff page_offset)
  define f where "f = P2V (hhdm_offset k) (pte_follow e)"
  have "page_aligned f"
    using user_rangeD(2) [OF assms(1)] page_aligned_follow [of e] page_aligned_P2V unfolding f_def phys_inv_def by blast
  then obtain q where q: "unat f = 4096 * q" by (rule page_aligned_obtain)
  have "4096 * q < 2 ^ 64" using q unat_lt_2p64 [of f] by simp
  then have fq: "4096 * q + 4096 \<le> 2 ^ 64" by simp
  have ua: "user_addr k root va = f + of_nat (unat va mod 4096)"
    using e(4) by (simp add: f_def flip: page_offset)
  have lt: "unat va mod 4096 < 4096" by simp
  then have "unat (f + of_nat (unat va mod 4096)) = 4096 * q + unat va mod 4096"
    using fq q by (subst unat_plus_nat) simp_all
  then have up: "unat (user_addr k root va) + (4096 - unat va mod 4096) \<le> 2 ^ 64" using ua fq lt by simp
  show ?thesis
    by (rule that [OF pte(1) [unfolded va0_def] ent(1-3) e(2,3) rng [unfolded va0_def] _ off [unfolded va0_def] up])
       (simp add: e(4) lo [unfolded va0_def])
qed

lemma vmm_memcpy_spec:
  assumes "user_range own k root pte_is_writable dst (length xs)" "unat dst + length xs \<le> 2 ^ 32"
    "unat source + length xs \<le> 2 ^ 64" "\<forall>t<length xs. mem k (source + of_nat t) = xs ! t"
    "\<forall>t<length xs. \<forall>j<length xs. source + of_nat t \<noteq> user_addr k root (dst + of_nat j)"
  shows "\<exists>k'. vmm_memcpy root dst source (of_nat (length xs)) True k = Some (Ok (0, k')) \<and> user_written k root dst xs k'"
  using assms
proof (induction "length xs" arbitrary: xs dst source k rule: less_induct)
  case less
  show ?case
  proof (cases "xs = []")
    case True
    then show ?thesis by (subst vmm_memcpy.simps) (simp add: user_written_def)
  next
    case False
    then have pos: "0 < length xs" by simp
    note R = less.prems(1)
    have d32: "unat dst < 2 ^ 32" using less.prems(2) pos by linarith
    define c where "c = min (4096 - unat dst mod 4096) (length xs)"
    have lt: "unat dst mod 4096 < 4096" by simp
    have c: "0 < c" "c \<le> length xs" "unat dst mod 4096 + c \<le> 4096" using pos lt by (auto simp: c_def)
    have lenx: "unat (of_nat (length xs) :: u64) = length xs" using less.prems(2) by (intro unat_of_nat_u64) simp
    from user_first_page [OF R pos d32] obtain e pte where w: "walk root (PAGE_ROUND_DOWN dst) False False k = Ok (pte, k)"
      "pte \<noteq> 0" "load64 (mem k) pte = e" "pte_is_present e" "pte_is_user e" "pte_is_writable e" "USERSPACE_VA_MIN \<le> PAGE_ROUND_DOWN dst"
      "PAGE_ROUND_DOWN dst < USERSPACE_VA_MAX" "P2V (hhdm_offset k) (pte_follow e) + (dst - PAGE_ROUND_DOWN dst) = user_addr k root dst"
      "unat (dst - PAGE_ROUND_DOWN dst) = unat dst mod 4096" "unat (user_addr k root dst) + (4096 - unat dst mod 4096) \<le> 2 ^ 64" .
    define n where "n = (if PAGE_SIZE - (dst - PAGE_ROUND_DOWN dst) > of_nat (length xs) then of_nat (length xs)
        else PAGE_SIZE - (dst - PAGE_ROUND_DOWN dst))"
    have "unat (PAGE_SIZE - (dst - PAGE_ROUND_DOWN dst)) = 4096 - unat dst mod 4096"
      using w(10) lt by (simp add: unat_diff PAGE_SIZE_def)
    then have n: "unat n = c" using lenx by (simp add: n_def c_def word_less_nat_alt)
    then have nc: "n = of_nat c" by (simp flip: n)
    define k1 where "k1 = k\<lparr>mem := memmove (mem k) (user_addr k root dst) source (unat n)\<rparr>"
    have "memmove (mem k) (user_addr k root dst) source c = store_bytes (mem k) (user_addr k root dst) (take c xs)"
      using w(11) less.prems(3,4) c by (intro memmove_store) auto
    then have wr: "user_written k root dst (take c xs) k1"
      unfolding k1_def n using user_written_page [OF R, of "take c xs"] c by simp
    have step: "vmm_memcpy root dst source (of_nat (length xs)) True k =
        vmm_memcpy root (PAGE_ROUND_DOWN dst + PAGE_SIZE) (source + n) (of_nat (length xs) - n) True k1"
    proof -
      have "\<not> (PAGE_ROUND_DOWN dst \<ge> USERSPACE_VA_MAX \<or> PAGE_ROUND_DOWN dst < USERSPACE_VA_MIN)" using w(7,8) by auto
      moreover have "(0 :: u64) < of_nat (length xs)" using lenx pos by (simp add: word_less_nat_alt)
      ultimately show ?thesis
        using w(1-6,9) by (subst vmm_memcpy.simps) (simp add: Let_def n_def [symmetric] k1_def)
    qed
    show ?thesis
    proof (cases "c = length xs")
      case True
      then have "vmm_memcpy root dst source (of_nat (length xs)) True k = Some (Ok (0, k1))"
        unfolding step by (subst vmm_memcpy.simps) (simp add: nc)
      then show ?thesis using wr True by auto
    next
      case False
      then have cl: "c < length xs" "unat dst mod 4096 + c = 4096" using c(2) lt by (auto simp: c_def)
      have le: "length (take c xs) \<le> length xs" by simp
      note keep = user_written_keeps [OF R wr le]
      define dst1 where "dst1 = dst + of_nat c"
      have d1: "unat dst1 = unat dst + c" using user_va [OF R c(2)] by (simp add: dst1_def)
      have "unat (PAGE_ROUND_DOWN dst + PAGE_SIZE) = unat dst + c"
      proof -
        have eq: "unat (PAGE_ROUND_DOWN dst) + 4096 = unat dst + c"
          unfolding unat_PAGE_ROUND_DOWN [OF d32] using cl(2) div_mult_mod_eq [of "unat dst" 4096] by linarith
        have "PAGE_SIZE = of_nat 4096" by (simp add: PAGE_SIZE_def)
        moreover have "unat (PAGE_ROUND_DOWN dst) + 4096 < 2 ^ 64" unfolding eq using cl(1) less.prems(2) by simp
        ultimately show ?thesis using eq unat_plus_nat [of "PAGE_ROUND_DOWN dst" 4096] by metis
      qed
      then have nxt: "PAGE_ROUND_DOWN dst + PAGE_SIZE = dst1" using d1 by (simp add: word_unat_eq_iff)
      have len1: "of_nat (length xs) - n = of_nat (length (drop c xs))" using cl(1) by (simp add: nc of_nat_diff)
      have shorter: "length (drop c xs) < length xs" using c(1) cl(1) by simp
      have "user_range own k1 root pte_is_writable dst1 (length (drop c xs))"
        using user_range_sub [OF keep(6) [OF R] c(2)] by (simp add: dst1_def)
      moreover have "unat dst1 + length (drop c xs) \<le> 2 ^ 32" using d1 less.prems(2) cl(1) by simp
      moreover have sn: "unat (source + n) = unat source + c" unfolding nc using less.prems(3) cl(1) by (intro unat_plus_nat) simp
      then have "unat (source + n) + length (drop c xs) \<le> 2 ^ 64" using less.prems(3) cl(1) by simp
      moreover have src: "source + n + of_nat t = source + of_nat (c + t)" "dst1 + of_nat t = dst + of_nat (c + t)" for t
        by (simp_all add: nc dst1_def add.assoc)
      have "\<forall>t<length (drop c xs). mem k1 (source + n + of_nat t) = drop c xs ! t"
      proof (intro allI impI)
        fix t assume t: "t < length (drop c xs)"
        then have "\<forall>j<length (take c xs). source + of_nat (c + t) \<noteq> user_addr k root (dst + of_nat j)"
          using less.prems(5) cl(1) by (simp del: of_nat_add)
        then have "mem k1 (source + of_nat (c + t)) = mem k (source + of_nat (c + t))" using wr unfolding user_written_def by blast
        also have "\<dots> = xs ! (c + t)" using less.prems(4) t by (simp del: of_nat_add)
        finally show "mem k1 (source + n + of_nat t) = drop c xs ! t" using cl(1) unfolding src by simp
      qed
      moreover have "\<forall>t<length (drop c xs). \<forall>j<length (drop c xs). source + n + of_nat t \<noteq> user_addr k1 root (dst1 + of_nat j)"
        unfolding src keep(5) using less.prems(5) by (simp del: of_nat_add)
      ultimately obtain k' where k': "vmm_memcpy root dst1 (source + n) (of_nat (length (drop c xs))) True k1 = Some (Ok (0, k'))"
        "user_written k1 root dst1 (drop c xs) k'"
        using less.hyps [OF shorter, of k1 dst1 "source + n"] by blast
      have "user_written k root dst (take c xs @ drop c xs) k'"
        using user_written_append [of own k root pte_is_writable dst "take c xs" "drop c xs", OF _ wr] k'(2) R cl(1)
        by (simp add: dst1_def)
      then show ?thesis using k'(1) unfolding step nxt len1 by auto
    qed
  qed
qed


section \<open>Clearing user memory\<close>

lemma zero_loop_spec:
  assumes "user_range own k root pte_is_writable va n" "unat va + n \<le> 2 ^ 32" "unat zbuf + 4096 \<le> 2 ^ 64"
    "\<forall>t<4096. mem k (zbuf + of_nat t) = 0" "\<forall>t<4096. \<forall>j<n. zbuf + of_nat t \<noteq> user_addr k root (va + of_nat j)"
  shows "\<exists>k'. zero_loop root zbuf va (va + of_nat n) k = Some (Ok (0, k')) \<and> user_written k root va (replicate n 0) k'"
  using assms
proof (induction n arbitrary: va k rule: less_induct)
  case (less n)
  note R = less.prems(1)
  have stop: "unat (va + of_nat n) = unat va + n" using user_va [OF R] by simp
  show ?case
  proof (cases "n = 0")
    case True
    then show ?thesis by (subst zero_loop.simps) (simp add: user_written_def)
  next
    case False
    then have lt: "va < va + of_nat n" using stop by (simp add: word_less_nat_alt)
    define c where "c = min n 4096"
    have c: "0 < c" "c \<le> n" "c \<le> 4096" using False by (simp_all add: c_def)
    define w where "w = (if va + of_nat n - va > PAGE_SIZE then PAGE_SIZE else va + of_nat n - va)"
    have nn: "unat (of_nat n :: u64) = n" using less.prems(2) by (intro unat_of_nat_u64) simp
    have w: "w = of_nat c"
    proof -
      have "unat PAGE_SIZE = 4096" by (simp add: PAGE_SIZE_def)
      then have "PAGE_SIZE < (of_nat n :: u64) \<longleftrightarrow> 4096 < n" using nn by (simp add: word_less_nat_alt)
      then show ?thesis by (simp add: w_def c_def PAGE_SIZE_def)
    qed
    have "\<exists>k1. vmm_memcpy root va zbuf (of_nat (length (replicate c (0 :: u8)))) True k = Some (Ok (0, k1)) \<and>
        user_written k root va (replicate c 0) k1"
    proof (rule vmm_memcpy_spec)
      show "user_range own k root pte_is_writable va (length (replicate c (0 :: u8)))" using user_range_prefix [OF R c(2)] by simp
    qed (use less.prems(2-5) c in auto)
    then obtain k1 where k1: "vmm_memcpy root va zbuf (of_nat c) True k = Some (Ok (0, k1))" "user_written k root va (replicate c 0) k1"
      by auto
    have len: "length (replicate c (0 :: u8)) \<le> n" using c(2) by simp
    note keep = user_written_keeps [OF R k1(2) len]
    define va1 where "va1 = va + of_nat c"
    have v1: "unat va1 = unat va + c" using user_va [OF R c(2)] by (simp add: va1_def)
    have st: "va + of_nat n = va1 + of_nat (n - c)" using c(2) by (simp add: va1_def of_nat_diff)
    have sh: "va1 + of_nat j = va + of_nat (c + j)" for j by (simp add: va1_def add.assoc)
    have "user_range own k1 root pte_is_writable va1 (n - c)" using user_range_sub [OF keep(6) [OF R] c(2)] by (simp add: va1_def)
    moreover have "unat va1 + (n - c) \<le> 2 ^ 32" using v1 less.prems(2) c(2) by simp
    moreover have "\<forall>t<4096. mem k1 (zbuf + of_nat t) = 0"
    proof (intro allI impI)
      fix t :: nat assume t: "t < 4096"
      then have "\<forall>j<length (replicate c (0 :: u8)). zbuf + of_nat t \<noteq> user_addr k root (va + of_nat j)" using less.prems(5) c(2) by simp
      then show "mem k1 (zbuf + of_nat t) = 0" using k1(2) less.prems(4) t unfolding user_written_def by metis
    qed
    moreover have "\<forall>t<4096. \<forall>j<n - c. zbuf + of_nat t \<noteq> user_addr k1 root (va1 + of_nat j)"
      unfolding sh keep(5) using less.prems(5) by (simp del: of_nat_add)
    moreover have "n - c < n" using c by simp
    ultimately obtain k' where k': "zero_loop root zbuf va1 (va1 + of_nat (n - c)) k1 = Some (Ok (0, k'))"
      "user_written k1 root va1 (replicate (n - c) 0) k'"
      using less.IH [of "n - c" k1 va1] less.prems(3) by blast
    have "zero_loop root zbuf va (va + of_nat n) k = zero_loop root zbuf va1 (va + of_nat n) k1"
      by (subst zero_loop.simps) (simp only: w_def [symmetric] Let_def w k1(1) lt not_True_eq_False if_False, simp add: va1_def)
    moreover have "user_written k root va (replicate c 0 @ replicate (n - c) 0) k'"
      by (rule user_written_append [OF _ k1(2)]) (use R k'(2) c(2) in \<open>simp_all add: va1_def\<close>)
    moreover have "replicate c (0 :: u8) @ replicate (n - c) 0 = replicate n 0" using c(2) by (simp flip: replicate_add)
    ultimately show ?thesis using k'(1) unfolding st by auto
  qed
qed


definition zero_page :: "u64 \<Rightarrow> kmem \<Rightarrow> kmem" where
  "zero_page zbuf k = k\<lparr>mem := filled (mem k) zbuf 0 4096\<rparr>"

lemma vmm_zero_spec:
  assumes "user_range own k root pte_is_writable va n" "unat va + n \<le> 2 ^ 32" "unat zbuf + 4096 \<le> 2 ^ 64"
    "\<forall>t<4096. page_of (zbuf + of_nat t) \<notin> dom own \<union> pool k" "\<forall>t<4096. \<forall>j<n. zbuf + of_nat t \<noteq> user_addr k root (va + of_nat j)"
  shows "\<exists>k'. vmm_zero zbuf root va (of_nat n) k = Some (Ok (0, k')) \<and> user_written (zero_page zbuf k) root va (replicate n 0) k'"
    "user_range own (zero_page zbuf k) root pte_is_writable va n"
    "user_range own k root P va2 m \<Longrightarrow> user_range own (zero_page zbuf k) root P va2 m"
    "user_addr (zero_page zbuf k) root va' = user_addr k root va'"
    "\<forall>x. (\<forall>t<4096. x \<noteq> zbuf + of_nat t) \<longrightarrow> mem (zero_page zbuf k) x = mem k x"
    "translate (zero_page zbuf k) root va' = translate k root va'"
proof -
  let ?k = "zero_page zbuf k"
  have out: "mem ?k a = mem k a" if "\<forall>t<4096. a \<noteq> zbuf + of_nat t" for a
  proof -
    have "\<not> in_range zbuf 4096 a" using that in_range_offset by blast
    then show ?thesis by (simp add: zero_page_def filled_def)
  qed
  then show "\<forall>x. (\<forall>t<4096. x \<noteq> zbuf + of_nat t) \<longrightarrow> mem ?k x = mem k x" by blast
  have k: "?k = k\<lparr>mem := mem ?k\<rparr>" by (simp add: zero_page_def)
  have same: "\<forall>a. page_of a \<in> dom own \<union> pool k \<longrightarrow> mem ?k a = mem k a" 
  proof (intro allI impI)
    fix a assume "page_of a \<in> dom own \<union> pool k"
    then show "mem ?k a = mem k a" using assms(4) by (intro out) auto
  qed
  note o = outside_write_keeps [OF user_rangeD(1,2) [OF assms(1)] k same]
  show R: "user_range own ?k root pte_is_writable va n" by (rule o(6) [OF assms(1)])
  show "user_addr ?k root va' = user_addr k root va'" by (rule o(5))
  show "translate ?k root va' = translate k root va'" by (rule o(4))
  show "user_range own k root P va2 m \<Longrightarrow> user_range own ?k root P va2 m" by (rule o(6))
  have "mem ?k (zbuf + of_nat t) = 0" if "t < 4096" for t
    using that in_range_add [of t 4096 zbuf] by (simp add: zero_page_def filled_def)
  then show "\<exists>k'. vmm_zero zbuf root va (of_nat n) k = Some (Ok (0, k')) \<and> user_written ?k root va (replicate n 0) k'"
    using zero_loop_spec [OF R assms(2,3)] assms(5) unfolding o(5)
    by (simp add: vmm_zero_def zero_page_def PAGE_SIZE_def)
qed

end
