(* ===== verification/Dzfs_Blocks.thy ===== *)
theory Dzfs_Blocks
  imports Dzfs
begin

text \<open>
  The bitmaps of the file system and the allocation of blocks: what a set bit means
  (\<open>is_free\<close>), what the search finds, and what \<^verbatim>\<open>block_alloc\<close> and \<^verbatim>\<open>block_free\<close> change on a device
  that keeps what is written to it.
\<close>

section \<open>Bits of a bitmap block\<close>

definition bm_bit :: "block \<Rightarrow> nat \<Rightarrow> bool" where
  "bm_bit b i \<longleftrightarrow> bit (b (of_nat (i div 8))) (i mod 8)"

lemma of_nat_u64_eq: "i < 2 ^ 64 \<Longrightarrow> j < 2 ^ 64 \<Longrightarrow> (of_nat i :: u64) = of_nat j \<longleftrightarrow> i = j"
  by (metis unat_of_nat_u64)

lemma bit_one_u8: "bit (2 ^ k :: u8) n \<longleftrightarrow> n = k \<and> n < 8"
  by (auto simp: bit_simps)

lemma bm_bit_clear:
  assumes "unat idx < 32768" "i < 32768"
  shows "bm_bit (bitmap_clear b idx) i \<longleftrightarrow> bm_bit b i \<and> i \<noteq> unat idx"
proof -
  have "(of_nat (i div 8) :: u64) = of_nat (unat idx div 8) \<longleftrightarrow> i div 8 = unat idx div 8"
    using assms by (intro of_nat_u64_eq) auto
  moreover have "i = unat idx \<longleftrightarrow> i div 8 = unat idx div 8 \<and> i mod 8 = unat idx mod 8"
    by (metis div_mult_mod_eq)
  moreover have "unat idx div 8 < 4096" using assms by simp
  ultimately show ?thesis
    by (auto simp: bm_bit_def bitmap_clear_def DZFS_BLOCK_SIZE_def Let_def bit_and_iff bit_not_iff bit_one_u8)
qed

lemma bm_bit_set:
  assumes "unat idx < 32768" "i < 32768"
  shows "bm_bit (bitmap_set b idx) i \<longleftrightarrow> bm_bit b i \<or> i = unat idx"
proof -
  have "(of_nat (i div 8) :: u64) = of_nat (unat idx div 8) \<longleftrightarrow> i div 8 = unat idx div 8"
    using assms by (intro of_nat_u64_eq) auto
  moreover have "i = unat idx \<longleftrightarrow> i div 8 = unat idx div 8 \<and> i mod 8 = unat idx mod 8"
    by (metis div_mult_mod_eq)
  moreover have "unat idx div 8 < 4096" using assms by simp
  ultimately show ?thesis
    by (auto simp: bm_bit_def bitmap_set_def DZFS_BLOCK_SIZE_def Let_def bit_or_iff bit_one_u8)
qed

lemma takeWhile_upt:
  assumes "length (takeWhile P [0..<n]) = k"
  shows "\<forall>j<k. P j" "k < n \<Longrightarrow> \<not> P k" "k \<le> n"
proof -
  have k: "k \<le> n" using assms length_takeWhile_le [of P "[0..<n]"] by simp
  show "\<forall>j<k. P j"
  proof (intro allI impI)
    fix j assume j: "j < k"
    then have "takeWhile P [0..<n] ! j = j" using assms k by (subst takeWhile_nth) auto
    then show "P j" using j assms by (metis nth_mem set_takeWhileD)
  qed
  show "k < n \<Longrightarrow> \<not> P k"
    using assms nth_length_takeWhile [of P "[0..<n]"] by auto
  show "k \<le> n" by (rule k)
qed

lemma u8_nonzero_bit: "(x :: u8) \<noteq> 0 \<longleftrightarrow> (\<exists>k<8. bit x k)"
  by (subst bit_eq_iff) (auto dest: bit_imp_le_length)

lemma ctz_lowest:
  assumes "x \<noteq> 0"
  shows "ctz x < 8" "bit x (ctz x)" "j < ctz x \<Longrightarrow> \<not> bit x j"
proof -
  note tw = takeWhile_upt [OF ctz_def [symmetric], of x]
  show lt: "ctz x < 8"
  proof (rule ccontr)
    assume "\<not> ctz x < 8"
    then have "\<forall>k<8. \<not> bit x k" using tw(1) tw(3) by auto
    then show False using assms u8_nonzero_bit by blast
  qed
  show "bit x (ctz x)" using tw(2) lt by simp
  show "j < ctz x \<Longrightarrow> \<not> bit x j" using tw(1) by simp
qed

lemma filter_upt_first:
  assumes "filter P [0..<n] = i # xs"
  shows "i < n" "P i" "\<forall>j<i. \<not> P j"
proof -
  have "i \<in> set (filter P [0..<n])" using assms by simp
  then show i: "i < n" "P i" by auto
  have "sorted (filter P [0..<n])" by (simp add: sorted_wrt_filter)
  then have srt: "\<forall>x \<in> set xs. i \<le> x" using assms by simp
  show "\<forall>j<i. \<not> P j"
  proof (intro allI impI notI)
    fix j assume j: "j < i" "P j"
    then have "j \<in> set (filter P [0..<n])" using i by simp
    then have "j = i \<or> j \<in> set xs" using assms by simp
    then show False using j srt by auto
  qed
qed

lemma first_nonzero_Some:
  assumes "first_nonzero b = Some i"
  shows "i < 4096" "b (of_nat i) \<noteq> 0" "\<forall>j<i. b (of_nat j) = 0"
proof -
  obtain xs where "filter (\<lambda>i. b (of_nat i) \<noteq> 0) [0..<DZFS_BLOCK_SIZE] = i # xs"
    using assms unfolding first_nonzero_def by (auto split: list.splits)
  from filter_upt_first [OF this] show "i < 4096" "b (of_nat i) \<noteq> 0" "\<forall>j<i. b (of_nat j) = 0"
    by (simp_all add: DZFS_BLOCK_SIZE_def)
qed

lemma first_nonzero_None: "first_nonzero b = None \<Longrightarrow> i < 4096 \<Longrightarrow> b (of_nat i) = 0"
proof -
  assume "first_nonzero b = None" "i < 4096"
  then have "filter (\<lambda>i. b (of_nat i) \<noteq> 0) [0..<DZFS_BLOCK_SIZE] = []" "i < DZFS_BLOCK_SIZE"
    unfolding first_nonzero_def by (auto simp: DZFS_BLOCK_SIZE_def split: list.splits)
  then show ?thesis by (auto simp: filter_empty_conv)
qed

lemma first_bit:
  assumes "first_nonzero b = Some i"
  defines "k \<equiv> 8 * i + ctz (b (of_nat i))"
  shows "k < 32768" "bm_bit b k" "\<forall>j<k. \<not> bm_bit b j"
proof -
  note fn = first_nonzero_Some [OF assms(1)] and c = ctz_lowest [OF first_nonzero_Some(2) [OF assms(1)]]
  have div: "k div 8 = i" "k mod 8 = ctz (b (of_nat i))" using c(1) by (simp_all add: k_def)
  show "k < 32768" using fn(1) c(1) by (simp add: k_def)
  show "bm_bit b k" using c(2) by (simp add: bm_bit_def div)
  show "\<forall>j<k. \<not> bm_bit b j"
  proof (intro allI impI)
    fix j assume j: "j < k"
    show "\<not> bm_bit b j"
    proof (cases "j div 8 < i")
      case True
      then show ?thesis using fn(3) by (simp add: bm_bit_def)
    next
      case False
      have "j div 8 \<le> i" using j div(1) by (metis div_le_mono less_imp_le_nat)
      then have eq: "j div 8 = i" using False by simp
      have "j = 8 * i + j mod 8" using eq by (metis mult_div_mod_eq)
      then have "j mod 8 < ctz (b (of_nat i))" using j by (simp add: k_def)
      then show ?thesis using c(3) eq by (simp add: bm_bit_def)
    qed
  qed
qed

lemma no_bit: "first_nonzero b = None \<Longrightarrow> j < 32768 \<Longrightarrow> \<not> bm_bit b j"
  using first_nonzero_None [of b "j div 8"] by (simp add: bm_bit_def)

section \<open>The allocator of disk blocks\<close>

text \<open>
  What the file system relies on of its device: a block that was written without an error is read
  back, and the others are as before. Nothing is asked of a write that fails.
\<close>

definition keeps_writes :: "'d device \<Rightarrow> bool" where
  "keeps_writes dev \<longleftrightarrow>
     (\<forall>k b d d'. write_block dev k b d = (True, d') \<longrightarrow>
        (\<forall>j. read_block dev j d' = (if j = k then Some b else read_block dev j d)))"

lemma keeps_writesD:
  "keeps_writes dev \<Longrightarrow> write_block dev k b d = (True, d') \<Longrightarrow>
     read_block dev j d' = (if j = k then Some b else read_block dev j d)"
  unfolding keeps_writes_def by blast

definition is_free :: "'d device \<Rightarrow> 'd \<Rightarrow> u32 \<Rightarrow> bool" where
  "is_free dev d k \<longleftrightarrow> (\<exists>b. read_block dev (bitmap_of k) d = Some b \<and> bm_bit b (unat k mod 32768))"

definition is_bitmap :: "dzFS \<Rightarrow> u32 \<Rightarrow> bool" where
  "is_bitmap fs k \<longleftrightarrow> 2 \<le> unat k \<and> unat k < 2 + unat (free_bitmap_blocks fs)"

definition on_disk :: "dzFS \<Rightarrow> u32 \<Rightarrow> bool" where
  "on_disk fs k \<longleftrightarrow> unat k < 32768 * unat (free_bitmap_blocks fs)"

lemma u32_bound: "unat (k :: u32) < 4294967296"
  using unsigned_less [of k, where ?'a = nat] by simp

lemma unat_of_nat_u32: "n < 4294967296 \<Longrightarrow> unat (of_nat n :: u32) = n"
  by (simp add: unat_of_nat)

lemma unat_bitmap_of: "unat (bitmap_of k) = unat k div 32768 + 2"
proof -
  have "unat (k div 8 div 4096) = unat k div 8 div 4096" by (simp add: unat_div)
  also have "\<dots> = unat k div 32768" by (simp flip: div_mult2_eq)
  finally have "unat (k div 8 div 4096) = unat k div 32768" .
  then show ?thesis
    using u32_bound [of k] by (simp add: bitmap_of_def add.assoc unat_word_ariths)
qed

lemma unat_mod_cover: "unat (k mod DZFS_BITSET_COVERED_BLOCKS) = unat k mod 32768"
  by (simp add: DZFS_BITSET_COVERED_BLOCKS_def unat_mod)

lemma bitmap_of_is_bitmap: "on_disk fs k \<Longrightarrow> is_bitmap fs (bitmap_of k)"
  by (simp add: on_disk_def is_bitmap_def unat_bitmap_of less_mult_imp_div_less mult.commute)

lemma same_bit_same_block:
  "bitmap_of j = bitmap_of k \<Longrightarrow> unat j mod 32768 = unat k mod 32768 \<Longrightarrow> j = k"
proof -
  assume "bitmap_of j = bitmap_of k" and m: "unat j mod 32768 = unat k mod 32768"
  then have "unat (bitmap_of j) = unat (bitmap_of k)" by simp
  then have "unat j div 32768 = unat k div 32768" by (simp add: unat_bitmap_of)
  with m have "unat j = unat k" by (metis div_mult_mod_eq)
  then show ?thesis by (simp add: word_unat_eq_iff)
qed

lemma scan_block:
  assumes "r < 32768" "fb * 32768 + r < 4294967296"
  shows "unat (of_nat (fb * 32768 + r) :: u32) = fb * 32768 + r"
    "bitmap_of (of_nat (fb * 32768 + r)) = of_nat fb + 1 + 1"
proof -
  show u: "unat (of_nat (fb * 32768 + r) :: u32) = fb * 32768 + r"
    using assms(2) by (rule unat_of_nat_u32)
  have "unat (of_nat fb + 1 + 1 :: u32) = fb + 2"
    using assms by (simp add: add.assoc unat_word_ariths unat_of_nat)
  moreover have "unat (bitmap_of (of_nat (fb * 32768 + r))) = fb + 2"
    using assms(1) by (simp add: unat_bitmap_of u del: of_nat_add of_nat_mult)
  ultimately show "bitmap_of (of_nat (fb * 32768 + r)) = of_nat fb + 1 + 1"
    by (metis word_unat_eq_iff)
qed

lemma scan_number:
  "of_nat fb * DZFS_BITSET_COVERED_BLOCKS + of_nat i * 8 + of_nat c = (of_nat (fb * 32768 + (8 * i + c)) :: u32)"
  by (simp add: DZFS_BITSET_COVERED_BLOCKS_def)

lemma alloc_scan_found:
  assumes "alloc_scan dev fb k d = a" "a \<noteq> 0" "(fb + k) * 32768 \<le> 4294967296"
  shows "is_free dev d a \<and> unat a < (fb + k) * 32768"
  using assms
proof (induction k arbitrary: fb)
  case 0
  then show ?case by simp
next
  case (Suc k)
  obtain b where b: "read_block dev (of_nat fb + 1 + 1) d = Some b"
    using Suc.prems(1,2) by (auto split: option.splits)
  show ?case
  proof (cases "first_nonzero b")
    case None
    then have "alloc_scan dev (Suc fb) k d = a" using Suc.prems(1) b by simp
    then show ?thesis using Suc.IH [of "Suc fb"] Suc.prems by simp
  next
    case (Some i)
    note fb = first_bit [OF Some]
    define r where "r = 8 * i + ctz (b (of_nat i))"
    define c :: u32 where "c = of_nat (fb * 32768 + r)"
    have r: "r < 32768" "bm_bit b r" using fb by (simp_all add: r_def)
    have bound: "fb * 32768 + r < 4294967296" using r(1) Suc.prems(3) by simp
    note sb = scan_block [OF r(1) bound, folded c_def]
    show ?thesis
    proof (cases "c = 0")
      case True
      then have "alloc_scan dev (Suc fb) k d = a"
        using Suc.prems(1) b Some unfolding c_def r_def by (simp add: scan_number)
      then show ?thesis using Suc.IH [of "Suc fb"] Suc.prems by simp
    next
      case False
      then have "a = c"
        using Suc.prems(1) b Some unfolding c_def r_def by (simp add: scan_number)
      moreover have "is_free dev d c"
        using b r by (simp add: is_free_def sb)
      ultimately show ?thesis using sb(1) r(1) by simp
    qed
  qed
qed

lemma alloc_scan_none:
  assumes "alloc_scan dev fb k d = 0" "(fb + k) * 32768 \<le> 4294967296"
    "\<And>i. fb \<le> i \<Longrightarrow> i < fb + k \<Longrightarrow> read_block dev (of_nat i + 1 + 1) d \<noteq> None"
    "\<not> is_free dev d 0" "fb * 32768 \<le> unat j" "unat j < (fb + k) * 32768"
  shows "\<not> is_free dev d j"
  using assms
proof (induction k arbitrary: fb)
  case 0
  then show ?case by simp
next
  case (Suc k)
  obtain b where b: "read_block dev (of_nat fb + 1 + 1) d = Some b"
    using Suc.prems(3) [of fb] by auto
  have "first_nonzero b = None"
  proof (cases "first_nonzero b")
    case (Some i)
    define r where "r = 8 * i + ctz (b (of_nat i))"
    define c :: u32 where "c = of_nat (fb * 32768 + r)"
    have r: "r < 32768" "bm_bit b r" using first_bit [OF Some] by (simp_all add: r_def)
    have bound: "fb * 32768 + r < 4294967296" using r(1) Suc.prems(2) by simp
    note sb = scan_block [OF r(1) bound, folded c_def]
    have "c = 0"
      using Suc.prems(1) b Some unfolding c_def r_def by (simp add: scan_number Let_def split: if_splits)
    moreover have "is_free dev d c" using b r by (simp add: is_free_def sb)
    ultimately show ?thesis using Suc.prems(4) by simp
  qed
  then have scan: "alloc_scan dev (Suc fb) k d = 0" using Suc.prems(1) b by simp
  show ?case
  proof (cases "unat j < Suc fb * 32768")
    case True
    then have "unat j = fb * 32768 + unat j mod 32768" using Suc.prems(5)
      by (metis Suc_leI div_nat_eqI div_mult_mod_eq mult.commute mult_Suc)
    then have "bitmap_of j = of_nat fb + 1 + 1"
      using scan_block(2) [of "unat j mod 32768" fb] u32_bound [of j] by simp
    then show ?thesis
      using b no_bit [OF \<open>first_nonzero b = None\<close>] by (simp add: is_free_def)
  next
    case False
    then show ?thesis
      using Suc.IH [of "Suc fb"] scan Suc.prems by simp
  qed
qed

text \<open>What a successful \<^verbatim>\<open>block_alloc\<close> did.\<close>

lemma block_alloc_spec:
  assumes dev: "keeps_writes dev" and al: "block_alloc dev fs d = (a, d')" and a: "a \<noteq> 0"
    and fbb: "unat (free_bitmap_blocks fs) \<le> 131072"
  shows "on_disk fs a" "is_free dev d a" "is_free dev d' k \<longleftrightarrow> is_free dev d k \<and> k \<noteq> a"
    "\<not> is_bitmap fs j \<Longrightarrow> read_block dev j d' = read_block dev j d"
proof -
  have scan: "alloc_scan dev 0 (unat (free_bitmap_blocks fs)) d = a"
    using al a by (auto simp: block_alloc_def Let_def split: if_splits option.splits prod.splits)
  then obtain b where b: "read_block dev (bitmap_of a) d = Some b"
    and w: "write_block dev (bitmap_of a) (bitmap_clear b (a mod DZFS_BITSET_COVERED_BLOCKS)) d = (True, d')"
    using al a by (auto simp: block_alloc_def Let_def split: if_splits option.splits prod.splits)
  note sp = alloc_scan_found [OF scan a]
  show "is_free dev d a" using sp fbb by simp
  show disk: "on_disk fs a" using sp fbb by (simp add: on_disk_def mult.commute)
  have rd: "read_block dev i d' = (if i = bitmap_of a then Some (bitmap_clear b (a mod DZFS_BITSET_COVERED_BLOCKS))
      else read_block dev i d)" for i
    using keeps_writesD [OF dev w] .
  show "is_free dev d' k \<longleftrightarrow> is_free dev d k \<and> k \<noteq> a"
    using same_bit_same_block [of k a]
    by (cases "bitmap_of k = bitmap_of a") (auto simp: is_free_def rd b bm_bit_clear unat_mod_cover)
  show "\<not> is_bitmap fs j \<Longrightarrow> read_block dev j d' = read_block dev j d"
    using bitmap_of_is_bitmap [OF disk] by (auto simp: rd)
qed

lemma block_free_spec:
  assumes dev: "keeps_writes dev" and rd: "read_block dev (bitmap_of a) d = Some b"
    and ok: "fst (write_block dev (bitmap_of a) (bitmap_set b (a mod DZFS_BITSET_COVERED_BLOCKS)) d)"
  shows "is_free dev (block_free dev a d) k \<longleftrightarrow> is_free dev d k \<or> k = a"
    "j \<noteq> bitmap_of a \<Longrightarrow> read_block dev j (block_free dev a d) = read_block dev j d"
proof -
  obtain d' where w: "write_block dev (bitmap_of a) (bitmap_set b (a mod DZFS_BITSET_COVERED_BLOCKS)) d = (True, d')"
    using ok by (metis prod.collapse)
  have d': "block_free dev a d = d'" using rd w by (simp add: block_free_def)
  have rd': "read_block dev i d' = (if i = bitmap_of a then Some (bitmap_set b (a mod DZFS_BITSET_COVERED_BLOCKS))
      else read_block dev i d)" for i
    using keeps_writesD [OF dev w] .
  show "is_free dev (block_free dev a d) k \<longleftrightarrow> is_free dev d k \<or> k = a"
    using same_bit_same_block [of k a] unfolding d'
    by (cases "bitmap_of k = bitmap_of a") (auto simp: is_free_def rd' rd bm_bit_set unat_mod_cover)
  show "j \<noteq> bitmap_of a \<Longrightarrow> read_block dev j (block_free dev a d) = read_block dev j d"
    by (simp add: d' rd')
qed

end
