(* ===== verification/Dzfs_Files.thy ===== *)
theory Dzfs_Files
  imports Dzfs_Blocks
begin

text \<open>
  The content of files: the invariant of the pointers of a file (\<open>ptrs_ok\<close>: every block the file
  names is in use, belongs to this file alone and is neither a bitmap nor the dnode), what the loop of
  \<^verbatim>\<open>dzfs_write\<close> leaves (\<open>written\<close>), and what the loop of \<^verbatim>\<open>dzfs_read\<close> returns.
\<close>

section \<open>Fields of a block\<close>

lemma load32_store32_other:
  assumes "x + 4 \<le> y \<or> y + 4 \<le> x" "x < 4294967296" "y < 4294967296"
  shows "load32 (store32 b (of_nat y) v) (of_nat x) = load32 b (of_nat x)"
proof -
  have "unat (of_nat x :: u64) = x" "unat (of_nat y :: u64) = y"
    using assms by (simp_all add: unat_of_nat)
  then have "ranges_disjoint (of_nat x) 4 (of_nat y) 4"
    unfolding ranges_disjoint_def unat_diff using assms by auto
  then show ?thesis by (simp add: load32_def store32_def load_store_le_other)
qed

lemma store32_byte:
  assumes "x < y \<or> y + 4 \<le> x" "x < 4294967296" "y < 4294967296"
  shows "store32 b (of_nat y) v (of_nat x) = b (of_nat x)"
proof -
  have "unat (of_nat x :: u64) = x" "unat (of_nat y :: u64) = y"
    using assms by (simp_all add: unat_of_nat)
  then have "\<not> in_range (of_nat y) 4 (of_nat x)"
    unfolding in_range_def unat_diff using assms by auto
  then show ?thesis by (rule store32_outside)
qed

lemma slot_nats:
  "direct_slot i = of_nat (272 + 4 * i)" "indirect_slot i = of_nat (4 * i)" "content_slot (int i) = of_nat (268 + 4 * i)"
  "(264 :: u64) = of_nat 264" "(268 :: u64) = of_nat 268" "(0 :: u64) = of_nat 0"
  by (simp_all add: direct_slot_def indirect_slot_def content_slot_def)

lemma direct_slot_other [simp]:
  "i < 956 \<Longrightarrow> j < 956 \<Longrightarrow> i \<noteq> j \<Longrightarrow> load32 (store32 b (direct_slot i) v) (direct_slot j) = load32 b (direct_slot j)"
  "i < 956 \<Longrightarrow> load32 (store32 b (direct_slot i) v) 264 = load32 b 264"
  "i < 956 \<Longrightarrow> load32 (store32 b (direct_slot i) v) 268 = load32 b 268"
  "i < 956 \<Longrightarrow> load32 (store32 b 268 v) (direct_slot i) = load32 b (direct_slot i)"
  "i < 956 \<Longrightarrow> load32 (store32 b 264 v) (direct_slot i) = load32 b (direct_slot i)"
  "load32 (store32 b 268 v) 264 = load32 b 264"
  "load32 (store32 b 264 v) 268 = load32 b 268"
  "i < 1024 \<Longrightarrow> j < 1024 \<Longrightarrow> i \<noteq> j \<Longrightarrow> load32 (store32 b (indirect_slot i) v) (indirect_slot j) = load32 b (indirect_slot j)"
  unfolding slot_nats by (rule load32_store32_other; linarith)+

lemma type_byte [simp]:
  "i < 956 \<Longrightarrow> store32 b (direct_slot i) v 0 = b 0"
  "store32 b 264 v 0 = b 0" "store32 b 268 v 0 = b 0"
  unfolding slot_nats by (rule store32_byte; linarith)+

lemma put_bytes_at:
  assumes "a < 4096"
  shows "put_bytes b off xs (of_nat a) = (if off \<le> a \<and> a < off + length xs then xs ! (a - off) else b (of_nat a))"
proof -
  have "unat (of_nat a :: u64) = a" using assms by (simp add: unat_of_nat)
  then show ?thesis by (simp add: put_bytes_def)
qed

lemma content_block_direct:
  "i < 956 \<Longrightarrow> j < 1980 \<Longrightarrow>
     content_block (store32 db (direct_slot i) c) ib j = (if j = i then c else content_block db ib j)"
  by (auto simp: content_block_def DZFS_DIRECT_BLOCKS_def)

lemma content_block_indirect:
  assumes "956 \<le> i" "i < 1980" "j < 1980"
  shows "content_block db (store32 ib (indirect_slot (i - 956)) c) j = (if j = i then c else content_block db ib j)"
proof -
  have "956 \<le> j \<Longrightarrow> j \<noteq> i \<Longrightarrow> i - 956 \<noteq> j - 956" using assms by linarith
  then show ?thesis using assms by (auto simp: content_block_def DZFS_DIRECT_BLOCKS_def)
qed

lemma content_block_fields:
  "content_block (store32 db 264 v) ib j = content_block db ib j"
  "content_block (store32 db 268 v) ib j = content_block db ib j"
  by (simp_all add: content_block_def DZFS_DIRECT_BLOCKS_def)

section \<open>The blocks of a file\<close>

definition taken :: "'d device \<Rightarrow> dzFS \<Rightarrow> 'd \<Rightarrow> u32 \<Rightarrow> bool" where
  "taken dev fs d k \<longleftrightarrow> on_disk fs k \<and> \<not> is_free dev d k"

text \<open>
  \<open>owned dev fs dnode ind d k\<close>: block \<open>k\<close> is in use and is neither a bitmap, nor the dnode, nor
  the indirect block.
\<close>

definition owned :: "'d device \<Rightarrow> dzFS \<Rightarrow> u32 \<Rightarrow> u32 \<Rightarrow> 'd \<Rightarrow> u32 \<Rightarrow> bool" where
  "owned dev fs dnode ind d k \<longleftrightarrow> taken dev fs d k \<and> \<not> is_bitmap fs k \<and> k \<noteq> dnode \<and> k \<noteq> ind"

definition ptrs_ok :: "'d device \<Rightarrow> dzFS \<Rightarrow> u32 \<Rightarrow> (nat \<Rightarrow> u32) \<Rightarrow> u32 \<Rightarrow> 'd \<Rightarrow> bool" where
  "ptrs_ok dev fs dnode P ind d \<longleftrightarrow>
     (\<forall>k. is_bitmap fs k \<longrightarrow> taken dev fs d k) \<and> taken dev fs d dnode \<and> \<not> is_bitmap fs dnode \<and> dnode \<noteq> 0 \<and>
     (ind \<noteq> 0 \<longrightarrow> taken dev fs d ind \<and> \<not> is_bitmap fs ind \<and> ind \<noteq> dnode) \<and>
     (\<forall>i<1980. P i \<noteq> 0 \<longrightarrow> owned dev fs dnode ind d (P i)) \<and>
     (\<forall>i<1980. \<forall>j<1980. P i \<noteq> 0 \<longrightarrow> P i = P j \<longrightarrow> i = j)"

lemma ptrs_ok_cong: "(\<And>i. i < 1980 \<Longrightarrow> P i = Q i) \<Longrightarrow> ptrs_ok dev fs dnode P ind d = ptrs_ok dev fs dnode Q ind d"
  unfolding ptrs_ok_def by auto

lemma ptrs_okD:
  assumes "ptrs_ok dev fs dnode P ind d" "i < 1980" "P i \<noteq> 0"
  shows "owned dev fs dnode ind d (P i)" "j < 1980 \<Longrightarrow> P j = P i \<Longrightarrow> j = i"
  using assms unfolding ptrs_ok_def by (blast, metis)

lemma taken_cong:
  assumes "\<And>j. is_bitmap fs j \<Longrightarrow> read_block dev j d' = read_block dev j d"
  shows "taken dev fs d' k = taken dev fs d k"
  using assms bitmap_of_is_bitmap [of fs k] by (auto simp: taken_def is_free_def)

lemma ptrs_ok_write:
  assumes "\<And>j. is_bitmap fs j \<Longrightarrow> read_block dev j d' = read_block dev j d" "ptrs_ok dev fs dnode P ind d"
  shows "ptrs_ok dev fs dnode P ind d'"
proof -
  have "taken dev fs d' k = taken dev fs d k" for k using assms(1) by (rule taken_cong)
  then show ?thesis using assms(2) by (simp add: ptrs_ok_def owned_def)
qed

definition fresh :: "'d device \<Rightarrow> dzFS \<Rightarrow> u32 \<Rightarrow> (nat \<Rightarrow> u32) \<Rightarrow> u32 \<Rightarrow> 'd \<Rightarrow> u32 \<Rightarrow> bool" where
  "fresh dev fs dnode P ind d a \<longleftrightarrow> owned dev fs dnode ind d a \<and> (\<forall>i<1980. P i \<noteq> a)"

lemma ptrs_ok_alloc:
  assumes "keeps_writes dev" "unat (free_bitmap_blocks fs) \<le> 131072"
    "ptrs_ok dev fs dnode P ind d" "block_alloc dev fs d = (a, d')" "a \<noteq> 0"
  shows "ptrs_ok dev fs dnode P ind d'" "fresh dev fs dnode P ind d' a"
    "\<not> is_bitmap fs j \<Longrightarrow> read_block dev j d' = read_block dev j d" "taken dev fs d k \<Longrightarrow> k \<noteq> a"
    "taken dev fs d k \<Longrightarrow> taken dev fs d' k"
proof -
  note al = block_alloc_spec [OF assms(1,4,5,2)]
  have mono: "taken dev fs d k \<Longrightarrow> taken dev fs d' k" for k using al(3) by (auto simp: taken_def)
  have ne: "taken dev fs d k \<Longrightarrow> k \<noteq> a" for k using al(2) by (auto simp: taken_def)
  have new: "taken dev fs d' a" using al(1,3) by (auto simp: taken_def)
  show "ptrs_ok dev fs dnode P ind d'"
    using assms(3) mono unfolding ptrs_ok_def owned_def by blast
  have "a \<noteq> ind" using assms(3,5) ne unfolding ptrs_ok_def by blast
  moreover have "\<forall>i<1980. P i \<noteq> a"
    using assms(3,5) ne unfolding ptrs_ok_def owned_def by metis
  moreover have "a \<noteq> dnode" "\<not> is_bitmap fs a" using assms(3) ne unfolding ptrs_ok_def by blast+
  ultimately show "fresh dev fs dnode P ind d' a" using new by (simp add: fresh_def owned_def)
  show "\<not> is_bitmap fs j \<Longrightarrow> read_block dev j d' = read_block dev j d" by (rule al(4))
  show "taken dev fs d k \<Longrightarrow> k \<noteq> a" by (rule ne)
  show "taken dev fs d k \<Longrightarrow> taken dev fs d' k" by (rule mono)
qed

lemma ptrs_ok_ptr:
  "ptrs_ok dev fs dnode P ind d \<Longrightarrow> fresh dev fs dnode P ind d a \<Longrightarrow> ptrs_ok dev fs dnode (P(i := a)) ind d"
  unfolding ptrs_ok_def fresh_def by auto

lemma ptrs_ok_indirect:
  "ptrs_ok dev fs dnode P 0 d \<Longrightarrow> fresh dev fs dnode P 0 d a \<Longrightarrow> ptrs_ok dev fs dnode P a d"
  unfolding ptrs_ok_def fresh_def owned_def by auto

section \<open>Writing\<close>

lemma block_pos: "x = 4096 * q + r \<Longrightarrow> r < 4096 \<Longrightarrow> x div 4096 = q \<and> x mod 4096 = (r :: nat)"
  by simp

definition same_fields :: "block \<Rightarrow> block \<Rightarrow> bool" where
  "same_fields db db' \<longleftrightarrow> file_size db' = file_size db \<and> blk_type db' = blk_type db \<and>
     (file_indirect db \<noteq> 0 \<longrightarrow> file_indirect db' = file_indirect db)"

text \<open>What the choice of the block for a part of the file leaves.\<close>

definition slot_done ::
  "'d device \<Rightarrow> dzFS \<Rightarrow> u32 \<Rightarrow> block \<Rightarrow> block \<Rightarrow> nat \<Rightarrow> 'd \<Rightarrow> u32 \<Rightarrow> block \<Rightarrow> block \<Rightarrow> 'd \<Rightarrow> bool" where
  "slot_done dev fs dnode db ib i d c db1 ib1 d1 \<longleftrightarrow>
     ptrs_ok dev fs dnode (content_block db1 ib1) (file_indirect db1) d1 \<and>
     (\<forall>j<1980. content_block db1 ib1 j = (if j = i then c else content_block db ib j)) \<and>
     (content_block db ib i \<noteq> 0 \<longrightarrow> c = content_block db ib i) \<and>
     (content_block db ib i = 0 \<longrightarrow> \<not> taken dev fs d c) \<and>
     (\<forall>j. \<not> is_bitmap fs j \<longrightarrow> read_block dev j d1 = read_block dev j d) \<and>
     (\<forall>k. taken dev fs d k \<longrightarrow> taken dev fs d1 k) \<and>
     (file_indirect db1 = file_indirect db \<or> file_indirect db1 \<noteq> 0 \<and> \<not> taken dev fs d (file_indirect db1)) \<and>
     (file_indirect db1 = 0 \<longrightarrow> ib1 = ib) \<and> same_fields db db1"

lemma slot_block_direct:
  assumes "keeps_writes dev" "unat (free_bitmap_blocks fs) \<le> 131072" "i < 956"
    "ptrs_ok dev fs dnode (content_block db ib) (file_indirect db) d"
    "slot_block dev fs db ib i d = (c, db1, ib1, d1)" "c \<noteq> 0"
  shows "slot_done dev fs dnode db ib i d c db1 ib1 d1"
proof -
  have P: "content_block db ib i = load32 db (direct_slot i)"
    using assms(3) by (simp add: content_block_def DZFS_DIRECT_BLOCKS_def)
  have g: "get_or_allocate_block dev fs (load32 db (direct_slot i)) d = (c, d1)"
    and db1: "db1 = store32 db (direct_slot i) c" "ib1 = ib"
    using assms(3,5) by (auto simp: slot_block_def DZFS_DIRECT_BLOCKS_def split: prod.splits)
  have cb: "\<forall>j<1980. content_block db1 ib1 j = (if j = i then c else content_block db ib j)"
    using assms(3) by (simp add: db1 content_block_direct)
  have fld: "same_fields db db1" "file_indirect db1 = file_indirect db"
    using assms(3) by (simp_all add: same_fields_def db1)
  have ok: "ptrs_ok dev fs dnode (content_block db1 ib1) ind d' = ptrs_ok dev fs dnode ((content_block db ib)(i := c)) ind d'"
    for ind d'
    using cb by (intro ptrs_ok_cong) auto
  show ?thesis
  proof (cases "load32 db (direct_slot i) = 0")
    case True
    then have al: "block_alloc dev fs d = (c, d1)" using g by (simp add: get_or_allocate_block_def)
    note f = ptrs_ok_alloc [OF assms(1,2,4) al assms(6)]
    show ?thesis
      using True f cb fld db1(2) ptrs_ok_ptr [OF f(1,2)] unfolding slot_done_def ok P fld(2) by auto
  next
    case False
    then have "c = load32 db (direct_slot i)" "d1 = d" using g by (auto simp: get_or_allocate_block_def)
    then show ?thesis
      using False assms(4) cb fld db1(2) unfolding slot_done_def ok by (auto simp: P fun_upd_idem)
  qed
qed

lemma slot_block_indirect:
  assumes "keeps_writes dev" "unat (free_bitmap_blocks fs) \<le> 131072" "956 \<le> i" "i < 1980"
    "ptrs_ok dev fs dnode (content_block db ib) (file_indirect db) d"
    "slot_block dev fs db ib i d = (c, db1, ib1, d1)" "c \<noteq> 0"
  shows "slot_done dev fs dnode db ib i d c db1 ib1 d1"
proof -
  define j where "j = i - 956"
  have P: "content_block db ib i = load32 ib (indirect_slot j)"
    using assms(3) by (simp add: content_block_def DZFS_DIRECT_BLOCKS_def j_def)
  obtain ind d0 where ind: "(if file_indirect db = 0 then block_alloc dev fs d else (file_indirect db, d)) = (ind, d0)"
    by (cases "if file_indirect db = 0 then block_alloc dev fs d else (file_indirect db, d)")
  have nz: "ind \<noteq> 0" and g: "get_or_allocate_block dev fs (load32 ib (indirect_slot j)) d0 = (c, d1)"
    and db1: "db1 = store32 db 268 ind" "ib1 = store32 ib (indirect_slot j) c"
    using assms(3,6,7) unfolding slot_block_def ind
    by (auto simp: DZFS_DIRECT_BLOCKS_def j_def Let_def split: prod.splits if_splits)
  have cb: "\<forall>k<1980. content_block db1 ib1 k = (if k = i then c else content_block db ib k)"
    using assms(3,4) by (simp add: db1 j_def content_block_indirect content_block_fields)
  have fld: "same_fields db db1" "file_indirect db1 = ind" using ind
    by (auto simp: same_fields_def db1)
  have ok: "ptrs_ok dev fs dnode (content_block db1 ib1) ind' d' = ptrs_ok dev fs dnode ((content_block db ib)(i := c)) ind' d'"
    for ind' d'
    using cb by (intro ptrs_ok_cong) auto
  have d0: "ptrs_ok dev fs dnode (content_block db ib) ind d0"
    "\<And>k. \<not> is_bitmap fs k \<Longrightarrow> read_block dev k d0 = read_block dev k d"
    "\<And>k. taken dev fs d k \<Longrightarrow> taken dev fs d0 k" "ind = file_indirect db \<or> \<not> taken dev fs d ind"
  proof -
    show "ptrs_ok dev fs dnode (content_block db ib) ind d0"
      "\<And>k. \<not> is_bitmap fs k \<Longrightarrow> read_block dev k d0 = read_block dev k d"
      "\<And>k. taken dev fs d k \<Longrightarrow> taken dev fs d0 k" "ind = file_indirect db \<or> \<not> taken dev fs d ind"
      using ptrs_ok_alloc [OF assms(1,2,5) _ nz] ptrs_ok_indirect assms(5) ind
      by (auto split: if_splits) 
  qed
  show ?thesis
  proof (cases "load32 ib (indirect_slot j) = 0")
    case True
    then have al: "block_alloc dev fs d0 = (c, d1)" using g by (simp add: get_or_allocate_block_def)
    note f = ptrs_ok_alloc [OF assms(1,2) d0(1) al assms(7)]
    have "\<not> taken dev fs d c" using d0(3) f(4) by blast
    then show ?thesis
      using True f d0 cb fld nz ptrs_ok_ptr [OF f(1,2)] unfolding slot_done_def ok P fld(2) by auto
  next
    case False
    then have "c = load32 ib (indirect_slot j)" "d1 = d0" using g by (auto simp: get_or_allocate_block_def)
    then show ?thesis
      using False d0 fld nz cb unfolding slot_done_def ok by (auto simp: P fun_upd_idem)
  qed
qed

lemmas slot_block_spec = slot_block_direct slot_block_indirect

definition file_byte :: "'d device \<Rightarrow> block \<Rightarrow> block \<Rightarrow> 'd \<Rightarrow> nat \<Rightarrow> u8 option" where
  "file_byte dev db ib d p =
     map_option (\<lambda>b. b (of_nat (p mod 4096))) (read_block dev (content_block db ib (p div 4096)) d)"

text \<open>What the loop leaves after writing \<open>data\<close> at \<open>off\<close>.\<close>

definition written ::
  "'d device \<Rightarrow> dzFS \<Rightarrow> u32 \<Rightarrow> block \<Rightarrow> block \<Rightarrow> u8 list \<Rightarrow> nat \<Rightarrow> 'd \<Rightarrow> block \<Rightarrow> block \<Rightarrow> 'd \<Rightarrow> bool" where
  "written dev fs dnode db ib data off d db' ib' d' \<longleftrightarrow>
     ptrs_ok dev fs dnode (content_block db' ib') (file_indirect db') d' \<and>
     (\<forall>p. off \<le> p \<and> p < off + length data \<longrightarrow> file_byte dev db' ib' d' p = Some (data ! (p - off))) \<and>
     (\<forall>p<8110080. content_block db ib (p div 4096) \<noteq> 0 \<and>
          (p < off \<or> off + length data \<le> p \<and> (0 < off \<or> 4096 \<le> p)) \<longrightarrow>
        file_byte dev db' ib' d' p = file_byte dev db ib d p) \<and>
     (\<forall>j. taken dev fs d j \<and> \<not> is_bitmap fs j \<and> (\<forall>i<1980. content_block db ib i \<noteq> j) \<longrightarrow>
        read_block dev j d' = read_block dev j d) \<and>
     (file_indirect db' = file_indirect db \<or> \<not> taken dev fs d (file_indirect db')) \<and>
     (file_indirect db' = 0 \<longrightarrow> ib' = ib) \<and> same_fields db db'"

lemma written_nil: "ptrs_ok dev fs dnode (content_block db ib) (file_indirect db) d \<Longrightarrow>
    written dev fs dnode db ib [] off d db ib d"
  by (auto simp: written_def same_fields_def)

text \<open>One turn of the loop: the block of the slot is written and the rest follows.\<close>

lemma written_step:
  assumes kw: "keeps_writes dev" and data: "data \<noteq> []" "off + length data \<le> 8110080"
    and slot: "slot_done dev fs dnode db ib (off div 4096) d c db1 ib1 d1" "c \<noteq> 0"
    and n: "n = min (4096 - off mod 4096) (length data)"
    and old: "0 < off \<Longrightarrow> read_block dev c d1 = Some old"
    and w: "write_block dev c (put_bytes old (off mod 4096) (take n data)) d1 = (True, d2)"
    and rest: "written dev fs dnode db1 ib1 (drop n data) (off + n) d2 db' ib' d'"
    and ok: "ptrs_ok dev fs dnode (content_block db ib) (file_indirect db) d"
  shows "written dev fs dnode db ib data off d db' ib' d'"
proof -
  define i where "i = off div 4096"
  define raw where "raw = off mod 4096"
  define P1 where "P1 = content_block db1 ib1"
  have i: "i < 1980" using data unfolding i_def by (cases data) auto
  have raw: "raw < 4096" "off = 4096 * i + raw" by (simp_all add: raw_def i_def)
  have npos: "0 < n" "n \<le> length data" "raw + n \<le> 4096" using data(1) n raw(1) by (simp_all add: raw_def)
  have rd: "read_block dev j d2 = (if j = c then Some (put_bytes old raw (take n data)) else read_block dev j d1)" for j
    using keeps_writesD [OF kw w] by (simp add: raw_def)
  have P1: "P1 j = (if j = i then c else content_block db ib j)" if "j < 1980" for j
    using slot(1) that by (simp add: slot_done_def P1_def i_def)
  have ok1: "ptrs_ok dev fs dnode P1 (file_indirect db1) d1" using slot(1) by (simp add: slot_done_def P1_def)
  have inj: "P1 j = c \<Longrightarrow> j < 1980 \<Longrightarrow> j = i" for j
    using ptrs_okD(2) [OF ok1 i] slot(2) P1 [OF i] by simp
  have fb1: "file_byte dev db1 ib1 d2 p =
      (if p div 4096 = i then Some (put_bytes old raw (take n data) (of_nat (p mod 4096))) else file_byte dev db1 ib1 d1 p)"
    if "p < 8110080" for p
  proof -
    have j: "p div 4096 < 1980" by (rule less_mult_imp_div_less) (use that in simp)
    have "P1 (p div 4096) = c \<longleftrightarrow> p div 4096 = i" using inj [OF _ j] P1 [OF i] by metis
    then show ?thesis unfolding file_byte_def rd P1_def by simp
  qed
  have kept: "file_byte dev db ib d p = file_byte dev db' ib' d' p"
    if p: "p < 8110080" "content_block db ib (p div 4096) \<noteq> 0"
      "p < off \<or> off + length data \<le> p \<and> (0 < off \<or> 4096 \<le> p)" for p
  proof -
    have j: "p div 4096 < 1980" by (rule less_mult_imp_div_less) (use p(1) in simp)
    note own = ptrs_okD(1) [OF ok j p(2)]
    have same: "read_block dev (content_block db ib (p div 4096)) d1 = read_block dev (content_block db ib (p div 4096)) d"
      using slot(1) own by (simp add: slot_done_def owned_def)
    have nz: "P1 (p div 4096) \<noteq> 0" using P1 [OF j] slot(2) p(2) by simp
    have "p < off + n \<or> off + n + length (drop n data) \<le> p \<and> (0 < off + n \<or> 4096 \<le> p)"
      using p(3) npos by auto
    then have "file_byte dev db' ib' d' p = file_byte dev db1 ib1 d2 p"
      using rest p(1) nz unfolding written_def P1_def by blast
    also have "\<dots> = file_byte dev db ib d p"
    proof (cases "p div 4096 = i")
      case True
      define e where "e = p mod 4096"
      have e: "p = 4096 * i + e" "e < 4096" using True mult_div_mod_eq [of 4096 p] by (simp_all add: e_def)
      have pos: "0 < off" "\<not> (raw \<le> e \<and> e < raw + length (take n data))"
        using p(3) raw(2) npos(2) e by auto
      have "c = content_block db ib i" using slot(1) p(2) True by (simp add: slot_done_def i_def)
      then have "read_block dev (content_block db ib (p div 4096)) d = Some old"
        using True old [OF pos(1)] same by simp
      then have "file_byte dev db ib d p = Some (old (of_nat e))"
        by (simp add: file_byte_def e_def)
      moreover have "file_byte dev db1 ib1 d2 p = Some (old (of_nat e))"
        using True pos(2) e(2) fb1 [OF p(1)] put_bytes_at [OF e(2), of old raw "take n data"]
        by (simp only: e_def if_True if_False simp_thms)
      ultimately show ?thesis by simp
    next
      case False
      then show ?thesis using fb1 [OF p(1)] P1 [OF j] same by (simp add: file_byte_def P1_def)
    qed
    finally show ?thesis by simp
  qed
  have new: "file_byte dev db' ib' d' p = Some (data ! (p - off))" if p: "off \<le> p" "p < off + length data" for p
  proof (cases "p < off + n")
    case True
    have dm: "p div 4096 = i" "p mod 4096 = raw + (p - off)"
    proof -
      have "p = 4096 * i + (raw + (p - off))" "raw + (p - off) < 4096" using True p raw(2) npos(3) by simp_all
      from block_pos [OF this] show "p div 4096 = i" "p mod 4096 = raw + (p - off)" by simp_all
    qed
    have "file_byte dev db' ib' d' p = file_byte dev db1 ib1 d2 p"
      using rest True p data(2) slot(2) P1 [OF i] dm(1) unfolding written_def P1_def by force
    also have "\<dots> = Some (data ! (p - off))"
    proof -
      have "put_bytes old raw (take n data) (of_nat (p mod 4096)) = data ! (p - off)"
        using True p npos put_bytes_at [of "p mod 4096" old raw "take n data"] unfolding dm(2) by auto
      then show ?thesis using p data(2) fb1 [of p] dm(1) by simp
    qed
    finally show ?thesis .
  next
    case False
    then have "file_byte dev db' ib' d' p = Some (drop n data ! (p - (off + n)))"
      using rest p unfolding written_def by auto
    then show ?thesis using False npos p by simp
  qed
  have mono: "taken dev fs d j \<Longrightarrow> taken dev fs d2 j" for j
  proof -
    have "\<not> is_bitmap fs c" using ptrs_okD(1) [OF ok1 i] slot(2) P1 [OF i] by (simp add: owned_def)
    then have "taken dev fs d2 j = taken dev fs d1 j" by (intro taken_cong) (auto simp: rd)
    then show "taken dev fs d j \<Longrightarrow> taken dev fs d2 j" using slot(1) by (simp add: slot_done_def)
  qed
  have frame: "read_block dev j d' = read_block dev j d"
    if j: "taken dev fs d j" "\<not> is_bitmap fs j" "\<forall>k<1980. content_block db ib k \<noteq> j" for j
  proof -
    have "j \<noteq> c" using slot(1) j i by (auto simp: slot_done_def i_def)
    moreover have "\<forall>k<1980. P1 k \<noteq> j" using P1 j(3) \<open>j \<noteq> c\<close> by simp
    ultimately have "read_block dev j d' = read_block dev j d2"
      using rest mono [OF j(1)] j(2) unfolding written_def P1_def by blast
    then show ?thesis using \<open>j \<noteq> c\<close> slot(1) j(2) by (simp add: rd slot_done_def)
  qed
  have "same_fields db db'" "file_indirect db' = 0 \<longrightarrow> ib' = ib"
    "file_indirect db' = file_indirect db \<or> \<not> taken dev fs d (file_indirect db')"
    using rest slot(1) mono by (auto simp: written_def slot_done_def same_fields_def)
  then show ?thesis
    using rest kept new frame unfolding written_def by auto
qed

lemma write_loop_written:
  assumes "keeps_writes dev" "unat (free_bitmap_blocks fs) \<le> 131072"
    "ptrs_ok dev fs dnode (content_block db ib) (file_indirect db) d"
    "off + length data \<le> 8110080" "write_loop dev fs db b ib data off d = (DZFS_OK, db', ib', d')"
  shows "written dev fs dnode db ib data off d db' ib' d'"
  using assms(3-5)
proof (induction "length data" arbitrary: db b ib data off d rule: less_induct)
  case less
  note kw = assms(1) and fbb = assms(2) and ok = less(2)
  note loop = less(4) [unfolded write_loop.simps [of dev fs db b ib data off d]]
  show ?case
  proof (cases "data = []")
    case True
    then show ?thesis using loop ok written_nil by simp
  next
    case False
    define n where "n = min (4096 - off mod 4096) (length data)"
    obtain c db1 ib1 d1 where sl: "slot_block dev fs db ib (off div DZFS_BLOCK_SIZE) d = (c, db1, ib1, d1)"
      by (cases "slot_block dev fs db ib (off div DZFS_BLOCK_SIZE) d")
    have c: "c \<noteq> 0" using loop False sl by (auto simp: DZFS_OK_def DZFS_ERR_FULL_def split: if_splits)
    obtain old where old: "(if off > 0 then read_block dev c d1 else Some b) = Some old"
      using loop False sl c by (auto simp: DZFS_OK_def DZFS_ERR_IO_def Let_def split: option.splits)
    define nb where "nb = put_bytes old (off mod 4096) (take n data)"
    obtain d2 where w: "write_block dev c nb d1 = (True, d2)"
      using loop False sl c old
      by (cases "write_block dev c nb d1")
         (auto simp: DZFS_OK_def DZFS_ERR_IO_def DZFS_BLOCK_SIZE_def nb_def n_def Let_def split: if_splits)
    have rec: "write_loop dev fs db1 nb ib1 (drop n data) (off + n) d2 = (DZFS_OK, db', ib', d')"
      using loop False sl c old w by (simp add: DZFS_BLOCK_SIZE_def nb_def n_def Let_def)
    have lt: "off div 4096 < 1980"
      by (rule less_mult_imp_div_less) (use False less(3) in \<open>cases data; simp\<close>)
    have slot: "slot_done dev fs dnode db ib (off div 4096) d c db1 ib1 d1"
      using slot_block_direct [OF kw fbb _ ok _ c] slot_block_indirect [OF kw fbb _ lt ok _ c] sl
      unfolding DZFS_BLOCK_SIZE_def by (meson linorder_not_le)
    have rd: "read_block dev j d2 = (if j = c then Some nb else read_block dev j d1)" for j
      using keeps_writesD [OF kw w] .
    have "\<not> is_bitmap fs c"
      using slot c lt ptrs_okD(1) [of dev fs dnode "content_block db1 ib1" "file_indirect db1" d1 "off div 4096"]
      by (simp add: slot_done_def owned_def)
    then have ok2: "ptrs_ok dev fs dnode (content_block db1 ib1) (file_indirect db1) d2"
      using slot by (intro ptrs_ok_write [of fs dev d2 d1]) (auto simp: rd slot_done_def)
    have n: "n \<le> length data" by (simp add: n_def)
    have "written dev fs dnode db1 ib1 (drop n data) (off + n) d2 db' ib' d'"
      using less(1) [OF _ ok2 _ rec] less(3) n False by (simp add: n_def)
    moreover have "0 < off \<Longrightarrow> read_block dev c d1 = Some old" using old by simp
    ultimately show ?thesis
      by (intro written_step [OF kw False less(3) slot c n_def _ w [unfolded nb_def] _ ok])
  qed
qed

lemma length_get_bytes [simp]: "length (get_bytes b off n) = n"
  by (simp add: get_bytes_def)

lemma read_loop_bytes:
  assumes "\<And>p. off \<le> p \<Longrightarrow> p < off + length xs \<Longrightarrow> file_byte dev db ib d p = Some (xs ! (p - off))"
  shows "read_loop dev db ib (length xs) off d = Some xs"
  using assms
proof (induction "length xs" arbitrary: xs off rule: less_induct)
  case less
  show ?case
  proof (cases "xs = []")
    case True
    then show ?thesis by (simp add: read_loop.simps)
  next
    case False
    define raw where "raw = off mod 4096"
    define n where "n = min (4096 - raw) (length xs)"
    have n: "0 < n" "n \<le> length xs" "raw + n \<le> 4096" using False by (simp_all add: n_def raw_def)
    obtain b where b: "read_block dev (content_block db ib (off div 4096)) d = Some b"
      using less(2) [of off] False by (auto simp: file_byte_def)
    have "get_bytes b raw n = take n xs"
    proof (rule nth_equalityI)
      fix k assume "k < length (get_bytes b raw n)"
      then have k: "k < n" by simp
      have "off + k = 4096 * (off div 4096) + (raw + k)" "raw + k < 4096"
        using k n by (simp_all add: raw_def)
      from block_pos [OF this] show "get_bytes b raw n ! k = take n xs ! k"
        using less(2) [of "off + k"] k n(2) b by (simp add: file_byte_def get_bytes_def)
    qed (simp add: n(2))
    moreover have "read_loop dev db ib (length (drop n xs)) (off + n) d = Some (drop n xs)"
    proof (rule less(1))
      fix p assume "off + n \<le> p" "p < off + n + length (drop n xs)"
      then show "file_byte dev db ib d p = Some (drop n xs ! (p - (off + n)))"
        using less(2) [of p] n by simp
    qed (use n False in simp)
    ultimately show ?thesis
      using False b by (subst read_loop.simps) (simp add: DZFS_BLOCK_SIZE_def raw_def [symmetric] n_def [symmetric] Let_def)
  qed
qed

text \<open>
  A file whose dnode and indirect block are as they are read from the disk and whose blocks are its
  own: \<open>file_on_disk dev fs dnode db ib d\<close>.
\<close>

definition file_on_disk :: "'d device \<Rightarrow> dzFS \<Rightarrow> u32 \<Rightarrow> block \<Rightarrow> block \<Rightarrow> 'd \<Rightarrow> bool" where
  "file_on_disk dev fs dnode db ib d \<longleftrightarrow>
     read_block dev dnode d = Some db \<and> blk_type db = DZFS_ENTITY_FILE \<and> read_indirect dev db d = Some ib \<and>
     ptrs_ok dev fs dnode (content_block db ib) (file_indirect db) d"

lemma dzfs_write_checks:
  assumes "dzfs_write dev fs dnode data off d = (DZFS_OK, d')" "read_block dev dnode d = Some db"
  shows "off \<le> unat (file_size db)" "(length data + off) mod 2 ^ 64 \<le> DZFS_MAX_FILESIZE"
proof -
  have t: "blk_type db = DZFS_ENTITY_FILE"
    using assms by (rule_tac ccontr) (simp add: dzfs_write_def DZFS_OK_def DZFS_ERR_ARGUMENT_def)
  then have lim: "\<not> (length data + off) mod 2 ^ 64 > DZFS_MAX_FILESIZE"
    using assms by (auto simp: dzfs_write_def DZFS_OK_def DZFS_ERR_LIMIT_def)
  then show "(length data + off) mod 2 ^ 64 \<le> DZFS_MAX_FILESIZE" by simp
  show "off \<le> unat (file_size db)"
    using assms t lim by (rule_tac ccontr) (simp add: dzfs_write_def DZFS_OK_def DZFS_ERR_ARGUMENT_def)
qed

lemma int_count_id: "n < 2 ^ 31 \<Longrightarrow> int_count n = n"
  by (simp add: int_count_def)

lemma dzfs_write_spec:
  assumes dev: "keeps_writes dev" and fbb: "unat (free_bitmap_blocks fs) \<le> 131072"
    and fod: "file_on_disk dev fs dnode db ib d" and len: "off + length data < 2 ^ 64"
    and wr: "dzfs_write dev fs dnode data off d = (DZFS_OK, d')"
  shows "\<exists>db' ib'. file_on_disk dev fs dnode db' ib' d' \<and> file_size db' = file_size db + of_nat (length data) \<and>
    (\<forall>p. off \<le> p \<and> p < off + length data \<longrightarrow> file_byte dev db' ib' d' p = Some (data ! (p - off))) \<and>
    (\<forall>p<8110080. content_block db ib (p div 4096) \<noteq> 0 \<and>
       (p < off \<or> off + length data \<le> p \<and> (0 < off \<or> 4096 \<le> p)) \<longrightarrow> file_byte dev db' ib' d' p = file_byte dev db ib d p) \<and>
    (\<forall>j. taken dev fs d j \<and> \<not> is_bitmap fs j \<and> j \<noteq> dnode \<and> j \<noteq> file_indirect db \<and>
       (\<forall>i<1980. content_block db ib i \<noteq> j) \<longrightarrow> read_block dev j d' = read_block dev j d)"
proof -
  have f: "read_block dev dnode d = Some db" "blk_type db = DZFS_ENTITY_FILE" "read_indirect dev db d = Some ib"
    "ptrs_ok dev fs dnode (content_block db ib) (file_indirect db) d"
    using fod by (simp_all add: file_on_disk_def)
  have bounds: "off + length data \<le> 8110080" "off \<le> unat (file_size db)"
    using dzfs_write_checks [OF wr f(1)] len by (simp_all add: DZFS_MAX_FILESIZE_def add.commute)
  obtain r db1 ib1 d1 where loop: "write_loop dev fs db zero_block ib data off d = (r, db1, ib1, d1)"
    by (cases "write_loop dev fs db zero_block ib data off d")
  define W where "W = (if file_indirect db1 \<noteq> 0 then write_block dev (file_indirect db1) ib1 d1 else (True, d1))"
  define dbF where "dbF = store32 db1 264 (file_size db1 + of_nat (length data))"
  have "\<not> (length data + off) mod 2 ^ 64 > DZFS_MAX_FILESIZE"
    using bounds(1) by (simp add: DZFS_MAX_FILESIZE_def)
  then have "dzfs_write dev fs dnode data off d = (if r \<noteq> DZFS_OK then (r, d1) else let (ok, d2) = W in if \<not> ok then (DZFS_ERR_IO, d2)
      else let (ok2, d3) = write_block dev dnode dbF d2 in (if ok2 then DZFS_OK else DZFS_ERR_IO, d3))"
    using bounds(2) unfolding W_def dbF_def by (simp add: dzfs_write_def f loop)
  then obtain d2 where r: "r = DZFS_OK" and W: "W = (True, d2)" and wd: "write_block dev dnode dbF d2 = (True, d')"
    using wr by (auto simp: DZFS_OK_def DZFS_ERR_IO_def Let_def split: if_splits prod.splits)
  have wn: "written dev fs dnode db ib data off d db1 ib1 d1"
    using write_loop_written [OF dev fbb f(4) bounds(1)] loop r by simp
  then have ok1: "ptrs_ok dev fs dnode (content_block db1 ib1) (file_indirect db1) d1"
    and sf: "same_fields db db1" and ibz: "file_indirect db1 = 0 \<longrightarrow> ib1 = ib" by (simp_all add: written_def)
  have rd2: "read_block dev j d2 = (if file_indirect db1 \<noteq> 0 \<and> j = file_indirect db1 then Some ib1 else read_block dev j d1)" for j
    using W keeps_writesD [OF dev] unfolding W_def by (auto split: if_splits)
  have rd3: "read_block dev j d' = (if j = dnode then Some dbF else read_block dev j d2)" for j
    using keeps_writesD [OF dev wd] .
  have nz: "dnode \<noteq> 0" "\<not> is_bitmap fs dnode" "file_indirect db1 \<noteq> 0 \<Longrightarrow> \<not> is_bitmap fs (file_indirect db1) \<and> file_indirect db1 \<noteq> dnode"
    using ok1 by (auto simp: ptrs_ok_def)
  have fields: "content_block dbF ib1 = content_block db1 ib1" "file_indirect dbF = file_indirect db1" "blk_type dbF = blk_type db1"
    by (auto simp: dbF_def content_block_fields)
  have "ptrs_ok dev fs dnode (content_block db1 ib1) (file_indirect db1) d'"
    using ok1 nz by (intro ptrs_ok_write [of fs dev d' d1]) (auto simp: rd3 rd2)
  moreover have "read_indirect dev dbF d' = Some ib1"
    using nz ibz sf f(3) by (auto simp: read_indirect_def fields rd3 rd2 same_fields_def split: if_splits)
  ultimately have 1: "file_on_disk dev fs dnode dbF ib1 d'"
    using sf f(2) by (simp add: file_on_disk_def fields rd3 same_fields_def)
  have 2: "file_size dbF = file_size db + of_nat (length data)"
    using sf by (simp add: dbF_def same_fields_def)
  have fb: "file_byte dev dbF ib1 d' p = file_byte dev db1 ib1 d1 p" if "p < 8110080" for p
  proof -
    have j: "p div 4096 < 1980" by (rule less_mult_imp_div_less) (use that in simp)
    have "content_block db1 ib1 (p div 4096) \<noteq> dnode"
      "file_indirect db1 \<noteq> 0 \<Longrightarrow> content_block db1 ib1 (p div 4096) \<noteq> file_indirect db1"
      using ptrs_okD(1) [OF ok1 j] nz by (auto simp: owned_def)
    then show ?thesis by (auto simp: file_byte_def fields rd3 rd2)
  qed
  have 3: "file_byte dev dbF ib1 d' p = Some (data ! (p - off))" if "off \<le> p" "p < off + length data" for p
    using wn that bounds(1) fb [of p] by (simp add: written_def)
  have 4: "file_byte dev dbF ib1 d' p = file_byte dev db ib d p"
    if "p < 8110080" "content_block db ib (p div 4096) \<noteq> 0"
      "p < off \<or> off + length data \<le> p \<and> (0 < off \<or> 4096 \<le> p)" for p
    using wn that fb [of p] unfolding written_def by auto
  have 5: "read_block dev j d' = read_block dev j d"
    if "taken dev fs d j" "\<not> is_bitmap fs j" "j \<noteq> dnode" "j \<noteq> file_indirect db" "\<forall>i<1980. content_block db ib i \<noteq> j" for j
  proof -
    have "j \<noteq> file_indirect db1" using wn that unfolding written_def by auto
    then show ?thesis using wn that unfolding rd3 rd2 written_def by auto
  qed
  show ?thesis
    using 1 2 3 4 5 by (intro exI [of _ dbF] exI [of _ ib1]) blast
qed

text \<open>Reading bytes that the file holds gives them; so does reading the range that was written.\<close>

lemma dzfs_read_bytes:
  assumes "read_block dev dnode d = Some db" "blk_type db = DZFS_ENTITY_FILE" "read_indirect dev db d = Some ib"
    "\<forall>p. off \<le> p \<and> p < off + length xs \<longrightarrow> file_byte dev db ib d p = Some (xs ! (p - off))"
    "off + length xs \<le> unat (file_size db)" "length xs < 2 ^ 31"
  shows "dzfs_read dev dnode (length xs) off d = (int (length xs), xs)"
proof -
  have "int_count (min (unat (file_size db) - off) (length xs)) = length xs"
    using assms(5,6) int_count_id [of "length xs"] by simp
  moreover have "xs = [] \<or> off < unat (file_size db)" using assms(5) by (cases xs) auto
  moreover have "read_loop dev db ib (length xs) off d = Some xs"
    using assms(4) by (intro read_loop_bytes) blast
  ultimately show ?thesis using assms(1-3) by (auto simp: dzfs_read_def)
qed

lemma dzfs_read_back:
  assumes "keeps_writes dev" "unat (free_bitmap_blocks fs) \<le> 131072"
    "file_on_disk dev fs dnode db ib d" "unat (file_size db) + length data < 2 ^ 31"
    "dzfs_write dev fs dnode data off d = (DZFS_OK, d')"
  shows "dzfs_read dev dnode (length data) off d' = (int (length data), data)" "off + length data < 2 ^ 64"
proof -
  have off: "off \<le> unat (file_size db)"
    using assms(3) by (intro dzfs_write_checks [OF assms(5)]) (simp add: file_on_disk_def)
  then show len: "off + length data < 2 ^ 64" using assms(4) by simp
  obtain db' ib' where w: "file_on_disk dev fs dnode db' ib' d'" "file_size db' = file_size db + of_nat (length data)"
    "\<forall>p. off \<le> p \<and> p < off + length data \<longrightarrow> file_byte dev db' ib' d' p = Some (data ! (p - off))"
    using dzfs_write_spec [OF assms(1-3) len assms(5)] by blast
  have sz: "unat (file_size db') = unat (file_size db) + length data"
    unfolding w(2) using assms(4) by (simp add: unat_word_ariths unat_of_nat)
  then show "dzfs_read dev dnode (length data) off d' = (int (length data), data)"
    using w(1,3) off assms(4) by (intro dzfs_read_bytes) (auto simp: file_on_disk_def)
qed

end
