(* ===== verification/Exec_Load.thy ===== *)
theory Exec_Load
  imports Exec User_Memory Dzfs_Files Sched_Props
begin

text \<open>
  What the loader of \<^verbatim>\<open>exec.c\<close> does with the segments of a program: the pages are mapped, the bytes of the file are
  read into them and the rest is zeroed.
\<close>

section \<open>Reading a program from the disk\<close>

definition file_holds :: "'d device \<Rightarrow> 'd \<Rightarrow> u32 \<Rightarrow> nat \<Rightarrow> u8 list \<Rightarrow> bool" where
  "file_holds dev d dnode off xs \<longleftrightarrow> (\<exists>db ib. read_block dev dnode d = Some db \<and> blk_type db = DZFS_ENTITY_FILE \<and>
     read_indirect dev db d = Some ib \<and> off + length xs \<le> unat (file_size db) \<and> length xs < 2 ^ 31 \<and>
     (\<forall>j<length xs. file_byte dev db ib d (off + j) = Some (xs ! j)))"

lemma fs_read_holds:
  assumes "file_holds dev (disk st) (i_dnode (inode_at st ip)) off xs" "j + n \<le> length xs"
  shows "fs_read dev ip n (off + j) st = (int n, take n (drop j xs))"
proof -
  obtain db ib where f: "read_block dev (i_dnode (inode_at st ip)) (disk st) = Some db" "blk_type db = DZFS_ENTITY_FILE"
    "read_indirect dev db (disk st) = Some ib" "off + length xs \<le> unat (file_size db)" "length xs < 2 ^ 31"
    "\<forall>j<length xs. file_byte dev db ib (disk st) (off + j) = Some (xs ! j)"
    using assms(1) unfolding file_holds_def by blast
  define ys where "ys = take n (drop j xs)"
  have len: "length ys = n" using assms(2) by (simp add: ys_def)
  have "\<forall>p. off + j \<le> p \<and> p < off + j + length ys \<longrightarrow> file_byte dev db ib (disk st) p = Some (ys ! (p - (off + j)))"
  proof (intro allI impI)
    fix p assume p: "off + j \<le> p \<and> p < off + j + length ys"
    then have "p - off < length xs" using assms(2) len by linarith
    then have "file_byte dev db ib (disk st) (off + (p - off)) = Some (xs ! (p - off))" using f(6) by blast
    moreover have "ys ! (p - (off + j)) = xs ! (p - off)" 
    proof -
      have "p - (off + j) < n" "j + (p - (off + j)) = p - off" using p len by linarith+
      then show ?thesis using assms(2) by (simp add: ys_def)
    qed
    ultimately show "file_byte dev db ib (disk st) p = Some (ys ! (p - (off + j)))" using p by simp
  qed
  from dzfs_read_bytes [OF f(1-3) this] have "dzfs_read dev (i_dnode (inode_at st ip)) n (off + j) (disk st) = (int n, ys)"
    using f(4,5) assms(2) len by simp
  then show ?thesis by (simp add: fs_read_def ys_def)
qed

lemma file_holds_part:
  assumes "file_holds dev d dnode off (xs @ ys @ zs)"
  shows "file_holds dev d dnode (off + length xs) ys"
proof -
  obtain db ib where f: "read_block dev dnode d = Some db" "blk_type db = DZFS_ENTITY_FILE"
    "read_indirect dev db d = Some ib" "off + length (xs @ ys @ zs) \<le> unat (file_size db)" "length (xs @ ys @ zs) < 2 ^ 31"
    "\<And>j. j < length (xs @ ys @ zs) \<Longrightarrow> file_byte dev db ib d (off + j) = Some ((xs @ ys @ zs) ! j)"
    using assms unfolding file_holds_def by blast
  have "file_byte dev db ib d (off + length xs + j) = Some (ys ! j)" if "j < length ys" for j
    using f(6) [of "length xs + j"] that by (simp add: add.assoc nth_append)
  then show ?thesis using f(1-5) unfolding file_holds_def by (intro exI [of _ db] exI [of _ ib]) simp
qed

section \<open>Loading a segment\<close>

lemma load_segment_from_spec:
  assumes "user_range own k root P (va + of_nat i) (length xs - i)" "unat va + length xs \<le> 2 ^ 46" "i \<le> length xs"
    "file_holds dev (disk st) (i_dnode (inode_at st ip)) (unat off) xs" "unat off + length xs < 2 ^ 32"
  shows "\<exists>k'. load_segment_from dev st root ip va off (of_nat (length xs)) (of_nat i) k = Ok (0, k') \<and>
    user_written k root (va + of_nat i) (drop i xs) k'"
  using assms(1,3)
proof (induction "length xs - i" arbitrary: i k rule: less_induct)
  case less
  note R = less.prems(1)
  define cva where "cva = va + of_nat i"
  have u32: "unat (of_nat x :: u32) = x" if "x \<le> length xs" for x using that assms(5) by (intro unat_of_nat_u32) simp
  have cva: "unat cva = unat va + i" unfolding cva_def using assms(2) less.prems(2) by (intro unat_plus_nat) simp
  have ui: "ucast (of_nat i :: u32) = (of_nat i :: u64)"
    using u32 [OF less.prems(2)] unat_ucast_up [of "of_nat i"] by (metis of_nat_unat)
  show ?case
  proof (cases "i = length xs")
    case True
    then show ?thesis by (subst load_segment_from.simps) (simp add: user_written_def)
  next
    case False
    then have il: "i < length xs" using less.prems(2) by simp
    have lt: "(of_nat i :: u32) < of_nat (length xs)" using il u32 [of i] u32 [of "length xs"] by (simp add: word_less_nat_alt)
    have rem: "of_nat (length xs) - of_nat i = (of_nat (length xs - i) :: u32)" using il by (simp add: of_nat_diff)
    have pos: "0 < length xs - i" using il by simp
    obtain e where e: "translate k root cva = Some e" "pte_is_user e" "pte_follow e \<noteq> 0"
      "user_addr k root cva = P2V (hhdm_offset k) (pte_follow e) + (cva AND 4095)"
      using user_rangeD(5) [OF R pos] by (auto simp: cva_def)
    have vb: "USERSPACE_VA_MIN \<le> cva" "cva < USERSPACE_VA_MAX" using user_va_bounds [OF R pos] by (simp_all add: cva_def)
    have wa: "vmm_walkaddr root cva True k = Ok (pte_follow e)"
      using vmm_walkaddr_spec [OF user_rangeD(1) [OF R] vb] e(1,2) by simp
    define n where "n = segment_part cva (of_nat (length xs) - of_nat i)"
    define c where "c = unat n"
    have "(0 :: u32) < of_nat (length xs) - of_nat i" unfolding rem using u32 [of "length xs - i"] pos by (simp add: word_less_nat_alt)
    note sp = segment_part_bounds [OF this, of cva, folded n_def]
    have po: "unat (cva AND (PAGE_SIZE - 1)) = unat cva mod 4096" by (simp add: PAGE_SIZE_def page_offset)
    have c: "0 < c" "c \<le> length xs - i" "unat cva mod 4096 + c \<le> 4096"
      using sp u32 [of "length xs - i"] unfolding po rem c_def by simp_all
    define ys where "ys = take c (drop i xs)"
    have ys: "length ys = c" using c(2) by (simp add: ys_def)
    have oi: "unat (off + of_nat i) = unat off + i"
      using u32 [OF less.prems(2)] assms(5) il by (simp add: unat_word_ariths)
    have rd: "fs_read dev ip c (unat (off + of_nat i)) st = (int c, ys)"
      unfolding oi ys_def using c(2) il by (intro fs_read_holds [OF assms(4)]) simp
    define k1 where "k1 = k\<lparr>mem := store_bytes (mem k) (user_addr k root cva) ys\<rparr>"
    have wr: "user_written k root cva ys k1"
      unfolding k1_def using c ys R by (intro user_written_page [of own k root P cva "length xs - i"]) (simp_all add: cva_def)
    have "ucast n = (of_nat c :: u32)"
    proof -
      have "unat n < 2 ^ 32" using c(3) by (simp add: c_def)
      then have "unat (ucast n :: u32) = c" by (simp only: unat_ucast_down c_def)
      then show ?thesis using u32 [of c] c(2) by (simp add: word_unat_eq_iff)
    qed
    then have nx: "of_nat i + ucast n = (of_nat (i + c) :: u32)" by simp
    have un: "uint n = int c" by (simp add: c_def)
    have step: "load_segment_from dev st root ip va off (of_nat (length xs)) (of_nat i) k =
        load_segment_from dev st root ip va off (of_nat (length xs)) (of_nat (i + c)) k1"
      using lt wa e(3,4) rd un
      by (subst load_segment_from.simps)
         (simp add: ui cva_def [symmetric] Let_def n_def [symmetric] c_def [symmetric] nx k1_def PAGE_SIZE_def)
    have le: "length ys \<le> length xs - i" using ys c(2) by simp
    have R1: "user_range own k root P cva (length xs - i)" using R by (simp add: cva_def)
    note keep = user_written_keeps [OF R1 wr le]
    have sh: "cva + of_nat c = va + of_nat (i + c)" by (simp add: cva_def add.assoc)
    have "user_range own k1 root P (va + of_nat (i + c)) (length xs - (i + c))"
      using user_range_sub [OF keep(6) [OF R1] c(2)] unfolding sh by simp
    moreover have "length xs - (i + c) < length xs - i" "i + c \<le> length xs" using c il by linarith+
    ultimately obtain k' where k': "load_segment_from dev st root ip va off (of_nat (length xs)) (of_nat (i + c)) k1 = Ok (0, k')"
      "user_written k1 root (va + of_nat (i + c)) (drop (i + c) xs) k'" using less.hyps by blast
    have "drop i xs = ys @ drop (i + c) xs" using c(2) by (simp add: ys_def) (metis append_take_drop_id drop_drop add.commute)
    moreover have "user_written k root cva (ys @ drop (i + c) xs) k'"
      by (rule user_written_append [OF _ wr]) (use R1 k'(2) c(2) ys il in \<open>simp_all add: sh del: of_nat_add\<close>)
    ultimately show ?thesis using k'(1) step by (simp add: cva_def)
  qed
qed

text \<open>The pages that \<^verbatim>\<open>vmm_allocate\<close> has mapped are a range of user memory.\<close>

lemma page_of_frame:
  assumes "page_aligned f"
  shows "page_of (f + (va AND 4095)) = f"
proof -
  have "unat (va AND 4095) < 4096" by (simp add: page_offset)
  then have "in_range f 4096 (f + (va AND 4095))" by (simp add: in_range_def)
  then show ?thesis using page_of_eq_iff [OF assms] by blast
qed

lemma allocated_user_range:
  assumes "pt_inv own' s' root" "phys_inv s" "phys_inv s'" "pool_addressable s" "hhdm_offset s' = hhdm_offset s" "hhdm_offset s \<notin> pool s"
    "distinct fs" "set fs \<subseteq> pool s - pool s' - dom own'" "userspace perm"
    "USERSPACE_VA_MIN \<le> va" "unat va + n \<le> 2 ^ 46" "\<forall>j<n. b \<le> (unat va + j) div 4096 \<and> (unat va + j) div 4096 < b + length fs"
    "\<forall>va'. b \<le> vpn va' 0 \<and> vpn va' 0 < b + length fs \<longrightarrow>
       translate s' root va' = Some (build_pte perm (V2P (hhdm_offset s) (fs ! (vpn va' 0 - b))))"
    "\<forall>pa. P (build_pte perm pa)"
  shows "user_range own' s' root P va n"
    "j < n \<Longrightarrow> user_addr s' root (va + of_nat j) = fs ! ((unat va + j) div 4096 - b) + ((va + of_nat j) AND 4095)"
proof -
  have va: "unat (va + of_nat j) = unat va + j" if "j < n" for j using that assms(11) by (intro unat_plus_nat) simp
  have vp: "vpn (va + of_nat j) 0 = (unat va + j) div 4096" if "j < n" for j using va [OF that] that assms(11) by (simp add: vpn_low)
  define f where "f j = fs ! ((unat va + j) div 4096 - b)" for j
  have ix: "(unat va + j) div 4096 - b < length fs" "b + ((unat va + j) div 4096 - b) = (unat va + j) div 4096" if "j < n" for j
    using assms(12) that by auto
  have fin: "f j \<in> set fs" if "j < n" for j using assms(12) that by (auto simp: f_def intro!: nth_mem)
  have al: "page_aligned x" if "x \<in> set fs" for x using that assms(2,8) pool_aligned by blast
  have tr: "translate s' root (va + of_nat j) = Some (build_pte perm (V2P (hhdm_offset s) (f j)))" if "j < n" for j
    using assms(12,13) vp [OF that] that by (simp add: f_def)
  have follow: "pte_follow (build_pte perm (V2P (hhdm_offset s) (f j))) = V2P (hhdm_offset s) (f j)" if "j < n" for j
    using fin [OF that] assms(4,8) unfolding pool_addressable_def by (auto simp: build_pte_bits(4))
  show ua: "user_addr s' root (va + of_nat j) = f j + ((va + of_nat j) AND 4095)" if "j < n" for j
    using tr [OF that] follow [OF that] by (simp add: user_addr_def assms(5))
  have pg: "page_of (user_addr s' root (va + of_nat j)) = f j" if "j < n" for j
    unfolding ua [OF that] using al [OF fin [OF that]] by (rule page_of_frame)
  have "V2P (hhdm_offset s) (f j) \<noteq> 0" if "j < n" for j
    using fin [OF that] assms(6,8) by (auto simp: V2P_def)
  then have nz: "pte_follow (build_pte perm (V2P (hhdm_offset s) (f j))) \<noteq> 0" if "j < n" for j
    using that follow [OF that] by simp
  have "f j \<notin> dom own' \<union> pool s'" if "j < n" for j using fin [OF that] assms(8) by blast
  then have out: "page_of (user_addr s' root (va + of_nat j)) \<notin> dom own' \<union> pool s'" if "j < n" for j
    using that pg [OF that] by simp
  have usr: "pte_is_user (build_pte perm pa)" for pa using assms(9) by (simp only: build_pte_bits(3))
  have entry: "\<exists>e. translate s' root (va + of_nat j) = Some e \<and> pte_is_user e \<and> pte_follow e \<noteq> 0 \<and> P e \<and>
        page_of (user_addr s' root (va + of_nat j)) \<notin> dom own' \<union> pool s'" if "j < n" for j
    by (intro exI conjI, rule tr [OF that], rule usr, rule nz [OF that], rule assms(14) [rule_format], rule out [OF that])
  have "i = j" if "i < n" "j < n" "user_addr s' root (va + of_nat i) = user_addr s' root (va + of_nat j)" for i j
  proof -
    have "f i = f j" using pg [OF that(1)] pg [OF that(2)] that(3) by simp
    then have "(unat va + i) div 4096 - b = (unat va + j) div 4096 - b"
      using nth_eq_iff_index_eq [OF assms(7) ix(1) [OF that(1)] ix(1) [OF that(2)]] by (simp only: f_def)
    then have d: "(unat va + i) div 4096 = (unat va + j) div 4096" using ix(2) [OF that(1)] ix(2) [OF that(2)] by metis
    have "(va + of_nat i) AND 4095 = (va + of_nat j) AND 4095" using ua [OF that(1)] ua [OF that(2)] that(3) \<open>f i = f j\<close> by simp
    then have "(unat va + i) mod 4096 = (unat va + j) mod 4096"
      using page_offset [of "va + of_nat i"] page_offset [of "va + of_nat j"] va [OF that(1)] va [OF that(2)] by simp
    then have "unat va + i = unat va + j" using d by (metis div_mult_mod_eq)
    then show "i = j" by simp
  qed
  then have "inj_on (\<lambda>j. user_addr s' root (va + of_nat j)) {..<n}" by (intro inj_onI) simp
  then show "user_range own' s' root P va n"
    using entry assms(1,3,10,11) unfolding user_range_def by blast
qed

text \<open>The pages of a segment below 4 GB.\<close>

lemma segment_pages:
  assumes "USERSPACE_VA_MIN \<le> va" "unat va + unat sz + 4096 < 2 ^ 32" "sz \<noteq> 0" "start = va AND page_not_mask" "alloc = PAGE_ROUND_UP (va - start + sz)"
  shows "unat start = unat va div 4096 * 4096" "start + (va - start) = va" "USERSPACE_VA_MIN \<le> start"
    "unat alloc = ((unat va mod 4096 + unat sz + 4095) div 4096) * 4096" "alloc mod PAGE_SIZE = 0" "alloc \<noteq> 0" "user_run start (unat alloc div 4096)"
    "unat (start + alloc) = unat start + unat alloc" "\<not> USERSPACE_VA_MAX < start + alloc"
    "j < unat sz \<Longrightarrow> unat va div 4096 \<le> (unat va + j) div 4096 \<and> (unat va + j) div 4096 < unat va div 4096 + unat alloc div 4096"
    "unat va div 4096 + unat alloc div 4096 = (unat va + unat sz - 1) div 4096 + 1"
proof -
  define q r where "q = unat va div 4096" and "r = unat va mod 4096"
  have va: "unat va = 4096 * q + r" "r < 4096" by (simp_all add: q_def r_def)
  have s: "unat start = q * 4096" unfolding assms(4) using assms(2) by (simp add: unat_and_page_not_mask q_def)
  then show "unat start = unat va div 4096 * 4096" by (simp add: q_def)
  show "start + (va - start) = va" by simp
  have off: "unat (va - start) = r" using s va by (simp add: unat_diff mult.commute)
  have sz: "0 < unat sz" using assms(3) by (simp add: unat_gt_0)
  have "unat (va - start + sz) = r + unat sz" using off va(2) assms(2) by (simp add: unat_word_ariths)
  then have al: "unat alloc = ((r + unat sz + 4095) div 4096) * 4096"
    unfolding assms(5) using assms(2) va by (subst unat_PAGE_ROUND_UP) simp_all
  then show "unat alloc = ((unat va mod 4096 + unat sz + 4095) div 4096) * 4096" by (simp add: r_def)
  define m where "m = (r + unat sz + 4095) div 4096"
  have m: "unat alloc = m * 4096" using al by (simp add: m_def)
  have mb: "m * 4096 \<le> r + unat sz + 4095" "r + unat sz + 4095 < (m + 1) * 4096"
    unfolding m_def by (simp_all add: div_times_less_eq_dividend)
  have mpos: "0 < m" using mb(2) sz by simp
  show "alloc mod PAGE_SIZE = 0" unfolding page_aligned_mod [symmetric] page_aligned_unat m by simp
  show "alloc \<noteq> 0" using m mpos by auto
  have v22: "0x400000 \<le> 4096 * q + r" using assms(1) va(1) by (simp add: word_le_nat_alt USERSPACE_VA_MIN_def)
  then have "1024 \<le> q" using va(2) by simp
  then show ms: "USERSPACE_VA_MIN \<le> start" using s by (simp add: word_le_nat_alt USERSPACE_VA_MIN_def)
  have tot: "unat start + unat alloc < 2 ^ 32" using s m mb(1) va assms(2) by simp
  have "page_aligned start" unfolding page_aligned_unat s by simp
  then show "user_run start (unat alloc div 4096)" using ms tot m by (simp add: user_run_def)
  show sum: "unat (start + alloc) = unat start + unat alloc" using tot by (simp add: unat_word_ariths)
  show "\<not> USERSPACE_VA_MAX < start + alloc" using sum tot by (simp add: word_less_nat_alt USERSPACE_VA_MAX_def)
  have last: "(unat va + unat sz - 1) div 4096 = q + (m - 1)"
  proof -
    define t where "t = r + unat sz - 1 - (m - 1) * 4096"
    have "unat va + unat sz - 1 = 4096 * (q + (m - 1)) + t" unfolding t_def 
    proof -
      obtain k where k: "m = Suc k" using mpos by (cases m) auto
      have "4096 * k < r + unat sz" using mb(1,2) k by simp
      then have "unat va + unat sz - 1 = 4096 * (q + k) + (r + unat sz - 1 - k * 4096)" using va(1) by simp
      then show "unat va + unat sz - 1 = 4096 * (q + (m - 1)) + (r + unat sz - 1 - (m - 1) * 4096)" by (simp add: k)
    qed
    moreover have "t < 4096" unfolding t_def using mb mpos by (cases m) simp_all
    ultimately show ?thesis by simp
  qed
  then show "unat va div 4096 + unat alloc div 4096 = (unat va + unat sz - 1) div 4096 + 1" using m mpos by (simp add: q_def)
  show "unat va div 4096 \<le> (unat va + j) div 4096 \<and> (unat va + j) div 4096 < unat va div 4096 + unat alloc div 4096" if "j < unat sz"
  proof
    show "unat va div 4096 \<le> (unat va + j) div 4096" by (rule div_le_mono) simp
    have "(unat va + j) div 4096 \<le> (unat va + unat sz - 1) div 4096" by (rule div_le_mono) (use that in simp)
    then show "(unat va + j) div 4096 < unat va div 4096 + unat alloc div 4096" using last m mpos by (simp add: q_def)
  qed
qed

text \<open>
  The memory of a segment once it is loaded: the bytes of the file, then zeros; nothing else but the buffer of
  \<^verbatim>\<open>vmm_zero\<close> on the kernel stack has changed.
\<close>

definition segment_filled :: "u64 \<Rightarrow> kmem \<Rightarrow> u64 \<Rightarrow> u64 \<Rightarrow> u8 list \<Rightarrow> nat \<Rightarrow> kmem \<Rightarrow> bool" where
  "segment_filled zb k root va xs n k' \<longleftrightarrow> k' = k\<lparr>mem := mem k'\<rparr> \<and>
     (\<forall>j<n. mem k' (user_addr k root (va + of_nat j)) = (if j < length xs then xs ! j else 0)) \<and>
     (\<forall>a. (\<forall>j<n. a \<noteq> user_addr k root (va + of_nat j)) \<and> (\<forall>t<4096. a \<noteq> zb + of_nat t) \<longrightarrow> mem k' a = mem k a)"

lemma segment_filled_keeps:
  assumes "user_range own k root P va n" "segment_filled zb k root va xs n k'" "\<forall>t<4096. page_of (zb + of_nat t) \<notin> dom own \<union> pool k"
  shows "pt_inv own k' root" "phys_inv k'" "pool k' = pool k" "translate k' root va' = translate k root va'"
    "user_addr k' root va' = user_addr k root va'" "user_range own k root Q va2 m \<Longrightarrow> user_range own k' root Q va2 m"
    "hhdm_offset k' = hhdm_offset k"
proof -
  have eq: "k' = k\<lparr>mem := mem k'\<rparr>" using assms(2) unfolding segment_filled_def by blast
  have "\<forall>a. page_of a \<in> dom own \<union> pool k \<longrightarrow> mem k' a = mem k a"
  proof (intro allI impI)
    fix a assume a: "page_of a \<in> dom own \<union> pool k"
    have "a \<noteq> user_addr k root (va + of_nat j)" if "j < n" for j using user_rangeD(5) [OF assms(1) that] a by auto
    then show "mem k' a = mem k a" using assms(2,3) a unfolding segment_filled_def by blast
  qed
  note keep = outside_write_keeps [OF user_rangeD(1,2) [OF assms(1)] eq this]
  show "pt_inv own k' root" "phys_inv k'" "pool k' = pool k" "translate k' root va' = translate k root va'"
    "user_addr k' root va' = user_addr k root va'" "user_range own k root Q va2 m \<Longrightarrow> user_range own k' root Q va2 m"
    by (rule keep, rule keep, rule keep, rule keep, rule keep, erule keep)
  have "hhdm_offset (k\<lparr>mem := mem k'\<rparr>) = hhdm_offset k" by simp
  then show "hhdm_offset k' = hhdm_offset k" by (simp only: eq [symmetric])
qed

lemma filled_without_zeros:
  assumes "user_written k root va xs k'" "length xs = n"
  shows "segment_filled zb k root va xs n k'"
  using assms unfolding user_written_def segment_filled_def by simp

lemma filled_with_zeros:
  assumes R: "user_range own k root P va n" and len: "length xs \<le> n" and w: "user_written k root va xs k1"
    and z: "user_written (zero_page zb k1) root (va + of_nat (length xs)) (replicate (n - length xs) 0) k2"
    and ua: "\<And>x. user_addr (zero_page zb k1) root x = user_addr k1 root x"
    and out: "\<forall>x. (\<forall>t<4096. x \<noteq> zb + of_nat t) \<longrightarrow> mem (zero_page zb k1) x = mem k1 x"
    and zb: "\<forall>t<4096. \<forall>j<n. zb + of_nat t \<noteq> user_addr k root (va + of_nat j)"
  shows "segment_filled zb k root va xs n k2"
proof -
  define m where "m = n - length xs"
  have sh: "va + of_nat (length xs) + of_nat i = va + of_nat (length xs + i)" for i :: nat by (simp add: add.assoc)
  have U: "user_addr (zero_page zb k1) root x = user_addr k root x" for x using ua user_written_keeps(5) [OF R w len] by simp
  have w1: "k1 = k\<lparr>mem := mem k1\<rparr>" "\<And>j. j < length xs \<Longrightarrow> mem k1 (user_addr k root (va + of_nat j)) = xs ! j"
    "\<And>x. (\<forall>j<length xs. x \<noteq> user_addr k root (va + of_nat j)) \<Longrightarrow> mem k1 x = mem k x"
    using w unfolding user_written_def by blast+
  have z1: "k2 = (zero_page zb k1)\<lparr>mem := mem k2\<rparr>" "\<And>i. i < m \<Longrightarrow> mem k2 (user_addr k root (va + of_nat (length xs + i))) = 0"
    "\<And>x. (\<forall>i<m. x \<noteq> user_addr k root (va + of_nat (length xs + i))) \<Longrightarrow> mem k2 x = mem (zero_page zb k1) x"
    using z unfolding user_written_def U sh m_def [symmetric] by (auto simp del: of_nat_add)
  have "k2 = k1\<lparr>mem := mem k2\<rparr>" using z1(1) by (simp add: zero_page_def)
  moreover have "\<dots> = k\<lparr>mem := mem k2\<rparr>" by (subst w1(1)) simp
  ultimately have eq: "k2 = k\<lparr>mem := mem k2\<rparr>" by (rule trans)
  have "mem k2 (user_addr k root (va + of_nat j)) = (if j < length xs then xs ! j else 0)" if j: "j < n" for j
  proof (cases "j < length xs")
    case True
    have "user_addr k root (va + of_nat j) \<noteq> user_addr k root (va + of_nat (length xs + i))" if "i < m" for i
    proof -
      have "length xs + i < n" "j \<noteq> length xs + i" using True that by (simp_all add: m_def)
      then show ?thesis using user_rangeD(6) [OF R j, of "length xs + i"] by blast
    qed
    then have "mem k2 (user_addr k root (va + of_nat j)) = mem (zero_page zb k1) (user_addr k root (va + of_nat j))" using z1(3) by blast
    also have "\<dots> = mem k1 (user_addr k root (va + of_nat j))" using out zb j by metis
    finally show ?thesis using w1(2) True by simp
  next
    case False
    then show ?thesis using z1(2) [of "j - length xs"] j by (simp add: m_def del: of_nat_add of_nat_diff)
  qed
  moreover have "mem k2 a = mem k a" if "\<forall>j<n. a \<noteq> user_addr k root (va + of_nat j)" "\<forall>t<4096. a \<noteq> zb + of_nat t" for a
  proof -
    have "\<forall>i<m. a \<noteq> user_addr k root (va + of_nat (length xs + i))" "\<forall>j<length xs. a \<noteq> user_addr k root (va + of_nat j)"
      using that(1) len by (simp_all add: m_def del: of_nat_add)
    then show ?thesis using z1(3) w1(3) out that(2) by simp
  qed
  ultimately show ?thesis using eq unfolding segment_filled_def by blast
qed

lemma load_and_zero:
  assumes R: "user_range own k root (\<lambda>e. pte_is_writable e = w) va n" and len: "length xs \<le> n" "length xs < n \<Longrightarrow> w" and low: "unat va + n \<le> 2 ^ 32"
    and fil: "file_holds dev (disk st) (i_dnode (inode_at st ip)) (unat off) xs" "unat off + length xs < 2 ^ 32"
    and zb: "unat zb + 4096 \<le> 2 ^ 64" "\<forall>t<4096. page_of (zb + of_nat t) \<notin> dom own \<union> pool k"
      "\<forall>t<4096. \<forall>j<n. zb + of_nat t \<noteq> user_addr k root (va + of_nat j)"
  shows "\<exists>k1 k2. load_segment dev st root ip va off (of_nat (length xs)) k = Ok (0, k1) \<and>
    (if length xs < n then vmm_zero zb root (va + of_nat (length xs)) (of_nat (n - length xs)) k1 = Some (Ok (0, k2)) else k2 = k1) \<and>
    segment_filled zb k root va xs n k2"
proof -
  have Rp: "user_range own k root (\<lambda>e. pte_is_writable e = w) (va + of_nat 0) (length xs - 0)"
    using user_range_prefix [OF R len(1)] by simp
  have v46: "unat va + length xs \<le> 2 ^ 46" using low len(1) by simp
  from load_segment_from_spec [OF Rp v46 _ fil] obtain k1 where k1: "load_segment dev st root ip va off (of_nat (length xs)) k = Ok (0, k1)"
    "user_written k root va xs k1" by (auto simp: load_segment_def)
  note keep1 = user_written_keeps [OF R k1(2) len(1)]
  show ?thesis
  proof (cases "length xs < n")
    case False
    then have "segment_filled zb k root va xs n k1" using filled_without_zeros [OF k1(2)] len(1) by simp
    then show ?thesis using k1(1) False by (intro exI [of _ k1]) simp
  next
    case True
    define z where "z = va + of_nat (length xs)"
    define m where "m = n - length xs"
    have sh: "z + of_nat j = va + of_nat (length xs + j)" for j by (simp add: z_def add.assoc)
    have Rz: "user_range own k1 root pte_is_writable z m"
      using user_range_sub [OF keep1(6) [OF R] len(1)] len(2) [OF True] by (simp add: z_def m_def)
    have "unat z = unat va + length xs" unfolding z_def by (rule user_va [OF R len(1)])
    then have zlow: "unat z + m \<le> 2 ^ 32" using low True by (simp add: m_def)
    have zb1: "\<forall>t<4096. page_of (zb + of_nat t) \<notin> dom own \<union> pool k1" using zb(2) keep1(3) by simp
    have zb2: "\<forall>t<4096. \<forall>j<m. zb + of_nat t \<noteq> user_addr k1 root (z + of_nat j)"
      unfolding sh keep1(5) using zb(3) by (simp add: m_def del: of_nat_add)
    note zs = vmm_zero_spec [OF Rz zlow zb(1) zb1 zb2]
    obtain k2 where k2: "vmm_zero zb root z (of_nat m) k1 = Some (Ok (0, k2))" "user_written (zero_page zb k1) root z (replicate m 0) k2"
      using zs(1) by blast
    have "segment_filled zb k root va xs n k2"
      by (rule filled_with_zeros [OF R len(1) k1(2) k2(2) [unfolded z_def m_def] zs(4,5) zb(3)])
    then show ?thesis using k1(1) k2(1) True unfolding z_def m_def by (intro exI [of _ k1] exI [of _ k2]) simp
  qed
qed

section \<open>Mapping a segment\<close>

definition segment_va :: "u64 \<Rightarrow> ProgramHeader \<Rightarrow> u64" where
  "segment_va bias ph = ph_vaddr ph + bias"

definition segment_writable :: "ProgramHeader \<Rightarrow> bool" where
  "segment_writable ph \<longleftrightarrow> ph_flags ph AND 2 \<noteq> 0"

definition segment_executable :: "ProgramHeader \<Rightarrow> bool" where
  "segment_executable ph \<longleftrightarrow> ph_flags ph AND 1 \<noteq> 0"

text \<open>
  The permissions of a page table entry are those of the flags: bit 1 allows writing, and bit 63
  (execute disable) forbids executing.
\<close>

definition segment_entry :: "ProgramHeader \<Rightarrow> u64 \<Rightarrow> bool" where
  "segment_entry ph e \<longleftrightarrow> pte_is_writable e = segment_writable ph \<and> bit e 63 = (\<not> segment_executable ph)"

lemma segment_entry_build: "segment_entry ph (build_pte (flags2perm (ph_flags ph)) pa)"
proof -
  have "bit (build_pte (flags2perm (ph_flags ph)) pa) 63 = (\<not> segment_executable ph)"
    unfolding bit_build_pte bit_SET_ADDR by (simp add: flags2perm_def segment_executable_def pte_permissions.defs)
  then show ?thesis
    by (simp add: segment_entry_def flags2perm_def segment_writable_def pte_permissions.defs build_pte_bits(2))
qed

lemma user_range_mono:
  assumes "user_range own k root P va n" "\<And>e. P e \<Longrightarrow> Q e"
  shows "user_range own k root Q va n"
  using assms unfolding user_range_def by blast

text \<open>The numbers of the first and the last page.\<close>

definition segment_first :: "u64 \<Rightarrow> ProgramHeader \<Rightarrow> nat" where
  "segment_first bias ph = unat (segment_va bias ph) div 4096"

definition segment_last :: "u64 \<Rightarrow> ProgramHeader \<Rightarrow> nat" where
  "segment_last bias ph = (unat (segment_va bias ph) + unat (ph_memsz ph) - 1) div 4096"

abbreviation in_segment :: "u64 \<Rightarrow> ProgramHeader \<Rightarrow> u64 \<Rightarrow> bool" where
  "in_segment bias ph va \<equiv> segment_first bias ph \<le> vpn va 0 \<and> vpn va 0 \<le> segment_last bias ph"

text \<open>A segment that can be loaded: in user space below 4 GB, its data in the file, and writable when part of it has to be zeroed.\<close>

definition good_segment :: "'d device \<Rightarrow> 'd \<Rightarrow> u32 \<Rightarrow> u64 \<Rightarrow> ProgramHeader \<Rightarrow> u8 list \<Rightarrow> bool" where
  "good_segment dev d dnode bias ph xs \<longleftrightarrow> USERSPACE_VA_MIN \<le> segment_va bias ph \<and>
     unat (segment_va bias ph) + unat (ph_memsz ph) + 4096 < 2 ^ 32 \<and> ph_memsz ph \<noteq> 0 \<and> unat (ph_filesz ph) = length xs \<and>
     ph_filesz ph \<le> ph_memsz ph \<and> (ph_filesz ph < ph_memsz ph \<longrightarrow> segment_writable ph) \<and>
     file_holds dev d dnode (unat (ph_off ph)) xs \<and> unat (ph_off ph) + length xs < 2 ^ 32"

text \<open>The buffer of \<^verbatim>\<open>vmm_zero\<close> is on the kernel stack, neither in a table nor in a free page.\<close>

definition buffer_apart :: "exec_env \<Rightarrow> (u64 \<Rightarrow> (nat \<times> nat) option) \<Rightarrow> kmem \<Rightarrow> bool" where
  "buffer_apart env own k \<longleftrightarrow> unat (zero_buffer env) + 4096 \<le> 2 ^ 64 \<and>
     (\<forall>t<4096. page_of (zero_buffer env + of_nat t) \<notin> dom own \<union> pool k)"

text \<open>The number of pages of a segment, and of a list of segments.\<close>

definition segment_count :: "u64 \<Rightarrow> ProgramHeader \<Rightarrow> nat" where
  "segment_count bias ph = segment_last bias ph + 1 - segment_first bias ph"

definition program_pages :: "u64 \<Rightarrow> (ProgramHeader \<times> u8 list) list \<Rightarrow> nat" where
  "program_pages bias segs = (\<Sum>p\<leftarrow>segs. segment_count bias (fst p))"

definition in_place :: "exec_env \<Rightarrow> (u64 \<Rightarrow> (nat \<times> nat) option) \<Rightarrow> kmem \<Rightarrow> u64 \<Rightarrow> u64 \<Rightarrow> ProgramHeader \<Rightarrow> u8 list \<Rightarrow> bool" where
  "in_place env own k root bias ph xs \<longleftrightarrow>
     user_range own k root (segment_entry ph) (segment_va bias ph) (unat (ph_memsz ph)) \<and>
     (\<forall>j<unat (ph_memsz ph). mem k (user_addr k root (segment_va bias ph + of_nat j)) = (if j < length xs then xs ! j else 0) \<and>
        (\<forall>t<4096. zero_buffer env + of_nat t \<noteq> user_addr k root (segment_va bias ph + of_nat j)))"

definition space_grows ::
  "exec_env \<Rightarrow> u64 \<Rightarrow> (u64 \<Rightarrow> (nat \<times> nat) option) \<Rightarrow> kmem \<Rightarrow> (u64 \<Rightarrow> (nat \<times> nat) option) \<Rightarrow> kmem \<Rightarrow> bool" where
  "space_grows env root own k own' k' \<longleftrightarrow> pt_inv own' k' root \<and> phys_inv k' \<and> dom own' \<subseteq> dom own \<union> pool k \<and> pool k' \<subseteq> pool k \<and>
     hhdm_offset k' = hhdm_offset k \<and>
     (\<forall>a. page_of a \<notin> dom own \<union> pool k \<and> (\<forall>t<4096. a \<noteq> zero_buffer env + of_nat t) \<longrightarrow> mem k' a = mem k a)"

lemma space_growsD:
  assumes "space_grows env root own k own' k'"
  shows "pt_inv own' k' root" "phys_inv k'" "hhdm_offset k' = hhdm_offset k" "pool k' \<subseteq> pool k"
    "page_of a \<notin> dom own \<union> pool k \<Longrightarrow> page_of a \<notin> dom own' \<union> pool k'"
    "page_of a \<notin> dom own \<union> pool k \<Longrightarrow> \<forall>t<4096. a \<noteq> zero_buffer env + of_nat t \<Longrightarrow> mem k' a = mem k a"
    "buffer_apart env own k \<Longrightarrow> buffer_apart env own' k'" "pool_addressable k \<Longrightarrow> pool_addressable k'"
  using assms unfolding space_grows_def buffer_apart_def pool_addressable_def by (blast+, auto)

lemma space_grows_trans:
  assumes "space_grows env root own k own1 k1" "space_grows env root own1 k1 own2 k2"
  shows "space_grows env root own k own2 k2"
proof -
  have a: "dom own1 \<subseteq> dom own \<union> pool k" "pool k1 \<subseteq> pool k" "dom own2 \<subseteq> dom own1 \<union> pool k1"
    using assms unfolding space_grows_def by blast+
  then have "dom own2 \<subseteq> dom own \<union> pool k" by blast
  moreover have "mem k2 a = mem k a" if "page_of a \<notin> dom own \<union> pool k" "\<forall>t<4096. a \<noteq> zero_buffer env + of_nat t" for a
    using space_growsD(6) [OF assms(1) that] space_growsD(6) [OF assms(2) space_growsD(5) [OF assms(1) that(1)] that(2)] by simp
  moreover have "pool k2 \<subseteq> pool k" using a(2) space_growsD(4) [OF assms(2)] by blast
  ultimately show ?thesis
    using space_growsD(1-3) [OF assms(2)] space_growsD(3) [OF assms(1)] unfolding space_grows_def by auto
qed

lemma segment_bytes:
  assumes "USERSPACE_VA_MIN \<le> segment_va bias ph" "unat (segment_va bias ph) + unat (ph_memsz ph) \<le> 2 ^ 46" "j < unat (ph_memsz ph)"
  shows "in_segment bias ph (segment_va bias ph + of_nat j)"
proof -
  have "unat (segment_va bias ph + of_nat j) = unat (segment_va bias ph) + j" using assms(2,3) by (intro unat_plus_nat) simp
  then have "vpn (segment_va bias ph + of_nat j) 0 = (unat (segment_va bias ph) + j) div 4096" using assms(2,3) by (simp add: vpn_low)
  then show ?thesis using assms(3) unfolding segment_first_def segment_last_def by (auto intro!: div_le_mono)
qed

lemma in_place_grows:
  assumes "in_place env own k root bias ph xs" "space_grows env root own k own' k'"
    "\<forall>va. in_segment bias ph va \<longrightarrow> translate k' root va = translate k root va"
  shows "in_place env own' k' root bias ph xs"
proof -
  define va n where "va = segment_va bias ph" and "n = unat (ph_memsz ph)"
  have R: "user_range own k root (segment_entry ph) va n" using assms(1) by (simp add: in_place_def va_def n_def)
  note g = space_growsD [OF assms(2)]
  have tr: "translate k' root (va + of_nat j) = translate k root (va + of_nat j)" if "j < n" for j
    using assms(3) segment_bytes [of bias ph j] user_rangeD(3,4) [OF R] that by (simp add: va_def n_def)
  have ua: "user_addr k' root (va + of_nat j) = user_addr k root (va + of_nat j)" if "j < n" for j
    by (simp only: user_addr_def tr [OF that] g(3))
  have pg: "page_of (user_addr k root (va + of_nat j)) \<notin> dom own \<union> pool k" if "j < n" for j
    using user_rangeD(5) [OF R that] by blast
  have inj: "inj_on (\<lambda>j. user_addr k' root (va + of_nat j)) {..<n}"
    using R ua unfolding user_range_def by (simp add: inj_on_def)
  have "\<exists>e. translate k' root (va + of_nat j) = Some e \<and> pte_is_user e \<and> pte_follow e \<noteq> 0 \<and> segment_entry ph e \<and>
        page_of (user_addr k' root (va + of_nat j)) \<notin> dom own' \<union> pool k'" if "j < n" for j
    using user_rangeD(5) [OF R that] g(5) [OF pg [OF that]] unfolding tr [OF that] ua [OF that] by blast
  then have "user_range own' k' root (segment_entry ph) va n"
    using g(1,2) user_rangeD(3,4) [OF R] inj unfolding user_range_def by blast
  moreover have "mem k' (user_addr k' root (va + of_nat j)) = (if j < length xs then xs ! j else 0) \<and>
        (\<forall>t<4096. zero_buffer env + of_nat t \<noteq> user_addr k' root (va + of_nat j))" if "j < n" for j
  proof -
    have c: "mem k (user_addr k root (va + of_nat j)) = (if j < length xs then xs ! j else 0)"
      "\<forall>t<4096. zero_buffer env + of_nat t \<noteq> user_addr k root (va + of_nat j)"
      using assms(1) that unfolding in_place_def va_def n_def by blast+
    then have "mem k' (user_addr k root (va + of_nat j)) = mem k (user_addr k root (va + of_nat j))"
      by (intro g(6) [OF pg [OF that]]) metis
    then show ?thesis unfolding ua [OF that] using c by metis
  qed
  ultimately show ?thesis unfolding in_place_def va_def [symmetric] n_def [symmetric] by blast
qed

text \<open>What \<^verbatim>\<open>vmm_allocate\<close> gives for the pages of a segment.\<close>

lemma segment_allocated:
  assumes inv: "pt_inv own k root" "phys_inv k" "pool_addressable k" "hhdm_offset k \<notin> pool k" "buffer_apart env own k"
    and seg: "USERSPACE_VA_MIN \<le> va" "unat va + unat (ph_memsz ph) + 4096 < 2 ^ 32" "ph_memsz ph \<noteq> 0"
    and un: "\<forall>va'. in_segment bias ph va' \<longrightarrow> translate k root va' = None"
    and d: "va = segment_va bias ph" "n = unat (ph_memsz ph)" "start = va AND page_not_mask" "alloc = PAGE_ROUND_UP (va - start + ph_memsz ph)"
  shows "\<exists>r k1 own1. vmm_allocate root start alloc (flags2perm (ph_flags ph)) False k = Ok (r, k1) \<and> space_grows env root own k own1 k1 \<and>
    (r = -1 \<and> (\<exists>x. pool k1 \<subseteq> {x}) \<and> card (pool k) < 4 * segment_count bias ph \<or>
     r = 0 \<and> card (pool k) \<le> card (pool k1) + 4 * segment_count bias ph \<and> user_range own1 k1 root (segment_entry ph) va n \<and>
       (\<forall>j<n. page_of (user_addr k1 root (va + of_nat j)) \<in> pool k) \<and>
       (\<forall>va'. \<not> in_segment bias ph va' \<longrightarrow> translate k1 root va' = translate k root va'))"
proof -
  note P = segment_pages [OF seg d(3,4)]
  define b where "b = segment_first bias ph"
  define c where "c = unat alloc div 4096"
  have b: "unat start div 4096 = b" "unat va div 4096 = b" using P(1) by (simp_all add: b_def segment_first_def d(1))
  have bc: "b + c = segment_last bias ph + 1" using P(11) b(2) by (simp add: c_def segment_last_def d(1))
  then have sc: "segment_count bias ph = c" by (simp add: segment_count_def b_def)
  have free: "\<forall>j<c. translate k root (start + of_nat j * PAGE_SIZE) = None"
  proof (intro allI impI)
    fix j assume j: "j < c"
    then have "vpn (start + of_nat j * PAGE_SIZE) 0 = b + j" using user_run_unat(2) [OF P(7)] b(1) by (simp add: c_def)
    then show "translate k root (start + of_nat j * PAGE_SIZE) = None" using un bc j by (simp add: b_def)
  qed
  from vmm_allocate_spec [OF inv(1-3) P(5-7) free [unfolded c_def], of "flags2perm (ph_flags ph)" False]
  obtain r k1 own1 fs where A: "vmm_allocate root start alloc (flags2perm (ph_flags ph)) False k = Ok (r, k1)"
    "dom own1 \<subseteq> dom own \<union> pool k" "pool k1 \<subseteq> pool k" "hhdm_offset k1 = hhdm_offset k" "pt_inv own1 k1 root" "phys_inv k1"
    "\<forall>a. page_of a \<notin> dom own \<union> pool k \<longrightarrow> mem k1 a = mem k a" "distinct fs" "set fs \<subseteq> pool k - pool k1 - dom own1"
    "r = -1 \<and> (\<exists>x. pool k1 \<subseteq> {x}) \<and> card (pool k) < 4 * c \<or>
     r = 0 \<and> card (pool k) \<le> card (pool k1) + 4 * c \<and> length fs = c \<and> (\<forall>va'. translate k1 root va' = (let n = vpn va' 0 in
        if b \<le> n \<and> n < b + length fs then Some (build_pte (flags2perm (ph_flags ph)) (V2P (hhdm_offset k) (fs ! (n - b))))
        else translate k root va'))"
    unfolding b c_def [symmetric] Let_def by blast
  have grows: "space_grows env root own k own1 k1" using A(2-7) unfolding space_grows_def by blast
  show ?thesis
  proof (cases "r = -1")
    case True
    then show ?thesis using A(1,10) grows sc by auto
  next
    case False
    then have r: "r = 0" "length fs = c" "card (pool k) \<le> card (pool k1) + 4 * c" and tr: "\<And>va'. translate k1 root va' = (if b \<le> vpn va' 0 \<and> vpn va' 0 < b + length fs
        then Some (build_pte (flags2perm (ph_flags ph)) (V2P (hhdm_offset k) (fs ! (vpn va' 0 - b)))) else translate k root va')"
      using A(10) by (auto simp: Let_def)
    have perm: "userspace (flags2perm (ph_flags ph))" "\<forall>pa. segment_entry ph (build_pte (flags2perm (ph_flags ph)) pa)"
      using segment_entry_build by (auto simp: flags2perm_def pte_permissions.defs)
    have v46: "unat va + n \<le> 2 ^ 46" using seg(2) by (simp add: d(2))
    have ix: "\<forall>j<n. b \<le> (unat va + j) div 4096 \<and> (unat va + j) div 4096 < b + length fs"
      using P(10) r(2) b(2) by (simp add: c_def d(2))
    have tr1: "\<forall>va'. b \<le> vpn va' 0 \<and> vpn va' 0 < b + length fs \<longrightarrow>
       translate k1 root va' = Some (build_pte (flags2perm (ph_flags ph)) (V2P (hhdm_offset k) (fs ! (vpn va' 0 - b))))"
      using tr by simp
    note U = allocated_user_range [OF A(5) inv(2) A(6) inv(3) A(4) inv(4) A(8,9) perm(1) seg(1) v46 ix tr1 perm(2)]
    have "page_of (user_addr k1 root (va + of_nat j)) \<in> pool k" if "j < n" for j
    proof -
      have "fs ! ((unat va + j) div 4096 - b) \<in> set fs" using ix that by (intro nth_mem) auto
      then have "fs ! ((unat va + j) div 4096 - b) \<in> pool k" using A(9) by blast
      then show ?thesis unfolding U(2) [OF that] using pool_aligned(1) [OF inv(2)] by (simp add: page_of_frame)
    qed
    moreover have "\<not> in_segment bias ph va' \<Longrightarrow> translate k1 root va' = translate k root va'" for va'
      using tr [of va'] r(2) bc by (auto simp: b_def)
    ultimately show ?thesis using A(1) r(1,3) grows U(1) unfolding sc by blast
  qed
qed

text \<open>The two conditional steps of the loader, when there is something to read and something to zero or not.\<close>

lemma segment_steps:
  assumes "unat (ph_filesz ph) = length xs" "ph_filesz ph \<le> ph_memsz ph" "length xs < 2 ^ 32" "n = unat (ph_memsz ph)"
    "load_segment dev st root ip va off (of_nat (length xs)) k1 = Ok (0, k2)"
    "if length xs < n then vmm_zero zb root (va + of_nat (length xs)) (of_nat (n - length xs)) k2 = Some (Ok (0, k3)) else k3 = k2"
  shows "(if ph_filesz ph > 0 then Some (load_segment dev st root ip va off (ucast (ph_filesz ph)) k1) else Some (Ok (0, k1))) = Some (Ok (0, k2))"
    "(if ph_memsz ph > ph_filesz ph then vmm_zero zb root (va + ph_filesz ph) (ph_memsz ph - ph_filesz ph) k2
      else Some (Ok (0, k2))) = Some (Ok (0, k3))"
proof -
  have fz: "ph_filesz ph = of_nat (length xs)" "ph_memsz ph = of_nat n" by (simp_all add: assms(1,4) flip: assms(1))
  have "unat (ucast (ph_filesz ph) :: u32) = length xs" using unat_ucast_down [of "ph_filesz ph"] assms(1,3) by simp
  then have fz32: "ucast (ph_filesz ph) = (of_nat (length xs) :: u32)"
    using unat_of_nat_u32 [of "length xs"] assms(3) by (simp add: word_unat_eq_iff)
  show "(if ph_filesz ph > 0 then Some (load_segment dev st root ip va off (ucast (ph_filesz ph)) k1) else Some (Ok (0, k1))) = Some (Ok (0, k2))"
  proof (cases "xs = []")
    case True
    then show ?thesis using assms(5) fz(1) by (simp add: load_segment_def load_segment_from.simps)
  next
    case False
    then have "ph_filesz ph > 0" using assms(1) by (simp add: word_less_nat_alt)
    then show ?thesis using assms(5) fz32 by simp
  qed
  have "ph_memsz ph > ph_filesz ph \<longleftrightarrow> length xs < n" using assms(1,4) by (simp add: word_less_nat_alt)
  moreover have "length xs \<le> n" using assms(1,2,4) by (simp add: word_le_nat_alt)
  then have "ph_memsz ph - ph_filesz ph = of_nat (n - length xs)" using fz by (simp add: of_nat_diff)
  ultimately show "(if ph_memsz ph > ph_filesz ph then vmm_zero zb root (va + ph_filesz ph) (ph_memsz ph - ph_filesz ph) k2
      else Some (Ok (0, k2))) = Some (Ok (0, k3))" using assms(6) fz(1) by (simp del: of_nat_diff split: if_splits)
qed

lemma map_segment_spec:
  assumes inv: "pt_inv own k root" "phys_inv k" "pool_addressable k" "hhdm_offset k \<notin> pool k" "buffer_apart env own k"
    and seg: "good_segment dev (disk st) (i_dnode (inode_at st ip)) bias ph xs"
    and un: "\<forall>va'. in_segment bias ph va' \<longrightarrow> translate k root va' = None"
  shows "\<exists>e k' own'. map_segment env dev st root ip bias ph k = Some (Ok (e, k')) \<and> space_grows env root own k own' k' \<and>
    (e = Inl () \<and> (\<exists>x. pool k' \<subseteq> {x}) \<and> card (pool k) < 4 * segment_count bias ph \<or>
     (\<exists>stop. e = Inr stop \<and> card (pool k) \<le> card (pool k') + 4 * segment_count bias ph \<and> unat stop = (segment_last bias ph + 1) * 4096 \<and> in_place env own' k' root bias ph xs \<and>
       (\<forall>va'. \<not> in_segment bias ph va' \<longrightarrow> translate k' root va' = translate k root va')))"
proof -
  define va where "va = segment_va bias ph"
  define n where "n = unat (ph_memsz ph)"
  define start where "start = va AND page_not_mask"
  define alloc where "alloc = PAGE_ROUND_UP (va - start + ph_memsz ph)"
  define zb where "zb = zero_buffer env"
  have g: "USERSPACE_VA_MIN \<le> va" "unat va + unat (ph_memsz ph) + 4096 < 2 ^ 32" "ph_memsz ph \<noteq> 0" "unat (ph_filesz ph) = length xs"
    "ph_filesz ph \<le> ph_memsz ph" "ph_filesz ph < ph_memsz ph \<Longrightarrow> segment_writable ph"
    "file_holds dev (disk st) (i_dnode (inode_at st ip)) (unat (ph_off ph)) xs" "unat (ph_off ph) + length xs < 2 ^ 32"
    using seg unfolding good_segment_def va_def [symmetric] by blast+
  note P = segment_pages [OF g(1-3) start_def alloc_def]
  from segment_allocated [OF inv g(1-3) un va_def n_def start_def alloc_def]
  obtain r k1 own1 where A: "vmm_allocate root start alloc (flags2perm (ph_flags ph)) False k = Ok (r, k1)" "space_grows env root own k own1 k1"
    "r = -1 \<and> (\<exists>x. pool k1 \<subseteq> {x}) \<and> card (pool k) < 4 * segment_count bias ph \<or>
     r = 0 \<and> card (pool k) \<le> card (pool k1) + 4 * segment_count bias ph \<and> user_range own1 k1 root (segment_entry ph) va n \<and>
       (\<forall>j<n. page_of (user_addr k1 root (va + of_nat j)) \<in> pool k) \<and>
       (\<forall>va'. \<not> in_segment bias ph va' \<longrightarrow> translate k1 root va' = translate k root va')" by blast
  have guards: "\<not> ph_memsz ph < ph_filesz ph" "\<not> (start < USERSPACE_VA_MIN \<or> USERSPACE_VA_MAX < start + alloc)"
    using g(5) P(3,9) by (auto simp: not_less)
  note unf = map_segment_def Let_def segment_va_def [of bias ph, symmetric] va_def [symmetric] start_def [symmetric] alloc_def [symmetric]
  have n01: "((0 :: int) = - 1) = False" "((0 :: int) < 0) = False" "((- 1 :: int) = - 1) = True" by simp_all
  show ?thesis
  proof (cases "r = -1")
    case True
    then have "map_segment env dev st root ip bias ph k = Some (Ok (Inl (), k1))"
      unfolding unf by (simp only: guards if_False if_True A(1) kbind_simps split_conv n01)
    then show ?thesis using True A(2,3) by auto
  next
    case False
    then have R: "r = 0" "user_range own1 k1 root (segment_entry ph) va n"
      "\<forall>j<n. page_of (user_addr k1 root (va + of_nat j)) \<in> pool k"
      "\<And>va'. \<not> in_segment bias ph va' \<Longrightarrow> translate k1 root va' = translate k root va'"
      "card (pool k) \<le> card (pool k1) + 4 * segment_count bias ph" using A(3) by auto
    have le: "length xs \<le> n" "length xs < n \<Longrightarrow> segment_writable ph" "unat va + n \<le> 2 ^ 32"
      using g(2,4,5,6) by (simp_all add: n_def word_le_nat_alt word_less_nat_alt)
    have zb: "unat zb + 4096 \<le> 2 ^ 64" "\<forall>t<4096. page_of (zb + of_nat t) \<notin> dom own \<union> pool k"
      "\<forall>t<4096. page_of (zb + of_nat t) \<notin> dom own1 \<union> pool k1"
      using inv(5) space_growsD(7) [OF A(2) inv(5)] unfolding buffer_apart_def zb_def by blast+
    then have zu: "\<forall>t<4096. \<forall>j<n. zb + of_nat t \<noteq> user_addr k1 root (va + of_nat j)" using R(3) by fastforce
    have off: "unat (ucast (ph_off ph) :: u32) = unat (ph_off ph)" using g(8) by (intro unat_ucast_down) simp
    have Rw: "user_range own1 k1 root (\<lambda>e. pte_is_writable e = segment_writable ph) va n"
      using user_range_mono [OF R(2)] by (simp add: segment_entry_def)
    from load_and_zero [OF Rw le _ _ zb(1,3) zu, of dev st ip "ucast (ph_off ph)"]
    obtain k2 k3 where L: "load_segment dev st root ip va (ucast (ph_off ph)) (of_nat (length xs)) k1 = Ok (0, k2)"
      "if length xs < n then vmm_zero zb root (va + of_nat (length xs)) (of_nat (n - length xs)) k2 = Some (Ok (0, k3)) else k3 = k2"
      "segment_filled zb k1 root va xs n k3" using g(7,8) off by auto
    note F = segment_filled_keeps [OF R(2) L(3) zb(3)]
    have run: "map_segment env dev st root ip bias ph k = Some (Ok (Inr (start + alloc), k3))"
    proof -
      note s = segment_steps [OF g(4,5) _ n_def L(1,2)]
      show ?thesis
        unfolding unf zb_def [symmetric]
        by (simp only: guards if_False A(1) R(1) kbind_simps split_conv n01 P(2) s [OF order.strict_trans1 [OF le_add2 g(8)]])
    qed
    have "mem k3 a = mem k a" if a: "page_of a \<notin> dom own \<union> pool k" "\<forall>t<4096. a \<noteq> zero_buffer env + of_nat t" for a
    proof -
      have "\<forall>j<n. a \<noteq> user_addr k1 root (va + of_nat j)" using R(3) a(1) by blast
      then have "mem k3 a = mem k1 a" using L(3) a(2) unfolding segment_filled_def zb_def by blast
      then show ?thesis using space_growsD(6) [OF A(2) a] by simp
    qed
    then have "space_grows env root own k own1 k3" using F(1-3,7) A(2) unfolding space_grows_def by auto
    moreover have "in_place env own1 k3 root bias ph xs"
      using F(6) [OF R(2)] L(3) zu unfolding in_place_def segment_filled_def F(5) va_def [symmetric] n_def [symmetric] zb_def by blast
    moreover have "unat (start + alloc) = (segment_last bias ph + 1) * 4096"
    proof -
      have "unat va div 4096 + unat alloc div 4096 = segment_last bias ph + 1" using P(11) by (simp add: segment_last_def va_def)
      moreover have "unat alloc = unat alloc div 4096 * 4096" unfolding P(4) by simp
      ultimately show ?thesis using P(1,8) by (metis distrib_right)
    qed
    moreover have "pool k3 = pool k1" using F(3) .
    ultimately show ?thesis using run R(4,5) F(4) by (intro exI [of _ "Inr (start + alloc)"] exI [of _ k3] exI [of _ own1]) simp
  qed
qed

section \<open>Loading a program\<close>

text \<open>The program headers that start at an offset of the file.\<close>

primrec headers_at :: "'d device \<Rightarrow> 'd fs_state \<Rightarrow> u64 \<Rightarrow> u64 \<Rightarrow> ProgramHeader list \<Rightarrow> bool" where
  "headers_at dev st ip off [] \<longleftrightarrow> True"
| "headers_at dev st ip off (ph # phs) \<longleftrightarrow>
     (let (r, xs) = fs_read dev ip 56 (unat off) st in r = 56 \<and> program_header xs = ph) \<and> headers_at dev st ip (off + 56) phs"

definition loadable :: "(ProgramHeader \<times> u8 list) list \<Rightarrow> (ProgramHeader \<times> u8 list) list" where
  "loadable phs = filter (\<lambda>(ph, xs). ph_type ph = ELF_PROG_LOAD) phs"

definition apart :: "u64 \<Rightarrow> ProgramHeader \<times> u8 list \<Rightarrow> ProgramHeader \<times> u8 list \<Rightarrow> bool" where
  "apart bias p q \<longleftrightarrow> segment_last bias (fst p) < segment_first bias (fst q) \<or> segment_last bias (fst q) < segment_first bias (fst p)"

lemma apart_pages: "apart bias p q \<Longrightarrow> in_segment bias (fst p) va \<Longrightarrow> \<not> in_segment bias (fst q) va"
  unfolding apart_def by auto

lemma loadable_simps [simp]:
  "loadable [] = []" "ph_type ph = ELF_PROG_LOAD \<Longrightarrow> loadable ((ph, xs) # phs) = (ph, xs) # loadable phs"
  "ph_type ph \<noteq> ELF_PROG_LOAD \<Longrightarrow> loadable ((ph, xs) # phs) = loadable phs"
  by (simp_all add: loadable_def)

text \<open>
  All segments are in place, those that were there before too; the end of the data lies behind them, and the pages of no
  segment have kept their translation.
\<close>

definition program_loaded ::
  "exec_env \<Rightarrow> u64 \<Rightarrow> u64 \<Rightarrow> (ProgramHeader \<times> u8 list) list \<Rightarrow> u64 \<Rightarrow> (u64 \<Rightarrow> (nat \<times> nat) option) \<Rightarrow> kmem \<Rightarrow> u64 \<Rightarrow>
   (u64 \<Rightarrow> (nat \<times> nat) option) \<Rightarrow> kmem \<Rightarrow> bool" where
  "program_loaded env root bias segs ids own k ids' own' k' \<longleftrightarrow> ids \<le> ids' \<and>
     (\<forall>p \<in> set segs. in_place env own' k' root bias (fst p) (snd p) \<and> (segment_last bias (fst p) + 1) * 4096 \<le> unat ids') \<and>
     (\<forall>p. in_place env own k root bias (fst p) (snd p) \<and> (\<forall>q \<in> set segs. apart bias p q) \<longrightarrow> in_place env own' k' root bias (fst p) (snd p)) \<and>
     (\<forall>va. (\<forall>p \<in> set segs. \<not> in_segment bias (fst p) va) \<longrightarrow> translate k' root va = translate k root va)"

lemma program_loaded_Cons:
  assumes "space_grows env root own k own1 k1" "unat stop = (segment_last bias ph + 1) * 4096" "in_place env own1 k1 root bias ph xs"
    "\<And>va. \<not> in_segment bias ph va \<Longrightarrow> translate k1 root va = translate k root va" "ids \<le> ids1" "stop \<le> ids1"
    "\<forall>q \<in> set segs. apart bias (ph, xs) q" "program_loaded env root bias segs ids1 own1 k1 ids' own' k'"
  shows "program_loaded env root bias ((ph, xs) # segs) ids own k ids' own' k'"
proof -
  note L = assms(8) [unfolded program_loaded_def]
  have "in_place env own' k' root bias ph xs" using L assms(3,7) by fastforce
  moreover have "(segment_last bias ph + 1) * 4096 \<le> unat ids'" "ids \<le> ids'"
    using assms(2,5,6) L by (auto simp: word_le_nat_alt)
  moreover have "in_place env own' k' root bias (fst p) (snd p)"
    if "in_place env own k root bias (fst p) (snd p)" "apart bias p (ph, xs)" "\<forall>q \<in> set segs. apart bias p q" for p
  proof -
    have "in_place env own1 k1 root bias (fst p) (snd p)"
      using in_place_grows [OF that(1) assms(1)] assms(4) apart_pages [OF that(2)] by simp
    then show ?thesis using L that(3) by blast
  qed
  moreover have "translate k' root va = translate k root va"
    if "\<not> in_segment bias ph va" "\<forall>p \<in> set segs. \<not> in_segment bias (fst p) va" for va
    using L assms(4) [OF that(1)] that(2) by simp
  ultimately show ?thesis using L unfolding program_loaded_def by simp
qed

lemma load_program_spec:
  assumes "pt_inv own k root" "phys_inv k" "pool_addressable k" "hhdm_offset k \<notin> pool k" "buffer_apart env own k"
    "headers_at dev st ip off (map fst phs)"
    "\<forall>p \<in> set (loadable phs). good_segment dev (disk st) (i_dnode (inode_at st ip)) bias (fst p) (snd p) \<and>
       (\<forall>va. in_segment bias (fst p) va \<longrightarrow> translate k root va = None)"
    "sorted_wrt (apart bias) (loadable phs)"
  shows "\<exists>ok ids' k' own'. load_program env dev st root ip bias (length phs) off ids k = Some (Ok (ok, ids', k')) \<and>
    space_grows env root own k own' k' \<and> (\<not> ok \<and> (\<exists>x. pool k' \<subseteq> {x}) \<and> card (pool k) < 4 * program_pages bias (loadable phs) \<or>
     ok \<and> program_loaded env root bias (loadable phs) ids own k ids' own' k')"
  using assms
proof (induction phs arbitrary: own k off ids)
  case Nil
  have "space_grows env root own k own k" using Nil.prems(1,2) by (auto simp: space_grows_def)
  then show ?case by (auto simp: program_loaded_def intro!: exI [of _ own])
next
  case (Cons p phs)
  obtain ph xs where p: "p = (ph, xs)" by (cases p)
  obtain ys where rd: "fs_read dev ip 56 (unat off) st = (56, ys)" "program_header ys = ph" "headers_at dev st ip (off + 56) (map fst phs)"
    using Cons.prems(6) by (auto simp: p split: prod.splits)
  show ?case
  proof (cases "ph_type ph = ELF_PROG_LOAD")
    case False
    then have "loadable (p # phs) = loadable phs" by (simp add: p)
    moreover have "load_program env dev st root ip bias (length (p # phs)) off ids k = load_program env dev st root ip bias (length phs) (off + 56) ids k"
      using rd False by simp
    ultimately show ?thesis using Cons.IH [OF Cons.prems(1-5) rd(3), of ids] Cons.prems(7,8) by simp
  next
    case True
    then have lp: "loadable (p # phs) = (ph, xs) # loadable phs" by (simp add: p)
    have gs: "good_segment dev (disk st) (i_dnode (inode_at st ip)) bias ph xs" "\<forall>va. in_segment bias ph va \<longrightarrow> translate k root va = None"
      and rest: "\<forall>q \<in> set (loadable phs). good_segment dev (disk st) (i_dnode (inode_at st ip)) bias (fst q) (snd q) \<and>
        (\<forall>va. in_segment bias (fst q) va \<longrightarrow> translate k root va = None)"
      and ap: "\<forall>q \<in> set (loadable phs). apart bias (ph, xs) q" "sorted_wrt (apart bias) (loadable phs)"
      using Cons.prems(7,8) unfolding lp by auto
    from map_segment_spec [OF Cons.prems(1-5) gs]
    obtain e k1 own1 where M: "map_segment env dev st root ip bias ph k = Some (Ok (e, k1))" "space_grows env root own k own1 k1"
      "e = Inl () \<and> (\<exists>x. pool k1 \<subseteq> {x}) \<and> card (pool k) < 4 * segment_count bias ph \<or>
       (\<exists>stop. e = Inr stop \<and> card (pool k) \<le> card (pool k1) + 4 * segment_count bias ph \<and> unat stop = (segment_last bias ph + 1) * 4096 \<and> in_place env own1 k1 root bias ph xs \<and>
         (\<forall>va. \<not> in_segment bias ph va \<longrightarrow> translate k1 root va = translate k root va))" by blast
    have pp: "program_pages bias (loadable (p # phs)) = segment_count bias ph + program_pages bias (loadable phs)"
      unfolding lp by (simp add: program_pages_def)
    show ?thesis
    proof (cases "e = Inl ()")
      case e: True
      then have "load_program env dev st root ip bias (length (p # phs)) off ids k = Some (Ok (False, ids, k1))"
        using rd True M(1) by simp
      then show ?thesis using M(2,3) e unfolding pp by auto
    next
      case False
      then obtain stop where S: "e = Inr stop" "unat stop = (segment_last bias ph + 1) * 4096" "in_place env own1 k1 root bias ph xs"
        "\<And>va. \<not> in_segment bias ph va \<Longrightarrow> translate k1 root va = translate k root va"
        "card (pool k) \<le> card (pool k1) + 4 * segment_count bias ph" using M(3) by blast
      define ids1 where "ids1 = (if ids > stop then ids else stop)"
      have i1: "ids \<le> ids1" "stop \<le> ids1" by (auto simp: ids1_def)
      note g = space_growsD [OF M(2)]
      have un1: "\<forall>q \<in> set (loadable phs). good_segment dev (disk st) (i_dnode (inode_at st ip)) bias (fst q) (snd q) \<and>
        (\<forall>va. in_segment bias (fst q) va \<longrightarrow> translate k1 root va = None)"
        using rest S(4) ap(1) apart_pages [of bias "(ph, xs)"] by fastforce
      have h1: "hhdm_offset k1 \<notin> pool k1" using Cons.prems(4) g(3,4) by auto
      from Cons.IH [OF g(1,2) g(8) [OF Cons.prems(3)] h1 g(7) [OF Cons.prems(5)] rd(3) un1 ap(2), of ids1]
      obtain ok ids' k' own' where IH: "load_program env dev st root ip bias (length phs) (off + 56) ids1 k1 = Some (Ok (ok, ids', k'))"
        "space_grows env root own1 k1 own' k'"
        "\<not> ok \<and> (\<exists>x. pool k' \<subseteq> {x}) \<and> card (pool k1) < 4 * program_pages bias (loadable phs) \<or> ok \<and> program_loaded env root bias (loadable phs) ids1 own1 k1 ids' own' k'" by blast
      have run: "load_program env dev st root ip bias (length (p # phs)) off ids k = Some (Ok (ok, ids', k'))"
        using rd True M(1) S(1) IH(1) by (simp add: ids1_def)
      have "program_loaded env root bias (loadable (p # phs)) ids own k ids' own' k'" if "ok"
        using program_loaded_Cons [OF M(2) S(2-4) i1 ap(1), of ids' own' k'] IH(3) that lp by simp
      moreover have "card (pool k1) < 4 * program_pages bias (loadable phs) \<Longrightarrow> card (pool k) < 4 * program_pages bias (loadable (p # phs))"
        using S(5) unfolding pp by simp
      ultimately show ?thesis using run space_grows_trans [OF M(2) IH(2)] IH(3) by blast
    qed
  qed
qed

end
