(* ===== verification/Dzfs_Props.thy ===== *)
theory Dzfs_Props
  imports Dzfs_Files
begin

text \<open>
  The properties of the file system: allocation of blocks, the content of files, folders, making a
  file system, opening what was created, deletion and the count of free blocks, each with an evaluation on a small
  disk kept in memory.
\<close>

section \<open>A disk in memory\<close>

text \<open>
  A device of \<open>n\<close> blocks kept in memory, for evaluating the definitions: one bitmap block (2), the root
  folder (3) and an empty file (4); the blocks 5, 6 and 7 are free.
\<close>

definition ram_disk :: "nat \<Rightarrow> (u32 \<Rightarrow> block) device" where
  "ram_disk n = \<lparr>read_block = (\<lambda>k d. if unat k < n then Some (d k) else None),
     write_block = (\<lambda>k b d. if unat k < n then (True, d(k := b)) else (False, d)),
     total_blocks = of_nat n, current_date = 7\<rparr>"

definition sample_fs :: dzFS where
  "sample_fs = \<lparr>sb_version = 1, sb_blocks = 8, free_bitmap_blocks = 1, root_dnode = 3\<rparr>"

definition sample_disk :: "u32 \<Rightarrow> block" where
  "sample_disk = (\<lambda>_. zero_block)(2 := zero_block(0 := 0xE0), 3 := store32 (folder_block [47] 7 3) 268 4,
     4 := new_dnode 7 [97] 0 3)"

lemma keeps_writes_ram: "keeps_writes (ram_disk n)"
  by (auto simp: keeps_writes_def ram_disk_def split: if_splits)

lemma ram_disk_simps [simp]:
  "read_block (ram_disk n) k d = (if unat k < n then Some (d k) else None)"
  "write_block (ram_disk n) k b d = (if unat k < n then (True, d(k := b)) else (False, d))"
  "total_blocks (ram_disk n) = of_nat n" "current_date (ram_disk n) = 7"
  by (simp_all add: ram_disk_def)

lemma sample_simps [simp]:
  "sample_disk 2 = zero_block(0 := 0xE0)" "sample_disk 3 = store32 (folder_block [47] 7 3) 268 4"
  "sample_disk 4 = new_dnode 7 [97] 0 3" "free_bitmap_blocks sample_fs = 1" "root_dnode sample_fs = 3"
  by (simp_all add: sample_disk_def sample_fs_def)

lemma sample_bitmap: "is_bitmap sample_fs k \<longleftrightarrow> k = 2"
  by (auto simp: is_bitmap_def sample_fs_def word_unat_eq_iff)

lemma bitmap_of_small: "unat k < 32768 \<Longrightarrow> bitmap_of k = 2"
  by (simp add: word_unat_eq_iff unat_bitmap_of)

lemma bit_E0: "bit (0xE0 :: u8) n \<longleftrightarrow> n = 5 \<or> n = 6 \<or> n = 7"
proof (cases "n < 8")
  case True
  then have "n = 0 \<or> n = 1 \<or> n = 2 \<or> n = 3 \<or> n = 4 \<or> n = 5 \<or> n = 6 \<or> n = 7" by linarith
  then show ?thesis by auto
next
  case False
  then show ?thesis by (auto dest: bit_imp_le_length)
qed

lemma sample_free:
  assumes "unat k < 32768"
  shows "is_free (ram_disk 8) sample_disk k \<longleftrightarrow> k = 5 \<or> k = 6 \<or> k = 7"
proof -
  have "(of_nat (unat k div 8) :: u64) = 0 \<longleftrightarrow> unat k < 8"
    using of_nat_u64_eq [of "unat k div 8" 0] assms by (auto simp: div_eq_0_iff)
  then have "is_free (ram_disk 8) sample_disk k \<longleftrightarrow> unat k = 5 \<or> unat k = 6 \<or> unat k = 7"
    using assms bit_E0 [of "unat k"] by (auto simp: is_free_def bitmap_of_small bm_bit_def zero_block_def)
  then show ?thesis by (auto simp: word_unat_eq_iff)
qed

lemma zero_block_loads [simp]: "load32 zero_block a = 0" "zero_block a = 0"
  by (simp_all add: zero_block_def load32_def eval_nat_numeral)

lemma in_block_range:
  "in_range (of_nat a) n x \<Longrightarrow> a < 4096 \<Longrightarrow> n \<le> 4096 \<Longrightarrow> a \<le> unat x \<and> unat x < a + n"
  by (auto simp: in_range_def unat_diff unat_of_nat split: if_splits)

lemma in_block_rangeI:
  "a < 4096 \<Longrightarrow> in_range (of_nat a) n x \<longleftrightarrow> a \<le> unat x \<and> unat x < a + n" if "n \<le> 4096"
  using that by (auto simp: in_range_def unat_diff unat_of_nat split: if_splits)

lemma load32_eqI:
  "(\<And>x. a \<le> unat x \<Longrightarrow> unat x < a + 4 \<Longrightarrow> m x = m' x) \<Longrightarrow> a < 4096 \<Longrightarrow> load32 m (of_nat a) = load32 m' (of_nat a)"
  by (intro load32_cong) (auto dest: in_block_range)

lemma load64_eqI:
  "(\<And>x. a \<le> unat x \<Longrightarrow> unat x < a + 8 \<Longrightarrow> m x = m' x) \<Longrightarrow> a < 4096 \<Longrightarrow> load64 m (of_nat a) = load64 m' (of_nat a)"
  by (intro load64_cong) (auto dest: in_block_range)

text \<open>What a new dnode reads as, for a name that fits.\<close>

lemma new_dnode_above:
  assumes "length name \<le> 254" "264 \<le> unat x"
  shows "new_dnode date name flags parent x =
    (if flags AND DZFS_O_DIR \<noteq> 0 \<and> unat x < 268 then store32 zero_block 264 parent x else 0)"
proof -
  define t where "t = put_bytes (store64 zero_block 256 date) 1 (name @ [0])"
  have r256: "in_range 256 8 x \<longleftrightarrow> False" using in_block_rangeI [of 8 256 x] assms(2) by simp
  have r264: "in_range 264 4 x \<longleftrightarrow> unat x < 268" using in_block_rangeI [of 4 264 x] assms(2) by simp
  have x: "x \<noteq> 0" using assms(2) by auto
  have "t x = 0" using assms by (simp add: t_def put_bytes_def store64_outside r256)
  then have "(t(0 := v)) x = 0" for v using x by simp
  then have "store32 (t(0 := v)) 264 parent x = (if unat x < 268 then store32 zero_block 264 parent x else 0)" for v
    by (simp add: store32_def store_le_def r264)
  moreover have "(t(0 := v)) x = 0" for v using x \<open>t x = 0\<close> by simp
  ultimately show ?thesis
    unfolding new_dnode_def t_def [symmetric] Let_def by (simp only: if_distrib [where f = "\<lambda>b. b x"] split: if_split) simp
qed

lemma new_dnode_fields:
  assumes "length name \<le> 254"
  shows "blk_type (new_dnode date name flags parent) = (if flags AND DZFS_O_DIR \<noteq> 0 then DZFS_ENTITY_FOLDER else DZFS_ENTITY_FILE)"
    "268 \<le> a \<Longrightarrow> a < 4096 \<Longrightarrow> load32 (new_dnode date name flags parent) (of_nat a) = 0"
    "load32 (new_dnode date name flags parent) 264 = (if flags AND DZFS_O_DIR \<noteq> 0 then parent else 0)"
    "name_matches (new_dnode date name flags parent) name"
proof -
  show "blk_type (new_dnode date name flags parent) = (if flags AND DZFS_O_DIR \<noteq> 0 then DZFS_ENTITY_FOLDER else DZFS_ENTITY_FILE)"
    by (simp add: new_dnode_def Let_def)
  show "load32 (new_dnode date name flags parent) (of_nat a) = 0" if "268 \<le> a" "a < 4096"
  proof -
    have "load32 (new_dnode date name flags parent) (of_nat a) = load32 zero_block (of_nat a)"
      using that assms by (intro load32_eqI) (simp_all add: new_dnode_above)
    then show ?thesis by simp
  qed
  have "load32 (new_dnode date name flags parent) (of_nat 264) =
      load32 (if flags AND DZFS_O_DIR \<noteq> 0 then store32 zero_block (of_nat 264) parent else zero_block) (of_nat 264)"
    using assms by (intro load32_eqI) (simp_all add: new_dnode_above)
  then show "load32 (new_dnode date name flags parent) 264 = (if flags AND DZFS_O_DIR \<noteq> 0 then parent else 0)"
    by (simp add: zero_block_loads split: if_splits)
  have "new_dnode date name flags parent (of_nat (1 + i)) = (name @ [0]) ! i" if "i \<le> length name" for i
  proof -
    have "(of_nat (1 + i) :: u64) \<noteq> 0" "unat (of_nat (1 + i) :: u64) = 1 + i"
      using that assms of_nat_u64_eq [of "1 + i" 0] by (auto simp: unat_of_nat simp del: of_nat_add of_nat_Suc)
    moreover have "store32 b (of_nat 264) parent (of_nat (1 + i)) = b (of_nat (1 + i))" for b
      using that assms by (intro store32_byte) auto
    ultimately show ?thesis
      using that assms by (simp add: new_dnode_def put_bytes_def Let_def del: of_nat_add of_nat_Suc)
  qed
  then show "name_matches (new_dnode date name flags parent) name"
    by (auto simp: name_matches_def get_bytes_def nth_append simp del: of_nat_add of_nat_Suc intro!: nth_equalityI)
qed

lemma first_nonzero_0: "b 0 \<noteq> 0 \<Longrightarrow> first_nonzero b = Some 0"
proof -
  assume b: "b 0 \<noteq> 0"
  have "[0..<DZFS_BLOCK_SIZE] = 0 # [1..<DZFS_BLOCK_SIZE]"
    by (subst upt_conv_Cons) (simp_all add: DZFS_BLOCK_SIZE_def)
  then show ?thesis using b by (simp add: first_nonzero_def)
qed

lemma ctz_E0: "ctz 0xE0 = 5"
proof -
  have "[0..<8] = [0, 1, 2, 3, 4, 5, 6, 7 :: nat]" by (simp add: upt_rec)
  then show ?thesis unfolding ctz_def bit_E0 by simp
qed

lemma sample_alloc: "block_alloc (ram_disk 8) sample_fs sample_disk = (5, sample_disk(2 := bitmap_clear (zero_block(0 := 0xE0)) 5))"
proof -
  have "first_nonzero (zero_block(0 := 0xE0)) = Some 0" by (rule first_nonzero_0) simp
  then have "alloc_scan (ram_disk 8) 0 (Suc 0) sample_disk = 5"
    by (simp add: ctz_E0)
  then show ?thesis
    by (simp add: block_alloc_def bitmap_of_small DZFS_BITSET_COVERED_BLOCKS_def)
qed

lemma sample_file_loads:
  "sample_disk 4 0 = DZFS_ENTITY_FILE" "file_size (sample_disk 4) = 0" "file_indirect (sample_disk 4) = 0"
  "i < 956 \<Longrightarrow> load32 (sample_disk 4) (direct_slot i) = 0"
proof -
  have n: "length [97 :: u8] \<le> 254" by simp
  show "sample_disk 4 0 = DZFS_ENTITY_FILE" "file_size (sample_disk 4) = 0"
    by (simp_all add: new_dnode_fields(1,3) [OF n])
  show "file_indirect (sample_disk 4) = 0" "i < 956 \<Longrightarrow> load32 (sample_disk 4) (direct_slot i) = 0"
    unfolding slot_nats by (simp_all add: new_dnode_fields(2) [OF n] del: of_nat_add of_nat_mult of_nat_numeral)
qed

lemma sample_ptrs: "ptrs_ok (ram_disk 8) sample_fs 4 (content_block (sample_disk 4) zero_block) 0 sample_disk"
proof -
  have "content_block (sample_disk 4) zero_block i = 0" for i
    using sample_file_loads(4) by (simp add: content_block_def DZFS_DIRECT_BLOCKS_def)
  moreover have "taken (ram_disk 8) sample_fs sample_disk 2" "taken (ram_disk 8) sample_fs sample_disk 4"
    by (simp_all add: taken_def on_disk_def sample_free)
  ultimately show ?thesis by (simp add: ptrs_ok_def sample_bitmap)
qed

lemma sample_file: "file_on_disk (ram_disk 8) sample_fs 4 (sample_disk 4) zero_block sample_disk"
  using sample_ptrs by (simp add: file_on_disk_def read_indirect_def sample_file_loads del: sample_simps)

lemma sample_write_any:
  assumes "data \<noteq> []" "length data \<le> 4096"
  shows "fst (dzfs_write (ram_disk 8) sample_fs 4 data 0 sample_disk) = DZFS_OK"
proof -
  define db1 where "db1 = store32 (sample_disk 4) (direct_slot 0) 5"
  have "slot_block (ram_disk 8) sample_fs (sample_disk 4) zero_block 0 sample_disk =
     (5, db1, zero_block, sample_disk(2 := bitmap_clear (zero_block(0 := 0xE0)) 5))"
    using sample_file_loads(4) [of 0]
    by (simp add: slot_block_def DZFS_DIRECT_BLOCKS_def get_or_allocate_block_def sample_alloc db1_def del: sample_simps)
  then have "\<exists>d2. write_loop (ram_disk 8) sample_fs (sample_disk 4) zero_block zero_block data 0 sample_disk =
      (DZFS_OK, db1, zero_block, d2)"
    using assms by (subst write_loop.simps) (simp add: DZFS_BLOCK_SIZE_def write_loop.simps del: sample_simps)
  moreover have "file_indirect db1 = 0" by (simp add: db1_def sample_file_loads(3) del: sample_simps)
  ultimately show ?thesis
    using assms by (auto simp: dzfs_write_def sample_file_loads read_indirect_def DZFS_MAX_FILESIZE_def simp del: sample_simps)
qed

lemma sample_write: "fst (dzfs_write (ram_disk 8) sample_fs 4 [1, 2, 3] 0 sample_disk) = DZFS_OK"
  by (rule sample_write_any) simp_all

text \<open>
  C20: writing to a file that owns its blocks and reading the same range gives the data back. The
  file keeps its form and grows by the number of bytes written, whatever was there before; the other
  bytes are kept, except in the first block of the file when the write starts at offset 0; no block in use
  that is not of this file and not a bitmap changes.
\<close>

theorem dzfs_write_read:
  assumes "keeps_writes dev" "unat (free_bitmap_blocks fs) \<le> 131072"
    "file_on_disk dev fs dnode db ib d" "unat (file_size db) + length data < 2 ^ 31"
    "dzfs_write dev fs dnode data off d = (DZFS_OK, d')"
  shows "dzfs_read dev dnode (length data) off d' = (int (length data), data) \<and>
    (\<exists>db' ib'. file_on_disk dev fs dnode db' ib' d' \<and> file_size db' = file_size db + of_nat (length data) \<and>
       (\<forall>p<8110080. content_block db ib (p div 4096) \<noteq> 0 \<and>
           (p < off \<or> off + length data \<le> p \<and> (0 < off \<or> 4096 \<le> p)) \<longrightarrow>
         file_byte dev db' ib' d' p = file_byte dev db ib d p)) \<and>
    (\<forall>j. taken dev fs d j \<and> \<not> is_bitmap fs j \<and> j \<noteq> dnode \<and> j \<noteq> file_indirect db \<and>
       (\<forall>i<1980. content_block db ib i \<noteq> j) \<longrightarrow> read_block dev j d' = read_block dev j d)"
  using dzfs_read_back [OF assms] dzfs_write_spec [OF assms(1-3) dzfs_read_back(2) [OF assms] assms(5)] by blast

theorem dzfs_write_read_witness:
  "dzfs_read (ram_disk 8) 4 3 0 (snd (dzfs_write (ram_disk 8) sample_fs 4 [1, 2, 3] 0 sample_disk)) = (3, [1, 2, 3])"
proof -
  have "dzfs_write (ram_disk 8) sample_fs 4 [1, 2, 3] 0 sample_disk =
      (DZFS_OK, snd (dzfs_write (ram_disk 8) sample_fs 4 [1, 2, 3] 0 sample_disk))"
    using sample_write by (simp add: prod_eq_iff)
  from dzfs_write_read [OF keeps_writes_ram _ sample_file _ this] show ?thesis
    by (simp add: sample_file_loads numeral_3_eq_3 sample_fs_def del: sample_simps)
qed

text \<open>
  C21: \<^verbatim>\<open>block_alloc\<close> on a device whose bitmaps can be read and written, with block 0 marked as used: it
  returns 0 only when no block is free, otherwise a free block of the disk, which is not
  free afterwards, while all other blocks keep their state and their contents; \<^verbatim>\<open>block_free\<close> undoes it.
\<close>

theorem block_alloc_free:
  assumes "keeps_writes dev" "unat (free_bitmap_blocks fs) \<le> 131072"
    "\<forall>k d. is_bitmap fs k \<longrightarrow> read_block dev k d \<noteq> None"
    "\<forall>k b d. is_bitmap fs k \<longrightarrow> fst (write_block dev k b d)"
    "\<not> is_free dev d 0" "block_alloc dev fs d = (a, d')"
  shows "if a = 0 then \<forall>k. on_disk fs k \<longrightarrow> \<not> is_free dev d k
     else on_disk fs a \<and> is_free dev d a \<and> (\<forall>k. is_free dev d' k \<longleftrightarrow> is_free dev d k \<and> k \<noteq> a) \<and>
       (\<forall>j. \<not> is_bitmap fs j \<longrightarrow> read_block dev j d' = read_block dev j d) \<and>
       (\<forall>k. is_free dev (block_free dev a d') k \<longleftrightarrow> is_free dev d k) \<and>
       (\<forall>j. \<not> is_bitmap fs j \<longrightarrow> read_block dev j (block_free dev a d') = read_block dev j d)"
proof (cases "a = 0")
  case True
  have "\<forall>k. on_disk fs k \<longrightarrow> \<not> is_free dev d k"
  proof (intro allI impI)
    fix k assume k: "on_disk fs k"
    define m where "m = unat (free_bitmap_blocks fs)"
    have bm: "is_bitmap fs (of_nat i + 1 + 1)" if "i < m" for i
    proof -
      have "unat (of_nat i + 1 + 1 :: u32) = i + 2"
        using that assms(2) by (simp add: m_def add.assoc unat_word_ariths unat_of_nat)
      then show ?thesis using that by (simp add: is_bitmap_def m_def)
    qed
    have "alloc_scan dev 0 m d = 0"
    proof (rule ccontr)
      define c where "c = alloc_scan dev 0 m d"
      assume "alloc_scan dev 0 m d \<noteq> 0"
      then have c: "c \<noteq> 0" "alloc_scan dev 0 m d = c" by (simp_all add: c_def)
      have "unat c < (0 + m) * 32768"
        using alloc_scan_found [OF c(2,1)] assms(2) by (simp add: m_def)
      then have bmc: "is_bitmap fs (bitmap_of c)"
        by (intro bitmap_of_is_bitmap) (simp add: on_disk_def m_def)
      then obtain b where b: "read_block dev (bitmap_of c) d = Some b" using assms(3) by fastforce
      have "fst (write_block dev (bitmap_of c) (bitmap_clear b (c mod DZFS_BITSET_COVERED_BLOCKS)) d)"
        using assms(4) bmc by blast
      then obtain d1 where "write_block dev (bitmap_of c) (bitmap_clear b (c mod DZFS_BITSET_COVERED_BLOCKS)) d = (True, d1)"
        by (metis prod.collapse)
      then have "fst (block_alloc dev fs d) \<noteq> 0"
        using c b by (simp add: block_alloc_def m_def Let_def)
      then show False using assms(6) True by simp
    qed
    then show "\<not> is_free dev d k"
      using alloc_scan_none [of dev 0 m d k] bm assms k by (simp add: m_def on_disk_def mult.commute)
  qed
  then show ?thesis using True by simp
next
  case False
  note a = this
  note al = block_alloc_spec [OF assms(1,6) a assms(2)]
  note bm = bitmap_of_is_bitmap [OF al(1)]
  obtain b where b: "read_block dev (bitmap_of a) d' = Some b" using assms(3) bm by fastforce
  have "fst (write_block dev (bitmap_of a) (bitmap_set b (a mod DZFS_BITSET_COVERED_BLOCKS)) d')"
    using assms(4) bm by blast
  note fr = block_free_spec [OF assms(1) b this]
  have "is_free dev (block_free dev a d') k \<longleftrightarrow> is_free dev d k" for k
    using fr(1) [of k] al(2) al(3) [of k] by auto
  moreover have "read_block dev j (block_free dev a d') = read_block dev j d" if "\<not> is_bitmap fs j" for j
    using fr(2) [of j] al(4) [OF that] bm that by auto
  ultimately show ?thesis using al a by simp
qed

theorem block_alloc_free_witness:
  "is_free (ram_disk 8) (block_free (ram_disk 8) 5 (snd (block_alloc (ram_disk 8) sample_fs sample_disk))) 5"
proof -
  have "\<forall>k d. is_bitmap sample_fs k \<longrightarrow> read_block (ram_disk 8) k d \<noteq> None"
    "\<forall>k b d. is_bitmap sample_fs k \<longrightarrow> fst (write_block (ram_disk 8) k b d)"
    by (simp_all add: sample_bitmap)
  from block_alloc_free [OF keeps_writes_ram _ this _ sample_alloc] show ?thesis
    by (simp add: sample_free sample_alloc)
qed

section \<open>Folders\<close>

definition folder_list :: "block \<Rightarrow> u32 list" where
  "folder_list dir = map (folder_content dir) [0..<folder_content_count dir]"

definition folder_ok :: "block \<Rightarrow> bool" where
  "folder_ok dir \<longleftrightarrow>
     (\<forall>i. folder_content_count dir \<le> i \<and> i < 957 \<longrightarrow> folder_content dir i = 0) \<and> distinct (folder_list dir)"

lemma count_props:
  "\<forall>i<folder_content_count dir. folder_content dir i \<noteq> 0" "folder_content_count dir \<le> 957"
  "folder_content_count dir < 957 \<Longrightarrow> folder_content dir (folder_content_count dir) = 0"
  using takeWhile_upt [OF folder_content_count_def [symmetric], of dir]
  by (simp_all add: DZFS_MAX_DIR_CONTENTS_def)

lemma count_eqI:
  assumes "n \<le> 957" "\<And>i. i < n \<Longrightarrow> folder_content dir i \<noteq> 0" "n < 957 \<Longrightarrow> folder_content dir n = 0"
  shows "folder_content_count dir = n"
proof (rule linorder_cases [of "folder_content_count dir" n])
  assume "folder_content_count dir < n"
  then show ?thesis using assms(1,2) count_props(3) [of dir] by auto
next
  assume "n < folder_content_count dir"
  then show ?thesis using assms(3) count_props(1,2) [of dir] by auto
qed

lemma folder_content_store:
  "i < 957 \<Longrightarrow> j < 957 \<Longrightarrow> folder_content (store32 dir (content_slot (int i)) v) j = (if j = i then v else folder_content dir j)"
proof (cases "j = i")
  case True
  then show ?thesis by (simp add: folder_content_def)
next
  case False
  assume "i < 957" "j < 957"
  then have "load32 (store32 dir (of_nat (268 + 4 * i)) v) (of_nat (268 + 4 * j)) = load32 dir (of_nat (268 + 4 * j))"
    using False by (intro load32_store32_other) linarith+
  then show ?thesis using False unfolding folder_content_def slot_nats(3) by (simp only: if_False)
qed

lemma folder_header_store:
  "unat x < 268 \<Longrightarrow> i < 957 \<Longrightarrow> store32 dir (content_slot (int i)) v x = dir x"
  using store32_byte [of "unat x" "268 + 4 * i" dir v]
  by (simp add: slot_nats(3) del: of_nat_add of_nat_mult of_nat_numeral)

lemma remove_shape:
  assumes "folder_remove_content dir t = Some dir'" "folder_ok dir" "t \<noteq> 0"
  obtains i m where "i \<le> m" "m < 957" "folder_content_count dir = Suc m" "folder_content dir i = t"
    "\<And>j. j < 957 \<Longrightarrow> folder_content dir' j = (if j = m then 0 else if j = i then folder_content dir m else folder_content dir j)"
    "\<And>x. unat x < 268 \<Longrightarrow> dir' x = dir x"
proof -
  obtain i where ci: "content_index dir t = Some i"
    using assms(1) by (auto simp: folder_remove_content_def split: option.splits)
  then obtain xs where "filter (\<lambda>i. folder_content dir i = t) [0..<DZFS_MAX_DIR_CONTENTS] = i # xs"
    by (auto simp: content_index_def split: list.splits)
  note fi = filter_upt_first [OF this]
  have i: "i < 957" "folder_content dir i = t" using fi by (simp_all add: DZFS_MAX_DIR_CONTENTS_def)
  have ic: "i < folder_content_count dir"
    using assms(2,3) i unfolding folder_ok_def by (metis linorder_not_le)
  then obtain m where m: "folder_content_count dir = Suc m" "i \<le> m"
    by (cases "folder_content_count dir") auto
  have m957: "m < 957" using count_props(2) [of dir] m(1) by simp
  have dir': "dir' = (if m = 0 then store32 dir (content_slot 0) 0
      else if m = i then store32 dir (content_slot (int m)) 0
      else store32 (store32 dir (content_slot (int i)) (folder_content dir m)) (content_slot (int m)) 0)"
    using assms(1) ci m by (auto simp: folder_remove_content_def Let_def folder_content_def)
  have c: "folder_content dir' j = (if j = m then 0 else if j = i then folder_content dir m else folder_content dir j)" if "j < 957" for j
  proof (cases "m = 0")
    case True
    then show ?thesis using m(2) that folder_content_store [of 0 j dir 0] unfolding dir' by simp
  next
    case False
    then show ?thesis using that m957 i(1) unfolding dir' by (simp add: folder_content_store)
  qed
  have h: "dir' x = dir x" if "unat x < 268" for x
    using that m957 i(1) folder_header_store [of x 0 dir 0] unfolding dir' by (simp add: folder_header_store)
  show ?thesis using that [OF m(2) m957 m(1) i(2) c h] .
qed

lemma removed_image:
  fixes m :: nat
  assumes "inj_on c {..m}" "i \<le> m" "\<And>j. j < m \<Longrightarrow> c' j = (if j = i then c m else c j)"
  shows "c' ` {..<m} = c ` {..m} - {c i}" "inj_on c' {..<m}"
proof -
  have eq: "a \<le> m \<Longrightarrow> b \<le> m \<Longrightarrow> c a = c b \<longleftrightarrow> a = b" for a b
    using assms(1) by (auto dest: inj_onD)
  show "c' ` {..<m} = c ` {..m} - {c i}"
  proof (intro equalityI subsetI)
    fix y assume "y \<in> c' ` {..<m}"
    then obtain j where j: "j < m" "y = c' j" by auto
    then show "y \<in> c ` {..m} - {c i}"
      using assms(2) assms(3) [of j] eq [of m i] eq [of j i] by (cases "j = i") auto
  next
    fix y assume "y \<in> c ` {..m} - {c i}"
    then obtain j where j: "j \<le> m" "j \<noteq> i" "y = c j" by auto
    show "y \<in> c' ` {..<m}"
    proof (cases "j = m")
      case True
      then show ?thesis using j assms(2) assms(3) [of i] by (intro image_eqI [of _ _ i]) auto
    next
      case False
      then show ?thesis using j assms(3) [of j] by (intro image_eqI [of _ _ j]) auto
    qed
  qed
  show "inj_on c' {..<m}"
  proof (rule inj_onI)
    fix a b assume "a \<in> {..<m}" "b \<in> {..<m}" "c' a = c' b"
    then show "a = b"
      using assms(3) [of a] assms(3) [of b] eq [of a b] eq [of a m] eq [of m b] by (simp split: if_splits)
  qed
qed

lemma folder_list_set: "set (folder_list dir) = folder_content dir ` {..<folder_content_count dir}"
  "distinct (folder_list dir) \<longleftrightarrow> inj_on (folder_content dir) {..<folder_content_count dir}"
  "length (folder_list dir) = folder_content_count dir"
  by (auto simp: folder_list_def distinct_map atLeast0LessThan)

lemma folder_remove_content_spec:
  assumes "folder_ok dir" "t \<noteq> 0"
  shows "case folder_remove_content dir t of
      None \<Rightarrow> t \<notin> set (folder_list dir)
    | Some dir' \<Rightarrow> t \<in> set (folder_list dir) \<and> folder_ok dir' \<and> set (folder_list dir') = set (folder_list dir) - {t} \<and>
        length (folder_list dir') + 1 = length (folder_list dir) \<and> (\<forall>x. unat x < 268 \<longrightarrow> dir' x = dir x)"
proof (cases "folder_remove_content dir t")
  case None
  then have "filter (\<lambda>i. folder_content dir i = t) [0..<DZFS_MAX_DIR_CONTENTS] = []"
    by (auto simp: folder_remove_content_def content_index_def Let_def split: option.splits list.splits if_splits)
  then have "\<forall>i<957. folder_content dir i \<noteq> t" by (auto simp: filter_empty_conv DZFS_MAX_DIR_CONTENTS_def)
  then have "t \<notin> folder_content dir ` {..<folder_content_count dir}"
    using count_props(2) [of dir] by (metis image_iff lessThan_iff order_less_le_trans)
  then show ?thesis using None by (simp add: folder_list_set)
next
  case (Some dir')
  obtain i m where im: "i \<le> m" "m < 957" "folder_content_count dir = Suc m" "folder_content dir i = t"
    and c: "\<And>j. j < 957 \<Longrightarrow> folder_content dir' j = (if j = m then 0 else if j = i then folder_content dir m else folder_content dir j)"
    and h: "\<And>x. unat x < 268 \<Longrightarrow> dir' x = dir x"
    using remove_shape [OF Some assms] by blast
  have nz: "\<forall>j\<le>m. folder_content dir j \<noteq> 0" using count_props(1) [of dir] im(3) by auto
  have cnt: "folder_content_count dir' = m"
    using im nz c by (intro count_eqI) auto
  have inj: "inj_on (folder_content dir) {..m}"
    using assms(1) im(3) by (simp add: folder_ok_def folder_list_set lessThan_Suc_atMost)
  have c': "folder_content dir' j = (if j = i then folder_content dir m else folder_content dir j)" if "j < m" for j
    using c [of j] that im(2) by simp
  note ri = removed_image [where c = "folder_content dir" and c' = "folder_content dir'", OF inj im(1) c']
  have "folder_ok dir'"
  proof -
    have "folder_content dir' j = 0" if "m \<le> j" "j < 957" for j
      using that c [OF that(2)] im(1,3) assms(1) by (cases "j = m") (auto simp: folder_ok_def)
    then show ?thesis using ri(2) by (simp add: folder_ok_def folder_list_set(2) cnt)
  qed
  moreover have "set (folder_list dir') = set (folder_list dir) - {t}"
    using ri(1) by (simp add: folder_list_set(1) cnt im(3,4) lessThan_Suc_atMost)
  moreover have "t \<in> set (folder_list dir)" using im by (auto simp: folder_list_set(1))
  ultimately show ?thesis using Some h cnt im(3) by (simp add: folder_list_set(3))
qed

text \<open>
  C22: removing an entry from a folder whose entries are distinct and stand at the front: the function
  reports failure exactly when the entry is not there, otherwise the folder has the other entries, one
  fewer, again distinct and at the front, and the header and the parent are unchanged.
\<close>

theorem folder_remove_content_correct:
  assumes "folder_ok dir" "t \<noteq> 0"
  shows "case folder_remove_content dir t of
      None \<Rightarrow> t \<notin> set (folder_list dir)
    | Some dir' \<Rightarrow> t \<in> set (folder_list dir) \<and> folder_ok dir' \<and> set (folder_list dir') = set (folder_list dir) - {t} \<and>
        length (folder_list dir') + 1 = length (folder_list dir) \<and> (\<forall>x. unat x < 268 \<longrightarrow> dir' x = dir x)"
  using assms by (rule folder_remove_content_spec)


lemma folder_block_eq:
  assumes "length name \<le> 254"
  shows "folder_block name date parent = new_dnode date name DZFS_O_DIR parent"
proof
  fix x
  have r: "in_range 264 4 x \<longleftrightarrow> 264 \<le> unat x \<and> unat x < 268" "in_range 256 8 x \<longleftrightarrow> 256 \<le> unat x \<and> unat x < 264"
    using in_block_rangeI [of 4 264 x] in_block_rangeI [of 8 256 x] by simp_all
  have x0: "x = 0 \<longleftrightarrow> unat x = 0" by (simp add: unat_eq_0)
  have d: "DZFS_O_DIR AND DZFS_O_DIR \<noteq> 0" by (simp add: DZFS_O_DIR_def)
  show "folder_block name date parent x = new_dnode date name DZFS_O_DIR parent x"
    using assms unfolding folder_block_def new_dnode_def Let_def if_P [OF d]
    by (auto simp: store32_def store64_def store_le_def put_bytes_def r x0 nth_append zero_block_def)
qed

lemma sample_root: "folder_content (sample_disk 3) 0 = 4" "1 \<le> i \<Longrightarrow> i < 957 \<Longrightarrow> folder_content (sample_disk 3) i = 0"
  "blk_type (sample_disk 3) = DZFS_ENTITY_FOLDER"
proof -
  have n: "length [47 :: u8] \<le> 254" by simp
  have fb: "sample_disk 3 = store32 (new_dnode 7 [47] DZFS_O_DIR 3) (content_slot (int 0)) 4"
    by (simp add: folder_block_eq content_slot_def)
  have z: "folder_content (new_dnode 7 [47] DZFS_O_DIR 3) i = 0" if "i < 957" for i
    using that new_dnode_fields(2) [OF n, of "268 + 4 * i"]
    by (simp add: folder_content_def slot_nats(3) del: of_nat_add of_nat_mult of_nat_numeral)
  show "folder_content (sample_disk 3) 0 = 4" "1 \<le> i \<Longrightarrow> i < 957 \<Longrightarrow> folder_content (sample_disk 3) i = 0"
    unfolding fb using z [of i] folder_content_store [of 0 0 _ 4] folder_content_store [of 0 i _ 4] by simp_all
  show "blk_type (sample_disk 3) = DZFS_ENTITY_FOLDER"
    using folder_header_store [of 0 0] new_dnode_fields(1) [OF n] unfolding fb
    by (simp add: DZFS_O_DIR_def)
qed

lemma sample_root_ok: "folder_ok (sample_disk 3)" "folder_list (sample_disk 3) = [4]"
proof -
  have cnt: "folder_content_count (sample_disk 3) = 1"
    using sample_root by (intro count_eqI) auto
  then show l: "folder_list (sample_disk 3) = [4]" using sample_root(1) by (simp add: folder_list_def)
  show "folder_ok (sample_disk 3)" using sample_root(2) by (simp add: folder_ok_def l cnt del: sample_simps)
qed

theorem folder_remove_content_correct_witness:
  "\<exists>dir'. folder_remove_content (sample_disk 3) 4 = Some dir' \<and> folder_list dir' = []"
  using folder_remove_content_correct [OF sample_root_ok(1), of 4] sample_root_ok(2)
  by (auto split: option.splits simp del: sample_simps)

section \<open>A new file system\<close>

lemmas error_codes = DZFS_OK_def DZFS_ERR_ARGUMENT_def DZFS_ERR_INIT_INVALID_FS_def DZFS_ERR_LIMIT_def
  DZFS_ERR_NOT_FOUND_def DZFS_ERR_FULL_def DZFS_ERR_NOT_EMPTY_def DZFS_ERR_TOO_SMALL_def DZFS_ERR_IO_def

lemma bm_bit_clear_any:
  assumes "i < 32768"
  shows "bm_bit (bitmap_clear b idx) i \<longleftrightarrow> bm_bit b i \<and> i \<noteq> unat idx"
proof (cases "unat idx < 32768")
  case True
  then show ?thesis using assms by (rule bm_bit_clear)
next
  case False
  then have "4096 \<le> unat idx div 8" by linarith
  then have "bitmap_clear b idx = b" by (simp add: bitmap_clear_def DZFS_BLOCK_SIZE_def)
  then show ?thesis using False assms by auto
qed

lemma bm_bit_fold_clear:
  assumes "j < 32768" "\<forall>i \<in> set xs. i < 4294967296"
  shows "bm_bit (fold (\<lambda>i b. bitmap_clear b (of_nat i)) xs b) j \<longleftrightarrow> bm_bit b j \<and> j \<notin> set xs"
  using assms(2)
proof (induction xs arbitrary: b)
  case (Cons i xs)
  have "unat (of_nat i :: u32) = i" using Cons.prems by (simp add: unat_of_nat)
  then show ?case
    using Cons.IH [of "bitmap_clear b (of_nat i)"] Cons.prems assms(1) by (auto simp: bm_bit_clear_any)
qed simp

lemma full_bitmap_bit: "i < 32768 \<Longrightarrow> bm_bit full_bitmap i"
proof -
  assume "i < 32768"
  then have "unat (of_nat (i div 8) :: u64) < 4096" by (simp add: unat_of_nat)
  moreover have "bit (255 :: u8) (i mod 8)"
  proof -
    have "bit (mask 8 :: u8) (i mod 8)" by (simp add: bit_mask_iff)
    then show ?thesis by (simp add: mask_eq_exp_minus_1)
  qed
  ultimately show ?thesis by (simp add: bm_bit_def full_bitmap_def DZFS_BLOCK_SIZE_def)
qed

lemma write_blocks_reads:
  assumes "keeps_writes dev" "write_blocks dev b xs d = (True, d')"
  shows "read_block dev j d' = (if j \<in> set xs then Some b else read_block dev j d)"
  using assms(2)
proof (induction xs arbitrary: d)
  case (Cons i xs)
  then obtain d1 where "write_block dev i b d = (True, d1)" "write_blocks dev b xs d1 = (True, d')"
    by (auto split: prod.splits if_splits)
  then show ?case using Cons.IH [of d1] keeps_writesD [OF assms(1)] by auto
qed simp

lemma dzfs_new_writes:
  assumes "dzfs_new dev fs d = (DZFS_OK, fs', d')"
  defines "n \<equiv> total_blocks dev" and "fbb \<equiv> free_bitmap_blocks fs'"
  shows "4 < n \<and> fbb = (n + DZFS_BITSET_COVERED_BLOCKS - 1) div DZFS_BITSET_COVERED_BLOCKS \<and> 3 + fbb < n \<and>
     fs' = \<lparr>sb_version = DZFS_VERSION, sb_blocks = n, free_bitmap_blocks = fbb, root_dnode = 1 + 1 + fbb\<rparr> \<and>
     (\<exists>d1 d2 d3 d4. write_block dev SUPERBLOCK_DNODE (superblock_block n) d = (True, d1) \<and>
       write_blocks dev full_bitmap (map (\<lambda>i. 1 + 1 + of_nat i) [1..<unat (fbb - 1)]) d1 = (True, d2) \<and>
       write_block dev 2 (first_bitmap fbb) d2 = (True, d3) \<and>
       write_block dev (2 + fbb - 1) (last_bitmap n fbb) d3 = (True, d4) \<and>
       write_block dev (1 + 1 + fbb) (folder_block [47] (current_date dev) (1 + 1 + fbb)) d4 = (True, d'))"
  using assms(1) unfolding n_def fbb_def
  by (auto simp: dzfs_new_def error_codes Let_def split: prod.splits if_splits)


lemma bitmap_count:
  assumes "unat n \<le> 1073643520" "fbb = (n + DZFS_BITSET_COVERED_BLOCKS - 1) div DZFS_BITSET_COVERED_BLOCKS" "0 < unat n"
  shows "unat fbb = (unat n + 32767) div 32768"
proof -
  have "unat (n + 32767) = unat n + 32767" using assms(1) by (simp add: unat_word_ariths)
  moreover have "n + DZFS_BITSET_COVERED_BLOCKS - 1 = n + 32767" by (simp add: DZFS_BITSET_COVERED_BLOCKS_def)
  ultimately have "unat fbb = (unat n + 32767) div unat (32768 :: u32)"
    unfolding assms(2) DZFS_BITSET_COVERED_BLOCKS_def by (simp only: unat_div)
  then show ?thesis by simp
qed

lemma superblock_loads:
  "load32 (superblock_block n) 0 = DZFS_MAGIC" "load32 (superblock_block n) 4 = DZFS_VERSION" "load32 (superblock_block n) 8 = n"
  using load32_store32_other [of 0 4] load32_store32_other [of 0 8] load32_store32_other [of 4 8]
  by (simp_all add: superblock_block_def)

text \<open>The blocks of a new file system, for disks of at most 32765 bitmap blocks.\<close>

lemma new_bitmaps:
  assumes "unat n \<le> 1073643520" "4 < unat n" "unat fbb = (unat n + 32767) div 32768" "i < 32768"
  shows "bm_bit (first_bitmap fbb) i \<longleftrightarrow> unat fbb + 3 \<le> i"
    "bm_bit (last_bitmap n fbb) i \<longleftrightarrow> (if fbb = 1 then 4 \<le> i \<and> i < unat n else True)"
proof -
  have m: "1 \<le> unat fbb" "unat fbb \<le> 32765" "unat n \<le> 32768 * unat fbb" using assms(1-3) by linarith+
  have f3: "unat (fbb + 3) = unat fbb + 3" using m by (simp add: unat_word_ariths)
  show first: "bm_bit (first_bitmap fbb) i \<longleftrightarrow> unat fbb + 3 \<le> i"
    using assms(4) m by (simp add: first_bitmap_def bm_bit_fold_clear full_bitmap_bit f3) linarith
  have u: "unat (DZFS_BITSET_COVERED_BLOCKS * fbb - 1) = 32768 * unat fbb - 1"
  proof -
    have "unat (DZFS_BITSET_COVERED_BLOCKS * fbb) = 32768 * unat fbb"
      using m by (simp add: DZFS_BITSET_COVERED_BLOCKS_def unat_word_ariths)
    moreover have "DZFS_BITSET_COVERED_BLOCKS * fbb \<noteq> 0"
      using calculation m by auto
    ultimately show ?thesis by (simp add: unat_minus_one)
  qed
  have bits: "bm_bit (last_bitmap n fbb) i \<longleftrightarrow> bm_bit (if fbb \<noteq> 1 then full_bitmap else first_bitmap fbb) i \<and>
      \<not> (unat n \<le> i \<and> i < 32768 * unat fbb)"
    unfolding last_bitmap_def u using assms(4) m by (subst bm_bit_fold_clear) auto
  have one: "fbb = 1 \<longleftrightarrow> unat fbb = 1" by (simp add: word_unat_eq_iff)
  show "bm_bit (last_bitmap n fbb) i \<longleftrightarrow> (if fbb = 1 then 4 \<le> i \<and> i < unat n else True)"
  proof (cases "fbb = 1")
    case True
    then show ?thesis using bits first assms(4) by auto
  next
    case False
    then have "32768 < unat n" using one m(1) assms(3) by linarith
    then show ?thesis using False bits assms(4) full_bitmap_bit by auto
  qed
qed

lemma new_folder_fields:
  assumes "length name \<le> 254"
  shows "i < 957 \<Longrightarrow> folder_content (new_dnode date name flags parent) i = 0" "folder_list (new_dnode date name flags parent) = []"
proof -
  have z: "folder_content (new_dnode date name flags parent) i = 0" if "i < 957" for i
    using that new_dnode_fields(2) [OF assms, of "268 + 4 * i"]
    by (simp add: folder_content_def slot_nats(3) del: of_nat_add of_nat_mult of_nat_numeral)
  then show "i < 957 \<Longrightarrow> folder_content (new_dnode date name flags parent) i = 0" .
  have "folder_content_count (new_dnode date name flags parent) = 0" using z by (intro count_eqI) auto
  then show "folder_list (new_dnode date name flags parent) = []" by (simp add: folder_list_def)
qed

text \<open>
  C23: a file system made by \<^verbatim>\<open>dzfs_new\<close> is opened by \<^verbatim>\<open>dzfs_init\<close> with the same parameters, its root
  folder is empty, and the free blocks are those after the root folder. With one bitmap block the
  free blocks end at the end of the disk; with more, the blocks between the end of the disk and the end of
  the last bitmap are marked free as well.
\<close>

theorem dzfs_new_init:
  assumes "keeps_writes dev" "dzfs_new dev fs d = (DZFS_OK, fs', d')" "unat (total_blocks dev) \<le> 1073643520"
  shows "dzfs_init dev fs0 d' = (DZFS_OK, fs') \<and>
    (\<exists>b. read_block dev (root_dnode fs') d' = Some b \<and> blk_type b = DZFS_ENTITY_FOLDER \<and>
        folder_parent b = root_dnode fs' \<and> folder_list b = []) \<and>
    (\<forall>k. on_disk fs' k \<longrightarrow>
       (is_free dev d' k \<longleftrightarrow> root_dnode fs' < k \<and> (free_bitmap_blocks fs' = 1 \<longrightarrow> k < total_blocks dev)))"
proof -
  define n where "n = total_blocks dev"
  define fbb where "fbb = free_bitmap_blocks fs'"
  obtain d1 d2 d3 d4 where nw: "4 < n" "fbb = (n + DZFS_BITSET_COVERED_BLOCKS - 1) div DZFS_BITSET_COVERED_BLOCKS"
    and fs': "fs' = \<lparr>sb_version = DZFS_VERSION, sb_blocks = n, free_bitmap_blocks = fbb, root_dnode = 1 + 1 + fbb\<rparr>"
    and w: "write_block dev SUPERBLOCK_DNODE (superblock_block n) d = (True, d1)"
      "write_blocks dev full_bitmap (map (\<lambda>i. 1 + 1 + of_nat i) [1..<unat (fbb - 1)]) d1 = (True, d2)"
      "write_block dev 2 (first_bitmap fbb) d2 = (True, d3)"
      "write_block dev (2 + fbb - 1) (last_bitmap n fbb) d3 = (True, d4)"
      "write_block dev (1 + 1 + fbb) (folder_block [47] (current_date dev) (1 + 1 + fbb)) d4 = (True, d')"
    using dzfs_new_writes [OF assms(2)] unfolding n_def [symmetric] fbb_def [symmetric] by blast
  have n: "4 < unat n" "unat n \<le> 1073643520" using nw(1) assms(3) by (simp_all add: word_less_nat_alt n_def)
  have ufbb: "unat fbb = (unat n + 32767) div 32768" using bitmap_count [OF n(2) nw(2)] n(1) by simp
  have m: "1 \<le> unat fbb" "unat fbb \<le> 32765" using n ufbb by linarith+
  define r l where "r = 1 + 1 + fbb" and "l = 2 + fbb - 1"
  note w = w [folded r_def l_def]
  have u: "unat r = unat fbb + 2" "unat l = unat fbb + 1" "unat (fbb - 1) = unat fbb - 1"
  proof -
    have "l = fbb + 1" "r = fbb + 2" by (simp_all add: l_def r_def)
    then show "unat r = unat fbb + 2" "unat l = unat fbb + 1" using m by (simp_all add: unat_word_ariths)
    have "fbb \<noteq> 0" using m by auto
    then show "unat (fbb - 1) = unat fbb - 1" by (rule unat_minus_one)
  qed
  have mid: "j \<in> set (map (\<lambda>i. 1 + 1 + of_nat i) [1..<unat (fbb - 1)]) \<longleftrightarrow> 3 \<le> unat j \<and> unat j \<le> unat fbb" for j :: u32
  proof -
    have v: "unat (1 + 1 + of_nat i :: u32) = i + 2" if "i < 32768" for i
      using that by (simp add: unat_word_ariths unat_of_nat)
    have "j \<in> set (map (\<lambda>i. 1 + 1 + of_nat i) [1..<unat (fbb - 1)]) \<longleftrightarrow>
        (\<exists>i. 1 \<le> i \<and> i < unat fbb - 1 \<and> unat j = i + 2)"
      using m v by (auto simp: u word_unat_eq_iff image_iff Bex_def)
    also have "\<dots> \<longleftrightarrow> 3 \<le> unat j \<and> unat j \<le> unat fbb"
      by (auto intro!: exI [of _ "unat j - 2"])
    finally show ?thesis .
  qed
  have rd: "read_block dev j d' =
     (if unat j = unat fbb + 2 then Some (folder_block [47] (current_date dev) r)
      else if unat j = unat fbb + 1 then Some (last_bitmap n fbb)
      else if unat j = 2 then Some (first_bitmap fbb)
      else if 3 \<le> unat j \<and> unat j \<le> unat fbb then Some full_bitmap
      else if unat j = 1 then Some (superblock_block n) else read_block dev j d)" for j
    unfolding keeps_writesD [OF assms(1) w(5)] keeps_writesD [OF assms(1) w(4)] keeps_writesD [OF assms(1) w(3)]
      write_blocks_reads [OF assms(1) w(2)] keeps_writesD [OF assms(1) w(1)] mid
    by (simp add: word_unat_eq_iff u SUPERBLOCK_DNODE_def)
  have 1: "dzfs_init dev fs0 d' = (DZFS_OK, fs')"
    using m by (simp add: dzfs_init_def rd SUPERBLOCK_DNODE_def superblock_loads fs' Let_def flip: nw(2))
  have rt: "root_dnode fs' = r" by (simp add: fs' r_def)
  then have 2: "read_block dev (root_dnode fs') d' = Some (folder_block [47] (current_date dev) r)" by (simp add: rd u)
  have 3: "is_free dev d' k \<longleftrightarrow> root_dnode fs' < k \<and> (free_bitmap_blocks fs' = 1 \<longrightarrow> k < n)" if k: "on_disk fs' k" for k
  proof -
    define q where "q = unat k div 32768"
    have q: "q < unat fbb" using k by (simp add: q_def on_disk_def fs' less_mult_imp_div_less mult.commute)
    have kq: "unat k = 32768 * q + unat k mod 32768" by (simp add: q_def)
    note nb = new_bitmaps [OF n(2,1) ufbb, of "unat k mod 32768"]
    have one: "fbb = 1 \<longleftrightarrow> unat fbb = 1" by (simp add: word_unat_eq_iff)
    have free: "is_free dev d' k \<longleftrightarrow> (if q + 1 = unat fbb then bm_bit (last_bitmap n fbb) (unat k mod 32768)
        else if q = 0 then bm_bit (first_bitmap fbb) (unat k mod 32768) else True)"
      using q full_bitmap_bit [of "unat k mod 32768"] by (auto simp: is_free_def rd unat_bitmap_of q_def [symmetric])
    have "root_dnode fs' < k \<longleftrightarrow> unat fbb + 3 \<le> unat k" by (simp add: rt word_less_nat_alt u) linarith
    moreover have "k < n \<longleftrightarrow> unat k < unat n" by (simp add: word_less_nat_alt)
    moreover have "0 < q \<Longrightarrow> unat fbb + 3 \<le> unat k" using kq m(2) by linarith
    ultimately show ?thesis
      using free nb q kq m by (cases "q = 0"; cases "unat fbb = 1") (simp_all add: fs' one)
  qed
  have 4: "blk_type (folder_block [47] (current_date dev) r) = DZFS_ENTITY_FOLDER \<and>
      folder_parent (folder_block [47] (current_date dev) r) = r \<and> folder_list (folder_block [47] (current_date dev) r) = []"
    using new_folder_fields(2) [of "[47]" "current_date dev" DZFS_O_DIR r] by (simp add: folder_block_eq new_dnode_fields DZFS_O_DIR_def)
  show ?thesis using 1 2 3 4 rt unfolding n_def by blast
qed


lemma sample_new:
  "\<exists>d'. dzfs_new (ram_disk 40000) fs (\<lambda>_. zero_block) =
     (DZFS_OK, \<lparr>sb_version = DZFS_VERSION, sb_blocks = 40000, free_bitmap_blocks = 2, root_dnode = 4\<rparr>, d')"
  by (simp add: dzfs_new_def DZFS_BITSET_COVERED_BLOCKS_def SUPERBLOCK_DNODE_def Let_def)

theorem dzfs_new_init_witness:
  "\<exists>fs' d'. dzfs_new (ram_disk 40000) sample_fs (\<lambda>_. zero_block) = (DZFS_OK, fs', d') \<and>
     dzfs_init (ram_disk 40000) sample_fs d' = (DZFS_OK, fs') \<and> is_free (ram_disk 40000) d' 50000"
proof -
  obtain fs' d' where new: "dzfs_new (ram_disk 40000) sample_fs (\<lambda>_. zero_block) = (DZFS_OK, fs', d')"
    and fs': "free_bitmap_blocks fs' = 2" "root_dnode fs' = 4"
    using sample_new [of sample_fs] by auto
  have "on_disk fs' 50000" by (simp add: on_disk_def fs')
  then show ?thesis
    using dzfs_new_init [OF keeps_writes_ram new, of sample_fs] new by (auto simp: fs')
qed

section \<open>Opening what was created\<close>

definition plain_name :: "u8 list \<Rightarrow> bool" where
  "plain_name name \<longleftrightarrow> name \<noteq> [] \<and> 47 \<notin> set name \<and> 0 \<notin> set name \<and> length name \<le> 254 \<and>
     name \<noteq> [46] \<and> name \<noteq> [46, 46]"

lemma no_slash_prefix: "47 \<notin> set path \<Longrightarrow> 47 \<in> set pre \<Longrightarrow> \<not> string_prefix path pre"
  by (metis string_prefix_def in_set_takeD)

lemma open_name:
  assumes "plain_name name" "relative_to \<noteq> 0" "read_block dev relative_to d = Some dir"
  shows "dzfs_open_relative dev fs name relative_to dn pn flags d =
    (case lookup_loop dev dir name [0..<DZFS_MAX_DIR_CONTENTS] d of
       None \<Rightarrow> (DZFS_ERR_IO, dn, relative_to, d)
     | Some r \<Rightarrow>
         if r \<noteq> 0 then (DZFS_OK, r, relative_to, d)
         else if flags AND DZFS_O_CREATE \<noteq> 0 then create_entry dev fs flags name relative_to dir dn relative_to d
         else (DZFS_ERR_NOT_FOUND, dn, relative_to, d))"
proof -
  have n: "name \<noteq> []" "47 \<notin> set name" "name \<noteq> [46]" "name \<noteq> [46, 46]" using assms(1) by (simp_all add: plain_name_def)
  have "hd name \<noteq> 47" using n by (metis list.set_sel(1))
  then have 1: "dzfs_open_relative dev fs name relative_to dn pn flags d = open_from dev fs name relative_to dn pn flags d"
    by (subst dzfs_open_relative.simps) simp
  have "dots_loop dev d name relative_to = Some (name, relative_to)"
    using n by (subst dots_loop.simps) (simp add: no_slash_prefix)
  then have 2: "open_from dev fs name relative_to dn pn flags d = traverse dev fs flags name relative_to dir dn relative_to d"
    using n assms(2,3) by (simp add: open_from_def)
  have len: "path_next_part_len name = length name"
  proof -
    have "takeWhile (\<lambda>c. c \<noteq> 47) name = name" using n(2) by (auto simp: takeWhile_eq_all_conv)
    then show ?thesis by (simp only: path_next_part_len_def)
  qed
  have "path_last_part name" by (simp add: path_last_part_def len Let_def)
  then show ?thesis
    unfolding 1 2 traverse.simps [of dev fs flags name] Let_def len take_all [OF order_refl]
    by (cases "lookup_loop dev dir name [0..<DZFS_MAX_DIR_CONTENTS] d") simp_all
qed

lemma lookup_skip:
  "(\<And>i. i \<in> set xs \<Longrightarrow> folder_content dir i \<noteq> 0 \<and> (\<exists>b. read_block dev (folder_content dir i) d = Some b \<and> \<not> name_matches b name)) \<Longrightarrow>
     lookup_loop dev dir name (xs @ ys) d = lookup_loop dev dir name ys d"
proof (induction xs)
  case (Cons i xs)
  then obtain b where "folder_content dir i \<noteq> 0" "read_block dev (folder_content dir i) d = Some b" "\<not> name_matches b name"
    by (metis list.set_intros(1))
  then show ?case using Cons by simp
qed simp

lemma lookup_zero:
  assumes "lookup_loop dev dir name (xs @ ys) d = Some 0" "\<And>i. i \<in> set xs \<Longrightarrow> folder_content dir i \<noteq> 0" "i \<in> set xs"
  shows "\<exists>b. read_block dev (folder_content dir i) d = Some b \<and> \<not> name_matches b name"
  using assms
proof (induction xs)
  case (Cons j xs)
  then have nz: "folder_content dir j \<noteq> 0" by simp
  then obtain b where "read_block dev (folder_content dir j) d = Some b" "\<not> name_matches b name"
    "lookup_loop dev dir name (xs @ ys) d = Some 0"
    using Cons.prems(1) by (auto split: option.splits if_splits)
  then show ?case using Cons by auto
qed simp

lemma upt_957: "c < 957 \<Longrightarrow> [0..<957] = [0..<c] @ c # [Suc c..<957]"
  by (metis upt_conv_Cons upt_add_eq_append le_add_diff_inverse less_imp_le_nat zero_le)

text \<open>
  C24: opening a name with the create flag and opening it again gives the same entry: when
  the first call succeeds in a folder whose entries are in use and not the folder itself, the second call, with
  any flags, succeeds with the same dnode and the same parent and changes nothing.
\<close>

theorem dzfs_create_open:
  assumes "keeps_writes dev" "unat (free_bitmap_blocks fs) \<le> 131072" "plain_name name"
    "relative_to \<noteq> 0" "read_block dev relative_to d = Some dir" "taken dev fs d relative_to" "\<not> is_bitmap fs relative_to"
    "\<forall>t \<in> set (folder_list dir). taken dev fs d t \<and> \<not> is_bitmap fs t \<and> t \<noteq> relative_to"
    "dzfs_open_relative dev fs name relative_to dn pn flags d = (DZFS_OK, a, p, d')"
  shows "p = relative_to \<and> a \<noteq> 0 \<and> dzfs_open_relative dev fs name relative_to dn' pn' flags' d' = (DZFS_OK, a, p, d')"
proof -
  note open0 = open_name [OF assms(3-5), of fs dn pn flags]
  obtain r where r: "lookup_loop dev dir name [0..<DZFS_MAX_DIR_CONTENTS] d = Some r"
    using assms(9) open0 by (auto simp: error_codes split: option.splits)
  show ?thesis
  proof (cases "r = 0")
    case False
    then show ?thesis
      using assms(9) open0 r open_name [OF assms(3-5), of fs dn' pn' flags'] by simp
  next
    case True
    define c where "c = folder_content_count dir"
    have cr: "create_entry dev fs flags name relative_to dir dn relative_to d = (DZFS_OK, a, p, d')"
      using assms(9) open0 r True by (auto simp: error_codes split: if_splits)
    obtain d1 d2 where al: "block_alloc dev fs d = (a, d1)" "a \<noteq> 0" "c < 957" "p = relative_to"
      and w: "write_block dev relative_to (store32 dir (content_slot (int c)) a) d1 = (True, d2)"
        "write_block dev a (new_dnode (current_date dev) name flags relative_to) d2 = (True, d')"
      using cr count_props(2) [of dir]
      by (auto simp: create_entry_def error_codes Let_def DZFS_MAX_DIR_CONTENTS_def c_def split: prod.splits if_splits)
    note sp = block_alloc_spec [OF assms(1) al(1,2) assms(2)]
    have ne: "taken dev fs d k \<Longrightarrow> k \<noteq> a" for k using sp(2) by (auto simp: taken_def)
    have rd: "read_block dev j d' = (if j = a then Some (new_dnode (current_date dev) name flags relative_to)
        else if j = relative_to then Some (store32 dir (content_slot (int c)) a) else read_block dev j d1)" for j
      using keeps_writesD [OF assms(1) w(1)] keeps_writesD [OF assms(1) w(2)] by simp
    define dir' where "dir' = store32 dir (content_slot (int c)) a"
    have rdir: "read_block dev relative_to d' = Some dir'" using ne [OF assms(6)] by (simp add: rd dir'_def)
    have cont: "folder_content dir' i = (if i = c then a else folder_content dir i)" if "i < 957" for i
      using that al(3) by (simp add: dir'_def folder_content_store)
    have skip: "folder_content dir' i \<noteq> 0 \<and> (\<exists>b. read_block dev (folder_content dir' i) d' = Some b \<and> \<not> name_matches b name)"
      if i: "i \<in> set [0..<c]" for i
    proof -
      have nz: "\<And>i. i \<in> set [0..<c] \<Longrightarrow> folder_content dir i \<noteq> 0" using count_props(1) [of dir] by (simp add: c_def)
      have "lookup_loop dev dir name ([0..<c] @ c # [Suc c..<957]) d = Some 0"
        using r True unfolding DZFS_MAX_DIR_CONTENTS_def upt_957 [OF al(3)] by simp
      from lookup_zero [OF this nz i] obtain b
        where b: "read_block dev (folder_content dir i) d = Some b" "\<not> name_matches b name" by blast
      have t: "folder_content dir i \<in> set (folder_list dir)" using i by (simp add: folder_list_def c_def)
      then have "read_block dev (folder_content dir i) d' = Some b"
        using assms(8) ne sp(4) b(1) by (simp add: rd)
      then show ?thesis using b(2) nz [OF i] cont [of i] i al(3) by simp
    qed
    have "name_matches (new_dnode (current_date dev) name flags relative_to) name"
      using assms(3) by (intro new_dnode_fields(4)) (simp add: plain_name_def)
    then have "lookup_loop dev dir' name (c # [Suc c..<957]) d' = Some a"
      using cont [OF al(3)] al(2) by (simp add: rd)
    moreover have "lookup_loop dev dir' name ([0..<c] @ c # [Suc c..<957]) d' = lookup_loop dev dir' name (c # [Suc c..<957]) d'"
      by (rule lookup_skip) (rule skip)
    ultimately have "lookup_loop dev dir' name [0..<DZFS_MAX_DIR_CONTENTS] d' = Some a"
      unfolding DZFS_MAX_DIR_CONTENTS_def upt_957 [OF al(3)] by (simp only:)
    then show ?thesis
      using open_name [OF assms(3,4) rdir, of fs dn' pn' flags'] al(2,4) by simp
  qed
qed


lemma sample_create:
  "\<exists>d'. dzfs_open_relative (ram_disk 8) sample_fs [98] 3 0 0 1 sample_disk = (DZFS_OK, 5, 3, d')"
proof -
  have "name_matches (sample_disk 4) [97]" using new_dnode_fields(4) [of "[97]" 7 0 3] by simp
  then have nm: "\<not> name_matches (sample_disk 4) [98]" by (simp add: name_matches_def del: sample_simps)
  have "(1 :: nat) < 957" by simp
  from upt_957 [OF this] obtain ys where "[0..<DZFS_MAX_DIR_CONTENTS] = [0..<1] @ 1 # ys"
    unfolding DZFS_MAX_DIR_CONTENTS_def by blast
  then have "lookup_loop (ram_disk 8) (sample_disk 3) [98] [0..<DZFS_MAX_DIR_CONTENTS] sample_disk = Some 0"
    using nm sample_root(1) sample_root(2) [of 1] by (simp del: sample_simps)
  moreover have "length (folder_list (sample_disk 3)) = 1" using sample_root_ok(2) by simp
  then have "folder_content_count (sample_disk 3) = 1" by (simp only: folder_list_set(3))
  then have "\<exists>d'. create_entry (ram_disk 8) sample_fs 1 [98] 3 (sample_disk 3) 0 3 sample_disk = (DZFS_OK, 5, 3, d')"
    by (simp add: create_entry_def DZFS_MAX_DIR_CONTENTS_def sample_alloc del: sample_simps)
  ultimately show ?thesis
    by (subst open_name [where dir = "sample_disk 3"]) (simp_all add: plain_name_def DZFS_O_CREATE_def del: sample_simps)
qed

theorem dzfs_create_open_witness:
  "\<exists>d'. dzfs_open_relative (ram_disk 8) sample_fs [98] 3 0 0 1 sample_disk = (DZFS_OK, 5, 3, d') \<and>
     dzfs_open_relative (ram_disk 8) sample_fs [98] 3 0 0 0 d' = (DZFS_OK, 5, 3, d')"
proof -
  obtain d' where c: "dzfs_open_relative (ram_disk 8) sample_fs [98] 3 0 0 1 sample_disk = (DZFS_OK, 5, 3, d')"
    using sample_create by blast
  have t: "taken (ram_disk 8) sample_fs sample_disk 3" "taken (ram_disk 8) sample_fs sample_disk 4"
    by (simp_all add: taken_def on_disk_def sample_free)
  have "dzfs_open_relative (ram_disk 8) sample_fs [98] 3 0 0 0 d' = (DZFS_OK, 5, 3, d')"
    using dzfs_create_open [OF keeps_writes_ram _ _ _ _ t(1) _ _ c, of "sample_disk 3" 0 0 0] t(2)
    by (simp add: plain_name_def sample_bitmap sample_root_ok(2) sample_simps(4) del: sample_simps(1-3))
  with c show ?thesis by blast
qed

section \<open>Deletion\<close>

definition bitmaps_work :: "'d device \<Rightarrow> dzFS \<Rightarrow> bool" where
  "bitmaps_work dev fs \<longleftrightarrow> (\<forall>k d. is_bitmap fs k \<longrightarrow> read_block dev k d \<noteq> None) \<and>
     (\<forall>k b d. is_bitmap fs k \<longrightarrow> fst (write_block dev k b d))"

lemma block_free_works:
  assumes "keeps_writes dev" "bitmaps_work dev fs" "on_disk fs a"
  shows "is_free dev (block_free dev a d) k \<longleftrightarrow> is_free dev d k \<or> k = a"
    "\<not> is_bitmap fs j \<Longrightarrow> read_block dev j (block_free dev a d) = read_block dev j d"
proof -
  note bm = bitmap_of_is_bitmap [OF assms(3)]
  obtain b where b: "read_block dev (bitmap_of a) d = Some b"
    using assms(2) bm unfolding bitmaps_work_def by fastforce
  have "fst (write_block dev (bitmap_of a) (bitmap_set b (a mod DZFS_BITSET_COVERED_BLOCKS)) d)"
    using assms(2) bm unfolding bitmaps_work_def by blast
  note fr = block_free_spec [OF assms(1) b this]
  show "is_free dev (block_free dev a d) k \<longleftrightarrow> is_free dev d k \<or> k = a" by (rule fr(1))
  show "\<not> is_bitmap fs j \<Longrightarrow> read_block dev j (block_free dev a d) = read_block dev j d"
    using fr(2) [of j] bm by auto
qed

lemma free_all_works:
  assumes "keeps_writes dev" "bitmaps_work dev fs" "\<forall>a \<in> set bs. on_disk fs a"
  shows "(is_free dev (free_all dev bs d) k \<longleftrightarrow> is_free dev d k \<or> k \<in> set bs) \<and>
    (\<forall>j. \<not> is_bitmap fs j \<longrightarrow> read_block dev j (free_all dev bs d) = read_block dev j d)"
  using assms(3)
proof (induction bs arbitrary: d)
  case Nil
  then show ?case by (simp add: free_all_def)
next
  case (Cons a bs)
  then have "on_disk fs a" by simp
  note f = block_free_works [OF assms(1,2) this]
  show ?case using Cons.IH [of "block_free dev a d"] Cons.prems f by (auto simp: free_all_def)
qed

text \<open>The blocks a file gives back: its data blocks up to the first empty slot.\<close>

definition file_blocks :: "block \<Rightarrow> block \<Rightarrow> u32 set" where
  "file_blocks db ib = set (file_data_blocks db) \<union> (if file_indirect db \<noteq> 0 then set (indirect_data_blocks ib) else {})"

lemma delete_file_entity:
  assumes "keeps_writes dev" "bitmaps_work dev fs" "blk_type db = DZFS_ENTITY_FILE" "read_indirect dev db d = Some ib"
    "\<forall>a \<in> file_blocks db ib. on_disk fs a"
  obtains d1 where "delete_entity dev db d = (DZFS_OK, d1)" "\<And>k. is_free dev d1 k \<longleftrightarrow> is_free dev d k \<or> k \<in> file_blocks db ib"
    "\<And>j. \<not> is_bitmap fs j \<Longrightarrow> read_block dev j d1 = read_block dev j d"
proof (cases "file_indirect db = 0")
  case True
  have o: "\<forall>a \<in> set (file_data_blocks db). on_disk fs a" using assms(5) by (simp add: file_blocks_def)
  show ?thesis
    using that [of "free_all dev (file_data_blocks db) d"] free_all_works [OF assms(1,2) o, of d] True assms(3)
    by (auto simp: delete_entity_def file_blocks_def)
next
  case False
  have o: "\<forall>a \<in> set (file_data_blocks db). on_disk fs a" "\<forall>a \<in> set (indirect_data_blocks ib). on_disk fs a"
    using assms(5) False by (simp_all add: file_blocks_def)
  define d0 where "d0 = free_all dev (indirect_data_blocks ib) d"
  have "delete_entity dev db d = (DZFS_OK, free_all dev (file_data_blocks db) d0)"
    using assms(3,4) False by (simp add: delete_entity_def read_indirect_def d0_def)
  moreover have "is_free dev (free_all dev (file_data_blocks db) d0) k \<longleftrightarrow> is_free dev d k \<or> k \<in> file_blocks db ib" for k
    using free_all_works [OF assms(1,2) o(1), of d0 k] free_all_works [OF assms(1,2) o(2), of d k] False
    by (auto simp: file_blocks_def d0_def)
  moreover have "read_block dev j (free_all dev (file_data_blocks db) d0) = read_block dev j d" if "\<not> is_bitmap fs j" for j
    using free_all_works [OF assms(1,2) o(1), of d0] free_all_works [OF assms(1,2) o(2), of d] that by (simp add: d0_def)
  ultimately show ?thesis using that by blast
qed

lemma dzfs_delete_file_spec:
  assumes "keeps_writes dev" "bitmaps_work dev fs" "\<forall>b d. fst (write_block dev parent b d)"
    "read_block dev dnode d = Some db" "blk_type db = DZFS_ENTITY_FILE" "read_indirect dev db d = Some ib"
    "dnode \<noteq> 0" "dnode \<noteq> root_dnode fs" "on_disk fs dnode" "\<forall>a \<in> file_blocks db ib. on_disk fs a"
    "read_block dev parent d = Some dir" "blk_type dir = DZFS_ENTITY_FOLDER" "folder_ok dir" "\<not> is_bitmap fs parent"
    "dnode \<in> set (folder_list dir)"
  shows "\<exists>d' dir'. dzfs_delete dev fs dnode parent d = (DZFS_OK, d') \<and>
    read_block dev parent d' = Some dir' \<and> folder_ok dir' \<and> set (folder_list dir') = set (folder_list dir) - {dnode} \<and>
    (\<forall>k. on_disk fs k \<longrightarrow> (is_free dev d' k \<longleftrightarrow> is_free dev d k \<or> k = dnode \<or> k \<in> file_blocks db ib)) \<and>
    (\<forall>j. \<not> is_bitmap fs j \<and> j \<noteq> parent \<longrightarrow> read_block dev j d' = read_block dev j d)"
proof -
  obtain d1 where d1: "delete_entity dev db d = (DZFS_OK, d1)" "\<And>k. is_free dev d1 k \<longleftrightarrow> is_free dev d k \<or> k \<in> file_blocks db ib"
    "\<And>j. \<not> is_bitmap fs j \<Longrightarrow> read_block dev j d1 = read_block dev j d"
    using delete_file_entity [OF assms(1,2,5,6,10)] by blast
  obtain dir' where dir': "folder_remove_content dir dnode = Some dir'" "folder_ok dir'"
    "set (folder_list dir') = set (folder_list dir) - {dnode}"
    using folder_remove_content_spec [OF assms(13,7)] assms(15) by (auto split: option.splits)
  obtain d2 where w: "write_block dev parent dir' d1 = (True, d2)" using assms(3) by (metis prod.collapse)
  have rd: "read_block dev j d2 = (if j = parent then Some dir' else read_block dev j d1)" for j
    using keeps_writesD [OF assms(1) w] .
  note f = block_free_works [OF assms(1,2,9), where d = d2]
  have fr: "is_free dev d2 k \<longleftrightarrow> is_free dev d1 k" if "on_disk fs k" for k
    using bitmap_of_is_bitmap [OF that] assms(14) by (auto simp: is_free_def rd)
  have "dzfs_delete dev fs dnode parent d = (DZFS_OK, block_free dev dnode d2)"
    using assms(4,8,11,12,14) d1(1,3) dir'(1) w by (simp add: dzfs_delete_def)
  moreover have "read_block dev parent (block_free dev dnode d2) = Some dir'"
    using f(2) [OF assms(14)] by (simp add: rd)
  moreover have "is_free dev (block_free dev dnode d2) k \<longleftrightarrow> is_free dev d k \<or> k = dnode \<or> k \<in> file_blocks db ib"
    if "on_disk fs k" for k using f(1) [of k] fr [OF that] d1(2) by auto
  moreover have "read_block dev j (block_free dev dnode d2) = read_block dev j d" if "\<not> is_bitmap fs j" "j \<noteq> parent" for j
    using f(2) [OF that(1)] that d1(3) by (simp add: rd)
  ultimately show ?thesis using dir'(2,3) by blast
qed

text \<open>
  C25: deleting a file from the folder that lists it, on a device that works: the call succeeds, the folder
  loses exactly this entry, and the blocks that become free are the dnode and the data
  blocks. The indirect block is not among them: it stays marked as used although nothing refers to it.
\<close>

theorem dzfs_delete_file:
  assumes "keeps_writes dev" "bitmaps_work dev fs" "\<forall>b d. fst (write_block dev parent b d)"
    "read_block dev dnode d = Some db" "blk_type db = DZFS_ENTITY_FILE" "read_indirect dev db d = Some ib"
    "dnode \<noteq> 0" "dnode \<noteq> root_dnode fs" "on_disk fs dnode" "\<forall>a \<in> file_blocks db ib. on_disk fs a"
    "read_block dev parent d = Some dir" "blk_type dir = DZFS_ENTITY_FOLDER" "folder_ok dir" "\<not> is_bitmap fs parent"
    "dnode \<in> set (folder_list dir)"
  shows "\<exists>d' dir'. dzfs_delete dev fs dnode parent d = (DZFS_OK, d') \<and>
    read_block dev parent d' = Some dir' \<and> folder_ok dir' \<and> set (folder_list dir') = set (folder_list dir) - {dnode} \<and>
    (\<forall>k. on_disk fs k \<longrightarrow> (is_free dev d' k \<longleftrightarrow> is_free dev d k \<or> k = dnode \<or> k \<in> file_blocks db ib)) \<and>
    (\<forall>j. \<not> is_bitmap fs j \<and> j \<noteq> parent \<longrightarrow> read_block dev j d' = read_block dev j d)"
  using assms by (rule dzfs_delete_file_spec)

text \<open>The sample file with an indirect block, number 9, on a disk of 16 blocks.\<close>

definition sample_large :: "u32 \<Rightarrow> block" where
  "sample_large = sample_disk(4 := store32 (sample_disk 4) 268 9)"

lemma sample_large_free:
  assumes "unat k < 32768"
  shows "is_free (ram_disk 16) sample_large k \<longleftrightarrow> k = 5 \<or> k = 6 \<or> k = 7"
proof -
  have "is_free (ram_disk 16) sample_large k \<longleftrightarrow> is_free (ram_disk 8) sample_disk k"
    using assms by (simp add: is_free_def bitmap_of_small sample_large_def)
  then show ?thesis using sample_free [OF assms] by simp
qed

lemma zero_takeWhile: "(\<And>x. x \<in> set xs \<Longrightarrow> x = 0) \<Longrightarrow> takeWhile (\<lambda>c. c \<noteq> 0) xs = ([] :: u32 list)"
  by (cases xs) auto

lemma sample_large_facts:
  "blk_type (sample_large 4) = DZFS_ENTITY_FILE" "file_indirect (sample_large 4) = 9"
  "read_indirect (ram_disk 16) (sample_large 4) sample_large = Some zero_block"
  "file_blocks (sample_large 4) zero_block = {}" "sample_large 3 = sample_disk 3" "bitmaps_work (ram_disk 16) sample_fs"
proof -
  show fl: "blk_type (sample_large 4) = DZFS_ENTITY_FILE" "file_indirect (sample_large 4) = 9"
    using sample_file_loads(1) by (simp_all add: sample_large_def del: sample_simps)
  show "read_indirect (ram_disk 16) (sample_large 4) sample_large = Some zero_block"
    using fl by (simp add: read_indirect_def sample_large_def sample_disk_def)
  have "file_data_blocks (sample_large 4) = []"
    unfolding file_data_blocks_def
    by (rule zero_takeWhile) (auto simp: sample_file_loads(4) sample_large_def DZFS_DIRECT_BLOCKS_def simp del: sample_simps)
  moreover have "indirect_data_blocks zero_block = []"
    unfolding indirect_data_blocks_def by (rule zero_takeWhile) auto
  ultimately show "file_blocks (sample_large 4) zero_block = {}" by (simp add: file_blocks_def)
  show "sample_large 3 = sample_disk 3" by (simp add: sample_large_def)
  show "bitmaps_work (ram_disk 16) sample_fs" by (simp add: bitmaps_work_def sample_bitmap)
qed

theorem dzfs_delete_file_witness:
  "\<exists>d'. dzfs_delete (ram_disk 16) sample_fs 4 3 sample_large = (DZFS_OK, d') \<and>
     is_free (ram_disk 16) d' 4 \<and> file_indirect (sample_large 4) = 9 \<and> \<not> is_free (ram_disk 16) d' 9"
proof -
  note f = sample_large_facts
  from dzfs_delete_file [OF keeps_writes_ram f(6), of 3 4 sample_large "sample_large 4" zero_block "sample_disk 3"]
  obtain d' where "dzfs_delete (ram_disk 16) sample_fs 4 3 sample_large = (DZFS_OK, d')"
    "\<forall>k. on_disk sample_fs k \<longrightarrow> (is_free (ram_disk 16) d' k \<longleftrightarrow> is_free (ram_disk 16) sample_large k \<or> k = 4)"
    using f(1-5) sample_root(3) sample_root_ok
    by (auto simp: on_disk_def sample_bitmap sample_simps(4,5) simp del: sample_simps(1-3))
  then show ?thesis
    using f(2) by (simp add: on_disk_def sample_large_free)
qed

section \<open>Counting free blocks\<close>

lemma clear_lowest:
  assumes "a \<noteq> (0 :: u32)"
  obtains k where "k < 32" "bit a k" "\<And>i. bit (a AND (a - 1)) i \<longleftrightarrow> bit a i \<and> i \<noteq> k"
proof -
  define k where "k = (LEAST k. bit a k)"
  have ex: "\<exists>k. bit a k" using assms by (metis bit_eqI bit_0_eq bot_apply bot_bool_def)
  then have k: "bit a k" unfolding k_def by (metis LeastI)
  have low: "\<not> bit a i" if "i < k" for i using that unfolding k_def by (metis not_less_Least)
  have k32: "k < 32" using k by (auto dest: bit_imp_le_length)
  define s where "s = Suc k"
  define hi where "hi = push_bit s (drop_bit s a)"
  have bhi: "bit hi i \<longleftrightarrow> Suc k \<le> i \<and> bit a i" for i
    by (auto simp: hi_def bit_simps s_def [symmetric] dest: bit_imp_le_length)
  have "a = hi OR 2 ^ k"
  proof (rule bit_eqI)
    fix i
    show "bit a i \<longleftrightarrow> bit (hi OR 2 ^ k) i"
      using k low [of i] k32 by (cases i k rule: linorder_cases) (auto simp: bit_or_iff bhi bit_exp_iff)
  qed
  moreover have "hi + 2 ^ k = hi OR 2 ^ k"
    by (rule disjunctive_add) (auto simp: bhi bit_exp_iff)
  ultimately have a: "a = hi + 2 ^ k" by simp
  have "a - 1 = hi + mask k" by (simp add: a mask_eq_exp_minus_1)
  also have "\<dots> = hi OR mask k" by (rule disjunctive_add) (auto simp: bhi bit_mask_iff)
  finally have "a - 1 = hi OR mask k" .
  then have "bit (a AND (a - 1)) i \<longleftrightarrow> bit a i \<and> i \<noteq> k" for i
    using low [of i] by (cases i k rule: linorder_cases) (auto simp: bit_and_iff bit_or_iff bhi bit_mask_iff)
  with k k32 show ?thesis by (rule_tac that) auto
qed

lemma popcount_loop_bits: "popcount_loop c a = c + of_nat (card {i. bit a i})"
proof (induction c a rule: popcount_loop.induct)
  case (1 c a)
  show ?case
  proof (cases "a = 0")
    case True
    then show ?thesis by (simp add: popcount_loop.simps)
  next
    case False
    then obtain k where k: "bit a k" "\<And>i. bit (a AND (a - 1)) i \<longleftrightarrow> bit a i \<and> i \<noteq> k"
      using clear_lowest by blast
    have fin: "finite {i. bit a i}"
      by (rule finite_subset [of _ "{..<32}"]) (auto dest: bit_imp_le_length)
    have "{i. bit (a AND (a - 1)) i} = {i. bit a i} - {k}" using k(2) by auto
    moreover have "card {i. bit a i} = Suc (card ({i. bit a i} - {k}))"
      using k(1) fin by (metis card.remove mem_Collect_eq)
    ultimately show ?thesis using 1 [OF False] False by (subst popcount_loop.simps) simp
  qed
qed

lemma popcount_bits: "popcount a = of_nat (card {i. bit a i})"
proof -
  have "set (filter (bit a) [0..<32]) = {i. bit a i}" by (auto dest: bit_imp_le_length)
  moreover have "distinct (filter (bit a) [0..<32])" by simp
  ultimately have "card {i. bit a i} = length (filter (bit a) [0..<32])" by (metis distinct_card)
  then show ?thesis by (simp add: popcount_def)
qed

text \<open>The number of the numbers below \<open>n\<close> with a property.\<close>

definition count_upto :: "(nat \<Rightarrow> bool) \<Rightarrow> nat \<Rightarrow> nat" where
  "count_upto P n = length (filter P [0..<n])"

lemma count_upto_simps [simp]:
  "count_upto P 0 = 0" "count_upto P (Suc n) = count_upto P n + (if P n then 1 else 0)"
  by (simp_all add: count_upto_def)

lemma count_upto_add: "count_upto P (m + n) = count_upto P m + count_upto (\<lambda>t. P (m + t)) n"
  by (induction n) simp_all

lemma count_upto_cong: "(\<And>i. i < n \<Longrightarrow> P i = Q i) \<Longrightarrow> count_upto P n = count_upto Q n"
  by (induction n) simp_all

lemma count_upto_card: "count_upto P n = card {i. i < n \<and> P i}"
proof -
  have "set (filter P [0..<n]) = {i. i < n \<and> P i}" by auto
  moreover have "distinct (filter P [0..<n])" by simp
  ultimately show ?thesis unfolding count_upto_def by (metis distinct_card)
qed

lemma popcount_byte: "popcount (ucast (x :: u8)) = of_nat (count_upto (bit x) 8)"
proof -
  have "{i. bit (ucast x :: u32) i} = {i. i < 8 \<and> bit x i}"
    by (auto simp: bit_ucast_iff dest: bit_imp_le_length)
  then show ?thesis by (simp only: popcount_bits count_upto_card)
qed

lemma fold_popcount:
  "fold (\<lambda>j k. k + popcount (ucast (b (of_nat j)))) [0..<m] n = n + of_nat (count_upto (bm_bit b) (8 * m))"
proof (induction m)
  case 0
  then show ?case by (simp add: count_upto_def)
next
  case (Suc m)
  have "count_upto (\<lambda>t. bm_bit b (8 * m + t)) 8 = count_upto (bit (b (of_nat m))) 8"
    by (rule count_upto_cong) (simp add: bm_bit_def)
  then show ?case
    using Suc count_upto_add [of "bm_bit b" "8 * m" 8] by (simp add: popcount_byte add.assoc add.commute [of 8])
qed

lemma free_blocks_loop_append:
  "free_blocks_loop dev (xs @ ys) n d = free_blocks_loop dev ys (free_blocks_loop dev xs n d) d"
  by (induction xs arbitrary: n) (auto split: option.splits)

lemma free_blocks_loop_count:
  assumes "\<And>i. i < m \<Longrightarrow> read_block dev (of_nat i + 2) d \<noteq> None" "m \<le> 131072"
  shows "free_blocks_loop dev [0..<m] n d = n + of_nat (count_upto (\<lambda>k. is_free dev d (of_nat k)) (32768 * m))"
  using assms
proof (induction m arbitrary: n)
  case 0
  then show ?case by simp
next
  case (Suc m)
  obtain b where b: "read_block dev (of_nat m + 2) d = Some b" using Suc.prems(1) [of m] by auto
  have bit: "is_free dev d (of_nat (32768 * m + t)) \<longleftrightarrow> bm_bit b t" if "t < 32768" for t
  proof -
    have bound: "m * 32768 + t < 4294967296" using that Suc.prems(2) by simp
    note sb = scan_block [OF that bound]
    have two: "of_nat m + 1 + 1 = (of_nat m + 2 :: u32)" by simp
    have "is_free dev d (of_nat (m * 32768 + t)) \<longleftrightarrow> bm_bit b t"
      unfolding is_free_def sb two b using that by simp
    then show ?thesis by (simp only: mult.commute)
  qed
  have "count_upto (\<lambda>t. is_free dev d (of_nat (32768 * m + t))) 32768 = count_upto (bm_bit b) 32768"
    by (rule count_upto_cong) (rule bit)
  then have "count_upto (\<lambda>k. is_free dev d (of_nat k)) (32768 * Suc m) =
      count_upto (\<lambda>k. is_free dev d (of_nat k)) (32768 * m) + count_upto (bm_bit b) 32768"
    using count_upto_add [of "\<lambda>k. is_free dev d (of_nat k)" "32768 * m" 32768] by (simp add: add.commute del: of_nat_add of_nat_mult)
  moreover have "free_blocks_loop dev [0..<Suc m] n d =
      free_blocks_loop dev [m] (free_blocks_loop dev [0..<m] n d) d"
    by (simp add: free_blocks_loop_append)
  ultimately show ?case
    using Suc b fold_popcount [of b DZFS_BLOCK_SIZE] by (simp add: DZFS_BLOCK_SIZE_def add.assoc)
qed

text \<open>
  The two bodies of \<^verbatim>\<open>popcount\<close>, the loop and the bit count of the compiler, agree on every argument, and
  \<^verbatim>\<open>dzfs_free_blocks\<close> returns the number of free blocks when the bitmap blocks can be read.
\<close>

theorem dzfs_free_blocks_correct:
  assumes "unat (free_bitmap_blocks fs) \<le> 131072" "\<forall>k. is_bitmap fs k \<longrightarrow> read_block dev k d \<noteq> None"
  shows "(\<forall>a. popcount_loop 0 a = popcount a) \<and>
    dzfs_free_blocks dev fs d = of_nat (card {k. on_disk fs k \<and> is_free dev d k})"
proof -
  define m where "m = unat (free_bitmap_blocks fs)"
  have "read_block dev (of_nat i + 2) d \<noteq> None" if "i < m" for i
  proof -
    have "unat (of_nat i + 2 :: u32) = i + 2"
      using that assms(1) by (simp add: m_def unat_word_ariths unat_of_nat)
    then show ?thesis using that assms(2) by (simp add: is_bitmap_def m_def)
  qed
  then have cnt: "dzfs_free_blocks dev fs d = of_nat (count_upto (\<lambda>k. is_free dev d (of_nat k)) (32768 * m))"
    using free_blocks_loop_count [of m dev d 0] assms(1) by (simp add: dzfs_free_blocks_def m_def)
  have u: "unat (of_nat i :: u32) = i" if "i < 32768 * m" for i
    using that assms(1) by (intro unat_of_nat_u32) (simp add: m_def)
  moreover have "{k. on_disk fs k \<and> is_free dev d k} = of_nat ` {i. i < 32768 * m \<and> is_free dev d (of_nat i)}"
  proof (intro equalityI subsetI)
    fix k assume "k \<in> {k. on_disk fs k \<and> is_free dev d k}"
    then show "k \<in> of_nat ` {i. i < 32768 * m \<and> is_free dev d (of_nat i)}"
      by (intro image_eqI [of _ _ "unat k"]) (simp_all add: on_disk_def m_def)
  next
    fix k :: u32 assume "k \<in> of_nat ` {i. i < 32768 * m \<and> is_free dev d (of_nat i)}"
    then show "k \<in> {k. on_disk fs k \<and> is_free dev d k}"
      using u by (auto simp: on_disk_def m_def [symmetric])
  qed
  moreover have "inj_on (of_nat :: nat \<Rightarrow> u32) {i. i < 32768 * m \<and> is_free dev d (of_nat i)}"
    using u by (auto intro!: inj_onI) (metis u)
  ultimately show ?thesis
    using cnt by (simp add: popcount_loop_bits popcount_bits count_upto_card card_image)
qed

theorem dzfs_free_blocks_correct_witness: "dzfs_free_blocks (ram_disk 8) sample_fs sample_disk = 3"
proof -
  have "{k. on_disk sample_fs k \<and> is_free (ram_disk 8) sample_disk k} = {5, 6, 7}"
    by (auto simp: on_disk_def sample_free)
  then show ?thesis
    using dzfs_free_blocks_correct [of sample_fs "ram_disk 8" sample_disk] by (simp add: sample_bitmap)
qed

end
