(* ===== verification/Kmalloc_Props.thy ===== *)
theory Kmalloc_Props
  imports Kmalloc Phys_Props
begin

text \<open>
  Properties of the kernel heap: where small objects are placed while the mixed page has room, what
  happens when it is full, and the round trip of large blocks.
\<close>

section \<open>Fields of a page\<close>

lemma fields_disjoint:
  assumes "a + n \<le> b" "b + k \<le> 2 ^ 63" "0 < n" "0 < k"
  shows "ranges_disjoint (p + of_nat a) n (p + of_nat b) k" "ranges_disjoint (p + of_nat b) k (p + of_nat a) n"
proof -
  have e: "p + of_nat b - (p + of_nat a) = (of_nat (b - a) :: u64)" using assms by (simp add: of_nat_diff)
  have u: "unat (of_nat (b - a) :: u64) = b - a" by (rule unat_of_nat_u64) (use assms in simp)
  have "of_nat (b - a) \<noteq> (0 :: u64)" using u assms by auto
  then have m: "unat (- (of_nat (b - a) :: u64)) = 18446744073709551616 - (b - a)"
    using unat_diff [of 0 "of_nat (b - a)"] u assms by simp
  have f: "p + of_nat a - (p + of_nat b) = - (of_nat (b - a) :: u64)" using e by (metis minus_diff_eq)
  show "ranges_disjoint (p + of_nat a) n (p + of_nat b) k" unfolding ranges_disjoint_def e f u m using assms by auto
  then show "ranges_disjoint (p + of_nat b) k (p + of_nat a) n" by (rule ranges_disjoint_sym)
qed

lemma load32_field:
  assumes "a + 4 \<le> b \<or> b + k \<le> a" "a + 4 \<le> 2 ^ 63" "b + k \<le> 2 ^ 63" "0 < k"
    "\<And>x. \<not> in_range (p + of_nat b) k x \<Longrightarrow> m' x = m x"
  shows "load32 m' (p + of_nat a) = load32 m (p + of_nat a)"
proof (rule load32_cong)
  fix x assume x: "in_range (p + of_nat a) 4 x"
  have "ranges_disjoint (p + of_nat a) 4 (p + of_nat b) k"
    using fields_disjoint [of a 4 b k p] fields_disjoint [of b k a 4 p] assms(1-4) by auto
  then show "m' x = m x" using ranges_disjointD [OF _ x] assms(5) by blast
qed

lemma outside_page_field:
  assumes "\<not> in_range p 4096 x" "b + k \<le> 4096"
  shows "\<not> in_range (p + of_nat b) k x"
  using assms in_range_sub [of p b k x 4096] by auto

section \<open>Rounding\<close>

lemma and_15: "(a :: u64) AND 15 = a mod 16"
proof -
  have "a AND mask 4 = a mod 2 ^ 4" by (simp only: take_bit_eq_mask [symmetric] take_bit_eq_mod)
  then show ?thesis by (simp add: mask_eq_exp_minus_1)
qed

lemma and_not_mask: "(a :: u64) AND NOT m = a - (a AND m)"
proof -
  have "(a AND NOT m) + (a AND m) = a"
    by (subst disjunctive_add) (auto simp: bit_simps intro!: bit_word_eqI)
  then show ?thesis by (metis add_diff_cancel_right')
qed

lemma and_minus: "(a :: u64) AND - 16 = a - a mod 16" "a AND - 4096 = a - (a AND 4095)"
  using and_not_mask [of a 15] and_not_mask [of a 4095] by (simp_all add: and_15)

lemma km_align_up_16:
  assumes "unat n + 15 < 2 ^ 64"
  shows "unat (km_align_up n KM_ALIGN) = (unat n + 15) div 16 * 16"
proof -
  have s: "unat (n + 15) = unat n + 15" using assms by (simp add: unat_word_ariths)
  have "unat ((n + 15) mod 16) = (unat n + 15) mod 16" by (simp add: unat_mod_distrib s)
  moreover have "(unat n + 15) mod 16 \<le> unat n + 15" by (rule mod_less_eq_dividend)
  ultimately have "unat ((n + 15) - (n + 15) mod 16) = (unat n + 15) - (unat n + 15) mod 16"
    using s by (simp add: unat_diff)
  then show ?thesis by (simp add: km_align_up_def KM_ALIGN_def and_minus minus_mod_eq_div_mult)
qed

lemma page_base_page_of: "page_base p = page_of p"
  by (simp add: page_base_def page_of_def and_minus PAGE_SIZE_def)

lemma page_base_field:
  assumes "page_aligned b" "k < 4096"
  shows "page_base (b + of_nat k) = b"
  using assms page_of_eq_iff [OF assms(1)] in_range_add [of k 4096 b] by (simp add: page_base_page_of)

section \<open>Bumping\<close>

lemma upd_mem_simps [simp]:
  "hmem (upd_mem f h) = f (hmem h)" "mixed_page_head (upd_mem f h) = mixed_page_head h"
  "hk (upd_mem f h) = (hk h)\<lparr>mem := f (hmem h)\<rparr>" "km_bins (upd_mem f h) = km_bins h" "arena_head (upd_mem f h) = arena_head h"
  by (simp_all add: upd_mem_def)

lemma load16_cong:
  "(\<And>x. in_range a 2 x \<Longrightarrow> m x = m' x) \<Longrightarrow> load16 m a = load16 m' a"
  unfolding load16_def by (subst load_le_cong [of a 2 m m']) auto

lemma load16_field:
  assumes "a + 2 \<le> b \<or> b + k \<le> a" "a + 2 \<le> 2 ^ 63" "b + k \<le> 2 ^ 63" "0 < k"
    "\<And>x. \<not> in_range (p + of_nat b) k x \<Longrightarrow> m' x = m x"
  shows "load16 m' (p + of_nat a) = load16 m (p + of_nat a)"
proof (rule load16_cong)
  fix x assume x: "in_range (p + of_nat a) 2 x"
  have "ranges_disjoint (p + of_nat a) 2 (p + of_nat b) k"
    using fields_disjoint [of a 2 b k p] fields_disjoint [of b k a 2 p] assms(1-4) by auto
  then show "m' x = m x" using ranges_disjointD [OF _ x] assms(5) by blast
qed

text \<open>What a bump in a page leaves: the two headers it writes, and nothing else.\<close>

lemma mixed_bump_effect:
  assumes off: "load32 (hmem h) (page + 8) = off" "16 \<le> unat off" "unat off + 4 \<le> 4096"
    and b: "mixed_bump page sz tot h = (p, h')"
  shows "p = page + of_nat (unat off + 4)" "load32 (hmem h') page = load32 (hmem h) page"
    "load32 (hmem h') (page + 8) = off + ucast tot"
    "\<not> in_range page 16 x \<Longrightarrow> \<not> in_range (page + of_nat (unat off)) 4 x \<Longrightarrow> hmem h' x = hmem h x"
    "load16 (hmem h') (page + of_nat (unat off)) = ucast sz" "load16 (hmem h') (page + of_nat (unat off + 2)) = ALLOC_HDR_MAGIC"
    "\<exists>m. h' = h\<lparr>hk := (hk h)\<lparr>mem := m\<rparr>\<rparr>"
proof -
  define a where "a = page + of_nat (unat off)"
  define m0 where "m0 = hmem h"
  define m1 where "m1 = store16 m0 a (ucast sz)"
  define m2 where "m2 = store16 m1 (a + 2) ALLOC_HDR_MAGIC"
  define m3 where "m3 = store32 m2 (page + 8) (load32 m2 (page + 8) + ucast tot)"
  define m4 where "m4 = store32 m3 (page + 4) (load32 m3 (page + 4) + ucast tot)"
  have a2: "a + 2 = page + of_nat (unat off + 2)" "page + 8 = page + of_nat 8" "page + 4 = page + of_nat 4" "page = page + of_nat 0"
    by (simp_all add: a_def)
  have e: "p = a + 4" "h' = h\<lparr>hk := (hk h)\<lparr>mem := m4\<rparr>\<rparr>"
    using b off(1) by (auto simp: mixed_bump_def Let_def a_def m0_def m1_def m2_def m3_def m4_def upd_mem_def)
  then show "p = page + of_nat (unat off + 4)" "\<exists>m. h' = h\<lparr>hk := (hk h)\<lparr>mem := m\<rparr>\<rparr>" by (auto simp: a_def)
  have f1: "\<not> in_range (page + of_nat (unat off)) 2 y \<Longrightarrow> m1 y = m0 y" for y unfolding m1_def a_def by (rule store16_outside)
  have f2: "\<not> in_range (page + of_nat (unat off + 2)) 2 y \<Longrightarrow> m2 y = m1 y" for y unfolding m2_def a2(1) by (rule store16_outside)
  have f3: "\<not> in_range (page + of_nat 8) 4 y \<Longrightarrow> m3 y = m2 y" for y unfolding m3_def a2(2) by (rule store32_outside)
  have f4: "\<not> in_range (page + of_nat 4) 4 y \<Longrightarrow> m4 y = m3 y" for y unfolding m4_def a2(3) by (rule store32_outside)
  have h: "hmem h' = m4" using e by simp
  have l: "load32 m4 (page + of_nat c) = load32 m0 (page + of_nat c)" if "c = 0 \<or> c = 12" for c
  proof -
    have "load32 m4 (page + of_nat c) = load32 m3 (page + of_nat c)" by (rule load32_field [where b = 4 and k = 4, OF _ _ _ _ f4]) (use that in auto)
    also have "\<dots> = load32 m2 (page + of_nat c)" by (rule load32_field [where b = 8 and k = 4, OF _ _ _ _ f3]) (use that in auto)
    also have "\<dots> = load32 m1 (page + of_nat c)" by (rule load32_field [where b = "unat off + 2" and k = 2, OF _ _ _ _ f2]) (use that off in auto)
    also have "\<dots> = load32 m0 (page + of_nat c)" by (rule load32_field [where b = "unat off" and k = 2, OF _ _ _ _ f1]) (use that off in auto)
    finally show ?thesis .
  qed
  show "load32 (hmem h') page = load32 (hmem h) page" using l [of 0] by (simp add: h m0_def)
  have "load32 m2 (page + of_nat 8) = load32 m1 (page + of_nat 8)" by (rule load32_field [where b = "unat off + 2" and k = 2, OF _ _ _ _ f2]) (use off in auto)
  also have "\<dots> = load32 m0 (page + of_nat 8)" by (rule load32_field [where b = "unat off" and k = 2, OF _ _ _ _ f1]) (use off in auto)
  finally have m2: "load32 m2 (page + 8) = off" using off(1) by (simp add: m0_def)
  have "load32 m4 (page + of_nat 8) = load32 m3 (page + of_nat 8)" by (rule load32_field [where b = 4 and k = 4, OF _ _ _ _ f4]) auto
  then show "load32 (hmem h') (page + 8) = off + ucast tot" using m2 by (simp add: h m3_def)
  have "load16 m4 (page + of_nat (unat off)) = load16 m3 (page + of_nat (unat off))" by (rule load16_field [where b = 4 and k = 4, OF _ _ _ _ f4]) (use off in auto)
  also have "\<dots> = load16 m2 (page + of_nat (unat off))" by (rule load16_field [where b = 8 and k = 4, OF _ _ _ _ f3]) (use off in auto)
  also have "\<dots> = load16 m1 (page + of_nat (unat off))" by (rule load16_field [where b = "unat off + 2" and k = 2, OF _ _ _ _ f2]) (use off in auto)
  finally show "load16 (hmem h') (page + of_nat (unat off)) = ucast sz" by (simp add: h m1_def a_def)
  have "load16 m4 (page + of_nat (unat off + 2)) = load16 m3 (page + of_nat (unat off + 2))" by (rule load16_field [where b = 4 and k = 4, OF _ _ _ _ f4]) (use off in auto)
  also have "\<dots> = load16 m2 (page + of_nat (unat off + 2))" by (rule load16_field [where b = 8 and k = 4, OF _ _ _ _ f3]) (use off in auto)
  finally show "load16 (hmem h') (page + of_nat (unat off + 2)) = ALLOC_HDR_MAGIC" by (simp only: h m2_def a2(1) [symmetric] load16_store16)
  assume x: "\<not> in_range page 16 x" "\<not> in_range (page + of_nat (unat off)) 4 x"
  have "\<not> in_range (page + of_nat 4) 4 x" "\<not> in_range (page + of_nat 8) 4 x"
    using x(1) in_range_sub [of page 4 4 x 16] in_range_sub [of page 8 4 x 16] by auto
  moreover have "\<not> in_range (page + of_nat (unat off + 2)) 2 x" "\<not> in_range (page + of_nat (unat off)) 2 x"
    using x(2) in_range_sub [of "page + of_nat (unat off)" 2 2 x 4] in_range_mono [of "page + of_nat (unat off)" 2 x 4]
    by (auto simp: ac_simps)
  ultimately show "hmem h' x = hmem h x" using f1 f2 f3 f4 by (simp add: h m0_def)
qed

section \<open>Small allocations\<close>

definition heap_inv :: "heap \<Rightarrow> bool" where
  "heap_inv h \<longleftrightarrow> phys_inv (hk h) \<and>
     (mixed_page_head h \<noteq> 0 \<longrightarrow> page_aligned (mixed_page_head h) \<and> mixed_page_head h \<notin> pool (hk h) \<and>
        load32 (hmem h) (mixed_page_head h) = KM_MAGIC_MIXED \<and>
        16 \<le> unat (load32 (hmem h) (mixed_page_head h + 8)) \<and> unat (load32 (hmem h) (mixed_page_head h + 8)) \<le> 4096)"

text \<open>Bytes a request of \<open>n\<close> bytes takes in a mixed page.\<close>

definition need :: "u64 \<Rightarrow> nat" where
  "need n = 4 + (unat n + 15) div 16 * 16"

definition has_room :: "memory \<Rightarrow> u64 \<Rightarrow> u64 \<Rightarrow> bool" where
  "has_room m n page \<longleftrightarrow> unat (load32 m (page + 8)) + need n \<le> 4096 \<and> load32 m (page + 8) < MIXED_PAGE_MAX_USED"

lemma need_word:
  assumes "n \<le> KM_MAX_SMALL"
  shows "unat (4 + km_align_up n KM_ALIGN) = need n" "need n \<le> 2052" "4 \<le> need n"
    "ucast (4 + km_align_up n KM_ALIGN) = (of_nat (need n) :: u32)" "unat n + 4 \<le> need n"
proof -
  have n: "unat n \<le> 2048" using assms by (simp add: KM_MAX_SMALL_def word_le_nat_alt)
  have a: "unat (km_align_up n KM_ALIGN) = (unat n + 15) div 16 * 16" by (rule km_align_up_16) (use n in simp)
  show nd: "need n \<le> 2052" "4 \<le> need n" "unat n + 4 \<le> need n" using n by (simp_all add: need_def)
  have "unat (4 + km_align_up n KM_ALIGN) = 4 + unat (km_align_up n KM_ALIGN)"
    using nd(1) a by (simp add: unat_word_ariths need_def)
  then show u: "unat (4 + km_align_up n KM_ALIGN) = need n" by (simp add: need_def a)
  then show "ucast (4 + km_align_up n KM_ALIGN) = (of_nat (need n) :: u32)" by (metis of_nat_unat)
qed

lemma mixed_search_test:
  assumes "n \<le> KM_MAX_SMALL"
  shows "(4 + km_align_up n KM_ALIGN \<le> ucast (ucast PAGE_SIZE - off :: u32) \<and> off < MIXED_PAGE_MAX_USED) \<longleftrightarrow>
    unat off + need n \<le> 4096 \<and> off < MIXED_PAGE_MAX_USED"
proof (cases "off < MIXED_PAGE_MAX_USED")
  case True
  then have o: "unat off < 3840" by (simp add: MIXED_PAGE_MAX_USED_def word_less_nat_alt)
  have "unat (4096 - off) = 4096 - unat off" using o by (subst unat_sub) (simp_all add: word_le_nat_alt)
  then have "unat (ucast (4096 - off :: u32) :: u64) = 4096 - unat off" by (simp add: unat_ucast_up)
  then show ?thesis using need_word(1) [OF assms] o by (auto simp: word_le_nat_alt PAGE_SIZE_def)
qed simp

lemma mixed_search_step:
  assumes "n \<le> KM_MAX_SMALL" "page \<noteq> 0" "page_aligned page"
  shows "mixed_search m (4 + km_align_up n KM_ALIGN) page =
    (if has_room m n page then Some page else mixed_search m (4 + km_align_up n KM_ALIGN) (page + PAGE_SIZE))"
proof -
  have "page_aligned (page + PAGE_SIZE)" by (rule page_aligned_add [OF assms(3)]) (simp add: page_aligned_unat PAGE_SIZE_def)
  then have "(page + PAGE_SIZE) AND (PAGE_SIZE - 1) = 0" by (simp add: page_aligned_def)
  then show ?thesis
    using assms(2) mixed_search_test [OF assms(1), of "load32 m (page + 8)"]
    by (subst mixed_search.simps) (simp add: Let_def has_room_def)
qed

lemma kmalloc_small: "n \<noteq> 0 \<Longrightarrow> n \<le> KM_MAX_SMALL \<Longrightarrow> kmalloc n h = km_alloc_from_mixed_page_locked n h"
  by (simp add: kmalloc_def)

lemma km_alloc_found:
  assumes "mixed_search (hmem h) (4 + km_align_up n KM_ALIGN) (mixed_page_head h) = Some page" "page \<noteq> 0"
  shows "km_alloc_from_mixed_page_locked n h = Some (mixed_bump page n (4 + km_align_up n KM_ALIGN) h)"
  using assms by (simp add: km_alloc_from_mixed_page_locked_def)

text \<open>What a small allocation at \<open>off\<close> of the page \<open>page\<close> leaves of the heap.\<close>

definition bumped :: "u64 \<Rightarrow> u64 \<Rightarrow> nat \<Rightarrow> heap \<Rightarrow> heap \<Rightarrow> bool" where
  "bumped n page off h h' \<longleftrightarrow> unat (load32 (hmem h') (page + 8)) = off + need n \<and>
     load16 (hmem h') (page + of_nat off) = ucast n \<and> load16 (hmem h') (page + of_nat (off + 2)) = ALLOC_HDR_MAGIC \<and>
     mixed_page_head h' = mixed_page_head h \<and> pool (hk h') = pool (hk h) \<and>
     (\<forall>x. \<not> in_range page 16 x \<longrightarrow> \<not> in_range (page + of_nat off) 4 x \<longrightarrow> hmem h' x = hmem h x)"

lemma mixed_bump_page:
  assumes inv: "phys_inv (hk h)" and pg: "page_aligned page" "page \<notin> pool (hk h)"
    and n: "n \<le> KM_MAX_SMALL" and off: "unat (load32 (hmem h) (page + 8)) = off" "16 \<le> off" "off + need n \<le> 4096"
    and b: "mixed_bump page n (4 + km_align_up n KM_ALIGN) h = (p, h')"
  shows "p = page + of_nat (off + 4)" "bumped n page off h h'" "phys_inv (hk h')" "load32 (hmem h') page = load32 (hmem h) page"
proof -
  note nd = need_word [OF n]
  have o: "16 \<le> unat (load32 (hmem h) (page + 8))" "unat (load32 (hmem h) (page + 8)) + 4 \<le> 4096"
    using off nd(3) by auto
  note e = mixed_bump_effect [OF refl o b, unfolded off(1)]
  show "p = page + of_nat (off + 4)" "load32 (hmem h') page = load32 (hmem h) page" using e(1,2) by simp_all
  obtain m where m: "h' = h\<lparr>hk := (hk h)\<lparr>mem := m\<rparr>\<rparr>" using e(7) by blast
  have frame: "m x = mem (hk h) x" if "\<not> in_range page 4096 x" for x
  proof -
    have "\<not> in_range page 16 x" "\<not> in_range (page + of_nat off) 4 x"
      using that in_range_mono [of page 16 x 4096] outside_page_field [OF that, of off 4] off(3) nd(3) by auto
    then show ?thesis using e(4) [of x] m by simp
  qed
  note w = mem_write_pool [OF inv pg frame]
  show "phys_inv (hk h')" using w(1) m by simp
  have "unat (load32 (hmem h) (page + 8) + of_nat (need n)) = off + need n"
    using off nd(2) by (simp add: unat_word_ariths unat_of_nat)
  then show "bumped n page off h h'"
    using e(3-6) w(2) m nd(4) by (simp add: bumped_def)
qed

text \<open>
  C18: while the current mixed page has room a request is served inside it: the object lies between
  the old and the new free offset, so it overlaps no earlier one, its header records its size, and
  apart from that header and the page header no byte changes.
\<close>

theorem kmalloc_in_mixed_page:
  assumes "heap_inv h" "mixed_page_head h = page" "page \<noteq> 0" "n \<noteq> 0" "n \<le> KM_MAX_SMALL" "has_room (hmem h) n page"
    "off = unat (load32 (hmem h) (page + 8))"
  shows "\<exists>h'. kmalloc n h = Some (page + of_nat (off + 4), h') \<and> heap_inv h' \<and> bumped n page off h h' \<and>
    off + 4 + unat n \<le> unat (load32 (hmem h') (page + 8)) \<and> unat (load32 (hmem h') (page + 8)) \<le> 4096"
proof -
  have i: "phys_inv (hk h)" "page_aligned page" "page \<notin> pool (hk h)" "load32 (hmem h) page = KM_MAGIC_MIXED" "16 \<le> off"
    using assms(1-3,7) by (auto simp: heap_inv_def)
  have r: "off + need n \<le> 4096" using assms(6,7) by (simp add: has_room_def)
  have s: "mixed_search (hmem h) (4 + km_align_up n KM_ALIGN) (mixed_page_head h) = Some page"
    using mixed_search_step [OF assms(5,3) i(2)] assms(2,6) by simp
  obtain p h' where b: "mixed_bump page n (4 + km_align_up n KM_ALIGN) h = (p, h')" by force
  note m = mixed_bump_page [OF i(1-3) assms(5) assms(7) [symmetric] i(5) r b]
  have k: "kmalloc n h = Some (page + of_nat (off + 4), h')"
    using kmalloc_small [OF assms(4,5)] km_alloc_found [OF s assms(3)] b m(1) by simp
  have u: "unat (load32 (hmem h') (page + 8)) = off + need n" "mixed_page_head h' = page" "pool (hk h') = pool (hk h)"
    using m(2) assms(2) by (auto simp: bumped_def)
  then have "heap_inv h'" using m(3,4) i r by (simp add: heap_inv_def)
  then show ?thesis using k m(2) u(1) r need_word(5) [OF assms(5)] by auto
qed

text \<open>
  Once the mixed page is full the search goes on with the page at the next address, whatever it
  is. If the word at its offset 8 is small, as in a cleared page, the object is placed there, even
  though that page is free; a new mixed page is not taken.
\<close>

theorem kmalloc_leaves_its_page:
  assumes "heap_inv h" "mixed_page_head h = page" "page \<noteq> 0" "n \<noteq> 0" "n \<le> KM_MAX_SMALL" "\<not> has_room (hmem h) n page"
    "page + PAGE_SIZE \<in> pool (hk h)" "load32 (hmem h) (page + PAGE_SIZE + 8) = 0"
  shows "\<exists>p h'. kmalloc n h = Some (p, h') \<and> p = page + PAGE_SIZE + 4 \<and> page_of p \<in> pool (hk h) \<and>
    mixed_page_head h' = page"
proof -
  let ?q = "page + PAGE_SIZE"
  have i: "page_aligned page" "phys_inv (hk h)" using assms(1-3) by (auto simp: heap_inv_def)
  have al: "page_aligned ?q" using pool_aligned(1) [OF i(2) assms(7)] .
  have q0: "?q \<noteq> 0" using pool_aligned(2) [OF i(2) assms(7)] .
  have room: "has_room (hmem h) n ?q"
    using need_word(2) [OF assms(5)] assms(8) by (simp add: has_room_def MIXED_PAGE_MAX_USED_def)
  have s: "mixed_search (hmem h) (4 + km_align_up n KM_ALIGN) (mixed_page_head h) = Some ?q"
    using mixed_search_step [OF assms(5,3) i(1)] mixed_search_step [OF assms(5) q0 al] assms(2,6) room by simp
  have b: "\<exists>h'. mixed_bump ?q n (4 + km_align_up n KM_ALIGN) h = (?q + 4, h') \<and> mixed_page_head h' = mixed_page_head h"
    using assms(8) by (simp add: mixed_bump_def Let_def)
  have "page_of (?q + 4) = ?q"
    using page_of_eq_iff [OF al] in_range_add [of 4 4096 ?q] by simp
  then show ?thesis
    using b kmalloc_small [OF assms(4,5)] km_alloc_found [OF s q0] assms(2,7) by fastforce
qed

section \<open>Large allocations\<close>

lemma no_block_one:
  assumes "phys_inv s" "pool s = {}"
  shows "no_block s 1"
proof -
  obtain xs where xs: "flist (mem s) (freepages s) xs" "free_list_pages s = set xs"
    using assms(1) by (rule phys_inv_free_list)
  have "no_run s 1" using assms(2) free_list_pages_flist by (fastforce simp: no_run_def pool_def)
  moreover have "regions s = []"
  proof (rule ccontr)
    assume "regions s \<noteq> []"
    then obtain r rs where r: "regions s = r # rs" by (cases "regions s") auto
    then have "region_ok r" using assms(1) by (auto simp: phys_inv_def)
    then have "phys_cur r \<in> {pa. page_aligned pa \<and> phys_cur r \<le> pa \<and> pa < phys_end r}" by (simp add: region_ok_def)
    then have "P2V (hhdm_offset s) (phys_cur r) \<in> pool s" by (auto simp: pool_def r region_pages_def)
    then show False using assms(2) by simp
  qed
  ultimately show ?thesis by (simp add: no_block_def)
qed

lemma kalloc_pages_any:
  assumes "phys_inv s" "1 \<le> unat n" "unat n < 2 ^ 52"
  shows "\<exists>p s'. kalloc_pages n s = Some (p, s') \<and>
    (if p = 0 then s' = s \<and> no_block s (unat n) else block_ok s p (unat n) s')"
proof (cases "unat n = 1")
  case True
  then have n: "n = 1" by (metis unat_1 word_unat_eq_iff)
  obtain p s' where k: "kalloc s = (p, s')" by force
  have "if p = 0 then s' = s \<and> pool s = {} else alloc_ok s p s'"
    using alloc_with_spec [OF assms(1), of "Some 0" "Some 2" p s'] k by (auto simp: alloc_with_variants split: if_splits)
  then have "if p = 0 then s' = s \<and> no_block s 1 else block_ok s p 1 s'"
    using no_block_one [OF assms(1)] by (auto simp: alloc_ok_def block_ok_def block_pages_Suc)
  then show ?thesis using k n by (auto simp: kalloc_pages_one split: if_splits)
next
  case False
  then have "2 \<le> unat n" using assms(2) by simp
  from kalloc_pages_many [OF assms(1) this assms(3)] show ?thesis by (auto split: if_splits)
qed

text \<open>The pages of a large request: its size in steps of 16 bytes, after a header of 16 bytes.\<close>

definition large_count :: "nat \<Rightarrow> nat" where
  "large_count n = (16 * ((n + 15) div 16) + 16 + 4095) div 4096"

lemma large_pages:
  assumes "KM_MAX_SMALL < n" "unat n < 2 ^ 31"
  shows "1 \<le> unat (PAGE_ROUND_UP (km_align_up n KM_ALIGN + 16) div PAGE_SIZE)"
    "unat (PAGE_ROUND_UP (km_align_up n KM_ALIGN + 16) div PAGE_SIZE) < 2 ^ 20"
    "unat n + 16 \<le> 4096 * unat (PAGE_ROUND_UP (km_align_up n KM_ALIGN + 16) div PAGE_SIZE)"
    "unat (PAGE_ROUND_UP (km_align_up n KM_ALIGN + 16) div PAGE_SIZE) = large_count (unat n)"
proof -
  let ?t = "km_align_up n KM_ALIGN + 16"
  have a: "unat (km_align_up n KM_ALIGN) = (unat n + 15) div 16 * 16" by (rule km_align_up_16) (use assms in simp)
  have l: "(unat n + 15) div 16 * 16 \<le> unat n + 15" "unat n \<le> (unat n + 15) div 16 * 16" by linarith+
  then have t: "unat ?t = (unat n + 15) div 16 * 16 + 16" using a assms(2) by (simp add: unat_word_ariths)
  have "unat (PAGE_ROUND_UP ?t) = (unat ?t + 4095) div 4096 * 4096"
    by (rule unat_PAGE_ROUND_UP) (use t l assms(2) in simp)
  then have p: "unat (PAGE_ROUND_UP ?t div PAGE_SIZE) = (unat ?t + 4095) div 4096" by (simp add: PAGE_SIZE_def unat_div)
  show "1 \<le> unat (PAGE_ROUND_UP ?t div PAGE_SIZE)" unfolding p t by simp
  show "unat (PAGE_ROUND_UP ?t div PAGE_SIZE) < 2 ^ 20" unfolding p t using l assms(2) by simp
  show "unat n + 16 \<le> 4096 * unat (PAGE_ROUND_UP ?t div PAGE_SIZE)" unfolding p t using l by linarith
  show "unat (PAGE_ROUND_UP ?t div PAGE_SIZE) = large_count (unat n)" unfolding p t large_count_def by (simp add: mult.commute)
qed

lemma large_header:
  assumes "m' = store32 (store32 (store32 (store32 m b KM_MAGIC_LARGE) (b + 4) k) (b + 8) 0) (b + 12) 0"
  shows "load32 m' b = KM_MAGIC_LARGE" "load32 m' (b + 4) = k" "\<not> in_range b 16 x \<Longrightarrow> m' x = m x"
proof -
  have d: "b + 4 = b + of_nat 4" "b + 8 = b + of_nat 8" "b + 12 = b + of_nat 12" "b = b + of_nat 0" by simp_all
  have o: "load32 (store32 m1 (b + of_nat c) v) (b + of_nat a) = load32 m1 (b + of_nat a)"
    if "a + 4 \<le> c \<or> c + 4 \<le> a" "a \<le> 12" "c \<le> 12" for m1 v a c
    by (rule load32_field [where b = c and k = 4]) (use that in \<open>auto intro: store32_outside\<close>)
  show "load32 m' b = KM_MAGIC_LARGE"
    using o [of 0 12] o [of 0 8] o [of 0 4] by (simp add: assms)
  show "load32 m' (b + 4) = k"
    using o [of 4 12] o [of 4 8] by (simp add: assms)
  assume x: "\<not> in_range b 16 x"
  have "\<not> in_range (b + of_nat c) 4 x" if "c \<le> 12" for c using in_range_sub [of b c 4 x 16] x that by auto
  from this [of 0] this [of 4] this [of 8] this [of 12] show "m' x = m x"
    by (simp add: assms store32_outside)
qed

text \<open>
  C19: a large request, below \<open>2\<^sup>3\<^sup>1\<close> bytes, gets its own block of free pages, as many as its
  header and its bytes need, which leave the pool, and \<^verbatim>\<open>kmfree\<close> of the pointer finds the header
  and gives exactly that block back. NULL, with the pages as they were, is returned only when
  neither the free list nor a region has such a block.
\<close>

theorem kmalloc_large_kmfree:
  assumes "phys_inv (hk h)" "KM_MAX_SMALL < n" "unat n < 2 ^ 31"
  shows "\<exists>p h1. kmalloc n h = Some (p, h1) \<and>
    (if p = 0 then hk h1 = hk h \<and> no_block (hk h) (large_count (unat n))
     else unat n + 16 \<le> 4096 * large_count (unat n) \<and> page_aligned (p - 16) \<and>
       block_pages (p - 16) (large_count (unat n)) \<subseteq> pool (hk h) \<and>
       pool (hk h1) = pool (hk h) - block_pages (p - 16) (large_count (unat n)) \<and>
       (\<exists>h2. kmfree p h1 = Ok h2 \<and> phys_inv (hk h2) \<and> pool (hk h2) = pool (hk h)))"
proof -
  let ?n = "PAGE_ROUND_UP (km_align_up n KM_ALIGN + 16) div PAGE_SIZE"
  note lp = large_pages [OF assms(2,3)]
  obtain b s1 where k: "kalloc_pages ?n (hk h) = Some (b, s1)" and ok: "if b = 0 then s1 = hk h \<and> no_block (hk h) (unat ?n) else block_ok (hk h) b (unat ?n) s1"
    using kalloc_pages_any [OF assms(1) lp(1)] lp(2) by auto
  have n: "n \<noteq> 0" "\<not> n \<le> KM_MAX_SMALL" using assms(2) by (auto simp: KM_MAX_SMALL_def)
  show ?thesis
  proof (cases "b = 0")
    case True
    then have "kmalloc n h = Some (0, h\<lparr>hk := s1\<rparr>)" using n k by (simp add: kmalloc_def Let_def)
    then show ?thesis using ok True lp(4) by simp
  next
    case False
    define m where "m = store32 (store32 (store32 (store32 (mem s1) b KM_MAGIC_LARGE) (b + 4) (ucast ?n)) (b + 8) 0) (b + 12) 0"
    define h1 where "h1 = h\<lparr>hk := s1\<lparr>mem := m\<rparr>\<rparr>"
    have km: "kmalloc n h = Some (b + 16, h1)"
      using n k False by (simp add: kmalloc_def Let_def h1_def m_def upd_mem_def)
    have o: "page_aligned b" "block_pages b (unat ?n) \<subseteq> pool (hk h)" "pool s1 = pool (hk h) - block_pages b (unat ?n)" "phys_inv s1"
      using ok False by (auto simp: block_ok_def)
    have bin: "b \<in> block_pages b (unat ?n)" using lp(1) by (cases "unat ?n") (auto simp: block_pages_Suc)
    have "b \<notin> pool s1" using bin o(3) by simp
    note hd = large_header [OF m_def]
    have fr: "m x = mem s1 x" if "\<not> in_range b 4096 x" for x
      using hd(3) [of x] that in_range_mono [of b 16 x 4096] by auto
    note w = mem_write_pool [OF o(4,1) \<open>b \<notin> pool s1\<close> fr]
    have nz: "0 \<notin> block_pages b (unat ?n)" using pool_aligned(2) [OF assms(1)] o(2) by blast
    have uc: "unat (ucast (ucast ?n :: u32) :: u64) = unat ?n"
    proof -
      have "unat (ucast ?n :: u32) = unat ?n" using lp(2) by (simp add: unsigned_ucast_eq take_bit_nat_eq_self)
      then show ?thesis by (simp only: unat_ucast_up)
    qed
    then have uc': "ucast (ucast ?n :: u32) = ?n" by (rule word_unat_eq_iff [THEN iffD2])
    from w(1) obtain xs where xs: "flist (mem (s1\<lparr>mem := m\<rparr>)) (freepages (s1\<lparr>mem := m\<rparr>)) xs" by (rule phys_inv_free_list)
    obtain s2 where s2: "kfree_pages b ?n (s1\<lparr>mem := m\<rparr>) = Ok s2" "phys_inv s2" "pool s2 = block_pages b (unat ?n) \<union> pool s1"
      using kfree_pages_ok [OF w(1) o(1) False _ _ nz xs] lp(2) w(2) o(3) by auto
    have pb: "page_base (b + 16) = b" using page_base_field [OF o(1), of 16] by simp
    have "b + 16 \<noteq> 0"
    proof
      assume "b + 16 = 0"
      then have "page_of (b + 16) = 0" by (simp add: page_of_def)
      then show False using pb False by (simp add: page_base_page_of)
    qed
    then have "kmfree (b + 16) h1 = Ok (h1\<lparr>hk := s2\<rparr>)"
      using s2(1) pb hd(1,2) uc'
      by (simp add: kmfree_def h1_def Let_def KM_MAGIC_LARGE_def KM_MAGIC_MIXED_def KM_MAGIC_ARENA_def KM_MAGIC_SMALL_def)
    moreover have "pool s2 = pool (hk h)" using s2(3) o(2,3) by auto
    moreover have "pool (hk h1) = pool (hk h) - block_pages b (unat ?n)" using w(2) o(3) by (simp add: h1_def)
    ultimately show ?thesis using km lp(3,4) o(1,2) s2(2) \<open>b + 16 \<noteq> 0\<close> by auto
  qed
qed

section \<open>Witnesses\<close>

text \<open>The first of eight pages is the mixed page, with its free offset at \<open>off\<close>; the others are free.\<close>

definition mixed_heap :: "u32 \<Rightarrow> heap" where
  "mixed_heap off = \<lparr>hk = sample_kmem\<lparr>regions := [\<lparr>phys_cur = 0x2000, phys_end = 0x9000\<rparr>],
       mem := store32 (store32 (\<lambda>_. 0) 0x800000001000 KM_MAGIC_MIXED) 0x800000001008 off\<rparr>,
     mixed_page_head = 0x800000001000, arena_head = 0, km_bins = (\<lambda>_. 0)\<rparr>"

lemma mixed_region_pages:
  "region_pages 0x800000000000 \<lparr>phys_cur = 0x2000, phys_end = 0x9000\<rparr> = block_pages 0x800000002000 7"
proof -
  have "{pa :: u64. page_aligned pa \<and> 0x2000 \<le> pa \<and> pa < 0x2000 + of_nat (4096 * 7)} = block_pages 0x2000 7"
    by (rule aligned_in_span) (simp_all add: page_aligned_def PAGE_SIZE_def)
  then have "region_pages 0x800000000000 \<lparr>phys_cur = 0x2000, phys_end = 0x9000\<rparr> = P2V 0x800000000000 ` block_pages 0x2000 7"
    by (simp add: region_pages_def)
  then show ?thesis unfolding P2V_block by (simp add: P2V_def)
qed

lemma mixed_heap_pool: "pool (hk (mixed_heap off)) = block_pages 0x800000002000 7"
  using free_list_pages_flist [of "hk (mixed_heap off)" "[]"]
  by (simp add: pool_def mixed_heap_def sample_kmem_def mixed_region_pages)

lemma mixed_heap_phys: "phys_inv (hk (mixed_heap off))"
  by (rule phys_invI [of _ "[]"])
    (simp_all add: mixed_heap_def sample_kmem_def mixed_region_pages block_pages_eval region_ok_def page_aligned_def PAGE_SIZE_def)

lemma mixed_heap_fields:
  "mixed_page_head (mixed_heap off) = 0x800000001000" "load32 (hmem (mixed_heap off)) 0x800000001008 = off"
  "load32 (hmem (mixed_heap off)) 0x800000001000 = KM_MAGIC_MIXED" "load32 (hmem (mixed_heap off)) 0x800000002008 = 0"
proof -
  have o: "load32 (store32 m (0x800000001000 + of_nat c) v) (0x800000001000 + of_nat a) = load32 m (0x800000001000 + of_nat a)"
    if "a + 4 \<le> c \<or> c + 4 \<le> a" "a \<le> 8192" "c \<le> 8192" for m v a c
    by (rule load32_field [where b = c and k = 4]) (use that in \<open>auto intro: store32_outside\<close>)
  have z: "load32 (\<lambda>_. 0) a = 0" for a by (simp add: load32_def numeral_eq_Suc)
  show "mixed_page_head (mixed_heap off) = 0x800000001000" "load32 (hmem (mixed_heap off)) 0x800000001008 = off"
    "load32 (hmem (mixed_heap off)) 0x800000001000 = KM_MAGIC_MIXED" "load32 (hmem (mixed_heap off)) 0x800000002008 = 0"
    using o [of 0 8] o [of 4104 8] o [of 4104 0] z by (simp_all add: mixed_heap_def)
qed

lemma mixed_heap_inv: "16 \<le> unat off \<Longrightarrow> unat off \<le> 4096 \<Longrightarrow> heap_inv (mixed_heap off)"
  using mixed_heap_phys [of off] mixed_heap_fields [of off]
  by (simp add: heap_inv_def mixed_heap_pool block_pages_eval page_aligned_def PAGE_SIZE_def)

theorem kmalloc_in_mixed_page_witness:
  "\<exists>h'. kmalloc 100 (mixed_heap 16) = Some (0x800000001014, h') \<and> heap_inv h'"
proof -
  have i: "heap_inv (mixed_heap 16)" by (rule mixed_heap_inv) simp_all
  have r: "(0x800000001000 :: u64) \<noteq> 0" "(100 :: u64) \<noteq> 0" "(100 :: u64) \<le> KM_MAX_SMALL"
    "has_room (hmem (mixed_heap 16)) 100 0x800000001000"
    "(16 :: nat) = unat (load32 (hmem (mixed_heap 16)) (0x800000001000 + 8))"
    by (simp_all add: mixed_heap_fields has_room_def need_def KM_MAX_SMALL_def MIXED_PAGE_MAX_USED_def)
  from kmalloc_in_mixed_page [OF i mixed_heap_fields(1) r] obtain h' where
    "kmalloc 100 (mixed_heap 16) = Some (0x800000001000 + of_nat (16 + 4), h')" "heap_inv h'" by blast
  then show ?thesis by simp
qed

theorem kmalloc_leaves_its_page_witness:
  "\<exists>p h'. kmalloc 2048 (mixed_heap 2068) = Some (p, h') \<and> page_of p \<in> pool (hk (mixed_heap 2068))"
proof -
  have r: "(0x800000001000 :: u64) \<noteq> 0" "(2048 :: u64) \<noteq> 0" "(2048 :: u64) \<le> KM_MAX_SMALL"
    "\<not> has_room (hmem (mixed_heap 2068)) 2048 0x800000001000"
    by (simp_all add: mixed_heap_fields has_room_def need_def KM_MAX_SMALL_def)
  have q: "0x800000001000 + PAGE_SIZE \<in> pool (hk (mixed_heap 2068))"
    "load32 (hmem (mixed_heap 2068)) (0x800000001000 + PAGE_SIZE + 8) = 0"
    unfolding mixed_heap_pool by (simp_all add: PAGE_SIZE_def block_pages_eval mixed_heap_fields)
  have "heap_inv (mixed_heap 2068)" by (rule mixed_heap_inv) simp_all
  from kmalloc_leaves_its_page [OF this mixed_heap_fields(1) r q] show ?thesis by blast
qed

theorem kmalloc_large_kmfree_witness:
  "\<exists>p h1 h2. kmalloc 5000 (mixed_heap 16) = Some (p, h1) \<and> p \<noteq> 0 \<and>
     pool (hk h1) = block_pages 0x800000002000 7 - block_pages (p - 16) 2 \<and>
     kmfree p h1 = Ok h2 \<and> pool (hk h2) = block_pages 0x800000002000 7"
proof -
  have c: "large_count (unat (5000 :: u64)) = 2" by (simp add: large_count_def)
  have "\<not> no_block (hk (mixed_heap 16)) 2" by (simp add: no_block_def mixed_heap_def)
  then show ?thesis
    using kmalloc_large_kmfree [OF mixed_heap_phys [of 16], of 5000, unfolded c mixed_heap_pool]
    by (auto simp: KM_MAX_SMALL_def split: if_splits)
qed

end
