(* ===== verification/File_Props.thy ===== *)
theory File_Props
  imports Files Dzfs_Props Sched_Props Kmalloc_Props
begin

text \<open>
  Properties of the file layer (\<^verbatim>\<open>fs.c\<close>, \<^verbatim>\<open>file.c\<close>, \<^verbatim>\<open>fs/syscall.c\<close>): the invariant of the
  table of inodes and its counts, opening and closing, seeking, the round trip of data through a descriptor, and
  the deletion of an open file.
\<close>


section \<open>The table of inodes\<close>

definition free_inode :: fs_inode where
  "free_inode = \<lparr>i_type = INODE_EMPTY, i_dnode = 0, i_parent_dnode = 0, i_size = 0, i_refs = 0\<rparr>"

definition inode_inv :: "fs_inode list \<Rightarrow> bool" where
  "inode_inv ns \<longleftrightarrow> length ns = MAX_INODES \<and>
     (\<forall>n \<in> set ns. if i_type n = INODE_EMPTY then n = free_inode else i_refs n \<noteq> 0) \<and>
     (\<forall>i < length ns. \<forall>j < length ns. i_type (ns ! i) \<noteq> INODE_EMPTY \<longrightarrow> i_type (ns ! j) \<noteq> INODE_EMPTY \<longrightarrow>
        i_dnode (ns ! i) = i_dnode (ns ! j) \<longrightarrow> i = j)"

lemma scan_inodes_spec:
  assumes "scan_inodes ns k dnode free = (found, free')"
  shows "(case found of
      Some i \<Rightarrow> k \<le> i \<and> i < k + length ns \<and> i_type (ns ! (i - k)) \<noteq> INODE_EMPTY \<and> i_dnode (ns ! (i - k)) = dnode
    | None \<Rightarrow> (\<forall>n \<in> set ns. i_type n \<noteq> INODE_EMPTY \<longrightarrow> i_dnode n \<noteq> dnode) \<and>
        (free' = free \<and> (\<forall>n \<in> set ns. i_type n \<noteq> INODE_EMPTY) \<or>
         (\<exists>j. free' = Some j \<and> k \<le> j \<and> j < k + length ns \<and> i_type (ns ! (j - k)) = INODE_EMPTY)))"
  using assms
proof (induction ns k dnode free rule: scan_inodes.induct)
  case (1 i dnode free)
  then show ?case by auto
next
  case (2 n ns k dnode free)
  have nth: "(n # ns) ! (i - k) = ns ! (i - Suc k)" if "Suc k \<le> i" for i using that by (simp add: nth_Cons')
  show ?case
  proof (cases "i_type n = INODE_EMPTY")
    case True
    then have "scan_inodes ns (Suc k) dnode (Some k) = (found, free')" using 2(3) by simp
    from 2(1) [OF True this] show ?thesis
      using True by (auto simp: nth split: option.splits)
  next
    case False
    show ?thesis
    proof (cases "i_dnode n = dnode")
      case True
      then show ?thesis using 2(3) False by auto
    next
      case ne: False
      then have "scan_inodes ns (Suc k) dnode free = (found, free')" using 2(3) False by simp
      from 2(2) [OF False ne this] show ?thesis
        using False ne by (auto simp: nth split: option.splits)
    qed
  qed
qed

lemma inode_ptr_index: "i < MAX_INODES \<Longrightarrow> unat (inode_ptr i) - 1 = i \<and> inode_ptr i \<noteq> 0"
proof -
  assume "i < MAX_INODES"
  then have "unat (inode_ptr i) = i + 1"
    unfolding inode_ptr_def by (intro unat_of_nat_u64) (simp add: MAX_INODES_def)
  then show ?thesis by (metis add_diff_cancel_right' unat_0 add_is_0 one_neq_zero)
qed


text \<open>What opening does to the table: one slot is filled, or its count goes up.\<close>

definition opened :: "u32 \<Rightarrow> nat \<Rightarrow> fs_inode list \<Rightarrow> fs_inode \<Rightarrow> bool" where
  "opened dnode i ns n \<longleftrightarrow> i < MAX_INODES \<and> i_type n \<noteq> INODE_EMPTY \<and> i_dnode n = dnode \<and> i_refs n = i_refs (ns ! i) + 1 \<and>
     (if i_type (ns ! i) = INODE_EMPTY then \<forall>m \<in> set ns. i_type m \<noteq> INODE_EMPTY \<longrightarrow> i_dnode m \<noteq> dnode
      else n = (ns ! i)\<lparr>i_refs := i_refs (ns ! i) + 1\<rparr>)"

lemma opened_inv:
  assumes "inode_inv ns" "opened dnode i ns n" "i_refs n \<noteq> 0"
  shows "inode_inv (ns[i := n])" "drop_ref n = ns ! i"
proof -
  have len: "length ns = MAX_INODES" "i < length ns" using assms by (simp_all add: inode_inv_def opened_def)
  have ni: "if i_type (ns ! i) = INODE_EMPTY then ns ! i = free_inode else i_refs (ns ! i) \<noteq> 0"
    using assms(1) len(2) unfolding inode_inv_def by (meson nth_mem)
  have n: "i_type n \<noteq> INODE_EMPTY" "i_dnode n = dnode" "i_refs n = i_refs (ns ! i) + 1"
    using assms(2) by (simp_all add: opened_def)
  show "drop_ref n = ns ! i"
  proof (cases "i_type (ns ! i) = INODE_EMPTY")
    case True
    then show ?thesis using ni n(3) by (simp add: drop_ref_def free_inode_def)
  next
    case False
    then show ?thesis using ni n(3) assms(2) by (simp add: drop_ref_def opened_def)
  qed
  have one: "\<forall>m \<in> set (ns[i := n]). if i_type m = INODE_EMPTY then m = free_inode else i_refs m \<noteq> 0"
    using assms(1,3) n(1) set_update_subset_insert [of ns i n] unfolding inode_inv_def by fastforce
  have other: "i_dnode (ns ! j) \<noteq> dnode" if "j < length ns" "j \<noteq> i" "i_type (ns ! j) \<noteq> INODE_EMPTY" for j
  proof (cases "i_type (ns ! i) = INODE_EMPTY")
    case True
    then show ?thesis using assms(2) that by (auto simp: opened_def)
  next
    case False
    then have "i_dnode (ns ! i) = dnode" using assms(2) n(2) by (simp add: opened_def)
    then show ?thesis using assms(1) False that len(2) unfolding inode_inv_def by metis
  qed
  have "j = k" if "j < length ns" "k < length ns" "i_type (ns[i := n] ! j) \<noteq> INODE_EMPTY" "i_type (ns[i := n] ! k) \<noteq> INODE_EMPTY"
    "i_dnode (ns[i := n] ! j) = i_dnode (ns[i := n] ! k)" for j k
    using that other [of j] other [of k] n(2) len(2) assms(1) unfolding inode_inv_def
    by (cases "j = i"; cases "k = i") auto
  then show "inode_inv (ns[i := n])" using one len unfolding inode_inv_def by simp
qed

lemma fs_open_opened:
  assumes "length (inodes st) = MAX_INODES" "inode_inv (inodes st)" "fs_open dev path rel oflags st = Ok (p, st')" "p \<noteq> 0"
  obtains i n dnode parent where "p = inode_ptr i" "opened dnode i (inodes st) n" "inodes st' = (inodes st)[i := n]"
    "dzfs_open_relative dev (main_filesystem st) path
       (if rel = 0 then root_dnode (main_filesystem st) else i_dnode (inode_at st rel)) 0 0 oflags (disk st) = (DZFS_OK, dnode, parent, disk st')"
proof -
  define r where "r = (if rel = 0 then root_dnode (main_filesystem st) else i_dnode (inode_at st rel))"
  obtain res dnode parent d1 where op: "dzfs_open_relative dev (main_filesystem st) path r 0 0 oflags (disk st) = (res, dnode, parent, d1)"
    by (cases "dzfs_open_relative dev (main_filesystem st) path r 0 0 oflags (disk st)")
  have ok: "res = DZFS_OK" using assms(3,4) op by (auto simp: fs_open_def Let_def r_def [symmetric] split: if_splits)
  obtain found free' where sc: "scan_inodes (inodes st) 0 dnode None = (found, free')" by fastforce
  note spec = scan_inodes_spec [OF sc]
  show ?thesis
  proof (cases found)
    case (Some i)
    then have i: "i < MAX_INODES" "i_type (inodes st ! i) \<noteq> INODE_EMPTY" "i_dnode (inodes st ! i) = dnode"
      using spec assms(1) by auto
    have res: "p = inode_ptr i" "st' = upd_inode i (\<lambda>n. n\<lparr>i_refs := i_refs n + 1\<rparr>) (st\<lparr>disk := d1\<rparr>)"
      using assms(3) op ok sc Some by (auto simp: fs_open_def Let_def r_def [symmetric])
    show ?thesis
      using that [of i dnode "(inodes st ! i)\<lparr>i_refs := i_refs (inodes st ! i) + 1\<rparr>" parent] res i op ok
      by (simp add: opened_def upd_inode_def r_def)
  next
    case None
    then obtain i where fr: "free' = Some i" using assms(3,4) op ok sc by (auto simp: fs_open_def Let_def r_def [symmetric] split: option.splits)
    then have i: "i < MAX_INODES" "i_type (inodes st ! i) = INODE_EMPTY"
      "\<forall>m \<in> set (inodes st). i_type m \<noteq> INODE_EMPTY \<longrightarrow> i_dnode m \<noteq> dnode"
      using spec None assms(1) by auto
    have z: "inodes st ! i = free_inode"
      using assms(1,2) i(1,2) unfolding inode_inv_def by (metis nth_mem)
    have "fill_inode dev i dnode parent (st\<lparr>disk := d1\<rparr>) = Ok (p, st')"
      using assms(3) op ok sc None fr by (simp add: fs_open_def Let_def r_def [symmetric])
    then obtain n where "p = inode_ptr i" "st' = upd_inode i (\<lambda>_. n) (st\<lparr>disk := d1\<rparr>)" "i_type n \<noteq> INODE_EMPTY" "i_dnode n = dnode" "i_refs n = 1"
      by (auto simp: fill_inode_def Let_def split: prod.splits if_splits)
    then show ?thesis
      using that [of i dnode n parent] i z op ok by (simp add: opened_def upd_inode_def r_def free_inode_def)
  qed
qed

text \<open>
  In a table where every inode in use has a positive count, the others are clear and no dnode has two inodes, a successful
  \<^verbatim>\<open>fs_open\<close> returns an inode of the dnode the file system found, with its count
  one higher, changes no other inode and keeps these facts; \<^verbatim>\<open>fs_close\<close> of that inode restores the table.
\<close>

lemma fs_open_close:
  assumes "inode_inv (inodes st)" "fs_open dev path rel oflags st = Ok (p, st')" "p \<noteq> 0" "\<forall>n \<in> set (inodes st). i_refs n + 1 \<noteq> 0"
  shows "unat p \<le> MAX_INODES \<and> inode_inv (inodes st') \<and> i_type (inode_at st' p) \<noteq> INODE_EMPTY \<and>
    i_refs (inode_at st' p) = i_refs (inode_at st p) + 1 \<and>
    (\<forall>j. j \<noteq> unat p - 1 \<longrightarrow> inodes st' ! j = inodes st ! j) \<and>
    (\<exists>parent. dzfs_open_relative dev (main_filesystem st) path
       (if rel = 0 then root_dnode (main_filesystem st) else i_dnode (inode_at st rel)) 0 0 oflags (disk st) =
         (DZFS_OK, i_dnode (inode_at st' p), parent, disk st')) \<and>
    inodes (fs_close p st') = inodes st"
proof -
  have len: "length (inodes st) = MAX_INODES" using assms(1) by (simp add: inode_inv_def)
  obtain i n dnode parent where opn: "p = inode_ptr i" "opened dnode i (inodes st) n" "inodes st' = (inodes st)[i := n]"
    "dzfs_open_relative dev (main_filesystem st) path
       (if rel = 0 then root_dnode (main_filesystem st) else i_dnode (inode_at st rel)) 0 0 oflags (disk st) = (DZFS_OK, dnode, parent, disk st')"
    by (rule fs_open_opened [OF len assms(1-3)])
  have i: "i < MAX_INODES" using opn(2) by (simp add: opened_def)
  note pi = inode_ptr_index [OF i, folded opn(1)]
  have at: "inode_at st p = inodes st ! i" "inode_at st' p = n" using pi i len opn(3) by (simp_all add: inode_at_def)
  have n: "i_refs n \<noteq> 0" "i_type n \<noteq> INODE_EMPTY" "i_dnode n = dnode" "i_refs n = i_refs (inodes st ! i) + 1"
    using opn(2) assms(4) i len by (simp_all add: opened_def)
  note inv = opened_inv [OF assms(1) opn(2) n(1)]
  have "inodes (fs_close p st') = inodes st"
    using pi i len opn(3) inv(2) by (simp add: fs_close_def upd_inode_def)
  moreover have "unat p \<le> MAX_INODES" using pi i by linarith
  moreover have "\<forall>j. j \<noteq> unat p - 1 \<longrightarrow> inodes st' ! j = inodes st ! j" using opn(3) pi by simp
  moreover have "\<exists>parent. dzfs_open_relative dev (main_filesystem st) path
       (if rel = 0 then root_dnode (main_filesystem st) else i_dnode (inode_at st rel)) 0 0 oflags (disk st) =
         (DZFS_OK, i_dnode (inode_at st' p), parent, disk st')" unfolding at(2) n(3) using opn(4) by blast
  ultimately show ?thesis using inv(1) n opn(3) at by simp
qed

section \<open>Descriptors\<close>

lemma me_upd_me [simp]: "me (upd_me f s) = f (me s)"
  by (simp add: me_def upd_me_def upd_proc_def)

lemma upd_file_frame [simp]:
  "fss (upd_file fd f s) = fss s" "running_process (kern (upd_file fd f s)) = running_process (kern s)"
  "length (open_files (me (upd_file fd f s))) = length (open_files (me s))"
  by (simp_all add: upd_file_def) (simp_all add: upd_me_def upd_proc_def)

lemma me_fss [simp]: "me (s\<lparr>fss := st\<rparr>) = me s" "file_of (s\<lparr>fss := st\<rparr>) fd = file_of s fd"
  by (simp_all add: me_def file_of_def)

lemma file_of_upd_file [simp]:
  "nat fd < length (open_files (me s)) \<Longrightarrow> file_of (upd_file fd f s) fd = f (file_of s fd)"
  by (simp add: file_of_def upd_file_def)

lemma inode_at_upd [simp]:
  "unat p - Suc 0 < length (inodes st) \<Longrightarrow> inode_at (upd_inode (unat p - Suc 0) f st) p = f (inode_at st p)"
  by (simp add: inode_at_def upd_inode_def)

lemma upd_inode_frame [simp]:
  "disk (upd_inode i f st) = disk st" "main_filesystem (upd_inode i f st) = main_filesystem st"
  "inodes (st\<lparr>disk := d\<rparr>) = inodes st" "inode_at (st\<lparr>disk := d\<rparr>) p = inode_at st p"
  by (simp_all add: upd_inode_def inode_at_def)


definition seek_to :: "int \<Rightarrow> int \<Rightarrow> int \<Rightarrow> int \<Rightarrow> int" where
  "seek_to fsize cur off whence =
     (let t = (if whence = 0 then off else if whence = 1 then cur + off else fsize - off)
      in if 0 \<le> t \<and> t \<le> fsize then t else fsize)"

lemma of_int_clamp:
  assumes "uint (z :: u32) < 2 ^ 31" "- (2 ^ 31) \<le> t" "t < 2 ^ 31"
  shows "uint (if (of_int t :: u32) > z then z else of_int t) = (if 0 \<le> t \<and> t \<le> uint z then t else uint z)"
proof (cases "0 \<le> t")
  case True
  then have "uint (of_int t :: u32) = t" using assms by (simp add: uint_word_of_int_eq take_bit_int_eq_self)
  then show ?thesis using True by (auto simp: word_less_def)
next
  case False
  have "(t + 2 ^ 32) mod 2 ^ 32 = t + 2 ^ 32" using False assms(2) by (intro mod_pos_pos_trivial) simp_all
  then have "t mod 2 ^ 32 = t + 2 ^ 32" by (simp only: mod_add_self2)
  then have u: "uint (of_int t :: u32) = t + 2 ^ 32" by (simp add: uint_word_of_int)
  have "z < of_int t" using assms(1,2) by (simp add: word_less_def u)
  then show ?thesis using False by simp
qed

text \<open>
  Seeking never leaves the file. On an open file of less than \<open>2 ^ 30\<close> bytes, \<^verbatim>\<open>file_seek\<close> returns the new
  offset, which is at most the size. From the start it is the requested offset if that lies in the file, from the
  current position the sum, and from the end the size minus the offset, so the offset counts backwards
  there. A target below the start does not fail: it becomes the end of the file. Every other \<^verbatim>\<open>whence\<close> gives \<open>-1\<close> and
  changes nothing.
\<close>

theorem file_seek_bounds:
  assumes "running_process (kern s) \<noteq> 0" "fd_valid fd" "fd_kind (file_of s fd) = FD_INODE"
    "length (open_files (me s)) = MAX_OPEN_FILES"
    "fsize = uint (i_size (inode_at (fss s) (fd_inode (file_of s fd))))"
    "cur = uint (fd_offset (file_of s fd))" "cur \<le> fsize" "\<bar>off\<bar> < 2 ^ 30" "fsize < 2 ^ 30"
  shows "if whence \<in> {0, 1, 2} then
      \<exists>s'. file_seek fd off whence s = Ok (seek_to fsize cur off whence, s') \<and>
        s' = upd_file fd (\<lambda>f. f\<lparr>fd_offset := of_int (seek_to fsize cur off whence)\<rparr>) s \<and>
        0 \<le> seek_to fsize cur off whence \<and> seek_to fsize cur off whence \<le> fsize
    else file_seek fd off whence s = Ok (-1, s)"
proof -
  define z where "z = i_size (inode_at (fss s) (fd_inode (file_of s fd)))"
  define c where "c = fd_offset (file_of s fd)"
  define t where "t = (if whence = 0 then off else if whence = 1 then cur + off else fsize - off)"
  have z: "uint z = fsize" "uint c = cur" using assms by (simp_all add: z_def c_def)
  then have lt: "uint z < 2 ^ 31" using assms(9) by simp
  have nn: "0 \<le> cur" "0 \<le> fsize" using assms by auto
  have t: "- (2 ^ 31) \<le> t" "t < 2 ^ 31" using assms(7-9) nn by (auto simp: t_def abs_less_iff)
  have bd: "0 \<le> seek_to fsize cur off whence" "seek_to fsize cur off whence \<le> fsize" using nn by (simp_all add: seek_to_def Let_def)
  define w where "w = (if (of_int t :: u32) > z then z else of_int t)"
  have w: "uint w = seek_to fsize cur off whence"
    unfolding w_def of_int_clamp [OF lt t] by (simp add: seek_to_def Let_def t_def z)
  have ww: "w = of_int (seek_to fsize cur off whence)" using w by (metis word_of_int_uint)
  have "sint w = seek_to fsize cur off whence"
    using w bd assms(9) by (simp add: sint_uint signed_take_bit_int_eq_self)
  moreover have "seek_target z c off whence = Some (of_int t)" if "whence \<in> {0, 1, 2}"
    using that z by (auto simp: seek_target_def t_def simp flip: z)
  ultimately have "file_seek fd off whence s = Ok (seek_to fsize cur off whence, upd_file fd (\<lambda>f. f\<lparr>fd_offset := w\<rparr>) s)"
    if "whence \<in> {0, 1, 2}"
    using that assms(1-3) by (simp add: file_seek_def Let_def z_def [symmetric] c_def [symmetric] w_def [symmetric])
  moreover have "file_seek fd off whence s = Ok (-1, s)" if "whence \<notin> {0, 1, 2}"
    using that assms(1-3) by (auto simp: file_seek_def Let_def seek_target_def)
  ultimately show ?thesis using bd ww by simp
qed

lemma sint_small: "unat (c :: u32) < 2 ^ 31 \<Longrightarrow> sint c = uint c"
proof -
  assume "unat c < 2 ^ 31"
  then have "int (unat c) < int (2 ^ 31)" by (simp only: of_nat_less_iff)
  then have "uint c < 2 ^ 31" by simp
  moreover have "- (2 ^ 31) \<le> uint c" by (rule order_trans [OF _ uint_ge_0]) simp
  ultimately show ?thesis by (simp add: sint_uint signed_take_bit_int_eq_self)
qed

definition open_inode :: "('d, 'e) sys_state \<Rightarrow> int \<Rightarrow> bool" where
  "open_inode s fd \<longleftrightarrow> running_process (kern s) \<noteq> 0 \<and> fd_valid fd \<and> fd_kind (file_of s fd) = FD_INODE \<and>
     length (open_files (me s)) = MAX_OPEN_FILES \<and> length (inodes (fss s)) = MAX_INODES \<and>
     fd_inode (file_of s fd) \<noteq> 0 \<and> unat (fd_inode (file_of s fd)) \<le> MAX_INODES"

definition inode_of :: "('d, 'e) sys_state \<Rightarrow> int \<Rightarrow> fs_inode" where
  "inode_of s fd = inode_at (fss s) (fd_inode (file_of s fd))"

lemma open_inodeD:
  assumes "open_inode s fd"
  shows "nat fd < length (open_files (me s))" "unat (fd_inode (file_of s fd)) - 1 < length (inodes (fss s))"
proof -
  have "unat (fd_inode (file_of s fd)) \<noteq> 0" using assms by (simp add: open_inode_def unat_eq_0)
  then show "unat (fd_inode (file_of s fd)) - 1 < length (inodes (fss s))" using assms unfolding open_inode_def by linarith
  show "nat fd < length (open_files (me s))" using assms by (simp add: open_inode_def fd_valid_def nat_less_iff)
qed

lemma file_write_ok:
  assumes "open_inode s fd" "file_write dev fd data s = Ok (r, s1)" "0 \<le> r" "length data < 2 ^ 31"
    "off = unat (fd_offset (file_of s fd))" "off + length data < 2 ^ 31"
  shows "\<exists>d'. dzfs_write dev (main_filesystem (fss s)) (i_dnode (inode_of s fd)) data off (disk (fss s)) = (DZFS_OK, d') \<and>
    r = int (length data) \<and> open_inode s1 fd \<and> disk (fss s1) = d' \<and> i_dnode (inode_of s1 fd) = i_dnode (inode_of s fd) \<and>
    file_of s1 fd = (file_of s fd)\<lparr>fd_offset := of_nat (off + length data)\<rparr> \<and>
    unat (i_size (inode_of s1 fd)) = max (unat (i_size (inode_of s fd))) (off + length data)"
proof -
  define p where "p = fd_inode (file_of s fd)"
  obtain r1 d' where w: "dzfs_write dev (main_filesystem (fss s)) (i_dnode (inode_of s fd)) data off (disk (fss s)) = (r1, d')"
    by fastforce
  note D = open_inodeD [OF assms(1)]
  have g: "running_process (kern s) \<noteq> 0" "fd_valid fd" "fd_kind (file_of s fd) = FD_INODE" "writable (file_of s fd)"
    using assms(1,2) by (auto simp: open_inode_def file_write_def split: if_splits)
  have len: "sint (of_nat (length data) :: u32) = int (length data)"
    using assms(4) by (simp add: sint_uint uint_nat unat_of_nat signed_take_bit_int_eq_self)
  define st2 where "st2 = snd (fs_write dev p data off (fss s))"
  have ok: "r1 = DZFS_OK"
    using assms(2,3) g w by (rule_tac ccontr) (simp add: file_write_def fs_write_def Let_def inode_of_def assms(5))
  have fw: "fs_write dev p data off (fss s) = (int (length data), st2)"
    "st2 = (if off + length data > unat (i_size (inode_of s fd))
       then upd_inode (unat p - 1) (\<lambda>n. n\<lparr>i_size := of_nat (off + length data)\<rparr>) ((fss s)\<lparr>disk := d'\<rparr>) else (fss s)\<lparr>disk := d'\<rparr>)"
    using w ok assms(6) len by (simp_all add: st2_def fs_write_def Let_def inode_of_def p_def del: of_nat_add)
  have s1: "r = int (length data)" "s1 = upd_file fd (\<lambda>f. f\<lparr>fd_offset := fd_offset f + of_nat (length data)\<rparr>) (s\<lparr>fss := st2\<rparr>)"
    using assms(2) g fw(1) by (auto simp: file_write_def p_def [symmetric] assms(5) [symmetric])
  have f1: "file_of s1 fd = (file_of s fd)\<lparr>fd_offset := of_nat (off + length data)\<rparr>"
    using D(1) by (simp add: s1 assms(5))
  have in1: "inode_of s1 fd = inode_at st2 p" by (simp add: inode_of_def f1) (simp add: s1 p_def)
  have sz: "unat (of_nat (off + length data) :: u32) = off + length data" using assms(6) by (intro unat_of_nat_u32) simp
  show ?thesis
  proof (intro exI conjI)
    show "dzfs_write dev (main_filesystem (fss s)) (i_dnode (inode_of s fd)) data off (disk (fss s)) = (DZFS_OK, d')" using w ok by simp
    show "open_inode s1 fd" using assms(1) unfolding open_inode_def f1 by (simp add: s1 fw(2)) (simp add: upd_inode_def)
    show "disk (fss s1) = d'" by (simp add: s1 fw(2))
    show "i_dnode (inode_of s1 fd) = i_dnode (inode_of s fd)" using D(2) unfolding in1 by (simp add: fw(2) p_def inode_of_def)
    show "unat (i_size (inode_of s1 fd)) = max (unat (i_size (inode_of s fd))) (off + length data)"
      using D(2) sz unfolding in1 by (simp add: fw(2) p_def inode_of_def del: of_nat_add)
  qed (use s1 f1 in simp_all)
qed

text \<open>
  C27: writing through a descriptor, seeking back to where the write began and reading as many bytes returns the data:
  \<^verbatim>\<open>file_write\<close>, \<^verbatim>\<open>file_seek\<close> and \<^verbatim>\<open>file_read\<close> on an open file that owns its blocks. The two offsets agree in the end.
\<close>

theorem file_write_seek_read:
  assumes "keeps_writes dev" "unat (free_bitmap_blocks (main_filesystem (fss s))) \<le> 131072"
    "open_inode s fd" "readble (file_of s fd)"
    "file_on_disk dev (main_filesystem (fss s)) (i_dnode (inode_of s fd)) db ib (disk (fss s))"
    "unat (file_size db) + length data < 2 ^ 31"
    "file_write dev fd data s = Ok (r, s1)" "0 \<le> r"
  shows "r = int (length data) \<and>
    (\<exists>s2 s3. file_seek fd (uint (fd_offset (file_of s fd))) 0 s1 = Ok (uint (fd_offset (file_of s fd)), s2) \<and>
       file_read dev fd (length data) s2 = Ok (int (length data), data, s3) \<and>
       file_of s3 fd = file_of s1 fd \<and> fss s3 = fss s1)"
proof -
  define off where "off = unat (fd_offset (file_of s fd))"
  have g: "running_process (kern s) \<noteq> 0" "fd_valid fd" "fd_kind (file_of s fd) = FD_INODE" "writable (file_of s fd)"
    using assms(3,7) by (auto simp: open_inode_def file_write_def split: if_splits)
  obtain r1 d' where w: "dzfs_write dev (main_filesystem (fss s)) (i_dnode (inode_of s fd)) data off (disk (fss s)) = (r1, d')"
    by fastforce
  have ok: "r1 = DZFS_OK"
    using assms(7,8) g w by (rule_tac ccontr) (simp add: file_write_def fs_write_def Let_def inode_of_def off_def)
  note w1 = w [unfolded ok]
  have "off \<le> unat (file_size db)"
    using assms(5) by (intro dzfs_write_checks [OF w1]) (simp add: file_on_disk_def)
  then have bound: "off + length data < 2 ^ 31" "length data < 2 ^ 31" using assms(6) by linarith+
  have rd: "dzfs_read dev (i_dnode (inode_of s fd)) (length data) off d' = (int (length data), data)"
    by (rule dzfs_read_back(1) [OF assms(1,2,5,6) w1])
  have s1: "r = int (length data)" "open_inode s1 fd" "disk (fss s1) = d'" "i_dnode (inode_of s1 fd) = i_dnode (inode_of s fd)"
    "file_of s1 fd = (file_of s fd)\<lparr>fd_offset := of_nat (off + length data)\<rparr>"
    "unat (i_size (inode_of s1 fd)) = max (unat (i_size (inode_of s fd))) (off + length data)"
    using file_write_ok [OF assms(3,7,8) bound(2) off_def bound(1)] w1 by (simp_all del: of_nat_add)
  note D = open_inodeD [OF s1(2)]
  define c where "c = fd_offset (file_of s fd)"
  have le: "\<not> c > i_size (inode_of s1 fd)" using s1(6) by (simp add: word_less_nat_alt c_def off_def)
  have sc: "sint c = uint c" using bound(1) by (intro sint_small) (simp add: c_def off_def)
  define s2 where "s2 = upd_file fd (\<lambda>f. f\<lparr>fd_offset := c\<rparr>) s1"
  define s3 where "s3 = upd_file fd (\<lambda>f. f\<lparr>fd_offset := fd_offset f + of_int (int (length data))\<rparr>) s2"
  have g1: "running_process (kern s1) \<noteq> 0" "fd_kind (file_of s1 fd) = FD_INODE" using s1(2) by (simp_all add: open_inode_def)
  have seek: "file_seek fd (uint c) 0 s1 = Ok (uint c, s2)"
    using g(2) g1 le sc by (simp add: file_seek_def seek_target_def Let_def inode_of_def [symmetric] s2_def)
  have f2: "file_of s2 fd = (file_of s fd)\<lparr>fd_offset := c\<rparr>" "fss s2 = fss s1" "running_process (kern s2) \<noteq> 0"
    "length (open_files (me s2)) = length (open_files (me s1))"
    using D(1) s1(5) g1(1) by (simp_all add: s2_def)
  have "fs_read dev (fd_inode (file_of s2 fd)) (length data) off (fss s2) = (int (length data), data)"
    using rd s1(3,4,5) by (simp add: fs_read_def f2 inode_of_def)
  then have "file_read dev fd (length data) s2 = Ok (int (length data), data, s3)"
    using f2 g(2,3) assms(4) by (simp add: file_read_def s3_def off_def c_def)
  moreover have "file_of s3 fd = file_of s1 fd" "fss s3 = fss s1"
    using D(1) s1(5) f2 by (simp_all add: s3_def off_def c_def)
  ultimately show ?thesis using seek s1(1) unfolding c_def by blast
qed

section \<open>Opening and closing descriptors\<close>

lemma first_emptyD:
  assumes "first_empty fs = Some i"
  shows "i < length fs" "fd_kind (fs ! i) = FD_EMPTY"
proof -
  have "i \<in> set (filter (\<lambda>i. fd_kind (fs ! i) = FD_EMPTY) [0..<length fs])"
    using assms by (auto simp: first_empty_def split: list.splits simp del: set_filter)
  then show "i < length fs" "fd_kind (fs ! i) = FD_EMPTY" by auto
qed

lemma other_file_upd_file [simp]: "nat fd \<noteq> nat fd' \<Longrightarrow> file_of (upd_file fd f s) fd' = file_of s fd'"
  by (simp add: file_of_def upd_file_def)

text \<open>
  C26: a successful \<^verbatim>\<open>file_open\<close> takes a descriptor that was empty and fills it with an inode in use, at offset 0, readable unless it
  was opened for writing only and writable when it was opened for writing; the other descriptors stay. The table of inodes keeps its
  invariant. \<^verbatim>\<open>sys_close\<close> of the descriptor succeeds, empties it again and restores the table of inodes.
\<close>

theorem file_open_close:
  assumes "length (open_files (me s)) = MAX_OPEN_FILES" "inode_inv (inodes (fss s))" "\<forall>n \<in> set (inodes (fss s)). i_refs n + 1 \<noteq> 0"
    "file_open dev path oflags s = Ok (fd, s1)" "fd \<noteq> -1"
  shows "open_inode s1 fd \<and> fd_kind (file_of s fd) = FD_EMPTY \<and> fd_offset (file_of s1 fd) = 0 \<and>
    (readble (file_of s1 fd) \<longleftrightarrow> oflags AND O_WRONLY = 0) \<and>
    (process_file.writable (file_of s1 fd) \<longleftrightarrow> oflags AND O_WRONLY \<noteq> 0 \<or> oflags AND O_RDWR \<noteq> 0) \<and>
    inode_inv (inodes (fss s1)) \<and> i_type (inode_of s1 fd) \<noteq> INODE_EMPTY \<and>
    (\<forall>fd'. fd_valid fd' \<and> fd' \<noteq> fd \<longrightarrow> file_of s1 fd' = file_of s fd') \<and>
    (\<exists>s2. sys_close fd s1 = Ok (0, s2) \<and> inodes (fss s2) = inodes (fss s) \<and> fd_kind (file_of s2 fd) = FD_EMPTY \<and>
       (\<forall>fd'. fd_valid fd' \<and> fd' \<noteq> fd \<longrightarrow> file_of s2 fd' = file_of s fd'))"
proof -
  have run: "running_process (kern s) \<noteq> 0" using assms(4) by (auto simp: file_open_def proc_allocate_fd_def)
  obtain i where i: "first_empty (open_files (me s)) = Some i" "fd = int i"
    using assms(4,5) run
    by (auto simp: file_open_def proc_allocate_fd_def me_def Let_def split: option.splits if_splits prod.splits)
  note e = first_emptyD [OF i(1)]
  have v: "fd_valid fd" using e(1) assms(1) i(2) by (simp add: fd_valid_def)
  define F :: "u64 \<Rightarrow> process_file \<Rightarrow> process_file" where "F = (\<lambda>p f. f\<lparr>fd_kind := FD_INODE, fd_inode := p, fd_offset := 0,
                readble := oflags AND O_WRONLY = 0, writable := oflags AND O_WRONLY \<noteq> 0 \<or> oflags AND O_RDWR \<noteq> 0\<rparr>)"
  obtain p st1 where op: "fs_open dev path (working_directory (me s)) (fs_flags oflags) (fss s) = Ok (p, st1)" "p \<noteq> 0"
    "s1 = upd_file fd (F p) (s\<lparr>fss := st1\<rparr>)"
    using assms(4,5) run i
    by (auto simp: file_open_def proc_allocate_fd_def me_def [symmetric] F_def Let_def split: if_splits)
  have len: "length (inodes (fss s)) = MAX_INODES" using assms(2) by (simp add: inode_inv_def)
  note oc = fs_open_close [OF assms(2) op(1,2) assms(3)]
  have fd: "nat fd < length (open_files (me (s\<lparr>fss := st1\<rparr>)))" using v assms(1) by (simp add: fd_valid_def nat_less_iff)
  have f1: "file_of s1 fd = F p (file_of s fd)" "fss s1 = st1" using fd by (simp_all add: op(3))
  have oi: "open_inode s1 fd"
    using oc v run assms(1) op(2) f1 by (simp add: open_inode_def F_def) (simp add: op(3) inode_inv_def)
  have other: "file_of s1 fd' = file_of s fd'" if "fd_valid fd'" "fd' \<noteq> fd" for fd'
    using that v by (auto simp: op(3) fd_valid_def)
  define s2 where "s2 = upd_file fd (\<lambda>f. f\<lparr>fd_kind := FD_EMPTY, readble := False, writable := False, fd_inode := 0, fd_offset := 0\<rparr>)
                     (s1\<lparr>fss := fs_close p st1\<rparr>)"
  have "sys_close fd s1 = Ok (0, s2)" using v f1 by (simp add: sys_close_def s2_def F_def fd_valid_def)
  moreover have "inodes (fss s2) = inodes (fss s)" using oc by (simp add: s2_def)
  moreover have "fd_kind (file_of s2 fd) = FD_EMPTY" using open_inodeD(1) [OF oi] by (simp add: s2_def)
  moreover have "file_of s2 fd' = file_of s fd'" if "fd_valid fd'" "fd' \<noteq> fd" for fd'
    using that v other [OF that] by (auto simp: s2_def fd_valid_def)
  moreover have "fd_kind (file_of s fd) = FD_EMPTY" using e(2) i(2) by (simp add: file_of_def)
  moreover have "inode_inv (inodes (fss s1))" "i_type (inode_of s1 fd) \<noteq> INODE_EMPTY" using oc f1 by (simp_all add: inode_of_def F_def)
  ultimately show ?thesis using oi other f1(1) by (simp add: F_def)
qed


section \<open>Deleting an open file\<close>

text \<open>
  Deleting a file does not look at the table of inodes. When the path names a file of a folder, \<^verbatim>\<open>fs_delete\<close>
  succeeds, removes the entry from the folder and frees the dnode and the data blocks, and the table of inodes stays as it is; so an
  inode of this dnode that is open goes on naming blocks that are free.
\<close>

theorem fs_delete_open:
  assumes "rel \<noteq> 0" "fs = main_filesystem st"
    "dzfs_open_relative dev fs path (i_dnode (inode_at st rel)) 0 0 0 (disk st) = (DZFS_OK, dnode, parent, d)"
    "keeps_writes dev" "bitmaps_work dev fs" "\<forall>b d. fst (write_block dev parent b d)"
    "read_block dev dnode d = Some db" "blk_type db = DZFS_ENTITY_FILE" "read_indirect dev db d = Some ib"
    "dnode \<noteq> 0" "dnode \<noteq> root_dnode fs" "on_disk fs dnode" "\<forall>a \<in> file_blocks db ib. on_disk fs a"
    "read_block dev parent d = Some dir" "blk_type dir = DZFS_ENTITY_FOLDER" "folder_ok dir" "\<not> is_bitmap fs parent"
    "dnode \<in> set (folder_list dir)"
  shows "\<exists>st' dir'. fs_delete dev path rel st = Ok (0, st') \<and> inodes st' = inodes st \<and>
    read_block dev parent (disk st') = Some dir' \<and> set (folder_list dir') = set (folder_list dir) - {dnode} \<and>
    is_free dev (disk st') dnode \<and> (\<forall>a \<in> file_blocks db ib. is_free dev (disk st') a)"
proof -
  obtain d' dir' where del: "dzfs_delete dev fs dnode parent d = (DZFS_OK, d')" "read_block dev parent d' = Some dir'"
    "set (folder_list dir') = set (folder_list dir) - {dnode}"
    "\<forall>k. on_disk fs k \<longrightarrow> (is_free dev d' k \<longleftrightarrow> is_free dev d k \<or> k = dnode \<or> k \<in> file_blocks db ib)"
    using dzfs_delete_file_spec [OF assms(4-18)] by blast
  have "fs_delete dev path rel st = Ok (0, st\<lparr>disk := d'\<rparr>)"
    using assms(1,3) del(1) by (simp add: fs_delete_def assms(2) [symmetric])
  then show ?thesis using del assms(12,13) by (intro exI [of _ "st\<lparr>disk := d'\<rparr>"] exI [of _ dir']) simp
qed

section \<open>A sample system\<close>

text \<open>
  One process with a descriptor for the file of the sample disk, whose inode is the first of the table, and seven empty descriptors.
\<close>

definition file_inode :: "u32 \<Rightarrow> fs_inode" where
  "file_inode n = \<lparr>i_type = INODE_FILE, i_dnode = 4, i_parent_dnode = 3, i_size = n, i_refs = 1\<rparr>"

definition folder_inode :: fs_inode where
  "folder_inode = \<lparr>i_type = INODE_DIRECTORY, i_dnode = 3, i_parent_dnode = 3, i_size = 1, i_refs = 1\<rparr>"

definition sample_files :: "u32 \<Rightarrow> (u32 \<Rightarrow> block) \<Rightarrow> (u32 \<Rightarrow> block) fs_state" where
  "sample_files n d = \<lparr>main_filesystem = sample_fs, inodes = file_inode n # folder_inode # replicate 62 free_inode, disk = d\<rparr>"

definition rw_file :: process_file where
  "rw_file = \<lparr>fd_kind = FD_INODE, fd_inode = 1, fd_device = 0, fd_offset = 0, readble = True, writable = True\<rparr>"

definition sample_system :: "u32 \<Rightarrow> (u32 \<Rightarrow> block, unit) sys_state" where
  "sample_system n = \<lparr>kern = three_procs\<lparr>running_process := 0x10000, procs := (procs three_procs)(0x10000 :=
       (some_proc 0 3 7)\<lparr>open_files := rw_file # replicate 7 empty_file, working_directory := 2\<rparr>)\<rparr>,
     fss = sample_files n sample_disk, pools = mixed_heap 16, hw = ()\<rparr>"

lemma sample_system_simps [simp]:
  "running_process (kern (sample_system n)) = 0x10000" "open_files (me (sample_system n)) = rw_file # replicate 7 empty_file"
  "working_directory (me (sample_system n)) = 2" "fss (sample_system n) = sample_files n sample_disk"
  "file_of (sample_system n) 0 = rw_file" "main_filesystem (sample_files n d) = sample_fs" "disk (sample_files n d) = d"
  "length (inodes (sample_files n d)) = MAX_INODES" "inode_at (sample_files n d) 1 = file_inode n"
  "inode_at (sample_files n d) 2 = folder_inode"
  by (simp_all add: sample_system_def me_def file_of_def sample_files_def MAX_INODES_def inode_at_def)

lemma rw_file_simps [simp]:
  "fd_kind rw_file = FD_INODE" "fd_inode rw_file = 1" "fd_offset rw_file = 0" "readble rw_file" "process_file.writable rw_file"
  by (simp_all add: rw_file_def)

lemma me_sample: "procs (kern (sample_system n)) 0x10000 = me (sample_system n)"
  by (simp add: me_def)

lemma sample_open: "open_inode (sample_system n) 0"
  by (simp add: open_inode_def fd_valid_def MAX_OPEN_FILES_def) (simp add: MAX_INODES_def)

theorem file_seek_bounds_witness:
  "file_seek 0 3 2 (sample_system 10) = Ok (7, upd_file 0 (\<lambda>f. f\<lparr>fd_offset := 7\<rparr>) (sample_system 10))"
  using file_seek_bounds [of "sample_system 10" 0 10 0 3 2]
  by (simp add: file_inode_def fd_valid_def MAX_OPEN_FILES_def seek_to_def)

theorem file_write_seek_read_witness:
  "\<exists>s1 s2 s3. file_write (ram_disk 8) 0 [1, 2, 3] (sample_system 0) = Ok (3, s1) \<and> file_seek 0 0 0 s1 = Ok (0, s2) \<and>
     file_read (ram_disk 8) 0 3 s2 = Ok (3, [1, 2, 3], s3)"
proof -
  obtain d' where w: "dzfs_write (ram_disk 8) sample_fs 4 [1, 2, 3] 0 sample_disk = (DZFS_OK, d')"
    using sample_write by (metis prod.collapse)
  obtain s1 where s1: "file_write (ram_disk 8) 0 [1, 2, 3] (sample_system 0) = Ok (3, s1)"
    using w by (simp add: file_write_def fs_write_def Let_def fd_valid_def MAX_OPEN_FILES_def file_inode_def)
  show ?thesis
    using file_write_seek_read [OF keeps_writes_ram _ sample_open _ _ _ s1, of "sample_disk 4" zero_block] sample_file s1
    by (simp add: inode_of_def file_inode_def sample_file_loads numeral_3_eq_3 sample_fs_def del: sample_simps) blast
qed

lemma sample_inode_inv: "inode_inv (inodes (sample_files n d))"
proof -
  have nth: "inodes (sample_files n d) ! i = (if i = 0 then file_inode n else if i = 1 then folder_inode else free_inode)"
    if "i < MAX_INODES" for i
    using that by (auto simp: sample_files_def MAX_INODES_def nth_Cons')
  have "if i_type m = INODE_EMPTY then m = free_inode else i_refs m \<noteq> 0" if "m \<in> set (inodes (sample_files n d))" for m
  proof -
    have "m = free_inode \<or> m = file_inode n \<or> m = folder_inode" using that by (auto simp: sample_files_def)
    then show ?thesis by (elim disjE) (simp_all add: file_inode_def folder_inode_def free_inode_def)
  qed
  then have "\<forall>m \<in> set (inodes (sample_files n d)). if i_type m = INODE_EMPTY then m = free_inode else i_refs m \<noteq> 0" by blast
  moreover have "\<forall>i < MAX_INODES. \<forall>j < MAX_INODES. i_type (inodes (sample_files n d) ! i) \<noteq> INODE_EMPTY \<longrightarrow>
      i_type (inodes (sample_files n d) ! j) \<noteq> INODE_EMPTY \<longrightarrow>
      i_dnode (inodes (sample_files n d) ! i) = i_dnode (inodes (sample_files n d) ! j) \<longrightarrow> i = j"
    by (auto simp: nth file_inode_def folder_inode_def free_inode_def split: if_splits)
  ultimately show ?thesis unfolding inode_inv_def by simp
qed

theorem file_open_close_witness:
  "\<exists>s1 s2. file_open (ram_disk 8) [47] 0 (sample_system 0) = Ok (1, s1) \<and> open_inode s1 1 \<and> sys_close 1 s1 = Ok (0, s2) \<and>
     inodes (fss s2) = inodes (fss (sample_system 0))"
proof -
  have op: "dzfs_open_relative (ram_disk 8) sample_fs [47] 3 0 0 0 sample_disk = (DZFS_OK, 3, 3, sample_disk)"
    by (simp add: dzfs_open_relative.simps dzfs_open_absolute.simps)
  have "fs_open (ram_disk 8) [47] 2 0 (sample_files 0 sample_disk) =
      Ok (2, upd_inode 1 (\<lambda>n. n\<lparr>i_refs := i_refs n + 1\<rparr>) (sample_files 0 sample_disk))"
    using op by (simp add: fs_open_def Let_def folder_inode_def) (simp add: sample_files_def file_inode_def folder_inode_def inode_ptr_def)
  moreover have "first_empty (open_files (me (sample_system 0))) = Some 1"
    by (simp add: first_empty_def empty_file_def upt_rec numeral_eq_Suc)
  ultimately obtain s1 where s1: "file_open (ram_disk 8) [47] 0 (sample_system 0) = Ok (1, s1)"
    by (simp add: file_open_def proc_allocate_fd_def me_sample fs_flags_def)
  have "\<forall>n \<in> set (inodes (fss (sample_system 0))). i_refs n + 1 \<noteq> 0"
    by (auto simp: sample_files_def file_inode_def folder_inode_def free_inode_def)
  then show ?thesis
    using file_open_close [OF _ _ _ s1] s1 sample_inode_inv by (simp add: MAX_OPEN_FILES_def) blast
qed

theorem fs_delete_open_witness:
  "\<exists>st'. fs_delete (ram_disk 16) [97] 2 (sample_files 0 sample_large) = Ok (0, st') \<and>
     inode_at st' 1 = file_inode 0 \<and> i_dnode (file_inode 0) = 4 \<and> is_free (ram_disk 16) (disk st') 4"
proof -
  have nm: "name_matches (sample_large 4) [97]"
  proof -
    have "name_matches (new_dnode 7 [97] 0 3) [97]" by (intro new_dnode_fields(4)) simp
    moreover have "store32 b 268 v (of_nat i) = b (of_nat i)" if "i < 268" for b v i
      using that store32_byte [of i 268 b v] by simp
    from this [of 1] this [of 2] have "store32 b 268 v 1 = b 1" "store32 b 268 v 2 = b 2" for b v by simp_all
    ultimately show ?thesis by (simp add: name_matches_def get_bytes_def sample_large_def)
  qed
  have "(0 :: nat) < 957" by simp
  from upt_957 [OF this] obtain ys where "[0..<DZFS_MAX_DIR_CONTENTS] = 0 # ys"
    unfolding DZFS_MAX_DIR_CONTENTS_def by simp
  then have "lookup_loop (ram_disk 16) (sample_disk 3) [97] [0..<DZFS_MAX_DIR_CONTENTS] sample_large = Some 4"
    using nm sample_root(1) by (simp del: sample_simps)
  then have op: "dzfs_open_relative (ram_disk 16) sample_fs [97] 3 0 0 0 sample_large = (DZFS_OK, 4, 3, sample_large)"
    by (subst open_name [where dir = "sample_disk 3"]) (simp_all add: plain_name_def sample_large_facts del: sample_simps)
  note f = sample_large_facts
  have "\<exists>st' dir'. fs_delete (ram_disk 16) [97] 2 (sample_files 0 sample_large) = Ok (0, st') \<and>
      inodes st' = inodes (sample_files 0 sample_large) \<and> is_free (ram_disk 16) (disk st') 4"
    using fs_delete_open [of 2 sample_fs "sample_files 0 sample_large" "ram_disk 16" "[97]" 4 3 sample_large "sample_large 4" zero_block "sample_disk 3"]
      op f sample_root(3) sample_root_ok keeps_writes_ram
    by (auto simp: on_disk_def sample_bitmap sample_simps(4,5) folder_inode_def simp del: sample_simps(1-3))
  then show ?thesis by (auto simp: inode_at_def sample_files_def file_inode_def)
qed

end
