(* ===== verification/Exec_Props.thy ===== *)
theory Exec_Props
  imports Exec_Load File_Props
begin

text \<open>
  Properties of the program loader (\<^verbatim>\<open>exec.c\<close>): a program is loaded completely or memory has run out, the arguments
  of a program do not arrive on its stack, and files that are not programs are rejected without a trace.
\<close>

section \<open>Loading a program\<close>

text \<open>
  C28: loading a program. When the program headers can be read from the file and its loadable segments are good (in user space below 4 GB,
  their data in the file, writable when a part is to be zeroed), share no page and lie on unmapped pages, the loop of
  \<^verbatim>\<open>proc_exec\<close> either stops because memory is used up, never with four free pages for each page of the program, or loads the
  whole program: every segment is user memory of the program, with frames of its own, writable exactly when its flags say so and
  executable exactly when they do, that holds the bytes of the file followed by zeros; \<^verbatim>\<open>initial_data_segment\<close> lies behind all
  of them; the other translations are kept. The page tables and the allocator keep their invariants in either case.
\<close>

theorem load_program_correct:
  assumes "pt_inv own k root" "phys_inv k" "pool_addressable k" "hhdm_offset k \<notin> pool k" "buffer_apart env own k"
    "headers_at dev st ip off (map fst phs)"
    "\<forall>p \<in> set (loadable phs). good_segment dev (disk st) (i_dnode (inode_at st ip)) bias (fst p) (snd p) \<and>
       (\<forall>va. in_segment bias (fst p) va \<longrightarrow> translate k root va = None)"
    "sorted_wrt (apart bias) (loadable phs)"
  shows "\<exists>ok ids' k' own'. load_program env dev st root ip bias (length phs) off ids k = Some (Ok (ok, ids', k')) \<and>
    pt_inv own' k' root \<and> phys_inv k' \<and> pool k' \<subseteq> pool k \<and>
    (\<not> ok \<and> (\<exists>x. pool k' \<subseteq> {x}) \<and> card (pool k) < 4 * program_pages bias (loadable phs) \<or>
     ok \<and> ids \<le> ids' \<and>
     (\<forall>(ph, xs) \<in> set (loadable phs). in_place env own' k' root bias ph xs \<and> (segment_last bias ph + 1) * 4096 \<le> unat ids') \<and>
     (\<forall>va. (\<forall>(ph, xs) \<in> set (loadable phs). \<not> in_segment bias ph va) \<longrightarrow> translate k' root va = translate k root va))"
  using load_program_spec [OF assms, of ids] unfolding program_loaded_def space_grows_def case_prod_beta by blast

text \<open>A program of one segment of three bytes that is longer in memory, in the file of the sample disk.\<close>

definition data_segment :: ProgramHeader where
  "data_segment = \<lparr>ph_type = ELF_PROG_LOAD, ph_flags = 6, ph_off = 56, ph_vaddr = 0x400ffe, ph_paddr = 0, ph_filesz = 3, ph_memsz = 10, ph_align = 0\<rparr>"

definition header_bytes :: "u8 list" where
  "header_bytes = [1, 0, 0, 0, 6, 0, 0, 0, 56, 0, 0, 0, 0, 0, 0, 0, 0xfe, 0x0f, 0x40, 0, 0, 0, 0, 0, 0, 0, 0, 0, 0, 0, 0, 0,
     3, 0, 0, 0, 0, 0, 0, 0, 10, 0, 0, 0, 0, 0, 0, 0, 0, 0, 0, 0, 0, 0, 0, 0]"

definition program_disk :: "u32 \<Rightarrow> block" where
  "program_disk = snd (dzfs_write (ram_disk 8) sample_fs 4 (header_bytes @ [1, 2, 3]) 0 sample_disk)"

definition sample_env :: exec_env where
  "sample_env = \<lparr>local_word = 0x900000000000, zero_buffer = 0x900000001000, tsc = 0\<rparr>"

primrec le_value :: "u8 list \<Rightarrow> nat" where
  "le_value [] = 0"
| "le_value (x # xs) = unat x + 256 * le_value xs"

lemma load_put_bytes:
  assumes "i + n \<le> length xs" "length xs \<le> 4096"
  shows "load_le n (put_bytes b 0 xs) (of_nat i) = le_value (take n (drop i xs))"
  using assms(1)
proof (induction n arbitrary: i)
  case (Suc n)
  have u: "unat (of_nat i :: u64) = i" using Suc.prems assms(2) by (intro unat_of_nat_u64) simp
  have "load_le n (put_bytes b 0 xs) (of_nat i + 1) = le_value (take n (drop (Suc i) xs))"
    using Suc.IH [of "Suc i"] Suc.prems by (simp add: add.commute)
  moreover have "drop i xs = xs ! i # drop (Suc i) xs" using Suc.prems by (intro Cons_nth_drop_Suc [symmetric]) simp
  ultimately show ?case using Suc.prems u by (simp add: put_bytes_def)
qed simp

lemma sample_header: "program_header header_bytes = data_segment"
proof -
  have ld: "load_le n (put_bytes zero_block 0 header_bytes) (of_nat i) = le_value (take n (drop i header_bytes))" if "i + n \<le> 56" for n i
    using that by (intro load_put_bytes) (simp_all add: header_bytes_def)
  show ?thesis
    unfolding program_header_def data_segment_def Let_def load_defs
    using ld [of 0 4] ld [of 4 4] ld [of 8 8] ld [of 16 8] ld [of 24 8] ld [of 32 8] ld [of 40 8] ld [of 48 8]
    by (simp add: header_bytes_def ELF_PROG_LOAD_def)
qed

lemma program_disk_holds: "file_holds (ram_disk 8) program_disk 4 0 (header_bytes @ [1, 2, 3])"
proof -
  have len: "length (header_bytes @ [1, 2, 3]) = 59" by (simp add: header_bytes_def)
  have w: "dzfs_write (ram_disk 8) sample_fs 4 (header_bytes @ [1, 2, 3]) 0 sample_disk = (DZFS_OK, program_disk)"
    using sample_write_any [of "header_bytes @ [1, 2, 3]"] len by (simp add: prod_eq_iff program_disk_def)
  have small: "unat (free_bitmap_blocks sample_fs) \<le> 131072" by (simp add: sample_fs_def)
  have "0 + length (header_bytes @ [1, 2, 3]) < 2 ^ 64" unfolding len by simp
  from dzfs_write_spec [OF keeps_writes_ram small sample_file this w]
  obtain db ib where f: "file_on_disk (ram_disk 8) sample_fs 4 db ib program_disk" "file_size db = file_size (sample_disk 4) + of_nat 59"
    "\<forall>p. p < 59 \<longrightarrow> file_byte (ram_disk 8) db ib program_disk p = Some ((header_bytes @ [1, 2, 3]) ! p)"
    unfolding len by auto
  moreover have "unat (file_size db) = 59" unfolding f(2) sample_file_loads(2) by simp
  ultimately show ?thesis
    unfolding file_holds_def file_on_disk_def len by (intro exI [of _ db] exI [of _ ib]) simp
qed

lemma sample_buffer: "buffer_apart sample_env sample_own sample_space"
proof -
  have "page_of (zero_buffer sample_env + of_nat t) \<notin> dom sample_own \<union> pool sample_space" if "t < 4096" for t
  proof -
    have "in_range (0x900000001000 :: u64) 4096 (0x900000001000 + of_nat t)" using that by (simp add: in_range_def unat_of_nat)
    then have "page_of (0x900000001000 + of_nat t) = (0x900000001000 :: u64)"
      using page_of_eq_iff [of "0x900000001000"] by (simp add: page_aligned_def PAGE_SIZE_def)
    then show ?thesis by (simp add: sample_env_def sample_own_def sample_root_def sample_space_pool block_pages_eval)
  qed
  then show ?thesis by (simp add: buffer_apart_def sample_env_def)
qed

lemma sample_program:
  "headers_at (ram_disk 8) (sample_files 59 program_disk) 1 0 [data_segment]"
  "good_segment (ram_disk 8) program_disk 4 0 data_segment [1, 2, 3]"
proof -
  have len: "length header_bytes = 56" by (simp add: header_bytes_def)
  have "file_holds (ram_disk 8) (disk (sample_files 59 program_disk)) (i_dnode (inode_at (sample_files 59 program_disk) 1)) 0 (header_bytes @ [1, 2, 3])"
    using program_disk_holds by (simp add: file_inode_def)
  from fs_read_holds [OF this, of 0 56] have "fs_read (ram_disk 8) 1 56 0 (sample_files 59 program_disk) = (56, header_bytes)"
    using len by simp
  then show "headers_at (ram_disk 8) (sample_files 59 program_disk) 1 0 [data_segment]" by (simp add: sample_header)
  have "file_holds (ram_disk 8) program_disk 4 56 [1, 2, 3]"
    using file_holds_part [of "ram_disk 8" program_disk 4 0 header_bytes "[1, 2, 3]" "[]"] program_disk_holds len by simp
  then show "good_segment (ram_disk 8) program_disk 4 0 data_segment [1, 2, 3]"
    by (simp add: good_segment_def segment_va_def segment_writable_def data_segment_def USERSPACE_VA_MIN_def)
qed

theorem load_program_correct_witness:
  "\<exists>ids k' e. load_program sample_env (ram_disk 8) (sample_files 59 program_disk) sample_root 1 0 1 0 0 sample_space = Some (Ok (True, ids, k')) \<and>
     0x402000 \<le> unat ids \<and> mem k' (user_addr k' sample_root 0x400ffe) = 1 \<and> mem k' (user_addr k' sample_root 0x401000) = 3 \<and>
     mem k' (user_addr k' sample_root 0x401007) = 0 \<and>
     translate k' sample_root 0x400ffe = Some e \<and> pte_is_user e \<and> pte_is_writable e \<and> bit e 63"
proof -
  have ld: "loadable [(data_segment, [1, 2, 3])] = [(data_segment, [1, 2, 3])]" by (simp add: loadable_def data_segment_def)
  have pp: "program_pages 0 [(data_segment, [1, 2, 3])] = 2"
    by (simp add: program_pages_def segment_count_def segment_first_def segment_last_def segment_va_def data_segment_def)
  have hh: "hhdm_offset sample_space \<notin> pool sample_space" by (simp add: sample_space_pool block_pages_eval)
  have h: "headers_at (ram_disk 8) (sample_files 59 program_disk) 1 0 (map fst [(data_segment, [1, 2, 3])])" using sample_program(1) by simp
  from load_program_correct [OF sample_space_tables sample_space_inv sample_space_addressable hh sample_buffer h, of 0 0]
  obtain ids k' own' where r: "load_program sample_env (ram_disk 8) (sample_files 59 program_disk) sample_root 1 0 1 0 0 sample_space = Some (Ok (True, ids, k'))"
    "in_place sample_env own' k' sample_root 0 data_segment [1, 2, 3]" "(segment_last 0 data_segment + 1) * 4096 \<le> unat ids"
    using sample_program(2) unfolding ld pp sample_space_card by (auto simp: file_inode_def)
  have v: "segment_va 0 data_segment = 0x400ffe" "unat (ph_memsz data_segment) = 10" by (simp_all add: segment_va_def data_segment_def)
  have m: "mem k' (user_addr k' sample_root (0x400ffe + of_nat j)) = (if j < 3 then [1, 2, 3] ! j else 0)" if "j < 10" for j
    using r(2) that unfolding in_place_def v by auto
  have "user_range own' k' sample_root (segment_entry data_segment) 0x400ffe 10" using r(2) unfolding in_place_def v by blast
  from user_rangeD(5) [OF this, of 0] obtain e where "translate k' sample_root 0x400ffe = Some e" "pte_is_user e" "segment_entry data_segment e"
    by auto
  moreover have "segment_writable data_segment" "\<not> segment_executable data_segment"
    by (simp_all add: segment_writable_def segment_executable_def data_segment_def)
  ultimately show ?thesis
    using r(1,3) m [of 0] m [of 2] m [of 9] by (auto simp: segment_last_def v segment_entry_def)
qed

section \<open>The stack of the program\<close>

text \<open>
  The addresses in the top page of the user stack are rounded down to page \<open>0xFFFFF000\<close>, because the mask has 32 bits.
\<close>

lemma stack_top: "unat USER_STACK_TOP = 0x400000000000"
  by (simp add: USER_STACK_TOP_def USERSPACE_VA_MAX_def)

definition in_stack :: "u64 \<Rightarrow> bool" where
  "in_stack a \<longleftrightarrow> unat USER_STACK_TOP - 4096 \<le> unat a \<and> unat a < unat USER_STACK_TOP"

lemma stack_rounds_down:
  assumes "in_stack a"
  shows "PAGE_ROUND_DOWN a = 0xFFFFF000"
proof -
  define d where "d = unat a - 0x3ffffffff000"
  have "0x3ffffffff000 \<le> unat a" "unat a < 0x400000000000" using assms unfolding in_stack_def stack_top by simp_all
  then have a: "unat a = 2 ^ 32 * 0x3fff + (0xfffff000 + d)" "d < 4096" by (simp_all add: d_def)
  have "unat a mod 2 ^ 32 = (0xfffff000 + d) mod 2 ^ 32" unfolding a(1) by (rule mod_mult_self4)
  then have "unat a mod 2 ^ 32 = 4096 * 0xfffff + d" using a(2) by simp
  then have "unat a mod 2 ^ 32 div 4096 = 0xfffff" using a(2) by simp
  then show ?thesis by (simp add: PAGE_ROUND_DOWN_def unat_and_page_not_mask word_unat_eq_iff)
qed

lemma vmm_memcpy_stack:
  assumes "pt_inv own k root" "translate k root 0xFFFFF000 = None" "in_stack dst" "len \<noteq> 0"
  shows "vmm_memcpy root dst source len True k = Some (Ok (-1, k))"
proof -
  from walk_read [OF assms(1), of "0xFFFFF000"] obtain pte where pte: "walk root 0xFFFFF000 False False k = Ok (pte, k)"
    "translate k root 0xFFFFF000 = (if pte = 0 \<or> \<not> pte_is_present (load64 (mem k) pte) then None else Some (load64 (mem k) pte))"
    by (auto simp: USERSPACE_VA_MIN_def USERSPACE_VA_MAX_def)
  then have "pte = 0 \<or> \<not> pte_is_present (load64 (mem k) pte)" using assms(2) by (auto split: if_splits)
  moreover have "0 < len" using assms(4) by (simp add: word_neq_0_conv)
  ultimately show ?thesis
    using stack_rounds_down [OF assms(3)] pte(1)
    by (subst vmm_memcpy.simps) (auto simp: USERSPACE_VA_MIN_def USERSPACE_VA_MAX_def Let_def)
qed

lemma in_stack_below:
  assumes "unat sp = unat USER_STACK_TOP - used" "0 < n" "used + n \<le> 4096"
  shows "unat (sp - of_nat n) = unat USER_STACK_TOP - (used + n)" "in_stack (sp - of_nat n)"
proof -
  have n: "unat (of_nat n :: u64) = n" using assms(3) by (intro unat_of_nat_u64) simp
  have "of_nat n \<le> sp" unfolding word_le_nat_alt n using assms by (simp add: stack_top)
  then show "unat (sp - of_nat n) = unat USER_STACK_TOP - (used + n)" using assms n by (simp add: unat_sub)
  then show "in_stack (sp - of_nat n)" using assms(2,3) by (simp add: in_stack_def stack_top)
qed

abbreviation string_bytes :: "u8 list list \<Rightarrow> nat" where
  "string_bytes strs \<equiv> (\<Sum>xs\<leftarrow>strs. length xs + 1)"

lemma copy_strings_stack:
  assumes "pt_inv own k root" "translate k root 0xFFFFF000 = None" "list_all2 (cstr_at (mem k)) as strs"
    "unat sp = unat USER_STACK_TOP - used" "used + string_bytes strs \<le> 4096"
  shows "\<exists>sp' ps. copy_strings root as sp ptrs k = Some (Ok (sp', ptrs @ ps, k)) \<and> length ps = length as \<and>
    unat sp' = unat USER_STACK_TOP - (used + string_bytes strs)"
  using assms(3-5)
proof (induction arbitrary: sp used ptrs rule: list_all2_induct)
  case Nil
  then show ?case by auto
next
  case (Cons a as xs strs)
  have len: "length xs + 1 \<le> 4096" using Cons.prems(2) by simp
  have n: "(of_nat (length xs) :: u64) + 1 = of_nat (length xs + 1)" by simp
  have "unat (of_nat (length xs + 1) :: u64) = length xs + 1" using len by (intro unat_of_nat_u64) simp
  then have nz: "(of_nat (length xs + 1) :: u64) \<noteq> 0" by (metis add_gr_0 less_numeral_extra(1) unat_0 not_less0)
  define sp1 where "sp1 = sp - of_nat (length xs + 1)"
  have sp1: "unat sp1 = unat USER_STACK_TOP - (used + (length xs + 1))" "in_stack sp1"
    unfolding sp1_def using in_stack_below [OF Cons.prems(1), of "length xs + 1"] Cons.prems(2) by simp_all
  have "used + (length xs + 1) + string_bytes strs \<le> 4096" using Cons.prems(2) by simp
  from Cons.IH [OF sp1(1) this, of "ptrs @ [sp1]"] obtain sp' ps where
    ih: "copy_strings root as sp1 (ptrs @ [sp1]) k = Some (Ok (sp', (ptrs @ [sp1]) @ ps, k))" "length ps = length as"
    "unat sp' = unat USER_STACK_TOP - (used + (length xs + 1) + string_bytes strs)" by blast
  have "copy_strings root (a # as) sp ptrs k = Some (Ok (sp', ptrs @ (sp1 # ps), k))"
    using strlen_cstr [OF Cons.hyps(1)] vmm_memcpy_stack [OF assms(1,2) sp1(2) nz, of a] ih(1)
    by (simp only: copy_strings.simps option.case n sp1_def [symmetric] Let_def kbind_simps prod.case) simp
  then show ?case using ih(2,3) by (intro exI [of _ sp'] exI [of _ "sp1 # ps"]) simp
qed

text \<open>The memory except for the local variable of \<^verbatim>\<open>proc_exec\<close> stays.\<close>

definition only_local :: "exec_env \<Rightarrow> kmem \<Rightarrow> kmem \<Rightarrow> bool" where
  "only_local env k k' \<longleftrightarrow> k' = k\<lparr>mem := mem k'\<rparr> \<and> (\<forall>a. \<not> in_range (local_word env) 8 a \<longrightarrow> mem k' a = mem k a)"

lemma push_words_stack:
  assumes "pt_inv own k root" "phys_inv k" "translate k root 0xFFFFF000 = None"
    "\<forall>a. in_range (local_word env) 8 a \<longrightarrow> page_of a \<notin> dom own \<union> pool k" "only_local env k k0"
    "unat sp = unat USER_STACK_TOP - used" "used + 8 * length vs \<le> 4096"
  shows "\<exists>sp' k'. push_words env root vs (sp, k0) = Some (Ok (sp', k')) \<and> only_local env k k' \<and>
    unat sp' = unat USER_STACK_TOP - (used + 8 * length vs)"
  using assms(5-7)
proof (induction vs arbitrary: sp used k0)
  case Nil
  then show ?case by auto
next
  case (Cons v vs)
  define k1 where "k1 = k0\<lparr>mem := store64 (mem k0) (local_word env) v\<rparr>"
  have st: "store64 m p x a = m a" if "\<not> in_range p 8 a" for m p x a
    using that by (rule store64_outside)
  have loc: "only_local env k k1"
  proof -
    obtain m where k0: "k0 = k\<lparr>mem := m\<rparr>" "\<forall>a. \<not> in_range (local_word env) 8 a \<longrightarrow> m a = mem k a"
      using Cons.prems(1) unfolding only_local_def by blast
    then show ?thesis unfolding only_local_def k1_def by (simp add: st)
  qed
  have out: "\<forall>a. page_of a \<in> dom own \<union> pool k \<longrightarrow> mem k1 a = mem k a"
    using loc assms(4) unfolding only_local_def by blast
  have eq: "k1 = k\<lparr>mem := mem k1\<rparr>" using loc unfolding only_local_def by blast
  note keep = outside_write_keeps [OF assms(1,2) eq out]
  have nz: "(8 :: u64) \<noteq> 0" by simp
  have b: "unat (sp - 8) = unat USER_STACK_TOP - (used + 8)" "in_stack (sp - 8)"
    using in_stack_below [OF Cons.prems(2), of 8] Cons.prems(3) by simp_all
  have "push_word env root v (sp, k0) = Some (Ok (sp - 8, k1))"
    using vmm_memcpy_stack [OF keep(1) _ b(2) nz, of "local_word env"] keep(4) assms(3)
    by (simp add: push_word_def k1_def Let_def)
  moreover have "used + 8 + 8 * length vs \<le> 4096" using Cons.prems(3) by simp
  from Cons.IH [OF loc b(1) this] obtain sp' k' where "push_words env root vs (sp - 8, k1) = Some (Ok (sp', k'))"
    "only_local env k k'" "unat sp' = unat USER_STACK_TOP - (used + 8 + 8 * length vs)" by blast
  ultimately show ?case by (simp add:)
qed

text \<open>
  C29: the arguments of a program are lost. The results of \<^verbatim>\<open>vmm_memcpy\<close> are not looked at and the addresses of the stack
  are cut to 32 bits, so whenever page \<open>0xFFFFF000\<close> is not mapped (programs that do not reach up to 4 GB), preparing the stack for any
  arguments that fit in a page ends well, with \<open>rsp\<close> in the top page and 8 below a multiple of 16, but writes nothing at all except the
  kernel's local variable: no argument and no count reaches the memory of the program.
\<close>

theorem build_stack_lost:
  assumes "pt_inv own k root" "phys_inv k" "translate k root 0xFFFFF000 = None"
    "\<forall>a. in_range (local_word env) 8 a \<longrightarrow> page_of a \<notin> dom own \<union> pool k"
    "list_all2 (cstr_at (mem k)) as strs" "0 \<notin> set as" "length as < MAX_ARGV"
    "string_bytes strs + 8 * length as + 64 \<le> 4096"
  shows "\<exists>sp k'. build_stack env root (as @ [0]) k = Some (Ok (sp, k')) \<and> in_stack sp \<and> unat sp mod 16 = 8 \<and> only_local env k k'"
proof -
  have tk: "takeWhile (\<lambda>a. a \<noteq> 0) (take MAX_ARGV (as @ [0])) = as"
  proof -
    have "take MAX_ARGV (as @ [0]) = as @ [0]" using assms(7) by simp
    moreover have "takeWhile (\<lambda>a. a \<noteq> 0) (as @ [0]) = as @ takeWhile (\<lambda>a. a \<noteq> 0) [0]"
      using assms(6) by (intro takeWhile_append2) auto
    ultimately show ?thesis by simp
  qed
  have "unat USER_STACK_TOP = unat USER_STACK_TOP - 0" "0 + string_bytes strs \<le> 4096" using assms(8) by simp_all
  from copy_strings_stack [OF assms(1,3,5) this, of "[]"] obtain sp1 ps where
    c: "copy_strings root as USER_STACK_TOP [] k = Some (Ok (sp1, ps, k))" "length ps = length as"
    "unat sp1 = unat USER_STACK_TOP - string_bytes strs" by auto
  define vs where "vs = 0 # 0 # rev ps @ [of_nat (length ps)]"
  have vs: "8 * length vs = 8 * length as + 24" using c(2) by (simp add: vs_def)
  have self: "only_local env k k" by (simp add: only_local_def)
  have "string_bytes strs + 8 * length vs \<le> 4096" using vs assms(8) by simp
  from push_words_stack [OF assms(1-4) self c(3) this] obtain sp2 k2 where
    p: "push_words env root vs (sp1, k) = Some (Ok (sp2, k2))" "only_local env k k2"
    "unat sp2 = unat USER_STACK_TOP - (string_bytes strs + 8 * length vs)" by blast
  define u where "u = string_bytes strs + 8 * length vs"
  define sp3 where "sp3 = sp2 AND NOT 0xF"
  have u: "u + 40 \<le> 4096" using assms(8) vs by (simp add: u_def)
  have sp3: "unat sp3 = unat sp2 div 16 * 16"
  proof -
    have "sp3 = sp2 AND NOT (mask 4)" by (simp add: sp3_def mask_eq_exp_minus_1)
    then have eq: "sp3 = push_bit 4 (drop_bit 4 sp2)" by (auto intro!: bit_eqI simp: bit_simps)
    have "unat sp2 div 16 * 16 < 2 ^ 64" using div_times_less_eq_dividend [of "unat sp2" 16] unat_lt_2p64 [of sp2] by simp
    moreover have "sp3 = sp2 div 16 * 16" unfolding eq by (simp add: push_bit_eq_mult drop_bit_eq_div)
    ultimately show ?thesis by (simp add: unat_word_ariths unat_div)
  qed
  have sp2: "unat sp2 = 0x400000000000 - u" using p(3) by (simp only: u_def stack_top)
  have m: "unat sp2 mod 16 < 16" "unat sp3 = unat sp2 - unat sp2 mod 16" unfolding sp3 by (simp_all add: minus_mod_eq_div_mult)
  have b3: "unat sp3 = unat USER_STACK_TOP - (u + unat sp2 mod 16)" using sp2 m(2) by (simp add: stack_top)
  have l3: "u + unat sp2 mod 16 + 8 * length [0 :: u64] \<le> 4096" using u m(1) by simp
  from push_words_stack [OF assms(1-4) p(2) b3 l3]
  obtain sp k' where q: "push_words env root [0] (sp3, k2) = Some (Ok (sp, k'))" "only_local env k k'"
     "unat sp = unat USER_STACK_TOP - (u + unat sp2 mod 16 + 8)"
    by auto
  have "8 \<le> unat sp3" using b3 u m(1) by (simp add: stack_top)
  then obtain r where "unat sp2 div 16 = Suc r" unfolding sp3 by (cases "unat sp2 div 16") simp_all
  moreover have "unat sp = unat sp3 - 8" using q(3) b3 by simp
  ultimately have "unat sp = 16 * r + 8" by (simp add: sp3)
  then have "unat sp mod 16 = 8" by simp
  moreover have "in_stack sp" using q(3) u m(1) unfolding in_stack_def stack_top by linarith
  moreover have "build_stack env root (as @ [0]) k = Some (Ok (sp, k'))"
  proof -
    have "push_word env root 0 (sp3, k2) = Some (Ok (sp, k'))"
      using q(1) by (auto simp: kbind_def split: option.splits outcome.splits)
    then show ?thesis
      unfolding build_stack_def tk Let_def c(1) kbind_simps prod.case vs_def [symmetric] p(1) sp3_def [symmetric] .
  qed
  ultimately show ?thesis using q(2) by blast
qed

theorem build_stack_lost_witness:
  "\<exists>sp k'. build_stack sample_env sample_root [0x900000002000, 0] sample_space = Some (Ok (sp, k')) \<and> in_stack sp \<and> unat sp mod 16 = 8 \<and>
     only_local sample_env sample_space k'"
proof -
  have "\<forall>a. in_range (local_word sample_env) 8 a \<longrightarrow> page_of a \<notin> dom sample_own \<union> pool sample_space"
  proof (intro allI impI)
    fix a assume "in_range (local_word sample_env) 8 a"
    then have "in_range (0x900000000000 :: u64) 4096 a" by (simp add: in_range_def sample_env_def)
    then have "page_of a = (0x900000000000 :: u64)"
      using page_of_eq_iff [of "0x900000000000"] by (simp add: page_aligned_def PAGE_SIZE_def)
    then show "page_of a \<notin> dom sample_own \<union> pool sample_space"
      by (simp add: sample_own_def sample_root_def sample_space_pool block_pages_eval)
  qed
  then show ?thesis
    using build_stack_lost [OF sample_space_tables sample_space_inv sample_space_translate, of sample_env "[0x900000002000]" "[[]]"]
    by (simp add: MAX_ARGV_def)
qed

section \<open>Files that are not programs\<close>

text \<open>
  A file that is too short for an ELF header, or does not start with the magic number, is rejected: \<^verbatim>\<open>proc_exec\<close> returns -1, the
  inode is closed again, so the table of inodes is as before, and no process has been touched.
\<close>

theorem proc_exec_rejects:
  assumes "inode_inv (inodes (fss s))" "\<forall>n \<in> set (inodes (fss s)). i_refs n + 1 \<noteq> 0"
    "fs_open dev path wd 0 (fss s) = Ok (p, st)" "p \<noteq> 0"
    "fst (fs_read dev p 64 0 st) \<noteq> 64 \<or> eh_magic (elf_header (snd (fs_read dev p 64 0 st))) \<noteq> ELF_MAGIC"
  shows "\<exists>s'. proc_exec env dev drv path args wd s = Some (Ok (-1, s')) \<and> inodes (fss s') = inodes (fss s) \<and> kern s' = kern s \<and>
    pools s' = pools s \<and> hw s' = hw s"
proof -
  have "inodes (fs_close p st) = inodes (fss s)" using fs_open_close [OF assms(1,3,4,2)] by blast
  moreover have "proc_exec env dev drv path args wd s = Some (Ok (-1, s\<lparr>fss := fs_close p st\<rparr>))"
    using assms(3-5) by (auto simp: proc_exec_def exec_bad_def Let_def split: prod.splits)
  ultimately show ?thesis by simp
qed

definition sample_drivers :: "unit drivers" where
  "sample_drivers = \<lparr>serial_read = \<lambda>_ e. (0, [], e), serial_read_async = \<lambda>_ e. (0, [], e), serial_write = \<lambda>xs e. (int (length xs), e),
     fb_write = \<lambda>xs e. (int (length xs), e), fb_control = \<lambda>_ _ e. (0, e)\<rparr>"

lemma sample_open_root:
  "fs_open (ram_disk 8) [47] 2 0 (sample_files 0 sample_disk) =
      Ok (2, upd_inode 1 (\<lambda>n. n\<lparr>i_refs := i_refs n + 1\<rparr>) (sample_files 0 sample_disk))"
proof -
  have "dzfs_open_relative (ram_disk 8) sample_fs [47] 3 0 0 0 sample_disk = (DZFS_OK, 3, 3, sample_disk)"
    by (simp add: dzfs_open_relative.simps dzfs_open_absolute.simps)
  then show ?thesis
    by (simp add: fs_open_def Let_def folder_inode_def) (simp add: sample_files_def file_inode_def folder_inode_def inode_ptr_def)
qed

lemma sample_refs: "\<forall>n \<in> set (inodes (sample_files 0 sample_disk)). i_refs n + 1 \<noteq> 0"
  by (auto simp: sample_files_def file_inode_def folder_inode_def free_inode_def)

theorem proc_exec_rejects_witness:
  "\<exists>s'. proc_exec sample_env (ram_disk 8) sample_drivers [47] [0] 2 (sample_system 0) = Some (Ok (-1, s')) \<and>
     inodes (fss s') = inodes (fss (sample_system 0))"
proof -
  have "fst (fs_read (ram_disk 8) 2 64 0 (upd_inode 1 (\<lambda>n. n\<lparr>i_refs := i_refs n + 1\<rparr>) (sample_files 0 sample_disk))) \<noteq> 64"
    using sample_root(3) sample_root(1)
    by (simp add: fs_read_def dzfs_read_def inode_at_def upd_inode_def sample_files_def folder_inode_def
        DZFS_ERR_ARGUMENT_def DZFS_ENTITY_FOLDER_def DZFS_ENTITY_FILE_def del: sample_simps)
  then show ?thesis
    using proc_exec_rejects [of "sample_system 0" "ram_disk 8" "[47]" 2 2] sample_open_root sample_refs sample_inode_inv
    by simp blast
qed

end
