(* ===== verification/Printf.thy ===== *)
theory Printf
  imports Memory
begin

text \<open>
  The formatted output of the kernel, \<^verbatim>\<open>common/printf.c\<close>. Each function exists twice in the source: the \<open>k\<close> functions
  print on the console, the \<open>c\<close> functions write into a buffer with a count of the bytes that are left in it. Strings
  are values (\<open>None\<close> is a NULL pointer) and the arithmetic on doubles is a parameter.
\<close>

section \<open>Numbers\<close>

definition pf_digit :: "u64 \<Rightarrow> u8" where
  "pf_digit i = [48, 49, 50, 51, 52, 53, 54, 55, 56, 57, 97, 98, 99, 100, 101, 102] ! unat i"

text \<open>The digits of a number from the last one on; the loop does not end for the bases 0 and 1, which no caller uses.\<close>

partial_function (option) digit_loop :: "u64 \<Rightarrow> u64 \<Rightarrow> u8 list option" where
  "digit_loop x base =
     (if x div base = 0 then Some [pf_digit (x mod base)]
      else Option.bind (digit_loop (x div base) base) (\<lambda>ds. Some (pf_digit (x mod base) # ds)))"

definition number_buf :: "u64 \<Rightarrow> u64 \<Rightarrow> bool \<Rightarrow> u8 list option" where
  "number_buf xx base sign =
     (let neg = (sign \<and> sint xx < 0); x = (if neg then - xx else xx)
      in map_option (\<lambda>ds. ds @ (if neg then [45] else [])) (digit_loop x base))"

text \<open>Filling up to a width, which is an \<^verbatim>\<open>int\<close>.\<close>

definition pad_buf :: "u32 \<Rightarrow> u8 \<Rightarrow> u8 list \<Rightarrow> u8 list" where
  "pad_buf width pad buf = buf @ replicate (nat (sint width) - length buf) pad"

text \<open>The array for the digits has 20 elements.\<close>

definition checked_buf :: "u8 list option \<Rightarrow> u8 list outcome option" where
  "checked_buf b = map_option (\<lambda>buf. if length buf > 20 then Panic ''buf overrun'' else Ok (rev buf)) b"

definition ptr_chars :: "u64 \<Rightarrow> u8 list" where
  "ptr_chars x = [48, 120] @ map (\<lambda>i. pf_digit (drop_bit 60 (push_bit (4 * i) x))) [0..<16]"

text \<open>What the source uses of doubles.\<close>

record 'f double_ops =
  dbl_negative :: "'f \<Rightarrow> bool"
  dbl_negate :: "'f \<Rightarrow> 'f"
  dbl_trunc :: "'f \<Rightarrow> u64"
  dbl_minus :: "'f \<Rightarrow> u64 \<Rightarrow> 'f"
  dbl_times10 :: "'f \<Rightarrow> 'f"
  dbl_int :: "'f \<Rightarrow> u32"
  dbl_minus_int :: "'f \<Rightarrow> u32 \<Rightarrow> 'f"
  dbl_is_zero :: "'f \<Rightarrow> bool"
  dbl_diff :: "'f \<Rightarrow> 'f \<Rightarrow> 'f"

primrec frac_digits :: "'f double_ops \<Rightarrow> nat \<Rightarrow> 'f \<Rightarrow> u8 list" where
  "frac_digits ops 0 f = []"
| "frac_digits ops (Suc n) f =
     (let f1 = dbl_times10 ops f; digit = dbl_int ops f1
      in (48 + ucast digit) # frac_digits ops n (dbl_minus_int ops f1 digit))"

section \<open>Format strings\<close>

definition fmt_at :: "u8 list \<Rightarrow> nat \<Rightarrow> u8" where
  "fmt_at fmt i = (if i < length fmt then fmt ! i else 0)"

function parse_width :: "u8 list \<Rightarrow> nat \<Rightarrow> u32 \<Rightarrow> u32 \<times> nat" where
  "parse_width fmt i width =
     (if fmt_at fmt i \<ge> 48 \<and> fmt_at fmt i \<le> 57 then parse_width fmt (i + 1) (width * 10 + (ucast (fmt_at fmt i) - 48))
      else (width, i))"
  by auto
termination
  by (relation "measure (\<lambda>(fmt, i, width). length fmt - i)") (auto simp: fmt_at_def split: if_splits)

declare parse_width.simps [simp del]

datatype conversion = Conv_d | Conv_ld | Conv_u | Conv_lu | Conv_x | Conv_lx | Conv_p | Conv_s | Conv_f
  | Conv_percent | Conv_end | Conv_other u8

text \<open>The chain of tests on the three characters, with the number of extra characters that the conversion takes.\<close>

definition conversion_of :: "u8 \<Rightarrow> u8 \<Rightarrow> u8 \<Rightarrow> conversion \<times> nat" where
  "conversion_of c0 c1 c2 =
     (if c0 = 100 then (Conv_d, 0)
      else if c0 = 108 \<and> c1 = 100 then (Conv_ld, 1)
      else if c0 = 108 \<and> c1 = 108 \<and> c2 = 100 then (Conv_ld, 2)
      else if c0 = 117 \<or> c0 = 105 then (Conv_u, 0)
      else if c0 = 108 \<and> c1 = 117 then (Conv_lu, 1)
      else if c0 = 108 \<and> c1 = 108 \<and> c2 = 117 then (Conv_lu, 2)
      else if c0 = 122 \<and> c1 = 117 then (Conv_lu, 1)
      else if c0 = 120 then (Conv_x, 0)
      else if c0 = 108 \<and> c1 = 120 then (Conv_lx, 1)
      else if c0 = 108 \<and> c1 = 108 \<and> c2 = 120 then (Conv_lx, 2)
      else if c0 = 112 then (Conv_p, 0)
      else if c0 = 115 then (Conv_s, 0)
      else if c0 = 102 then (Conv_f, 0)
      else if c0 = 108 \<and> c1 = 102 then (Conv_f, 1)
      else if c0 = 37 then (Conv_percent, 0)
      else if c0 = 0 then (Conv_end, 0)
      else (Conv_other c0, 0))"

record directive =
  d_width :: u32
  d_pad :: u8
  d_conv :: conversion
  d_last :: nat

definition parse_directive :: "u8 list \<Rightarrow> nat \<Rightarrow> directive" where
  "parse_directive fmt i =
     (let (pad, i1) = (if fmt_at fmt i = 48 then (48, i + 1) else (32, i));
          (width, i2) = parse_width fmt i1 0;
          c0 = fmt_at fmt i2;
          c1 = (if c0 \<noteq> 0 then fmt_at fmt (i2 + 1) else 0);
          c2 = (if c1 \<noteq> 0 then fmt_at fmt (i2 + 2) else 0);
          (conv, extra) = conversion_of c0 c1 c2
      in \<lparr>d_width = width, d_pad = pad, d_conv = conv, d_last = i2 + extra\<rparr>)"

text \<open>The arguments; a string is given by the characters before its terminator. Reading an argument of the wrong kind, or one too many, is undefined.\<close>

datatype 'f va = VInt u64 | VStr "u8 list option" | VDouble 'f

definition va_long :: "'f va list \<Rightarrow> (u64 \<times> 'f va list) outcome" where
  "va_long ap = (case ap of VInt w # rest \<Rightarrow> Ok (w, rest) | _ \<Rightarrow> Panic ''va_arg'')"

definition va_int :: "'f va list \<Rightarrow> (u64 \<times> 'f va list) outcome" where
  "va_int ap = obind (va_long ap) (\<lambda>(w, rest). Ok (scast (ucast w :: u32), rest))"

definition va_str :: "'f va list \<Rightarrow> (u8 list option \<times> 'f va list) outcome" where
  "va_str ap = (case ap of VStr s # rest \<Rightarrow> Ok (s, rest) | _ \<Rightarrow> Panic ''va_arg'')"

definition va_double :: "'f va list \<Rightarrow> ('f \<times> 'f va list) outcome" where
  "va_double ap = (case ap of VDouble f # rest \<Rightarrow> Ok (f, rest) | _ \<Rightarrow> Panic ''va_arg'')"

definition string_of :: "u8 list option \<Rightarrow> u8 list" where
  "string_of s = (case s of None \<Rightarrow> [40, 110, 117, 108, 108, 41] | Some xs \<Rightarrow> xs)"

section \<open>The console\<close>

datatype output_mode = OUTPUT_SERIAL | OUTPUT_FLANTERM | OUTPUT_FRAMEBUFFER

text \<open>The variables of the file and what has been sent to the ports, the serial line and the terminal.\<close>

record 'f printer =
  current_output :: output_mode
  serial_initialized :: bool
  c_time_print :: bool
  print_colored :: bool
  first_print_now :: 'f
  ports :: "(u16 \<times> u8) list"
  serial_out :: "u8 list"
  term_out :: "u8 list"

definition set_output_mode :: "output_mode \<Rightarrow> 'f printer \<Rightarrow> 'f printer" where
  "set_output_mode mode st =
     (let st1 = st\<lparr>current_output := mode\<rparr> in
      if mode = OUTPUT_SERIAL \<and> \<not> serial_initialized st1
      then st1\<lparr>ports := ports st1 @ [(0x3fa, 0), (0x3fb, 0x80), (0x3f8, 12), (0x3f9, 0), (0x3fb, 3), (0x3fc, 0)],
               serial_initialized := True\<rparr>
      else st1)"

definition kputc :: "u8 \<Rightarrow> 'f printer \<Rightarrow> 'f printer" where
  "kputc c st =
     (case current_output st of
        OUTPUT_SERIAL \<Rightarrow> st\<lparr>serial_out := serial_out st @ [c]\<rparr>
      | OUTPUT_FLANTERM \<Rightarrow> st\<lparr>term_out := term_out st @ [c]\<rparr>
      | OUTPUT_FRAMEBUFFER \<Rightarrow> st)"

definition kprints :: "u8 list option \<Rightarrow> 'f printer \<Rightarrow> 'f printer" where
  "kprints s st = fold kputc (string_of s) st"

definition COLOR_RESET :: "u8 list" where "COLOR_RESET = [27, 91, 48, 109]"
definition COLOR_MAGENTA_FG :: "u8 list" where "COLOR_MAGENTA_FG = [27, 91, 51, 53, 109]"
definition COLOR_BRIGHT_YELLOW_FG :: "u8 list" where "COLOR_BRIGHT_YELLOW_FG = [27, 91, 57, 51, 109]"

definition number_color :: "bool \<Rightarrow> u8 list" where
  "number_color time_print = (if time_print then COLOR_BRIGHT_YELLOW_FG else COLOR_MAGENTA_FG)"

text \<open>The colour before and after a number.\<close>

definition kcolor_on :: "'f printer \<Rightarrow> 'f printer" where
  "kcolor_on st = (if print_colored st then kprints (Some (number_color (c_time_print st))) st else st)"

definition kcolor_off :: "'f printer \<Rightarrow> 'f printer" where
  "kcolor_off st = (if print_colored st then kprints (Some COLOR_RESET) st else st)"

definition kprintint :: "u64 \<Rightarrow> u64 \<Rightarrow> bool \<Rightarrow> 'f printer \<Rightarrow> 'f printer outcome option" where
  "kprintint xx base sign st =
     (let st1 = kcolor_on st in
      kbind (checked_buf (number_buf xx base sign)) (\<lambda>cs. Some (Ok (kcolor_off (fold kputc cs st1)))))"

definition kprintint_padded :: "u64 \<Rightarrow> u64 \<Rightarrow> bool \<Rightarrow> u32 \<Rightarrow> u8 \<Rightarrow> 'f printer \<Rightarrow> 'f printer outcome option" where
  "kprintint_padded xx base sign width pad st =
     (let st1 = kcolor_on st in
      kbind (checked_buf (map_option (pad_buf width pad) (number_buf xx base sign))) (\<lambda>cs. Some (Ok (kcolor_off (fold kputc cs st1)))))"

definition kprintptr :: "u64 \<Rightarrow> 'f printer \<Rightarrow> 'f printer" where
  "kprintptr x st = kcolor_off (fold kputc (ptr_chars x) (kcolor_on st))"

definition kprintfloat :: "'f double_ops \<Rightarrow> 'f \<Rightarrow> nat \<Rightarrow> 'f printer \<Rightarrow> 'f printer outcome option" where
  "kprintfloat ops f precision st =
     (let (f, st1) = (if dbl_negative ops f then (dbl_negate ops f, kputc 45 st) else (f, st));
          int_part = dbl_trunc ops f;
          frac_part = dbl_minus ops f int_part
      in kbind (kprintint int_part 10 False st1) (\<lambda>st2.
           Some (Ok (kcolor_off (fold kputc (frac_digits ops precision frac_part) (kputc 46 (kcolor_on st2)))))))"

text \<open>One conversion; the rest of the arguments is returned.\<close>

definition kconvert :: "'f double_ops \<Rightarrow> directive \<Rightarrow> 'f va list \<Rightarrow> 'f printer \<Rightarrow> ('f va list \<times> 'f printer) outcome option" where
  "kconvert ops d ap st =
     (let number = (\<lambda>va base sign. kbind (Some va) (\<lambda>(w, rest).
            kbind (kprintint w base sign st) (\<lambda>st1. Some (Ok (rest, st1)))));
          hex = (\<lambda>va. kbind (Some va) (\<lambda>(w, rest).
            kbind (if 0 < sint (d_width d) then kprintint_padded w 16 False (d_width d) (d_pad d) st else kprintint w 16 False st)
              (\<lambda>st1. Some (Ok (rest, st1)))))
      in case d_conv d of
           Conv_d \<Rightarrow> number (va_int ap) 10 True
         | Conv_ld \<Rightarrow> number (va_long ap) 10 True
         | Conv_u \<Rightarrow> number (va_int ap) 10 False
         | Conv_lu \<Rightarrow> number (va_long ap) 10 False
         | Conv_x \<Rightarrow> hex (va_int ap)
         | Conv_lx \<Rightarrow> hex (va_long ap)
         | Conv_p \<Rightarrow> kbind (Some (va_long ap)) (\<lambda>(w, rest). Some (Ok (rest, kprintptr w st)))
         | Conv_s \<Rightarrow> kbind (Some (va_str ap)) (\<lambda>(s, rest). Some (Ok (rest, kprints s st)))
         | Conv_f \<Rightarrow> kbind (Some (va_double ap)) (\<lambda>(f, rest). kbind (kprintfloat ops f 6 st) (\<lambda>st1. Some (Ok (rest, st1))))
         | Conv_percent \<Rightarrow> Some (Ok (ap, kputc 37 st))
         | Conv_end \<Rightarrow> Some (Ok (ap, st))
         | Conv_other c \<Rightarrow> Some (Ok (ap, kputc c (kputc 37 st))))"

lemma parse_width_advances: "i \<le> snd (parse_width fmt i width)"
proof (induction fmt i width rule: parse_width.induct)
  case (1 fmt i width)
  then show ?case by (subst parse_width.simps) auto
qed

lemma parse_directive_advances: "i \<le> d_last (parse_directive fmt i)"
proof -
  have "i + 1 \<le> snd (parse_width fmt (i + 1) 0)" "i \<le> snd (parse_width fmt i 0)" by (rule parse_width_advances)+
  then show ?thesis by (auto simp: parse_directive_def Let_def split: prod.splits)
qed

function kvprintf_from :: "'f double_ops \<Rightarrow> u8 list \<Rightarrow> nat \<Rightarrow> 'f va list \<Rightarrow> 'f printer \<Rightarrow> 'f printer outcome option" where
  "kvprintf_from ops fmt i ap st =
     (if fmt_at fmt i = 0 then Some (Ok st)
      else if fmt_at fmt i \<noteq> 37 then kvprintf_from ops fmt (i + 1) ap (kputc (fmt_at fmt i) st)
      else
        let d = parse_directive fmt (i + 1) in
        if d_conv d = Conv_end then Some (Ok st)
        else kbind (kconvert ops d ap st) (\<lambda>(ap1, st1). kvprintf_from ops fmt (d_last d + 1) ap1 st1))"
  by auto
termination
proof (relation "measure (\<lambda>(ops, fmt, i, ap, st). length fmt - i)")
  fix ops :: "'f double_ops" and fmt i ap st d ap' st'
  assume a: "fmt_at fmt i \<noteq> 0" "d = parse_directive fmt (i + 1)"
  have "i < length fmt" using a(1) by (simp add: fmt_at_def split: if_splits)
  moreover have "i < d_last d" using parse_directive_advances [of "i + 1" fmt] a(2) by simp
  ultimately show "((ops, fmt, d_last d + 1, ap', st'), ops, fmt, i, ap, st) \<in> measure (\<lambda>(ops, fmt, i, ap, st). length fmt - i)" by simp
qed (auto simp: fmt_at_def split: if_splits)

declare kvprintf_from.simps [simp del]

definition kvprintf :: "'f double_ops \<Rightarrow> u8 list \<Rightarrow> 'f va list \<Rightarrow> 'f printer \<Rightarrow> 'f printer outcome option" where
  "kvprintf ops fmt ap st = kvprintf_from ops fmt 0 ap st"

text \<open>The lock that \<^verbatim>\<open>kprintf\<close> and \<^verbatim>\<open>ktprintf\<close> take is held within the call only.\<close>

definition kprintf :: "'f double_ops \<Rightarrow> u8 list \<Rightarrow> 'f va list \<Rightarrow> 'f printer \<Rightarrow> 'f printer outcome option" where
  "kprintf ops fmt ap st = kvprintf ops fmt ap st"

text \<open>The time in seconds is an argument; the prefix is \<^verbatim>\<open>[%lf] \<close>.\<close>

definition time_prefix :: "u8 list" where
  "time_prefix = [91, 37, 108, 102, 93, 32]"

definition time_diff :: "'f double_ops \<Rightarrow> 'f \<Rightarrow> 'f printer \<Rightarrow> 'f \<times> 'f printer" where
  "time_diff ops now_s st =
     (let st1 = (if dbl_is_zero ops (first_print_now st) then st\<lparr>first_print_now := now_s\<rparr> else st)
      in (dbl_diff ops now_s (first_print_now st1), st1\<lparr>c_time_print := True\<rparr>))"

definition ktprintf :: "'f double_ops \<Rightarrow> 'f \<Rightarrow> u8 list \<Rightarrow> 'f va list \<Rightarrow> 'f printer \<Rightarrow> 'f printer outcome option" where
  "ktprintf ops now_s fmt ap st =
     (let (diff, st1) = time_diff ops now_s st in
      kbind (kprintf ops time_prefix [VDouble diff] st1) (\<lambda>st2. kvprintf ops fmt ap (st2\<lparr>c_time_print := False\<rparr>)))"

definition hex_chars :: "u8 list \<Rightarrow> u8 list" where
  "hex_chars buf = concat (map (\<lambda>b. [pf_digit (ucast (drop_bit 4 b AND 0xF)), pf_digit (ucast (b AND 0xF))]) buf)"

definition khexdump :: "u8 list \<Rightarrow> 'f printer \<Rightarrow> 'f printer" where
  "khexdump buf st = kputc 10 (fold kputc (hex_chars buf) st)"

section \<open>Printing into a buffer\<close>

text \<open>The memory and \<^verbatim>\<open>*rem\<close>, the bytes that are left; \<open>None\<close> is a NULL pointer.\<close>

record cbuf =
  cmem :: memory
  crem :: "int option"

definition cputc :: "u64 \<Rightarrow> u8 \<Rightarrow> cbuf \<Rightarrow> nat \<times> cbuf" where
  "cputc dest c b =
     (case crem b of
        None \<Rightarrow> (0, b)
      | Some r \<Rightarrow> if r \<ge> 1 then (1, b\<lparr>cmem := (cmem b)(dest := c), crem := Some (r - 1)\<rparr>) else (0, b))"

text \<open>A loop of \<^verbatim>\<open>len += cputc(dest++, rem, c)\<close>.\<close>

primrec cputs :: "u64 \<Rightarrow> u8 list \<Rightarrow> cbuf \<Rightarrow> nat \<times> cbuf" where
  "cputs dest [] b = (0, b)"
| "cputs dest (c # cs) b =
     (let (n, b1) = cputc dest c b; (m, b2) = cputs (dest + 1) cs b1 in (n + m, b2))"

text \<open>The characters of a number between its colours, which are printed by \<^verbatim>\<open>cprintf\<close>.\<close>

definition ccolored :: "'f printer \<Rightarrow> u64 \<Rightarrow> u8 list \<Rightarrow> cbuf \<Rightarrow> nat \<times> cbuf" where
  "ccolored st dest cs b =
     (let (t1, b1) = (if print_colored st then cputs dest (number_color (c_time_print st)) b else (0, b));
          dest1 = dest + of_nat t1;
          (t2, b2) = cputs dest1 cs b1;
          dest2 = dest1 + of_nat (length cs);
          (t3, b3) = (if print_colored st then cputs dest2 COLOR_RESET b2 else (0, b2))
      in (t1 + t2 + t3, b3))"

definition cprintint :: "'f printer \<Rightarrow> u64 \<Rightarrow> u64 \<Rightarrow> u64 \<Rightarrow> bool \<Rightarrow> cbuf \<Rightarrow> (nat \<times> cbuf) outcome option" where
  "cprintint st dest xx base sign b =
     kbind (checked_buf (number_buf xx base sign)) (\<lambda>cs. Some (Ok (ccolored st dest cs b)))"

definition cprintint_padded :: "'f printer \<Rightarrow> u64 \<Rightarrow> u64 \<Rightarrow> u64 \<Rightarrow> bool \<Rightarrow> u32 \<Rightarrow> u8 \<Rightarrow> cbuf \<Rightarrow> (nat \<times> cbuf) outcome option" where
  "cprintint_padded st dest xx base sign width pad b =
     kbind (checked_buf (map_option (pad_buf width pad) (number_buf xx base sign))) (\<lambda>cs. Some (Ok (ccolored st dest cs b)))"

definition cprintptr :: "'f printer \<Rightarrow> u64 \<Rightarrow> u64 \<Rightarrow> cbuf \<Rightarrow> nat \<times> cbuf" where
  "cprintptr st dest x b = ccolored st dest (ptr_chars x) b"

definition cprintfloat :: "'f double_ops \<Rightarrow> 'f printer \<Rightarrow> u64 \<Rightarrow> 'f \<Rightarrow> nat \<Rightarrow> cbuf \<Rightarrow> (nat \<times> cbuf) outcome option" where
  "cprintfloat ops st dest f precision b =
     (let (t0, b0) = (if dbl_negative ops f then cputc dest 45 b else (0, b));
          (f, dest1) = (if dbl_negative ops f then (dbl_negate ops f, dest + 1) else (f, dest));
          int_part = dbl_trunc ops f;
          frac_part = dbl_minus ops f int_part
      in kbind (cprintint st dest1 int_part 10 False b0) (\<lambda>(t1, b1).
           let (t2, b2) = ccolored st (dest1 + of_nat t1) (46 # frac_digits ops precision frac_part) b1
           in Some (Ok (t0 + t1 + t2, b2))))"

text \<open>One conversion: the rest of the arguments, the next \<^verbatim>\<open>dest\<close>, the number of bytes written and the buffer.\<close>

definition cconvert ::
  "'f double_ops \<Rightarrow> 'f printer \<Rightarrow> directive \<Rightarrow> u64 \<Rightarrow> 'f va list \<Rightarrow> cbuf \<Rightarrow> ('f va list \<times> u64 \<times> nat \<times> cbuf) outcome option" where
  "cconvert ops st d dest ap b =
     (let done = (\<lambda>rest (t, b1). Some (Ok (rest, dest + of_nat t, t, b1)));
          number = (\<lambda>va base sign. kbind (Some va) (\<lambda>(w, rest). kbind (cprintint st dest w base sign b) (done rest)));
          hex = (\<lambda>va. kbind (Some va) (\<lambda>(w, rest).
            kbind (if 0 < sint (d_width d) then cprintint_padded st dest w 16 False (d_width d) (d_pad d) b
                   else cprintint st dest w 16 False b) (done rest)));
          chars = (\<lambda>rest cs. let (t, b1) = cputs dest cs b in Some (Ok (rest, dest + of_nat (length cs), t, b1)))
      in case d_conv d of
           Conv_d \<Rightarrow> number (va_int ap) 10 True
         | Conv_ld \<Rightarrow> number (va_long ap) 10 True
         | Conv_u \<Rightarrow> number (va_int ap) 10 False
         | Conv_lu \<Rightarrow> number (va_long ap) 10 False
         | Conv_x \<Rightarrow> hex (va_int ap)
         | Conv_lx \<Rightarrow> hex (va_long ap)
         | Conv_p \<Rightarrow> kbind (Some (va_long ap)) (\<lambda>(w, rest). done rest (cprintptr st dest w b))
         | Conv_s \<Rightarrow> kbind (Some (va_str ap)) (\<lambda>(s, rest). chars rest (string_of s))
         | Conv_f \<Rightarrow> kbind (Some (va_double ap)) (\<lambda>(f, rest). kbind (cprintfloat ops st dest f 6 b) (done rest))
         | Conv_percent \<Rightarrow> chars ap [37]
         | Conv_end \<Rightarrow> Some (Ok (ap, dest, 0, b))
         | Conv_other c \<Rightarrow> chars ap [37, c])"

function cvprintf_from ::
  "'f double_ops \<Rightarrow> 'f printer \<Rightarrow> u8 list \<Rightarrow> nat \<Rightarrow> u64 \<Rightarrow> nat \<Rightarrow> 'f va list \<Rightarrow> cbuf \<Rightarrow> (nat \<times> cbuf) outcome option" where
  "cvprintf_from ops st fmt i dest len ap b =
     (if fmt_at fmt i = 0 then Some (Ok (len, b))
      else if fmt_at fmt i \<noteq> 37 then
        let (n, b1) = cputc dest (fmt_at fmt i) b in cvprintf_from ops st fmt (i + 1) (dest + 1) (len + n) ap b1
      else
        let d = parse_directive fmt (i + 1) in
        if d_conv d = Conv_end then Some (Ok (len, b))
        else kbind (cconvert ops st d dest ap b) (\<lambda>(ap1, dest1, t, b1).
               cvprintf_from ops st fmt (d_last d + 1) dest1 (len + t) ap1 b1))"
  by auto
termination
proof (relation "measure (\<lambda>(ops, st, fmt, i, dest, len, ap, b). length fmt - i)")
  fix ops :: "'f double_ops" and st fmt i dest len ap b d ap' dest' len' b'
  assume a: "fmt_at fmt i \<noteq> 0" "d = parse_directive fmt (i + 1)"
  have "i < length fmt" using a(1) by (simp add: fmt_at_def split: if_splits)
  moreover have "i < d_last d" using parse_directive_advances [of "i + 1" fmt] a(2) by simp
  ultimately show "((ops, st, fmt, d_last d + 1, dest', len', ap', b'), ops, st, fmt, i, dest, len, ap, b)
      \<in> measure (\<lambda>(ops, st, fmt, i, dest, len, ap, b). length fmt - i)" by simp
qed (auto simp: fmt_at_def split: if_splits)

declare cvprintf_from.simps [simp del]

definition cvprintf ::
  "'f double_ops \<Rightarrow> 'f printer \<Rightarrow> u64 \<Rightarrow> u8 list \<Rightarrow> 'f va list \<Rightarrow> cbuf \<Rightarrow> (nat \<times> cbuf) outcome option" where
  "cvprintf ops st dest fmt ap b = cvprintf_from ops st fmt 0 dest 0 ap b"

definition cprintf ::
  "'f double_ops \<Rightarrow> 'f printer \<Rightarrow> u64 \<Rightarrow> u8 list \<Rightarrow> 'f va list \<Rightarrow> cbuf \<Rightarrow> (nat \<times> cbuf) outcome option" where
  "cprintf ops st dest fmt ap b = cvprintf ops st dest fmt ap b"

text \<open>\<^verbatim>\<open>snprintf\<close> switches the colours off for its call.\<close>

definition snprintf ::
  "'f double_ops \<Rightarrow> 'f printer \<Rightarrow> u64 \<Rightarrow> u32 \<Rightarrow> u8 list \<Rightarrow> 'f va list \<Rightarrow> memory \<Rightarrow> (nat \<times> memory) outcome option" where
  "snprintf ops st dest dest_len fmt ap m =
     kbind (cvprintf ops (st\<lparr>print_colored := False\<rparr>) dest fmt ap \<lparr>cmem = m, crem = Some (sint dest_len)\<rparr>)
       (\<lambda>(len, b). Some (Ok (len, cmem b)))"

definition ctprintf ::
  "'f double_ops \<Rightarrow> 'f \<Rightarrow> u64 \<Rightarrow> u8 list \<Rightarrow> 'f va list \<Rightarrow> 'f printer \<Rightarrow> cbuf \<Rightarrow> (nat \<times> 'f printer \<times> cbuf) outcome option" where
  "ctprintf ops now_s dest fmt ap st b =
     (let (diff, st1) = time_diff ops now_s st in
      kbind (cprintf ops st1 dest time_prefix [VDouble diff] b) (\<lambda>(t1, b1).
        let st2 = st1\<lparr>c_time_print := False\<rparr> in
        kbind (cvprintf ops st2 (dest + of_nat t1) fmt ap b1) (\<lambda>(t2, b2). Some (Ok (t1 + t2, st2, b2)))))"

definition chexdump :: "u64 \<Rightarrow> u8 list \<Rightarrow> cbuf \<Rightarrow> nat \<times> cbuf" where
  "chexdump dest buf b = cputs dest (hex_chars buf @ [10]) b"

end
