(* ===== verification/Libc_Stdio.thy ===== *)
theory Libc_Stdio
  imports Printf
begin

text \<open>
  The formatted input and output of user programs, \<^verbatim>\<open>libc/src/stdio.c\<close>. The printing functions write their characters one by one
  to a descriptor and do not look at the results; they are modelled by the list of these characters. Numbers are converted by the same
  loop as in the kernel, and doubles are treated as there.
\<close>

section \<open>Printing to a descriptor\<close>

definition print_int :: "u64 \<Rightarrow> u64 \<Rightarrow> bool \<Rightarrow> u8 list outcome option" where
  "print_int xx base sign =
     map_option (\<lambda>buf. if length buf > 64 then Panic ''buf overrun'' else Ok (rev buf)) (number_buf xx base sign)"

definition print_int_padded :: "u64 \<Rightarrow> u64 \<Rightarrow> bool \<Rightarrow> u32 \<Rightarrow> u8 \<Rightarrow> u8 list outcome option" where
  "print_int_padded xx base sign width pad =
     map_option (\<lambda>buf. if length (pad_buf width pad buf) > 32 then Panic ''buf overrun'' else Ok (rev (pad_buf width pad buf)))
       (number_buf xx base sign)"

definition print_float :: "'f double_ops \<Rightarrow> 'f \<Rightarrow> nat \<Rightarrow> u8 list outcome option" where
  "print_float ops f precision =
     (let (s, f) = (if dbl_negative ops f then ([45], dbl_negate ops f) else ([], f));
          int_part = dbl_trunc ops f;
          frac_part = dbl_minus ops f int_part
      in kbind (print_int int_part 10 False) (\<lambda>cs. Some (Ok (s @ cs @ 46 # frac_digits ops precision frac_part))))"

datatype uconv = U_int | U_uint | U_long | U_ulong | U_hex | U_lhex | U_ptr | U_str | U_char | U_float
  | U_pad u8 | U_percent | U_end | U_other u8

definition va_uint :: "'f va list \<Rightarrow> (u64 \<times> 'f va list) outcome" where
  "va_uint ap = obind (va_long ap) (\<lambda>(w, rest). Ok (ucast (ucast w :: u32), rest))"

definition fconversion :: "u8 \<Rightarrow> u8 \<Rightarrow> u8 \<Rightarrow> uconv \<times> nat" where
  "fconversion c0 c1 c2 =
     (if c0 = 105 then (U_int, 0)
      else if c0 = 100 then (U_int, 0)
      else if c0 = 117 then (U_uint, 0)
      else if c0 = 108 \<and> c1 = 100 then (U_long, 1)
      else if c0 = 108 \<and> c1 = 108 \<and> c2 = 100 then (U_long, 2)
      else if c0 = 108 \<and> c1 = 117 then (U_ulong, 1)
      else if c0 = 108 \<and> c1 = 108 \<and> c2 = 117 then (U_ulong, 2)
      else if c0 = 122 \<and> c1 = 117 then (U_ulong, 1)
      else if c0 = 120 then (U_hex, 0)
      else if c0 = 108 \<and> c1 = 120 then (U_lhex, 1)
      else if c0 = 108 \<and> c1 = 108 \<and> c2 = 120 then (U_lhex, 2)
      else if c0 = 112 then (U_ptr, 0)
      else if c0 = 115 then (U_str, 0)
      else if c0 = 99 then (U_char, 0)
      else if c0 = 102 then (U_float, 0)
      else if c0 = 108 \<and> c1 = 102 then (U_float, 1)
      else if c0 = 37 then (U_percent, 0)
      else if c0 = 0 then (U_end, 0)
      else (U_other c0, 0))"

text \<open>The characters after the percent sign; the conversion and the index of its last character.\<close>

definition look3 :: "(u8 \<Rightarrow> u8 \<Rightarrow> u8 \<Rightarrow> uconv \<times> nat) \<Rightarrow> u8 list \<Rightarrow> nat \<Rightarrow> uconv \<times> nat" where
  "look3 conv fmt i =
     (let c0 = fmt_at fmt i;
          c1 = (if c0 \<noteq> 0 then fmt_at fmt (i + 1) else 0);
          c2 = (if c1 \<noteq> 0 then fmt_at fmt (i + 2) else 0);
          (c, extra) = conv c0 c1 c2
      in (c, i + extra))"

text \<open>
  The call of \<^verbatim>\<open>parse_width\<close> in \<^verbatim>\<open>vfprintf\<close> is commented out: the width is always 0, and only a 0 after the percent
  sign is skipped.
\<close>

definition fdirective :: "u8 list \<Rightarrow> nat \<Rightarrow> uconv \<times> nat" where
  "fdirective fmt i = look3 fconversion fmt (if fmt_at fmt i = 48 then i + 1 else i)"

definition fconvert :: "'f double_ops \<Rightarrow> uconv \<Rightarrow> 'f va list \<Rightarrow> ('f va list \<times> u8 list) outcome option" where
  "fconvert ops c ap =
     (let number = (\<lambda>va base sign. kbind (Some va) (\<lambda>(w, rest). kbind (print_int w base sign) (\<lambda>cs. Some (Ok (rest, cs)))))
      in case c of
           U_int \<Rightarrow> number (va_int ap) 10 True
         | U_uint \<Rightarrow> number (va_uint ap) 10 False
         | U_long \<Rightarrow> number (va_long ap) 10 True
         | U_ulong \<Rightarrow> number (va_long ap) 10 False
         | U_hex \<Rightarrow> number (va_uint ap) 16 False
         | U_lhex \<Rightarrow> number (va_long ap) 16 False
         | U_ptr \<Rightarrow> kbind (Some (va_long ap)) (\<lambda>(w, rest). Some (Ok (rest, ptr_chars w)))
         | U_str \<Rightarrow> kbind (Some (va_str ap)) (\<lambda>(s, rest). Some (Ok (rest, string_of s)))
         | U_char \<Rightarrow> kbind (Some (va_long ap)) (\<lambda>(w, rest). Some (Ok (rest, [ucast w])))
         | U_float \<Rightarrow> kbind (Some (va_double ap)) (\<lambda>(f, rest). kbind (print_float ops f 6) (\<lambda>cs. Some (Ok (rest, cs))))
         | U_percent \<Rightarrow> Some (Ok (ap, [37]))
         | U_other c0 \<Rightarrow> Some (Ok (ap, [37, c0]))
         | _ \<Rightarrow> Some (Ok (ap, [])))"

lemma look3_advances: "i \<le> snd (look3 conv fmt i)"
  by (simp add: look3_def Let_def case_prod_unfold)

lemma fdirective_advances: "i \<le> snd (fdirective fmt i)"
  unfolding fdirective_def using look3_advances [of "i + 1" fconversion fmt] look3_advances [of i fconversion fmt] by simp

function vfprintf_from :: "'f double_ops \<Rightarrow> u8 list \<Rightarrow> nat \<Rightarrow> 'f va list \<Rightarrow> u8 list outcome option" where
  "vfprintf_from ops fmt i ap =
     (if fmt_at fmt i = 0 then Some (Ok [])
      else if fmt_at fmt i \<noteq> 37 then kbind (vfprintf_from ops fmt (i + 1) ap) (\<lambda>cs. Some (Ok (fmt_at fmt i # cs)))
      else
        let c = fst (fdirective fmt (i + 1)); j = snd (fdirective fmt (i + 1)) in
        if c = U_end then Some (Ok [])
        else kbind (fconvert ops c ap) (\<lambda>(ap1, cs). kbind (vfprintf_from ops fmt (j + 1) ap1) (\<lambda>cs'. Some (Ok (cs @ cs')))))"
  by auto
termination
proof (relation "measure (\<lambda>(ops, fmt, i, ap). length fmt - i)")
  fix ops :: "'f double_ops" and fmt i ap j ap'
  assume a: "fmt_at fmt i \<noteq> 0" "j = snd (fdirective fmt (i + 1))"
  have "i < length fmt" using a(1) by (simp add: fmt_at_def split: if_splits)
  moreover have "i < j" using fdirective_advances [of "i + 1" fmt] a(2) by simp
  ultimately show "((ops, fmt, j + 1, ap'), ops, fmt, i, ap) \<in> measure (\<lambda>(ops, fmt, i, ap). length fmt - i)" by simp
qed (auto simp: fmt_at_def split: if_splits)

declare vfprintf_from.simps [simp del]

definition vfprintf :: "'f double_ops \<Rightarrow> u8 list \<Rightarrow> 'f va list \<Rightarrow> u8 list outcome option" where
  "vfprintf ops fmt ap = vfprintf_from ops fmt 0 ap"

definition DEFAULT_STDOUT :: int where "DEFAULT_STDOUT = 1"

definition fprintf :: "'f double_ops \<Rightarrow> int \<Rightarrow> u8 list \<Rightarrow> 'f va list \<Rightarrow> (int \<times> u8 list) outcome option" where
  "fprintf ops fd fmt ap = kbind (vfprintf ops fmt ap) (\<lambda>cs. Some (Ok (fd, cs)))"

definition printf :: "'f double_ops \<Rightarrow> u8 list \<Rightarrow> 'f va list \<Rightarrow> (int \<times> u8 list) outcome option" where
  "printf ops fmt ap = kbind (vfprintf ops fmt ap) (\<lambda>cs. Some (Ok (DEFAULT_STDOUT, cs)))"

definition puts :: "u8 list \<Rightarrow> int \<times> u8 list" where
  "puts s = (DEFAULT_STDOUT, s @ [10])"

definition hexdump :: "u8 list \<Rightarrow> int \<times> u8 list" where
  "hexdump buf = (DEFAULT_STDOUT, hex_chars buf @ [10])"

text \<open>
  \<^verbatim>\<open>gets\<close>, with the bytes that can be read one by one (none is the end of the input or an error). The results are
  the string, the bytes that are left and what is echoed.
\<close>

fun gets_loop :: "int \<Rightarrow> u8 list \<Rightarrow> u8 list \<Rightarrow> u8 list \<times> u8 list \<times> u8 list" where
  "gets_loop mx buf [] = (buf, [], [])"
| "gets_loop mx buf (c # inp) =
     (if \<not> int (length buf) + 1 < mx then (buf, c # inp, [])
      else if c = 127 then
        (if buf = [] then gets_loop mx buf inp
         else let (s, rest, echo) = gets_loop mx (butlast buf) inp in (s, rest, [8, 32, 8] @ echo))
      else if c = 10 \<or> c = 13 then (buf @ [c], inp, [])
      else gets_loop mx (buf @ [c]) inp)"

definition gets :: "int \<Rightarrow> u8 list \<Rightarrow> u8 list \<times> u8 list \<times> u8 list" where
  "gets mx inp = gets_loop mx [] inp"

section \<open>Printing into a string\<close>

text \<open>
  The place \<^verbatim>\<open>str\<close> that is written next, and the memory. Numbers stop before \<^verbatim>\<open>string_end\<close>, everything
  else after it.
\<close>

primrec sput_before :: "u64 \<Rightarrow> u8 list \<Rightarrow> u64 \<times> memory \<Rightarrow> u64 \<times> memory" where
  "sput_before str_end [] s = s"
| "sput_before str_end (c # cs) s =
     (if fst s \<noteq> str_end then sput_before str_end cs (fst s + 1, (snd s)(fst s := c)) else s)"

primrec sput_upto :: "u64 \<Rightarrow> u8 list \<Rightarrow> u64 \<times> memory \<Rightarrow> u64 \<times> memory" where
  "sput_upto string_end [] s = s"
| "sput_upto string_end (c # cs) s =
     (if fst s \<le> string_end then sput_upto string_end cs (fst s + 1, (snd s)(fst s := c)) else s)"

text \<open>The padding is the difference of two characters; the array is filled with zeros (the character) at first.\<close>

definition sprint_buf :: "u64 \<Rightarrow> u64 \<Rightarrow> bool \<Rightarrow> int \<Rightarrow> u8 list option" where
  "sprint_buf xx base sign padding =
     (let neg = (sign \<and> sint xx < 0); x = (if neg then - xx else xx)
      in map_option (\<lambda>ds. ds @ replicate (nat padding - length ds) 48 @ (if neg then [45] else [])) (digit_loop x base))"

definition sprint_int :: "u64 \<Rightarrow> u64 \<Rightarrow> u64 \<Rightarrow> bool \<Rightarrow> int \<Rightarrow> u64 \<times> memory \<Rightarrow> (u64 \<times> memory) outcome option" where
  "sprint_int str_end xx base sign padding s =
     map_option (\<lambda>buf. if length buf > 64 then Panic ''buf overrun'' else Ok (sput_before str_end (rev buf) s))
       (sprint_buf xx base sign padding)"

definition sprint_ptr :: "u64 \<Rightarrow> u64 \<Rightarrow> u64 \<times> memory \<Rightarrow> u64 \<times> memory" where
  "sprint_ptr str_end x s = sput_before str_end (ptr_chars x) s"

definition sconversion :: "u8 \<Rightarrow> u8 \<Rightarrow> u8 \<Rightarrow> uconv \<times> nat" where
  "sconversion c0 c1 c2 =
     (if c0 = 100 \<or> c0 = 105 then (U_int, 0)
      else if c0 = 46 \<and> c2 = 100 then (U_pad c1, 2)
      else if c0 = 108 \<and> c1 = 100 then (U_long, 1)
      else if c0 = 108 \<and> c1 = 108 \<and> c2 = 100 then (U_long, 2)
      else if c0 = 117 then (U_uint, 0)
      else if c0 = 108 \<and> c1 = 117 then (U_ulong, 1)
      else if c0 = 108 \<and> c1 = 108 \<and> c2 = 117 then (U_ulong, 2)
      else if c0 = 120 then (U_hex, 0)
      else if c0 = 108 \<and> c1 = 120 then (U_lhex, 1)
      else if c0 = 108 \<and> c1 = 108 \<and> c2 = 120 then (U_lhex, 2)
      else if c0 = 112 then (U_ptr, 0)
      else if c0 = 115 then (U_str, 0)
      else if c0 = 37 then (U_percent, 0)
      else if c0 = 99 then (U_char, 0)
      else if c0 = 0 then (U_end, 0)
      else (U_other c0, 0))"

definition sconvert :: "u64 \<Rightarrow> uconv \<Rightarrow> 'f va list \<Rightarrow> u64 \<times> memory \<Rightarrow> ('f va list \<times> u64 \<times> memory) outcome option" where
  "sconvert string_end c ap s =
     (let number = (\<lambda>va base sign padding. kbind (Some va) (\<lambda>(w, rest).
            kbind (sprint_int string_end w base sign padding s) (\<lambda>s1. Some (Ok (rest, s1)))))
      in case c of
           U_int \<Rightarrow> number (va_int ap) 10 True 0
         | U_pad c1 \<Rightarrow> number (va_int ap) 10 True (int (unat c1) - 48)
         | U_long \<Rightarrow> number (va_long ap) 10 True 0
         | U_uint \<Rightarrow> number (va_uint ap) 10 False 0
         | U_ulong \<Rightarrow> number (va_long ap) 10 False 0
         | U_hex \<Rightarrow> number (va_uint ap) 16 False 0
         | U_lhex \<Rightarrow> number (va_long ap) 16 False 0
         | U_ptr \<Rightarrow> kbind (Some (va_long ap)) (\<lambda>(w, rest). Some (Ok (rest, sprint_ptr string_end w s)))
         | U_str \<Rightarrow> kbind (Some (va_str ap)) (\<lambda>(x, rest). Some (Ok (rest, sput_upto string_end (string_of x) s)))
         | U_percent \<Rightarrow> Some (Ok (ap, sput_upto string_end [37] s))
         | U_char \<Rightarrow>
             if fst s \<le> string_end
             then kbind (Some (va_long ap)) (\<lambda>(w, rest). Some (Ok (rest, sput_upto string_end [ucast w] s)))
             else Some (Ok (ap, s))
         | U_other c0 \<Rightarrow> Some (Ok (ap, sput_upto string_end [37, c0] s))
         | _ \<Rightarrow> Some (Ok (ap, s)))"

function vsnprintf_from ::
  "u64 \<Rightarrow> u8 list \<Rightarrow> nat \<Rightarrow> 'f va list \<Rightarrow> u64 \<times> memory \<Rightarrow> (u64 \<times> memory) outcome option" where
  "vsnprintf_from string_end fmt i ap s =
     (if fmt_at fmt i = 0 \<or> \<not> fst s \<le> string_end then Some (Ok s)
      else if fmt_at fmt i \<noteq> 37 then vsnprintf_from string_end fmt (i + 1) ap (fst s + 1, (snd s)(fst s := fmt_at fmt i))
      else
        let c = fst (look3 sconversion fmt (i + 1)); j = snd (look3 sconversion fmt (i + 1)) in
        if c = U_end then Some (Ok s)
        else kbind (sconvert string_end c ap s) (\<lambda>(ap1, s1). vsnprintf_from string_end fmt (j + 1) ap1 s1))"
  by auto
termination
proof (relation "measure (\<lambda>(string_end, fmt, i, ap, s). length fmt - i)")
  fix string_end :: u64 and fmt i and ap :: "'f va list" and s :: "u64 \<times> memory" and j ap' s'
  assume a: "\<not> (fmt_at fmt i = 0 \<or> \<not> fst s \<le> string_end)" "j = snd (look3 sconversion fmt (i + 1))"
  have "i < length fmt" using a(1) by (simp add: fmt_at_def split: if_splits)
  moreover have "i < j" using look3_advances [of "i + 1" sconversion fmt] a(2) by simp
  ultimately show "((string_end, fmt, j + 1, ap', s'), string_end, fmt, i, ap, s) \<in> measure (\<lambda>(string_end, fmt, i, ap, s). length fmt - i)" by simp
qed (auto simp: fmt_at_def split: if_splits)

declare vsnprintf_from.simps [simp del]

definition vsnprintf :: "u64 \<Rightarrow> u64 \<Rightarrow> u8 list \<Rightarrow> 'f va list \<Rightarrow> memory \<Rightarrow> memory outcome option" where
  "vsnprintf str sz fmt ap m =
     (if sz = 0 then Some (Ok m)
      else kbind (vsnprintf_from (str + sz - 1) fmt 0 ap (str, m)) (\<lambda>(str1, m1). Some (Ok (m1(str1 := 0)))))"

end
