(* ===== verification/Printf_Props.thy ===== *)
theory Printf_Props
  imports Printf
begin

text \<open>
  Properties of the formatted output of the kernel: the digits of a number are its value, both families of functions print the
  same string, which a reference definition gives, and \<^verbatim>\<open>snprintf\<close> stays within its buffer.
\<close>

section \<open>Digits\<close>

definition digit_of :: "u8 \<Rightarrow> nat" where
  "digit_of c = (if c \<ge> 97 then unat c - 87 else unat c - 48)"

text \<open>The number that a string of digits stands for, most significant digit first.\<close>

definition digits_value :: "nat \<Rightarrow> u8 list \<Rightarrow> nat" where
  "digits_value base cs = foldl (\<lambda>v c. v * base + digit_of c) 0 cs"

lemma digits_value_snoc [simp]: "digits_value base (cs @ [c]) = digits_value base cs * base + digit_of c"
  by (simp add: digits_value_def)

lemma pf_digit_value:
  assumes "unat i < 16"
  shows "digit_of (pf_digit i) = unat i" "pf_digit i \<noteq> 45" "pf_digit i = 48 \<longleftrightarrow> i = 0"
proof -
  have "unat i = 0 \<or> unat i = 1 \<or> unat i = 2 \<or> unat i = 3 \<or> unat i = 4 \<or> unat i = 5 \<or> unat i = 6 \<or> unat i = 7 \<or>
    unat i = 8 \<or> unat i = 9 \<or> unat i = 10 \<or> unat i = 11 \<or> unat i = 12 \<or> unat i = 13 \<or> unat i = 14 \<or> unat i = 15"
    using assms by arith
  then show "digit_of (pf_digit i) = unat i" "pf_digit i \<noteq> 45" "pf_digit i = 48 \<longleftrightarrow> i = 0"
    by (auto simp: pf_digit_def digit_of_def word_unat_eq_iff)
qed

text \<open>The loop ends; the digits read backwards are the number, without a leading zero unless it is zero.\<close>

lemma digit_loop_value:
  assumes "2 \<le> unat base" "unat base \<le> 16"
  shows "\<exists>ds. digit_loop x base = Some ds \<and> digits_value (unat base) (rev ds) = unat x \<and> ds \<noteq> [] \<and>
    (last ds = 48 \<longrightarrow> x = 0) \<and> 45 \<notin> set ds \<and> (\<forall>n. 0 < n \<longrightarrow> unat x < unat base ^ n \<longrightarrow> length ds \<le> n)"
proof (induction "unat x" arbitrary: x rule: less_induct)
  case less
  have m: "unat (x mod base) = unat x mod unat base" "unat (x div base) = unat x div unat base" by (simp_all add: unat_mod unat_div)
  have lt: "unat (x mod base) < 16" unfolding m(1) using assms by (intro less_le_trans [OF mod_less_divisor]) simp_all
  note pd = pf_digit_value [OF lt]
  have dm: "unat x = unat x div unat base * unat base + unat x mod unat base" by simp
  show ?case
  proof (cases "x div base = 0")
    case True
    then have d0: "unat x div unat base = 0" using m(2) by simp
    then have "unat x mod unat base = unat x" using dm by simp
    then have "x mod base = x" using m(1) by (simp add: word_unat_eq_iff)
    moreover have "digit_loop x base = Some [pf_digit (x mod base)]" using True by (subst digit_loop.simps) simp
    ultimately show ?thesis using pd by (auto simp: digits_value_def)
  next
    case False
    then have pos: "0 < unat x" by (metis unat_0 gr0I word_unat_eq_iff div_0)
    have "unat (x div base) < unat x" unfolding m(2) using pos assms(1) by (intro div_less_dividend) simp_all
    from less.hyps [OF this] obtain ds where ds: "digit_loop (x div base) base = Some ds" "digits_value (unat base) (rev ds) = unat (x div base)"
      "ds \<noteq> []" "last ds = 48 \<longrightarrow> x div base = 0" "45 \<notin> set ds"
      "\<forall>n. 0 < n \<longrightarrow> unat (x div base) < unat base ^ n \<longrightarrow> length ds \<le> n" by blast
    have "length (pf_digit (x mod base) # ds) \<le> n" if n: "0 < n" "unat x < unat base ^ n" for n
    proof -
      obtain k where k: "n = Suc k" using n(1) by (cases n) auto
      have "unat x div unat base < unat base ^ k" using n(2) k by (simp add: less_mult_imp_div_less mult.commute)
      moreover have "0 < k"
      proof (rule ccontr)
        assume "\<not> 0 < k"
        then show False using calculation False m(2) by (simp add: word_unat_eq_iff)
      qed
      ultimately show ?thesis using ds(6) m(2) k by simp
    qed
    moreover have "digit_loop x base = Some (pf_digit (x mod base) # ds)" using False ds(1) by (subst digit_loop.simps) simp
    moreover have "digits_value (unat base) (rev (pf_digit (x mod base) # ds)) = unat x" using ds(2) pd(1) m dm by simp
    ultimately show ?thesis using ds(3-5) False pd(2) by auto
  qed
qed

text \<open>Decimal and hexadecimal numbers fit into the 20 elements of the array.\<close>

lemma number_chars_ok:
  assumes "base = 10 \<or> base = 16 \<and> \<not> sign" "neg \<longleftrightarrow> sign \<and> sint (xx :: u64) < 0"
  shows "\<exists>cs. checked_buf (number_buf xx base sign) = Some (Ok ((if neg then [45] else []) @ cs)) \<and>
    digits_value (unat base) cs = unat (if neg then - xx else xx) \<and> cs \<noteq> [] \<and> (hd cs = 48 \<longrightarrow> xx = 0) \<and> length cs \<le> 20"
proof -
  define x where "x = (if neg then - xx else xx)"
  have b: "2 \<le> unat base" "unat base \<le> 16" using assms(1) by auto
  from digit_loop_value [OF b, of x] obtain ds where ds: "digit_loop x base = Some ds" "digits_value (unat base) (rev ds) = unat x"
    "ds \<noteq> []" "last ds = 48 \<longrightarrow> x = 0" "\<And>n. 0 < n \<Longrightarrow> unat x < unat base ^ n \<Longrightarrow> length ds \<le> n" by blast
  have x0: "x = 0 \<longleftrightarrow> xx = 0" by (simp add: x_def)
  have len: "length ds + (if neg then 1 else 0) \<le> 20"
  proof (cases neg)
    case True
    then have "unat x \<le> 2 ^ 63"
    proof -
      have "2 ^ 63 \<le> unat xx"
      proof (rule ccontr)
        assume "\<not> 2 ^ 63 \<le> unat xx"
        then have "\<not> bit (unat xx) 63" by (simp add: bit_iff_odd)
        then have "\<not> bit xx 63" by (simp add: bit_unsigned_iff)
        then show False using True bit_last_iff [of xx] unfolding assms(2) by simp
      qed
      then show ?thesis using unat_diff [of 0 xx] True by (simp add: x_def)
    qed
    then have "unat x < unat base ^ 19" using True assms(1) unfolding assms(2) by auto
    then show ?thesis using ds(5) [of 19] True by simp
  next
    case False
    have "unat x < unat base ^ 20" using assms(1) unat_lt_2p64 [of x] by auto
    then show ?thesis using ds(5) [of 20] False by simp
  qed
  have "number_buf xx base sign = Some (ds @ (if neg then [45] else []))"
    using ds(1) unfolding number_buf_def x_def assms(2) by (simp add: Let_def)
  then have "checked_buf (number_buf xx base sign) = Some (Ok ((if neg then [45] else []) @ rev ds))"
    using len by (simp add: checked_buf_def split: if_splits)
  then show ?thesis using ds(2-4) x0 len unfolding x_def
    by (intro exI [of _ "rev ds"]) (auto simp: hd_rev)
qed

section \<open>The characters of a formatted string\<close>

text \<open>
  A reference definition: the list of the characters that a format string and its arguments stand for. Only the two flags of
  the printer matter.
\<close>

definition colored :: "'f printer \<Rightarrow> u8 list \<Rightarrow> u8 list" where
  "colored st cs = (if print_colored st then number_color (c_time_print st) @ cs @ COLOR_RESET else cs)"

definition number_text :: "'f printer \<Rightarrow> u64 \<Rightarrow> u64 \<Rightarrow> bool \<Rightarrow> u8 list outcome option" where
  "number_text st w base sign = kbind (checked_buf (number_buf w base sign)) (\<lambda>cs. Some (Ok (colored st cs)))"

definition hex_text :: "'f printer \<Rightarrow> directive \<Rightarrow> u64 \<Rightarrow> u8 list outcome option" where
  "hex_text st d w =
     (if 0 < sint (d_width d)
      then kbind (checked_buf (map_option (pad_buf (d_width d) (d_pad d)) (number_buf w 16 False))) (\<lambda>cs. Some (Ok (colored st cs)))
      else number_text st w 16 False)"

definition float_text :: "'f double_ops \<Rightarrow> 'f printer \<Rightarrow> 'f \<Rightarrow> u8 list outcome option" where
  "float_text ops st f =
     (let (s, f) = (if dbl_negative ops f then ([45], dbl_negate ops f) else ([], f)); n = dbl_trunc ops f
      in kbind (number_text st n 10 False) (\<lambda>cs. Some (Ok (s @ cs @ colored st (46 # frac_digits ops 6 (dbl_minus ops f n))))))"

definition convert_text :: "'f double_ops \<Rightarrow> 'f printer \<Rightarrow> directive \<Rightarrow> 'f va list \<Rightarrow> ('f va list \<times> u8 list) outcome option" where
  "convert_text ops st d ap =
     (let arg = (\<lambda>va f. kbind (Some va) (\<lambda>(w, rest). kbind (f w) (\<lambda>cs. Some (Ok (rest, cs)))))
      in case d_conv d of
           Conv_d \<Rightarrow> arg (va_int ap) (\<lambda>w. number_text st w 10 True)
         | Conv_ld \<Rightarrow> arg (va_long ap) (\<lambda>w. number_text st w 10 True)
         | Conv_u \<Rightarrow> arg (va_int ap) (\<lambda>w. number_text st w 10 False)
         | Conv_lu \<Rightarrow> arg (va_long ap) (\<lambda>w. number_text st w 10 False)
         | Conv_x \<Rightarrow> arg (va_int ap) (hex_text st d)
         | Conv_lx \<Rightarrow> arg (va_long ap) (hex_text st d)
         | Conv_p \<Rightarrow> arg (va_long ap) (\<lambda>w. Some (Ok (colored st (ptr_chars w))))
         | Conv_s \<Rightarrow> kbind (Some (va_str ap)) (\<lambda>(s, rest). Some (Ok (rest, string_of s)))
         | Conv_f \<Rightarrow> kbind (Some (va_double ap)) (\<lambda>(f, rest). kbind (float_text ops st f) (\<lambda>cs. Some (Ok (rest, cs))))
         | Conv_percent \<Rightarrow> Some (Ok (ap, [37]))
         | Conv_end \<Rightarrow> Some (Ok (ap, []))
         | Conv_other c \<Rightarrow> Some (Ok (ap, [37, c])))"

function format_from :: "'f double_ops \<Rightarrow> 'f printer \<Rightarrow> u8 list \<Rightarrow> nat \<Rightarrow> 'f va list \<Rightarrow> u8 list outcome option" where
  "format_from ops st fmt i ap =
     (if fmt_at fmt i = 0 then Some (Ok [])
      else if fmt_at fmt i \<noteq> 37 then kbind (format_from ops st fmt (i + 1) ap) (\<lambda>cs. Some (Ok (fmt_at fmt i # cs)))
      else
        let d = parse_directive fmt (i + 1) in
        if d_conv d = Conv_end then Some (Ok [])
        else kbind (convert_text ops st d ap) (\<lambda>(ap1, cs).
               kbind (format_from ops st fmt (d_last d + 1) ap1) (\<lambda>cs'. Some (Ok (cs @ cs')))))"
  by auto
termination
proof (relation "measure (\<lambda>(ops, st, fmt, i, ap). length fmt - i)")
  fix ops :: "'f double_ops" and st fmt i ap d ap'
  assume a: "fmt_at fmt i \<noteq> 0" "d = parse_directive fmt (i + 1)"
  have "i < length fmt" using a(1) by (simp add: fmt_at_def split: if_splits)
  moreover have "i < d_last d" using parse_directive_advances [of "i + 1" fmt] a(2) by simp
  ultimately show "((ops, st, fmt, d_last d + 1, ap'), ops, st, fmt, i, ap) \<in> measure (\<lambda>(ops, st, fmt, i, ap). length fmt - i)" by simp
qed (auto simp: fmt_at_def split: if_splits)

declare format_from.simps [simp del]

section \<open>The console prints the reference\<close>

lemma kputc_flags [simp]: "print_colored (kputc c st) = print_colored st" "c_time_print (kputc c st) = c_time_print st"
  by (simp_all add: kputc_def split: output_mode.split)

lemma kputs_flags [simp]:
  "print_colored (fold kputc cs st) = print_colored st" "c_time_print (fold kputc cs st) = c_time_print st"
  by (induction cs arbitrary: st) simp_all

lemma text_flags:
  assumes "print_colored st' = print_colored st" "c_time_print st' = c_time_print st"
  shows "colored st' = colored st" "number_text st' = number_text st" "hex_text st' = hex_text st" "float_text ops st' = float_text ops st"
    "convert_text ops st' = convert_text ops st"
proof -
  show c: "colored st' = colored st" using assms by (simp add: colored_def fun_eq_iff)
  then show n: "number_text st' = number_text st" by (simp add: number_text_def fun_eq_iff)
  with c show h: "hex_text st' = hex_text st" by (simp add: hex_text_def fun_eq_iff)
  from c n show f: "float_text ops st' = float_text ops st" by (simp add: float_text_def fun_eq_iff)
  show "convert_text ops st' = convert_text ops st" by (intro ext) (simp only: convert_text_def c n h f)
qed

lemma format_from_flags:
  assumes "print_colored st' = print_colored st" "c_time_print st' = c_time_print st"
  shows "format_from ops st' fmt i ap = format_from ops st fmt i ap"
  using assms
proof (induction ops st fmt i ap rule: format_from.induct)
  case (1 ops st fmt i ap)
  note step = format_from.simps [of ops _ fmt i ap]
  show ?case
  proof (cases "fmt_at fmt i = 0 \<or> fmt_at fmt i \<noteq> 37")
    case True
    then show ?thesis using 1(1) [OF _ _ 1(3,4)] by (auto simp: step)
  next
    case False
    then show ?thesis
      using 1(2) [OF _ _ refl _ 1(3,4)] unfolding step text_flags(5) [OF 1(3,4)] by (auto simp: Let_def intro!: kbind_cong split: prod.splits)
  qed
qed

lemma kcolored: "kcolor_off (fold kputc cs (kcolor_on st)) = fold kputc (colored st cs) st"
  by (simp add: kcolor_off_def kcolor_on_def kprints_def colored_def string_of_def)

lemma kprintint_text: "kprintint w base sign st = kbind (number_text st w base sign) (\<lambda>cs. Some (Ok (fold kputc cs st)))"
  by (simp add: kprintint_def number_text_def kcolored kbind_assoc Let_def)

lemma khex_text:
  "(if 0 < sint (d_width d) then kprintint_padded w 16 False (d_width d) (d_pad d) st else kprintint w 16 False st) =
   kbind (hex_text st d w) (\<lambda>cs. Some (Ok (fold kputc cs st)))"
  by (simp add: kprintint_padded_def hex_text_def kprintint_text kcolored kbind_assoc Let_def)

lemma kcolored_cons: "kcolor_off (fold kputc cs (kputc c (kcolor_on st))) = fold kputc (colored st (c # cs)) st"
  using kcolored [of "c # cs" st] by simp

lemma kprintfloat_text: "kprintfloat ops f 6 st = kbind (float_text ops st f) (\<lambda>cs. Some (Ok (fold kputc cs st)))"
  by (simp add: kprintfloat_def float_text_def Let_def kprintint_text kcolored_cons kbind_assoc
      text_flags(1,2) [of "fold kputc _ _" st] text_flags(1,2) [of "kputc _ st" st])

lemma kconvert_text:
  "kconvert ops d ap st = kbind (convert_text ops st d ap) (\<lambda>(rest, cs). Some (Ok (rest, fold kputc cs st)))"
  by (cases "d_conv d")
     (simp_all add: kconvert_def convert_text_def kprintint_text khex_text kprintfloat_text kbind_assoc case_prod_unfold kprints_def kprintptr_def kcolored)

lemma kvprintf_format:
  "kvprintf_from ops fmt i ap st = kbind (format_from ops st fmt i ap) (\<lambda>cs. Some (Ok (fold kputc cs st)))"
proof (induction ops fmt i ap st rule: kvprintf_from.induct)
  case (1 ops fmt i ap st)
  note step = kvprintf_from.simps [of ops fmt i ap st] format_from.simps [of ops st fmt i ap]
  show ?case
  proof (cases "fmt_at fmt i = 0 \<or> fmt_at fmt i \<noteq> 37")
    case True
    have "format_from ops (kputc (fmt_at fmt i) st) fmt (i + 1) ap = format_from ops st fmt (i + 1) ap"
      by (rule format_from_flags) simp_all
    then show ?thesis using True 1(1) by (auto simp: step kbind_assoc)
  next
    case False
    define d where "d = parse_directive fmt (i + 1)"
    have d: "parse_directive fmt (Suc i) = d" by (simp add: d_def)
    have "kvprintf_from ops fmt (d_last d + 1) ap1 (fold kputc cs st) =
        kbind (format_from ops st fmt (d_last d + 1) ap1) (\<lambda>cs'. Some (Ok (fold kputc cs' (fold kputc cs st))))"
      if "d_conv d \<noteq> Conv_end" "convert_text ops st d ap = Some (Ok (ap1, cs))" for ap1 cs
    proof -
      have "format_from ops (fold kputc cs st) fmt (d_last d + 1) ap1 = format_from ops st fmt (d_last d + 1) ap1"
        by (rule format_from_flags) simp_all
      then show ?thesis using 1(2) [OF _ _ d_def that(1), of ap1 "fold kputc cs st"] False by simp
    qed
    then show ?thesis
      using False by (auto simp: step d Let_def kconvert_text kbind_assoc case_prod_unfold intro!: kbind_cong)
  qed
qed

section \<open>The buffer gets the beginning of the reference\<close>

text \<open>Writing the characters that still fit.\<close>

definition cwrite :: "u64 \<Rightarrow> u8 list \<Rightarrow> cbuf \<Rightarrow> nat \<times> cbuf" where
  "cwrite dest cs b =
     (let r = nat (the (crem b)); n = min r (length cs)
      in (n, b\<lparr>cmem := store_bytes (cmem b) dest (take r cs), crem := Some (int (r - n))\<rparr>))"

abbreviation room :: "nat \<Rightarrow> cbuf \<Rightarrow> bool" where
  "room r b \<equiv> crem b = Some (int r) \<and> r < 2 ^ 31"

lemma store_bytes_Nil [simp]: "store_bytes m a [] = m"
  by (simp add: store_bytes_def)

lemma store_bytes_append:
  assumes "length xs + length ys \<le> 2 ^ 64"
  shows "store_bytes (store_bytes m a xs) (a + of_nat (length xs)) ys = store_bytes m a (xs @ ys)"
proof (rule ext)
  fix x
  define u where "u = unat (x - a)"
  have u: "u < 2 ^ 64" using unat_lt_2p64 [of "x - a"] by (simp add: u_def)
  show "store_bytes (store_bytes m a xs) (a + of_nat (length xs)) ys x = store_bytes m a (xs @ ys) x"
  proof (cases "length xs < 2 ^ 64")
    case True
    then have l: "unat (of_nat (length xs) :: u64) = length xs" by (rule unat_of_nat_u64)
    have "unat (x - (a + of_nat (length xs))) = (if length xs \<le> u then u - length xs else u + 18446744073709551616 - length xs)"
      using unat_diff [of "x - a" "of_nat (length xs)"] l by (simp add: u_def diff_diff_eq)
    then show ?thesis using assms u by (auto simp: store_bytes_def u_def [symmetric] nth_append)
  next
    case False
    then have "length ys = 0" using assms by linarith
    then have "ys = []" by simp
    then show ?thesis by simp
  qed
qed

lemma cwrite_room:
  assumes "room r b"
  shows "room (r - length cs) (snd (cwrite dest cs b))" "fst (cwrite dest cs b) = min r (length cs)"
  using assms by (auto simp: cwrite_def Let_def)

lemma cwrite_then:
  assumes "room r b" "dest' = dest + of_nat (length cs) \<or> dest' = dest + of_nat (fst (cwrite dest cs b))"
  shows "fst (cwrite dest cs b) + fst (cwrite dest' cs' (snd (cwrite dest cs b))) = fst (cwrite dest (cs @ cs') b)"
    "snd (cwrite dest' cs' (snd (cwrite dest cs b))) = snd (cwrite dest (cs @ cs') b)"
proof -
  show "fst (cwrite dest cs b) + fst (cwrite dest' cs' (snd (cwrite dest cs b))) = fst (cwrite dest (cs @ cs') b)"
    using assms(1) by (auto simp: cwrite_def Let_def)
  show "snd (cwrite dest' cs' (snd (cwrite dest cs b))) = snd (cwrite dest (cs @ cs') b)"
  proof (cases "r \<le> length cs")
    case True
    then show ?thesis using assms(1) by (simp add: cwrite_def Let_def)
  next
    case False
    then have "dest' = dest + of_nat (length cs)" using assms cwrite_room(2) [OF assms(1)] by auto
    moreover have "length cs + length (take (r - length cs) cs') \<le> 2 ^ 64" using assms(1) False by (auto simp: min_def)
    ultimately show ?thesis
      using False assms(1) store_bytes_append [of cs "take (r - length cs) cs'" "cmem b" dest] by (auto simp: cwrite_def Let_def min_def simp del: of_nat_diff)
  qed
qed

lemma cputc_cwrite: "room r b \<Longrightarrow> cputc dest c b = cwrite dest [c] b"
  by (cases r) (auto simp: cputc_def cwrite_def Let_def store_bytes_def fun_upd_def fun_eq_iff unat_eq_zero)

lemma cputs_cwrite: "room r b \<Longrightarrow> cputs dest cs b = cwrite dest cs b"
proof (induction cs arbitrary: dest b r)
  case Nil
  then show ?case by (simp add: cwrite_def Let_def)
next
  case (Cons c cs)
  note c = cputc_cwrite [OF Cons.prems, of dest c]
  have "room (r - 1) (snd (cwrite dest [c] b))" using cwrite_room(1) [OF Cons.prems, of dest "[c]"] by simp
  from Cons.IH [OF this, of "dest + 1"] show ?case
    using cwrite_then [OF Cons.prems, of "dest + 1" dest "[c]" cs]
    by (simp add: c case_prod_unfold Let_def prod_eq_iff)
qed

lemma ccolored_cwrite:
  assumes "room r b"
  shows "ccolored st dest cs b = cwrite dest (colored st cs) b"
proof (cases "print_colored st")
  case False
  then show ?thesis using cputs_cwrite [OF assms] by (simp add: ccolored_def colored_def case_prod_unfold Let_def prod_eq_iff)
next
  case True
  define k where "k = number_color (c_time_print st)"
  define b1 where "b1 = snd (cwrite dest k b)"
  define dest1 where "dest1 = dest + of_nat (fst (cwrite dest k b))"
  have r1: "room (r - length k) b1" unfolding b1_def by (rule cwrite_room(1) [OF assms])
  have r2: "room (r - length k - length cs) (snd (cwrite dest1 cs b1))" by (rule cwrite_room(1) [OF r1])
  note t1 = cwrite_then [OF r1, of "dest1 + of_nat (length cs)" dest1 cs COLOR_RESET]
  note t2 = cwrite_then [OF assms, of dest1 dest k "cs @ COLOR_RESET"]
  show ?thesis
    using True t1 t2 cputs_cwrite [OF assms, of dest k] cputs_cwrite [OF r1, of dest1 cs] cputs_cwrite [OF r2, of _ COLOR_RESET]
    by (simp add: ccolored_def colored_def case_prod_unfold Let_def prod_eq_iff k_def [symmetric] b1_def [symmetric] dest1_def [symmetric])
qed

lemma cprintint_text:
  assumes "room r b"
  shows "cprintint st dest w base sign b = kbind (number_text st w base sign) (\<lambda>cs. Some (Ok (cwrite dest cs b)))"
  by (simp add: cprintint_def number_text_def kbind_assoc ccolored_cwrite [OF assms])

lemma chex_text:
  assumes "room r b"
  shows "(if 0 < sint (d_width d) then cprintint_padded st dest w 16 False (d_width d) (d_pad d) b else cprintint st dest w 16 False b) =
   kbind (hex_text st d w) (\<lambda>cs. Some (Ok (cwrite dest cs b)))"
  by (simp add: cprintint_padded_def hex_text_def cprintint_text [OF assms] kbind_assoc ccolored_cwrite [OF assms])

lemma cprintfloat_text:
  assumes "room r b"
  shows "cprintfloat ops st dest f 6 b = kbind (float_text ops st f) (\<lambda>cs. Some (Ok (cwrite dest cs b)))"
proof -
  define s where "s = (if dbl_negative ops f then [45 :: u8] else [])"
  define g where "g = (if dbl_negative ops f then dbl_negate ops f else f)"
  define n where "n = dbl_trunc ops g"
  define ds where "ds = 46 # frac_digits ops 6 (dbl_minus ops g n)"
  define b0 where "b0 = snd (cwrite dest s b)"
  define dest1 where "dest1 = dest + of_nat (length s)"
  have r0: "room (r - length s) b0" unfolding b0_def by (rule cwrite_room(1) [OF assms])
  have "(if dbl_negative ops f then cputc dest 45 b else (0, b)) = cwrite dest s b"
    using cputs_cwrite [OF assms, of dest "[]"] by (simp add: s_def cputc_cwrite [OF assms])
  then have c: "cprintfloat ops st dest f 6 b = kbind (cprintint st dest1 n 10 False b0) (\<lambda>(t1, b1).
      let (t2, b2) = ccolored st (dest1 + of_nat t1) ds b1 in Some (Ok (fst (cwrite dest s b) + t1 + t2, b2)))"
    by (simp add: cprintfloat_def case_prod_unfold Let_def b0_def g_def n_def ds_def dest1_def s_def)
  have "(let (t2, b2) = ccolored st (dest1 + of_nat (fst (cwrite dest1 cs b0))) ds (snd (cwrite dest1 cs b0))
       in (fst (cwrite dest s b) + fst (cwrite dest1 cs b0) + t2, b2)) = cwrite dest (s @ cs @ colored st ds) b" for cs
  proof -
    have r1: "room (r - length s - length cs) (snd (cwrite dest1 cs b0))" by (rule cwrite_room(1) [OF r0])
    note t1 = cwrite_then [OF r0, of "dest1 + of_nat (fst (cwrite dest1 cs b0))" dest1 cs "colored st ds"]
    note t2 = cwrite_then [OF assms, of dest1 dest s "cs @ colored st ds"]
    show ?thesis
      using t1 t2 unfolding ccolored_cwrite [OF r1] b0_def [symmetric] by (simp add: case_prod_unfold Let_def prod_eq_iff dest1_def)
  qed
  then show ?thesis
    unfolding c cprintint_text [OF r0]
    by (simp add: float_text_def kbind_assoc case_prod_unfold Let_def s_def g_def n_def ds_def)
qed

lemma cconvert_text:
  assumes "room r b"
  shows "\<exists>f. (\<forall>cs. f cs = dest + of_nat (length cs) \<or> f cs = dest + of_nat (fst (cwrite dest cs b))) \<and>
    cconvert ops st d dest ap b =
      kbind (convert_text ops st d ap) (\<lambda>(rest, cs). Some (Ok (rest, f cs, fst (cwrite dest cs b), snd (cwrite dest cs b))))"
proof -
  define f where "f cs = dest + of_nat (if d_conv d = Conv_s \<or> d_conv d = Conv_percent \<or> d_conv d = Conv_end \<or> (\<exists>c. d_conv d = Conv_other c)
     then length cs else fst (cwrite dest cs b))" for cs :: "u8 list"
  have "cwrite dest [] b = (0, b)" using cputs_cwrite [OF assms, of dest "[]"] by simp
  then have "cconvert ops st d dest ap b =
      kbind (convert_text ops st d ap) (\<lambda>(rest, cs). Some (Ok (rest, f cs, fst (cwrite dest cs b), snd (cwrite dest cs b))))"
    by (cases "d_conv d")
       (simp_all add: cconvert_def convert_text_def f_def Let_def kbind_assoc case_prod_unfold cprintint_text [OF assms] chex_text [OF assms]
          cprintfloat_text [OF assms] cprintptr_def ccolored_cwrite [OF assms] cputs_cwrite [OF assms] del: cputs.simps)
  then show ?thesis by (intro exI [of _ f]) (auto simp: f_def)
qed

lemma cvprintf_format:
  assumes "room r b"
  shows "cvprintf_from ops st fmt i dest len ap b =
    kbind (format_from ops st fmt i ap) (\<lambda>cs. Some (Ok (len + fst (cwrite dest cs b), snd (cwrite dest cs b))))"
  using assms
proof (induction ops st fmt i dest len ap b arbitrary: r rule: cvprintf_from.induct)
  case (1 ops st fmt i dest len ap b)
  note step = cvprintf_from.simps [of ops st fmt i dest len ap b] format_from.simps [of ops st fmt i ap]
  have nil: "cwrite dest [] b = (0, b)" using cputs_cwrite [OF 1(3), of dest "[]"] by simp
  show ?case
  proof (cases "fmt_at fmt i = 0 \<or> fmt_at fmt i \<noteq> 37")
    case True
    define c where "c = fmt_at fmt i"
    have r1: "room (r - 1) (snd (cwrite dest [c] b))" using cwrite_room(1) [OF 1(3), of dest "[c]"] by simp
    have cp: "cputc dest c b = (fst (cwrite dest [c] b), snd (cwrite dest [c] b))" using cputc_cwrite [OF 1(3)] by simp
    have "cvprintf_from ops st fmt (i + 1) (dest + 1) (len + fst (cwrite dest [c] b)) ap (snd (cwrite dest [c] b)) =
        kbind (format_from ops st fmt (i + 1) ap) (\<lambda>cs. Some (Ok (len + fst (cwrite dest (c # cs) b), snd (cwrite dest (c # cs) b))))"
      if "c \<noteq> 0" "c \<noteq> 37"
      using 1(1) [OF _ _ _ _ r1, of "cputc dest c b"] that cp cwrite_then [OF 1(3), of "dest + 1" dest "[c]"]
      by (simp add: c_def add.assoc)
    then show ?thesis using True cp nil by (auto simp: step c_def [symmetric] kbind_assoc case_prod_unfold)
  next
    case False
    define d where "d = parse_directive fmt (i + 1)"
    have d: "parse_directive fmt (Suc i) = d" by (simp add: d_def)
    obtain f where f: "\<And>cs. f cs = dest + of_nat (length cs) \<or> f cs = dest + of_nat (fst (cwrite dest cs b))"
      "cconvert ops st d dest ap b =
        kbind (convert_text ops st d ap) (\<lambda>(rest, cs). Some (Ok (rest, f cs, fst (cwrite dest cs b), snd (cwrite dest cs b))))"
      using cconvert_text [OF 1(3), of dest ops st d ap] by blast
    have "cvprintf_from ops st fmt (d_last d + 1) (f cs) (len + fst (cwrite dest cs b)) ap1 (snd (cwrite dest cs b)) =
        kbind (format_from ops st fmt (d_last d + 1) ap1)
          (\<lambda>cs'. Some (Ok (len + fst (cwrite dest (cs @ cs') b), snd (cwrite dest (cs @ cs') b))))"
      if "d_conv d \<noteq> Conv_end" for ap1 cs
    proof -
      have "room (r - length cs) (snd (cwrite dest cs b))" by (rule cwrite_room(1) [OF 1(3)])
      from 1(2) [OF _ _ d_def that this] show ?thesis
        using False cwrite_then [OF 1(3) f(1), of cs] by (simp add: add.assoc)
    qed
    then show ?thesis
      using False nil by (auto simp: step d Let_def f(2) kbind_assoc case_prod_unfold intro!: kbind_cong)
  qed
qed

section \<open>Properties\<close>

lemma fold_kputc_serial:
  "current_output st = OUTPUT_SERIAL \<Longrightarrow> fold kputc cs st = st\<lparr>serial_out := serial_out st @ cs\<rparr>"
  by (induction cs arbitrary: st) (simp_all add: kputc_def)

text \<open>
  Printing a number and reading it back. \<^verbatim>\<open>kprintint\<close> in base 10, and in base 16 without a sign, ends without overrunning its array
  of 20 characters and sends to the console a minus sign if the number is signed and negative, then at most 20 digits, the first of them not 0
  unless the number is 0, whose value is the magnitude of the number (of the smallest one too), all between the colours when they are switched on.
\<close>

theorem kprintint_correct:
  assumes "base = 10 \<or> base = 16 \<and> \<not> sign" "neg \<longleftrightarrow> sign \<and> sint xx < 0"
  shows "\<exists>cs. kprintint xx base sign st = Some (Ok (fold kputc (colored st ((if neg then [45] else []) @ cs)) st)) \<and>
    digits_value (unat base) cs = unat (if neg then - xx else xx) \<and> cs \<noteq> [] \<and> (hd cs = 48 \<longrightarrow> xx = 0) \<and> length cs \<le> 20"
proof -
  from number_chars_ok [OF assms] obtain cs where "checked_buf (number_buf xx base sign) = Some (Ok ((if neg then [45] else []) @ cs))"
    "digits_value (unat base) cs = unat (if neg then - xx else xx) \<and> cs \<noteq> [] \<and> (hd cs = 48 \<longrightarrow> xx = 0) \<and> length cs \<le> 20" by blast
  then show ?thesis by (intro exI [of _ cs]) (simp add: kprintint_text number_text_def)
qed

text \<open>
  C30: the two families of functions agree. When \<^verbatim>\<open>kvprintf\<close> prints a string on the serial line, \<^verbatim>\<open>cvprintf\<close> with the same
  format, arguments and flags writes the beginning of the same string, as much of it as the buffer takes, to consecutive bytes from
  \<^verbatim>\<open>dest\<close> on, changes no other byte, takes the number of written bytes off \<^verbatim>\<open>*rem\<close> and returns it; and where one of them does not
  return, the other does not either.
\<close>

theorem cvprintf_as_kvprintf:
  assumes "crem b = Some (int r)" "r < 2 ^ 31" "current_output st = OUTPUT_SERIAL"
  shows "case kvprintf ops fmt ap st of
      Some (Ok st') \<Rightarrow> \<exists>out. serial_out st' = serial_out st @ out \<and>
        cvprintf ops st dest fmt ap b = Some (Ok (min r (length out),
          b\<lparr>cmem := store_bytes (cmem b) dest (take r out), crem := Some (int (r - length out))\<rparr>))
    | Some (Panic e) \<Rightarrow> cvprintf ops st dest fmt ap b = Some (Panic e)
    | None \<Rightarrow> cvprintf ops st dest fmt ap b = None"
proof -
  define t where "t = format_from ops st fmt 0 ap"
  have room: "room r b" using assms(1,2) by simp
  have k: "kvprintf ops fmt ap st = kbind t (\<lambda>cs. Some (Ok (st\<lparr>serial_out := serial_out st @ cs\<rparr>)))"
    by (simp add: kvprintf_def kvprintf_format t_def fold_kputc_serial [OF assms(3)])
  have "cwrite dest out b = (min r (length out), b\<lparr>cmem := store_bytes (cmem b) dest (take r out), crem := Some (int (r - length out))\<rparr>)" for out
    using assms(1) by (simp add: cwrite_def Let_def)
  then have c: "cvprintf ops st dest fmt ap b = kbind t (\<lambda>out. Some (Ok (min r (length out),
      b\<lparr>cmem := store_bytes (cmem b) dest (take r out), crem := Some (int (r - length out))\<rparr>)))"
    using cvprintf_format [OF room, of ops st fmt 0 dest 0 ap] by (simp add: cvprintf_def t_def)
  show ?thesis unfolding k c by (cases t) (auto simp: kbind_def split: outcome.split)
qed

text \<open>
  C31: \<^verbatim>\<open>snprintf\<close> stays within its buffer, whatever the format and the arguments are: it returns a number of bytes that is at most the
  given length and changes at most that many bytes from \<^verbatim>\<open>dest\<close> on. It never writes the byte after them, so the string is not terminated.
\<close>

theorem snprintf_bounds:
  assumes "0 \<le> sint dest_len" "snprintf ops st dest dest_len fmt ap m = Some (Ok (n, m'))"
  shows "int n \<le> sint dest_len \<and> (\<forall>a. \<not> in_range dest n a \<longrightarrow> m' a = m a) \<and> m' (dest + of_nat n) = m (dest + of_nat n)"
proof -
  define r where "r = nat (sint dest_len)"
  have r: "r < 2 ^ 31" "sint dest_len = int r" using sint_lt [of dest_len] assms(1) by (simp_all add: r_def nat_less_iff)
  define b where "b = \<lparr>cmem = m, crem = Some (sint dest_len)\<rparr>"
  have room: "room r b" using r by (simp add: b_def)
  obtain out where o: "n = min r (length out)" "m' = store_bytes m dest (take r out)"
    using assms(2) cvprintf_format [OF room, of ops "st\<lparr>print_colored := False\<rparr>" fmt 0 dest 0 ap] r(2)
    unfolding snprintf_def cvprintf_def b_def [symmetric] by (auto simp: kbind_Ok cwrite_def Let_def b_def)
  have out: "m' a = m a" if "\<not> in_range dest n a" for a using that by (auto simp: o store_bytes_def in_range_def)
  have "unat (of_nat n :: u64) = n" using r(1) o(1) by (intro unat_of_nat_u64) simp
  then have "\<not> in_range dest n (dest + of_nat n)" by (simp add: in_range_def)
  then show ?thesis using out o(1) r(2) by simp
qed

section \<open>Samples\<close>

definition sample_printer :: "unit printer" where
  "sample_printer = \<lparr>current_output = OUTPUT_SERIAL, serial_initialized = True, c_time_print = False, print_colored = True,
     first_print_now = (), ports = [], serial_out = [], term_out = []\<rparr>"

definition sample_doubles :: "unit double_ops" where
  "sample_doubles = \<lparr>dbl_negative = \<lambda>_. False, dbl_negate = \<lambda>_. (), dbl_trunc = \<lambda>_. 0, dbl_minus = \<lambda>_ _. (), dbl_times10 = \<lambda>_. (),
     dbl_int = \<lambda>_. 0, dbl_minus_int = \<lambda>_ _. (), dbl_is_zero = \<lambda>_. True, dbl_diff = \<lambda>_ _. ()\<rparr>"

theorem kprintint_correct_witness:
  "\<exists>cs. kprintint (- 42) 10 True sample_printer = Some (Ok (sample_printer\<lparr>serial_out := COLOR_MAGENTA_FG @ [45] @ cs @ COLOR_RESET\<rparr>)) \<and>
     digits_value 10 cs = 42 \<and> length cs \<le> 20"
proof -
  have f: "fold kputc s sample_printer = sample_printer\<lparr>serial_out := s\<rparr>" for s
    using fold_kputc_serial [of sample_printer s] by (simp add: sample_printer_def)
  have c: "colored sample_printer ([45] @ cs) = COLOR_MAGENTA_FG @ [45] @ cs @ COLOR_RESET" for cs
    by (simp add: colored_def number_color_def sample_printer_def)
  have "\<exists>cs. kprintint (- 42) 10 True sample_printer = Some (Ok (fold kputc (colored sample_printer ([45] @ cs)) sample_printer)) \<and>
      digits_value 10 cs = 42 \<and> length cs \<le> 20"
    using kprintint_correct [of 10 True True "- 42" sample_printer] by auto
  then show ?thesis unfolding f c .
qed

theorem cvprintf_as_kvprintf_witness:
  "cvprintf sample_doubles sample_printer 0x1000 [97, 37, 115] [VStr (Some [98, 99, 100])] \<lparr>cmem = \<lambda>_. 0, crem = Some 3\<rparr> =
     Some (Ok (3, \<lparr>cmem = store_bytes (\<lambda>_. 0) 0x1000 [97, 98, 99], crem = Some 0\<rparr>))"
proof -
  have "kvprintf sample_doubles [97, 37, 115] [VStr (Some [98, 99, 100])] sample_printer =
      Some (Ok (sample_printer\<lparr>serial_out := [97, 98, 99, 100]\<rparr>))"
    by (simp add: kvprintf_def kvprintf_from.simps fmt_at_def parse_directive_def parse_width.simps conversion_of_def kconvert_def
        va_str_def kprints_def string_of_def kputc_def sample_printer_def)
  then show ?thesis
    using cvprintf_as_kvprintf [where b = "\<lparr>cmem = \<lambda>_. 0, crem = Some 3\<rparr>" and r = 3 and st = sample_printer and ops = sample_doubles
        and fmt = "[97, 37, 115]" and ap = "[VStr (Some [98, 99, 100])]" and dest = "0x1000"]
    by (simp add: sample_printer_def numeral_3_eq_3)
qed

theorem snprintf_bounds_witness:
  "\<exists>n m'. snprintf sample_doubles sample_printer 0x1000 2 [97, 98, 99] [] (\<lambda>_. 7) = Some (Ok (n, m')) \<and> n \<le> 2 \<and> m' (0x1000 + of_nat n) = 7"
proof -
  obtain n m' where s: "snprintf sample_doubles sample_printer 0x1000 2 [97, 98, 99] [] (\<lambda>_. 7) = Some (Ok (n, m'))"
    by (simp add: snprintf_def cvprintf_def cvprintf_from.simps fmt_at_def cputc_def)
  then show ?thesis using snprintf_bounds [OF _ s] by auto
qed

end
