(* ===== verification/Stdio_Props.thy ===== *)
theory Stdio_Props
  imports Libc_Stdio Printf_Props
begin

text \<open>
  Properties of the formatted output of user programs: what \<^verbatim>\<open>vsnprintf\<close> of the C library writes, and that it is one byte too many.
\<close>

section \<open>What is written into a string\<close>

text \<open>
  From state \<open>s\<close> to state \<open>s'\<close> consecutive bytes have been written, none after the one behind \<open>string_end\<close>.
\<close>

definition wrote :: "u64 \<Rightarrow> u64 \<times> memory \<Rightarrow> u64 \<times> memory \<Rightarrow> bool" where
  "wrote string_end s s' \<longleftrightarrow> unat (fst s) \<le> unat (fst s') \<and> unat (fst s') \<le> unat string_end + 1 \<and>
     (\<forall>a. a < fst s \<or> fst s' \<le> a \<longrightarrow> snd s' a = snd s a)"

lemma wrote_refl: "unat (fst s) \<le> unat string_end + 1 \<Longrightarrow> wrote string_end s s"
  by (simp add: wrote_def)

lemma wrote_trans: "wrote e s s1 \<Longrightarrow> wrote e s1 s2 \<Longrightarrow> wrote e s s2"
  unfolding wrote_def by (auto simp: word_le_nat_alt word_less_nat_alt)

lemma wrote_one:
  assumes "fst s \<le> string_end" "unat string_end + 1 < 2 ^ 64"
  shows "wrote string_end s (fst s + 1, (snd s)(fst s := c))" "unat (fst s + 1) = unat (fst s) + 1"
proof -
  show u: "unat (fst s + 1) = unat (fst s) + 1" using assms by (simp add: unat_word_ariths word_le_nat_alt)
  then show "wrote string_end s (fst s + 1, (snd s)(fst s := c))"
    using assms(1) by (auto simp: wrote_def word_le_nat_alt word_less_nat_alt)
qed

lemma sput_upto_wrote:
  "unat string_end + 1 < 2 ^ 64 \<Longrightarrow> unat (fst s) \<le> unat string_end + 1 \<Longrightarrow> wrote string_end s (sput_upto string_end cs s)"
proof (induction cs arbitrary: s)
  case (Cons c cs)
  show ?case
  proof (cases "fst s \<le> string_end")
    case True
    note one = wrote_one(1) [OF True Cons.prems(1), of c] wrote_one(2) [OF True Cons.prems(1)]
    have "unat (fst s + 1) \<le> unat string_end + 1" using one(2) True by (simp add: word_le_nat_alt)
    then have "wrote string_end (fst s + 1, (snd s)(fst s := c)) (sput_upto string_end cs (fst s + 1, (snd s)(fst s := c)))"
      using Cons.IH [of "(fst s + 1, (snd s)(fst s := c))"] Cons.prems(1) by simp
    then show ?thesis using True wrote_trans [OF one(1)] by simp
  next
    case False
    then show ?thesis using wrote_refl [OF Cons.prems(2)] by simp
  qed
qed (simp add: wrote_refl)

lemma sput_before_wrote:
  "unat string_end + 1 < 2 ^ 64 \<Longrightarrow> fst s \<le> string_end \<Longrightarrow> wrote string_end s (sput_before string_end cs s)"
proof (induction cs arbitrary: s)
  case (Cons c cs)
  show ?case
  proof (cases "fst s = string_end")
    case False
    note one = wrote_one(1) [OF Cons.prems(2,1), of c] wrote_one(2) [OF Cons.prems(2,1)]
    have "fst s + 1 \<le> string_end" using one(2) False Cons.prems(2) by (simp add: word_le_nat_alt word_unat_eq_iff)
    then have "wrote string_end (fst s + 1, (snd s)(fst s := c)) (sput_before string_end cs (fst s + 1, (snd s)(fst s := c)))"
      using Cons.IH [of "(fst s + 1, (snd s)(fst s := c))"] Cons.prems(1) by simp
    then show ?thesis using False wrote_trans [OF one(1)] by simp
  next
    case True
    then show ?thesis by (simp add: wrote_refl)
  qed
qed (simp add: wrote_refl word_le_nat_alt)

lemma sconvert_wrote:
  assumes "unat string_end + 1 < 2 ^ 64" "fst s \<le> string_end" "sconvert string_end c ap s = Some (Ok (rest, s1))"
  shows "wrote string_end s s1"
proof -
  have le: "unat (fst s) \<le> unat string_end + 1" using assms(2) by (simp add: word_le_nat_alt)
  note w = sput_upto_wrote [OF assms(1) le] sput_before_wrote [OF assms(1,2)] wrote_refl [OF le]
  have num: "wrote string_end s s1" if "sprint_int string_end x base sign padding s = Some (Ok s1)" for x base sign padding
    using that w(2) by (auto simp: sprint_int_def split: if_splits)
  show ?thesis
    using assms(3) w num by (cases c) (auto simp: sconvert_def kbind_Ok sprint_ptr_def simp del: sput_upto.simps split: if_splits)
qed

lemma vsnprintf_from_wrote:
  "vsnprintf_from string_end fmt i ap s = Some (Ok s') \<Longrightarrow> unat string_end + 1 < 2 ^ 64 \<Longrightarrow> unat (fst s) \<le> unat string_end + 1 \<Longrightarrow>
   wrote string_end s s'"
proof (induction string_end fmt i ap s rule: vsnprintf_from.induct)
  case (1 string_end fmt i ap s)
  note step = vsnprintf_from.simps [of string_end fmt i ap s]
  show ?case
  proof (cases "fmt_at fmt i = 0 \<or> \<not> fst s \<le> string_end")
    case True
    then have "s' = s" using 1(3) by (simp add: step)
    then show ?thesis using 1(5) by (simp add: wrote_refl)
  next
    case False
    then have le: "fst s \<le> string_end" by simp
    show ?thesis
    proof (cases "fmt_at fmt i = 37")
      case lit: False
      note one = wrote_one(1) [OF le 1(4), of "fmt_at fmt i"] wrote_one(2) [OF le 1(4)]
      have "wrote string_end (fst s + 1, (snd s)(fst s := fmt_at fmt i)) s'"
        using 1(1) [OF False] 1(3,4) lit False one(2) le by (simp add: step word_le_nat_alt)
      then show ?thesis by (rule wrote_trans [OF one(1)])
    next
      case pc: True
      define c where "c = fst (look3 sconversion fmt (i + 1))"
      define j where "j = snd (look3 sconversion fmt (i + 1))"
      show ?thesis
      proof (cases "c = U_end")
        case True
        then have "s' = s" using 1(3) False pc by (simp add: step c_def Let_def)
        then show ?thesis using 1(5) by (simp add: wrote_refl)
      next
        case notend: False
        then obtain ap1 s1 where s1: "sconvert string_end c ap s = Some (Ok (ap1, s1))" "vsnprintf_from string_end fmt (j + 1) ap1 s1 = Some (Ok s')"
          using 1(3) False pc by (auto simp: step Let_def kbind_Ok c_def j_def)
        note w = sconvert_wrote [OF 1(4) le s1(1)]
        have "unat (fst s1) \<le> unat string_end + 1" using w by (simp add: wrote_def)
        then have "wrote string_end s1 s'" using 1(2) [OF False _ c_def j_def notend s1(2) 1(4)] pc by simp
        then show ?thesis by (rule wrote_trans [OF w])
      qed
    qed
  qed
qed

section \<open>Properties\<close>

lemma string_end_unat:
  assumes "unat str + unat sz < 2 ^ 64" "(sz :: u64) \<noteq> 0"
  shows "unat (str + sz - 1) = unat str + unat sz - 1"
proof -
  have s: "unat (str + sz) = unat str + unat sz" using assms(1) by (simp add: unat_word_ariths)
  have "0 < unat sz" using assms(2) by (simp add: unat_gt_0)
  then show ?thesis using unat_diff [of "str + sz" 1] s by simp
qed

lemma store_bytes_one: "store_bytes m a [x] = m(a := x)"
  by (auto simp: store_bytes_def fun_eq_iff unat_eq_zero)

lemma store_bytes_Cons:
  assumes "length xs < 2 ^ 64"
  shows "store_bytes (m(a := x)) (a + 1) xs = store_bytes m a (x # xs)"
  using store_bytes_append [of "[x]" xs m a] assms by (simp add: store_bytes_one)

text \<open>Plain characters fill the buffer.\<close>

lemma literal_fills:
  assumes "unat str + unat sz < 2 ^ 64" "sz \<noteq> 0" "37 \<notin> set fmt" "0 \<notin> set fmt" "unat sz \<le> length fmt" "i \<le> unat sz"
  shows "vsnprintf_from (str + sz - 1) fmt i ap (str + of_nat i, m) =
    Some (Ok (str + of_nat (unat sz), store_bytes m (str + of_nat i) (take (unat sz - i) (drop i fmt))))"
  using assms(6)
proof (induction "unat sz - i" arbitrary: i m)
  case 0
  then have i: "i = unat sz" by simp
  have "unat (str + sz) = unat str + unat sz" using assms(1) by (simp add: unat_word_ariths)
  moreover have "0 < unat sz" using assms(2) by (simp add: unat_gt_0)
  ultimately have "\<not> str + of_nat i \<le> str + sz - 1"
    using string_end_unat [OF assms(1,2)] i by (simp add: word_le_nat_alt)
  then show ?case using i by (subst vsnprintf_from.simps) simp
next
  case (Suc k)
  then have il: "i < unat sz" by simp
  have ui: "unat (str + of_nat i) = unat str + i" using il assms(1) by (simp add: unat_word_ariths unat_of_nat)
  then have le: "str + of_nat i \<le> str + sz - 1" using string_end_unat [OF assms(1,2)] il by (simp add: word_le_nat_alt)
  have c: "fmt_at fmt i = fmt ! i" "fmt ! i \<noteq> 0" "fmt ! i \<noteq> 37"
  proof -
    have l: "i < length fmt" using il assms(5) by simp
    then show "fmt_at fmt i = fmt ! i" by (simp add: fmt_at_def)
    show "fmt ! i \<noteq> 0" "fmt ! i \<noteq> 37" using nth_mem [OF l] assms(3,4) by auto
  qed
  have "str + of_nat i + 1 = str + of_nat (i + 1)" by (simp add: add.assoc add.commute)
  then have "vsnprintf_from (str + sz - 1) fmt i ap (str + of_nat i, m) =
      vsnprintf_from (str + sz - 1) fmt (i + 1) ap (str + of_nat (i + 1), m(str + of_nat i := fmt ! i))"
    using c le by (subst vsnprintf_from.simps) (simp add: ac_simps)
  also have "\<dots> = Some (Ok (str + of_nat (unat sz), store_bytes (m(str + of_nat i := fmt ! i)) (str + of_nat (i + 1)) (take (unat sz - (i + 1)) (drop (i + 1) fmt))))"
    using Suc.hyps(1) [of "i + 1"] Suc.hyps(2) il by (simp del: of_nat_add)
  also have "store_bytes (m(str + of_nat i := fmt ! i)) (str + of_nat (i + 1)) (take (unat sz - (i + 1)) (drop (i + 1) fmt)) =
      store_bytes m (str + of_nat i) (take (unat sz - i) (drop i fmt))"
  proof -
    have "drop i fmt = fmt ! i # drop (i + 1) fmt" using il assms(5) by (simp add: Cons_nth_drop_Suc)
    moreover have "unat sz - i = Suc (unat sz - (i + 1))" using il by simp
    ultimately have t: "take (unat sz - i) (drop i fmt) = fmt ! i # take (unat sz - (i + 1)) (drop (i + 1) fmt)" by simp
    have "length (take (unat sz - (i + 1)) (drop (i + 1) fmt)) < 2 ^ 64" using assms(1) by simp
    from store_bytes_Cons [OF this, of m "str + of_nat i" "fmt ! i"] show ?thesis unfolding t by (simp add: ac_simps)
  qed
  finally show ?case .
qed

text \<open>
  C32: \<^verbatim>\<open>vsnprintf\<close> of the C library writes a string of at most \<open>size\<close> characters and its terminating zero to consecutive bytes from \<^verbatim>\<open>str\<close> on,
  whatever the format and the arguments are, and changes no other byte. This is one byte more than the buffer has: a format without
  conversions that has at least \<open>size\<close> characters fills the buffer and puts the zero behind it.
\<close>

theorem vsnprintf_one_too_far:
  assumes "unat str + unat sz < 2 ^ 64" "sz \<noteq> 0"
  shows "(vsnprintf str sz fmt ap m = Some (Ok m') \<longrightarrow>
      (\<exists>n \<le> unat sz. m' (str + of_nat n) = 0 \<and> (\<forall>a. \<not> in_range str (n + 1) a \<longrightarrow> m' a = m a))) \<and>
    (37 \<notin> set fmt \<and> 0 \<notin> set fmt \<and> unat sz \<le> length fmt \<longrightarrow>
      vsnprintf str sz fmt ap m = Some (Ok (store_bytes m str (take (unat sz) fmt @ [0]))))"
proof (intro conjI impI)
  define e where "e = str + sz - 1"
  have sz: "0 < unat sz" using assms(2) by (simp add: unat_gt_0)
  have e: "unat e = unat str + unat sz - 1" "unat e + 1 < 2 ^ 64"
    using string_end_unat [OF assms] assms(1) sz by (simp_all add: e_def)
  show "\<exists>n \<le> unat sz. m' (str + of_nat n) = 0 \<and> (\<forall>a. \<not> in_range str (n + 1) a \<longrightarrow> m' a = m a)"
    if v0: "vsnprintf str sz fmt ap m = Some (Ok m')"
  proof -
    obtain str1 m1 where v: "vsnprintf_from e fmt 0 ap (str, m) = Some (Ok (str1, m1))" "m' = m1(str1 := 0)"
      using v0 assms(2) by (auto simp: vsnprintf_def kbind_Ok e_def)
    have "wrote e (str, m) (str1, m1)" by (rule vsnprintf_from_wrote [OF v(1) e(2)]) (simp add: e(1))
    then have w: "unat str \<le> unat str1" "unat str1 \<le> unat str + unat sz" "\<And>a. a < str \<or> str1 \<le> a \<Longrightarrow> m1 a = m a"
      using e(1) sz by (auto simp: wrote_def)
    define n where "n = unat str1 - unat str"
    have n: "str + of_nat n = str1" using w(1) by (simp add: n_def)
    have "m' a = m a" if "\<not> in_range str (n + 1) a" for a
    proof -
      have "a \<noteq> str1" using that w(1) by (auto simp: in_range_def n_def unat_diff)
      moreover have "a < str \<or> str1 \<le> a"
        using that w(1) unat_diff [of a str] by (auto simp: in_range_def n_def word_le_nat_alt word_less_nat_alt split: if_splits)
      ultimately show ?thesis using w(3) v(2) by simp
    qed
    then show ?thesis using n w(2) v(2) by (intro exI [of _ n]) (simp add: n_def)
  qed
  show "vsnprintf str sz fmt ap m = Some (Ok (store_bytes m str (take (unat sz) fmt @ [0])))"
    if f: "37 \<notin> set fmt \<and> 0 \<notin> set fmt \<and> unat sz \<le> length fmt"
  proof -
    have "vsnprintf_from e fmt 0 ap (str, m) = Some (Ok (str + of_nat (unat sz), store_bytes m str (take (unat sz) fmt)))"
      using literal_fills [OF assms, of fmt 0 ap m] f by (simp add: e_def)
    moreover have "(store_bytes m str xs)(str + of_nat (length xs) := 0) = store_bytes m str (xs @ [0])" if "length xs < 2 ^ 64" for xs
      using store_bytes_append [of xs "[0]" m str] that by (simp add: store_bytes_one)
    from this [of "take (unat sz) fmt"] have "(store_bytes m str (take (unat sz) fmt))(str + of_nat (unat sz) := 0) = store_bytes m str (take (unat sz) fmt @ [0])"
      using f assms(1) by (simp add: min_absorb2)
    ultimately show ?thesis using assms(2) by (simp add: vsnprintf_def e_def)
  qed
qed

theorem vsnprintf_one_too_far_witness:
  "vsnprintf 0x1000 2 [97, 98] ([] :: unit va list) (\<lambda>_. 7) = Some (Ok (store_bytes (\<lambda>_. 7) 0x1000 [97, 98, 0]))"
  using vsnprintf_one_too_far [of "0x1000" 2 "[97, 98]" "[]" "\<lambda>_. 7", THEN conjunct2] by simp

end
