(* ===== verification/Rtc.thy ===== *)
theory Rtc
  imports Prelude
begin

text \<open>
  The driver of the real-time clock, \<^verbatim>\<open>drivers/drv_rtc.c\<close>: reading the clock of the CMOS until two readings agree, converting the
  date into seconds since 1970, and the time of the system from the time-stamp counter. The CMOS is a machine that answers to reads of its
  registers; the calibration of the counter, written in assembly language, is a parameter.
\<close>

section \<open>The registers of the clock\<close>

definition Seconds :: u8 where "Seconds = 0x00"
definition Minutes :: u8 where "Minutes = 0x02"
definition Hours :: u8 where "Hours = 0x04"
definition DayOfMonth :: u8 where "DayOfMonth = 0x07"
definition Month :: u8 where "Month = 0x08"
definition Year :: u8 where "Year = 0x09"
definition StatusRegisterA :: u8 where "StatusRegisterA = 0x0A"
definition StatusRegisterB :: u8 where "StatusRegisterB = 0x0B"

type_synonym 's cmos = "u8 \<Rightarrow> 's \<Rightarrow> u8 \<times> 's"

definition is_rtc_updating :: "'s cmos \<Rightarrow> 's \<Rightarrow> bool \<times> 's" where
  "is_rtc_updating read_rtc_register s = (let (a, s1) = read_rtc_register StatusRegisterA s in (a AND 0x80 \<noteq> 0, s1))"

partial_function (option) wait_updating :: "'s cmos \<Rightarrow> 's \<Rightarrow> 's option" where
  "wait_updating cm s = (case is_rtc_updating cm s of (u, s1) \<Rightarrow> if u then wait_updating cm s1 else Some s1)"

record rtc_fields =
  f_seconds :: u8
  f_minutes :: u8
  f_hours :: u8
  f_year :: u8
  f_dayofmonth :: u8
  f_month :: u8

definition read_fields :: "'s cmos \<Rightarrow> 's \<Rightarrow> rtc_fields \<times> 's" where
  "read_fields cm s =
     (let (seconds, s) = cm Seconds s; (minutes, s) = cm Minutes s; (hours, s) = cm Hours s;
          (year, s) = cm Year s; (dayofmonth, s) = cm DayOfMonth s; (month, s) = cm Month s
      in (\<lparr>f_seconds = seconds, f_minutes = minutes, f_hours = hours, f_year = year, f_dayofmonth = dayofmonth, f_month = month\<rparr>, s))"

partial_function (option) stable_fields :: "'s cmos \<Rightarrow> rtc_fields \<Rightarrow> 's \<Rightarrow> (rtc_fields \<times> 's) option" where
  "stable_fields cm before s =
     Option.bind (wait_updating cm s) (\<lambda>s1.
       case read_fields cm s1 of (now, s2) \<Rightarrow> if now = before then Some (now, s2) else stable_fields cm now s2)"

section \<open>The date in seconds\<close>

definition convert_bcd_to_binary :: "u8 \<Rightarrow> u64" where
  "convert_bcd_to_binary v = ucast (v div 16) * 10 + ucast (v AND 0x0f)"

definition binary_fields :: "bool \<Rightarrow> rtc_fields \<Rightarrow> rtc_fields" where
  "binary_fields is_binary f =
     (if is_binary then f
      else \<lparr>f_seconds = ucast (convert_bcd_to_binary (f_seconds f)), f_minutes = ucast (convert_bcd_to_binary (f_minutes f)),
            f_hours = ucast (convert_bcd_to_binary (f_hours f)), f_year = ucast (convert_bcd_to_binary (f_year f)),
            f_dayofmonth = ucast (convert_bcd_to_binary (f_dayofmonth f)), f_month = ucast (convert_bcd_to_binary (f_month f))\<rparr>)"

definition daysPerMonth :: "u64 list" where
  "daysPerMonth = [31, 28, 31, 30, 31, 30, 31, 31, 30, 31, 30, 31]"

definition leap_years :: "u64 \<Rightarrow> u64" where
  "leap_years years = years div 4 + (if years mod 4 > 1 then 1 else 0)"

text \<open>The months before the given one; the array has 12 elements.\<close>

definition days_of_months :: "u8 \<Rightarrow> u64 outcome" where
  "days_of_months month =
     (if unat month - 1 > 12 then Panic ''daysPerMonth'' else Ok (sum_list (take (unat month - 1) daysPerMonth)))"

definition rtc_seconds :: "rtc_fields \<Rightarrow> u64 outcome" where
  "rtc_seconds f =
     (let yearsSinceEpoch = (2000 + ucast (f_year f)) - 1970;
          leapYears = leap_years yearsSinceEpoch in
      obind (days_of_months (f_month f)) (\<lambda>days.
        let daysCurrentYear = days + ucast (f_dayofmonth f);
            daysSinceEpoch = yearsSinceEpoch * 365 - 1;
            unixTimeOfDay = ucast (f_hours f) * 3600 + ucast (f_minutes f) * 60 + ucast (f_seconds f)
        in Ok (daysSinceEpoch * 86400 + leapYears * 86400 + daysCurrentYear * 86400 + unixTimeOfDay)))"

definition read_rtc_time :: "'s cmos \<Rightarrow> 's \<Rightarrow> (u64 \<times> 's) outcome option" where
  "read_rtc_time cm s =
     Option.bind (wait_updating cm s) (\<lambda>s1.
       let (status_b, s2) = cm StatusRegisterB s1; (first, s3) = read_fields cm s2 in
       Option.bind (stable_fields cm first s3) (\<lambda>(f, s4).
         Some (obind (rtc_seconds (binary_fields (status_b AND 0x04 \<noteq> 0) f)) (\<lambda>t. Ok (t, s4)))))"

section \<open>The device\<close>

definition RTC_PRECISION :: u64 where "RTC_PRECISION = 1000000"

record rtc_device_data =
  tsc_frequency :: u64
  initial_rtc :: u64
  initial_tsc :: u64

text \<open>
  Up to three attempts of \<^verbatim>\<open>quick_pit_calibrate\<close>, whose results are given; the memory for the data is there or not.
\<close>

primrec calibrate :: "u64 list \<Rightarrow> u64 option" where
  "calibrate [] = None"
| "calibrate (f # fs) = (if 500000000 \<le> f \<and> f \<le> 10000000000 then Some f else calibrate fs)"

definition rtc_init :: "bool \<Rightarrow> u64 \<times> u64 \<times> u64 \<Rightarrow> 's cmos \<Rightarrow> u64 \<Rightarrow> 's \<Rightarrow> (int \<times> rtc_device_data option \<times> 's) outcome option" where
  "rtc_init has_memory results cm tsc s =
     (if \<not> has_memory then Some (Ok (-1, None, s))
      else case results of (a, b, c) \<Rightarrow>
        (case calibrate [a, b, c] of
           None \<Rightarrow> Some (Ok (-1, None, s))
         | Some f \<Rightarrow> kbind (read_rtc_time cm s) (\<lambda>(t, s1).
             Some (Ok (0, Some \<lparr>tsc_frequency = f, initial_rtc = t * RTC_PRECISION, initial_tsc = tsc\<rparr>, s1)))))"

text \<open>Command 0 of \<^verbatim>\<open>rtc_ioctl\<close>: the time in microseconds. Command 2 waits, and is left out.\<close>

definition rtc_time_us :: "rtc_device_data \<Rightarrow> u64 \<Rightarrow> u64" where
  "rtc_time_us d tsc =
     (let tsc_diff = tsc - initial_tsc d; us_elapsed = (tsc_diff * RTC_PRECISION) div tsc_frequency d
      in initial_rtc d + us_elapsed)"

definition rtc_ioctl :: "rtc_device_data option \<Rightarrow> u32 \<Rightarrow> u64 \<Rightarrow> int \<times> u64 option" where
  "rtc_ioctl data cmd tsc =
     (case data of
        None \<Rightarrow> (-1, None)
      | Some d \<Rightarrow>
          if cmd = 0 then (0, Some (rtc_time_us d tsc))
          else if cmd = 1 then (0, Some (tsc_frequency d))
          else if cmd = 2 then (0, None)
          else (-1, None))"

definition rtc_now :: "rtc_device_data option \<Rightarrow> u64 \<Rightarrow> u64" where
  "rtc_now data tsc = (case data of None \<Rightarrow> 0 | Some d \<Rightarrow> the (snd (rtc_ioctl (Some d) 0 tsc)))"

section \<open>The calendar\<close>

text \<open>The reference: days since the first of January 1970 in the Gregorian calendar.\<close>

definition is_leap :: "nat \<Rightarrow> bool" where
  "is_leap y \<longleftrightarrow> 4 dvd y \<and> (\<not> 100 dvd y \<or> 400 dvd y)"

definition year_days :: "nat \<Rightarrow> nat" where
  "year_days y = (if is_leap y then 366 else 365)"

definition month_days :: "nat \<Rightarrow> nat \<Rightarrow> nat" where
  "month_days y m = (if m = 2 \<and> is_leap y then 29 else [31, 28, 31, 30, 31, 30, 31, 31, 30, 31, 30, 31] ! (m - 1))"

definition days_since_1970 :: "nat \<Rightarrow> nat \<Rightarrow> nat \<Rightarrow> nat" where
  "days_since_1970 y m d = (\<Sum>i\<leftarrow>[1970..<y]. year_days i) + (\<Sum>i\<leftarrow>[1..<m]. month_days y i) + (d - 1)"

end
