(* ===== verification/Rtc_Props.thy ===== *)
theory Rtc_Props
  imports Rtc
begin

text \<open>
  Properties of the real-time clock: the seconds computed from the registers against the reference calendar of theory \<open>Rtc\<close>, and the range
  in which the clock of the system advances.
\<close>

section \<open>Leap years\<close>

lemma leap_after_1970:
  assumes "i < 130"
  shows "is_leap (1970 + i) \<longleftrightarrow> i mod 4 = 2"
proof -
  have a: "4 dvd 1970 + i \<longleftrightarrow> i mod 4 = 2" by presburger
  have b: "100 dvd 1970 + i \<Longrightarrow> 400 dvd 1970 + i" using assms by presburger
  show ?thesis using a b unfolding is_leap_def by blast
qed

lemma leap_days_sum:
  "n \<le> 130 \<Longrightarrow> (\<Sum>i\<leftarrow>[1970..<1970 + n]. year_days i) = 365 * n + (n + 1) div 4"
proof (induction n)
  case (Suc n)
  have "(\<Sum>i\<leftarrow>[1970..<1970 + Suc n]. year_days i) = 365 * n + (n + 1) div 4 + year_days (1970 + n)"
  proof -
    have "[1970..<1970 + Suc n] = [1970..<1970 + n] @ [1970 + n]" by (simp only: add_Suc_right upt_Suc) simp
    then show ?thesis using Suc by (simp only: map_append sum_list.append) simp
  qed
  also have "\<dots> = 365 * Suc n + (Suc n + 1) div 4"
  proof (cases "n mod 4 = 2")
    case True
    then have "(Suc n + 1) div 4 = (n + 1) div 4 + 1" by presburger
    then show ?thesis using True leap_after_1970 [of n] Suc.prems by (simp add: year_days_def)
  next
    case False
    then have "(Suc n + 1) div 4 = (n + 1) div 4" by presburger
    then show ?thesis using False leap_after_1970 [of n] Suc.prems by (simp add: year_days_def)
  qed
  finally show ?case .
qed simp

text \<open>The days before a month, in a year that is not a leap year.\<close>

definition month_start :: "nat \<Rightarrow> nat" where
  "month_start m = [0, 31, 59, 90, 120, 151, 181, 212, 243, 273, 304, 334] ! (m - 1)"

lemma months_sum:
  assumes "1 \<le> m" "m \<le> 12"
  shows "(\<Sum>i\<leftarrow>[1..<m]. month_days y i) = month_start m + (if is_leap y \<and> 2 < m then 1 else 0)"
    "unat (sum_list (take (m - 1) daysPerMonth)) = month_start m" "month_start m < 365"
proof -
  have "m = 1 \<or> m = 2 \<or> m = 3 \<or> m = 4 \<or> m = 5 \<or> m = 6 \<or> m = 7 \<or> m = 8 \<or> m = 9 \<or> m = 10 \<or> m = 11 \<or> m = 12" using assms by arith
  then show "(\<Sum>i\<leftarrow>[1..<m]. month_days y i) = month_start m + (if is_leap y \<and> 2 < m then 1 else 0)"
    by (elim disjE; hypsubst; simp add: month_days_def month_start_def upt_rec)
  show "unat (sum_list (take (m - 1) daysPerMonth)) = month_start m" "month_start m < 365"
    using \<open>m = 1 \<or> m = 2 \<or> m = 3 \<or> m = 4 \<or> m = 5 \<or> m = 6 \<or> m = 7 \<or> m = 8 \<or> m = 9 \<or> m = 10 \<or> m = 11 \<or> m = 12\<close>
    by (elim disjE; hypsubst; simp add: month_start_def daysPerMonth_def)+
qed

text \<open>
  C33: the seconds of a date between 2000 and 2099. For valid months \<^verbatim>\<open>read_rtc_time\<close> computes the Unix time of the date and the time of
  day, except that in January and February of a leap year the result is a whole day too late, since the leap day of the year is counted at once.
\<close>

theorem rtc_seconds_correct:
  assumes "unat (f_year f) < 100" "1 \<le> unat (f_month f)" "unat (f_month f) \<le> 12" "1 \<le> unat (f_dayofmonth f)"
  shows "\<exists>t. rtc_seconds f = Ok t \<and> unat t =
    (days_since_1970 (2000 + unat (f_year f)) (unat (f_month f)) (unat (f_dayofmonth f)) +
      (if is_leap (2000 + unat (f_year f)) \<and> unat (f_month f) \<le> 2 then 1 else 0)) * 86400 +
    unat (f_hours f) * 3600 + unat (f_minutes f) * 60 + unat (f_seconds f)"
proof -
  define y m d where "y = unat (f_year f)" and "m = unat (f_month f)" and "d = unat (f_dayofmonth f)"
  define n where "n = 30 + y"
  have b: "y < 100" "1 \<le> m" "m \<le> 12" "1 \<le> d" using assms by (simp_all add: y_def m_def d_def)
  define tod where "tod = unat (f_hours f) * 3600 + unat (f_minutes f) * 60 + unat (f_seconds f)"
  have u8: "unat (x :: u8) < 256" for x using unsigned_less [of x, where ?'a = nat] by simp
  have tod: "tod < 2 ^ 20" unfolding tod_def using u8 [of "f_hours f"] u8 [of "f_minutes f"] u8 [of "f_seconds f"] by simp
  have uc: "unat (ucast x :: u64) = unat x" for x :: u8 by (simp add: unsigned_ucast_eq take_bit_nat_eq_self u8 less_trans [OF u8])
  define w where "w = (2000 + ucast (f_year f) - 1970 :: u64)"
  have w: "unat w = n"
  proof -
    have "w = ucast (f_year f) + 30" by (simp add: w_def)
    then show ?thesis using b(1) uc [of "f_year f"] by (simp add: n_def y_def unat_word_ariths)
  qed
  have wn: "w = of_nat n" by (simp add: w [symmetric])
  have leap: "leap_years w = of_nat ((n + 2) div 4)"
  proof -
    have dm: "unat (w div 4) = n div 4" "unat (w mod 4) = n mod 4" by (simp_all add: unat_div unat_mod w)
    have "w div 4 = of_nat (n div 4)" unfolding dm(1) [symmetric] by simp
    moreover have "w mod 4 > 1 \<longleftrightarrow> n mod 4 > 1" by (simp add: word_less_nat_alt dm(2))
    ultimately have "leap_years w = of_nat (n div 4 + (if n mod 4 > 1 then 1 else 0))" by (simp add: leap_years_def)
    moreover have "n div 4 + (if n mod 4 > 1 then 1 else 0) = (n + 2) div 4" by (cases "n mod 4 > 1") (simp, presburger)+
    ultimately show ?thesis by metis
  qed
  have days: "days_of_months (f_month f) = Ok (sum_list (take (m - 1) daysPerMonth))" using b(3) by (simp add: days_of_months_def m_def)
  define t where "t = (w * 365 - 1) * 86400 + leap_years w * 86400 + (sum_list (take (m - 1) daysPerMonth) + ucast (f_dayofmonth f)) * 86400 +
    (ucast (f_hours f) * 3600 + ucast (f_minutes f) * 60 + ucast (f_seconds f))"
  have "rtc_seconds f = Ok t" by (simp add: rtc_seconds_def w_def [symmetric] days t_def Let_def)
  moreover have "unat t = (n * 365 - 1 + (n + 2) div 4 + (month_start m + d)) * 86400 + tod"
  proof -
    have s: "sum_list (take (m - 1) daysPerMonth) = of_nat (month_start m)" unfolding months_sum(2) [OF b(2,3), symmetric] by simp
    have u: "(ucast x :: u64) = of_nat (unat x)" for x :: u8 unfolding uc [symmetric] by simp
    have "(of_nat n * 365 - 1 :: u64) = of_nat (n * 365 - 1)" by (simp add: n_def of_nat_diff)
    then have "t = of_nat ((n * 365 - 1 + (n + 2) div 4 + (month_start m + d)) * 86400 + tod)"
      unfolding t_def leap s u tod_def d_def unfolding wn by (simp only: of_nat_add of_nat_mult of_nat_numeral distrib_right)
    moreover have "(n * 365 - 1 + (n + 2) div 4 + (month_start m + d)) * 86400 + tod < 2 ^ 64"
    proof -
      have "(n + 2) div 4 \<le> n + 2" by simp
      then have "n * 365 - 1 + (n + 2) div 4 + (month_start m + d) \<le> 365 * 130 + 132 + 365 + 256"
        using b(1) months_sum(3) [OF b(2,3)] u8 [of "f_dayofmonth f"] by (simp add: n_def d_def)
      then show ?thesis using tod by simp
    qed
    ultimately show ?thesis by (simp only: unat_of_nat_u64)
  qed
  moreover have "n * 365 - 1 + (n + 2) div 4 + (month_start m + d) =
      days_since_1970 (2000 + y) m d + (if is_leap (2000 + y) \<and> m \<le> 2 then 1 else 0)"
  proof -
    have y: "2000 + y = 1970 + n" "n \<le> 130" "n < 130" using b(1) by (simp_all add: n_def)
    have l: "is_leap (2000 + y) \<longleftrightarrow> n mod 4 = 2" unfolding y(1) by (rule leap_after_1970 [OF y(3)])
    have "(n + 2) div 4 = (n + 1) div 4 + (if n mod 4 = 2 then 1 else 0)" by (cases "n mod 4 = 2") (simp, presburger)+
    moreover have "days_since_1970 (2000 + y) m d = 365 * n + (n + 1) div 4 + (month_start m + (if n mod 4 = 2 \<and> 2 < m then 1 else 0)) + (d - 1)"
      unfolding days_since_1970_def months_sum(1) [OF b(2,3)] l y(1) leap_days_sum [OF y(2)] by (simp only: l [unfolded y(1)])
    moreover have "1 \<le> n" by (simp add: n_def)
    ultimately show ?thesis using b(4) unfolding l by auto
  qed
  ultimately show ?thesis unfolding y_def m_def d_def tod_def by auto
qed

theorem rtc_seconds_correct_witness:
  "\<exists>t. rtc_seconds \<lparr>f_seconds = 5, f_minutes = 4, f_hours = 3, f_year = 24, f_dayofmonth = 1, f_month = 2\<rparr> = Ok t \<and>
     unat t = (days_since_1970 2024 2 1 + 1) * 86400 + 3 * 3600 + 4 * 60 + 5"
  using rtc_seconds_correct [of "\<lparr>f_seconds = 5, f_minutes = 4, f_hours = 3, f_year = 24, f_dayofmonth = 1, f_month = 2\<rparr>"]
  by (simp add: is_leap_def)

section \<open>The time of the system\<close>

text \<open>
  The clock of the system. As long as the product of the elapsed ticks and a million fits into 64 bits, \<^verbatim>\<open>rtc_now\<close> is the start time
  plus the elapsed microseconds, rounded down, and it does not run backwards. After \<open>18446744073710\<close> ticks the product wraps around and
  the clock is set back to the start: for a counter of 3 GHz this takes less than two hours.
\<close>

theorem rtc_now_wraps:
  assumes "tsc_frequency d \<noteq> 0"
  shows "(\<forall>x y. unat x * 1000000 < 2 ^ 64 \<longrightarrow> x \<le> y \<longrightarrow> unat y * 1000000 < 2 ^ 64 \<longrightarrow>
       unat (initial_rtc d) + unat y * 1000000 div unat (tsc_frequency d) < 2 ^ 64 \<longrightarrow>
       unat (rtc_now (Some d) (initial_tsc d + y)) = unat (initial_rtc d) + unat y * 1000000 div unat (tsc_frequency d) \<and>
       rtc_now (Some d) (initial_tsc d + x) \<le> rtc_now (Some d) (initial_tsc d + y)) \<and>
     (500000000 \<le> tsc_frequency d \<longrightarrow> rtc_now (Some d) (initial_tsc d + 18446744073710) = initial_rtc d)"
proof -
  have now: "rtc_now (Some d) (initial_tsc d + y) = initial_rtc d + (y * 1000000) div tsc_frequency d" for y
    by (simp add: rtc_now_def rtc_ioctl_def rtc_time_us_def RTC_PRECISION_def)
  define f where "f = unat (tsc_frequency d)"
  have exact: "unat (rtc_now (Some d) (initial_tsc d + y)) = unat (initial_rtc d) + unat y * 1000000 div f"
    if "unat y * 1000000 < 2 ^ 64" "unat (initial_rtc d) + unat y * 1000000 div f < 2 ^ 64" for y
  proof -
    have "unat (y * 1000000) = unat y * 1000000" using that(1) by (simp add: unat_word_ariths)
    then have "unat ((y * 1000000) div tsc_frequency d) = unat y * 1000000 div f" by (simp add: unat_div f_def)
    then show ?thesis using that(2) by (simp add: now unat_word_ariths)
  qed
  have mono: "rtc_now (Some d) (initial_tsc d + x) \<le> rtc_now (Some d) (initial_tsc d + y)"
    if "unat x * 1000000 < 2 ^ 64" "x \<le> y" "unat y * 1000000 < 2 ^ 64" "unat (initial_rtc d) + unat y * 1000000 div f < 2 ^ 64" for x y
  proof -
    have le: "unat x * 1000000 div f \<le> unat y * 1000000 div f" using that(2) by (intro div_le_mono mult_le_mono1) (simp add: word_le_nat_alt)
    then have "unat (initial_rtc d) + unat x * 1000000 div f < 2 ^ 64" using that(4) by linarith
    then show ?thesis using exact [OF that(1)] exact [OF that(3,4)] le by (simp add: word_le_nat_alt)
  qed
  have zero: "(18446744073710 * 1000000 :: u64) div tsc_frequency d = 0" if "500000000 \<le> tsc_frequency d"
  proof -
    have eq: "(18446744073710 * 1000000 :: u64) = 448384" by simp
    have "448384 < tsc_frequency d" using that by (simp add: word_le_nat_alt word_less_nat_alt)
    then show ?thesis unfolding eq by (simp add: div_word_less)
  qed
  show ?thesis
  proof (intro conjI allI impI, goal_cases)
    case (1 x y)
    then show ?case using exact [of y] unfolding f_def by blast
  next
    case (2 x y)
    then show ?case using mono [of x y] unfolding f_def by blast
  next
    case 3
    show ?case unfolding now zero [OF 3] by simp
  qed
qed

theorem rtc_now_wraps_witness:
  "rtc_now (Some \<lparr>tsc_frequency = 3000000000, initial_rtc = 1000, initial_tsc = 7\<rparr>) (7 + 6000000000) = 2001000 \<and>
   rtc_now (Some \<lparr>tsc_frequency = 3000000000, initial_rtc = 1000, initial_tsc = 7\<rparr>) (7 + 18446744073710) = 1000"
  using rtc_now_wraps [of "\<lparr>tsc_frequency = 3000000000, initial_rtc = 1000, initial_tsc = 7\<rparr>"]
  by (simp add: rtc_now_def rtc_ioctl_def rtc_time_us_def RTC_PRECISION_def)

end
