(* ===== verification/Traces.thy ===== *)
theory Traces
  imports Prelude
begin

text \<open>
  Devices are driven by events: interrupts and calls. A run is a sequence of events, each of which may produce output; the interface
  \<open>event_simulation\<close> states that every event is simulated by an abstract one, and gives the same for runs.
\<close>

primrec run_events :: "('e \<Rightarrow> 's \<Rightarrow> ('o list \<times> 's) outcome) \<Rightarrow> 'e list \<Rightarrow> 's \<Rightarrow> ('o list \<times> 's) outcome" where
  "run_events step [] s = Ok ([], s)"
| "run_events step (e # es) s =
     obind (step e s) (\<lambda>(out, s1). obind (run_events step es s1) (\<lambda>(out', s2). Ok (out @ out', s2)))"

primrec spec_run :: "('e \<Rightarrow> 'a \<Rightarrow> 'o list \<times> 'a) \<Rightarrow> 'e list \<Rightarrow> 'a \<Rightarrow> 'o list \<times> 'a" where
  "spec_run spec [] a = ([], a)"
| "spec_run spec (e # es) a = (let (out, a1) = spec e a; (out', a2) = spec_run spec es a1 in (out @ out', a2))"

locale event_simulation =
  fixes step :: "'e \<Rightarrow> 's \<Rightarrow> ('o list \<times> 's) outcome"
    and inv :: "'s \<Rightarrow> bool"
    and abs :: "'s \<Rightarrow> 'a"
    and spec :: "'e \<Rightarrow> 'a \<Rightarrow> 'o list \<times> 'a"
  assumes simulates: "inv s \<Longrightarrow> \<exists>out s'. step e s = Ok (out, s') \<and> inv s' \<and> spec e (abs s) = (out, abs s')"
begin

lemma run_simulates:
  "inv s \<Longrightarrow> \<exists>out s'. run_events step es s = Ok (out, s') \<and> inv s' \<and> spec_run spec es (abs s) = (out, abs s')"
proof (induction es arbitrary: s)
  case (Cons e es)
  from simulates [OF Cons.prems, of e] obtain out s1
    where 1: "step e s = Ok (out, s1)" "inv s1" "spec e (abs s) = (out, abs s1)" by blast
  from Cons.IH [OF 1(2)] obtain out' s2
    where "run_events step es s1 = Ok (out', s2)" "inv s2" "spec_run spec es (abs s1) = (out', abs s2)" by blast
  with 1 show ?case by simp
qed simp

end

end
