(* ===== verification/Serial.thy ===== *)
theory Serial
  imports Traces
begin

text \<open>
  The serial port (\<^verbatim>\<open>kernel/src/drivers/drv_serial.c\<close>): a ring buffer that the interrupt handler fills and readers empty. What the port is sent is
  recorded; waiting for the transmitter only takes time. A reader that finds the buffer empty waits on the condition variable, which is the result
  \<open>None\<close>: the call goes on with the same test when it is woken.
\<close>

section \<open>The driver\<close>

definition PORT :: u16 where "PORT = 0x3f8"
definition SERIAL_BUFFER_LENGTH :: nat where "SERIAL_BUFFER_LENGTH = 128"
definition IRQ_COM1 :: u8 where "IRQ_COM1 = 4"

record serial_device_data =
  input_buffer :: "u8 list"
  read_index :: u8
  write_index :: u8
  sd_initialized :: bool

text \<open>
  The device with its \<^verbatim>\<open>driver_data\<close>, and what happened outside of it: bytes sent, other ports written, interrupts enabled, calls of
  \<^verbatim>\<open>condvar_notify_all\<close> and of \<^verbatim>\<open>lapic_send_eoi\<close>.
\<close>

record serial_dev =
  driver_data :: "serial_device_data option"
  dev_irq :: u8
  sent :: "u8 list"
  port_writes :: "(u16 \<times> u8) list"
  enabled_irqs :: "u8 list"
  notified :: nat
  eois :: nat

definition serial_putc :: "u8 \<Rightarrow> serial_dev \<Rightarrow> serial_dev" where
  "serial_putc a s = s\<lparr>sent := sent s @ [a]\<rparr>"

definition outb :: "u16 \<Rightarrow> u8 \<Rightarrow> serial_dev \<Rightarrow> serial_dev" where
  "outb p v s = s\<lparr>port_writes := port_writes s @ [(p, v)]\<rparr>"

definition lapic_send_eoi :: "serial_dev \<Rightarrow> serial_dev" where
  "lapic_send_eoi s = s\<lparr>eois := eois s + 1\<rparr>"

text \<open>The line status register is an argument.\<close>

definition serial_probe :: "u8 \<Rightarrow> serial_dev \<Rightarrow> int \<times> serial_dev" where
  "serial_probe line_status s = (let s1 = outb (PORT + 1) 0 s in if line_status = 0xFF then (-1, s1) else (0, s1))"

text \<open>The memory for the data, which is cleared, is there or not.\<close>

definition serial_init :: "bool \<Rightarrow> serial_dev \<Rightarrow> int \<times> serial_dev" where
  "serial_init has_memory s =
     (if \<not> has_memory then (-1, s)
      else
        let data = \<lparr>input_buffer = replicate SERIAL_BUFFER_LENGTH 0, read_index = 0, write_index = 0, sd_initialized = False\<rparr>;
            s1 = fold (\<lambda>(p, v). outb p v)
              [(PORT + 2, 0), (PORT + 3, 0x80), (PORT, 115200 div 9600), (PORT + 1, 0), (PORT + 3, 3), (PORT + 4, 0), (PORT + 1, 1)] s
        in (0, s1\<lparr>driver_data := Some (data\<lparr>sd_initialized := True\<rparr>), dev_irq := IRQ_COM1, enabled_irqs := enabled_irqs s1 @ [IRQ_COM1]\<rparr>))"

definition next_index :: "u8 \<Rightarrow> u8" where
  "next_index i = of_nat ((unat i + 1) mod SERIAL_BUFFER_LENGTH)"

primrec serial_copy :: "nat \<Rightarrow> serial_device_data \<Rightarrow> (u8 list \<times> serial_device_data) outcome" where
  "serial_copy 0 d = Ok ([], d)"
| "serial_copy (Suc n) d =
     (if unat (read_index d) < SERIAL_BUFFER_LENGTH then
        obind (serial_copy n (d\<lparr>read_index := next_index (read_index d)\<rparr>)) (\<lambda>(bs, d').
          Ok (input_buffer d ! unat (read_index d) # bs, d'))
      else Panic ''input_buffer'')"

definition serial_available :: "serial_device_data \<Rightarrow> u64" where
  "serial_available d =
     (if write_index d < read_index d
      then ucast (write_index d) + (of_nat SERIAL_BUFFER_LENGTH - ucast (read_index d))
      else ucast (write_index d) - ucast (read_index d))"

definition serial_read_op :: "u64 \<Rightarrow> serial_dev \<Rightarrow> (u8 list \<times> serial_dev) outcome option" where
  "serial_read_op len s =
     (case driver_data s of
        None \<Rightarrow> Some (Ok ([], s))
      | Some d \<Rightarrow>
          if len = 0 then Some (Ok ([], s))
          else if read_index d = write_index d then None
          else
            let available = serial_available d; to_read = (if len > available then available else len) in
            Some (obind (serial_copy (unat to_read) d) (\<lambda>(bs, d'). Ok (bs, s\<lparr>driver_data := Some d'\<rparr>))))"

text \<open>The result is \<^verbatim>\<open>len\<close> as an \<^verbatim>\<open>int\<close>.\<close>

definition serial_write_op :: "u8 list \<Rightarrow> serial_dev \<Rightarrow> int \<times> serial_dev" where
  "serial_write_op buf s = (sint (of_nat (length buf) :: u32), fold serial_putc buf s)"

text \<open>The character that \<^verbatim>\<open>serial_getc\<close> takes from the port is an argument.\<close>

definition serial_irq_handler :: "u8 \<Rightarrow> serial_dev \<Rightarrow> serial_dev outcome" where
  "serial_irq_handler line_char s =
     (case driver_data s of
        None \<Rightarrow> Ok (lapic_send_eoi s)
      | Some d \<Rightarrow>
          if \<not> sd_initialized d then Ok (lapic_send_eoi s)
          else
            let c = (if line_char = 13 then 10 else line_char) in
            if next_index (write_index d) \<noteq> read_index d then
              if unat (write_index d) < SERIAL_BUFFER_LENGTH then
                let d1 = d\<lparr>input_buffer := (input_buffer d)[unat (write_index d) := c], write_index := next_index (write_index d)\<rparr>;
                    s1 = serial_putc c (s\<lparr>driver_data := Some d1\<rparr>)
                in Ok (lapic_send_eoi (s1\<lparr>notified := notified s1 + 1\<rparr>))
              else Panic ''input_buffer''
            else Ok (lapic_send_eoi s))"

text \<open>
  The calls of the rest of the kernel go to the device that was made the global one; \<open>bound\<close> says that there is one and that it has a
  driver.
\<close>

definition serial_received_char :: "bool \<Rightarrow> u8 \<Rightarrow> serial_dev \<Rightarrow> serial_dev outcome" where
  "serial_received_char bound c s = (if bound then serial_irq_handler c s else Ok s)"

definition serial_write :: "bool \<Rightarrow> u8 list \<Rightarrow> serial_dev \<Rightarrow> int \<times> serial_dev" where
  "serial_write bound buf s =
     (if bound then serial_write_op buf s else (sint (of_nat (length buf) :: u32), fold serial_putc buf s))"

definition serial_read :: "bool \<Rightarrow> u64 \<Rightarrow> serial_dev \<Rightarrow> (u8 list \<times> serial_dev) outcome option" where
  "serial_read bound len s = (if bound then serial_read_op len s else Some (Ok ([], s)))"

section \<open>Readers and interrupts in turn\<close>

text \<open>
  A sequence of interrupts and reads, as they get hold of the lock of the condition variable. A read that has to wait delivers
  nothing at that point. The result lists what was delivered.
\<close>

datatype serial_event = Arrives u8 | Reads u64

primrec serial_event_step :: "serial_event \<Rightarrow> serial_dev \<Rightarrow> (u8 list \<times> serial_dev) outcome" where
  "serial_event_step (Arrives c) s = obind (serial_irq_handler c s) (\<lambda>s1. Ok ([], s1))"
| "serial_event_step (Reads len) s = (case serial_read_op len s of None \<Rightarrow> Ok ([], s) | Some r \<Rightarrow> r)"

definition serial_run :: "serial_event list \<Rightarrow> serial_dev \<Rightarrow> (u8 list \<times> serial_dev) outcome" where
  "serial_run = run_events serial_event_step"

text \<open>The reader waits while characters arrive.\<close>

primrec serial_read_waiting :: "u64 \<Rightarrow> u8 list \<Rightarrow> serial_dev \<Rightarrow> (u8 list \<times> serial_dev) outcome option" where
  "serial_read_waiting len [] s = serial_read_op len s"
| "serial_read_waiting len (c # cs) s =
     (case serial_read_op len s of
        Some r \<Rightarrow> Some r
      | None \<Rightarrow> kbind (Some (serial_irq_handler c s)) (serial_read_waiting len cs))"

end
