(* ===== verification/Serial_Props.thy ===== *)
theory Serial_Props
  imports Serial
begin

text \<open>
  The ring buffer of the serial port implements a queue of at most 127 characters, for every sequence of interrupts and reads.
\<close>

section \<open>The contents of the ring buffer\<close>

definition used :: "serial_device_data \<Rightarrow> nat" where
  "used d = (unat (write_index d) + 128 - unat (read_index d)) mod 128"

definition ring_contents :: "serial_device_data \<Rightarrow> u8 list" where
  "ring_contents d = map (\<lambda>i. input_buffer d ! ((unat (read_index d) + i) mod 128)) [0..<used d]"

definition ring_ok :: "serial_device_data \<Rightarrow> bool" where
  "ring_ok d \<longleftrightarrow> length (input_buffer d) = 128 \<and> unat (read_index d) < 128 \<and> unat (write_index d) < 128 \<and> sd_initialized d"

definition serial_inv :: "serial_dev \<Rightarrow> bool" where
  "serial_inv s \<longleftrightarrow> (case driver_data s of None \<Rightarrow> False | Some d \<Rightarrow> ring_ok d)"

definition serial_contents :: "serial_dev \<Rightarrow> u8 list" where
  "serial_contents s = (case driver_data s of None \<Rightarrow> [] | Some d \<Rightarrow> ring_contents d)"

lemma next_index_unat: "unat (next_index i) = (unat i + 1) mod 128"
  by (simp add: next_index_def SERIAL_BUFFER_LENGTH_def unat_of_nat)

lemma length_ring_contents [simp]: "length (ring_contents d) = used d"
  by (simp add: ring_contents_def)

lemma ring_contents_nth: "i < used d \<Longrightarrow> ring_contents d ! i = input_buffer d ! ((unat (read_index d) + i) mod 128)"
  by (simp add: ring_contents_def)

lemma used_bound: "used d < 128"
  by (simp add: used_def)

lemma mod_once: "a < 128 \<Longrightarrow> i < 128 \<Longrightarrow> (a + i) mod 128 = (if a + i < 128 then a + i else a + i - 128)" for a i :: nat
  using le_mod_geq [of 128 "a + i"] by simp

lemma ring_mod_eq: "(a + i) mod 128 = (a + j) mod 128 \<Longrightarrow> a < 128 \<Longrightarrow> i < 128 \<Longrightarrow> j < 128 \<Longrightarrow> i = j" for a i j :: nat
  by (simp add: mod_once split: if_splits)

lemma used_cases:
  assumes "ring_ok d"
  shows "used d = (if unat (read_index d) \<le> unat (write_index d) then unat (write_index d) - unat (read_index d)
                   else unat (write_index d) + 128 - unat (read_index d))"
proof -
  define w where "w = unat (write_index d)"
  define r where "r = unat (read_index d)"
  have "w < 128" "r < 128" using assms by (simp_all add: ring_ok_def w_def r_def)
  moreover have "(w + 128 - r) mod 128 = (w - r) mod 128" if "r \<le> w"
    unfolding Nat.add_diff_assoc2 [OF that, symmetric] by simp
  ultimately have "(w + 128 - r) mod 128 = (if r \<le> w then w - r else w + 128 - r)" by (cases "r \<le> w") simp_all
  then show ?thesis by (simp only: used_def w_def r_def)
qed

lemma ring_ok_bounds: "ring_ok d \<Longrightarrow> unat (read_index d) < 128" "ring_ok d \<Longrightarrow> unat (write_index d) < 128"
  by (simp_all add: ring_ok_def)

lemma write_index_used: "ring_ok d \<Longrightarrow> unat (write_index d) = (unat (read_index d) + used d) mod 128"
  using used_cases [of d] ring_ok_bounds [of d] used_bound [of d] by (simp add: mod_once split: if_splits)

lemma next_index_cases: "unat i < 128 \<Longrightarrow> unat (next_index i) = (if unat i = 127 then 0 else unat i + 1)"
  unfolding next_index_unat by (simp add: mod_once)

lemma full_iff: "ring_ok d \<Longrightarrow> next_index (write_index d) = read_index d \<longleftrightarrow> used d = 127"
  using used_cases [of d] ring_ok_bounds [of d] next_index_cases [of "write_index d"] unfolding word_unat_eq_iff
  by (auto split: if_splits)

lemma empty_iff: "ring_ok d \<Longrightarrow> read_index d = write_index d \<longleftrightarrow> used d = 0"
  using used_cases [of d] ring_ok_bounds [of d] unfolding word_unat_eq_iff by (auto split: if_splits)

lemma available_used: "ring_ok d \<Longrightarrow> unat (serial_available d) = used d"
proof -
  assume ok: "ring_ok d"
  then have b: "unat (read_index d) < 128" "unat (write_index d) < 128" by (simp_all add: ring_ok_def)
  note u = unat_ucast_byte
  show ?thesis
  proof (cases "write_index d < read_index d")
    case True
    then have lt: "unat (write_index d) < unat (read_index d)" by (simp add: word_less_nat_alt)
    have "unat (128 - ucast (read_index d) :: u64) = 128 - unat (read_index d)" using b by (simp add: unat_diff u)
    then have "unat (serial_available d) = unat (write_index d) + (128 - unat (read_index d))"
      using True b by (simp add: serial_available_def SERIAL_BUFFER_LENGTH_def unat_word_ariths u)
    then show ?thesis using lt b used_cases [OF ok] by simp
  next
    case False
    then have le: "unat (read_index d) \<le> unat (write_index d)" by (simp add: word_less_nat_alt)
    then have "unat (serial_available d) = unat (write_index d) - unat (read_index d)"
      using False by (simp add: serial_available_def unat_diff u)
    then show ?thesis using le used_cases [OF ok] by simp
  qed
qed

section \<open>One interrupt, one read\<close>

definition put_char :: "u8 \<Rightarrow> serial_device_data \<Rightarrow> serial_device_data" where
  "put_char c d = d\<lparr>input_buffer := (input_buffer d)[unat (write_index d) := c], write_index := next_index (write_index d)\<rparr>"

lemma put_char_ok: "ring_ok d \<Longrightarrow> ring_ok (put_char c d)"
  by (simp add: ring_ok_def put_char_def next_index_unat)

lemma put_char_used: "ring_ok d \<Longrightarrow> used d < 127 \<Longrightarrow> used (put_char c d) = used d + 1"
  using used_cases [of d] used_cases [OF put_char_ok, of d c] ring_ok_bounds [of d] next_index_cases [of "write_index d"]
  by (simp add: put_char_def split: if_splits)

lemma put_char_contents:
  assumes "ring_ok d" "used d < 127"
  shows "ring_ok (put_char c d)" "ring_contents (put_char c d) = ring_contents d @ [c]"
proof -
  show "ring_ok (put_char c d)" using assms(1) by (rule put_char_ok)
  note w = write_index_used [OF assms(1)]
  have len: "length (input_buffer d) = 128" using assms(1) by (simp add: ring_ok_def)
  show "ring_contents (put_char c d) = ring_contents d @ [c]"
  proof (rule nth_equalityI)
    fix i assume "i < length (ring_contents (put_char c d))"
    then have i: "i < used d + 1" by (simp add: put_char_used assms)
    show "ring_contents (put_char c d) ! i = (ring_contents d @ [c]) ! i"
    proof (cases "i = used d")
      case True
      have "ring_contents (put_char c d) ! i = (input_buffer d)[unat (write_index d) := c] ! unat (write_index d)"
        using True i by (subst ring_contents_nth) (simp_all add: put_char_used assms, simp add: put_char_def w)
      then show ?thesis using len True w by (simp add: nth_append)
    next
      case False
      then have lt: "i < used d" using i by simp
      have "(unat (read_index d) + used d) mod 128 \<noteq> (unat (read_index d) + i) mod 128"
        using ring_mod_eq [of "unat (read_index d)" "used d" i] lt used_bound [of d] ring_ok_bounds [OF assms(1)] by auto
      then have "ring_contents (put_char c d) ! i = input_buffer d ! ((unat (read_index d) + i) mod 128)"
        using i by (subst ring_contents_nth) (simp_all add: put_char_used assms, simp add: put_char_def w)
      then show ?thesis using lt by (simp add: nth_append ring_contents_nth)
    qed
  qed (simp add: put_char_used assms)
qed

lemma drop_one:
  assumes "ring_ok d" "0 < used d"
  shows "ring_ok (d\<lparr>read_index := next_index (read_index d)\<rparr>)"
    "ring_contents d = input_buffer d ! unat (read_index d) # ring_contents (d\<lparr>read_index := next_index (read_index d)\<rparr>)"
    "used (d\<lparr>read_index := next_index (read_index d)\<rparr>) = used d - 1"
proof -
  let ?d = "d\<lparr>read_index := next_index (read_index d)\<rparr>"
  show ok: "ring_ok ?d" using assms(1) by (simp add: ring_ok_def next_index_unat)
  show u: "used ?d = used d - 1"
    using assms(2) used_cases [OF assms(1)] used_cases [OF ok] ring_ok_bounds [OF assms(1)] next_index_cases [of "read_index d"]
    by (auto split: if_splits)
  show "ring_contents d = input_buffer d ! unat (read_index d) # ring_contents ?d"
  proof (rule nth_equalityI)
    fix i assume "i < length (ring_contents d)"
    then have i: "i < used d" by simp
    show "ring_contents d ! i = (input_buffer d ! unat (read_index d) # ring_contents ?d) ! i"
    proof (cases i)
      case 0
      then show ?thesis using i assms(1) by (simp add: ring_contents_def ring_ok_def)
    next
      case (Suc j)
      then have j: "j < used ?d" using i u by simp
      have "((unat (read_index d) + 1) mod 128 + j) mod 128 = (unat (read_index d) + Suc j) mod 128" by (simp add: mod_add_left_eq)
      then show ?thesis using Suc i ring_contents_nth [OF j] by (simp add: ring_contents_nth next_index_unat)
    qed
  qed (use assms(2) in \<open>simp add: u\<close>)
qed

lemma serial_copy_contents:
  "ring_ok d \<Longrightarrow> n \<le> used d \<Longrightarrow>
     \<exists>d'. serial_copy n d = Ok (take n (ring_contents d), d') \<and> ring_ok d' \<and> ring_contents d' = drop n (ring_contents d)"
proof (induction n arbitrary: d)
  case (Suc n)
  let ?d = "d\<lparr>read_index := next_index (read_index d)\<rparr>"
  have pos: "0 < used d" using Suc.prems by simp
  note one = drop_one [OF Suc.prems(1) pos]
  from Suc.IH [OF one(1)] obtain d' where
    "serial_copy n ?d = Ok (take n (ring_contents ?d), d')" "ring_ok d'" "ring_contents d' = drop n (ring_contents ?d)"
    using Suc.prems(2) unfolding one(3) by fastforce
  then show ?case using one(2) Suc.prems(1) by (auto simp: ring_ok_def SERIAL_BUFFER_LENGTH_def)
qed simp

section \<open>A bounded queue\<close>

definition line_end :: "u8 \<Rightarrow> u8" where
  "line_end c = (if c = 13 then 10 else c)"

fun queue_step :: "serial_event \<Rightarrow> u8 list \<times> u8 list \<Rightarrow> u8 list \<times> u8 list \<times> u8 list" where
  "queue_step (Arrives c) (q, echo) = (if length q < 127 then ([], q @ [line_end c], echo @ [line_end c]) else ([], q, echo))"
| "queue_step (Reads len) (q, echo) = (take (unat len) q, drop (unat len) q, echo)"

lemma irq_queue:
  assumes "serial_inv s"
  shows "\<exists>s'. serial_irq_handler c s = Ok s' \<and> serial_inv s' \<and>
    (if length (serial_contents s) < 127
     then serial_contents s' = serial_contents s @ [line_end c] \<and> sent s' = sent s @ [line_end c] \<and> notified s' = notified s + 1
     else serial_contents s' = serial_contents s \<and> sent s' = sent s)"
proof -
  from assms obtain d where d: "driver_data s = Some d" "ring_ok d" by (auto simp: serial_inv_def split: option.splits)
  have init: "sd_initialized d" "unat (write_index d) < 128" using d(2) by (simp_all add: ring_ok_def)
  show ?thesis
  proof (cases "used d < 127")
    case True
    then have nf: "next_index (write_index d) \<noteq> read_index d" using full_iff [OF d(2)] by simp
    then show ?thesis
      using put_char_contents [OF d(2) True] d(1) init True
      by (simp add: serial_irq_handler_def Let_def SERIAL_BUFFER_LENGTH_def lapic_send_eoi_def serial_putc_def serial_inv_def
          serial_contents_def line_end_def put_char_def [symmetric])
  next
    case False
    then have "used d = 127" using used_bound [of d] by simp
    then show ?thesis using full_iff [OF d(2)] d init
      by (simp add: serial_irq_handler_def Let_def lapic_send_eoi_def serial_inv_def serial_contents_def)
  qed
qed

lemma read_queue:
  assumes "serial_inv s"
  shows "(serial_read_op len s = None \<longleftrightarrow> len \<noteq> 0 \<and> serial_contents s = []) \<and>
    (serial_contents s \<noteq> [] \<longrightarrow> (\<exists>s'. serial_read_op len s = Some (Ok (take (unat len) (serial_contents s), s')) \<and> serial_inv s' \<and>
       serial_contents s' = drop (unat len) (serial_contents s) \<and> sent s' = sent s)) \<and>
    (len = 0 \<longrightarrow> serial_read_op len s = Some (Ok ([], s)))"
proof -
  from assms obtain d where d: "driver_data s = Some d" "ring_ok d" by (auto simp: serial_inv_def split: option.splits)
  have c: "serial_contents s = ring_contents d" by (simp add: serial_contents_def d(1))
  have e: "ring_contents d = [] \<longleftrightarrow> read_index d = write_index d"
    using empty_iff [OF d(2)] length_ring_contents [of d] by (metis length_0_conv)
  define n where "n = unat (if len > serial_available d then serial_available d else len)"
  have n: "n = min (unat len) (used d)"
    unfolding n_def using available_used [OF d(2)] by (simp add: word_less_nat_alt min_def)
  from serial_copy_contents [OF d(2), of n] obtain d' where
    d': "serial_copy n d = Ok (take n (ring_contents d), d')" "ring_ok d'" "ring_contents d' = drop n (ring_contents d)"
    using n by auto
  have tk: "take n (ring_contents d) = take (unat len) (ring_contents d)" "drop n (ring_contents d) = drop (unat len) (ring_contents d)"
    unfolding n by (simp_all add: min_def)
  show ?thesis
  proof (cases "len = 0 \<or> read_index d = write_index d")
    case True
    then show ?thesis using c e d assms by (auto simp: serial_read_op_def)
  next
    case False
    then have "serial_read_op len s = Some (Ok (take n (ring_contents d), s\<lparr>driver_data := Some d'\<rparr>))"
      using d(1) d'(1) by (simp add: serial_read_op_def Let_def n_def [symmetric])
    then show ?thesis using False c e d'(2,3) tk by (simp add: serial_inv_def serial_contents_def)
  qed
qed

interpretation serial_line: event_simulation serial_event_step serial_inv "\<lambda>s. (serial_contents s, sent s)" queue_step
proof unfold_locales
  fix s e assume inv: "serial_inv s"
  show "\<exists>out s'. serial_event_step e s = Ok (out, s') \<and> serial_inv s' \<and>
          queue_step e (serial_contents s, sent s) = (out, serial_contents s', sent s')"
  proof (cases e)
    case (Arrives c)
    then show ?thesis using irq_queue [OF inv, of c] by (auto split: if_splits)
  next
    case (Reads len)
    then show ?thesis using read_queue [OF inv, of len] inv
      by (cases "serial_contents s = []"; cases "serial_read_op len s") auto
  qed
qed

section \<open>The properties\<close>

text \<open>The characters that are accepted, when \<open>q\<close> are waiting at first.\<close>

primrec accepted :: "serial_event list \<Rightarrow> u8 list \<Rightarrow> u8 list" where
  "accepted [] q = []"
| "accepted (e # es) q =
     (case e of
        Arrives c \<Rightarrow> if length q < 127 then line_end c # accepted es (q @ [line_end c]) else accepted es q
      | Reads len \<Rightarrow> accepted es (drop (unat len) q))"

primrec arrivals :: "serial_event list \<Rightarrow> u8 list" where
  "arrivals [] = []"
| "arrivals (e # es) = (case e of Arrives c \<Rightarrow> line_end c # arrivals es | Reads len \<Rightarrow> arrivals es)"

lemma queue_fifo:
  "spec_run queue_step es (q, echo) = (out, q', echo') \<Longrightarrow> length q \<le> 127 \<Longrightarrow>
     out @ q' = q @ accepted es q \<and> echo' = echo @ accepted es q \<and> length q' \<le> 127"
proof (induction es arbitrary: q echo out q' echo')
  case (Cons e es)
  show ?case
  proof (cases e)
    case (Arrives c)
    then show ?thesis using Cons.prems Cons.IH [of "q @ [line_end c]" "echo @ [line_end c]" out q' echo'] Cons.IH [of q echo out q' echo']
      by (cases "length q < 127") (simp_all split: prod.splits)
  next
    case (Reads len)
    then obtain out1 where "spec_run queue_step es (drop (unat len) q, echo) = (out1, q', echo')" "out = take (unat len) q @ out1"
      using Cons.prems by (auto simp: Let_def split: prod.splits)
    then show ?thesis using Reads Cons.prems(2) Cons.IH [of "drop (unat len) q" echo out1 q' echo'] by simp
  qed
qed simp

lemma accepted_all: "length q + length (arrivals es) \<le> 127 \<Longrightarrow> accepted es q = arrivals es"
  by (induction es arbitrary: q) (auto split: serial_event.splits)

text \<open>
  C34: the serial line is a queue. For every sequence of interrupts and reads the handlers end without leaving the buffer; what the readers
  got, followed by what still waits, is what waited before, followed by the characters that were accepted, in their order. The accepted characters are
  exactly the ones echoed; at most 127 characters wait, and none is lost as long as there are no more.
\<close>

theorem serial_run_fifo:
  assumes "serial_inv s"
  shows "\<exists>out s'. serial_run es s = Ok (out, s') \<and> serial_inv s' \<and> length (serial_contents s') \<le> 127 \<and>
    out @ serial_contents s' = serial_contents s @ accepted es (serial_contents s) \<and>
    sent s' = sent s @ accepted es (serial_contents s) \<and>
    (length (serial_contents s) + length (arrivals es) \<le> 127 \<longrightarrow> accepted es (serial_contents s) = arrivals es)"
proof -
  from serial_line.run_simulates [OF assms, of es] obtain out s' where
    run: "run_events serial_event_step es s = Ok (out, s')" "serial_inv s'"
    "spec_run queue_step es (serial_contents s, sent s) = (out, serial_contents s', sent s')" by blast
  have "length (serial_contents s) \<le> 127"
  proof (cases "driver_data s")
    case (Some d)
    then show ?thesis using used_bound [of d] by (simp add: serial_contents_def)
  qed (simp add: serial_contents_def)
  from queue_fifo [OF run(3) this] run(1,2) accepted_all show ?thesis unfolding serial_run_def by blast
qed

text \<open>
  A reader of an empty buffer waits, and gets the first character that arrives.
\<close>

theorem serial_read_wakes:
  assumes "serial_inv s" "serial_contents s = []" "len \<noteq> 0"
  shows "serial_read_waiting len [] s = None \<and>
    (\<exists>s'. serial_read_waiting len (c # cs) s = Some (Ok ([line_end c], s')) \<and> serial_contents s' = [])"
proof -
  have none: "serial_read_op len s = None" using read_queue [OF assms(1), of len] assms by simp
  from irq_queue [OF assms(1), of c] assms(2) obtain s1 where
    s1: "serial_irq_handler c s = Ok s1" "serial_inv s1" "serial_contents s1 = [line_end c]" by auto
  have "0 < unat len" using assms(3) by (simp add: unat_gt_0)
  with read_queue [OF s1(2), of len] s1(3) obtain s2 where "serial_read_op len s1 = Some (Ok ([line_end c], s2))" "serial_contents s2 = []"
    by (auto simp: take_Cons' drop_Cons')
  then have "serial_read_waiting len cs s1 = Some (Ok ([line_end c], s2))" "serial_contents s2 = []" by (cases cs; simp)+
  then show ?thesis using none s1(1) by simp
qed

definition line0 :: serial_dev where
  "line0 = \<lparr>driver_data = None, dev_irq = 0, sent = [], port_writes = [], enabled_irqs = [], notified = 0, eois = 0\<rparr>"

lemma line0_ready: "serial_inv (snd (serial_init True line0))" "serial_contents (snd (serial_init True line0)) = []"
  by (simp_all add: serial_init_def Let_def line0_def serial_inv_def ring_ok_def serial_contents_def ring_contents_def used_def
      SERIAL_BUFFER_LENGTH_def outb_def)

theorem serial_run_fifo_witness:
  "\<exists>out s'. serial_run [Arrives 104, Reads 1, Arrives 105, Arrives 13, Reads 8] (snd (serial_init True line0)) = Ok (out, s') \<and>
     out @ serial_contents s' = [104, 105, 10]"
  using serial_run_fifo [OF line0_ready(1), of "[Arrives 104, Reads 1, Arrives 105, Arrives 13, Reads 8]"] line0_ready(2)
  by (auto simp: line_end_def)

theorem serial_read_wakes_witness:
  "serial_read_waiting 5 [] (snd (serial_init True line0)) = None \<and>
   (\<exists>s'. serial_read_waiting 5 [13, 104] (snd (serial_init True line0)) = Some (Ok ([10], s')))"
  using serial_read_wakes [OF line0_ready, of 5 13 "[104]"] by (auto simp: line_end_def)

end
