(* ===== verification/Devices.thy ===== *)
theory Devices
  imports Prelude
begin

text \<open>
  The device manager (\<^verbatim>\<open>kernel/src/drivers/device_manager.c\<close>, \<^verbatim>\<open>driver.h\<close>, \<^verbatim>\<open>hw_detect.c\<close>, \<^verbatim>\<open>builtin_drivers.c\<close>). Devices are entries of an array,
  drivers are reached by pointers, for which a table of drivers is an argument. What the operations of a driver do to the machine is a state
  \<open>'h\<close> of which nothing is assumed.
\<close>

section \<open>Drivers and devices\<close>

datatype driver_bus = DRIVER_BUS_NONE | DRIVER_BUS_PS2 | DRIVER_BUS_PCI | DRIVER_BUS_PLATFORM | DRIVER_BUS_VIRTUAL

datatype driver_class = DRIVER_CLASS_MISC | DRIVER_CLASS_INPUT | DRIVER_CLASS_BLOCK | DRIVER_CLASS_NET | DRIVER_CLASS_DISPLAY | DRIVER_CLASS_CHAR

record ps2_device_info =
  ps2_port :: u16
  ps2_irq :: u8
  ps2_exists :: bool

record pci_device_info =
  pci_bus :: u8
  pci_device :: u8
  pci_function :: u8
  vendor_id :: u16
  device_id :: u16
  class_code :: u8
  pci_subclass :: u8
  prog_if :: u8
  pci_irq :: u8
  irq_pin :: u8
  subsystem_vendor :: u16
  subsystem_id :: u16
  pci_bar :: "u32 list"
  bar_size :: "u32 list"

text \<open>What \<^verbatim>\<open>os_data\<close> points to.\<close>

datatype os_data = No_data | Ps2_data ps2_device_info | Pci_data pci_device_info | Framebuffer_data u64

text \<open>A driver is named by its address, here a natural number.\<close>

type_synonym driver_ptr = nat

record device_t =
  dv_name :: "string option"
  dv_class :: driver_class
  dv_bus :: driver_bus
  dv_drv :: "driver_ptr option"
  dv_driver_data :: u64
  dv_os_data :: os_data
  dv_irq :: u8
  dv_initialized :: bool

text \<open>A device before anything is stored in it: all bytes are zero.\<close>

definition zero_device :: device_t where
  "zero_device = \<lparr>dv_name = None, dv_class = DRIVER_CLASS_MISC, dv_bus = DRIVER_BUS_NONE, dv_drv = None, dv_driver_data = 0,
     dv_os_data = No_data, dv_irq = 0, dv_initialized = False\<rparr>"

record 'h driver_ops =
  op_probe :: "(device_t \<Rightarrow> 'h \<Rightarrow> int \<times> device_t \<times> 'h) option"
  op_init :: "(device_t \<Rightarrow> 'h \<Rightarrow> int \<times> device_t \<times> 'h) option"
  op_remove :: "(device_t \<Rightarrow> 'h \<Rightarrow> int \<times> device_t \<times> 'h) option"
  op_read :: "(device_t \<Rightarrow> u64 \<Rightarrow> u64 \<Rightarrow> 'h \<Rightarrow> int \<times> device_t \<times> 'h) option"
  op_write :: "(device_t \<Rightarrow> u64 \<Rightarrow> u64 \<Rightarrow> 'h \<Rightarrow> int \<times> device_t \<times> 'h) option"
  op_ioctl :: "(device_t \<Rightarrow> u32 \<Rightarrow> u64 \<Rightarrow> 'h \<Rightarrow> int \<times> device_t \<times> 'h) option"
  op_irq_handler :: "(device_t \<Rightarrow> u8 \<Rightarrow> 'h \<Rightarrow> device_t \<times> 'h) option"

record 'h driver =
  dr_name :: string
  dr_bus :: driver_bus
  dr_class :: driver_class
  dr_ops :: "'h driver_ops"

type_synonym 'h driver_table = "driver_ptr \<Rightarrow> 'h driver"

text \<open>The inline functions of \<^verbatim>\<open>driver.h\<close>, over the driver the device is bound to.\<close>

definition call_op :: "'h driver_table \<Rightarrow> ('h driver_ops \<Rightarrow> 'f option) \<Rightarrow> device_t \<Rightarrow> 'r \<Rightarrow> ('f \<Rightarrow> 'r) \<Rightarrow> 'r" where
  "call_op tbl sel d none call =
     (case dv_drv d of None \<Rightarrow> none | Some p \<Rightarrow> (case sel (dr_ops (tbl p)) of None \<Rightarrow> none | Some f \<Rightarrow> call f))"

definition driver_probe :: "'h driver_table \<Rightarrow> device_t \<Rightarrow> 'h \<Rightarrow> int \<times> device_t \<times> 'h" where
  "driver_probe tbl d h = call_op tbl op_probe d (0, d, h) (\<lambda>f. f d h)"

definition driver_init :: "'h driver_table \<Rightarrow> device_t \<Rightarrow> 'h \<Rightarrow> int \<times> device_t \<times> 'h" where
  "driver_init tbl d h = call_op tbl op_init d (0, d, h) (\<lambda>f. f d h)"

definition driver_remove :: "'h driver_table \<Rightarrow> device_t \<Rightarrow> 'h \<Rightarrow> int \<times> device_t \<times> 'h" where
  "driver_remove tbl d h = call_op tbl op_remove d (0, d, h) (\<lambda>f. f d h)"

definition driver_read :: "'h driver_table \<Rightarrow> device_t \<Rightarrow> u64 \<Rightarrow> u64 \<Rightarrow> 'h \<Rightarrow> int \<times> device_t \<times> 'h" where
  "driver_read tbl d b n h = call_op tbl op_read d (-1, d, h) (\<lambda>f. f d b n h)"

definition driver_write :: "'h driver_table \<Rightarrow> device_t \<Rightarrow> u64 \<Rightarrow> u64 \<Rightarrow> 'h \<Rightarrow> int \<times> device_t \<times> 'h" where
  "driver_write tbl d b n h = call_op tbl op_write d (-1, d, h) (\<lambda>f. f d b n h)"

definition driver_ioctl :: "'h driver_table \<Rightarrow> device_t \<Rightarrow> u32 \<Rightarrow> u64 \<Rightarrow> 'h \<Rightarrow> int \<times> device_t \<times> 'h" where
  "driver_ioctl tbl d c a h = call_op tbl op_ioctl d (-1, d, h) (\<lambda>f. f d c a h)"

definition driver_irq :: "'h driver_table \<Rightarrow> device_t \<Rightarrow> u8 \<Rightarrow> 'h \<Rightarrow> device_t \<times> 'h" where
  "driver_irq tbl d i h = call_op tbl op_irq_handler d (d, h) (\<lambda>f. f d i h)"

section \<open>The manager\<close>

definition MAX_DEVICES :: nat where "MAX_DEVICES = 256"

record device_manager =
  devices :: "device_t list"
  device_count :: nat
  drivers :: "driver_ptr list"
  driver_count :: nat
  dm_initialized :: bool

definition dm_zero :: device_manager where
  "dm_zero = \<lparr>devices = replicate MAX_DEVICES zero_device, device_count = 0, drivers = replicate MAX_DEVICES 0, driver_count = 0,
     dm_initialized = False\<rparr>"

text \<open>Filling in the entry behind the last device.\<close>

definition add_device :: "(device_t \<Rightarrow> device_t) \<Rightarrow> device_manager \<Rightarrow> device_manager" where
  "add_device f dm =
     dm\<lparr>devices := (devices dm)[device_count dm := f (devices dm ! device_count dm)], device_count := device_count dm + 1\<rparr>"

definition pci_driver_class :: "u8 \<Rightarrow> driver_class" where
  "pci_driver_class code =
     (if code = 1 then DRIVER_CLASS_BLOCK else if code = 2 then DRIVER_CLASS_NET else if code = 3 then DRIVER_CLASS_DISPLAY
      else if code = 9 then DRIVER_CLASS_INPUT else DRIVER_CLASS_MISC)"

text \<open>\<open>has_memory\<close> says whether the copy of the description can be allocated.\<close>

definition device_register_from_pci :: "bool \<Rightarrow> pci_device_info \<Rightarrow> device_manager \<Rightarrow> int \<times> device_manager" where
  "device_register_from_pci has_memory info dm =
     (if device_count dm \<ge> MAX_DEVICES then (-1, dm)
      else (0, add_device (\<lambda>d. d\<lparr>dv_class := pci_driver_class (class_code info), dv_bus := DRIVER_BUS_PCI, dv_irq := pci_irq info,
             dv_initialized := False, dv_drv := None, dv_name := None,
             dv_os_data := (if has_memory then Pci_data info else No_data)\<rparr>) dm))"

definition device_register_from_ps2 :: "bool \<Rightarrow> ps2_device_info \<Rightarrow> device_manager \<Rightarrow> int \<times> device_manager" where
  "device_register_from_ps2 has_memory info dm =
     (if device_count dm \<ge> MAX_DEVICES then (-1, dm)
      else (0, add_device (\<lambda>d. d\<lparr>dv_name := Some (if ps2_irq info = 1 then ''ps2_keyboard'' else ''ps2_mouse''),
             dv_class := DRIVER_CLASS_INPUT, dv_bus := DRIVER_BUS_PS2, dv_irq := ps2_irq info, dv_initialized := False, dv_drv := None,
             dv_os_data := (if has_memory then Ps2_data info else No_data)\<rparr>) dm))"

definition device_find :: "(device_t \<Rightarrow> bool) \<Rightarrow> device_manager \<Rightarrow> nat option" where
  "device_find P dm = find (\<lambda>i. P (devices dm ! i)) [0..<device_count dm]"

definition device_find_by_name :: "string option \<Rightarrow> device_manager \<Rightarrow> nat option" where
  "device_find_by_name name dm =
     (case name of None \<Rightarrow> None | Some n \<Rightarrow> device_find (\<lambda>d. dv_name d = Some n) dm)"

definition device_find_by_irq :: "u8 \<Rightarrow> device_manager \<Rightarrow> nat option" where
  "device_find_by_irq irq dm = device_find (\<lambda>d. dv_irq d = irq \<and> dv_initialized d) dm"

definition device_register_platform :: "string \<Rightarrow> driver_class \<Rightarrow> device_manager \<Rightarrow> int \<times> device_manager" where
  "device_register_platform name cls dm =
     (if device_count dm \<ge> MAX_DEVICES then (-1, dm)
      else if device_find_by_name (Some name) dm \<noteq> None then (0, dm)
      else (0, add_device (\<lambda>d. \<lparr>dv_name = Some name, dv_class = cls, dv_bus = DRIVER_BUS_PLATFORM, dv_drv = None, dv_driver_data = 0,
             dv_os_data = No_data, dv_irq = 0, dv_initialized = False\<rparr>) dm))"

definition device_register_framebuffer :: "u64 \<Rightarrow> device_manager \<Rightarrow> int \<times> device_manager" where
  "device_register_framebuffer fb dm =
     (if device_count dm \<ge> MAX_DEVICES then (-1, dm)
      else (0, add_device (\<lambda>d. \<lparr>dv_name = Some ''framebuffer'', dv_class = DRIVER_CLASS_DISPLAY, dv_bus = DRIVER_BUS_PLATFORM, dv_drv = None,
             dv_driver_data = 0, dv_os_data = Framebuffer_data fb, dv_irq = 0, dv_initialized = False\<rparr>) dm))"

definition driver_register_verified :: "driver_ptr \<Rightarrow> device_manager \<Rightarrow> int \<times> device_manager" where
  "driver_register_verified drv dm =
     (if driver_count dm \<ge> MAX_DEVICES then (-1, dm)
      else if drv \<in> set (take (driver_count dm) (drivers dm)) then (0, dm)
      else (0, dm\<lparr>drivers := (drivers dm)[driver_count dm := drv], driver_count := driver_count dm + 1\<rparr>))"

text \<open>The drivers behind the removed one move down.\<close>

definition shift_drivers :: "nat \<Rightarrow> nat \<Rightarrow> driver_ptr list \<Rightarrow> driver_ptr list" where
  "shift_drivers i n ds = fold (\<lambda>j xs. xs[j := xs ! (j + 1)]) [i..<n - 1] ds"

definition driver_unregister :: "driver_ptr \<Rightarrow> device_manager \<Rightarrow> int \<times> device_manager" where
  "driver_unregister drv dm =
     (case find (\<lambda>i. drivers dm ! i = drv) [0..<driver_count dm] of
        None \<Rightarrow> (-1, dm)
      | Some i \<Rightarrow> (0, dm\<lparr>drivers := shift_drivers i (driver_count dm) (drivers dm), driver_count := driver_count dm - 1\<rparr>))"

section \<open>Binding, probing and initialising\<close>

definition set_device :: "nat \<Rightarrow> device_t \<Rightarrow> device_manager \<Rightarrow> device_manager" where
  "set_device i d dm = dm\<lparr>devices := (devices dm)[i := d]\<rparr>"

definition matches :: "'h driver_table \<Rightarrow> device_t \<Rightarrow> driver_ptr \<Rightarrow> bool" where
  "matches tbl d p \<longleftrightarrow> dr_bus (tbl p) = dv_bus d \<and> dr_class (tbl p) = dv_class d"

definition device_driver_match_and_bind :: "'h driver_table \<Rightarrow> device_manager \<Rightarrow> device_t \<Rightarrow> int \<times> device_t" where
  "device_driver_match_and_bind tbl dm d =
     (if dv_drv d \<noteq> None then (0, d)
      else case find (matches tbl d) (take (driver_count dm) (drivers dm)) of
             None \<Rightarrow> (-1, d)
           | Some p \<Rightarrow> (0, d\<lparr>dv_drv := Some p\<rparr>))"

text \<open>One turn of the loop of \<^verbatim>\<open>device_manager_probe_all\<close>: the device, the change of \<^verbatim>\<open>matched\<close> and the machine.\<close>

definition probe_device :: "'h driver_table \<Rightarrow> device_manager \<Rightarrow> device_t \<Rightarrow> 'h \<Rightarrow> int \<times> device_t \<times> 'h" where
  "probe_device tbl dm d h =
     (if dv_initialized d then (1, d, h)
      else
        let (r, d1) = device_driver_match_and_bind tbl dm d in
        if r \<noteq> 0 then (0, d1, h)
        else call_op tbl op_probe d1 (1, d1, h) (\<lambda>probe.
               let (result, d2, h2) = probe d1 h in
               if result \<noteq> 0 then (0, d2\<lparr>dv_drv := None\<rparr>, h2) else (1, d2, h2)))"

text \<open>One turn of the loop of \<^verbatim>\<open>device_manager_init_all\<close>.\<close>

definition init_device :: "'h driver_table \<Rightarrow> device_manager \<Rightarrow> device_t \<Rightarrow> 'h \<Rightarrow> int \<times> device_t \<times> 'h" where
  "init_device tbl dm d h =
     (if dv_initialized d then (1, d, h)
      else
        case dv_drv d of
          None \<Rightarrow> (0, d, h)
        | Some p \<Rightarrow>
            (case op_init (dr_ops (tbl p)) of
               None \<Rightarrow> (1, d\<lparr>dv_initialized := True\<rparr>, h)
             | Some f \<Rightarrow>
                 let (result, d1, h1) = f d h in
                 if result = 0 then (1, d1\<lparr>dv_initialized := True\<rparr>, h1) else (0, d1, h1)))"

fun each_device ::
  "('h driver_table \<Rightarrow> device_manager \<Rightarrow> device_t \<Rightarrow> 'h \<Rightarrow> int \<times> device_t \<times> 'h) \<Rightarrow> 'h driver_table \<Rightarrow> nat list \<Rightarrow>
     int \<Rightarrow> device_manager \<Rightarrow> 'h \<Rightarrow> int \<times> device_manager \<times> 'h" where
  "each_device turn tbl [] n dm h = (n, dm, h)"
| "each_device turn tbl (i # ix) n dm h =
     (let (m, d, h1) = turn tbl dm (devices dm ! i) h in each_device turn tbl ix (n + m) (set_device i d dm) h1)"

definition device_manager_probe_all :: "'h driver_table \<Rightarrow> device_manager \<Rightarrow> 'h \<Rightarrow> int \<times> device_manager \<times> 'h" where
  "device_manager_probe_all tbl dm h = each_device probe_device tbl [0..<device_count dm] 0 dm h"

definition device_manager_init_all :: "'h driver_table \<Rightarrow> device_manager \<Rightarrow> 'h \<Rightarrow> int \<times> device_manager \<times> 'h" where
  "device_manager_init_all tbl dm h = each_device init_device tbl [0..<device_count dm] 0 dm h"

section \<open>Start-up\<close>

text \<open>The drivers of the kernel, at their addresses.\<close>

definition rtc_driver :: driver_ptr where "rtc_driver = 1"
definition serial_driver :: driver_ptr where "serial_driver = 2"
definition fb_driver :: driver_ptr where "fb_driver = 3"
definition ps2_driver :: driver_ptr where "ps2_driver = 4"
definition nvme_driver :: driver_ptr where "nvme_driver = 5"

text \<open>What the tables of the drivers say; their operations are given.\<close>

definition builtin_table :: "(driver_ptr \<Rightarrow> 'h driver_ops) \<Rightarrow> 'h driver_table" where
  "builtin_table ops p =
     (if p = rtc_driver then \<lparr>dr_name = ''rtc'', dr_bus = DRIVER_BUS_PLATFORM, dr_class = DRIVER_CLASS_MISC, dr_ops = ops p\<rparr>
      else if p = serial_driver then \<lparr>dr_name = ''serial'', dr_bus = DRIVER_BUS_PLATFORM, dr_class = DRIVER_CLASS_CHAR, dr_ops = ops p\<rparr>
      else if p = fb_driver then \<lparr>dr_name = ''framebuffer'', dr_bus = DRIVER_BUS_PLATFORM, dr_class = DRIVER_CLASS_DISPLAY, dr_ops = ops p\<rparr>
      else if p = ps2_driver then \<lparr>dr_name = ''ps2_input'', dr_bus = DRIVER_BUS_PS2, dr_class = DRIVER_CLASS_INPUT, dr_ops = ops p\<rparr>
      else \<lparr>dr_name = ''nvme'', dr_bus = DRIVER_BUS_PCI, dr_class = DRIVER_CLASS_BLOCK, dr_ops = ops p\<rparr>)"

definition register_early_drivers :: "device_manager \<Rightarrow> device_manager" where
  "register_early_drivers dm = snd (driver_register_verified rtc_driver dm)"

definition register_builtin_drivers :: "device_manager \<Rightarrow> device_manager" where
  "register_builtin_drivers dm =
     fold (\<lambda>p dm. snd (driver_register_verified p dm)) [rtc_driver, serial_driver, fb_driver, ps2_driver, nvme_driver] dm"

definition hw_detect_platform_devices :: "device_manager \<Rightarrow> int \<times> device_manager" where
  "hw_detect_platform_devices dm =
     (let (r1, dm1) = device_register_platform ''rtc'' DRIVER_CLASS_MISC dm;
          (r2, dm2) = device_register_platform ''serial'' DRIVER_CLASS_CHAR dm1
      in ((if r1 = 0 then 1 else 0) + (if r2 = 0 then 1 else 0), dm2))"

text \<open>The index of the device that \<^verbatim>\<open>rtc_set_global\<close> is called with, if it is.\<close>

definition device_manager_early_init :: "'h driver_table \<Rightarrow> 'h \<Rightarrow> nat option \<times> device_manager \<times> 'h" where
  "device_manager_early_init tbl h =
     (let dm1 = register_early_drivers (snd (hw_detect_platform_devices dm_zero));
          (g, dm2, h2) =
            (case device_find_by_name (Some ''rtc'') dm1 of
               None \<Rightarrow> (None, dm1, h)
             | Some i \<Rightarrow>
                 let (r, d) = device_driver_match_and_bind tbl dm1 (devices dm1 ! i) in
                 if r \<noteq> 0 then (None, set_device i d dm1, h)
                 else
                   let (_, d1, h1) = driver_probe tbl d h in
                   call_op tbl op_init d1 (None, set_device i d1 dm1, h1) (\<lambda>f.
                     let (result, d2, h2) = f d1 h1 in
                     if result = 0 then (Some i, set_device i (d2\<lparr>dv_initialized := True\<rparr>) dm1, h2)
                     else (None, set_device i d2 dm1, h2)))
      in (g, dm2\<lparr>dm_initialized := True\<rparr>, h2))"

text \<open>The scans of the PS/2 controller and of the PCI bus, and the framebuffers of the boot loader, are arguments here.\<close>

definition device_manager_init ::
  "'h driver_table \<Rightarrow> (device_manager \<Rightarrow> 'h \<Rightarrow> device_manager \<times> 'h) \<Rightarrow> u64 list \<Rightarrow> device_manager \<Rightarrow> 'h \<Rightarrow> device_manager \<times> 'h" where
  "device_manager_init tbl scan fbs dm h =
     (let dm0 = (if dm_initialized dm then dm else dm_zero);
          (dm1, h1) = scan dm0 h;
          dm2 = fold (\<lambda>fb dm. snd (device_register_framebuffer fb dm)) fbs dm1;
          dm3 = register_builtin_drivers dm2;
          (_, dm4, h4) = device_manager_probe_all tbl dm3 h1;
          (_, dm5, h5) = device_manager_init_all tbl dm4 h4
      in (dm5, h5))"

end
