(* ===== verification/Ps2.thy ===== *)
theory Ps2
  imports Traces Devices
begin

text \<open>
  Keyboard and mouse (\<^verbatim>\<open>kernel/src/drivers/drv_ps2.c\<close>) and the search for them (\<^verbatim>\<open>hw_ps2.c\<close>). The interrupt handlers work on the bytes of the
  controller's status and data ports, which are arguments; the set-up talks to an arbitrary machine through its ports.
\<close>

section \<open>The keyboard\<close>

record keyboard =
  scancode_set :: u8
  shift_pressed :: bool
  ctrl_pressed :: bool
  alt_pressed :: bool
  capslock_on :: bool
  release_next :: bool

definition emit_utf8 :: "u32 \<Rightarrow> u8 list" where
  "emit_utf8 codepoint =
     (if codepoint \<le> 0x7F then [ucast codepoint]
      else if codepoint \<le> 0x7FF then
        [ucast (0xC0 OR (drop_bit 6 codepoint AND 0x1F)), ucast (0x80 OR (codepoint AND 0x3F))]
      else if codepoint \<le> 0xFFFF then
        [ucast (0xE0 OR (drop_bit 12 codepoint AND 0x0F)), ucast (0x80 OR (drop_bit 6 codepoint AND 0x3F)),
         ucast (0x80 OR (codepoint AND 0x3F))]
      else
        [ucast (0xF0 OR (drop_bit 18 codepoint AND 0x07)), ucast (0x80 OR (drop_bit 12 codepoint AND 0x3F)),
         ucast (0x80 OR (drop_bit 6 codepoint AND 0x3F)), ucast (0x80 OR (codepoint AND 0x3F))])"

text \<open>The rows of the layout that are not zero: the key, its character, and the one with shift.\<close>

definition us_layout_rows :: "(u8 \<times> u32 \<times> u32) list" where
  "us_layout_rows =
    [(2, 49, 33), (3, 50, 64), (4, 51, 35), (5, 52, 36), (6, 53, 37), (7, 54, 94), (8, 55, 38), (9, 56, 42),
     (10, 57, 40), (11, 48, 41), (12, 45, 95), (13, 61, 43), (14, 8, 8), (15, 9, 9), (16, 113, 81), (17, 119, 87),
     (18, 101, 69), (19, 114, 82), (20, 116, 84), (21, 121, 89), (22, 117, 85), (23, 105, 73), (24, 111, 79), (25, 112, 80),
     (26, 91, 123), (27, 93, 125), (28, 10, 10), (29, 0, 0), (30, 97, 65), (31, 115, 83), (32, 100, 68), (33, 102, 70),
     (34, 103, 71), (35, 104, 72), (36, 106, 74), (37, 107, 75), (38, 108, 76), (39, 59, 58), (40, 39, 34), (41, 96, 126),
     (43, 92, 124), (44, 122, 90), (45, 120, 88), (46, 99, 67), (47, 118, 86), (48, 98, 66), (49, 110, 78), (50, 109, 77),
     (51, 44, 60), (52, 46, 62), (53, 47, 63), (57, 32, 32)]"

definition us_layout :: "u8 \<Rightarrow> u32 \<times> u32" where
  "us_layout scancode = (case map_of us_layout_rows scancode of None \<Rightarrow> (0, 0) | Some row \<Rightarrow> row)"

definition us_set2_to_set1 :: "u8 list" where
  "us_set2_to_set1 =
    [0, 0x3b, 0, 0x3f, 0x3d, 0x3b, 0x3c, 0x58, 0, 0x44, 0x42, 0x40, 0x3e, 0xf, 0x29, 0,
     0, 0x38, 0x2a, 0, 0x1d, 0x10, 0x2, 0, 0, 0, 0x2c, 0x1f, 0x1e, 0x11, 0x3, 0,
     0, 0x2e, 0x2d, 0x20, 0x12, 0x5, 0x4, 0, 0, 0x39, 0x2f, 0x21, 0x14, 0x13, 0x6, 0,
     0, 0x31, 0x30, 0x23, 0x22, 0x15, 0x7, 0, 0, 0, 0x32, 0x24, 0x16, 0x8, 0x9, 0,
     0, 0x33, 0x25, 0x17, 0x18, 0xb, 0xa, 0, 0, 0x34, 0x35, 0x26, 0x27, 0x19, 0xc, 0,
     0, 0, 0x28, 0, 0x1a, 0xd, 0, 0, 0x3a, 0x36, 0x1c, 0x1b, 0, 0x2b, 0, 0,
     0, 0, 0, 0, 0, 0, 0xe, 0, 0, 0x4f, 0, 0x4b, 0x47, 0, 0, 0,
     0x52, 0x53, 0x50, 0x4c, 0x4e, 0x48, 0x1, 0x45, 0x57, 0x4e, 0x4d, 0x4a, 0x37, 0x49, 0x46, 0]"

text \<open>
  The key of a scancode and whether it was released; nothing when the code only announces a release. Reading behind a table is undefined.
\<close>

definition read_scancode :: "u8 \<Rightarrow> keyboard \<Rightarrow> ((u8 \<times> bool) option \<times> keyboard) outcome" where
  "read_scancode scancode kb =
     (if scancode_set kb = 2 then
        if scancode = 0xF0 then Ok (None, kb\<lparr>release_next := True\<rparr>)
        else if release_next kb then
          if unat scancode < 128 then Ok (Some (us_set2_to_set1 ! unat scancode, True), kb\<lparr>release_next := False\<rparr>)
          else Panic ''us_set2_to_set1''
        else if scancode AND 0x80 \<noteq> 0 then Ok (Some (us_set2_to_set1 ! unat (scancode AND 0x7F), True), kb)
        else Ok (Some (us_set2_to_set1 ! unat scancode, False), kb)
      else if scancode_set kb = 1 then Ok (Some (scancode AND 0x7F, scancode AND 0x80 \<noteq> 0), kb)
      else Ok (Some (scancode, False), kb))"

definition key_action :: "u8 \<Rightarrow> bool \<Rightarrow> keyboard \<Rightarrow> (u8 list \<times> keyboard) outcome" where
  "key_action scancode key_released kb =
     (if scancode = 0x2A \<or> scancode = 0x36 then Ok ([], kb\<lparr>shift_pressed := \<not> key_released\<rparr>)
      else if scancode = 0x1D then Ok ([], kb\<lparr>ctrl_pressed := \<not> key_released\<rparr>)
      else if scancode = 0x38 then Ok ([], kb\<lparr>alt_pressed := \<not> key_released\<rparr>)
      else if scancode = 0x3A \<and> \<not> key_released then Ok ([], kb\<lparr>capslock_on := \<not> capslock_on kb\<rparr>)
      else if key_released then Ok ([], kb)
      else if unat scancode \<ge> 128 then Panic ''us_layout''
      else
        let codepoint = (if shift_pressed kb \<noteq> capslock_on kb then snd (us_layout scancode) else fst (us_layout scancode))
        in Ok (if codepoint \<noteq> 0 then emit_utf8 codepoint else [], kb))"

definition keyboard_handler :: "u8 \<Rightarrow> u8 \<Rightarrow> keyboard \<Rightarrow> (u8 list \<times> keyboard) outcome" where
  "keyboard_handler status data kb =
     (if status AND 0x01 = 0 then Ok ([], kb)
      else obind (read_scancode data kb) (\<lambda>(key, kb1).
             case key of None \<Rightarrow> Ok ([], kb1) | Some (scancode, key_released) \<Rightarrow> key_action scancode key_released kb1))"

section \<open>The mouse\<close>

record mouse =
  mouse_cycle :: u8
  mouse_packet :: "u8 list"

definition mouse_handler :: "u8 \<Rightarrow> u8 \<Rightarrow> mouse \<Rightarrow> mouse outcome" where
  "mouse_handler status data ms =
     (if status AND 0x01 = 0 then Ok ms
      else if unat (mouse_cycle ms) \<ge> 3 then Panic ''mouse_packet''
      else
        let ms1 = ms\<lparr>mouse_packet := (mouse_packet ms)[unat (mouse_cycle ms) := data], mouse_cycle := mouse_cycle ms + 1\<rparr> in
        if mouse_cycle ms1 = 1 \<and> mouse_packet ms1 ! 0 AND 0x08 = 0 then Ok (ms1\<lparr>mouse_cycle := 0\<rparr>)
        else if mouse_cycle ms1 = 3 then Ok (ms1\<lparr>mouse_cycle := 0\<rparr>)
        else Ok ms1)"

section \<open>The controller\<close>

text \<open>The machine answers reads of its ports and takes what is written to them.\<close>

record 'h ports =
  port_in :: "u16 \<Rightarrow> 'h \<Rightarrow> u8 \<times> 'h"
  port_out :: "u16 \<Rightarrow> u8 \<Rightarrow> 'h \<Rightarrow> 'h"

definition PS2_DATA_PORT :: u16 where "PS2_DATA_PORT = 0x60"
definition PS2_STATUS_PORT :: u16 where "PS2_STATUS_PORT = 0x64"
definition PS2_COMMAND_PORT :: u16 where "PS2_COMMAND_PORT = 0x64"

primrec wait_status :: "'h ports \<Rightarrow> (u8 \<Rightarrow> bool) \<Rightarrow> nat \<Rightarrow> 'h \<Rightarrow> 'h" where
  "wait_status io ready 0 h = h"
| "wait_status io ready (Suc timeout) h =
     (case port_in io PS2_STATUS_PORT h of (st, h1) \<Rightarrow> if ready st then h1 else wait_status io ready timeout h1)"

definition ps2_wait_read :: "'h ports \<Rightarrow> 'h \<Rightarrow> 'h" where
  "ps2_wait_read io h = wait_status io (\<lambda>st. st AND 0x01 \<noteq> 0) 100000 h"

definition ps2_wait_write :: "'h ports \<Rightarrow> 'h \<Rightarrow> 'h" where
  "ps2_wait_write io h = wait_status io (\<lambda>st. st AND 0x02 = 0) 100000 h"

definition ps2_send :: "'h ports \<Rightarrow> u16 \<Rightarrow> u8 \<Rightarrow> 'h \<Rightarrow> 'h" where
  "ps2_send io port v h = port_out io port v (ps2_wait_write io h)"

definition ps2_receive :: "'h ports \<Rightarrow> 'h \<Rightarrow> u8 \<times> 'h" where
  "ps2_receive io h = port_in io PS2_DATA_PORT (ps2_wait_read io h)"

partial_function (option) ps2_flush :: "'h ports \<Rightarrow> 'h \<Rightarrow> 'h option" where
  "ps2_flush io h =
     (case port_in io PS2_STATUS_PORT h of (st, h1) \<Rightarrow>
        if st AND 0x01 = 0 then Some h1 else ps2_flush io (snd (port_in io PS2_DATA_PORT h1)))"

definition mouse_write :: "'h ports \<Rightarrow> u8 \<Rightarrow> 'h \<Rightarrow> 'h" where
  "mouse_write io data h = ps2_send io PS2_DATA_PORT data (ps2_send io PS2_COMMAND_PORT 0xD4 h)"

definition mouse_read :: "'h ports \<Rightarrow> 'h \<Rightarrow> u8 \<times> 'h" where
  "mouse_read io h = ps2_receive io h"

definition detect_scancode_set :: "'h ports \<Rightarrow> keyboard \<Rightarrow> 'h \<Rightarrow> keyboard \<times> 'h" where
  "detect_scancode_set io kb h =
     (let h1 = snd (ps2_receive io (ps2_send io PS2_DATA_PORT 0xF0 h));
          h2 = snd (ps2_receive io (ps2_send io PS2_DATA_PORT 0x00 h1));
          (set, h3) = ps2_receive io h2
      in (kb\<lparr>scancode_set := set\<rparr>, h3))"

definition ps2_controller_init :: "'h ports \<Rightarrow> keyboard \<Rightarrow> 'h \<Rightarrow> (keyboard \<times> 'h) option" where
  "ps2_controller_init io kb h =
     Option.bind (ps2_flush io (ps2_send io PS2_COMMAND_PORT 0xA7 (ps2_send io PS2_COMMAND_PORT 0xAD h))) (\<lambda>h1.
       let (config, h2) = ps2_receive io (ps2_send io PS2_COMMAND_PORT 0x20 h1);
           config = (config OR 0x03) AND NOT 0x40;
           h3 = ps2_send io PS2_DATA_PORT config (ps2_send io PS2_COMMAND_PORT 0x60 h2);
           h4 = ps2_send io PS2_COMMAND_PORT 0xA8 (ps2_send io PS2_COMMAND_PORT 0xAE h3);
           h5 = snd (mouse_read io (snd (mouse_read io (snd (mouse_read io (mouse_write io 0xFF h4))))));
           h6 = snd (mouse_read io (mouse_write io 0xF4 h5))
       in Some (detect_scancode_set io kb h6))"

section \<open>Finding the devices\<close>

definition kb_info :: ps2_device_info where "kb_info = \<lparr>ps2_port = 0x60, ps2_irq = 1, ps2_exists = True\<rparr>"
definition mouse_info :: ps2_device_info where "mouse_info = \<lparr>ps2_port = 0x60, ps2_irq = 12, ps2_exists = True\<rparr>"

definition hw_detect_ps2_scan :: "'h ports \<Rightarrow> bool \<Rightarrow> device_manager \<Rightarrow> 'h \<Rightarrow> (int \<times> device_manager \<times> 'h) option" where
  "hw_detect_ps2_scan io has_memory dm h =
     Option.bind (ps2_flush io (ps2_send io PS2_COMMAND_PORT 0xA7 (ps2_send io PS2_COMMAND_PORT 0xAD h))) (\<lambda>h1.
       let (config, h2) = ps2_receive io (ps2_send io PS2_COMMAND_PORT 0x20 h1);
           dual_channel = (config AND 0x20 \<noteq> 0);
           (result, h3) = ps2_receive io (ps2_send io PS2_COMMAND_PORT 0xAA h2)
       in if result \<noteq> 0x55 then Some (0, dm, h3)
          else
            let h4 = ps2_send io PS2_DATA_PORT config (ps2_send io PS2_COMMAND_PORT 0x60 h3);
                (result1, h5) = ps2_receive io (ps2_send io PS2_COMMAND_PORT 0xAB h4);
                (found1, dm1) = (if result1 = 0 then (1, snd (device_register_from_ps2 has_memory kb_info dm)) else (0, dm))
            in if dual_channel then
                 let (result2, h6) = ps2_receive io (ps2_send io PS2_COMMAND_PORT 0xA9 h5);
                     (found2, dm2) = (if result2 = 0 then (found1 + 1, snd (device_register_from_ps2 has_memory mouse_info dm1)) else (found1, dm1))
                 in Some (found2, dm2, h6)
               else Some (found1, dm1, h5))"

section \<open>The driver\<close>

text \<open>
  \<^verbatim>\<open>ps2_init\<close> sets the controller up once; the interrupts that are enabled are recorded. Without the description of the device it reads address 0.
\<close>

record 'h ps2_state =
  kbd :: keyboard
  controller_initialized :: bool
  ps2_enabled :: "u8 list"
  machine :: 'h

definition ps2_init :: "'h ports \<Rightarrow> device_t \<Rightarrow> 'h ps2_state \<Rightarrow> 'h ps2_state outcome option" where
  "ps2_init io d s =
     (case dv_os_data d of
        Ps2_data info \<Rightarrow>
          Option.bind (if controller_initialized s then Some (kbd s, machine s) else ps2_controller_init io (kbd s) (machine s)) (\<lambda>(kb, h).
            Some (Ok (s\<lparr>kbd := kb, controller_initialized := True, ps2_enabled := ps2_enabled s @ [ps2_irq info], machine := h\<rparr>)))
      | _ \<Rightarrow> Some (Panic ''os_data''))"

definition ps2_irq_handler :: "device_t \<Rightarrow> u8 \<Rightarrow> u8 \<Rightarrow> keyboard \<times> mouse \<Rightarrow> (u8 list \<times> keyboard \<times> mouse) outcome" where
  "ps2_irq_handler d status data s =
     (case dv_os_data d of
        Ps2_data info \<Rightarrow>
          if ps2_irq info = 1 then obind (keyboard_handler status data (fst s)) (\<lambda>(out, kb). Ok (out, kb, snd s))
          else if ps2_irq info = 12 then obind (mouse_handler status data (snd s)) (\<lambda>ms. Ok ([], fst s, ms))
          else Ok ([], s)
      | _ \<Rightarrow> Panic ''os_data'')"

end
