(* ===== verification/Ps2_Props.thy ===== *)
theory Ps2_Props
  imports Ps2
begin

text \<open>
  Properties of the input devices: typed text arrives, the two sets of scancodes mean the same, characters are encoded in UTF-8, and where the
  handlers leave their tables.
\<close>

section \<open>UTF-8\<close>

text \<open>The reference: the code point of an encoded character.\<close>

fun utf8_decode :: "u8 list \<Rightarrow> u32 option" where
  "utf8_decode [a] = (if a < 0x80 then Some (ucast a) else None)"
| "utf8_decode [a, b] =
     (if a AND 0xE0 = 0xC0 \<and> b AND 0xC0 = 0x80 then Some (push_bit 6 (ucast (a AND 0x1F)) OR ucast (b AND 0x3F)) else None)"
| "utf8_decode [a, b, c] =
     (if a AND 0xF0 = 0xE0 \<and> b AND 0xC0 = 0x80 \<and> c AND 0xC0 = 0x80
      then Some (push_bit 12 (ucast (a AND 0x0F)) OR push_bit 6 (ucast (b AND 0x3F)) OR ucast (c AND 0x3F)) else None)"
| "utf8_decode [a, b, c, d] =
     (if a AND 0xF8 = 0xF0 \<and> b AND 0xC0 = 0x80 \<and> c AND 0xC0 = 0x80 \<and> d AND 0xC0 = 0x80
      then Some (push_bit 18 (ucast (a AND 0x07)) OR push_bit 12 (ucast (b AND 0x3F)) OR push_bit 6 (ucast (c AND 0x3F)) OR ucast (d AND 0x3F))
      else None)"
| "utf8_decode _ = None"

lemma masks: "0x3F = (mask 6 :: 'a::len word)" "0x1F = (mask 5 :: 'a word)" "0x0F = (mask 4 :: 'a word)" "0x07 = (mask 3 :: 'a word)"
  by (simp_all add: mask_eq_exp_minus_1)

lemma small_bits: "unat (w :: u32) < 2 ^ k \<Longrightarrow> k \<le> n \<Longrightarrow> \<not> bit w n"
proof -
  assume a: "unat w < 2 ^ k" "k \<le> n"
  have "unat w < 2 ^ n" using less_le_trans [OF a(1) power_increasing [OF a(2)]] by simp
  then have "\<not> bit (unat w) n" by (simp add: bit_iff_odd)
  then show ?thesis by (simp add: bit_unsigned_iff)
qed

lemma byte_eqI:
  "bit a 0 = bit b 0 \<Longrightarrow> bit a 1 = bit b 1 \<Longrightarrow> bit a 2 = bit b 2 \<Longrightarrow> bit a 3 = bit b 3 \<Longrightarrow> bit a 4 = bit b 4 \<Longrightarrow> bit a 5 = bit b 5 \<Longrightarrow>
     bit a 6 = bit b 6 \<Longrightarrow> bit a 7 = bit b 7 \<Longrightarrow> a = b" for a b :: u8
proof (rule bit_word_eqI)
  fix n assume bits: "bit a 0 = bit b 0" "bit a 1 = bit b 1" "bit a 2 = bit b 2" "bit a 3 = bit b 3" "bit a 4 = bit b 4" "bit a 5 = bit b 5"
    "bit a 6 = bit b 6" "bit a 7 = bit b 7" and "n < LENGTH(8)"
  then have "n < 8" by simp
  then have "n = 0 \<or> n = 1 \<or> n = 2 \<or> n = 3 \<or> n = 4 \<or> n = 5 \<or> n = 6 \<or> n = 7" by arith
  with bits show "bit a n = bit b n" by (elim disjE) simp_all
qed

text \<open>The payload and the marker of every byte.\<close>

lemma tail_byte:
  "(ucast (0x80 OR (x AND 0x3F) :: u32) :: u8) AND 0x3F = ucast x AND 0x3F" "(ucast (0x80 OR (x AND 0x3F) :: u32) :: u8) AND 0xC0 = 0x80"
  by - (rule byte_eqI; simp add: bit_simps)+

lemma lead_byte:
  "(ucast (0xC0 OR (x AND 0x1F) :: u32) :: u8) AND 0x1F = ucast x AND 0x1F" "(ucast (0xC0 OR (x AND 0x1F) :: u32) :: u8) AND 0xE0 = 0xC0"
  "(ucast (0xE0 OR (x AND 0x0F) :: u32) :: u8) AND 0x0F = ucast x AND 0x0F" "(ucast (0xE0 OR (x AND 0x0F) :: u32) :: u8) AND 0xF0 = 0xE0"
  "(ucast (0xF0 OR (x AND 0x07) :: u32) :: u8) AND 0x07 = ucast x AND 0x07" "(ucast (0xF0 OR (x AND 0x07) :: u32) :: u8) AND 0xF8 = 0xF0"
  by - (rule byte_eqI; simp add: bit_simps)+

text \<open>Putting the pieces of a code point together.\<close>

lemma join_bits:
  "unat (x :: u32) < 2 ^ 11 \<Longrightarrow> push_bit 6 (ucast (ucast (drop_bit 6 x) AND mask 5 :: u8)) OR ucast (ucast x AND mask 6 :: u8) = x"
  "unat x < 2 ^ 16 \<Longrightarrow> push_bit 12 (ucast (ucast (drop_bit 12 x) AND mask 4 :: u8)) OR push_bit 6 (ucast (ucast (drop_bit 6 x) AND mask 6 :: u8)) OR
     ucast (ucast x AND mask 6 :: u8) = x"
  "unat x < 2 ^ 21 \<Longrightarrow> push_bit 18 (ucast (ucast (drop_bit 18 x) AND mask 3 :: u8)) OR push_bit 12 (ucast (ucast (drop_bit 12 x) AND mask 6 :: u8)) OR
     push_bit 6 (ucast (ucast (drop_bit 6 x) AND mask 6 :: u8)) OR ucast (ucast x AND mask 6 :: u8) = x"
proof -
  have six: "bit (ucast (ucast y AND mask k :: u8) :: u32) n \<longleftrightarrow> n < k \<and> n < 8 \<and> bit y n" for y :: u32 and k n
    by (auto simp: bit_simps)
  note piece = bit_or_iff bit_push_bit_iff bit_drop_bit_eq comp_def six
  show "push_bit 6 (ucast (ucast (drop_bit 6 x) AND mask 5 :: u8)) OR ucast (ucast x AND mask 6 :: u8) = x" if "unat x < 2 ^ 11"
  proof (rule bit_word_eqI)
    fix n assume n: "n < LENGTH(32)"
    consider "n < 6" | "6 \<le> n" "n < 11" | "11 \<le> n" by arith
    then show "bit (push_bit 6 (ucast (ucast (drop_bit 6 x) AND mask 5 :: u8)) OR ucast (ucast x AND mask 6 :: u8) :: u32) n = bit x n"
      by cases (use n small_bits [OF that, of n] in \<open>auto simp: piece\<close>)
  qed
  show "push_bit 12 (ucast (ucast (drop_bit 12 x) AND mask 4 :: u8)) OR push_bit 6 (ucast (ucast (drop_bit 6 x) AND mask 6 :: u8)) OR
     ucast (ucast x AND mask 6 :: u8) = x" if "unat x < 2 ^ 16"
  proof (rule bit_word_eqI)
    fix n assume n: "n < LENGTH(32)"
    consider "n < 6" | "6 \<le> n" "n < 12" | "12 \<le> n" "n < 16" | "16 \<le> n" by arith
    then show "bit (push_bit 12 (ucast (ucast (drop_bit 12 x) AND mask 4 :: u8)) OR push_bit 6 (ucast (ucast (drop_bit 6 x) AND mask 6 :: u8)) OR
        ucast (ucast x AND mask 6 :: u8) :: u32) n = bit x n"
      by cases (use n small_bits [OF that, of n] in \<open>auto simp: piece\<close>)
  qed
  show "push_bit 18 (ucast (ucast (drop_bit 18 x) AND mask 3 :: u8)) OR push_bit 12 (ucast (ucast (drop_bit 12 x) AND mask 6 :: u8)) OR
     push_bit 6 (ucast (ucast (drop_bit 6 x) AND mask 6 :: u8)) OR ucast (ucast x AND mask 6 :: u8) = x" if "unat x < 2 ^ 21"
  proof (rule bit_word_eqI)
    fix n assume n: "n < LENGTH(32)"
    consider "n < 6" | "6 \<le> n" "n < 12" | "12 \<le> n" "n < 18" | "18 \<le> n" "n < 21" | "21 \<le> n" by arith
    then show "bit (push_bit 18 (ucast (ucast (drop_bit 18 x) AND mask 3 :: u8)) OR push_bit 12 (ucast (ucast (drop_bit 12 x) AND mask 6 :: u8)) OR
        push_bit 6 (ucast (ucast (drop_bit 6 x) AND mask 6 :: u8)) OR ucast (ucast x AND mask 6 :: u8) :: u32) n = bit x n"
      by cases (use n small_bits [OF that, of n] in \<open>auto simp: piece\<close>)
  qed
qed

lemma byte_up: "unat (ucast (b :: u8) :: u32) = unat b"
proof -
  have "unat b < 2 ^ 8" using unsigned_less [of b, where ?'a = nat] by simp
  then have "unat b < 2 ^ 32" by simp
  then show ?thesis by (simp add: unsigned_ucast_eq take_bit_nat_eq_self)
qed

lemma one_byte: "unat (x :: u32) < 128 \<Longrightarrow> ucast (ucast x :: u8) = x \<and> (ucast x :: u8) < 0x80"
proof -
  assume a: "unat x < 128"
  have "unat (ucast x :: u8) = take_bit 8 (unat x)" by (simp add: unsigned_ucast_eq unsigned_take_bit_eq)
  also have "\<dots> = unat x" using a by (intro take_bit_nat_eq_self) simp
  finally have "unat (ucast x :: u8) = unat x" .
  moreover have "unat (ucast (ucast x :: u8) :: u32) = unat (ucast x :: u8)" by (rule byte_up)
  ultimately show ?thesis using a unfolding word_unat_eq_iff word_less_nat_alt by auto
qed

text \<open>
  What \<^verbatim>\<open>emit_utf8\<close> sends is the UTF-8 encoding of the code point: decoding it gives the code point back, for all code points of at most 21 bits.
\<close>

theorem emit_utf8_decodes:
  assumes "codepoint < 0x200000"
  shows "utf8_decode (emit_utf8 codepoint) = Some codepoint"
proof -
  have b: "unat codepoint < 2 ^ 21" using assms by (simp add: word_less_nat_alt)
  consider "codepoint \<le> 0x7F" | "\<not> codepoint \<le> 0x7F" "codepoint \<le> 0x7FF" | "\<not> codepoint \<le> 0x7F" "\<not> codepoint \<le> 0x7FF" "codepoint \<le> 0xFFFF"
    | "\<not> codepoint \<le> 0x7F" "\<not> codepoint \<le> 0x7FF" "\<not> codepoint \<le> 0xFFFF" by blast
  then show ?thesis
  proof cases
    case 1
    then have "unat codepoint < 128" by (simp add: word_le_nat_alt)
    then show ?thesis using 1 one_byte [of codepoint] by (simp add: emit_utf8_def)
  next
    case 2
    then have "unat codepoint < 2 ^ 11" by (simp add: word_le_nat_alt)
    then show ?thesis using 2 join_bits(1) [of codepoint, folded masks] by (simp add: emit_utf8_def tail_byte lead_byte)
  next
    case 3
    then have "unat codepoint < 2 ^ 16" by (simp add: word_le_nat_alt)
    then show ?thesis using 3 join_bits(2) [of codepoint, folded masks] by (simp add: emit_utf8_def tail_byte lead_byte)
  next
    case 4
    then show ?thesis using b join_bits(3) [of codepoint, folded masks] by (simp add: emit_utf8_def tail_byte lead_byte)
  qed
qed

section \<open>Keys\<close>

lemma set2_table: "length us_set2_to_set1 = 128" "list_all (\<lambda>k. k < 128) us_set2_to_set1"
  by (simp_all add: us_set2_to_set1_def)

lemma set2_key: "unat k < 128 \<Longrightarrow> unat (us_set2_to_set1 ! unat k) < 128"
  using set2_table by (auto simp: list_all_length word_less_nat_alt)

lemma key_action_total:
  assumes "unat sc < 128"
  shows "\<exists>out kb'. key_action sc rel kb = Ok (out, kb') \<and> scancode_set kb' = scancode_set kb \<and> release_next kb' = release_next kb \<and>
    (\<forall>v. key_action sc rel (kb\<lparr>scancode_set := v\<rparr>) = Ok (out, kb'\<lparr>scancode_set := v\<rparr>))"
  using assms by (auto simp: key_action_def Let_def)

text \<open>
  The reference: the keys of a US keyboard, row by row. A row has its first code of set 1 (the codes of a row are consecutive there), its codes of
  set 2, and what is printed on the keys, without and with shift. The rows are the digits, the three rows of letters with the punctuation beside
  them, and the space bar; backspace, tab and enter stand for the control characters 8, 9 and 10.
\<close>

definition key_row :: "u8 \<Rightarrow> u8 list \<Rightarrow> string \<Rightarrow> string \<Rightarrow> (u8 \<times> u8 \<times> u8 \<times> u8) list" where
  "key_row k codes plain shifted =
     zip (map (\<lambda>i. k + of_nat i) [0..<length codes]) (zip codes (zip (map of_char plain) (map of_char shifted)))"

definition us_keys :: "(u8 \<times> u8 \<times> u8 \<times> u8) list" where
  "us_keys =
     key_row 0x02 [0x16, 0x1E, 0x26, 0x25, 0x2E, 0x36, 0x3D, 0x3E, 0x46, 0x45, 0x4E, 0x55] ''1234567890-='' ''!@#$%^&*()_+'' @
     key_row 0x10 [0x15, 0x1D, 0x24, 0x2D, 0x2C, 0x35, 0x3C, 0x43, 0x44, 0x4D, 0x54, 0x5B] ''qwertyuiop[]'' ''QWERTYUIOP{}'' @
     key_row 0x1E [0x1C, 0x1B, 0x23, 0x2B, 0x34, 0x33, 0x3B, 0x42, 0x4B, 0x4C] ''asdfghjkl;'' ''ASDFGHJKL:'' @
     key_row 0x28 [0x52, 0x0E] [CHR 0x27, CHR 0x60] [CHR 0x22, CHR 0x7E] @
     key_row 0x2B [0x5D] [CHR 0x5C] ''|'' @
     key_row 0x2C [0x1A, 0x22, 0x21, 0x2A, 0x32, 0x31, 0x3A, 0x41, 0x49, 0x4A] ''zxcvbnm,./'' ''ZXCVBNM<>?'' @
     key_row 0x39 [0x29] '' '' '' '' @
     [(0x0E, 0x66, 8, 8), (0x0F, 0x0D, 9, 9), (0x1C, 0x5A, 10, 10)]"

text \<open>
  All keys with a single code below 128 in both sets, by their codes of set 2 and set 1: those above; then control, the two shifts, alt and
  caps lock; escape and the function keys without F7; number lock, scroll lock and the keypad.
\<close>

definition at_keys :: "(u8 \<times> u8) list" where
  "at_keys = map (\<lambda>(k1, k2, _). (k2, k1)) us_keys @
     [(0x14, 0x1D), (0x12, 0x2A), (0x59, 0x36), (0x11, 0x38), (0x58, 0x3A)] @
     [(0x76, 0x01), (0x05, 0x3B), (0x06, 0x3C), (0x04, 0x3D), (0x0C, 0x3E), (0x03, 0x3F), (0x0B, 0x40), (0x0A, 0x42), (0x01, 0x43),
      (0x09, 0x44), (0x78, 0x57), (0x07, 0x58)] @
     [(0x77, 0x45), (0x7E, 0x46), (0x6C, 0x47), (0x75, 0x48), (0x7D, 0x49), (0x7B, 0x4A), (0x6B, 0x4B), (0x73, 0x4C), (0x74, 0x4D),
      (0x79, 0x4E), (0x69, 0x4F), (0x72, 0x50), (0x7A, 0x51), (0x70, 0x52), (0x71, 0x53), (0x7C, 0x37)]"

text \<open>The keys the table of the driver gets wrong: F9, and 6 and 3 of the keypad.\<close>

definition wrong_keys :: "(u8 \<times> u8) list" where
  "wrong_keys = [(0x01, 0x43), (0x74, 0x4D), (0x7A, 0x51)]"

datatype key_event = Press "u8 \<times> u8" | Release "u8 \<times> u8"

primrec key_of :: "key_event \<Rightarrow> u8 \<times> u8" where
  "key_of (Press k) = k"
| "key_of (Release k) = k"

primrec set2_codes :: "key_event \<Rightarrow> u8 list" where
  "set2_codes (Press k) = [fst k]"
| "set2_codes (Release k) = [0xF0, fst k]"

primrec set1_codes :: "key_event \<Rightarrow> u8 list" where
  "set1_codes (Press k) = [snd k]"
| "set1_codes (Release k) = [snd k OR 0x80]"

text \<open>A key of the table of the driver.\<close>

definition in_table :: "u8 \<times> u8 \<Rightarrow> bool" where
  "in_table k \<longleftrightarrow> unat (fst k) < 128 \<and> us_set2_to_set1 ! unat (fst k) = snd k"

lemma at_keys_table: "list_all (\<lambda>k. in_table k = (k \<notin> set wrong_keys)) at_keys"
  by code_simp

lemma at_key: "k \<in> set at_keys - set wrong_keys \<Longrightarrow> in_table k"
  using at_keys_table by (auto simp: list_all_iff)

text \<open>F9 is taken for F1, the 6 of the keypad for its plus, and the 3 for the 6.\<close>

theorem set2_wrong_keys:
  "us_set2_to_set1 ! 0x01 = 0x3B" "us_set2_to_set1 ! 0x74 = 0x4E" "us_set2_to_set1 ! 0x7A = 0x4D"
  by code_simp+

definition keyboard_run :: "u8 list \<Rightarrow> keyboard \<Rightarrow> (u8 list \<times> keyboard) outcome" where
  "keyboard_run codes kb = run_events (keyboard_handler 1) codes kb"

lemma high_bit:
  assumes "unat (k :: u8) < 128"
  shows "k AND 0x80 = 0" "(k OR 0x80) AND 0x7F = k" "k AND 0x7F = k" "(k OR 0x80) AND 0x80 = 0x80"
proof -
  have b: "\<not> bit k 7"
  proof
    assume "bit k 7"
    then have "bit (unat k) 7" by (simp add: bit_unsigned_iff)
    then show False using assms by (simp add: bit_iff_odd)
  qed
  show "k AND 0x80 = 0" "(k OR 0x80) AND 0x7F = k" "k AND 0x7F = k" "(k OR 0x80) AND 0x80 = 0x80"
    using b by - (rule byte_eqI; simp add: bit_simps)+
qed

lemma run_events_append:
  "run_events f (xs @ ys) s = obind (run_events f xs s) (\<lambda>(out, s1). obind (run_events f ys s1) (\<lambda>(out', s2). Ok (out @ out', s2)))"
proof (induction xs arbitrary: s)
  case Nil
  show ?case by (cases "run_events f ys s") (auto split: prod.splits)
next
  case (Cons x xs)
  show ?case
  proof (cases "f x s")
    case (Ok r)
    obtain out s1 where r: "r = (out, s1)" by (cases r)
    show ?thesis
    proof (cases "run_events f xs s1")
      case (Ok q)
      obtain out1 s2 where q: "q = (out1, s2)" by (cases q)
      show ?thesis using \<open>f x s = Ok r\<close> Ok r q Cons.IH [of s1] by (cases "run_events f ys s2") auto
    next
      case (Panic e)
      then show ?thesis using \<open>f x s = Ok r\<close> r Cons.IH [of s1] by simp
    qed
  qed simp
qed

lemma event_same:
  assumes "in_table (key_of e)" "scancode_set kb = 2" "\<not> release_next kb"
  shows "\<exists>out kb'. keyboard_run (set2_codes e) kb = Ok (out, kb') \<and> scancode_set kb' = 2 \<and> \<not> release_next kb' \<and>
    keyboard_run (set1_codes e) (kb\<lparr>scancode_set := 1\<rparr>) = Ok (out, kb'\<lparr>scancode_set := 1\<rparr>)"
proof -
  define k where "k = snd (key_of e)"
  have low: "unat (fst (key_of e)) < 128" and tab: "us_set2_to_set1 ! unat (fst (key_of e)) = k"
    using assms(1) by (simp_all add: in_table_def k_def)
  have k: "unat k < 128" unfolding tab [symmetric] by (rule set2_key [OF low])
  have f0: "fst (key_of e) \<noteq> 0xF0" using low by auto
  note hb = high_bit [OF k] and hb2 = high_bit [OF low]
  obtain rel where rel: "rel = (case e of Press _ \<Rightarrow> False | Release _ \<Rightarrow> True)" by simp
  from key_action_total [OF k, of rel kb] obtain out kb' where
    act: "key_action k rel kb = Ok (out, kb')" "scancode_set kb' = scancode_set kb" "release_next kb' = release_next kb"
    "\<And>v. key_action k rel (kb\<lparr>scancode_set := v\<rparr>) = Ok (out, kb'\<lparr>scancode_set := v\<rparr>)" by blast
  have "kb\<lparr>release_next := False\<rparr> = kb" using assms(3) by simp
  then have same: "key_action k rel (kb\<lparr>release_next := False\<rparr>) = Ok (out, kb')" using act(1) by (simp only:)
  show ?thesis
  proof (cases e)
    case (Press x)
    have "keyboard_run (set2_codes e) kb = Ok (out, kb')"
      using Press act(1) rel f0 hb2 tab assms(2,3) by (simp add: keyboard_run_def keyboard_handler_def read_scancode_def)
    moreover have "keyboard_run (set1_codes e) (kb\<lparr>scancode_set := 1\<rparr>) = Ok (out, kb'\<lparr>scancode_set := 1\<rparr>)"
      using Press act(4) [of 1] rel hb by (simp add: keyboard_run_def keyboard_handler_def read_scancode_def k_def)
    ultimately show ?thesis using act(2,3) assms(2,3) by auto
  next
    case (Release x)
    have "keyboard_run (set2_codes e) kb = Ok (out, kb')"
      using Release rel f0 low tab assms(2,3) same by (simp add: keyboard_run_def keyboard_handler_def read_scancode_def)
    moreover have "keyboard_run (set1_codes e) (kb\<lparr>scancode_set := 1\<rparr>) = Ok (out, kb'\<lparr>scancode_set := 1\<rparr>)"
      using Release act(4) [of 1] rel hb by (simp add: keyboard_run_def keyboard_handler_def read_scancode_def k_def)
    ultimately show ?thesis using act(2,3) assms(2,3) by auto
  qed
qed

lemma events_same:
  assumes "\<forall>e \<in> set es. in_table (key_of e)" "scancode_set kb = 2" "\<not> release_next kb"
  shows "\<exists>out kb'. keyboard_run (concat (map set2_codes es)) kb = Ok (out, kb') \<and> scancode_set kb' = 2 \<and> \<not> release_next kb' \<and>
    keyboard_run (concat (map set1_codes es)) (kb\<lparr>scancode_set := 1\<rparr>) = Ok (out, kb'\<lparr>scancode_set := 1\<rparr>)"
  using assms
proof (induction es arbitrary: kb)
  case Nil
  then show ?case by (simp add: keyboard_run_def)
next
  case (Cons e es)
  from event_same [of e kb] Cons.prems obtain out kb1 where
    1: "keyboard_run (set2_codes e) kb = Ok (out, kb1)" "scancode_set kb1 = 2" "\<not> release_next kb1"
    "keyboard_run (set1_codes e) (kb\<lparr>scancode_set := 1\<rparr>) = Ok (out, kb1\<lparr>scancode_set := 1\<rparr>)" by auto
  from Cons.IH [OF _ 1(2,3)] Cons.prems(1) obtain out' kb2 where
    "keyboard_run (concat (map set2_codes es)) kb1 = Ok (out', kb2)" "scancode_set kb2 = 2" "\<not> release_next kb2"
    "keyboard_run (concat (map set1_codes es)) (kb1\<lparr>scancode_set := 1\<rparr>) = Ok (out', kb2\<lparr>scancode_set := 1\<rparr>)" by auto
  then show ?case using 1 by (simp add: keyboard_run_def run_events_append)
qed

text \<open>
  C38: the two sets of scancodes mean the same. For every sequence of keys pressed and released on a standard keyboard, one that sends the codes of set 2
  makes the handler print the same characters, and leaves the same modifiers, as one that sends the codes of set 1. The codes are those of the
  standard sets, not those of the table of the driver; F7, whose code of set 2 is no code below 128, and the three keys the table gets wrong are excluded.
\<close>

theorem keyboard_set2_as_set1:
  assumes "\<forall>e \<in> set es. key_of e \<in> set at_keys - set wrong_keys" "scancode_set kb = 2" "\<not> release_next kb"
  shows "\<exists>out kb'. keyboard_run (concat (map set2_codes es)) kb = Ok (out, kb') \<and> scancode_set kb' = 2 \<and> \<not> release_next kb' \<and>
    keyboard_run (concat (map set1_codes es)) (kb\<lparr>scancode_set := 1\<rparr>) = Ok (out, kb'\<lparr>scancode_set := 1\<rparr>)"
  using events_same [OF _ assms(2,3)] assms(1) at_key by blast

section \<open>Typing\<close>

text \<open>What is done to type a character: its key is pressed and released, together with shift if necessary.\<close>

definition shift_key :: "u8 \<times> u8" where
  "shift_key = (0x12, 0x2A)"

definition type_char :: "u8 \<Rightarrow> key_event list" where
  "type_char c =
     (case find (\<lambda>(k1, k2, plain, shifted). plain = c) us_keys of
        Some (k1, k2, _) \<Rightarrow> [Press (k2, k1), Release (k2, k1)]
      | None \<Rightarrow>
          (case find (\<lambda>(k1, k2, plain, shifted). shifted = c) us_keys of
             Some (k1, k2, _) \<Rightarrow> [Press shift_key, Press (k2, k1), Release (k2, k1), Release shift_key]
           | None \<Rightarrow> []))"

definition key_codes :: "u8 \<Rightarrow> key_event list \<Rightarrow> u8 list" where
  "key_codes n es = concat (map (if n = 2 then set2_codes else set1_codes) es)"

lemma us_keys_ok:
  "list_all (\<lambda>(k1, k2, plain, shifted). us_layout k1 = (ucast plain, ucast shifted) \<and> unat k1 < 128 \<and> plain \<le> 0x7F \<and> shifted \<le> 0x7F \<and>
     plain \<noteq> 0 \<and> shifted \<noteq> 0 \<and> k1 \<notin> {0x2A, 0x36, 0x1D, 0x38, 0x3A} \<and> in_table (k2, k1)) us_keys"
  by code_simp

lemma us_key:
  assumes "(k1, k2, plain, shifted) \<in> set us_keys"
  shows "us_layout k1 = (ucast plain, ucast shifted)" "unat k1 < 128" "plain \<le> 0x7F" "shifted \<le> 0x7F" "plain \<noteq> 0" "shifted \<noteq> 0"
    "k1 \<notin> {0x2A, 0x36, 0x1D, 0x38, 0x3A}" "in_table (k2, k1)"
  using us_keys_ok assms unfolding list_all_iff by fastforce+

lemma ucast_back: "(ucast (ucast (c :: u8) :: u32) :: u8) = c"
proof -
  have "unat c < 2 ^ 8" using unsigned_less [of c, where ?'a = nat] by simp
  then have "take_bit 8 (unat c) = unat c" by (rule take_bit_nat_eq_self)
  then show ?thesis unfolding word_unat_eq_iff using byte_up [of c]
    by (subst unsigned_ucast_eq) (simp add: unsigned_take_bit_eq)
qed

lemma emit_byte: "c \<le> 0x7F \<Longrightarrow> c \<noteq> 0 \<Longrightarrow> emit_utf8 (ucast (c :: u8)) = [c] \<and> (ucast c :: u32) \<noteq> 0"
proof -
  assume c: "c \<le> 0x7F" "c \<noteq> 0"
  have "(ucast c :: u32) \<le> 0x7F" using c(1) by (simp add: word_le_nat_alt byte_up)
  moreover have "(ucast c :: u32) \<noteq> 0" using c(2) byte_up [of c] by (metis unat_0 word_unat_eq_iff)
  ultimately show ?thesis by (simp add: emit_utf8_def ucast_back)
qed

lemma key_press:
  assumes "(k1, k2, plain, shifted) \<in> set us_keys" "scancode_set kb = 1" "\<not> capslock_on kb"
  shows "keyboard_run (set1_codes (Press (k2, k1))) kb = Ok ([if shift_pressed kb then shifted else plain], kb)"
    "keyboard_run (set1_codes (Release (k2, k1))) kb = Ok ([], kb)"
proof -
  note r = us_key [OF assms(1)]
  note hb = high_bit [OF r(2)] and e = emit_byte [OF r(3,5)] emit_byte [OF r(4,6)]
  show "keyboard_run (set1_codes (Press (k2, k1))) kb = Ok ([if shift_pressed kb then shifted else plain], kb)"
    using r hb e assms(2,3) by (simp add: keyboard_run_def keyboard_handler_def read_scancode_def key_action_def Let_def)
  show "keyboard_run (set1_codes (Release (k2, k1))) kb = Ok ([], kb)"
    using r(7) hb assms(2) by (simp add: keyboard_run_def keyboard_handler_def read_scancode_def key_action_def)
qed

lemma shift_press:
  assumes "scancode_set kb = 1"
  shows "keyboard_run (set1_codes (Press shift_key)) kb = Ok ([], kb\<lparr>shift_pressed := True\<rparr>)"
    "keyboard_run (set1_codes (Release shift_key)) kb = Ok ([], kb\<lparr>shift_pressed := False\<rparr>)"
  using assms by (simp_all add: keyboard_run_def keyboard_handler_def read_scancode_def key_action_def shift_key_def)

lemma run_Cons:
  "keyboard_run (xs @ ys) kb = obind (keyboard_run xs kb) (\<lambda>(out, kb1). obind (keyboard_run ys kb1) (\<lambda>(out', kb2). Ok (out @ out', kb2)))"
  by (simp add: keyboard_run_def run_events_append)

lemma find_in_set: "find P xs = Some x \<Longrightarrow> x \<in> set xs \<and> P x"
  by (auto simp: find_Some_iff)

definition typable :: "u8 \<Rightarrow> bool" where
  "typable c \<longleftrightarrow> list_ex (\<lambda>(k1, k2, plain, shifted). plain = c \<or> shifted = c) us_keys"

lemma type_char_ok:
  assumes "typable c" "scancode_set kb = 1" "\<not> shift_pressed kb" "\<not> capslock_on kb"
  shows "keyboard_run (concat (map set1_codes (type_char c))) kb = Ok ([c], kb)" "\<forall>e \<in> set (type_char c). in_table (key_of e)"
proof -
  have nil: "keyboard_run [] kb = Ok ([], kb)" for kb by (simp add: keyboard_run_def)
  have sk: "in_table shift_key" by code_simp
  have same: "kb\<lparr>shift_pressed := False\<rparr> = kb" using assms(3) by simp
  have "keyboard_run (concat (map set1_codes (type_char c))) kb = Ok ([c], kb) \<and> (\<forall>e \<in> set (type_char c). in_table (key_of e))"
  proof (cases "find (\<lambda>(k1, k2, plain, shifted). plain = c) us_keys")
    case (Some row)
    then obtain k1 k2 shifted where row: "row = (k1, k2, c, shifted)" "(k1, k2, c, shifted) \<in> set us_keys"
      using find_in_set [of _ us_keys] by (cases row) fastforce
    show ?thesis
      using Some row(1) key_press [OF row(2) assms(2,4)] us_key(8) [OF row(2)] assms(3)
      by (simp add: type_char_def run_Cons nil del: set1_codes.simps)
  next
    case None
    then have "find (\<lambda>(k1, k2, plain, shifted). shifted = c) us_keys \<noteq> None"
      using assms(1) by (auto simp: find_None_iff typable_def list_ex_iff split: prod.splits) blast
    then obtain row where s: "find (\<lambda>(k1, k2, plain, shifted). shifted = c) us_keys = Some row" by blast
    then obtain k1 k2 plain where row: "row = (k1, k2, plain, c)" "(k1, k2, plain, c) \<in> set us_keys"
      using find_in_set [of _ us_keys] by (cases row) fastforce
    show ?thesis
      using None s row(1) key_press [OF row(2), of "kb\<lparr>shift_pressed := True\<rparr>"] shift_press assms(2,4) us_key(8) [OF row(2)] sk same
      by (simp add: type_char_def run_Cons nil del: set1_codes.simps)
  qed
  then show "keyboard_run (concat (map set1_codes (type_char c))) kb = Ok ([c], kb)" "\<forall>e \<in> set (type_char c). in_table (key_of e)"
    by blast+
qed

lemma typable_codes: "list_all (\<lambda>n. typable (of_nat n)) ([8, 9, 10] @ [32..<127])"
  by code_simp

lemma ascii_typable:
  assumes "unat c \<in> {8, 9, 10} \<union> {32..126}"
  shows "typable c"
proof -
  have "unat c \<in> set ([8, 9, 10] @ [32..<127])" using assms by (simp only: set_append set_upt) auto
  then have "typable (of_nat (unat c))" using typable_codes unfolding list_all_iff by blast
  then show ?thesis by simp
qed

lemma types_text_set1:
  assumes "\<forall>c \<in> set msg. unat c \<in> {8, 9, 10} \<union> {32..126}" "scancode_set kb = 1" "\<not> shift_pressed kb" "\<not> capslock_on kb"
  shows "keyboard_run (concat (map set1_codes (concat (map type_char msg)))) kb = Ok (msg, kb)"
    "\<forall>e \<in> set (concat (map type_char msg)). in_table (key_of e)"
  using assms(1)
proof (induction msg)
  case (Cons c msg)
  {
    case 1
    have "typable c" using 1 by (intro ascii_typable) simp
    from type_char_ok(1) [OF this assms(2-4)] show ?case using Cons(1) 1 by (simp add: run_Cons)
  next
    case 2
    have "typable c" using 2 by (intro ascii_typable) simp
    from type_char_ok(2) [OF this assms(2-4)] show ?case using Cons(2) 2 by auto
  }
qed (simp_all add: keyboard_run_def)

text \<open>
  C37: what is typed arrives. Every text of printable ASCII characters, backspaces, tabs and newlines can be typed on a US keyboard: pressing and
  releasing the keys on which its characters are printed, with shift where necessary, makes the handler print exactly this text, and
  leaves the keyboard as it was, whichever of the two sets of scancodes the keyboard sends.
\<close>

theorem keyboard_types_text:
  assumes "\<forall>c \<in> set msg. unat c \<in> {8, 9, 10} \<union> {32..126}" "scancode_set kb \<in> {1, 2}" "\<not> release_next kb"
    "\<not> shift_pressed kb" "\<not> capslock_on kb"
  shows "keyboard_run (key_codes (scancode_set kb) (concat (map type_char msg))) kb = Ok (msg, kb)"
proof (cases "scancode_set kb = 2")
  case False
  then show ?thesis using types_text_set1(1) [OF assms(1) _ assms(4,5)] assms(2) by (simp add: key_codes_def)
next
  case True
  let ?kb = "kb\<lparr>scancode_set := 1\<rparr>" and ?es = "concat (map type_char msg)"
  note t1 = types_text_set1 [OF assms(1), of ?kb]
  from events_same [OF t1(2) True assms(3)] assms(4,5) obtain out kb' where
    k: "keyboard_run (concat (map set2_codes ?es)) kb = Ok (out, kb')" "scancode_set kb' = 2"
    "keyboard_run (concat (map set1_codes ?es)) ?kb = Ok (out, kb'\<lparr>scancode_set := 1\<rparr>)" by auto
  have "out = msg" "kb'\<lparr>scancode_set := 1\<rparr> = ?kb" using k(3) t1(1) assms(4,5) by simp_all
  then have "kb' = kb" using k(2) True by (cases kb, cases kb') simp
  then show ?thesis using k(1) True \<open>out = msg\<close> by (simp add: key_codes_def)
qed

section \<open>Where the handlers leave their tables\<close>

text \<open>
  C39: when the keyboard handler reads behind its tables. With set 1 it never does. With set 2 it does so exactly when a release was announced and the code is 128 or
  more, which is the case when the key F7 is released; with any other value of the detected set it does so for every code from 128 on that is no modifier.
\<close>

theorem keyboard_table_bounds:
  "is_Ok (keyboard_handler status data kb) \<longleftrightarrow>
     status AND 0x01 = 0 \<or> scancode_set kb = 1 \<or> unat data < 128 \<or>
     (scancode_set kb = 2 \<and> (data = 0xF0 \<or> \<not> release_next kb))"
proof -
  have total: "is_Ok (key_action sc rel kb')" if "unat sc < 128" for sc rel kb' using key_action_total [OF that, of rel kb'] by auto
  have low: "unat (data AND 0x7F) < 128"
    using word_and_le1 [of data "0x7F"] by (simp add: word_le_nat_alt)
  have high: "\<not> is_Ok (key_action data False kb)" if "\<not> unat data < 128"
  proof -
    have "data \<noteq> 0x2A" "data \<noteq> 0x36" "data \<noteq> 0x1D" "data \<noteq> 0x38" "data \<noteq> 0x3A" using that by auto
    then show ?thesis using that by (simp add: key_action_def)
  qed
  have bit7: "data AND 0x80 \<noteq> 0" if "\<not> unat data < 128"
  proof
    assume "data AND 0x80 = 0"
    then have "bit (data AND 0x80) 7 = False" by simp
    then have "\<not> bit data 7" by (simp add: bit_simps)
    then have "data AND 0x7F = data" by - (rule byte_eqI; simp add: bit_simps)
    then show False using low that by simp
  qed
  show ?thesis
  proof (cases "status AND 0x01 = 0")
    case False
    consider "scancode_set kb = 1" | "scancode_set kb = 2" | "scancode_set kb \<noteq> 1" "scancode_set kb \<noteq> 2" by blast
    then show ?thesis
    proof cases
      case 1
      then show ?thesis using False total [OF low] by (simp add: keyboard_handler_def read_scancode_def)
    next
      case 2
      then show ?thesis using False total [OF set2_key] total [OF set2_key [OF low]] bit7
        by (auto simp: keyboard_handler_def read_scancode_def)
    next
      case 3
      then show ?thesis using False total high by (auto simp: keyboard_handler_def read_scancode_def)
    qed
  qed (simp add: keyboard_handler_def)
qed

section \<open>The mouse\<close>

primrec mouse_run :: "u8 list \<Rightarrow> mouse \<Rightarrow> mouse outcome" where
  "mouse_run [] ms = Ok ms"
| "mouse_run (b # bs) ms = obind (mouse_handler 1 b ms) (mouse_run bs)"

lemma mouse_skips: "mouse_cycle ms = 0 \<Longrightarrow> length (mouse_packet ms) = 3 \<Longrightarrow> b AND 0x08 = 0 \<Longrightarrow>
    mouse_handler 1 b ms = Ok (ms\<lparr>mouse_packet := (mouse_packet ms)[0 := b]\<rparr>)"
  by (simp add: mouse_handler_def Let_def)

lemma mouse_takes: "mouse_cycle ms = 0 \<Longrightarrow> length (mouse_packet ms) = 3 \<Longrightarrow> a AND 0x08 \<noteq> 0 \<Longrightarrow>
    mouse_run [a, b, c] ms = Ok \<lparr>mouse_cycle = 0, mouse_packet = [a, b, c]\<rparr>"
proof -
  assume ms: "mouse_cycle ms = 0" "length (mouse_packet ms) = 3" "a AND 0x08 \<noteq> 0"
  then obtain x y z where p: "mouse_packet ms = [x, y, z]"
    by (auto simp: numeral_3_eq_3 length_Suc_conv)
  have "ms = \<lparr>mouse_cycle = 0, mouse_packet = [x, y, z]\<rparr>" using ms(1) p by simp
  then show ?thesis using ms(3) by (simp add: mouse_handler_def Let_def)
qed

text \<open>
  The mouse handler stays within its packet of three bytes, and finds the beginning of a packet: bytes that cannot begin one are skipped, and the
  packet behind them is taken whole.
\<close>

theorem mouse_synchronises:
  assumes "mouse_cycle ms = 0" "length (mouse_packet ms) = 3" "\<forall>b \<in> set junk. b AND 0x08 = 0" "a AND 0x08 \<noteq> 0"
  shows "mouse_run (junk @ [a, b, c]) ms = Ok \<lparr>mouse_cycle = 0, mouse_packet = [a, b, c]\<rparr>"
  using assms
proof (induction junk arbitrary: ms)
  case Nil
  then show ?case using mouse_takes [of ms a b c] by simp
next
  case (Cons x junk)
  then show ?case using mouse_skips [of ms x] by simp
qed

lemma mouse_in_bounds:
  assumes "unat (mouse_cycle ms) < 3" "length (mouse_packet ms) = 3"
  shows "\<exists>ms'. mouse_handler status data ms = Ok ms' \<and> unat (mouse_cycle ms') < 3 \<and> length (mouse_packet ms') = 3"
proof -
  have "unat (mouse_cycle ms + 1) = unat (mouse_cycle ms) + 1" using assms(1) by (simp add: unat_word_ariths)
  then have "mouse_cycle ms + 1 \<noteq> 3 \<Longrightarrow> unat (mouse_cycle ms + 1) < 3" using assms(1) by (auto simp: word_unat_eq_iff)
  then show ?thesis using assms by (auto simp: mouse_handler_def Let_def)
qed

section \<open>Examples\<close>

definition kb0 :: keyboard where
  "kb0 = \<lparr>scancode_set = 1, shift_pressed = False, ctrl_pressed = False, alt_pressed = False, capslock_on = False, release_next = False\<rparr>"

theorem emit_utf8_decodes_witness: "utf8_decode (emit_utf8 0x20AC) = Some 0x20AC"
  using emit_utf8_decodes [of "0x20AC"] by simp

theorem keyboard_set2_as_set1_witness:
  "\<exists>out kb'. keyboard_run [0x12, 0x1C, 0xF0, 0x1C, 0xF0, 0x12] (kb0\<lparr>scancode_set := 2\<rparr>) = Ok (out, kb') \<and>
     keyboard_run [0x2A, 0x1E, 0x9E, 0xAA] kb0 = Ok (out, kb'\<lparr>scancode_set := 1\<rparr>)"
proof -
  let ?es = "[Press (0x12, 0x2A), Press (0x1C, 0x1E), Release (0x1C, 0x1E), Release (0x12, 0x2A)]"
  have "list_all (\<lambda>e. key_of e \<in> set at_keys \<and> key_of e \<notin> set wrong_keys) ?es" by code_simp
  then have "\<forall>e \<in> set ?es. key_of e \<in> set at_keys - set wrong_keys" unfolding list_all_iff by blast
  from keyboard_set2_as_set1 [OF this, of "kb0\<lparr>scancode_set := 2\<rparr>"] show ?thesis by (simp add: kb0_def) blast
qed

theorem keyboard_table_bounds_witness:
  "\<not> is_Ok (keyboard_handler 1 0x83 (kb0\<lparr>scancode_set := 2, release_next := True\<rparr>)) \<and> is_Ok (keyboard_handler 1 0x83 kb0)"
  using keyboard_table_bounds [of 1 "0x83" "kb0\<lparr>scancode_set := 2, release_next := True\<rparr>"] keyboard_table_bounds [of 1 "0x83" kb0]
  by (simp add: kb0_def)

theorem keyboard_types_text_witness:
  "keyboard_run [0x2A, 0x23, 0xA3, 0xAA, 0x17, 0x97] kb0 = Ok ([72, 105], kb0) \<and>
   keyboard_run [0x12, 0x33, 0xF0, 0x33, 0xF0, 0x12, 0x43, 0xF0, 0x43] (kb0\<lparr>scancode_set := 2\<rparr>) = Ok ([72, 105], kb0\<lparr>scancode_set := 2\<rparr>)"
proof -
  have c: "key_codes 1 (concat (map type_char [72, 105])) = [0x2A, 0x23, 0xA3, 0xAA, 0x17, 0x97]"
    "key_codes 2 (concat (map type_char [72, 105])) = [0x12, 0x33, 0xF0, 0x33, 0xF0, 0x12, 0x43, 0xF0, 0x43]" by code_simp+
  have s: "scancode_set kb0 = 1" "scancode_set (kb0\<lparr>scancode_set := 2\<rparr>) = 2" by (simp_all add: kb0_def)
  show ?thesis
    using keyboard_types_text [of "[72, 105]" kb0, unfolded s c] keyboard_types_text [of "[72, 105]" "kb0\<lparr>scancode_set := 2\<rparr>", unfolded s c]
    by (simp add: kb0_def)
qed

end
