(* ===== verification/Device_Props.thy ===== *)
theory Device_Props
  imports Devices
begin

text \<open>
  Properties of the device manager: the arrays behave like lists of devices and drivers, every operation keeps them well formed, and
  an initialised device has a driver of its bus and class.
\<close>

section \<open>Well-formed managers\<close>

definition active_devices :: "device_manager \<Rightarrow> device_t list" where
  "active_devices dm = take (device_count dm) (devices dm)"

definition active_drivers :: "device_manager \<Rightarrow> driver_ptr list" where
  "active_drivers dm = take (driver_count dm) (drivers dm)"

definition device_ok :: "'h driver_table \<Rightarrow> device_t \<Rightarrow> bool" where
  "device_ok tbl d \<longleftrightarrow> (case dv_drv d of None \<Rightarrow> \<not> dv_initialized d | Some p \<Rightarrow> matches tbl d p)"

definition dm_ok :: "'h driver_table \<Rightarrow> device_manager \<Rightarrow> bool" where
  "dm_ok tbl dm \<longleftrightarrow> length (devices dm) = MAX_DEVICES \<and> length (drivers dm) = MAX_DEVICES \<and> device_count dm \<le> MAX_DEVICES \<and>
     driver_count dm \<le> MAX_DEVICES \<and> distinct (active_drivers dm) \<and> list_all (device_ok tbl) (active_devices dm) \<and>
     list_all (\<lambda>d. d = zero_device) (drop (device_count dm) (devices dm))"

text \<open>What is expected of a driver: its routines do not change what the device is and which driver it has.\<close>

definition keeps_binding :: "'h driver_table \<Rightarrow> bool" where
  "keeps_binding tbl \<longleftrightarrow>
     (\<forall>p f d h. op_probe (dr_ops (tbl p)) = Some f \<longrightarrow>
        (case f d h of (r, d', h') \<Rightarrow> dv_bus d' = dv_bus d \<and> dv_class d' = dv_class d \<and> dv_drv d' = dv_drv d \<and> dv_initialized d' = dv_initialized d)) \<and>
     (\<forall>p f d h. op_init (dr_ops (tbl p)) = Some f \<longrightarrow>
        (case f d h of (r, d', h') \<Rightarrow> dv_bus d' = dv_bus d \<and> dv_class d' = dv_class d \<and> dv_drv d' = dv_drv d))"

lemma dm_ok_parts:
  assumes "dm_ok tbl dm"
  shows "length (devices dm) = 256" "length (drivers dm) = 256" "device_count dm \<le> 256" "driver_count dm \<le> 256"
    "distinct (active_drivers dm)" "i < device_count dm \<Longrightarrow> device_ok tbl (devices dm ! i)"
    "device_count dm \<le> i \<Longrightarrow> i < 256 \<Longrightarrow> devices dm ! i = zero_device"
proof -
  show "length (devices dm) = 256" "length (drivers dm) = 256" "device_count dm \<le> 256" "driver_count dm \<le> 256" "distinct (active_drivers dm)"
    using assms by (simp_all add: dm_ok_def MAX_DEVICES_def)
  show "device_ok tbl (devices dm ! i)" if "i < device_count dm"
    using assms that by (auto simp: dm_ok_def active_devices_def list_all_length MAX_DEVICES_def)
  show "devices dm ! i = zero_device" if "device_count dm \<le> i" "i < 256"
  proof -
    have "\<forall>d \<in> set (drop (device_count dm) (devices dm)). d = zero_device" using assms by (simp add: dm_ok_def list_all_iff)
    moreover have "devices dm ! i \<in> set (drop (device_count dm) (devices dm))"
      unfolding in_set_conv_nth using assms that
      by (intro exI [of _ "i - device_count dm"]) (auto simp: dm_ok_def MAX_DEVICES_def)
    ultimately show ?thesis by simp
  qed
qed

lemma dm_okI:
  assumes "length (devices dm) = 256" "length (drivers dm) = 256" "device_count dm \<le> 256" "driver_count dm \<le> 256" "distinct (active_drivers dm)"
    and "\<And>i. i < device_count dm \<Longrightarrow> device_ok tbl (devices dm ! i)"
    and "\<And>i. device_count dm \<le> i \<Longrightarrow> i < 256 \<Longrightarrow> devices dm ! i = zero_device"
  shows "dm_ok tbl dm"
  using assms by (auto simp: dm_ok_def active_devices_def list_all_length MAX_DEVICES_def)

lemma dm_zero_ok: "dm_ok tbl dm_zero"
  by (rule dm_okI) (simp_all add: dm_zero_def MAX_DEVICES_def active_drivers_def)

section \<open>Registering devices\<close>

lemma add_device_ok:
  assumes "dm_ok tbl dm" "device_count dm < 256" "dv_drv (f zero_device) = None" "\<not> dv_initialized (f zero_device)"
  shows "dm_ok tbl (add_device f dm)" "active_devices (add_device f dm) = active_devices dm @ [f zero_device]"
    "active_drivers (add_device f dm) = active_drivers dm"
proof -
  note ok = dm_ok_parts [OF assms(1)]
  have z: "devices dm ! device_count dm = zero_device" using ok(7) assms(2) by simp
  show "dm_ok tbl (add_device f dm)"
  proof (rule dm_okI)
    show "device_ok tbl (devices (add_device f dm) ! i)" if "i < device_count (add_device f dm)" for i
      using that ok(1,6) assms(2-4) z by (cases "i = device_count dm") (auto simp: add_device_def device_ok_def nth_list_update)
  qed (use ok assms(2) in \<open>simp_all add: add_device_def active_drivers_def\<close>)
  show "active_devices (add_device f dm) = active_devices dm @ [f zero_device]"
    using ok(1) assms(2) z by (simp add: active_devices_def add_device_def take_Suc_conv_app_nth)
  show "active_drivers (add_device f dm) = active_drivers dm" by (simp add: active_drivers_def add_device_def)
qed

section \<open>Registering drivers\<close>

lemma driver_register_active:
  assumes "dm_ok tbl dm" "driver_register_verified p dm = (r, dm')"
  shows "dm_ok tbl dm' \<and> devices dm' = devices dm \<and> device_count dm' = device_count dm \<and> dm_initialized dm' = dm_initialized dm \<and>
    (if length (active_drivers dm) = MAX_DEVICES then r = -1 \<and> dm' = dm
     else r = 0 \<and> active_drivers dm' = (if p \<in> set (active_drivers dm) then active_drivers dm else active_drivers dm @ [p]))"
proof -
  note ok = dm_ok_parts [OF assms(1)]
  have len: "length (active_drivers dm) = driver_count dm" using ok by (simp add: active_drivers_def)
  show ?thesis
  proof (cases "driver_count dm \<ge> 256 \<or> p \<in> set (active_drivers dm)")
    case True
    then show ?thesis using assms len ok by (auto simp: driver_register_verified_def MAX_DEVICES_def active_drivers_def split: if_splits)
  next
    case False
    then have new: "dm' = dm\<lparr>drivers := (drivers dm)[driver_count dm := p], driver_count := driver_count dm + 1\<rparr>" "r = 0"
      using assms(2) by (auto simp: driver_register_verified_def MAX_DEVICES_def active_drivers_def split: if_splits)
    have act: "active_drivers dm' = active_drivers dm @ [p]"
      using new ok False by (simp add: active_drivers_def take_Suc_conv_app_nth)
    have "dm_ok tbl dm'" using ok False act new by (intro dm_okI) simp_all
    then show ?thesis using new act False len by (simp add: MAX_DEVICES_def)
  qed
qed

lemma shift_drivers_nth:
  "n \<le> length ds \<Longrightarrow> length (shift_drivers i n ds) = length ds \<and>
     (\<forall>k < length ds. shift_drivers i n ds ! k = (if i \<le> k \<and> k < n - 1 then ds ! (k + 1) else ds ! k))"
proof (induction "n - i" arbitrary: i ds)
  case 0
  then show ?case by (auto simp: shift_drivers_def)
next
  case (Suc x)
  show ?case
  proof (cases "i < n - 1")
    case False
    then show ?thesis by (auto simp: shift_drivers_def)
  next
    case True
    then have step: "shift_drivers i n ds = shift_drivers (Suc i) n (ds[i := ds ! (i + 1)])" by (simp add: shift_drivers_def upt_rec)
    have "x = n - Suc i" using Suc.hyps(2) by simp
    from Suc.hyps(1) [OF this, of "ds[i := ds ! (i + 1)]"] show ?thesis
      unfolding step using Suc.prems True by (auto simp: nth_list_update)
  qed
qed

lemma shift_drivers_take:
  assumes "i < n" "n \<le> length ds"
  shows "take (n - 1) (shift_drivers i n ds) = take i ds @ drop (i + 1) (take n ds)"
proof (rule nth_equalityI)
  fix k assume "k < length (take (n - 1) (shift_drivers i n ds))"
  then have "k < n - 1" using shift_drivers_nth [OF assms(2)] by simp
  then show "take (n - 1) (shift_drivers i n ds) ! k = (take i ds @ drop (i + 1) (take n ds)) ! k"
    using shift_drivers_nth [OF assms(2), of i] assms by (auto simp: nth_append)
qed (use shift_drivers_nth [OF assms(2), of i] assms in auto)

lemma find_index:
  assumes "n \<le> length ds"
  shows "find (\<lambda>i. ds ! i = p) [0..<n] = None \<Longrightarrow> p \<notin> set (take n ds)"
    and "find (\<lambda>i. ds ! i = p) [0..<n] = Some i \<Longrightarrow> i < n \<and> ds ! i = p \<and> p \<notin> set (take i ds)"
proof -
  show "p \<notin> set (take n ds)" if "find (\<lambda>i. ds ! i = p) [0..<n] = None"
    using that assms by (auto simp: find_None_iff in_set_conv_nth)
  show "i < n \<and> ds ! i = p \<and> p \<notin> set (take i ds)" if "find (\<lambda>i. ds ! i = p) [0..<n] = Some i"
    using that assms by (auto simp: find_Some_iff in_set_conv_nth)
qed

lemma driver_unregister_active:
  assumes "dm_ok tbl dm" "driver_unregister p dm = (r, dm')"
  shows "dm_ok tbl dm' \<and> devices dm' = devices dm \<and> device_count dm' = device_count dm \<and> active_drivers dm' = remove1 p (active_drivers dm) \<and>
    r = (if p \<in> set (active_drivers dm) then 0 else -1)"
proof -
  note ok = dm_ok_parts [OF assms(1)]
  have n: "driver_count dm \<le> length (drivers dm)" using ok by simp
  show ?thesis
  proof (cases "find (\<lambda>i. drivers dm ! i = p) [0..<driver_count dm]")
    case None
    then show ?thesis using assms find_index(1) [OF n None] by (simp add: driver_unregister_def active_drivers_def remove1_idem)
  next
    case (Some i)
    note i = find_index(2) [OF n Some]
    have new: "dm' = dm\<lparr>drivers := shift_drivers i (driver_count dm) (drivers dm), driver_count := driver_count dm - 1\<rparr>" "r = 0"
      using assms(2) Some by (simp_all add: driver_unregister_def)
    define rest where "rest = drop (i + 1) (take (driver_count dm) (drivers dm))"
    have split: "active_drivers dm = take i (drivers dm) @ p # rest"
      using i n id_take_nth_drop [of i "take (driver_count dm) (drivers dm)"] by (simp add: active_drivers_def rest_def min_def)
    have "active_drivers dm' = take i (drivers dm) @ rest"
      using i new shift_drivers_take [OF _ n, of i] by (simp add: active_drivers_def rest_def)
    then have act: "active_drivers dm' = remove1 p (active_drivers dm)" "p \<in> set (active_drivers dm)"
      using i unfolding split by (simp_all add: remove1_append)
    have "dm_ok tbl dm'"
      using ok act shift_drivers_nth [OF n, of i] new(1) by (intro dm_okI) (simp_all add: distinct_remove1)
    then show ?thesis using new act by simp
  qed
qed

section \<open>Loops over the devices\<close>

text \<open>
  A turn of a loop looks at one device, and at no other part of the manager but the drivers; it keeps the device well formed when the drivers are
  \<open>good\<close>.
\<close>

locale device_turn =
  fixes turn :: "'h driver_table \<Rightarrow> device_manager \<Rightarrow> device_t \<Rightarrow> 'h \<Rightarrow> int \<times> device_t \<times> 'h"
    and good :: "'h driver_table \<Rightarrow> bool"
  assumes turn_local: "turn tbl (set_device i x dm) = turn tbl dm"
    and turn_ok: "good tbl \<Longrightarrow> device_ok tbl d \<Longrightarrow> turn tbl dm d h = (m, d', h') \<Longrightarrow> device_ok tbl d'"
begin

lemma each_device_keeps:
  "each_device turn tbl ix n dm h = (n', dm', h') \<Longrightarrow> dm' = dm\<lparr>devices := devices dm'\<rparr> \<and> length (devices dm') = length (devices dm)"
proof (induction ix arbitrary: n dm h)
  case (Cons i ix)
  obtain m d h1 where t: "turn tbl dm (devices dm ! i) h = (m, d, h1)" by (cases "turn tbl dm (devices dm ! i) h") auto
  have "each_device turn tbl ix (n + m) (set_device i d dm) h1 = (n', dm', h')" using Cons.prems t by simp
  from Cons.IH [OF this] have "dm' = set_device i d dm\<lparr>devices := devices dm'\<rparr>" "length (devices dm') = length (devices dm)"
    by (simp_all add: set_device_def)
  moreover have "set_device i d dm\<lparr>devices := devices dm'\<rparr> = dm\<lparr>devices := devices dm'\<rparr>" by (simp add: set_device_def)
  ultimately show ?case by metis
qed simp

lemma each_device_turns:
  "each_device turn tbl ix n dm h = (n', dm', h') \<Longrightarrow> distinct ix \<Longrightarrow> \<forall>i \<in> set ix. i < length (devices dm) \<Longrightarrow>
     (if i \<in> set ix then \<exists>m h1 h2. turn tbl dm (devices dm ! i) h1 = (m, devices dm' ! i, h2) else devices dm' ! i = devices dm ! i)"
proof (induction ix arbitrary: n dm h)
  case (Cons j ix)
  obtain m d h1 where t: "turn tbl dm (devices dm ! j) h = (m, d, h1)" by (cases "turn tbl dm (devices dm ! j) h") auto
  let ?dm = "set_device j d dm"
  have run: "each_device turn tbl ix (n + m) ?dm h1 = (n', dm', h')" using Cons.prems(1) t by simp
  have dev: "devices ?dm ! k = (if k = j then d else devices dm ! k)" for k
    using Cons.prems(3) by (simp add: set_device_def nth_list_update)
  have bnd: "\<forall>i \<in> set ix. i < length (devices ?dm)" using Cons.prems(3) by (simp add: set_device_def)
  from Cons.IH [OF run _ bnd] Cons.prems(2) show ?case
    using t dev by (cases "i = j"; cases "i \<in> set ix") (auto simp: turn_local)
qed simp

lemma each_device_ok:
  assumes "each_device turn tbl [0..<device_count dm] n dm h = (n', dm', h')" "good tbl" "dm_ok tbl dm"
  shows "dm_ok tbl dm' \<and> active_drivers dm' = active_drivers dm \<and> device_count dm' = device_count dm \<and> dm_initialized dm' = dm_initialized dm \<and>
    (\<forall>i < device_count dm. \<exists>m h1 h2. turn tbl dm (devices dm ! i) h1 = (m, devices dm' ! i, h2))"
proof -
  note ok = dm_ok_parts [OF assms(3)]
  from each_device_keeps [OF assms(1)] obtain ds where ds: "dm' = dm\<lparr>devices := ds\<rparr>" "length ds = length (devices dm)" by auto
  have t: "if i < device_count dm then \<exists>m h1 h2. turn tbl dm (devices dm ! i) h1 = (m, devices dm' ! i, h2)
      else devices dm' ! i = devices dm ! i" for i
    using each_device_turns [OF assms(1), of i] ok(1,3) by simp
  have "dm_ok tbl dm'"
  proof (rule dm_okI)
    fix i assume "i < device_count dm'"
    then have "i < device_count dm" using ds by simp
    with t [of i] ok(6) [of i] show "device_ok tbl (devices dm' ! i)" using turn_ok [OF assms(2)] by auto
  next
    fix i assume "device_count dm' \<le> i" "i < 256"
    with t [of i] ok(7) [of i] ds show "devices dm' ! i = zero_device" by simp
  qed (use ok ds in \<open>simp_all add: active_drivers_def\<close>)
  moreover have "\<exists>m h1 h2. turn tbl dm (devices dm ! i) h1 = (m, devices dm' ! i, h2)" if "i < device_count dm" for i using t [of i] that by simp
  ultimately show ?thesis using ds(1) by (simp add: active_drivers_def)
qed

end

lemma bind_cases:
  assumes "device_driver_match_and_bind tbl dm d = (r, d')"
  shows "(r = 0 \<and> dv_drv d \<noteq> None \<and> d' = d) \<or> (r = -1 \<and> dv_drv d = None \<and> find (matches tbl d) (active_drivers dm) = None \<and> d' = d) \<or>
    (\<exists>p. r = 0 \<and> dv_drv d = None \<and> find (matches tbl d) (active_drivers dm) = Some p \<and> d' = d\<lparr>dv_drv := Some p\<rparr>)"
  using assms by (auto simp: device_driver_match_and_bind_def active_drivers_def split: if_splits option.splits)

lemma bind_ok:
  assumes "device_driver_match_and_bind tbl dm d = (r, d')" "device_ok tbl d"
  shows "device_ok tbl d'" "r = 0 \<Longrightarrow> dv_drv d' \<noteq> None" "dv_initialized d' = dv_initialized d"
proof -
  have m: "matches tbl d p" if "find (matches tbl d) xs = Some p" for xs p using that by (auto simp: find_Some_iff)
  show "device_ok tbl d'" using bind_cases [OF assms(1)] assms(2) m
    by (elim disjE exE conjE) (simp_all add: device_ok_def matches_def)
  show "r = 0 \<Longrightarrow> dv_drv d' \<noteq> None" "dv_initialized d' = dv_initialized d" using bind_cases [OF assms(1)] by auto
qed

lemma keeps_bindingD:
  assumes "keeps_binding tbl"
  shows "op_probe (dr_ops (tbl p)) = Some f \<Longrightarrow> f d h = (r, d', h') \<Longrightarrow>
      dv_bus d' = dv_bus d \<and> dv_class d' = dv_class d \<and> dv_drv d' = dv_drv d \<and> dv_initialized d' = dv_initialized d"
    and "op_init (dr_ops (tbl p)) = Some f \<Longrightarrow> f d h = (r, d', h') \<Longrightarrow>
      dv_bus d' = dv_bus d \<and> dv_class d' = dv_class d \<and> dv_drv d' = dv_drv d"
proof -
  show "dv_bus d' = dv_bus d \<and> dv_class d' = dv_class d \<and> dv_drv d' = dv_drv d \<and> dv_initialized d' = dv_initialized d"
    if "op_probe (dr_ops (tbl p)) = Some f" "f d h = (r, d', h')"
    using assms [unfolded keeps_binding_def, THEN conjunct1, rule_format, OF that(1), of d h] that(2) by simp
  show "dv_bus d' = dv_bus d \<and> dv_class d' = dv_class d \<and> dv_drv d' = dv_drv d"
    if "op_init (dr_ops (tbl p)) = Some f" "f d h = (r, d', h')"
    using assms [unfolded keeps_binding_def, THEN conjunct2, rule_format, OF that(1), of d h] that(2) by simp
qed

lemma probe_device_cases:
  assumes "probe_device tbl dm d h = (m, d', h')" "\<not> dv_initialized d"
  obtains (unbound) "dv_drv d = None" "find (matches tbl d) (active_drivers dm) = None" "d' = d"
    | (bound) p d1 where "device_driver_match_and_bind tbl dm d = (0, d1)" "dv_drv d1 = Some p"
        "op_probe (dr_ops (tbl p)) = None \<and> d' = d1 \<or>
         (\<exists>f r d2. op_probe (dr_ops (tbl p)) = Some f \<and> f d1 h = (r, d2, h') \<and> d' = (if r = 0 then d2 else d2\<lparr>dv_drv := None\<rparr>))"
proof -
  obtain r d1 where b: "device_driver_match_and_bind tbl dm d = (r, d1)" by (cases "device_driver_match_and_bind tbl dm d") auto
  show ?thesis
  proof (cases "r = 0")
    case False
    then have "dv_drv d = None" "find (matches tbl d) (active_drivers dm) = None" "d1 = d" using bind_cases [OF b] by auto
    moreover have "d' = d1" using assms b False by (simp add: probe_device_def)
    ultimately show ?thesis using unbound by simp
  next
    case True
    then obtain p where p: "dv_drv d1 = Some p" using bind_cases [OF b] by auto
    show ?thesis
    proof (rule bound)
      show "device_driver_match_and_bind tbl dm d = (0, d1)" using b True by simp
      show "op_probe (dr_ops (tbl p)) = None \<and> d' = d1 \<or>
         (\<exists>f r d2. op_probe (dr_ops (tbl p)) = Some f \<and> f d1 h = (r, d2, h') \<and> d' = (if r = 0 then d2 else d2\<lparr>dv_drv := None\<rparr>))"
        using assms b True p by (auto simp: probe_device_def call_op_def Let_def split: option.splits prod.splits if_splits)
    qed (rule p)
  qed
qed

lemma probe_device_ok:
  assumes "keeps_binding tbl" "device_ok tbl d" "probe_device tbl dm d h = (m, d', h')"
  shows "device_ok tbl d'"
proof (cases "dv_initialized d")
  case True
  then show ?thesis using assms by (simp add: probe_device_def)
next
  case False
  from assms(3) False show ?thesis
  proof (cases rule: probe_device_cases)
    case unbound
    then show ?thesis using assms(2) by simp
  next
    case (bound p d1)
    note d1 = bind_ok [OF bound(1) assms(2)]
    have ni: "\<not> dv_initialized d1" using d1(3) False by simp
    from bound(3) show ?thesis
    proof
      assume "\<exists>f r d2. op_probe (dr_ops (tbl p)) = Some f \<and> f d1 h = (r, d2, h') \<and> d' = (if r = 0 then d2 else d2\<lparr>dv_drv := None\<rparr>)"
      then obtain f r d2 where f: "op_probe (dr_ops (tbl p)) = Some f" "f d1 h = (r, d2, h')" "d' = (if r = 0 then d2 else d2\<lparr>dv_drv := None\<rparr>)"
        by blast
      note k = keeps_bindingD(1) [OF assms(1) f(1,2)]
      show ?thesis using d1(1) k ni f(3) by (simp add: device_ok_def matches_def bound(2))
    qed (use d1(1) in simp)
  qed
qed

lemma init_device_ok:
  assumes "keeps_binding tbl" "device_ok tbl d" "init_device tbl dm d h = (m, d', h')"
  shows "device_ok tbl d'"
proof (cases "dv_initialized d \<or> dv_drv d = None")
  case True
  then show ?thesis using assms by (auto simp: init_device_def split: option.splits if_splits)
next
  case False
  then obtain p where p: "dv_drv d = Some p" "\<not> dv_initialized d" by auto
  show ?thesis
  proof (cases "op_init (dr_ops (tbl p))")
    case None
    then show ?thesis using assms(2,3) p by (auto simp: init_device_def device_ok_def matches_def)
  next
    case (Some f)
    obtain r d1 h1 where f: "f d h = (r, d1, h1)" by (cases "f d h") auto
    have "device_ok tbl d1" "dv_drv d1 = Some p" using keeps_bindingD(2) [OF assms(1) Some f] assms(2) p by (simp_all add: device_ok_def matches_def)
    moreover have "d' = d1 \<or> d' = d1\<lparr>dv_initialized := True\<rparr>" using assms(3) p Some f by (auto simp: init_device_def split: if_splits)
    ultimately show ?thesis by (auto simp: device_ok_def matches_def)
  qed
qed

lemma init_device_result:
  assumes "keeps_binding tbl" "dv_drv d = Some q" "init_device tbl dm d h = (m, d', h')"
  shows "dv_drv d' = Some q \<and> (dv_initialized d' \<or> (\<exists>f h0. op_init (dr_ops (tbl q)) = Some f \<and> fst (f d h0) \<noteq> 0))"
proof (cases "op_init (dr_ops (tbl q))")
  case None
  then show ?thesis using assms by (auto simp: init_device_def split: if_splits)
next
  case (Some f)
  obtain r d1 h1 where f: "f d h = (r, d1, h1)" by (cases "f d h") auto
  have k: "dv_drv d1 = Some q" using keeps_bindingD(2) [OF assms(1) Some f] assms(2) by simp
  have r: "fst (f d h) = r" using f by simp
  consider "dv_initialized d" "d' = d" | "r = 0" "d' = d1\<lparr>dv_initialized := True\<rparr>" | "r \<noteq> 0" "d' = d1"
    using assms(2,3) Some f by (auto simp: init_device_def split: if_splits)
  then show ?thesis using k r assms(2) Some by cases auto
qed

interpretation probing: device_turn probe_device keeps_binding
proof unfold_locales
  fix tbl :: "'a driver_table" and i x dm
  show "probe_device tbl (set_device i x dm) = probe_device tbl dm"
    by (rule ext)+ (simp add: probe_device_def device_driver_match_and_bind_def set_device_def)
qed (rule probe_device_ok)

interpretation initialising: device_turn init_device keeps_binding
proof unfold_locales
  fix tbl :: "'a driver_table" and i x dm
  show "init_device tbl (set_device i x dm) = init_device tbl dm" by (rule ext)+ (simp add: init_device_def)
qed (rule init_device_ok)

section \<open>Every operation keeps the manager well formed\<close>

lemma register_device_ok:
  assumes "dm_ok tbl dm"
  shows "dm_ok tbl (snd (device_register_from_pci mem pci dm))" "dm_ok tbl (snd (device_register_from_ps2 mem ps2 dm))"
    "dm_ok tbl (snd (device_register_platform name cls dm))" "dm_ok tbl (snd (device_register_framebuffer fb dm))"
  using add_device_ok(1) [OF assms] assms
  by (auto simp: device_register_from_pci_def device_register_from_ps2_def device_register_platform_def device_register_framebuffer_def
      MAX_DEVICES_def zero_device_def)

lemma register_drivers_ok: "dm_ok tbl dm \<Longrightarrow> dm_ok tbl (fold (\<lambda>p dm. snd (driver_register_verified p dm)) ps dm)"
proof (induction ps arbitrary: dm)
  case (Cons p ps)
  obtain r dm' where "driver_register_verified p dm = (r, dm')" by (cases "driver_register_verified p dm") auto
  then show ?case using Cons driver_register_active [OF Cons.prems] by simp
qed simp

lemma set_device_ok:
  assumes "dm_ok tbl dm" "i < device_count dm" "device_ok tbl d"
  shows "dm_ok tbl (set_device i d dm)"
proof (rule dm_okI)
  note ok = dm_ok_parts [OF assms(1)]
  show "device_ok tbl (devices (set_device i d dm) ! j)" if "j < device_count (set_device i d dm)" for j
    using that ok assms by (simp add: set_device_def nth_list_update)
qed (use dm_ok_parts [OF assms(1)] assms(2) in \<open>simp_all add: set_device_def active_drivers_def\<close>)

lemma driver_probe_ok:
  assumes "keeps_binding tbl" "device_ok tbl d" "driver_probe tbl d h = (r, d', h')"
  shows "device_ok tbl d'" "dv_drv d' = dv_drv d"
proof -
  have "device_ok tbl d' \<and> dv_drv d' = dv_drv d"
  proof (cases "dv_drv d")
    case (Some p)
    then show ?thesis using assms keeps_bindingD(1) [OF assms(1), of p _ d h r d' h']
      by (auto simp: driver_probe_def call_op_def device_ok_def matches_def split: option.splits)
  qed (use assms(2,3) in \<open>simp add: driver_probe_def call_op_def\<close>)
  then show "device_ok tbl d'" "dv_drv d' = dv_drv d" by simp_all
qed

lemma early_init_ok:
  assumes "keeps_binding tbl" "device_manager_early_init tbl h = (g, dm, h')"
  shows "dm_ok tbl dm"
proof -
  define dm1 where "dm1 = register_early_drivers (snd (hw_detect_platform_devices dm_zero))"
  have "dm_ok tbl (snd (hw_detect_platform_devices dm_zero))"
    using register_device_ok(3) [OF register_device_ok(3) [OF dm_zero_ok, of tbl "''rtc''" DRIVER_CLASS_MISC], of "''serial''" DRIVER_CLASS_CHAR]
    by (simp add: hw_detect_platform_devices_def case_prod_unfold Let_def)
  then have ok1: "dm_ok tbl dm1" unfolding dm1_def register_early_drivers_def using register_drivers_ok [of tbl _ "[rtc_driver]"] by simp
  have flag: "dm_ok tbl (x\<lparr>dm_initialized := True\<rparr>) = dm_ok tbl x" for x by (simp add: dm_ok_def active_devices_def active_drivers_def)
  show ?thesis
  proof (cases "device_find_by_name (Some ''rtc'') dm1")
    case None
    then show ?thesis using assms(2) ok1 by (auto simp: device_manager_early_init_def dm1_def [symmetric] Let_def flag)
  next
    case (Some i)
    then have i: "i < device_count dm1" by (auto simp: device_find_by_name_def device_find_def find_Some_iff)
    have dok: "device_ok tbl (devices dm1 ! i)" using dm_ok_parts(6) [OF ok1 i] .
    obtain r d where b: "device_driver_match_and_bind tbl dm1 (devices dm1 ! i) = (r, d)" by fastforce
    obtain r1 d1 h1 where p: "driver_probe tbl d h = (r1, d1, h1)" by (cases "driver_probe tbl d h") auto
    note d = bind_ok [OF b dok] and d1 = driver_probe_ok [OF assms(1) bind_ok(1) [OF b dok] p]
    have final: "dm_ok tbl (set_device i (d2\<lparr>dv_initialized := True\<rparr>) dm1) \<and> dm_ok tbl (set_device i d2 dm1)"
      if "dv_drv d1 = Some q" "op_init (dr_ops (tbl q)) = Some f" "f d1 h1 = (r2, d2, h2)" for q f r2 d2 h2
      using keeps_bindingD(2) [OF assms(1) that(2,3)] d1(1) that(1) by (auto simp: device_ok_def matches_def intro!: set_device_ok [OF ok1 i])
    show ?thesis
      using assms(2) Some b p set_device_ok [OF ok1 i d(1)] set_device_ok [OF ok1 i d1(1)]
      by (auto dest: final simp: device_manager_early_init_def dm1_def [symmetric] Let_def flag call_op_def split: if_splits option.splits prod.splits)
  qed
qed

text \<open>
  C35: the device manager stays well formed. Whatever the drivers do, as long as their routines leave the bus, the class and the binding of a device
  alone, registering, unregistering, probing and initialising keep the arrays within their 256 entries, the registered drivers
  distinct, the entries behind the last device clear, every driver a device is bound to of the bus and class of the device, and every initialised device
  bound.
\<close>

theorem device_manager_keeps_ok:
  assumes "keeps_binding tbl" "dm_ok tbl dm"
  shows "dm_ok tbl (snd (device_register_from_pci mem pci dm)) \<and> dm_ok tbl (snd (device_register_from_ps2 mem ps2 dm)) \<and>
    dm_ok tbl (snd (device_register_platform name cls dm)) \<and> dm_ok tbl (snd (device_register_framebuffer fb dm)) \<and>
    dm_ok tbl (snd (driver_register_verified p dm)) \<and> dm_ok tbl (snd (driver_unregister p dm)) \<and>
    dm_ok tbl (fst (snd (device_manager_probe_all tbl dm h))) \<and> dm_ok tbl (fst (snd (device_manager_init_all tbl dm h))) \<and>
    dm_ok tbl (fst (snd (device_manager_early_init tbl h)))"
proof -
  obtain r1 dm1 where 1: "driver_register_verified p dm = (r1, dm1)" by fastforce
  obtain r2 dm2 where 2: "driver_unregister p dm = (r2, dm2)" by fastforce
  obtain n3 dm3 h3 where 3: "device_manager_probe_all tbl dm h = (n3, dm3, h3)" by (cases "device_manager_probe_all tbl dm h") auto
  obtain n4 dm4 h4 where 4: "device_manager_init_all tbl dm h = (n4, dm4, h4)" by (cases "device_manager_init_all tbl dm h") auto
  obtain g dm5 h5 where 5: "device_manager_early_init tbl h = (g, dm5, h5)" by (cases "device_manager_early_init tbl h") auto
  show ?thesis
    using register_device_ok [OF assms(2)] driver_register_active [OF assms(2) 1] driver_unregister_active [OF assms(2) 2]
      probing.each_device_ok [OF 3 [unfolded device_manager_probe_all_def] assms]
      initialising.each_device_ok [OF 4 [unfolded device_manager_init_all_def] assms] early_init_ok [OF assms(1) 5]
    by (simp add: 1 2 3 4 5)
qed

text \<open>
  The array of drivers is a list without repetitions. Registering a driver appends it, does nothing when it is registered already, and
  fails only when there are 256; unregistering removes exactly that driver, keeps the order of the others, and fails exactly when it
  is not registered. The devices are left alone, so a device goes on using a driver that is no longer registered.
\<close>

theorem driver_registry_refines:
  assumes "dm_ok tbl dm" "driver_register_verified p dm = (r, dm1)" "driver_unregister p dm = (r', dm2)"
  shows "(if length (active_drivers dm) = MAX_DEVICES then r = -1 \<and> dm1 = dm
      else r = 0 \<and> active_drivers dm1 = (if p \<in> set (active_drivers dm) then active_drivers dm else active_drivers dm @ [p])) \<and>
    active_drivers dm2 = remove1 p (active_drivers dm) \<and> r' = (if p \<in> set (active_drivers dm) then 0 else -1) \<and>
    active_devices dm1 = active_devices dm \<and> active_devices dm2 = active_devices dm"
  using driver_register_active [OF assms(1,2)] driver_unregister_active [OF assms(1,3)] by (auto simp: active_devices_def)

text \<open>
  C36: probing and initialising all devices. A device that is not bound yet gets the first registered driver of its bus and class. It ends without a
  driver only when there is none, and then nothing about it changes, or when the probe of that driver refused it, and
  no other driver is tried; it ends bound but not initialised only when the initialisation of its driver failed.
\<close>

theorem device_manager_binds:
  assumes "keeps_binding tbl" "dm_ok tbl dm" "i < device_count dm" "dv_drv (devices dm ! i) = None"
    "device_manager_probe_all tbl dm h = (n, dm1, h1)" "device_manager_init_all tbl dm1 h1 = (n', dm2, h2)"
  shows "case find (matches tbl (devices dm ! i)) (active_drivers dm) of
      None \<Rightarrow> devices dm2 ! i = devices dm ! i
    | Some p \<Rightarrow>
        (case dv_drv (devices dm2 ! i) of
           None \<Rightarrow> (\<exists>probe h0. op_probe (dr_ops (tbl p)) = Some probe \<and> fst (probe ((devices dm ! i)\<lparr>dv_drv := Some p\<rparr>) h0) \<noteq> 0)
         | Some q \<Rightarrow> q = p \<and>
             (dv_initialized (devices dm2 ! i) \<or> (\<exists>f h0. op_init (dr_ops (tbl p)) = Some f \<and> fst (f (devices dm1 ! i) h0) \<noteq> 0)))"
proof -
  define d where "d = devices dm ! i"
  note P = probing.each_device_ok [OF assms(5) [unfolded device_manager_probe_all_def] assms(1,2)]
  then have ok1: "dm_ok tbl dm1" "device_count dm1 = device_count dm" by simp_all
  note I = initialising.each_device_ok [OF assms(6) [unfolded device_manager_init_all_def] assms(1) ok1(1)]
  from P assms(3) obtain m x y where pr: "probe_device tbl dm d x = (m, devices dm1 ! i, y)" unfolding d_def by blast
  from I assms(3) ok1(2) obtain m' x' y' where "init": "init_device tbl dm1 (devices dm1 ! i) x' = (m', devices dm2 ! i, y')" by fastforce
  have dok: "device_ok tbl d" "dv_drv d = None" "\<not> dv_initialized d"
    using dm_ok_parts(6) [OF assms(2,3)] assms(4) by (simp_all add: d_def device_ok_def)
  from pr dok(3) show ?thesis
  proof (cases rule: probe_device_cases)
    case unbound
    then show ?thesis using "init" dok by (simp add: d_def [symmetric] init_device_def)
  next
    case (bound p d1)
    have f: "find (matches tbl d) (active_drivers dm) = Some p" "d1 = d\<lparr>dv_drv := Some p\<rparr>"
      using bind_cases [OF bound(1)] dok(2) bound(2) by auto
    show ?thesis
    proof (cases "dv_drv (devices dm1 ! i)")
      case None
      then have "devices dm2 ! i = devices dm1 ! i" using "init" dm_ok_parts(6) [OF ok1(1), of i] assms(3) ok1(2)
        by (simp add: init_device_def device_ok_def)
      moreover obtain probe r where "op_probe (dr_ops (tbl p)) = Some probe" "r \<noteq> 0" "fst (probe d1 x) = r"
        using bound(2,3) None keeps_bindingD(1) [OF assms(1)] by (auto split: if_splits)
      ultimately show ?thesis using None f by (auto simp: d_def [symmetric])
    next
      case (Some q)
      have "q = p" using bound(2,3) Some keeps_bindingD(1) [OF assms(1)] by (auto split: if_splits)
      moreover have "dv_drv (devices dm2 ! i) = Some q \<and>
          (dv_initialized (devices dm2 ! i) \<or> (\<exists>f h0. op_init (dr_ops (tbl q)) = Some f \<and> fst (f (devices dm1 ! i) h0) \<noteq> 0))"
        by (rule init_device_result [OF assms(1) Some "init"])
      ultimately show ?thesis using f by (simp add: d_def [symmetric])
    qed
  qed
qed

section \<open>Examples\<close>

text \<open>Drivers that accept every device and initialise it by storing a pointer to their data.\<close>

definition simple_ops :: "driver_ptr \<Rightarrow> unit driver_ops" where
  "simple_ops p = \<lparr>op_probe = Some (\<lambda>d h. (0, d, h)), op_init = Some (\<lambda>d h. (0, d\<lparr>dv_driver_data := of_nat p\<rparr>, h)), op_remove = None,
     op_read = None, op_write = None, op_ioctl = None, op_irq_handler = None\<rparr>"

lemma simple_keeps: "keeps_binding (builtin_table simple_ops)"
  by (auto simp: keeps_binding_def builtin_table_def simple_ops_def split: if_splits)

theorem device_manager_keeps_ok_witness:
  "dm_ok (builtin_table simple_ops) (snd (driver_unregister 3 (snd (driver_register_verified 3 dm_zero))))"
  using device_manager_keeps_ok [OF simple_keeps, of "snd (driver_register_verified 3 dm_zero)"] device_manager_keeps_ok [OF simple_keeps dm_zero_ok]
  by blast

theorem driver_registry_refines_witness:
  "active_drivers (snd (driver_register_verified 3 dm_zero)) = [3]"
  using driver_registry_refines [OF dm_zero_ok [of "builtin_table simple_ops"], of 3 "fst (driver_register_verified 3 dm_zero)"
      "snd (driver_register_verified 3 dm_zero)" "fst (driver_unregister 3 dm_zero)" "snd (driver_unregister 3 dm_zero)"]
  by (simp add: active_drivers_def dm_zero_def MAX_DEVICES_def)

definition dm_example :: device_manager where
  "dm_example = register_builtin_drivers (snd (device_register_platform ''serial'' DRIVER_CLASS_CHAR dm_zero))"

lemma dm_example_ok: "dm_ok (builtin_table simple_ops) dm_example"
  unfolding dm_example_def register_builtin_drivers_def by (intro register_drivers_ok register_device_ok(3) dm_zero_ok)

lemma dm_example_parts:
  "device_count dm_example = 1" "dv_drv (devices dm_example ! 0) = None" "dv_bus (devices dm_example ! 0) = DRIVER_BUS_PLATFORM"
  "dv_class (devices dm_example ! 0) = DRIVER_CLASS_CHAR" "active_drivers dm_example = [1, 2, 3, 4, 5]"
  by (simp_all add: dm_example_def register_builtin_drivers_def driver_register_verified_def device_register_platform_def dm_zero_def
      MAX_DEVICES_def device_find_by_name_def device_find_def add_device_def active_drivers_def rtc_driver_def serial_driver_def fb_driver_def
      ps2_driver_def nvme_driver_def take_Cons' numeral_nat)

theorem device_manager_binds_witness:
  "\<exists>n dm1 n' dm2. device_manager_probe_all (builtin_table simple_ops) dm_example () = (n, dm1, ()) \<and>
     device_manager_init_all (builtin_table simple_ops) dm1 () = (n', dm2, ()) \<and>
     dv_drv (devices dm2 ! 0) = Some serial_driver \<and> dv_initialized (devices dm2 ! 0)"
proof -
  obtain n dm1 where 1: "device_manager_probe_all (builtin_table simple_ops) dm_example () = (n, dm1, ())"
    by (cases "device_manager_probe_all (builtin_table simple_ops) dm_example ()") auto
  obtain n' dm2 where 2: "device_manager_init_all (builtin_table simple_ops) dm1 () = (n', dm2, ())"
    by (cases "device_manager_init_all (builtin_table simple_ops) dm1 ()") auto
  have "find (matches (builtin_table simple_ops) (devices dm_example ! 0)) (active_drivers dm_example) = Some serial_driver"
    by (simp add: matches_def builtin_table_def dm_example_parts rtc_driver_def serial_driver_def)
  with device_manager_binds [OF simple_keeps dm_example_ok _ dm_example_parts(2) 1 2]
  have "dv_drv (devices dm2 ! 0) = Some serial_driver \<and> dv_initialized (devices dm2 ! 0)"
    by (auto simp: dm_example_parts(1) builtin_table_def simple_ops_def serial_driver_def rtc_driver_def split: option.splits)
  with 1 2 show ?thesis by blast
qed

end
