(* ===== verification/Driver_Sign.thy ===== *)
theory Driver_Sign
  imports Devices
begin

text \<open>
  Signed drivers (\<^verbatim>\<open>kernel/src/drivers/driver_sign.c\<close>, \<^verbatim>\<open>os_trust.c\<close>): the stand-ins for a hash function and a signature scheme, the store of trusted
  keys, and the check of a manifest.
\<close>

section \<open>Hash and signature\<close>

definition hash_step :: "u8 \<times> nat \<Rightarrow> u32 \<times> u32 \<times> u32 \<times> u32 \<Rightarrow> u32 \<times> u32 \<times> u32 \<times> u32" where
  "hash_step x s =
     (case x of (byte, i) \<Rightarrow> case s of (a, b, c, d) \<Rightarrow>
        let v = ucast byte :: u32;
            a = (a * 33) XOR (v + ucast (of_nat i :: u8));
            b = (b * 65537) XOR push_bit 1 v;
            c = c XOR (v * 0x9e3779b1);
            d = push_bit 5 d OR drop_bit 27 d;
            d = d XOR v
        in (a, b, c, d))"

definition le_bytes :: "u32 \<Rightarrow> u8 list" where
  "le_bytes w = [ucast w, ucast (drop_bit 8 w), ucast (drop_bit 16 w), ucast (drop_bit 24 w)]"

definition mock_sha256 :: "u8 list \<Rightarrow> u8 list" where
  "mock_sha256 bytes =
     (case fold hash_step (zip bytes [0..<length bytes]) (0x6a09e667, 0xbb67ae85, 0x3c6ef372, 0xa54ff53a) of
        (a, b, c, d) \<Rightarrow> concat (map le_bytes [a, b, c, d, a XOR b, b XOR c, c XOR d, d XOR a]))"

text \<open>Keys and hashes have 32 bytes, signatures 64.\<close>

definition mock_ed25519_verify :: "u8 list \<Rightarrow> u8 list \<Rightarrow> u8 list \<Rightarrow> int" where
  "mock_ed25519_verify pubkey msg_hash sig =
     (let x = map (\<lambda>i. pubkey ! i XOR sig ! i XOR sig ! (32 + i)) [0..<32] in if x = take 32 msg_hash then 0 else -1)"

section \<open>The trust store\<close>

definition MAX_TRUST :: nat where "MAX_TRUST = 16"

record os_trust_entry =
  pubkey_id :: "u8 list"
  pubkey :: "u8 list"
  revoked :: bool

record trust_state =
  TRUST :: "os_trust_entry list"
  TRUST_N :: nat

definition driver_sign_set_trust_store :: "os_trust_entry list option \<Rightarrow> trust_state \<Rightarrow> trust_state" where
  "driver_sign_set_trust_store ts s =
     (let s1 = s\<lparr>TRUST_N := 0\<rparr> in
      case ts of
        None \<Rightarrow> s1
      | Some entries \<Rightarrow> fold (\<lambda>i s. s\<lparr>TRUST := (TRUST s)[i := entries ! i]\<rparr>) [0..<min (length entries) MAX_TRUST] s1)"

definition find_entry :: "u8 list \<Rightarrow> trust_state \<Rightarrow> nat option" where
  "find_entry key s = find (\<lambda>i. take 32 (pubkey_id (TRUST s ! i)) = take 32 key) [0..<TRUST_N s]"

definition driver_sign_add_revocation :: "u8 list \<Rightarrow> trust_state \<Rightarrow> int \<times> trust_state" where
  "driver_sign_add_revocation key s =
     (case find_entry key s of
        None \<Rightarrow> (-1, s)
      | Some i \<Rightarrow> (0, s\<lparr>TRUST := (TRUST s)[i := (TRUST s ! i)\<lparr>revoked := True\<rparr>]\<rparr>))"

section \<open>Manifests\<close>

record driver_manifest =
  m_name :: "u8 list"
  m_version :: u32
  m_bus :: driver_bus
  m_class :: driver_class
  m_pubkey_id :: "u8 list"
  code_hash :: "u8 list"
  signature :: "u8 list"

primrec bus_byte :: "driver_bus \<Rightarrow> u8" where
  "bus_byte DRIVER_BUS_NONE = 0"
| "bus_byte DRIVER_BUS_PS2 = 1"
| "bus_byte DRIVER_BUS_PCI = 2"
| "bus_byte DRIVER_BUS_PLATFORM = 3"
| "bus_byte DRIVER_BUS_VIRTUAL = 4"

primrec class_byte :: "driver_class \<Rightarrow> u8" where
  "class_byte DRIVER_CLASS_MISC = 0"
| "class_byte DRIVER_CLASS_INPUT = 1"
| "class_byte DRIVER_CLASS_BLOCK = 2"
| "class_byte DRIVER_CLASS_NET = 3"
| "class_byte DRIVER_CLASS_DISPLAY = 4"
| "class_byte DRIVER_CLASS_CHAR = 5"

text \<open>The payload is the hash of the name, the version with its highest byte first, bus, class, two zeros and the hash of the code.\<close>

definition hash_manifest_payload :: "driver_manifest \<Rightarrow> u8 list" where
  "hash_manifest_payload m =
     mock_sha256 (mock_sha256 (m_name m) @ rev (le_bytes (m_version m)) @ [bus_byte (m_bus m), class_byte (m_class m), 0, 0] @ code_hash m)"

definition driver_sign_verify_manifest :: "driver_manifest option \<Rightarrow> trust_state \<Rightarrow> int" where
  "driver_sign_verify_manifest manifest s =
     (case manifest of
        None \<Rightarrow> -1
      | Some m \<Rightarrow>
          (case find_entry (m_pubkey_id m) s of
             None \<Rightarrow> -1
           | Some i \<Rightarrow> if revoked (TRUST s ! i) then -1
                       else mock_ed25519_verify (pubkey (TRUST s ! i)) (hash_manifest_payload m) (signature m)))"

section \<open>The keys of the system\<close>

definition TRUST_ENTRIES :: "os_trust_entry list" where
  "TRUST_ENTRIES = [\<lparr>pubkey_id = [0x11, 0x22, 0x33] @ replicate 29 0, pubkey = [0xAA, 0xBB, 0xCC] @ replicate 29 0, revoked = False\<rparr>]"

definition os_trust_init :: "trust_state \<Rightarrow> trust_state" where
  "os_trust_init s = driver_sign_set_trust_store (Some TRUST_ENTRIES) s"

section \<open>What the check is worth\<close>

lemma le_bytes_length [simp]: "length (le_bytes w) = 4"
  by (simp add: le_bytes_def)

lemma mock_sha256_length [simp]: "length (mock_sha256 bytes) = 32"
  by (simp add: mock_sha256_def split: prod.splits)

lemma set_trust_store_empty: "TRUST_N (driver_sign_set_trust_store ts s) = 0"
proof -
  have "TRUST_N (fold (\<lambda>i s. s\<lparr>TRUST := (TRUST s)[i := es ! i]\<rparr>) is s) = TRUST_N s" for es "is" and s :: trust_state
    by (induction "is" arbitrary: s) simp_all
  then show ?thesis by (simp add: driver_sign_set_trust_store_def Let_def split: option.splits)
qed

text \<open>
  The signature that anybody can compute from a public key and a manifest.
\<close>

definition forged :: "u8 list \<Rightarrow> driver_manifest \<Rightarrow> u8 list" where
  "forged key m = map2 (XOR) key (hash_manifest_payload m) @ replicate 32 0"

lemma forged_verifies:
  assumes "length key = 32"
  shows "mock_ed25519_verify key (hash_manifest_payload m) (forged key m) = 0"
proof -
  have len: "length (hash_manifest_payload m) = 32" by (simp add: hash_manifest_payload_def)
  have "map (\<lambda>i. key ! i XOR forged key m ! i XOR forged key m ! (32 + i)) [0..<32] = take 32 (hash_manifest_payload m)"
    using assms len by (intro nth_equalityI) (simp_all add: forged_def nth_append xor.assoc [symmetric])
  then show ?thesis by (simp add: mock_ed25519_verify_def)
qed

text \<open>
  C40: the signature check accepts nothing or proves nothing. Setting the store of trusted keys, as the system does at its start, leaves it empty, because the
  count of its entries is never set: no key can be revoked and every manifest is rejected. If the entries did count, then
  for every manifest of a trusted key there would be a signature, computed from the public key and the manifest alone, that is accepted.
\<close>

theorem driver_sign_useless:
  "driver_sign_verify_manifest manifest (driver_sign_set_trust_store ts s) = -1 \<and>
   driver_sign_verify_manifest manifest (os_trust_init s) = -1 \<and>
   fst (driver_sign_add_revocation key (driver_sign_set_trust_store ts s)) = -1 \<and>
   (find_entry (m_pubkey_id m) s' = Some i \<longrightarrow> \<not> revoked (TRUST s' ! i) \<longrightarrow> length (pubkey (TRUST s' ! i)) = 32 \<longrightarrow>
     driver_sign_verify_manifest (Some (m\<lparr>signature := forged (pubkey (TRUST s' ! i)) m\<rparr>)) s' = 0)"
proof -
  have empty: "TRUST_N (driver_sign_set_trust_store ts s) = 0" "TRUST_N (os_trust_init s) = 0"
    by (simp_all add: set_trust_store_empty os_trust_init_def)
  have "hash_manifest_payload (m\<lparr>signature := sig\<rparr>) = hash_manifest_payload m" for sig by (simp add: hash_manifest_payload_def)
  then show ?thesis using empty forged_verifies [of "pubkey (TRUST s' ! i)" m]
    by (simp add: driver_sign_verify_manifest_def driver_sign_add_revocation_def find_entry_def split: option.splits)
qed

definition manifest0 :: driver_manifest where
  "manifest0 = \<lparr>m_name = [110, 118, 109, 101], m_version = 1, m_bus = DRIVER_BUS_PCI, m_class = DRIVER_CLASS_BLOCK,
     m_pubkey_id = [0x11, 0x22, 0x33] @ replicate 29 0, code_hash = replicate 32 7, signature = []\<rparr>"

theorem driver_sign_useless_witness:
  "driver_sign_verify_manifest (Some (manifest0\<lparr>signature := forged ([0xAA, 0xBB, 0xCC] @ replicate 29 0) manifest0\<rparr>))
     \<lparr>TRUST = TRUST_ENTRIES, TRUST_N = 1\<rparr> = 0"
  using driver_sign_useless [of None None "\<lparr>TRUST = [], TRUST_N = 0\<rparr>" "[]" manifest0 "\<lparr>TRUST = TRUST_ENTRIES, TRUST_N = 1\<rparr>" 0]
  by (simp add: find_entry_def TRUST_ENTRIES_def manifest0_def)

end
