(* ===== verification/Spec2Isabelle.thy ===== *)
theory Spec2Isabelle
  imports Page_Props Proc_Table Exec_Props Stdio_Props Rtc_Props Serial_Props Ps2_Props Device_Props Driver_Sign
begin

text \<open>
  A verification development for dzOS, an x86-64 kernel written in C.

  \<^bold>\<open>The program.\<close> The kernel manages physical pages (\<^verbatim>\<open>kernel/src/mem/mem.c\<close>), builds page tables out of
  them (\<^verbatim>\<open>vmm.c\<close>) and keeps a heap for its own objects in them (\<^verbatim>\<open>kmalloc.c\<close>). Spin locks
  (\<^verbatim>\<open>common/spinlock.c\<close>) protect the process table (\<^verbatim>\<open>userspace/proc.c\<close>) and the run queues of the scheduler
  (\<^verbatim>\<open>userspace/scheduler.c\<close>); condition variables (\<^verbatim>\<open>common/condvar.c\<close>) put processes to sleep and wake them.
  Files live in a block file system (\<^verbatim>\<open>fs/dzfs.c\<close>) on a device reached through function pointers.

  \<^bold>\<open>How the theories follow the code.\<close>
  \<^item> \<open>Prelude\<close>: machine integers as words, address ranges, page rounding (with the 32-bit mask the macros
    really have), and the \<open>outcome\<close> of code that can panic. \<open>Memory\<close>: a byte memory with little-endian
    loads and stores and their frame facts.
  \<^item> \<open>Clib\<close>: \<^verbatim>\<open>common/lib.c\<close>, with the facts that copying, filling and comparing do what their names say.
  \<^item> \<open>Phys_Mem\<close>, \<open>Phys_Blocks\<close>, \<open>Phys_Boot\<close>, \<open>Phys_Props\<close>: \<^verbatim>\<open>mem.c\<close>. The state is the record \<open>kmem\<close> (memory, region list, head
    of the free list inside the free pages); \<open>phys_inv\<close> is its invariant, \<open>pool\<close> the set of free pages it stands for.
  \<^item> \<open>Paging\<close>, \<open>User_Space\<close>, \<open>Page_Maps\<close>, \<open>Page_Alloc\<close>, \<open>Page_Props\<close>: \<^verbatim>\<open>vmm.c\<close>. Page tables are words of that memory; the
    abstract view is the translation of virtual to physical pages, and mapping is a refinement of updating it.
  \<^item> \<open>Spinlock\<close>: the lock routines on one processor, and a step relation for their interleaving on several.
  \<^item> \<open>Scheduler\<close>, \<open>Run_Queue\<close>, \<open>Sched_Props\<close>: the run queues are lists linked through the process records;
    the locale \<open>ready_queues\<close> states what the queue operations promise, interpreted on the model's definitions. A turn of the
    scheduler and a system call that blocks are split where the code switches context.
  \<^item> \<open>Proc\<close>, \<open>Proc_Table\<close>: process table, exit and wait, break, sleep, stack canary and condition variables.
  \<^item> \<open>Kmalloc\<close>, \<open>Kmalloc_Props\<close>: the heap, whose page headers, arenas and slabs are bytes of the same memory.
  \<^item> \<open>Dzfs\<close>, \<open>Dzfs_Blocks\<close>, \<open>Dzfs_Files\<close>, \<open>Dzfs_Props\<close>: the file system over an arbitrary device. A block is its bytes at
    the offsets of \<^verbatim>\<open>union dzFSBlock\<close>. The only assumption on the device is \<open>keeps_writes\<close>: what was written without
    an error is read back and other blocks are untouched; results on success then need no assumption that I/O works.
  \<^item> \<open>Fs\<close>, \<open>Files\<close>, \<open>File_Props\<close>: the inode table (\<^verbatim>\<open>fs/fs.c\<close>), descriptors, character devices and system calls
    (\<^verbatim>\<open>fs/file.c\<close>, \<^verbatim>\<open>fs/device.c\<close>, \<^verbatim>\<open>fs/syscall.c\<close>) over the process table, the page tables, the heap and the file system.
  \<^item> \<open>User_Memory\<close>, \<open>Exec\<close>, \<open>Exec_Load\<close>, \<open>Exec_Props\<close>: the program loader (\<^verbatim>\<open>userspace/exec.c\<close>). \<open>User_Memory\<close> reads the memory of
    a process through its page tables; \<open>Exec_Load\<close> follows a program header by header.
  \<^item> \<open>Printf\<close>, \<open>Printf_Props\<close>: \<^verbatim>\<open>common/printf.c\<close>, printing to a console and into a buffer. \<open>Libc_Stdio\<close>, \<open>Stdio_Props\<close>: \<^verbatim>\<open>libc/src/stdio.c\<close>.
    Arithmetic on \<^verbatim>\<open>double\<close> is the parameter \<open>double_ops\<close>, of which nothing is assumed.
  \<^item> \<open>Rtc\<close>, \<open>Rtc_Props\<close>: the clock (\<^verbatim>\<open>drivers/drv_rtc.c\<close>), with a reference calendar.
  \<^item> \<open>Traces\<close>: runs of a device driven by events, with the interface \<open>event_simulation\<close> by which they are simulated. \<open>Serial\<close>, \<open>Serial_Props\<close>: the serial
    port (\<^verbatim>\<open>drivers/drv_serial.c\<close>), whose ring buffer simulates a bounded queue. \<open>Ps2\<close>, \<open>Ps2_Props\<close>: keyboard and mouse (\<^verbatim>\<open>drv_ps2.c\<close>, \<^verbatim>\<open>hw_ps2.c\<close>).
  \<^item> \<open>Devices\<close>, \<open>Device_Props\<close>: the device manager (\<^verbatim>\<open>drivers/device_manager.c\<close>) over arbitrary drivers; the interface \<open>device_turn\<close> covers its loops.
    \<open>Driver_Sign\<close>: the check of signed drivers (\<^verbatim>\<open>driver_sign.c\<close>, \<^verbatim>\<open>os_trust.c\<close>).

  \<^bold>\<open>What is shown.\<close> The page allocator hands out every free page once and takes it back; contiguous blocks are
  found whenever the free list or a region has one, and returned; the boot memory map is turned into exactly the usable pages below 4 GB. Mapping,
  allocating and the user heap change exactly the requested translations. They fail only when memory runs out, which the
  number of free pages before the call bounds: a page costs its frame and at most three tables. At most one processor is past the
  test-and-set. The run queues hold their members in order with consistent links, sizes and weights; a turn of the
  scheduler dispatches the best process, accounts for it and queues it again. The process table stays compact. Heap
  objects are disjoint and large ones give their pages back. Blocks of the disk are allocated and freed
  exactly, files read back what was written, folders keep their entries, a new file system opens, and created names are found.
  Descriptors keep the reference counts of the inodes, and what is written through them is read back after a seek. A program is loaded with its
  segments in place, writable and executable as their flags say. Printing into a buffer writes what printing to the console sends, cut off at the end of the buffer. The date is converted to seconds
  as the calendar says, but for one day early in leap years.
  Received characters reach their readers in order, text typed on a reference layout of a US keyboard is printed with either set of scancodes, and devices are bound to drivers of their bus and class.
  Several theorems state what the code does where it differs from its comments: they are the ones the list of findings names.

  \<^bold>\<open>Loops and errors.\<close> Loops over data that shrinks are total functions with a measure. Loops over linked structures in
  memory, which a cycle could keep running, are \<open>partial_function (option)\<close>: \<open>None\<close> is a run that does not end, and
  the theorems show that a result exists. A panic is a value of \<open>outcome\<close>; the file system returns its error numbers.

  \<^bold>\<open>Not modelled.\<close> Boot protocol structures, descriptor tables, interrupt stubs and the assembly context switch
  act on processor state the C code does not define. The disk, bus and display drivers talk to hardware whose behaviour is not in the sources. TLB
  invalidation and FPU state have no effect in the model. The string functions and the allocator of the user C library are left out.
\<close>

end
